(* ===== verification/Ogs_Prelude.thy ===== *)
theory Ogs_Prelude
  imports Main "HOL-Library.Word" "HOL-Library.Monad_Syntax"
begin

unbundle bit_operations_syntax

section \<open>Shared vocabulary of the development\<close>

text \<open>
  The prelude of the development: the machine types of the C sources, the
  status codes of lib/core, the network byte order codec every wire format
  uses, ring buffers (the pools and the event queue are rings), and facts on
  lists and options that the components share.

  Conventions of all theories: a C function becomes a HOL function over
  explicit state. A pointer is an option, \<open>None\<close> being NULL. Where the C code
  can abort (a failed \<open>ogs_assert\<close>), dereference NULL or read outside a buffer,
  the function returns an option and \<open>None\<close> is that outcome.
\<close>

type_synonym u8 = "8 word"
type_synonym u16 = "16 word"
type_synonym u32 = "32 word"
type_synonym u64 = "64 word"

text \<open>Collections that the component proofs draw on.\<close>

named_theorems ring_simps \<open>ring buffer index facts\<close>
named_theorems byte_codec \<open>round trips of the big-endian codec\<close>

subsection \<open>Status codes (lib/core/ogs-errno.h)\<close>

datatype status = OGS_OK | OGS_ERROR | OGS_RETRY | OGS_TIMEUP | OGS_DONE

fun status_code :: "status \<Rightarrow> int" where
  "status_code OGS_OK = 0"
| "status_code OGS_ERROR = -1"
| "status_code OGS_RETRY = -2"
| "status_code OGS_TIMEUP = -3"
| "status_code OGS_DONE = -4"

subsection \<open>Socket addresses (lib/core/ogs-sockaddr.h) and event identifiers (lib/proto/event.h)\<close>

text \<open>An IPv4 socket address, with port and address as numbers.\<close>

record sockaddr =
  sin_port :: u16
  sin_addr :: u32

definition OGS_EVENT_SBI_SERVER :: int where "OGS_EVENT_SBI_SERVER = 3"
definition OGS_EVENT_SBI_CLIENT :: int where "OGS_EVENT_SBI_CLIENT = 4"
definition OGS_EVENT_SBI_TIMER :: int where "OGS_EVENT_SBI_TIMER = 5"
definition OGS_MAX_NUM_OF_PROTO_EVENT :: int where "OGS_MAX_NUM_OF_PROTO_EVENT = 6"

lemmas proto_event_defs = OGS_EVENT_SBI_SERVER_def OGS_EVENT_SBI_CLIENT_def OGS_EVENT_SBI_TIMER_def
  OGS_MAX_NUM_OF_PROTO_EVENT_def

subsection \<open>Assertions\<close>

text \<open>\<open>ogs_assert\<close> aborts the process when its condition is false.\<close>

definition ogs_assert :: "bool \<Rightarrow> unit option" where
  "ogs_assert b = (if b then Some () else None)"

lemma ogs_assert_simps [simp]:
  "ogs_assert True = Some ()"
  "ogs_assert False = None"
  "(ogs_assert b = Some u) = b"
  "(ogs_assert b = None) = (\<not> b)"
  by (simp_all add: ogs_assert_def)

lemma ogs_assert_bind [simp]:
  "(ogs_assert b \<bind> f = Some y) = (b \<and> f () = Some y)"
  "(ogs_assert b \<bind> f = None) = (\<not> b \<or> f () = None)"
  by (simp_all add: ogs_assert_def)

text \<open>A loop whose body may abort, over the elements of a list in order.\<close>

fun foldM :: "('b \<Rightarrow> 'a \<Rightarrow> 'a option) \<Rightarrow> 'b list \<Rightarrow> 'a \<Rightarrow> 'a option" where
  "foldM f [] s = Some s"
| "foldM f (x # xs) s = f x s \<bind> foldM f xs"

lemma foldM_append: "foldM f (xs @ ys) s = foldM f xs s \<bind> foldM f ys"
  by (induction xs arbitrary: s) (auto split: bind_splits)

lemma foldM_invariant:
  assumes "P s" "\<And>x s. x \<in> set xs \<Longrightarrow> P s \<Longrightarrow> \<exists>s'. f x s = Some s' \<and> P s'"
  shows "\<exists>s'. foldM f xs s = Some s' \<and> P s'"
  using assms
proof (induction xs arbitrary: s)
  case (Cons x xs)
  obtain s' where "f x s = Some s'" "P s'" using Cons.prems by (metis list.set_intros(1))
  moreover have "\<exists>s''. foldM f xs s' = Some s'' \<and> P s''"
    using \<open>P s'\<close> Cons.prems(2) by (intro Cons.IH) auto
  ultimately show ?case by simp
qed simp

subsection \<open>Lists seen from their ends\<close>

text \<open>
  \<open>hd_or s xs\<close> and \<open>last_or p xs\<close> are the pointer to the first and the last
  element of a sequence, or the given pointer when the sequence is empty.
\<close>

fun hd_or :: "'a option \<Rightarrow> 'a list \<Rightarrow> 'a option" where
  "hd_or s [] = s"
| "hd_or s (x # xs) = Some x"

fun last_or :: "'a option \<Rightarrow> 'a list \<Rightarrow> 'a option" where
  "last_or p [] = p"
| "last_or p (x # xs) = last_or (Some x) xs"

lemma hd_or_append [simp]: "hd_or s (xs @ ys) = hd_or (hd_or s ys) xs"
  by (cases xs) simp_all

lemma last_or_append [simp]: "last_or p (xs @ ys) = last_or (last_or p xs) ys"
  by (induction xs arbitrary: p) simp_all

lemma last_or_Some: "xs \<noteq> [] \<Longrightarrow> last_or p xs = Some (last xs)"
  by (induction xs arbitrary: p) (auto split: if_splits)

lemma hd_or_Some: "xs \<noteq> [] \<Longrightarrow> hd_or p xs = Some (hd xs)"
  by (cases xs) auto

lemma hd_or_None_iff [simp]: "hd_or None xs = None \<longleftrightarrow> xs = []"
  by (cases xs) simp_all

lemma last_or_None_iff [simp]: "last_or None xs = None \<longleftrightarrow> xs = []"
  by (cases "xs = []") (simp_all add: last_or_Some)

lemma split_list_eq:
  assumes "distinct (as @ x # bs)"
  shows "remove1 x (as @ x # bs) = as @ bs"
  using assms by (simp add: remove1_append)

lemma length_takeWhile_less:
  "x \<in> set xs \<Longrightarrow> \<not> P x \<Longrightarrow> length (takeWhile P xs) < length xs"
  by (induction xs) auto

subsection \<open>Ring buffers\<close>

text \<open>
  The \<open>n\<close> slots of a ring \<open>buf\<close> that start at index \<open>start\<close>. The pools' free
  rings and the event queue store their contents this way.
\<close>

definition ring :: "'a list \<Rightarrow> nat \<Rightarrow> nat \<Rightarrow> 'a list" where
  "ring buf start n = map (\<lambda>i. buf ! ((start + i) mod length buf)) [0..<n]"

lemma length_ring [simp]: "length (ring buf start n) = n"
  by (simp add: ring_def)

lemma nth_ring: "i < n \<Longrightarrow> ring buf start n ! i = buf ! ((start + i) mod length buf)"
  by (simp add: ring_def)

lemma ring_0 [simp, ring_simps]: "ring buf start 0 = []"
  by (simp add: ring_def)

lemma ring_Suc_hd [ring_simps]:
  assumes "start < length buf"
  shows "ring buf start (Suc n) = buf ! start # ring buf (Suc start mod length buf) n"
proof (rule nth_equalityI)
  fix i assume "i < length (ring buf start (Suc n))"
  then show "ring buf start (Suc n) ! i
      = (buf ! start # ring buf (Suc start mod length buf) n) ! i"
    using assms by (cases i) (simp_all add: nth_ring mod_simps)
qed simp

lemma mod_ring_neq:
  fixes a i j L :: nat
  assumes "i < j" "j < L"
  shows "(a + i) mod L \<noteq> (a + j) mod L"
proof
  assume "(a + i) mod L = (a + j) mod L"
  then have "L dvd (a + j) - (a + i)"
    using assms by (metis add_le_cancel_left less_imp_le_nat mod_eq_dvd_iff_nat)
  then have "L dvd j - i" by simp
  with assms show False by (meson dvd_imp_le less_imp_diff_less not_less zero_less_diff)
qed

lemma mod_ring_inj [ring_simps]:
  fixes a i j L :: nat
  assumes "i < L" "j < L"
  shows "(a + i) mod L = (a + j) mod L \<longleftrightarrow> i = j"
  using assms mod_ring_neq [of i j L a] mod_ring_neq [of j i L a]
  by (metis linorder_neqE_nat)

text \<open>Writing a slot outside the occupied range leaves the contents alone.\<close>

lemma ring_update_other [ring_simps]:
  assumes "j < length buf" "n \<le> j" "start < length buf"
  shows "ring (buf[(start + j) mod length buf := v]) start n = ring buf start n"
proof (rule nth_equalityI)
  fix i assume "i < length (ring (buf[(start + j) mod length buf := v]) start n)"
  then have "i < n" by simp
  with assms have "(start + j) mod length buf \<noteq> (start + i) mod length buf"
    using mod_ring_inj [of j "length buf" i start] by simp
  then show "ring (buf[(start + j) mod length buf := v]) start n ! i = ring buf start n ! i"
    using \<open>i < n\<close> by (simp add: nth_ring)
qed simp

text \<open>Writing the slot after the last one appends it to the contents.\<close>

lemma ring_snoc [ring_simps]:
  assumes "n < length buf" "start < length buf"
  shows "ring (buf[(start + n) mod length buf := v]) start (Suc n) = ring buf start n @ [v]"
proof -
  let ?b = "buf[(start + n) mod length buf := v]"
  have "(start + n) mod length buf < length buf"
    using assms by (intro mod_less_divisor) linarith
  have "ring ?b start (Suc n) = ring ?b start n @ [?b ! ((start + n) mod length buf)]"
    by (simp add: ring_def)
  also have "\<dots> = ring buf start n @ [v]"
    using assms \<open>(start + n) mod length buf < length buf\<close>
    by (simp add: ring_update_other)
  finally show ?thesis .
qed

text \<open>Clearing the slot that was just taken off leaves the rest alone.\<close>

lemma ring_update_head [ring_simps]:
  assumes "start < length buf" "n < length buf"
  shows "ring (buf[start := v]) (Suc start mod length buf) n = ring buf (Suc start mod length buf) n"
proof (rule nth_equalityI)
  fix i assume "i < length (ring (buf[start := v]) (Suc start mod length buf) n)"
  then have "i < n" by simp
  have "length buf \<noteq> 0" using assms by linarith
  have "(start + Suc i) mod length buf \<noteq> (start + 0) mod length buf"
    using assms \<open>i < n\<close> mod_ring_inj [of "Suc i" "length buf" 0 start] by linarith
  then have "(Suc start mod length buf + i) mod length buf \<noteq> start"
    using assms \<open>length buf \<noteq> 0\<close> by (simp add: mod_simps)
  then show "ring (buf[start := v]) (Suc start mod length buf) n ! i
      = ring buf (Suc start mod length buf) n ! i"
    using \<open>i < n\<close> by (simp add: nth_ring)
qed simp

subsection \<open>Words\<close>

lemma unat_mask:
  assumes "k \<le> LENGTH('a)"
  shows "unat (mask k :: 'a :: len word) = 2 ^ k - 1"
proof -
  have "uint (mask k :: 'a word) = mask k"
    using assms by (simp only: uint_mask_eq min_absorb2)
  then have "nat (uint (mask k :: 'a word)) = nat (mask k)" by simp
  moreover have "nat (mask k) = 2 ^ k - 1"
    by (simp add: mask_eq_exp_minus_1 nat_diff_distrib nat_power_eq)
  ultimately show ?thesis by simp
qed

lemma unat_and_le: "unat (a AND b) \<le> unat (b :: 'a :: len word)"
  by (simp add: word_and_le1 flip: word_le_nat_alt)

lemma unat_Suc_less:
  assumes "x < (y :: 'a :: len word)"
  shows "unat (x + 1) = Suc (unat x)"
proof -
  have "unat y < 2 ^ LENGTH('a)" by (rule unsigned_less)
  moreover have "unat x < unat y" using assms by (simp add: word_less_nat_alt)
  ultimately have "Suc (unat x) < 2 ^ LENGTH('a)" by linarith
  then show ?thesis by (simp add: unat_word_ariths)
qed

lemma unat_Suc_no_wrap: "x \<noteq> - 1 \<Longrightarrow> unat (x + 1 :: 'a :: len word) = Suc (unat x)"
  by (rule unat_Suc_less [of x "- 1"]) (simp add: order.strict_iff_order word_order.extremum)

lemma unat_of_nat_small: "n < 2 ^ LENGTH('a) \<Longrightarrow> unat (of_nat n :: 'a :: len word) = n"
  by (simp add: unsigned_of_nat take_bit_nat_eq_self)

lemma small_take_bit: "unat (x :: 'a :: len word) < 2 ^ k \<Longrightarrow> take_bit k x = x"
  by (simp add: word_unat_eq_iff unsigned_take_bit_eq take_bit_nat_eq_self)

lemma bit_small: "unat (x :: 'a :: len word) < 2 ^ k \<Longrightarrow> bit x n \<Longrightarrow> n < k"
  by (metis bit_take_bit_iff small_take_bit)

lemma and_ff: "x AND 0xFF = take_bit 8 (x :: u32)"
  by (simp add: take_bit_eq_mask mask_eq_exp_minus_1)

lemma and_ff_byte [simp]: "x AND 0xFF = (x :: u8)"
proof -
  have "(0xFF :: u8) = - 1" by simp
  then show ?thesis by (simp only: and.right_neutral)
qed

subsection \<open>Network byte order\<close>

text \<open>
  \<open>htobe16\<close>/\<open>htobe32\<close> followed by a \<open>memcpy\<close>, and the reads that undo them:
  most significant byte first.
\<close>

definition be16 :: "u16 \<Rightarrow> u8 list" where
  "be16 x = [ucast (drop_bit 8 x), ucast x]"

definition be24 :: "u32 \<Rightarrow> u8 list" where
  "be24 x = [ucast (drop_bit 16 x), ucast (drop_bit 8 x), ucast x]"

definition be32 :: "u32 \<Rightarrow> u8 list" where
  "be32 x = [ucast (drop_bit 24 x), ucast (drop_bit 16 x), ucast (drop_bit 8 x), ucast x]"

definition rd16 :: "u8 \<Rightarrow> u8 \<Rightarrow> u16" where
  "rd16 a b = push_bit 8 (ucast a) OR ucast b"

definition rd24 :: "u8 \<Rightarrow> u8 \<Rightarrow> u8 \<Rightarrow> u32" where
  "rd24 a b c = push_bit 16 (ucast a) OR push_bit 8 (ucast b) OR ucast c"

definition rd32 :: "u8 \<Rightarrow> u8 \<Rightarrow> u8 \<Rightarrow> u8 \<Rightarrow> u32" where
  "rd32 a b c d =
     push_bit 24 (ucast a) OR push_bit 16 (ucast b) OR push_bit 8 (ucast c) OR ucast d"

lemma length_be [simp]:
  "length (be16 h) = 2" "length (be24 w) = 3" "length (be32 w) = 4"
  by (simp_all add: be16_def be24_def be32_def)

lemma rd16_be16 [simp, byte_codec]:
  "rd16 (ucast (drop_bit 8 x)) (ucast x) = x"
  by (rule bit_word_eqI) (auto simp: rd16_def bit_simps)

lemma rd24_be24 [byte_codec]:
  "rd24 (ucast (drop_bit 16 x)) (ucast (drop_bit 8 x)) (ucast x) = take_bit 24 x"
proof (rule bit_word_eqI)
  fix n assume "n < LENGTH(32)"
  consider "n < 8" | "8 \<le> n" "n < 16" | "16 \<le> n" by linarith
  then show "bit (rd24 (ucast (drop_bit 16 x)) (ucast (drop_bit 8 x)) (ucast x)) n
      = bit (take_bit 24 x) n"
    by cases (auto simp: rd24_def bit_simps)
qed

lemma rd32_be32 [simp, byte_codec]:
  "rd32 (ucast (drop_bit 24 x)) (ucast (drop_bit 16 x)) (ucast (drop_bit 8 x)) (ucast x) = x"
proof (rule bit_word_eqI)
  fix n assume "n < LENGTH(32)"
  consider "n < 8" | "8 \<le> n" "n < 16" | "16 \<le> n" "n < 24" | "24 \<le> n" by linarith
  then show "bit (rd32 (ucast (drop_bit 24 x)) (ucast (drop_bit 16 x)) (ucast (drop_bit 8 x))
      (ucast x)) n = bit x n"
    using \<open>n < LENGTH(32)\<close> by cases (auto simp: rd32_def bit_simps)
qed

lemma byte_high_bits [simp]:
  "\<not> bit (b :: u8) (8 + n)" "\<not> bit (b :: u8) (16 + n)" "\<not> bit (b :: u8) (24 + n)"
  by (auto dest!: bit_imp_le_length)

lemma be16_rd16 [simp, byte_codec]: "be16 (rd16 a b) = [a, b]"
  by (auto simp: be16_def rd16_def bit_simps intro!: bit_word_eqI)

lemma be32_rd32 [simp, byte_codec]: "be32 (rd32 a b c d) = [a, b, c, d]"
  by (auto simp: be32_def rd32_def bit_simps intro!: bit_word_eqI)

subsection \<open>Numbers in host byte order\<close>

text \<open>The bytes behind a pointer to a number, on a little-endian host: what the hash tables see of a numeric key.\<close>

definition le32 :: "u32 \<Rightarrow> u8 list" where
  "le32 x = rev (be32 x)"

definition le64 :: "u64 \<Rightarrow> u8 list" where
  "le64 x = map (\<lambda>i. ucast (drop_bit (8 * i) x)) [0..<8]"

lemma length_le [simp]: "length (le32 w) = 4" "length (le64 x) = 8"
  by (simp_all add: le32_def le64_def)

lemma le32_inject [simp]: "le32 x = le32 y \<longleftrightarrow> x = y"
proof
  assume "le32 x = le32 y"
  then have "be32 x = be32 y" by (simp add: le32_def)
  then have "rd32 (be32 x ! 0) (be32 x ! 1) (be32 x ! 2) (be32 x ! 3)
      = rd32 (be32 y ! 0) (be32 y ! 1) (be32 y ! 2) (be32 y ! 3)"
    by simp
  then show "x = y" by (simp add: be32_def)
qed simp

lemma le64_inject [simp]: "le64 x = le64 y \<longleftrightarrow> x = y"
proof
  assume eq: "le64 x = le64 y"
  show "x = y"
  proof (rule bit_word_eqI)
    fix n assume n: "n < LENGTH(64)"
    have "n div 8 < 8" using n by simp
    then have nth: "le64 z ! (n div 8) = ucast (drop_bit (8 * (n div 8)) z)" for z
      by (simp add: le64_def del: upt.simps)
    have "bit (le64 z ! (n div 8)) (n mod 8) = bit z n" for z
      using n by (simp add: nth bit_simps)
    then show "bit x n = bit y n" using eq by metis
  qed
qed simp

end
