(* ===== verification/Ogs_List.thy ===== *)
theory Ogs_List
  imports Ogs_Prelude
begin

section \<open>The intrusive doubly linked list (lib/core/ogs-list.h)\<close>

text \<open>
  Sessions, PDRs, gNBs and transactions all sit on these lists. A list header
  and a list node are the same C struct, a pair of pointers, so one heap maps
  every address to such a pair. In a header \<open>next\<close> is the first node and \<open>prev\<close>
  the last one. \<open>list_repr h l xs\<close> says that the header at \<open>l\<close> holds the nodes \<open>xs\<close> in
  order; each operation is shown to implement its list-level counterpart,
  and the loops over a well-formed list are shown to return.
\<close>

record 'a ogs_lnode =
  prev :: "'a option"
  "next" :: "'a option"

type_synonym 'a lheap = "'a \<Rightarrow> 'a ogs_lnode"

definition set_prev :: "'a \<Rightarrow> 'a option \<Rightarrow> 'a lheap \<Rightarrow> 'a lheap" where
  "set_prev a p h = h(a := (h a)\<lparr>prev := p\<rparr>)"

definition set_next :: "'a \<Rightarrow> 'a option \<Rightarrow> 'a lheap \<Rightarrow> 'a lheap" where
  "set_next a p h = h(a := (h a)\<lparr>next := p\<rparr>)"

subsection \<open>Operations\<close>

definition ogs_list_init :: "'a \<Rightarrow> 'a lheap \<Rightarrow> 'a lheap" where
  "ogs_list_init list h = set_next list None (set_prev list None h)"

definition ogs_list_copy :: "'a \<Rightarrow> 'a \<Rightarrow> 'a lheap \<Rightarrow> 'a lheap" where
  "ogs_list_copy dst src h =
     (let h = set_prev dst (prev (h src)) h in set_next dst (next (h src)) h)"

definition ogs_list_first :: "'a lheap \<Rightarrow> 'a \<Rightarrow> 'a option" where
  "ogs_list_first h list = next (h list)"

definition ogs_list_last :: "'a lheap \<Rightarrow> 'a \<Rightarrow> 'a option" where
  "ogs_list_last h list = prev (h list)"

definition ogs_list_next :: "'a lheap \<Rightarrow> 'a \<Rightarrow> 'a option" where
  "ogs_list_next h node = next (h node)"

definition ogs_list_prev :: "'a lheap \<Rightarrow> 'a \<Rightarrow> 'a option" where
  "ogs_list_prev h node = prev (h node)"

definition ogs_list_prepend :: "'a \<Rightarrow> 'a \<Rightarrow> 'a lheap \<Rightarrow> 'a lheap" where
  "ogs_list_prepend list node h =
     (let h = set_prev node None h;
          h = set_next node (next (h list)) h;
          h = (case next (h list) of
                 Some n \<Rightarrow> set_prev n (Some node) h
               | None \<Rightarrow> set_prev list (Some node) h)
      in set_next list (Some node) h)"

definition ogs_list_add :: "'a \<Rightarrow> 'a \<Rightarrow> 'a lheap \<Rightarrow> 'a lheap" where
  "ogs_list_add list node h =
     (let h = set_prev node (prev (h list)) h;
          h = set_next node None h;
          h = (case prev (h list) of
                 Some p \<Rightarrow> set_next p (Some node) h
               | None \<Rightarrow> set_next list (Some node) h)
      in set_prev list (Some node) h)"

definition ogs_list_remove :: "'a \<Rightarrow> 'a \<Rightarrow> 'a lheap \<Rightarrow> 'a lheap" where
  "ogs_list_remove list node h =
     (let pr = prev (h node); nx = next (h node);
          h = (case pr of Some p \<Rightarrow> set_next p nx h | None \<Rightarrow> set_next list nx h)
      in case nx of Some n \<Rightarrow> set_prev n pr h | None \<Rightarrow> set_prev list pr h)"

definition ogs_list_insert_prev :: "'a \<Rightarrow> 'a \<Rightarrow> 'a \<Rightarrow> 'a lheap \<Rightarrow> 'a lheap" where
  "ogs_list_insert_prev list nxt node h =
     (let h = set_prev node (prev (h nxt)) h;
          h = set_next node (Some nxt) h;
          h = (case prev (h nxt) of
                 Some p \<Rightarrow> set_next p (Some node) h
               | None \<Rightarrow> set_next list (Some node) h)
      in set_prev nxt (Some node) h)"

definition ogs_list_insert_next :: "'a \<Rightarrow> 'a \<Rightarrow> 'a \<Rightarrow> 'a lheap \<Rightarrow> 'a lheap" where
  "ogs_list_insert_next list prv node h =
     (let h = set_prev node (Some prv) h;
          h = set_next node (next (h prv)) h;
          h = (case next (h prv) of
                 Some n \<Rightarrow> set_prev n (Some node) h
               | None \<Rightarrow> set_prev list (Some node) h)
      in set_next prv (Some node) h)"

text \<open>
  The loops follow \<open>next\<close> from a node until NULL; on a cyclic heap they do not
  return, which is \<open>None\<close>. \<open>find_greater\<close> is the loop of
  \<open>__ogs_list_insert_sorted\<close>: the first node that compares greater, if any.
\<close>

partial_function (option) find_greater ::
  "('a \<Rightarrow> 'a \<Rightarrow> int) \<Rightarrow> 'a \<Rightarrow> 'a lheap \<Rightarrow> 'a option \<Rightarrow> 'a option option" where
  "find_greater compare node h iter =
     (case iter of
        None \<Rightarrow> Some None
      | Some i \<Rightarrow> if compare node i < 0 then Some (Some i)
                  else find_greater compare node h (next (h i)))"

definition ogs_list_insert_sorted ::
  "('a \<Rightarrow> 'a \<Rightarrow> int) \<Rightarrow> 'a \<Rightarrow> 'a \<Rightarrow> 'a lheap \<Rightarrow> 'a lheap option" where
  "ogs_list_insert_sorted compare list node h =
     do { iter \<leftarrow> find_greater compare node h (next (h list));
          case iter of
            Some i \<Rightarrow> Some (ogs_list_insert_prev list i node h)
          | None \<Rightarrow> Some (ogs_list_add list node h) }"

definition ogs_list_empty :: "'a lheap \<Rightarrow> 'a \<Rightarrow> bool" where
  "ogs_list_empty h list \<longleftrightarrow> next (h list) = None"

partial_function (option) count_from :: "'a lheap \<Rightarrow> 'a option \<Rightarrow> int \<Rightarrow> int option" where
  "count_from h node i =
     (case node of None \<Rightarrow> Some i | Some n \<Rightarrow> count_from h (next (h n)) (i + 1))"

definition ogs_list_count :: "'a lheap \<Rightarrow> 'a \<Rightarrow> int option" where
  "ogs_list_count h list = count_from h (next (h list)) 0"

partial_function (option) exists_from :: "'a lheap \<Rightarrow> 'a \<Rightarrow> 'a option \<Rightarrow> bool option" where
  "exists_from h node iter =
     (case iter of
        None \<Rightarrow> Some False
      | Some i \<Rightarrow> if node = i then Some True else exists_from h node (next (h i)))"

definition ogs_list_exists :: "'a lheap \<Rightarrow> 'a \<Rightarrow> 'a \<Rightarrow> bool option" where
  "ogs_list_exists h list node = exists_from h node (next (h list))"

lemmas list_op_defs =
  ogs_list_prepend_def ogs_list_add_def ogs_list_remove_def
  ogs_list_insert_prev_def ogs_list_insert_next_def set_prev_def set_next_def

subsection \<open>Abstraction\<close>

fun seg :: "'a lheap \<Rightarrow> 'a option \<Rightarrow> 'a list \<Rightarrow> 'a option \<Rightarrow> bool" where
  "seg h p [] s \<longleftrightarrow> True"
| "seg h p (x # xs) s \<longleftrightarrow> prev (h x) = p \<and> next (h x) = hd_or s xs \<and> seg h (Some x) xs s"

definition list_repr :: "'a lheap \<Rightarrow> 'a \<Rightarrow> 'a list \<Rightarrow> bool" where
  "list_repr h l xs \<longleftrightarrow> distinct (l # xs) \<and> next (h l) = hd_or None xs
     \<and> prev (h l) = last_or None xs \<and> seg h None xs None"

lemma seg_append [simp]:
  "seg h p (xs @ ys) s \<longleftrightarrow> seg h p xs (hd_or s ys) \<and> seg h (last_or p xs) ys s"
  by (induction xs arbitrary: p) auto

lemma seg_cong:
  "(\<And>x. x \<in> set xs \<Longrightarrow> h' x = h x) \<Longrightarrow> seg h' p xs s = seg h p xs s"
  by (induction xs arbitrary: p) auto

lemma list_repr_frame:
  assumes "list_repr h l xs" "\<And>x. x \<in> set (l # xs) \<Longrightarrow> h' x = h x"
  shows "list_repr h' l xs"
  using assms seg_cong [of xs h' h None None] by (simp add: list_repr_def)

lemma seg_upd [simp]: "x \<notin> set xs \<Longrightarrow> seg (h(x := v)) p xs s = seg h p xs s"
  by (rule seg_cong) auto

subsection \<open>Each operation implements its list counterpart\<close>

lemma list_repr_init [simp]: "list_repr (ogs_list_init l h) l []"
  by (simp add: list_repr_def ogs_list_init_def set_prev_def set_next_def)

lemma list_repr_prepend:
  assumes "list_repr h l xs" "x \<notin> set (l # xs)"
  shows "list_repr (ogs_list_prepend l x h) l (x # xs)"
  using assms by (cases xs) (auto simp: list_repr_def list_op_defs Let_def)

lemma list_repr_add:
  assumes "list_repr h l xs" "x \<notin> set (l # xs)"
  shows "list_repr (ogs_list_add l x h) l (xs @ [x])"
  using assms by (cases xs rule: rev_cases) (auto simp: list_repr_def list_op_defs Let_def)

lemma list_repr_remove_split:
  assumes "list_repr h l (as @ x # bs)"
  shows "list_repr (ogs_list_remove l x h) l (as @ bs)"
  using assms by (cases as rule: rev_cases; cases bs)
    (auto simp: list_repr_def list_op_defs Let_def)

lemma list_repr_remove:
  assumes "list_repr h l xs" "x \<in> set xs"
  shows "list_repr (ogs_list_remove l x h) l (remove1 x xs)"
proof -
  from assms(2) obtain as bs where xs: "xs = as @ x # bs" by (auto simp: in_set_conv_decomp)
  moreover have "distinct xs" using assms(1) by (simp add: list_repr_def)
  ultimately show ?thesis
    using list_repr_remove_split [of h l as x bs] assms(1) by (simp add: split_list_eq)
qed

lemma list_repr_insert_prev:
  assumes "list_repr h l (as @ y # bs)" "x \<notin> set (l # as @ y # bs)"
  shows "list_repr (ogs_list_insert_prev l y x h) l (as @ x # y # bs)"
  using assms by (cases as rule: rev_cases) (auto simp: list_repr_def list_op_defs Let_def)

lemma list_repr_insert_next:
  assumes "list_repr h l (as @ y # bs)" "x \<notin> set (l # as @ y # bs)"
  shows "list_repr (ogs_list_insert_next l y x h) l (as @ y # x # bs)"
  using assms by (cases bs; cases as rule: rev_cases) (auto simp: list_repr_def list_op_defs Let_def)

lemma list_repr_ends:
  assumes "list_repr h l xs"
  shows "ogs_list_first h l = hd_or None xs" "ogs_list_last h l = last_or None xs"
    "ogs_list_empty h l \<longleftrightarrow> xs = []"
  using assms by (auto simp: list_repr_def ogs_list_first_def ogs_list_last_def ogs_list_empty_def)

lemma list_repr_neighbours:
  assumes "list_repr h l (as @ x # bs)"
  shows "ogs_list_next h x = hd_or None bs" "ogs_list_prev h x = last_or None as"
  using assms by (auto simp: list_repr_def ogs_list_next_def ogs_list_prev_def)

text \<open>An operation on one list leaves a disjoint list alone.\<close>

lemma list_ops_frame:
  assumes "a \<notin> set (l # x # xs)" "list_repr h l xs"
  shows "ogs_list_add l x h a = h a" "ogs_list_prepend l x h a = h a"
    "x \<in> set xs \<Longrightarrow> ogs_list_remove l x h a = h a"
proof -
  show "ogs_list_add l x h a = h a"
    using assms by (cases xs rule: rev_cases) (auto simp: list_repr_def list_op_defs Let_def)
  show "ogs_list_prepend l x h a = h a"
    using assms by (cases xs) (auto simp: list_repr_def list_op_defs Let_def)
  assume "x \<in> set xs"
  then obtain as bs where "xs = as @ x # bs" by (auto simp: in_set_conv_decomp)
  then show "ogs_list_remove l x h a = h a"
    using assms by (cases as rule: rev_cases; cases bs)
      (auto simp: list_repr_def list_op_defs Let_def)
qed

subsection \<open>The loops return\<close>

text \<open>Insertion in front of the first element that compares greater.\<close>

fun insert_before_greater :: "('a \<Rightarrow> 'a \<Rightarrow> int) \<Rightarrow> 'a \<Rightarrow> 'a list \<Rightarrow> 'a list" where
  "insert_before_greater c x [] = [x]"
| "insert_before_greater c x (y # ys) =
     (if c x y < 0 then x # y # ys else y # insert_before_greater c x ys)"

lemma count_from_seg:
  "seg h p xs None \<Longrightarrow> count_from h (hd_or None xs) i = Some (i + int (length xs))"
  by (induction xs arbitrary: p i) (auto simp: count_from.simps [of h "None"] count_from.simps [of h "Some _"])

lemma exists_from_seg:
  "seg h p xs None \<Longrightarrow> exists_from h x (hd_or None xs) = Some (x \<in> set xs)"
  by (induction xs arbitrary: p)
    (auto simp: exists_from.simps [of h x "None"] exists_from.simps [of h x "Some _"])

lemma find_greater_seg:
  "seg h p xs None \<Longrightarrow>
   find_greater c x h (hd_or None xs) = Some (hd_or None (dropWhile (\<lambda>y. \<not> c x y < 0) xs))"
  by (induction xs arbitrary: p)
    (auto simp: find_greater.simps [of c x h "None"] find_greater.simps [of c x h "Some _"])

lemma insert_before_greater_split:
  "insert_before_greater c x xs
     = takeWhile (\<lambda>y. \<not> c x y < 0) xs @ x # dropWhile (\<lambda>y. \<not> c x y < 0) xs"
  by (induction xs) auto

lemma list_repr_count: "list_repr h l xs \<Longrightarrow> ogs_list_count h l = Some (int (length xs))"
  using count_from_seg [of h None xs 0] by (simp add: list_repr_def ogs_list_count_def)

lemma list_repr_exists: "list_repr h l xs \<Longrightarrow> ogs_list_exists h l x = Some (x \<in> set xs)"
  using exists_from_seg [of h None xs x] by (simp add: list_repr_def ogs_list_exists_def)

lemma list_repr_insert_sorted:
  assumes "list_repr h l xs" "x \<notin> set (l # xs)"
  shows "\<exists>h'. ogs_list_insert_sorted c l x h = Some h'
              \<and> list_repr h' l (insert_before_greater c x xs)"
proof -
  define as bs where "as = takeWhile (\<lambda>y. \<not> c x y < 0) xs"
    and "bs = dropWhile (\<lambda>y. \<not> c x y < 0) xs"
  then have xs: "xs = as @ bs" and ins: "insert_before_greater c x xs = as @ x # bs"
    by (simp_all add: insert_before_greater_split)
  have "find_greater c x h (next (h l)) = Some (hd_or None bs)"
    using assms(1) find_greater_seg [of h None xs c x] by (simp add: list_repr_def bs_def)
  then have op: "ogs_list_insert_sorted c l x h = Some (case bs of
      [] \<Rightarrow> ogs_list_add l x h | y # _ \<Rightarrow> ogs_list_insert_prev l y x h)"
    by (cases bs) (simp_all add: ogs_list_insert_sorted_def)
  show ?thesis
  proof (cases bs)
    case Nil
    then show ?thesis using list_repr_add [OF assms] op ins xs by simp
  next
    case (Cons y ys)
    then show ?thesis using list_repr_insert_prev [of h l as y ys x] assms op ins xs by simp
  qed
qed

lemma insert_before_greater_set [simp]:
  "set (insert_before_greater c x xs) = insert x (set xs)"
  by (induction xs) auto

text \<open>
  A comparison that is the sign of a key difference, as the timers' and the
  transactions' ones are, keeps a sorted list sorted.
\<close>

lemma insert_before_greater_sorted:
  assumes "\<And>a b. c a b < 0 \<longleftrightarrow> key a < (key b :: 'k :: linorder)" "sorted (map key xs)"
  shows "sorted (map key (insert_before_greater c x xs))"
  using assms(2) by (induction xs) (auto simp: assms(1) not_less order_trans)

subsection \<open>The sequence interface\<close>

text \<open>
  What the rest of the code relies on: a header represents a sequence, \<open>add\<close>
  appends, \<open>remove\<close> takes one element out. From these laws alone, adding
  several nodes keeps their order, and the remove-all idiom (a safe loop that
  removes every node in turn, as in \<open>dnf_sess_remove_all\<close>) empties the list.
\<close>

locale sequence =
  fixes repr :: "'s \<Rightarrow> 'a \<Rightarrow> 'a list \<Rightarrow> bool"
    and add :: "'a \<Rightarrow> 'a \<Rightarrow> 's \<Rightarrow> 's"
    and remove :: "'a \<Rightarrow> 'a \<Rightarrow> 's \<Rightarrow> 's"
  assumes repr_distinct: "repr s l xs \<Longrightarrow> distinct (l # xs)"
    and repr_add: "repr s l xs \<Longrightarrow> x \<notin> set (l # xs) \<Longrightarrow> repr (add l x s) l (xs @ [x])"
    and repr_remove: "repr s l xs \<Longrightarrow> x \<in> set xs \<Longrightarrow> repr (remove l x s) l (remove1 x xs)"
begin

lemma add_all:
  "repr s l xs \<Longrightarrow> distinct (l # xs @ ys) \<Longrightarrow> repr (fold (add l) ys s) l (xs @ ys)"
proof (induction ys arbitrary: s xs)
  case (Cons y ys)
  then have "repr (add l y s) l (xs @ [y])" by (intro repr_add) auto
  then show ?case using Cons.IH [of "add l y s" "xs @ [y]"] Cons.prems by simp
qed simp

lemma remove_all: "repr s l xs \<Longrightarrow> repr (fold (remove l) xs s) l []"
proof (induction xs arbitrary: s)
  case (Cons x xs)
  then have "repr (remove l x s) l xs" using repr_remove [of s l "x # xs" x] by simp
  then show ?case using Cons.IH by simp
qed simp

lemma add_then_remove:
  assumes "repr s l xs" "x \<notin> set (l # xs)"
  shows "repr (remove l x (add l x s)) l xs"
  using repr_remove [OF repr_add [OF assms], of x] assms by (simp add: remove1_append)

end

interpretation lseq: sequence list_repr ogs_list_add ogs_list_remove
proof unfold_locales
  show "distinct (l # xs)" if "list_repr h l xs" for h :: "'a lheap" and l xs
    using that by (simp add: list_repr_def)
qed (fact list_repr_add list_repr_remove)+

subsection \<open>Properties\<close>


definition sample_heap :: "nat lheap" where
  "sample_heap = ogs_list_add 0 2 (ogs_list_add 0 1 (ogs_list_init 0 (\<lambda>_. \<lparr>prev = None, next = None\<rparr>)))"

lemma sample_heap_repr: "list_repr sample_heap 0 [1, 2]"
proof -
  have "list_repr (ogs_list_add 0 1 (ogs_list_init (0 :: nat) (\<lambda>_. \<lparr>prev = None, next = None\<rparr>))) 0 [1]"
    using list_repr_add [OF list_repr_init] by fastforce
  then show ?thesis
    unfolding sample_heap_def using list_repr_add [of _ "0 :: nat" "[1]" 2] by simp
qed


text \<open>Sorted insertion ends on a well-formed list and, when the comparison is the sign of
  a key difference, keeps the list sorted by that key; the new node goes behind the nodes with
  an equal key, and no node is lost.\<close>

theorem list_insert_sorted_correct:
  fixes key :: "'a \<Rightarrow> 'k :: linorder"
  assumes "list_repr h l xs" "x \<notin> set (l # xs)" "sorted (map key xs)"
    and "\<And>a b. compare a b < 0 \<longleftrightarrow> key a < key b"
  shows "\<exists>h' ys. ogs_list_insert_sorted compare l x h = Some h' \<and> list_repr h' l ys
    \<and> sorted (map key ys) \<and> (\<exists>as bs. xs = as @ bs \<and> ys = as @ x # bs
         \<and> (\<forall>b \<in> set bs. key x < key b) \<and> (\<forall>a \<in> set as. key a \<le> key x))"
proof -
  let ?P = "\<lambda>y. \<not> compare x y < 0"
  let ?as = "takeWhile ?P xs" and ?bs = "dropWhile ?P xs"
  have srt: "sorted (map key (?as @ ?bs))" using assms(3) by simp
  have "\<forall>b \<in> set ?bs. key x < key b"
  proof (cases ?bs)
    case (Cons b bs)
    then have "\<not> ?P b" using hd_dropWhile [of ?P xs] by simp
    moreover have "sorted (map key (b # bs))" using srt Cons by (metis map_append sorted_append)
    ultimately show ?thesis using Cons assms(4) by auto
  qed (simp only: list.set ball_empty)
  moreover have "\<forall>a \<in> set ?as. key a \<le> key x"
    using assms(4) set_takeWhileD [of _ ?P xs] by (meson not_less)
  ultimately have "xs = ?as @ ?bs \<and> insert_before_greater compare x xs = ?as @ x # ?bs
      \<and> (\<forall>b \<in> set ?bs. key x < key b) \<and> (\<forall>a \<in> set ?as. key a \<le> key x)"
    by (simp add: insert_before_greater_split)
  then show ?thesis
    using list_repr_insert_sorted [OF assms(1,2), of compare]
      insert_before_greater_sorted [OF assms(4,3), of x] by blast
qed

theorem list_insert_sorted_correct_witness:
  "\<exists>h' ys. ogs_list_insert_sorted (\<lambda>a b. int a - int b) 0 5 sample_heap = Some h' \<and> list_repr h' 0 ys
    \<and> sorted ys"
  using list_insert_sorted_correct [of sample_heap 0 "[1, 2]" 5 "\<lambda>x. x" "\<lambda>a b. int a - int b"]
    sample_heap_repr by auto

text \<open>The remove-all idiom of the network functions, a safe loop that removes each node of
  a list in turn, ends with the empty list.\<close>

theorem list_remove_all_empties:
  assumes "list_repr h l xs"
  shows "ogs_list_empty (fold (ogs_list_remove l) xs h) l
    \<and> ogs_list_count (fold (ogs_list_remove l) xs h) l = Some 0"
  using lseq.remove_all [OF assms] list_repr_ends(3) list_repr_count by fastforce

theorem list_remove_all_empties_witness:
  "ogs_list_empty (fold (ogs_list_remove 0) [1, 2] sample_heap) 0"
  using list_remove_all_empties [OF sample_heap_repr] by simp

end
