(* ===== verification/Ogs_Hash.thy ===== *)
theory Ogs_Hash
  imports Ogs_Prelude "HOL-Library.Multiset"
begin

unbundle bit_operations_syntax

section \<open>The hash table (lib/core/ogs-hash.c)\<close>

text \<open>
  Every identifier lookup of the network functions (SEID, TEID, pool id,
  address, SUPI) goes through this table. An entry does not own its key: it
  stores the caller's pointer, and the key bytes are read again at every
  lookup. The model keeps that: entries hold a key pointer \<open>'p\<close>, and the
  operations take the memory \<open>m :: 'p \<Rightarrow> u8 list\<close> with the bytes readable at
  each pointer. Reading a key past the end of its object gives \<open>None\<close>.

  A bucket's chain of entries is a list, \<open>free\<close> is the list of recycled
  entries, and the iterator holds the suffix that its saved \<open>next\<close> pointer
  designates. The theory shows that the table refines a finite map from key
  bytes to values, that growing it changes nothing of that map, and that an
  iteration visits every entry.
\<close>

record ('p, 'v) hash_entry =
  he_hash :: u32
  he_key :: 'p
  he_klen :: int
  he_val :: 'v

record ('p, 'v) ogs_hash =
  array :: "('p, 'v) hash_entry list list"
  count :: u32
  max_index :: u32
  seed :: u32
  hash_func :: "(u8 list \<Rightarrow> u32) option"
  free :: "('p, 'v) hash_entry list"

type_synonym 'p memory = "'p \<Rightarrow> u8 list"

subsection \<open>Operations\<close>

definition INITIAL_MAX :: u32 where "INITIAL_MAX = 15"

definition OGS_HASH_KEY_STRING :: int where "OGS_HASH_KEY_STRING = - 1"

definition alloc_array :: "u32 \<Rightarrow> ('p, 'v) hash_entry list list" where
  "alloc_array mx = replicate (unat (mx + 1)) []"

text \<open>The seed mixes the clock and two addresses; the caller supplies it.\<close>

definition ogs_hash_make :: "u32 \<Rightarrow> ('p, 'v) ogs_hash" where
  "ogs_hash_make sd = \<lparr>array = alloc_array INITIAL_MAX, count = 0, max_index = INITIAL_MAX,
     seed = sd, hash_func = None, free = []\<rparr>"

definition ogs_hash_make_custom :: "(u8 list \<Rightarrow> u32) \<Rightarrow> u32 \<Rightarrow> ('p, 'v) ogs_hash" where
  "ogs_hash_make_custom f sd = (ogs_hash_make sd)\<lparr>hash_func := Some f\<rparr>"

text \<open>The key bytes that the hash loop and \<open>memcmp\<close> read at a pointer.\<close>

definition read_key :: "'p memory \<Rightarrow> 'p \<Rightarrow> int \<Rightarrow> u8 list option" where
  "read_key m p klen =
     (if klen = OGS_HASH_KEY_STRING
      then if 0 \<in> set (m p) then Some (takeWhile (\<lambda>b. b \<noteq> 0) (m p)) else None
      else if 0 \<le> klen \<and> nat klen \<le> length (m p) then Some (take (nat klen) (m p))
      else None)"

fun hashfunc_default :: "u8 list \<Rightarrow> u32 \<Rightarrow> u32" where
  "hashfunc_default [] hash = hash"
| "hashfunc_default (b # bs) hash = hashfunc_default bs (hash * 33 + ucast b)"

definition ogs_hashfunc_default :: "u8 list \<Rightarrow> u32" where
  "ogs_hashfunc_default bs = hashfunc_default bs 0"

definition hash_key :: "('p, 'v) ogs_hash \<Rightarrow> u8 list \<Rightarrow> u32" where
  "hash_key ht bs =
     (case hash_func ht of Some f \<Rightarrow> f bs | None \<Rightarrow> hashfunc_default bs (seed ht))"

text \<open>
  The scan of a chain: the position of the entry with this hash, length and
  key bytes, or the end of the chain.
\<close>

fun scan_chain ::
  "'p memory \<Rightarrow> u32 \<Rightarrow> u8 list \<Rightarrow> ('p, 'v) hash_entry list \<Rightarrow> nat option" where
  "scan_chain m hash bs [] = Some 0"
| "scan_chain m hash bs (e # es) =
     (if he_hash e = hash \<and> he_klen e = int (length bs) then
        do { kb \<leftarrow> read_key m (he_key e) (int (length bs));
             if kb = bs then Some 0 else map_option Suc (scan_chain m hash bs es) }
      else map_option Suc (scan_chain m hash bs es))"

text \<open>
  \<open>find_entry\<close> returns the address of the pointer to the entry: here the
  bucket and the position in its chain. With a value it adds a missing entry.
\<close>

definition find_entry ::
  "'p memory \<Rightarrow> ('p, 'v) ogs_hash \<Rightarrow> 'p \<Rightarrow> int \<Rightarrow> 'v option
     \<Rightarrow> (('p, 'v) ogs_hash \<times> nat \<times> nat) option" where
  "find_entry m ht key klen val =
     do { bs \<leftarrow> read_key m key klen;
          let hash = hash_key ht bs;
          let i = unat (hash AND max_index ht);
          k \<leftarrow> scan_chain m hash bs (array ht ! i);
          case val of
            None \<Rightarrow> Some (ht, i, k)
          | Some v \<Rightarrow>
              if k < length (array ht ! i) then Some (ht, i, k)
              else let he = \<lparr>he_hash = hash, he_key = key,
                             he_klen = int (length bs), he_val = v\<rparr>
                   in Some (ht\<lparr>free := tl (free ht),
                               array := (array ht)[i := (array ht ! i) @ [he]],
                               count := count ht + 1\<rparr>, i, k) }"

definition deref :: "('p, 'v) ogs_hash \<Rightarrow> nat \<Rightarrow> nat \<Rightarrow> ('p, 'v) hash_entry option" where
  "deref ht i k = (if k < length (array ht ! i) then Some (array ht ! i ! k) else None)"

definition ogs_hash_get ::
  "'p memory \<Rightarrow> ('p, 'v) ogs_hash \<Rightarrow> 'p \<Rightarrow> int \<Rightarrow> 'v option option" where
  "ogs_hash_get m ht key klen =
     do { ogs_assert (klen \<noteq> 0);
          (ht', i, k) \<leftarrow> find_entry m ht key klen None;
          Some (map_option he_val (deref ht' i k)) }"

text \<open>
  The iterator: the current entry, the chain that the saved \<open>next\<close> pointer
  starts, and the index of the next bucket to look at.
\<close>

type_synonym ('p, 'v) hash_index = "('p, 'v) hash_entry \<times> ('p, 'v) hash_entry list \<times> u32"

partial_function (option) ogs_hash_next ::
  "('p, 'v) ogs_hash \<Rightarrow> ('p, 'v) hash_entry list \<Rightarrow> u32 \<Rightarrow> ('p, 'v) hash_index option option" where
  "ogs_hash_next ht nx index =
     (case nx of
        e # es \<Rightarrow> Some (Some (e, es, index))
      | [] \<Rightarrow> if index > max_index ht then Some None
              else ogs_hash_next ht (array ht ! unat index) (index + 1))"

definition ogs_hash_first :: "('p, 'v) ogs_hash \<Rightarrow> ('p, 'v) hash_index option option" where
  "ogs_hash_first ht = ogs_hash_next ht [] 0"

partial_function (option) expand_loop ::
  "('p, 'v) ogs_hash \<Rightarrow> u32 \<Rightarrow> ('p, 'v) hash_index option
     \<Rightarrow> ('p, 'v) hash_entry list list \<Rightarrow> ('p, 'v) hash_entry list list option" where
  "expand_loop ht new_max hi new_array =
     (case hi of
        None \<Rightarrow> Some new_array
      | Some (this, nx, index) \<Rightarrow>
          (let i = unat (he_hash this AND new_max);
               new_array = new_array[i := this # (new_array ! i)]
           in ogs_hash_next ht nx index \<bind> (\<lambda>hi. expand_loop ht new_max hi new_array)))"

definition expand_array :: "('p, 'v) ogs_hash \<Rightarrow> ('p, 'v) ogs_hash option" where
  "expand_array ht =
     do { let new_max = max_index ht * 2 + 1;
          hi \<leftarrow> ogs_hash_first ht;
          new_array \<leftarrow> expand_loop ht new_max hi (alloc_array new_max);
          Some (ht\<lparr>array := new_array, max_index := new_max\<rparr>) }"

definition maybe_expand :: "('p, 'v) ogs_hash \<Rightarrow> ('p, 'v) ogs_hash option" where
  "maybe_expand ht = (if count ht > max_index ht then expand_array ht else Some ht)"

definition delete_at :: "('p, 'v) ogs_hash \<Rightarrow> nat \<Rightarrow> nat \<Rightarrow> ('p, 'v) ogs_hash" where
  "delete_at ht i k =
     (let c = array ht ! i
      in ht\<lparr>array := (array ht)[i := take k c @ drop (Suc k) c],
            free := c ! k # free ht, count := count ht - 1\<rparr>)"

definition replace_at :: "('p, 'v) ogs_hash \<Rightarrow> nat \<Rightarrow> nat \<Rightarrow> 'v \<Rightarrow> ('p, 'v) ogs_hash" where
  "replace_at ht i k v =
     (let c = array ht ! i
      in ht\<lparr>array := (array ht)[i := c[k := (c ! k)\<lparr>he_val := v\<rparr>]]\<rparr>)"

definition ogs_hash_set ::
  "'p memory \<Rightarrow> ('p, 'v) ogs_hash \<Rightarrow> 'p \<Rightarrow> int \<Rightarrow> 'v option \<Rightarrow> ('p, 'v) ogs_hash option" where
  "ogs_hash_set m ht key klen val =
     do { ogs_assert (klen \<noteq> 0);
          (ht, i, k) \<leftarrow> find_entry m ht key klen val;
          if k < length (array ht ! i) then
            (case val of
               None \<Rightarrow> Some (delete_at ht i k)
             | Some v \<Rightarrow> maybe_expand (replace_at ht i k v))
          else Some ht }"

definition ogs_hash_get_or_set ::
  "'p memory \<Rightarrow> ('p, 'v) ogs_hash \<Rightarrow> 'p \<Rightarrow> int \<Rightarrow> 'v option
     \<Rightarrow> ('v option \<times> ('p, 'v) ogs_hash) option" where
  "ogs_hash_get_or_set m ht key klen val =
     do { ogs_assert (klen \<noteq> 0);
          (ht, i, k) \<leftarrow> find_entry m ht key klen val;
          case deref ht i k of
            Some e \<Rightarrow> do { ht' \<leftarrow> maybe_expand ht; Some (Some (he_val e), ht') }
          | None \<Rightarrow> Some (None, ht) }"

definition ogs_hash_count :: "('p, 'v) ogs_hash \<Rightarrow> u32" where
  "ogs_hash_count ht = count ht"

partial_function (option) clear_loop ::
  "'p memory \<Rightarrow> ('p, 'v) ogs_hash \<Rightarrow> ('p, 'v) hash_index option \<Rightarrow> ('p, 'v) ogs_hash option" where
  "clear_loop m ht hi =
     (case hi of
        None \<Rightarrow> Some ht
      | Some (this, nx, index) \<Rightarrow>
          ogs_hash_set m ht (he_key this) (he_klen this) None \<bind> (\<lambda>ht.
          ogs_hash_next ht nx index \<bind> (\<lambda>hi. clear_loop m ht hi)))"

definition ogs_hash_clear :: "'p memory \<Rightarrow> ('p, 'v) ogs_hash \<Rightarrow> ('p, 'v) ogs_hash option" where
  "ogs_hash_clear m ht = do { hi \<leftarrow> ogs_hash_first ht; clear_loop m ht hi }"

text \<open>
  \<open>ogs_hash_destroy\<close> clears the table and frees the recycled entries; the
  result is the list of the entries it frees.
\<close>

definition ogs_hash_destroy ::
  "'p memory \<Rightarrow> ('p, 'v) ogs_hash \<Rightarrow> ('p, 'v) hash_entry list option" where
  "ogs_hash_destroy m ht = do { ht \<leftarrow> ogs_hash_clear m ht; Some (free ht) }"

text \<open>
  \<open>ogs_hash_do\<close> calls \<open>callback\<close>, which may change the record \<open>'r\<close> it is given, on every
  entry until it returns zero.
\<close>

partial_function (option) do_loop ::
  "('r \<Rightarrow> 'p \<Rightarrow> int \<Rightarrow> 'v \<Rightarrow> int \<times> 'r) \<Rightarrow> 'r \<Rightarrow> ('p, 'v) ogs_hash
     \<Rightarrow> ('p, 'v) hash_index option \<Rightarrow> (int \<times> 'r) option" where
  "do_loop callback rec ht hi =
     (case hi of
        None \<Rightarrow> Some (1, rec)
      | Some (this, nx, index) \<Rightarrow>
          (let (rv, rec) = callback rec (he_key this) (he_klen this) (he_val this)
           in if rv = 0 then Some (0, rec)
              else ogs_hash_next ht nx index \<bind> (\<lambda>hi. do_loop callback rec ht hi)))"

definition ogs_hash_do ::
  "('r \<Rightarrow> 'p \<Rightarrow> int \<Rightarrow> 'v \<Rightarrow> int \<times> 'r) \<Rightarrow> 'r \<Rightarrow> ('p, 'v) ogs_hash \<Rightarrow> (int \<times> 'r) option" where
  "ogs_hash_do callback rec ht = do { hi \<leftarrow> ogs_hash_next ht [] 0; do_loop callback rec ht hi }"

subsection \<open>Invariant and abstraction\<close>

definition entries :: "('p, 'v) ogs_hash \<Rightarrow> ('p, 'v) hash_entry list" where
  "entries ht = concat (array ht)"

definition entry_key :: "'p memory \<Rightarrow> ('p, 'v) hash_entry \<Rightarrow> u8 list option" where
  "entry_key m e = (if 0 \<le> he_klen e then read_key m (he_key e) (he_klen e) else None)"

text \<open>An entry is sound when its key is readable and its hash is that of its key.\<close>

definition entry_ok :: "'p memory \<Rightarrow> (u8 list \<Rightarrow> u32) \<Rightarrow> ('p, 'v) hash_entry \<Rightarrow> bool" where
  "entry_ok m hf e = (case entry_key m e of None \<Rightarrow> False | Some bs \<Rightarrow> he_hash e = hf bs)"

definition buckets_ok :: "u32 \<Rightarrow> ('p, 'v) hash_entry list list \<Rightarrow> bool" where
  "buckets_ok mx a = (\<forall>i < length a. \<forall>e \<in> set (a ! i). unat (he_hash e AND mx) = i)"

text \<open>
  The size is a power of two below 2^32, the buckets hold the entries that
  hash to them, keys are distinct, and \<open>count\<close> counts.
\<close>

definition size_ok :: "u32 \<Rightarrow> nat \<Rightarrow> bool" where
  "size_ok mx n = (\<exists>k \<le> 31. mx = mask k \<and> n = 2 ^ k)"

definition hash_inv :: "'p memory \<Rightarrow> ('p, 'v) ogs_hash \<Rightarrow> bool" where
  "hash_inv m ht \<longleftrightarrow>
     size_ok (max_index ht) (length (array ht))
   \<and> buckets_ok (max_index ht) (array ht)
   \<and> (\<forall>e \<in> set (entries ht). entry_ok m (hash_key ht) e)
   \<and> distinct (map (entry_key m) (entries ht))
   \<and> unat (count ht) = length (entries ht)
   \<and> count ht \<le> max_index ht"

text \<open>The finite map that a table represents.\<close>

definition hash_map :: "'p memory \<Rightarrow> ('p, 'v) ogs_hash \<Rightarrow> u8 list \<Rightarrow> 'v option" where
  "hash_map m ht bs = map_option he_val (find (\<lambda>e. entry_key m e = Some bs) (entries ht))"

lemma size_ok_facts:
  assumes "size_ok mx n"
  shows "n = unat mx + 1" "unat mx < 2 ^ 31" "unat (h AND mx) < n" "mx < mx + 1"
proof -
  from assms obtain k where k: "k \<le> 31" "mx = mask k" "n = 2 ^ k" by (auto simp: size_ok_def)
  have le: "(2::nat) ^ k \<le> 2 ^ 31" using k(1) by (intro power_increasing) auto
  have mx: "unat mx = 2 ^ k - 1"
    using k by (simp add: unat_mask)
  then show n: "n = unat mx + 1" using k by simp
  show "unat mx < 2 ^ 31" using mx le by simp
  have "unat (h AND mx) \<le> unat mx"
    by (rule unat_and_le)
  then show "unat (h AND mx) < n" using n by simp
  show "mx < mx + 1"
    using mx le by (simp add: word_less_nat_alt unat_word_ariths)
qed

lemma buckets_okD: "buckets_ok mx a \<Longrightarrow> i < length a \<Longrightarrow> e \<in> set (a ! i) \<Longrightarrow> unat (he_hash e AND mx) = i"
  by (simp add: buckets_ok_def)

text \<open>An entry of the table lies in the bucket of its hash.\<close>

lemma entry_in_bucket:
  assumes "buckets_ok mx a" "e \<in> set (concat a)"
  shows "e \<in> set (a ! unat (he_hash e AND mx))"
proof -
  from assms(2) obtain c where "c \<in> set a" "e \<in> set c" by auto
  then obtain i where "i < length a" "e \<in> set (a ! i)" by (auto simp: in_set_conv_nth)
  then show ?thesis using buckets_okD [OF assms(1)] by metis
qed

lemma count_card: "hash_inv m ht \<Longrightarrow> unat (count ht) = card (set (entries ht))"
  by (simp add: hash_inv_def distinct_map distinct_card)

lemma find_unique:
  assumes "distinct (map f xs)" "\<And>x. P x \<longleftrightarrow> f x = k"
  shows "find P xs = Some e \<longleftrightarrow> e \<in> set xs \<and> f e = k"
  using assms(1)
proof (induction xs)
  case (Cons x xs)
  then show ?case using assms(2) by (auto simp: image_iff)
qed simp

lemma hash_map_Some_iff:
  assumes "hash_inv m ht"
  shows "hash_map m ht bs = Some v
    \<longleftrightarrow> (\<exists>e \<in> set (entries ht). entry_key m e = Some bs \<and> he_val e = v)"
proof -
  have "distinct (map (entry_key m) (entries ht))" using assms by (simp add: hash_inv_def)
  from find_unique [OF this, of "\<lambda>e. entry_key m e = Some bs" "Some bs"]
  show ?thesis by (auto simp: hash_map_def)
qed

lemma hash_map_None_iff:
  "hash_map m ht bs = None \<longleftrightarrow> (\<forall>e \<in> set (entries ht). entry_key m e \<noteq> Some bs)"
  by (auto simp: hash_map_def find_None_iff)

text \<open>
  The map depends only on the set of entries: two tables whose entries carry
  the same keys and values represent the same map.
\<close>

lemma hash_map_eqI:
  assumes "hash_inv m ht" "hash_inv m ht'"
    and "\<And>bs v. (\<exists>e \<in> set (entries ht'). entry_key m e = Some bs \<and> he_val e = v)
           \<longleftrightarrow> f bs = Some v"
  shows "hash_map m ht' = f"
proof
  fix bs
  have "hash_map m ht' bs = Some v \<longleftrightarrow> f bs = Some v" for v
    using hash_map_Some_iff [OF assms(2)] assms(3) by simp
  then show "hash_map m ht' bs = f bs" by (metis option.exhaust)
qed

lemma read_key_length: "read_key m p klen = Some bs \<Longrightarrow> klen \<noteq> OGS_HASH_KEY_STRING \<Longrightarrow> int (length bs) = klen"
  by (auto simp: read_key_def split: if_splits)

lemma read_key_nonneg [simp]: "int n \<noteq> OGS_HASH_KEY_STRING"
  by (simp add: OGS_HASH_KEY_STRING_def)

lemma read_key_again:
  assumes "read_key m p klen = Some bs"
  shows "read_key m p (int (length bs)) = Some bs"
proof (cases "klen = OGS_HASH_KEY_STRING")
  case True
  with assms have bs: "bs = takeWhile (\<lambda>b. b \<noteq> 0) (m p)"
    by (auto simp: read_key_def split: if_splits)
  then have "length bs \<le> length (m p)" by (simp add: length_takeWhile_le)
  moreover have "take (length bs) (m p) = bs"
    unfolding bs by (metis takeWhile_eq_take)
  ultimately show ?thesis by (simp add: read_key_def)
next
  case False
  then have "klen = int (length bs)" using read_key_length [OF assms] by simp
  with assms show ?thesis by simp
qed

lemma entry_key_length: "entry_key m e = Some bs \<Longrightarrow> he_klen e = int (length bs)"
  by (auto simp: entry_key_def OGS_HASH_KEY_STRING_def dest!: read_key_length split: if_splits)

subsection \<open>Lookup\<close>

text \<open>The scan finds the entry with the key, or stops at the end of the chain.\<close>

lemma scan_chain_correct:
  assumes "\<forall>e \<in> set es. entry_ok m hf e"
  shows "scan_chain m (hf bs) bs es
       = Some (length (takeWhile (\<lambda>e. entry_key m e \<noteq> Some bs) es))"
  using assms
proof (induction es)
  case (Cons e es)
  then obtain kb where kb: "entry_key m e = Some kb" "he_hash e = hf kb"
    by (auto simp: entry_ok_def split: option.splits)
  note len = entry_key_length [OF kb(1)]
  show ?case
  proof (cases "kb = bs")
    case True
    with kb len show ?thesis by (simp add: entry_key_def)
  next
    case False
    have "he_klen e = int (length bs) \<Longrightarrow> read_key m (he_key e) (int (length bs)) = Some kb"
      using kb(1) len by (simp add: entry_key_def)
    with False kb Cons show ?thesis by auto
  qed
qed simp

abbreviation bucket_of :: "('p, 'v) ogs_hash \<Rightarrow> u8 list \<Rightarrow> nat" where
  "bucket_of ht bs \<equiv> unat (hash_key ht bs AND max_index ht)"

abbreviation pos_of :: "'p memory \<Rightarrow> ('p, 'v) ogs_hash \<Rightarrow> u8 list \<Rightarrow> nat" where
  "pos_of m ht bs \<equiv>
     length (takeWhile (\<lambda>e. entry_key m e \<noteq> Some bs) (array ht ! bucket_of ht bs))"

lemma bucket_of_bound: "hash_inv m ht \<Longrightarrow> bucket_of ht bs < length (array ht)"
  by (auto simp: hash_inv_def intro: size_ok_facts(3))

lemma bucket_in_entries:
  assumes "hash_inv m ht"
  shows "set (array ht ! bucket_of ht bs) \<subseteq> set (entries ht)"
  using nth_mem [OF bucket_of_bound [OF assms, of bs]] by (auto simp: entries_def)

lemma scan_bucket:
  assumes "hash_inv m ht"
  shows "scan_chain m (hash_key ht bs) bs (array ht ! bucket_of ht bs) = Some (pos_of m ht bs)"
proof (rule scan_chain_correct)
  have "set (array ht ! bucket_of ht bs) \<subseteq> set (entries ht)"
    using bucket_in_entries [OF assms] .
  then show "\<forall>e \<in> set (array ht ! bucket_of ht bs). entry_ok m (hash_key ht) e"
    using assms by (auto simp: hash_inv_def)
qed

text \<open>The position found is inside the chain exactly when the key is in the map.\<close>

lemma entry_at_pos:
  assumes "hash_inv m ht"
  shows "pos_of m ht bs < length (array ht ! bucket_of ht bs) \<longleftrightarrow> hash_map m ht bs \<noteq> None"
    and "pos_of m ht bs < length (array ht ! bucket_of ht bs) \<Longrightarrow>
      entry_key m (array ht ! bucket_of ht bs ! pos_of m ht bs) = Some bs
      \<and> hash_map m ht bs = Some (he_val (array ht ! bucket_of ht bs ! pos_of m ht bs))"
proof -
  let ?c = "array ht ! bucket_of ht bs" and ?k = "pos_of m ht bs"
  have in_entries: "set ?c \<subseteq> set (entries ht)"
    using bucket_in_entries [OF assms] .
  show at: "entry_key m (?c ! ?k) = Some bs \<and> hash_map m ht bs = Some (he_val (?c ! ?k))"
    if "?k < length ?c"
  proof -
    have "entry_key m (?c ! ?k) = Some bs" using nth_length_takeWhile [OF that] by simp
    moreover have "?c ! ?k \<in> set (entries ht)" using that in_entries nth_mem by blast
    ultimately show ?thesis using hash_map_Some_iff [OF assms] by blast
  qed
  show "?k < length ?c \<longleftrightarrow> hash_map m ht bs \<noteq> None"
  proof
    assume "hash_map m ht bs \<noteq> None"
    then obtain e where e: "e \<in> set (entries ht)" "entry_key m e = Some bs"
      by (auto simp: hash_map_None_iff)
    then have "he_hash e = hash_key ht bs"
      using assms by (auto simp: hash_inv_def entry_ok_def)
    then have "e \<in> set ?c"
      using entry_in_bucket [of "max_index ht" "array ht" e] assms e(1)
      by (simp add: hash_inv_def entries_def)
    then show "?k < length ?c"
      using e(2) by (intro length_takeWhile_less) auto
  qed (use at in simp)
qed

lemma find_entry_lookup:
  assumes "hash_inv m ht" "read_key m p klen = Some bs"
  shows "find_entry m ht p klen None = Some (ht, bucket_of ht bs, pos_of m ht bs)"
  using assms scan_bucket [OF assms(1), of bs] by (simp add: find_entry_def Let_def)

lemma ogs_hash_get_correct:
  assumes "hash_inv m ht" "read_key m p klen = Some bs" "klen \<noteq> 0"
  shows "ogs_hash_get m ht p klen = Some (hash_map m ht bs)"
proof (cases "pos_of m ht bs < length (array ht ! bucket_of ht bs)")
  case True
  with entry_at_pos(2) [OF assms(1) True] show ?thesis
    using find_entry_lookup [OF assms(1,2)] assms(3) by (simp add: ogs_hash_get_def deref_def)
next
  case False
  with entry_at_pos(1) [OF assms(1), of bs] show ?thesis
    using find_entry_lookup [OF assms(1,2)] assms(3) by (simp add: ogs_hash_get_def deref_def)
qed

subsection \<open>Iteration\<close>

text \<open>The entries that an iterator has still to visit.\<close>

definition rest :: "('p, 'v) ogs_hash \<Rightarrow> ('p, 'v) hash_entry list \<Rightarrow> u32 \<Rightarrow> ('p, 'v) hash_entry list" where
  "rest ht nx index = nx @ concat (drop (unat index) (array ht))"

fun iter_rest :: "('p, 'v) ogs_hash \<Rightarrow> ('p, 'v) hash_index option \<Rightarrow> ('p, 'v) hash_entry list" where
  "iter_rest ht None = []"
| "iter_rest ht (Some (e, nx, index)) = e # rest ht nx index"

text \<open>Everything the iterator holds comes from buckets before its index.\<close>

definition below :: "u32 \<Rightarrow> ('p, 'v) hash_entry list \<Rightarrow> u32 \<Rightarrow> bool" where
  "below mx nx index = (\<forall>e \<in> set nx. unat (he_hash e AND mx) < unat index)"

fun iter_below :: "u32 \<Rightarrow> ('p, 'v) hash_index option \<Rightarrow> bool" where
  "iter_below mx None = True"
| "iter_below mx (Some (e, nx, index)) = below mx (e # nx) index"

lemma ogs_hash_next_rest:
  assumes "size_ok (max_index ht) (length (array ht))"
  shows "\<exists>hi. ogs_hash_next ht nx index = Some hi \<and> iter_rest ht hi = rest ht nx index
    \<and> (buckets_ok (max_index ht) (array ht) \<and> below (max_index ht) nx index
         \<longrightarrow> iter_below (max_index ht) hi)"
proof (induction "length (array ht) - unat index" arbitrary: nx index rule: less_induct)
  case less
  show ?case
  proof (cases nx)
    case (Cons e es)
    then show ?thesis by (subst ogs_hash_next.simps) (simp add: rest_def)
  next
    case Nil
    show ?thesis
    proof (cases "index > max_index ht")
      case True
      then have "length (array ht) \<le> unat index"
        using size_ok_facts(1) [OF assms] by (simp add: word_less_nat_alt)
      with True Nil show ?thesis by (subst ogs_hash_next.simps) (simp add: rest_def)
    next
      case False
      then have lt: "unat index < length (array ht)"
        using size_ok_facts(1) [OF assms] by (simp add: word_less_nat_alt)
      have suc: "unat (index + 1) = Suc (unat index)"
        using size_ok_facts(4) [OF assms] False by (metis not_less order_le_less_trans unat_Suc_less)
      have "length (array ht) - unat (index + 1) < length (array ht) - unat index"
        using suc lt by linarith
      from less [OF this, of "array ht ! unat index"]
      obtain hi where "ogs_hash_next ht (array ht ! unat index) (index + 1) = Some hi"
        "iter_rest ht hi = rest ht (array ht ! unat index) (index + 1)"
        "buckets_ok (max_index ht) (array ht) \<and> below (max_index ht) (array ht ! unat index) (index + 1)
           \<longrightarrow> iter_below (max_index ht) hi"
        by blast
      moreover have "buckets_ok (max_index ht) (array ht)
          \<Longrightarrow> below (max_index ht) (array ht ! unat index) (index + 1)"
        using lt suc by (auto simp: below_def buckets_okD)
      moreover have "rest ht (array ht ! unat index) (index + 1) = rest ht [] index"
        using suc lt by (simp add: rest_def flip: Cons_nth_drop_Suc)
      ultimately show ?thesis
        using False Nil by (subst ogs_hash_next.simps) simp
    qed
  qed
qed

lemma ogs_hash_first_entries:
  assumes "size_ok (max_index ht) (length (array ht))"
  shows "\<exists>hi. ogs_hash_first ht = Some hi \<and> iter_rest ht hi = entries ht
    \<and> (buckets_ok (max_index ht) (array ht) \<longrightarrow> iter_below (max_index ht) hi)"
  using ogs_hash_next_rest [OF assms, of "[]" 0]
  by (simp add: ogs_hash_first_def rest_def entries_def below_def)

text \<open>\<open>ogs_hash_do\<close> is a fold of the callback over the entries that stops at zero.\<close>

fun do_entries ::
  "('r \<Rightarrow> 'p \<Rightarrow> int \<Rightarrow> 'v \<Rightarrow> int \<times> 'r) \<Rightarrow> 'r \<Rightarrow> ('p, 'v) hash_entry list \<Rightarrow> int \<times> 'r" where
  "do_entries f r [] = (1, r)"
| "do_entries f r (e # es) =
     (let (rv, r) = f r (he_key e) (he_klen e) (he_val e)
      in if rv = 0 then (0, r) else do_entries f r es)"

lemma do_loop_entries:
  assumes "size_ok (max_index ht) (length (array ht))"
  shows "do_loop f r ht hi = Some (do_entries f r (iter_rest ht hi))"
proof (induction "iter_rest ht hi" arbitrary: r hi)
  case Nil
  then show ?case by (cases hi) (auto simp: do_loop.simps [of f r ht None])
next
  case (Cons e es)
  then obtain nx index where hi: "hi = Some (e, nx, index)" "es = rest ht nx index"
    by (cases hi) auto
  obtain hi' where "ogs_hash_next ht nx index = Some hi'" "iter_rest ht hi' = es"
    using ogs_hash_next_rest [OF assms] hi(2) by blast
  with Cons(1) [of hi'] hi show ?case
    by (subst do_loop.simps) (auto split: prod.splits)
qed

lemma ogs_hash_do_entries:
  assumes "hash_inv m ht"
  shows "ogs_hash_do f r ht = Some (do_entries f r (entries ht))"
proof -
  have sz: "size_ok (max_index ht) (length (array ht))" using assms by (simp add: hash_inv_def)
  obtain hi where "ogs_hash_next ht [] 0 = Some hi" "iter_rest ht hi = entries ht"
    using ogs_hash_first_entries [OF sz] by (auto simp: ogs_hash_first_def)
  then show ?thesis by (simp add: ogs_hash_do_def do_loop_entries [OF sz])
qed

subsection \<open>Growing the array\<close>

definition put_entry ::
  "u32 \<Rightarrow> ('p, 'v) hash_entry \<Rightarrow> ('p, 'v) hash_entry list list \<Rightarrow> ('p, 'v) hash_entry list list" where
  "put_entry mx e a = (let i = unat (he_hash e AND mx) in a[i := e # (a ! i)])"

lemma expand_loop_fold:
  assumes "size_ok (max_index ht) (length (array ht))"
  shows "expand_loop ht mx hi a = Some (fold (put_entry mx) (iter_rest ht hi) a)"
proof (induction "iter_rest ht hi" arbitrary: a hi)
  case Nil
  then show ?case by (cases hi) (auto simp: expand_loop.simps [of ht mx None])
next
  case (Cons e es)
  then obtain nx index where hi: "hi = Some (e, nx, index)" "es = rest ht nx index"
    by (cases hi) auto
  obtain hi' where "ogs_hash_next ht nx index = Some hi'" "iter_rest ht hi' = es"
    using ogs_hash_next_rest [OF assms] hi(2) by blast
  with Cons(1) [of hi'] hi show ?case
    by (subst expand_loop.simps) (simp add: put_entry_def Let_def)
qed

lemma mset_concat_update:
  assumes "i < length a"
  shows "mset (concat (a[i := c])) + mset (a ! i) = mset (concat a) + mset c"
proof -
  have "a[i := c] = take i a @ c # drop (Suc i) a" using assms by (simp add: upd_conv_take_nth_drop)
  moreover have "concat a = concat (take i a) @ a ! i @ concat (drop (Suc i) a)"
    using assms id_take_nth_drop by (metis concat.simps(2) concat_append)
  ultimately show ?thesis by simp
qed

lemma put_entry_step:
  assumes "unat (he_hash e AND mx) < length a"
  shows "length (put_entry mx e a) = length a"
    "mset (concat (put_entry mx e a)) = add_mset e (mset (concat a))"
    "buckets_ok mx a \<Longrightarrow> buckets_ok mx (put_entry mx e a)"
proof -
  let ?i = "unat (he_hash e AND mx)"
  show "mset (concat (put_entry mx e a)) = add_mset e (mset (concat a))"
    using mset_concat_update [OF assms, of "e # (a ! ?i)"] by (simp add: put_entry_def Let_def)
  show "buckets_ok mx (put_entry mx e a)" if "buckets_ok mx a"
    using that assms by (auto simp: buckets_ok_def put_entry_def Let_def nth_list_update)
qed (simp add: put_entry_def Let_def)

lemma fold_put_entry:
  assumes "\<And>h. unat (h AND mx) < length a" "buckets_ok mx a"
  shows "length (fold (put_entry mx) es a) = length a
    \<and> mset (concat (fold (put_entry mx) es a)) = mset es + mset (concat a)
    \<and> buckets_ok mx (fold (put_entry mx) es a)"
  using assms by (induction es arbitrary: a) (auto simp: put_entry_step)

lemma size_ok_double:
  assumes "size_ok mx n" "unat mx < 2 ^ 30"
  shows "size_ok (mx * 2 + 1) (2 * n)" "unat (mx * 2 + 1) = 2 * unat mx + 1"
proof -
  from assms(1) obtain k where k: "k \<le> 31" "mx = mask k" "n = 2 ^ k" by (auto simp: size_ok_def)
  have "(2::nat) ^ k \<le> 2 ^ 30"
    using k assms(2) by (simp add: unat_mask)
  then have "k \<le> 30" by (rule power_le_imp_le_exp [rotated]) simp
  moreover have "mx * 2 + 1 = mask (Suc k)"
    unfolding k(2) mask_eq_exp_minus_1 by (simp add: algebra_simps)
  ultimately show "size_ok (mx * 2 + 1) (2 * n)"
    using k by (auto simp: size_ok_def intro!: exI [of _ "Suc k"])
  show "unat (mx * 2 + 1) = 2 * unat mx + 1"
    using assms(2) by (simp add: unat_word_ariths)
qed

text \<open>
  Growing the array keeps the entries: the invariant without the bound on
  \<open>count\<close> is enough, and the bound holds again afterwards.
\<close>

lemma expand_array_correct:
  assumes sz: "size_ok (max_index ht) (length (array ht))" and "unat (max_index ht) < 2 ^ 30"
  shows "\<exists>ht'. expand_array ht = Some ht'
    \<and> max_index ht' = max_index ht * 2 + 1
    \<and> size_ok (max_index ht') (length (array ht')) \<and> buckets_ok (max_index ht') (array ht')
    \<and> mset (entries ht') = mset (entries ht)
    \<and> count ht' = count ht \<and> seed ht' = seed ht \<and> hash_func ht' = hash_func ht"
proof -
  let ?mx = "max_index ht * 2 + 1"
  let ?a = "fold (put_entry ?mx) (entries ht) (alloc_array ?mx)"
  note dbl = size_ok_double [OF assms]
  obtain hi where hi: "ogs_hash_first ht = Some hi" "iter_rest ht hi = entries ht"
    using ogs_hash_first_entries [OF sz] by auto
  then have ex: "expand_array ht = Some (ht\<lparr>array := ?a, max_index := ?mx\<rparr>)"
    by (simp add: expand_array_def expand_loop_fold [OF sz] Let_def)
  have len: "length (alloc_array ?mx :: ('a, 'b) hash_entry list list) = 2 * length (array ht)"
    using unat_Suc_less [OF size_ok_facts(4) [OF dbl(1)]] size_ok_facts(1) [OF dbl(1)]
    by (simp add: alloc_array_def)
  have "buckets_ok ?mx (alloc_array ?mx :: ('a, 'b) hash_entry list list)"
    "concat (alloc_array ?mx :: ('a, 'b) hash_entry list list) = []"
    by (simp_all add: buckets_ok_def alloc_array_def)
  with fold_put_entry [of ?mx "alloc_array ?mx" "entries ht"] size_ok_facts(3) [OF dbl(1)] len dbl(1)
  show ?thesis using ex by (simp add: entries_def)
qed

lemma hash_key_cong:
  "seed ht' = seed ht \<Longrightarrow> hash_func ht' = hash_func ht \<Longrightarrow> hash_key ht' = hash_key ht"
  by (auto simp: hash_key_def fun_eq_iff split: option.splits)

text \<open>
  After a value is stored, \<open>maybe_expand\<close> turns the invariant with one entry
  too many back into the invariant, with the same entries.
\<close>

definition hash_inv_pre :: "'p memory \<Rightarrow> ('p, 'v) ogs_hash \<Rightarrow> bool" where
  "hash_inv_pre m ht \<longleftrightarrow>
     size_ok (max_index ht) (length (array ht))
   \<and> buckets_ok (max_index ht) (array ht)
   \<and> (\<forall>e \<in> set (entries ht). entry_ok m (hash_key ht) e)
   \<and> distinct (map (entry_key m) (entries ht))
   \<and> unat (count ht) = length (entries ht)
   \<and> unat (count ht) \<le> unat (max_index ht) + 1
   \<and> unat (count ht) \<le> 2 ^ 30"

lemma maybe_expand_correct:
  assumes "hash_inv_pre m ht"
  shows "\<exists>ht'. maybe_expand ht = Some ht' \<and> hash_inv m ht'
    \<and> set (entries ht') = set (entries ht) \<and> count ht' = count ht
    \<and> hash_key ht' = hash_key ht"
proof (cases "count ht > max_index ht")
  case False
  then show ?thesis
    using assms by (auto simp: maybe_expand_def hash_inv_def hash_inv_pre_def not_less)
next
  case True
  have sz: "size_ok (max_index ht) (length (array ht))" using assms by (simp add: hash_inv_pre_def)
  have mx: "unat (max_index ht) < 2 ^ 30"
    using assms True by (simp add: hash_inv_pre_def word_less_nat_alt)
  obtain ht' where ht': "expand_array ht = Some ht'" "max_index ht' = max_index ht * 2 + 1"
    "size_ok (max_index ht') (length (array ht'))" "buckets_ok (max_index ht') (array ht')"
    "mset (entries ht') = mset (entries ht)" "count ht' = count ht"
    "seed ht' = seed ht" "hash_func ht' = hash_func ht"
    using expand_array_correct [OF sz mx] by auto
  have same: "set (entries ht') = set (entries ht)" "length (entries ht') = length (entries ht)"
    using ht'(5) by (metis set_mset_mset, metis size_mset)
  have "mset (map (entry_key m) (entries ht')) = mset (map (entry_key m) (entries ht))"
    using ht'(5) by simp
  then have "distinct (map (entry_key m) (entries ht'))"
    using assms by (metis hash_inv_pre_def mset_eq_imp_distinct_iff)
  moreover have "count ht' \<le> max_index ht'"
    using size_ok_double(2) [OF sz mx] assms ht'(2,6)
    by (simp add: word_le_nat_alt hash_inv_pre_def)
  ultimately have "hash_inv m ht'"
    using assms ht' same hash_key_cong [OF ht'(7,8)]
    by (simp add: hash_inv_def hash_inv_pre_def)
  then show ?thesis
    using True ht' same hash_key_cong [OF ht'(7,8)] by (auto simp: maybe_expand_def)
qed

subsection \<open>Storing, replacing and deleting\<close>

text \<open>
  Replacing a bucket's chain, in terms of the entries. The three cases below
  differ in how the new chain relates to the old one.
\<close>

lemma mset_entries_update:
  assumes "i < length (array ht)" "array ht' = (array ht)[i := c]"
  shows "mset (entries ht') + mset (array ht ! i) = mset (entries ht) + mset c"
  using mset_concat_update [OF assms(1), of c] assms(2) by (simp add: entries_def)

lemma buckets_ok_update:
  assumes "buckets_ok mx a" "\<forall>e \<in> set c. unat (he_hash e AND mx) = i"
  shows "buckets_ok mx (a[i := c])"
  using assms by (cases "i < length a") (auto simp: buckets_ok_def nth_list_update)

lemma insert_correct:
  fixes ht :: "('p, 'v) ogs_hash" and v :: 'v
  assumes inv: "hash_inv m ht" and key: "read_key m p klen = Some bs"
    and new: "hash_map m ht bs = None" and room: "unat (count ht) < 2 ^ 30"
  defines "he \<equiv> \<lparr>he_hash = hash_key ht bs, he_key = p, he_klen = int (length bs), he_val = v\<rparr>"
  defines "ht1 \<equiv> ht\<lparr>free := tl (free ht),
     array := (array ht)[bucket_of ht bs := (array ht ! bucket_of ht bs) @ [he]],
     count := count ht + 1\<rparr>"
  shows "hash_inv_pre m ht1" "set (entries ht1) = insert he (set (entries ht))"
    "entry_key m he = Some bs"
proof -
  let ?i = "bucket_of ht bs"
  show kb: "entry_key m he = Some bs"
    using read_key_again [OF key] by (simp add: entry_key_def he_def)
  have ms: "mset (entries ht1) = add_mset he (mset (entries ht))"
    using mset_entries_update [OF bucket_of_bound [OF inv, of bs], of ht1 "(array ht ! ?i) @ [he]"]
    by (simp add: ht1_def)
  then show st: "set (entries ht1) = insert he (set (entries ht))"
    by (metis set_mset_add_mset_insert set_mset_mset)
  have len: "length (entries ht1) = Suc (length (entries ht))" using ms by (metis size_add_mset size_mset)
  have "mset (map (entry_key m) (entries ht1)) = mset (map (entry_key m) (he # entries ht))"
    using ms by simp
  moreover have "distinct (map (entry_key m) (he # entries ht))"
    using inv kb new by (auto simp: hash_inv_def hash_map_None_iff)
  ultimately have dist: "distinct (map (entry_key m) (entries ht1))"
    by (metis mset_eq_imp_distinct_iff)
  have hk: "hash_key ht1 = hash_key ht" by (rule hash_key_cong) (simp_all add: ht1_def)
  have "\<forall>e \<in> set ((array ht ! ?i) @ [he]). unat (he_hash e AND max_index ht) = ?i"
    using inv bucket_of_bound [OF inv, of bs] by (auto simp: hash_inv_def he_def dest: buckets_okD)
  then have "buckets_ok (max_index ht) ((array ht)[?i := (array ht ! ?i) @ [he]])"
    using inv by (intro buckets_ok_update) (auto simp: hash_inv_def)
  moreover have "unat (count ht + 1) = Suc (unat (count ht))"
    using room by (simp add: unat_word_ariths)
  moreover have "entry_ok m (hash_key ht) he" using kb by (simp add: entry_ok_def) (simp add: he_def)
  ultimately show "hash_inv_pre m ht1"
    using inv room dist len hk st
    by (simp add: hash_inv_pre_def hash_inv_def word_le_nat_alt) (simp add: ht1_def)
qed

lemma replace_correct:
  assumes inv: "hash_inv m ht" and i: "i < length (array ht)" and k: "k < length (array ht ! i)"
    and room: "unat (count ht) \<le> 2 ^ 30"
  defines "e \<equiv> array ht ! i ! k"
  shows "hash_inv_pre m (replace_at ht i k v)"
    "set (entries (replace_at ht i k v)) = insert (e\<lparr>he_val := v\<rparr>) (set (entries ht) - {e})"
proof -
  let ?c = "array ht ! i" and ?ht = "replace_at ht i k v"
  let ?x = "e\<lparr>he_val := v\<rparr>"
  have c: "?c = take k ?c @ e # drop (Suc k) ?c" "?c[k := ?x] = take k ?c @ ?x # drop (Suc k) ?c"
    using k by (simp_all add: e_def upd_conv_take_nth_drop id_take_nth_drop [symmetric])
  have arr: "array ?ht = (array ht)[i := ?c[k := ?x]]" by (simp add: replace_at_def Let_def e_def)
  have "mset ?c = add_mset e (mset (take k ?c @ drop (Suc k) ?c))"
    by (subst c(1)) simp
  moreover have "mset (?c[k := ?x]) = add_mset ?x (mset (take k ?c @ drop (Suc k) ?c))"
    by (subst c(2)) simp
  ultimately have ms: "add_mset e (mset (entries ?ht)) = add_mset ?x (mset (entries ht))"
    using mset_entries_update [OF i arr] by (simp add: union_assoc)
  have d: "distinct (map (entry_key m) (entries ht))" using inv by (simp add: hash_inv_def)
  have "e \<in> set (entries ht)"
    using i k by (auto simp: entries_def e_def intro!: bexI [of _ "array ht ! i"])
  then have rm: "mset (entries ?ht) = add_mset ?x (mset (remove1 e (entries ht)))"
    using add_mset_remove_trivial [of e "mset (entries ?ht)"] ms by (simp add: diff_union_swap2)
  have "distinct (entries ht)" using d by (simp add: distinct_map)
  with rm show st: "set (entries ?ht) = insert ?x (set (entries ht) - {e})"
    by (metis list.set(2) mset.simps(2) set_mset_mset set_remove1_eq)
  have keys: "entry_key m ?x = entry_key m e" "he_hash ?x = he_hash e"
    by (simp_all add: entry_key_def)
  have "mset (map (entry_key m) (entries ?ht)) = mset (map (entry_key m) (e # remove1 e (entries ht)))"
    using rm keys by simp
  also have "\<dots> = mset (map (entry_key m) (entries ht))"
  proof -
    have "mset (e # remove1 e (entries ht)) = mset (entries ht)"
      using \<open>e \<in> set (entries ht)\<close> by simp
    then show ?thesis by (metis mset_map)
  qed
  finally have dist: "distinct (map (entry_key m) (entries ?ht))"
    and len: "length (entries ?ht) = length (entries ht)"
    using d by (metis mset_eq_imp_distinct_iff, metis length_map mset_eq_length)
  have hk: "hash_key ?ht = hash_key ht" by (rule hash_key_cong) (simp_all add: replace_at_def Let_def)
  have "set (?c[k := ?x]) \<subseteq> insert ?x (set ?c)" by (rule set_update_subset_insert)
  moreover have "e \<in> set ?c" using k by (simp add: e_def)
  moreover have "unat (he_hash x AND max_index ht) = i" if "x \<in> set ?c" for x
    using inv i that by (auto simp: hash_inv_def dest: buckets_okD)
  ultimately have "\<forall>x \<in> set (?c[k := ?x]). unat (he_hash x AND max_index ht) = i"
    using keys(2) by fastforce
  then have "buckets_ok (max_index ht) ((array ht)[i := ?c[k := ?x]])"
    using inv by (intro buckets_ok_update) (auto simp: hash_inv_def)
  moreover have "entry_ok m hf ?x = entry_ok m hf e" for hf
    using keys by (simp only: entry_ok_def)
  ultimately show "hash_inv_pre m ?ht"
    using inv room dist len hk st \<open>e \<in> set (entries ht)\<close> arr
    by (simp add: hash_inv_pre_def hash_inv_def word_le_nat_alt) (simp add: replace_at_def Let_def)
qed

text \<open>Deleting keeps the full invariant, and recycles the entry.\<close>

lemma delete_correct:
  assumes inv: "hash_inv m ht" and i: "i < length (array ht)" and k: "k < length (array ht ! i)"
  defines "e \<equiv> array ht ! i ! k"
  shows "hash_inv m (delete_at ht i k)"
    "set (entries (delete_at ht i k)) = set (entries ht) - {e}"
    "free (delete_at ht i k) = e # free ht"
proof -
  let ?c = "array ht ! i" and ?ht = "delete_at ht i k"
  let ?d = "take k ?c @ drop (Suc k) ?c"
  have arr: "array ?ht = (array ht)[i := ?d]" by (simp add: delete_at_def Let_def)
  have "?c = take k ?c @ e # drop (Suc k) ?c" using k by (simp add: e_def id_take_nth_drop [symmetric])
  then have "mset ?c = add_mset e (mset ?d)" by (metis mset.simps(2) mset_append union_mset_add_mset_right)
  then have ms: "mset (entries ht) = add_mset e (mset (entries ?ht))"
    using mset_entries_update [OF i arr] by simp
  have d: "distinct (map (entry_key m) (entries ht))" using inv by (simp add: hash_inv_def)
  have "mset (map (entry_key m) (entries ht)) = mset (map (entry_key m) (e # entries ?ht))"
    using ms by simp
  then have d': "distinct (map (entry_key m) (e # entries ?ht))" using d by (metis mset_eq_imp_distinct_iff)
  have "set (entries ht) = insert e (set (entries ?ht))" using ms by (metis set_mset_add_mset_insert set_mset_mset)
  moreover have "e \<notin> set (entries ?ht)" using d' by auto
  ultimately show st: "set (entries ?ht) = set (entries ht) - {e}" by auto
  have len: "length (entries ht) = Suc (length (entries ?ht))" using ms by (metis size_add_mset size_mset)
  have cnt: "unat (count ht - 1) = unat (count ht) - 1"
    using inv len by (simp add: hash_inv_def unat_sub_if' word_le_nat_alt)
  have hk: "hash_key ?ht = hash_key ht" by (rule hash_key_cong) (simp_all add: delete_at_def Let_def)
  have "set ?d \<subseteq> set ?c" by (auto dest: in_set_takeD in_set_dropD)
  then have "buckets_ok (max_index ht) ((array ht)[i := ?d])"
    using inv i by (intro buckets_ok_update) (auto simp: hash_inv_def buckets_ok_def)
  then show "hash_inv m ?ht"
    using inv d' len cnt hk st arr
    by (auto simp: hash_inv_def word_le_nat_alt delete_at_def Let_def)
  show "free ?ht = e # free ht" by (simp add: delete_at_def Let_def e_def)
qed

lemma find_entry_store:
  assumes "hash_inv m ht" "read_key m p klen = Some bs"
  shows "find_entry m ht p klen (Some v) =
     (if hash_map m ht bs \<noteq> None then Some (ht, bucket_of ht bs, pos_of m ht bs)
      else Some (ht\<lparr>free := tl (free ht),
        array := (array ht)[bucket_of ht bs := (array ht ! bucket_of ht bs) @
          [\<lparr>he_hash = hash_key ht bs, he_key = p, he_klen = int (length bs), he_val = v\<rparr>]],
        count := count ht + 1\<rparr>, bucket_of ht bs, length (array ht ! bucket_of ht bs)))"
proof -
  have "length (takeWhile P xs) \<le> length xs" for P and xs :: "('a, 'b) hash_entry list"
    by (rule length_takeWhile_le)
  then show ?thesis
    using assms scan_bucket [OF assms(1), of bs] entry_at_pos(1) [OF assms(1), of bs]
    by (auto simp: find_entry_def Let_def not_less le_antisym)
qed

lemma entry_key_val_update [simp]: "entry_key m (e\<lparr>he_val := v\<rparr>) = entry_key m e"
  by (simp add: entry_key_def)

lemma he_val_update_same: "he_val e = v \<Longrightarrow> e\<lparr>he_val := v\<rparr> = e"
  by (cases e) simp

lemma replace_at_same:
  assumes "k < length (array ht ! i)" "he_val (array ht ! i ! k) = v"
  shows "replace_at ht i k v = ht"
  using assms by (cases ht) (simp add: replace_at_def Let_def he_val_update_same)

lemma entry_unique:
  assumes inv: "hash_inv m ht" and "pos_of m ht bs < length (array ht ! bucket_of ht bs)"
    and "e \<in> set (entries ht)" "entry_key m e = Some bs"
  shows "e = array ht ! bucket_of ht bs ! pos_of m ht bs"
proof -
  have "array ht ! bucket_of ht bs ! pos_of m ht bs \<in> set (entries ht)"
    using bucket_in_entries [OF inv] nth_mem [OF assms(2)] by blast
  moreover have "inj_on (entry_key m) (set (entries ht))"
    using inv by (simp add: hash_inv_def distinct_map)
  ultimately show ?thesis
    using entry_at_pos(2) [OF inv assms(2)] assms(3,4) by (metis inj_onD)
qed

lemma set_new_key:
  assumes inv: "hash_inv m ht" and key: "read_key m p klen = Some bs" and "klen \<noteq> 0"
    and room: "unat (count ht) < 2 ^ 30" and new: "hash_map m ht bs = None"
  shows "\<exists>ht'. ogs_hash_set m ht p klen (Some v) = Some ht' \<and> hash_inv m ht'
    \<and> hash_map m ht' = (hash_map m ht)(bs := Some v) \<and> count ht' = count ht + 1
    \<and> set (entries ht') = insert \<lparr>he_hash = hash_key ht bs, he_key = p,
          he_klen = int (length bs), he_val = v\<rparr> (set (entries ht))"
proof -
  define he where "he = \<lparr>he_hash = hash_key ht bs, he_key = p, he_klen = int (length bs), he_val = v\<rparr>"
  define ht1 where "ht1 = ht\<lparr>free := tl (free ht),
     array := (array ht)[bucket_of ht bs := (array ht ! bucket_of ht bs) @ [he]],
     count := count ht + 1\<rparr>"
  note ins = insert_correct [OF inv key new room, of v, folded he_def, folded ht1_def]
  obtain ht' where ht': "maybe_expand ht1 = Some ht'" "hash_inv m ht'"
    "set (entries ht') = set (entries ht1)" "count ht' = count ht1"
    using maybe_expand_correct [OF ins(1)] by auto
  have bound: "bucket_of ht bs < length (array ht)" by (rule bucket_of_bound [OF inv])
  have "ogs_hash_set m ht p klen (Some v) = Some ht'"
    using find_entry_store [OF inv key, of v] new \<open>klen \<noteq> 0\<close> ht'(1) bound
      replace_at_same [of "length (array ht ! bucket_of ht bs)" ht1 "bucket_of ht bs" v]
    by (simp add: ogs_hash_set_def he_def [symmetric] ht1_def [symmetric])
      (simp add: ht1_def he_def)
  moreover have "hash_map m ht' = (hash_map m ht)(bs := Some v)"
  proof (rule hash_map_eqI [OF inv ht'(2)])
    fix bs' v'
    have "he_val he = v" by (simp add: he_def)
    then show "(\<exists>e\<in>set (entries ht'). entry_key m e = Some bs' \<and> he_val e = v')
        \<longleftrightarrow> ((hash_map m ht)(bs := Some v)) bs' = Some v'"
      using ht'(3) ins(2,3) new hash_map_Some_iff [OF inv, of bs' v']
      by (auto simp: hash_map_None_iff)
  qed
  ultimately show ?thesis using ht' ins(2) by (simp add: ht1_def he_def)
qed

lemma set_old_key:
  assumes inv: "hash_inv m ht" and key: "read_key m p klen = Some bs" and "klen \<noteq> 0"
    and room: "unat (count ht) \<le> 2 ^ 30" and old: "hash_map m ht bs \<noteq> None"
  shows "\<exists>ht'. ogs_hash_set m ht p klen (Some v) = Some ht' \<and> hash_inv m ht'
    \<and> hash_map m ht' = (hash_map m ht)(bs := Some v) \<and> count ht' = count ht"
proof -
  let ?i = "bucket_of ht bs" and ?k = "pos_of m ht bs"
  let ?e = "array ht ! ?i ! ?k"
  have k: "?k < length (array ht ! ?i)" using entry_at_pos(1) [OF inv] old by simp
  note rep = replace_correct [OF inv bucket_of_bound [OF inv] k room, of v]
  obtain ht' where ht': "maybe_expand (replace_at ht ?i ?k v) = Some ht'" "hash_inv m ht'"
    "set (entries ht') = set (entries (replace_at ht ?i ?k v))"
    "count ht' = count (replace_at ht ?i ?k v)"
    using maybe_expand_correct [OF rep(1)] by auto
  have "ogs_hash_set m ht p klen (Some v) = Some ht'"
    using find_entry_store [OF inv key, of v] old \<open>klen \<noteq> 0\<close> ht'(1) k
    by (simp add: ogs_hash_set_def)
  moreover have "hash_map m ht' = (hash_map m ht)(bs := Some v)"
  proof (rule hash_map_eqI [OF inv ht'(2)])
    fix bs' v'
    have ke: "entry_key m ?e = Some bs" using entry_at_pos(2) [OF inv k] by simp
    then have "set (entries ht) - {?e} = {e \<in> set (entries ht). entry_key m e \<noteq> Some bs}"
      using entry_unique [OF inv k] by auto
    then have st: "set (entries ht')
        = insert (?e\<lparr>he_val := v\<rparr>) {e \<in> set (entries ht). entry_key m e \<noteq> Some bs}"
      using ht'(3) rep(2) by simp
    show "(\<exists>e\<in>set (entries ht'). entry_key m e = Some bs' \<and> he_val e = v')
        \<longleftrightarrow> ((hash_map m ht)(bs := Some v)) bs' = Some v'"
      unfolding st using ke by (auto simp: hash_map_Some_iff [OF inv])
  qed
  ultimately show ?thesis using ht' by (simp add: replace_at_def Let_def)
qed

lemma set_delete_eq:
  assumes inv: "hash_inv m ht" and key: "read_key m p klen = Some bs" and "klen \<noteq> 0"
    and "hash_map m ht bs \<noteq> None"
  shows "ogs_hash_set m ht p klen None = Some (delete_at ht (bucket_of ht bs) (pos_of m ht bs))"
  using find_entry_lookup [OF inv key] entry_at_pos(1) [OF inv, of bs] assms(3,4)
  by (simp add: ogs_hash_set_def)

lemma set_delete_key:
  assumes inv: "hash_inv m ht" and key: "read_key m p klen = Some bs" and "klen \<noteq> 0"
  shows "\<exists>ht'. ogs_hash_set m ht p klen None = Some ht' \<and> hash_inv m ht'
    \<and> hash_map m ht' = (hash_map m ht)(bs := None)
    \<and> unat (count ht') \<le> unat (count ht) \<and> hash_key ht' = hash_key ht
    \<and> set (entries ht') = {e \<in> set (entries ht). entry_key m e \<noteq> Some bs}"
proof (cases "hash_map m ht bs")
  case None
  then have "\<not> pos_of m ht bs < length (array ht ! bucket_of ht bs)"
    using entry_at_pos(1) [OF inv, of bs] by simp
  then have "ogs_hash_set m ht p klen None = Some ht"
    using find_entry_lookup [OF inv key] \<open>klen \<noteq> 0\<close> by (simp add: ogs_hash_set_def)
  with None inv show ?thesis by (auto simp: hash_map_None_iff fun_eq_iff)
next
  case (Some v)
  let ?i = "bucket_of ht bs" and ?k = "pos_of m ht bs"
  let ?e = "array ht ! ?i ! ?k"
  have k: "?k < length (array ht ! ?i)" using entry_at_pos(1) [OF inv] Some by simp
  note del = delete_correct [OF inv bucket_of_bound [OF inv] k]
  have st: "set (entries (delete_at ht ?i ?k)) = {e \<in> set (entries ht). entry_key m e \<noteq> Some bs}"
    using del(2) entry_unique [OF inv k] entry_at_pos(2) [OF inv k] by auto
  have "ogs_hash_set m ht p klen None = Some (delete_at ht ?i ?k)"
    using set_delete_eq [OF inv key \<open>klen \<noteq> 0\<close>] Some by simp
  moreover have "hash_map m (delete_at ht ?i ?k) = (hash_map m ht)(bs := None)"
    by (rule hash_map_eqI [OF inv del(1)]) (auto simp: st hash_map_Some_iff [OF inv])
  moreover have "unat (count (delete_at ht ?i ?k)) \<le> unat (count ht)"
    by (simp add: count_card [OF inv] count_card [OF del(1)] st card_mono)
  moreover have "hash_key (delete_at ht ?i ?k) = hash_key ht"
    by (rule hash_key_cong) (simp_all add: delete_at_def Let_def)
  ultimately show ?thesis using del(1) st by auto
qed

text \<open>\<open>ogs_hash_set\<close> updates the map at the key, growing the array when needed.\<close>

lemma ogs_hash_set_correct:
  assumes inv: "hash_inv m ht" and key: "read_key m p klen = Some bs" and "klen \<noteq> 0"
    and room: "unat (count ht) < 2 ^ 30"
  shows "\<exists>ht'. ogs_hash_set m ht p klen val = Some ht' \<and> hash_inv m ht'
    \<and> hash_map m ht' = (hash_map m ht)(bs := val)
    \<and> unat (count ht') \<le> unat (count ht) + 1"
proof (cases val)
  case None
  then show ?thesis using set_delete_key [OF inv key \<open>klen \<noteq> 0\<close>] by fastforce
next
  case (Some v)
  have "unat (count ht + 1) = unat (count ht) + 1" using room by (simp add: unat_word_ariths)
  then show ?thesis
    using Some set_new_key [OF inv key \<open>klen \<noteq> 0\<close> room, of v]
      set_old_key [OF inv key \<open>klen \<noteq> 0\<close>, of v] room
    by (cases "hash_map m ht bs") fastforce+
qed

subsection \<open>Clearing\<close>

text \<open>
  One round of \<open>ogs_hash_clear\<close>: the current entry is deleted, and what the
  iterator has still to visit stays as it is.
\<close>

lemma clear_step:
  assumes inv: "hash_inv m ht" and e: "e \<in> set (entries ht)" "he_klen e \<noteq> 0"
    and low: "unat (he_hash e AND max_index ht) < unat index"
  shows "\<exists>ht'. ogs_hash_set m ht (he_key e) (he_klen e) None = Some ht' \<and> hash_inv m ht'
    \<and> set (entries ht') = set (entries ht) - {e}
    \<and> rest ht' nx index = rest ht nx index \<and> max_index ht' = max_index ht"
proof -
  obtain bs where bs: "entry_key m e = Some bs" "he_hash e = hash_key ht bs"
    using inv e(1) by (auto simp: hash_inv_def entry_ok_def split: option.splits)
  then have key: "read_key m (he_key e) (he_klen e) = Some bs"
    by (auto simp: entry_key_def split: if_splits)
  have some: "hash_map m ht bs \<noteq> None" using bs(1) e(1) by (auto simp: hash_map_None_iff)
  let ?i = "bucket_of ht bs" and ?k = "pos_of m ht bs"
  have k: "?k < length (array ht ! ?i)" using entry_at_pos(1) [OF inv] some by simp
  note del = delete_correct [OF inv bucket_of_bound [OF inv] k]
  have "drop (unat index) (array (delete_at ht ?i ?k)) = drop (unat index) (array ht)"
    using low bs(2) by (simp add: delete_at_def Let_def)
  then show ?thesis
    using set_delete_eq [OF inv key e(2) some] del(1,2) entry_unique [OF inv k e(1) bs(1)]
    by (simp add: rest_def) (simp add: delete_at_def Let_def)
qed

lemma clear_loop_correct:
  assumes "hash_inv m ht" "set (entries ht) = set (iter_rest ht hi)" "distinct (iter_rest ht hi)"
    "iter_below (max_index ht) hi" "\<forall>e \<in> set (entries ht). he_klen e \<noteq> 0"
  shows "\<exists>ht'. clear_loop m ht hi = Some ht' \<and> hash_inv m ht' \<and> entries ht' = []"
  using assms
proof (induction "length (iter_rest ht hi)" arbitrary: ht hi)
  case 0
  then show ?case by (cases hi) (auto simp: clear_loop.simps [of m ht None])
next
  case (Suc n)
  then obtain e nx index where hi: "hi = Some (e, nx, index)" by (cases hi) auto
  have "unat (he_hash e AND max_index ht) < unat index" "e \<in> set (entries ht)" "he_klen e \<noteq> 0"
    using Suc.prems(2,4,5) hi by (auto simp: below_def)
  from clear_step [OF Suc.prems(1) this(2,3,1)] obtain ht' where ht':
    "ogs_hash_set m ht (he_key e) (he_klen e) None = Some ht'" "hash_inv m ht'"
    "set (entries ht') = set (entries ht) - {e}" "rest ht' nx index = rest ht nx index"
    "max_index ht' = max_index ht"
    by blast
  have ok: "size_ok (max_index ht') (length (array ht'))" "buckets_ok (max_index ht') (array ht')"
    using ht'(2) by (simp_all add: hash_inv_def)
  obtain hi' where hi': "ogs_hash_next ht' nx index = Some hi'"
    "iter_rest ht' hi' = rest ht nx index" "iter_below (max_index ht') hi'"
    using ogs_hash_next_rest [OF ok(1), of nx index] ok(2) ht'(4,5) Suc.prems(4) hi
    by (auto simp: below_def)
  have "\<exists>ht''. clear_loop m ht' hi' = Some ht'' \<and> hash_inv m ht'' \<and> entries ht'' = []"
    using Suc.hyps(2) Suc.prems hi hi' ht' by (intro Suc.hyps(1)) auto
  then show ?case using hi ht'(1) hi'(1) by (subst clear_loop.simps) simp
qed

lemma ogs_hash_clear_correct:
  assumes "hash_inv m ht" "\<forall>e \<in> set (entries ht). he_klen e \<noteq> 0"
  shows "\<exists>ht'. ogs_hash_clear m ht = Some ht' \<and> hash_inv m ht' \<and> entries ht' = []
    \<and> count ht' = 0 \<and> hash_map m ht' = (\<lambda>_. None)"
proof -
  obtain hi where hi: "ogs_hash_first ht = Some hi" "iter_rest ht hi = entries ht"
    "iter_below (max_index ht) hi"
    using ogs_hash_first_entries [of ht] assms(1) by (auto simp: hash_inv_def)
  obtain ht' where "clear_loop m ht hi = Some ht'" "hash_inv m ht'" "entries ht' = []"
    using clear_loop_correct [OF assms(1) _ _ hi(3) assms(2)] hi(2) assms(1)
    by (auto simp: hash_inv_def distinct_map)
  then show ?thesis
    using hi(1) by (auto simp: ogs_hash_clear_def hash_inv_def hash_map_def unat_eq_0)
qed

subsection \<open>Creation, get-or-set, and unrelated memory\<close>

lemma hash_inv_make [simp]: "hash_inv m (ogs_hash_make sd)"
proof -
  have "size_ok 15 16"
    unfolding size_ok_def by (rule exI [of _ 4]) (simp add: mask_eq_exp_minus_1)
  then show ?thesis
    by (simp add: hash_inv_def ogs_hash_make_def alloc_array_def INITIAL_MAX_def entries_def
        buckets_ok_def)
qed

lemma hash_map_make [simp]: "hash_map m (ogs_hash_make sd) = (\<lambda>_. None)"
  by (simp add: fun_eq_iff hash_map_def entries_def ogs_hash_make_def alloc_array_def)

lemma count_make [simp]: "count (ogs_hash_make sd) = 0"
  by (simp add: ogs_hash_make_def)

lemma entries_make: "entries (ogs_hash_make sd) = []"
  by (simp add: entries_def ogs_hash_make_def alloc_array_def)

lemma get_or_set_correct:
  assumes inv: "hash_inv m ht" and key: "read_key m p klen = Some bs" and "klen \<noteq> 0"
    and room: "unat (count ht) < 2 ^ 30"
  shows "\<exists>ht'. ogs_hash_get_or_set m ht p klen (Some v)
        = Some (Some (case hash_map m ht bs of None \<Rightarrow> v | Some old \<Rightarrow> old), ht')
    \<and> hash_inv m ht'
    \<and> hash_map m ht' = (hash_map m ht)(bs := Some (case hash_map m ht bs of None \<Rightarrow> v | Some old \<Rightarrow> old))"
proof (cases "hash_map m ht bs")
  case None
  define he where "he = \<lparr>he_hash = hash_key ht bs, he_key = p, he_klen = int (length bs), he_val = v\<rparr>"
  define ht1 where "ht1 = ht\<lparr>free := tl (free ht),
     array := (array ht)[bucket_of ht bs := (array ht ! bucket_of ht bs) @ [he]],
     count := count ht + 1\<rparr>"
  have bound: "bucket_of ht bs < length (array ht)" by (rule bucket_of_bound [OF inv])
  then have d: "deref ht1 (bucket_of ht bs) (length (array ht ! bucket_of ht bs)) = Some he"
    by (simp add: deref_def ht1_def)
  have f: "find_entry m ht p klen (Some v)
      = Some (ht1, bucket_of ht bs, length (array ht ! bucket_of ht bs))"
    using find_entry_store [OF inv key, of v] None by (simp add: he_def ht1_def)
  have "replace_at ht1 (bucket_of ht bs) (length (array ht ! bucket_of ht bs)) v = ht1"
    using bound by (intro replace_at_same) (simp_all add: ht1_def he_def)
  then have "ogs_hash_set m ht p klen (Some v) = maybe_expand ht1"
    using f d \<open>klen \<noteq> 0\<close> by (simp add: ogs_hash_set_def deref_def split: if_splits)
  then show ?thesis
    using set_new_key [OF inv key \<open>klen \<noteq> 0\<close> room None, of v] f d \<open>klen \<noteq> 0\<close> None
    by (auto simp: ogs_hash_get_or_set_def he_def)
next
  case (Some old)
  have "hash_map m ht bs \<noteq> None" using Some by simp
  then have k: "pos_of m ht bs < length (array ht ! bucket_of ht bs)"
    using entry_at_pos(1) [OF inv] by simp
  have "maybe_expand ht = Some ht"
    using inv by (auto simp: maybe_expand_def hash_inv_def)
  then show ?thesis
    using Some find_entry_store [OF inv key, of v] entry_at_pos(2) [OF inv k] k \<open>klen \<noteq> 0\<close> inv
    by (auto simp: ogs_hash_get_or_set_def deref_def fun_upd_idem)
qed

text \<open>
  The table reads its callers' memory: it stays sound under changes of memory
  that leave the bytes of the stored keys alone.
\<close>

lemma entry_key_frame: "m' (he_key e) = m (he_key e) \<Longrightarrow> entry_key m' e = entry_key m e"
  by (simp add: entry_key_def read_key_def)

lemma hash_frame:
  assumes "hash_inv m ht" "\<And>e. e \<in> set (entries ht) \<Longrightarrow> m' (he_key e) = m (he_key e)"
  shows "hash_inv m' ht" "hash_map m' ht = hash_map m ht"
proof -
  have keys: "\<And>e. e \<in> set (entries ht) \<Longrightarrow> entry_key m' e = entry_key m e"
    using assms(2) by (rule entry_key_frame)
  then have "map (entry_key m') (entries ht) = map (entry_key m) (entries ht)" by simp
  then show inv: "hash_inv m' ht"
    using assms(1) keys unfolding hash_inv_def entry_ok_def by (simp cong: map_cong)
  show "hash_map m' ht = hash_map m ht"
    by (rule hash_map_eqI [OF inv inv]) (use keys in \<open>auto simp: hash_map_Some_iff [OF assms(1)]\<close>)
qed

subsection \<open>Stale keys\<close>

lemma scan_stale:
  assumes "\<forall>e \<in> set es. m' (he_key e) = m (he_key e) \<or> m' (he_key e) = []" "bs \<noteq> []"
    and "\<forall>e \<in> set es. entry_key m e = Some bs \<longrightarrow> m' (he_key e) = []"
    and "\<exists>e \<in> set es. entry_key m e = Some bs \<and> he_hash e = x"
  shows "scan_chain m' x bs es = None"
  using assms(1,3,4)
proof (induction es)
  case (Cons e es)
  show ?case
  proof (cases "he_hash e = x \<and> he_klen e = int (length bs)")
    case True
    show ?thesis
    proof (cases "m' (he_key e) = []")
      case False
      then have "read_key m' (he_key e) (int (length bs)) = entry_key m e" "entry_key m e \<noteq> Some bs"
        using Cons.prems(1,2) True by (auto simp: entry_key_def read_key_def)
      then show ?thesis using True Cons by (cases "entry_key m e") auto
    qed (use True assms(2) in \<open>simp add: read_key_def\<close>)
  next
    case False
    then have "\<not> (entry_key m e = Some bs \<and> he_hash e = x)" using entry_key_length by blast
    then have "scan_chain m' x bs es = None" using Cons by auto
    then show ?thesis using False by auto
  qed
qed simp

text \<open>
  A table whose keys were readable in memory \<open>m\<close>, of which some are no longer in \<open>m'\<close>: looking for a
  key that was stored there reads a stale pointer.
\<close>

lemma find_stale:
  assumes "hash_inv m ht" "hash_map m ht bs \<noteq> None" "bs \<noteq> []" "read_key m' p len = Some bs"
    and "\<forall>e \<in> set (entries ht). m' (he_key e) = m (he_key e) \<or> m' (he_key e) = []"
    and "\<forall>e \<in> set (entries ht). entry_key m e = Some bs \<longrightarrow> m' (he_key e) = []"
  shows "find_entry m' ht p len v = None"
proof -
  obtain e where e: "e \<in> set (entries ht)" "entry_key m e = Some bs"
    using assms(2) by (auto simp: hash_map_None_iff)
  then have "entry_ok m (hash_key ht) e" using assms(1) by (auto simp: hash_inv_def)
  then have h: "he_hash e = hash_key ht bs" using e(2) by (auto simp: entry_ok_def)
  have "e \<in> set (array ht ! bucket_of ht bs)"
    using entry_in_bucket [of "max_index ht" "array ht" e] e(1) assms(1) h by (simp add: hash_inv_def entries_def)
  then have "scan_chain m' (hash_key ht bs) bs (array ht ! bucket_of ht bs) = None"
    using bucket_in_entries [OF assms(1), of bs] assms(3,5,6) e(2) h by (intro scan_stale [of _ _ m]) blast+
  then show ?thesis using assms(4) by (simp add: find_entry_def)
qed

lemma find_gone:
  assumes "hash_inv m ht" "hash_map m ht bs \<noteq> None" "bs \<noteq> []"
    and "\<forall>e \<in> set (entries ht). m' (he_key e) = []" "read_key m' p len = Some bs"
  shows "find_entry m' ht p len v = None"
  using find_stale [OF assms(1-3,5)] assms(4) by blast

subsection \<open>The table as an interface\<close>

text \<open>
  What the pools and the network functions rely on: \<open>get\<close> reads a map and \<open>put\<close>
  updates it, as long as the table holds fewer than \<open>limit\<close> entries. A key is
  a pointer whose bytes can be read.
\<close>

locale key_table =
  fixes ok :: "'t \<Rightarrow> bool" and entry_count :: "'t \<Rightarrow> nat" and limit :: nat
    and key :: "'p \<Rightarrow> 'k option"
    and abs_map :: "'t \<Rightarrow> 'k \<Rightarrow> 'v option"
    and get :: "'t \<Rightarrow> 'p \<Rightarrow> 'v option option"
    and put :: "'t \<Rightarrow> 'p \<Rightarrow> 'v option \<Rightarrow> 't option"
  assumes get_law: "ok t \<Longrightarrow> key p = Some k \<Longrightarrow> get t p = Some (abs_map t k)"
    and put_law: "ok t \<Longrightarrow> key p = Some k \<Longrightarrow> entry_count t < limit \<Longrightarrow>
      \<exists>t'. put t p v = Some t' \<and> ok t' \<and> abs_map t' = (abs_map t)(k := v)
           \<and> entry_count t' \<le> entry_count t + 1"
begin

lemma get_after_put:
  assumes "ok t" "key p = Some k" "entry_count t < limit"
  shows "\<exists>t'. put t p v = Some t' \<and> ok t'
    \<and> (\<forall>q k'. key q = Some k' \<longrightarrow> get t' q = (if k' = k then Some v else get t q))"
  using put_law [OF assms, of v] get_law assms(1) by fastforce

lemma put_all:
  assumes "ok t" "\<forall>(p, v) \<in> set kvs. key p \<noteq> None" "entry_count t + length kvs \<le> limit"
  shows "\<exists>t'. foldM (\<lambda>(p, v) t. put t p v) kvs t = Some t' \<and> ok t'
    \<and> abs_map t' = fold (\<lambda>(p, v) f. f(the (key p) := v)) kvs (abs_map t)
    \<and> entry_count t' \<le> entry_count t + length kvs"
  using assms
proof (induction kvs arbitrary: t)
  case (Cons pv kvs)
  obtain p v k where pv: "pv = (p, v)" "key p = Some k" using Cons.prems(2) by (cases pv) auto
  obtain t' where t': "put t p v = Some t'" "ok t'" "abs_map t' = (abs_map t)(k := v)"
    "entry_count t' \<le> entry_count t + 1"
    using put_law [OF Cons.prems(1) pv(2), of v] Cons.prems(3) by auto
  have "entry_count t' + length kvs \<le> limit" using t'(4) Cons.prems(3) by simp
  moreover have "\<forall>(p, v) \<in> set kvs. key p \<noteq> None" using Cons.prems(2) by simp
  ultimately obtain t'' where "foldM (\<lambda>(p, v) t. put t p v) kvs t' = Some t''" "ok t''"
    "abs_map t'' = fold (\<lambda>(p, v) f. f(the (key p) := v)) kvs (abs_map t')"
    "entry_count t'' \<le> entry_count t' + length kvs"
    using Cons.IH [OF t'(2)] by blast
  then show ?case using t' pv by (simp del: fun_upd_apply)
qed simp

end

abbreviation ptr_key :: "'p memory \<Rightarrow> 'p \<times> int \<Rightarrow> u8 list option" where
  "ptr_key m \<equiv> (\<lambda>(p, klen). if klen = 0 then None else read_key m p klen)"

interpretation ht: key_table "hash_inv m" "\<lambda>t. unat (count t)" "2 ^ 30" "ptr_key m" "hash_map m"
  "\<lambda>t (p, klen). ogs_hash_get m t p klen" "\<lambda>t (p, klen) v. ogs_hash_set m t p klen v"
  for m :: "'p memory"
proof unfold_locales
  fix t :: "('p, 'v) ogs_hash" and pk :: "'p \<times> int" and k
  assume "hash_inv m t" "ptr_key m pk = Some k"
  then show "(case pk of (p, klen) \<Rightarrow> ogs_hash_get m t p klen) = Some (hash_map m t k)"
    by (cases pk) (simp add: ogs_hash_get_correct split: if_splits)
next
  fix t :: "('p, 'v) ogs_hash" and pk :: "'p \<times> int" and k and v
  assume "hash_inv m t" "ptr_key m pk = Some k" "unat (count t) < 2 ^ 30"
  then show "\<exists>t'. (case pk of (p, klen) \<Rightarrow> \<lambda>v. ogs_hash_set m t p klen v) v = Some t'
      \<and> hash_inv m t' \<and> hash_map m t' = (hash_map m t)(k := v) \<and> unat (count t') \<le> unat (count t) + 1"
    using ogs_hash_set_correct [of m t _ _ k v] by (cases pk) (auto split: if_splits)
qed

subsection \<open>Properties\<close>

text \<open>C7. A lookup after \<open>ogs_hash_set\<close> returns the value just set when the two keys have
  the same bytes, and what it returned before otherwise; storing \<open>NULL\<close> deletes.
  This holds whether or not the store grew the array.\<close>

theorem hash_get_after_set:
  assumes "hash_inv m ht" "read_key m p klen = Some bs" "klen \<noteq> 0" "unat (count ht) < 2 ^ 30"
  shows "\<exists>ht'. ogs_hash_set m ht p klen val = Some ht' \<and> hash_inv m ht'
    \<and> (\<forall>q kl bs'. kl \<noteq> 0 \<and> read_key m q kl = Some bs' \<longrightarrow>
         ogs_hash_get m ht' q kl = (if bs' = bs then Some val else ogs_hash_get m ht q kl))"
  using ht.get_after_put [of m ht "(p, klen)" bs val] assms by fastforce

theorem hash_get_after_set_witness:
  "\<exists>ht'. ogs_hash_set (\<lambda>p :: nat. [of_nat p, 7]) (ogs_hash_make 9) 3 2 (Some ''a'') = Some ht'
    \<and> ogs_hash_get (\<lambda>p. [of_nat p, 7]) ht' 3 2 = Some (Some ''a'')
    \<and> ogs_hash_get (\<lambda>p. [of_nat p, 7]) ht' 4 2 = Some None"
proof -
  let ?m = "\<lambda>p :: nat. [of_nat p, 7 :: u8]"
  have k: "read_key ?m 3 2 = Some [3, 7]" "read_key ?m 4 2 = Some [4, 7]"
    by (simp_all add: read_key_def OGS_HASH_KEY_STRING_def)
  obtain ht' where "ogs_hash_set ?m (ogs_hash_make 9) 3 2 (Some ''a'') = Some ht'"
    "\<forall>q kl bs'. kl \<noteq> 0 \<and> read_key ?m q kl = Some bs' \<longrightarrow> ogs_hash_get ?m ht' q kl
       = (if bs' = [3, 7] then Some (Some ''a'') else ogs_hash_get ?m (ogs_hash_make 9) q kl)"
    using hash_get_after_set [OF hash_inv_make k(1), of 9 "Some ''a''"] by auto
  moreover have "ogs_hash_get ?m (ogs_hash_make 9 :: (nat, string) ogs_hash) 4 2 = Some None"
    using ogs_hash_get_correct [OF hash_inv_make k(2)] by simp
  ultimately show ?thesis using k by auto
qed

text \<open>A freshly made table accepts any sequence of up to 2^30 stores and
  deletions with readable, non-empty keys without aborting, through every growth of the
  array, and then each lookup returns the value of the last store under these key bytes.\<close>

theorem hash_stores_from_make:
  assumes "\<forall>((p, kl), v) \<in> set kvs. kl \<noteq> 0 \<and> read_key m p kl \<noteq> None" "length kvs \<le> 2 ^ 30"
    and "kl \<noteq> 0" "read_key m q kl = Some bs"
  shows "\<exists>ht. foldM (\<lambda>((p, kl), v) t. ogs_hash_set m t p kl v) kvs (ogs_hash_make sd) = Some ht
    \<and> ogs_hash_get m ht q kl
        = Some (fold (\<lambda>((p, kl), v) f. f(the (read_key m p kl) := v)) kvs (\<lambda>_. None) bs)"
proof -
  have eq: "(\<lambda>(pk, v) t. (case pk of (p, klen) \<Rightarrow> \<lambda>v. ogs_hash_set m t p klen v) v)
      = (\<lambda>((p, kl), v) t. ogs_hash_set m t p kl v)" by (auto simp: fun_eq_iff)
  have keys: "\<forall>(pk, v) \<in> set kvs. ptr_key m pk \<noteq> None" using assms(1) by auto
  have "fold (\<lambda>(pk, v) f. f(the (ptr_key m pk) := v)) kvs g
      = fold (\<lambda>((p, kl), v) f. f(the (read_key m p kl) := v)) kvs g" for g
    by (rule fold_cong) (use assms(1) in \<open>auto simp del: fun_upd_apply\<close>)
  then show ?thesis
    using ht.put_all [of m "ogs_hash_make sd" kvs] keys assms(2-4) ogs_hash_get_correct
    by (fastforce simp: eq simp del: fun_upd_apply)
qed

theorem hash_stores_from_make_witness:
  "\<exists>ht. foldM (\<lambda>((p, kl), v) t. ogs_hash_set (\<lambda>p :: nat. [of_nat p]) t p kl v)
      [((1, 1), Some (10 :: int)), ((2, 1), Some 20), ((257, 1), Some 30)] (ogs_hash_make 0) = Some ht
    \<and> ogs_hash_get (\<lambda>p. [of_nat p]) ht 1 1 = Some (Some 30)"
  using hash_stores_from_make [of "[((1, 1), Some (10 :: int)), ((2, 1), Some 20), ((257, 1), Some 30)]"
      "\<lambda>p :: nat. [of_nat p]" 1 1 "[1]" 0]
  by (simp add: read_key_def OGS_HASH_KEY_STRING_def)

text \<open>\<open>ogs_hash_clear\<close> ends, although it deletes the entries that it is
  iterating over, and leaves a table in which every lookup fails. Entries under an empty string
  are excluded: their recorded length is 0, which \<open>ogs_hash_set\<close> asserts against.\<close>

theorem hash_clear_empties:
  assumes "hash_inv m ht" "\<forall>e \<in> set (entries ht). he_klen e \<noteq> 0"
  shows "\<exists>ht'. ogs_hash_clear m ht = Some ht' \<and> hash_inv m ht' \<and> ogs_hash_count ht' = 0
    \<and> (\<forall>q kl bs. kl \<noteq> 0 \<and> read_key m q kl = Some bs \<longrightarrow> ogs_hash_get m ht' q kl = Some None)"
  using ogs_hash_clear_correct [OF assms] ogs_hash_get_correct
  by (fastforce simp: ogs_hash_count_def)

theorem hash_clear_empties_witness:
  "\<exists>ht'. ogs_hash_clear (\<lambda>p. [of_nat p]) (ogs_hash_make 1 :: (nat, int) ogs_hash) = Some ht'
    \<and> ogs_hash_count ht' = 0"
proof -
  have "entries (ogs_hash_make 1 :: (nat, int) ogs_hash) = []"
    by (simp add: entries_def ogs_hash_make_def alloc_array_def)
  then show ?thesis
    using hash_clear_empties [of "\<lambda>p. [of_nat p]" "ogs_hash_make 1 :: (nat, int) ogs_hash"] by auto
qed

text \<open>\<open>ogs_hash_do\<close> presents every entry once to its callback, in bucket order,
  until the callback returns zero: with a callback that collects and never stops, it collects
  exactly the table's contents, each key once.\<close>

theorem hash_do_visits_all:
  fixes ht :: "('p, 'v) ogs_hash"
  assumes "hash_inv m ht"
  shows "\<exists>kvs. ogs_hash_do (\<lambda>r k kl v. (1, r @ [(read_key m k kl, v)])) [] ht = Some (1, kvs)
    \<and> distinct (map fst kvs) \<and> (\<forall>bs v. (Some bs, v) \<in> set kvs \<longleftrightarrow> hash_map m ht bs = Some v)
    \<and> length kvs = unat (ogs_hash_count ht)"
proof -
  let ?f = "\<lambda>e. (read_key m (he_key e) (he_klen e), he_val e)"
  have "do_entries (\<lambda>r k kl v. (1, r @ [(read_key m k kl, v)])) r es = (1, r @ map ?f es)"
    for r and es :: "('p, 'v) hash_entry list"
    by (induction es arbitrary: r) auto
  then have do_eq: "ogs_hash_do (\<lambda>r k kl v. (1, r @ [(read_key m k kl, v)])) [] ht
      = Some (1, map ?f (entries ht))"
    by (simp add: ogs_hash_do_entries [OF assms])
  have key: "entry_key m e = read_key m (he_key e) (he_klen e)" if "e \<in> set (entries ht)" for e
    using assms that by (auto simp: hash_inv_def entry_ok_def entry_key_def split: option.splits if_splits)
  then have "map fst (map ?f (entries ht)) = map (entry_key m) (entries ht)" by simp
  then have "distinct (map fst (map ?f (entries ht)))" using assms by (simp only: hash_inv_def)
  moreover have "(Some bs, v) \<in> set (map ?f (entries ht)) \<longleftrightarrow> hash_map m ht bs = Some v" for bs v
  proof -
    have "set (map ?f (entries ht)) = (\<lambda>e. (entry_key m e, he_val e)) ` set (entries ht)"
      unfolding set_map by (rule image_cong) (simp_all add: key)
    then show ?thesis unfolding hash_map_Some_iff [OF assms] by force
  qed
  moreover have "length (map ?f (entries ht)) = unat (ogs_hash_count ht)"
    using assms by (simp add: hash_inv_def ogs_hash_count_def)
  ultimately show ?thesis using do_eq by blast
qed

theorem hash_do_visits_all_witness:
  "\<exists>kvs. ogs_hash_do (\<lambda>r k kl v. (1, r @ [(read_key (\<lambda>p. [of_nat p]) k kl, v)])) []
      (ogs_hash_make 1 :: (nat, int) ogs_hash) = Some (1, kvs) \<and> distinct (map fst kvs)"
  using hash_do_visits_all [of "\<lambda>p. [of_nat p]" "ogs_hash_make 1 :: (nat, int) ogs_hash",
      OF hash_inv_make] by blast

text \<open>The table keeps pointers to its callers' keys. As long as the bytes behind the
  keys that it stores do not change, every lookup is independent of the rest of the memory.\<close>

theorem hash_get_frame:
  assumes "hash_inv m ht" "\<And>e. e \<in> set (entries ht) \<Longrightarrow> m' (he_key e) = m (he_key e)"
    and "klen \<noteq> 0" "read_key m p klen = Some bs" "read_key m' q klen' = Some bs" "klen' \<noteq> 0"
  shows "ogs_hash_get m' ht q klen' = ogs_hash_get m ht p klen"
  using hash_frame [OF assms(1,2)] ogs_hash_get_correct assms by metis

theorem hash_get_frame_witness:
  "ogs_hash_get (\<lambda>p. [of_nat p]) (ogs_hash_make 1 :: (nat, int) ogs_hash) 5 1
   = ogs_hash_get (\<lambda>p. [5, 6]) (ogs_hash_make 1) (9 :: nat) 1"
proof -
  have "entries (ogs_hash_make 1 :: (nat, int) ogs_hash) = []"
    by (simp add: entries_def ogs_hash_make_def alloc_array_def)
  then show ?thesis
    by (intro hash_get_frame [of "\<lambda>p. [5, 6]" _ "\<lambda>p. [of_nat p]" 1 9 "[5]" 5 1])
      (simp_all add: read_key_def OGS_HASH_KEY_STRING_def)
qed

end
