(* ===== verification/Ogs_Pool.thy ===== *)
theory Ogs_Pool
  imports Ogs_Hash
begin

section \<open>Object pools (lib/core/ogs-pool.h)\<close>

text \<open>
  Sessions, events, TEIDs and SEIDs come from fixed pools. A pool is an array
  of nodes, a ring \<open>free\<close> of pointers to the free nodes, a table \<open>index\<close> from
  node number to the node while it is allocated, and for pools with identifiers
  the hash table \<open>id_hash\<close> from the 4 bytes of a node's \<open>id\<close> field to the node. A node is
  its position in the array. The table's keys point into the nodes: pointer
  \<open>NodeId n\<close> is the address of node \<open>n\<close>'s \<open>id\<close> field, \<open>LocalId x\<close> a caller's variable
  that holds \<open>x\<close>.
\<close>

datatype id_ptr = NodeId nat | LocalId u32

record ogs_pool =
  head :: nat
  tail :: nat
  size :: nat
  avail :: nat
  free_ring :: "nat option list"
  index :: "nat option list"
  ids :: "u32 list"
  id_hash :: "(id_ptr, nat) ogs_hash"
  id :: u32

definition OGS_MIN_POOL_ID :: u32 where "OGS_MIN_POOL_ID = 1"
definition OGS_MAX_POOL_ID :: u32 where "OGS_MAX_POOL_ID = 0x7fffffff"

definition OGS_NEXT_ID :: "u32 \<Rightarrow> u32 \<Rightarrow> u32 \<Rightarrow> u32" where
  "OGS_NEXT_ID i mn mx = (if i = mx then mn else i + 1)"

text \<open>The bytes behind the two kinds of key pointer, in host (little-endian) order.\<close>

definition id_bytes :: "u32 \<Rightarrow> u8 list" where
  "id_bytes x = rev (be32 x)"

fun pool_mem :: "u32 list \<Rightarrow> id_ptr \<Rightarrow> u8 list" where
  "pool_mem is (NodeId n) = (if n < length is then id_bytes (is ! n) else [])"
| "pool_mem is (LocalId x) = id_bytes x"

subsection \<open>Operations\<close>

text \<open>
  \<open>ogs_pool_init\<close> leaves the node contents as \<open>malloc\<close> returns them and the
  \<open>id\<close> counter as it was; both are arguments, with the seed of the hash table.
\<close>

definition ogs_pool_init :: "nat \<Rightarrow> u32 list \<Rightarrow> u32 \<Rightarrow> u32 \<Rightarrow> ogs_pool" where
  "ogs_pool_init n contents last_id sd =
     \<lparr>head = 0, tail = 0, size = n, avail = n,
      free_ring = map Some [0..<n], index = replicate n None,
      ids = contents, id_hash = ogs_hash_make sd, id = last_id\<rparr>"

text \<open>\<open>ogs_pool_final\<close> reports how many nodes were not released.\<close>

definition ogs_pool_final :: "ogs_pool \<Rightarrow> nat" where
  "ogs_pool_final p = size p - avail p"

definition ogs_pool_alloc :: "ogs_pool \<Rightarrow> (nat option \<times> ogs_pool) option" where
  "ogs_pool_alloc p =
     (if avail p > 0 then
        do { node \<leftarrow> free_ring p ! head p;
             Some (Some node, p\<lparr>avail := avail p - 1,
                                free_ring := (free_ring p)[head p := None],
                                head := (head p + 1) mod size p,
                                index := (index p)[node := Some node]\<rparr>) }
      else Some (None, p))"

definition ogs_pool_free :: "nat \<Rightarrow> ogs_pool \<Rightarrow> ogs_pool" where
  "ogs_pool_free node p =
     (if avail p < size p then
        p\<lparr>avail := avail p + 1,
          free_ring := (free_ring p)[tail p := Some node],
          tail := (tail p + 1) mod size p,
          index := (index p)[node := None]\<rparr>
      else p)"

definition ogs_pool_index :: "nat \<Rightarrow> nat" where
  "ogs_pool_index node = node + 1"

definition ogs_pool_find :: "ogs_pool \<Rightarrow> int \<Rightarrow> nat option" where
  "ogs_pool_find p i = (if i > 0 \<and> i \<le> int (size p) then index p ! nat (i - 1) else None)"

definition ogs_pool_id_calloc :: "ogs_pool \<Rightarrow> (nat option \<times> ogs_pool) option" where
  "ogs_pool_id_calloc p =
     do { (node, p) \<leftarrow> ogs_pool_alloc p;
          case node of
            None \<Rightarrow> Some (None, p)
          | Some n \<Rightarrow>
              do { let i = OGS_NEXT_ID (id p) 1 OGS_MAX_POOL_ID;
                   let p = p\<lparr>id := i, ids := (ids p)[n := i]\<rparr>;
                   ht \<leftarrow> ogs_hash_set (pool_mem (ids p)) (id_hash p) (NodeId n) 4 (Some n);
                   Some (Some n, p\<lparr>id_hash := ht\<rparr>) } }"

definition ogs_pool_id_free :: "nat \<Rightarrow> ogs_pool \<Rightarrow> ogs_pool option" where
  "ogs_pool_id_free n p =
     do { ogs_assert (OGS_MIN_POOL_ID \<le> ids p ! n \<and> ids p ! n \<le> OGS_MAX_POOL_ID);
          ht \<leftarrow> ogs_hash_set (pool_mem (ids p)) (id_hash p) (NodeId n) 4 None;
          Some (ogs_pool_free n (p\<lparr>id_hash := ht\<rparr>)) }"

definition ogs_pool_find_by_id :: "ogs_pool \<Rightarrow> u32 \<Rightarrow> nat option option" where
  "ogs_pool_find_by_id p i = ogs_hash_get (pool_mem (ids p)) (id_hash p) (LocalId i) 4"

definition ogs_pool_size :: "ogs_pool \<Rightarrow> nat" where "ogs_pool_size p = size p"
definition ogs_pool_avail :: "ogs_pool \<Rightarrow> nat" where "ogs_pool_avail p = avail p"

text \<open>
  Pools of identifiers: the nodes are numbers. \<open>rnd\<close> gives the successive
  values of \<open>ogs_random32\<close>, indexed here by the loop variable.
\<close>

definition ogs_pool_sequence_id_generate :: "nat \<Rightarrow> nat list" where
  "ogs_pool_sequence_id_generate n = map (\<lambda>i. i + 1) [0..<n]"

fun shuffle :: "(nat \<Rightarrow> u32) \<Rightarrow> nat \<Rightarrow> nat list \<Rightarrow> nat list" where
  "shuffle rnd 0 a = a"
| "shuffle rnd (Suc i) a =
     (let j = unat (rnd (Suc i)) mod (Suc i + 1);
          temp = a ! Suc i;
          a = a[Suc i := a ! j];
          a = a[j := temp]
      in shuffle rnd i a)"

definition ogs_pool_random_id_generate :: "(nat \<Rightarrow> u32) \<Rightarrow> nat \<Rightarrow> nat list" where
  "ogs_pool_random_id_generate rnd n = shuffle rnd (n - 1) (map (\<lambda>i. i + 1) [0..<n])"

definition ogs_pool_assert_if_has_duplicate :: "nat list \<Rightarrow> unit option" where
  "ogs_pool_assert_if_has_duplicate a =
     ogs_assert (\<forall>i \<in> set [0..<length a]. \<forall>j \<in> set [i + 1..<length a]. a ! i \<noteq> a ! j)"

subsection \<open>The free ring\<close>

text \<open>
  \<open>pool_repr p fs\<close>: the free nodes are \<open>fs\<close>, in the order in which they will be
  handed out, and \<open>index\<close> knows exactly the others.
\<close>

definition pool_repr :: "ogs_pool \<Rightarrow> nat list \<Rightarrow> bool" where
  "pool_repr p fs \<longleftrightarrow>
     0 < size p \<and> length (free_ring p) = size p \<and> length (index p) = size p
   \<and> head p < size p \<and> avail p = length fs \<and> avail p \<le> size p
   \<and> tail p = (head p + avail p) mod size p
   \<and> ring (free_ring p) (head p) (avail p) = map Some fs
   \<and> distinct fs \<and> set fs \<subseteq> {..<size p}
   \<and> (\<forall>i < size p. index p ! i = (if i \<in> set fs then None else Some i))"

definition live :: "ogs_pool \<Rightarrow> nat set" where
  "live p = {i. i < size p \<and> index p ! i \<noteq> None}"

lemma pool_repr_fields [simp]:
  "pool_repr (p\<lparr>id_hash := h\<rparr>) fs = pool_repr p fs" "live (p\<lparr>id_hash := h\<rparr>) = live p"
  "pool_repr (p\<lparr>ids := is\<rparr>) fs = pool_repr p fs" "live (p\<lparr>ids := is\<rparr>) = live p"
  "pool_repr (p\<lparr>id := i\<rparr>) fs = pool_repr p fs" "live (p\<lparr>id := i\<rparr>) = live p"
  by (simp_all add: pool_repr_def live_def)

lemma live_repr: "pool_repr p fs \<Longrightarrow> live p = {..<size p} - set fs"
  by (auto simp: pool_repr_def live_def split: if_splits)

lemma card_live: "pool_repr p fs \<Longrightarrow> card (live p) + avail p = size p"
  using card_Diff_subset [of "set fs" "{..<size p}"] card_mono [of "{..<size p}" "set fs"]
  by (simp add: live_repr) (auto simp: pool_repr_def distinct_card)

lemma pool_repr_init:
  assumes "0 < n"
  shows "pool_repr (ogs_pool_init n c l sd) [0..<n]"
proof -
  have "ring (map Some [0..<n]) 0 n = map Some [0..<n]"
    by (rule nth_equalityI) (simp_all add: nth_ring)
  then show ?thesis using assms by (auto simp: pool_repr_def ogs_pool_init_def)
qed

lemma pool_alloc_repr:
  assumes "pool_repr p (x # fs)"
  shows "\<exists>p'. ogs_pool_alloc p = Some (Some x, p') \<and> pool_repr p' fs \<and> size p' = size p
    \<and> live p' = insert x (live p) \<and> x \<notin> live p \<and> x < size p
    \<and> ids p' = ids p \<and> id_hash p' = id_hash p \<and> id p' = id p"
proof -
  have hd: "free_ring p ! head p = Some x"
    "ring (free_ring p) ((head p + 1) mod size p) (length fs) = map Some fs"
    using assms ring_Suc_hd [of "head p" "free_ring p" "length fs"] by (auto simp: pool_repr_def)
  define p' where "p' = p\<lparr>avail := avail p - 1, free_ring := (free_ring p)[head p := None],
    head := (head p + 1) mod size p, index := (index p)[x := Some x]\<rparr>"
  have lt: "length fs < length (free_ring p)" using assms by (simp add: pool_repr_def)
  have "ring ((free_ring p)[head p := None]) ((head p + 1) mod size p) (length fs) = map Some fs"
    using ring_update_head [of "head p" "free_ring p" "length fs" None] hd(2) lt assms
    by (simp add: pool_repr_def)
  then have "pool_repr p' fs"
    using assms by (auto simp: pool_repr_def p'_def mod_simps nth_list_update)
  moreover have "ogs_pool_alloc p = Some (Some x, p')"
    using hd(1) assms by (simp add: ogs_pool_alloc_def pool_repr_def p'_def)
  moreover have "live p' = insert x (live p)" "x \<notin> live p" "x < size p"
    using assms live_repr [OF assms] live_repr [OF \<open>pool_repr p' fs\<close>]
    by (auto simp: pool_repr_def p'_def)
  ultimately show ?thesis by (simp add: p'_def)
qed

lemma pool_alloc_empty:
  "pool_repr p [] \<Longrightarrow> ogs_pool_alloc p = Some (None, p)"
  by (simp add: pool_repr_def ogs_pool_alloc_def)

lemma pool_free_repr:
  assumes "pool_repr p fs" "x \<in> live p"
  shows "pool_repr (ogs_pool_free x p) (fs @ [x])" "live (ogs_pool_free x p) = live p - {x}"
    "size (ogs_pool_free x p) = size p" "ids (ogs_pool_free x p) = ids p"
    "id_hash (ogs_pool_free x p) = id_hash p" "id (ogs_pool_free x p) = id p"
proof -
  have x: "x < size p" "x \<notin> set fs" using assms live_repr by auto
  have "card (live p) > 0" using assms(2) by (auto simp: card_gt_0_iff live_def)
  then have lt: "avail p < size p" using card_live [OF assms(1)] by linarith
  then have eq: "ogs_pool_free x p = p\<lparr>avail := avail p + 1,
      free_ring := (free_ring p)[tail p := Some x], tail := (tail p + 1) mod size p,
      index := (index p)[x := None]\<rparr>"
    by (simp add: ogs_pool_free_def)
  have "ring ((free_ring p)[tail p := Some x]) (head p) (Suc (length fs)) = map Some fs @ [Some x]"
    using ring_snoc [of "length fs" "free_ring p" "head p" "Some x"] assms(1) lt
    by (auto simp: pool_repr_def)
  then show r: "pool_repr (ogs_pool_free x p) (fs @ [x])"
    using assms(1) x lt unfolding eq by (auto simp: pool_repr_def mod_simps nth_list_update)
  show "live (ogs_pool_free x p) = live p - {x}"
    using live_repr [OF r] live_repr [OF assms(1)] by (auto simp: eq)
qed (simp_all add: ogs_pool_free_def)

lemma pool_find_live:
  assumes "pool_repr p fs"
  shows "ogs_pool_find p i = Some x \<longleftrightarrow> x \<in> live p \<and> i = int (ogs_pool_index x)"
proof (cases "i > 0 \<and> i \<le> int (size p)")
  case True
  define k where "k = nat (i - 1)"
  then have "i = int k + 1" "k < size p" using True by auto
  then show ?thesis
    using assms by (auto simp: ogs_pool_find_def ogs_pool_index_def live_def pool_repr_def split: if_splits)
qed (auto simp: ogs_pool_find_def ogs_pool_index_def live_def)

subsection \<open>The pool as an interface\<close>

text \<open>
  A client of a pool sees its free nodes in their order of reuse: allocation
  takes the first one, release appends. From this, a batch of allocations
  yields distinct nodes, and a released node is handed out again only after every
  node that was free before it.
\<close>

locale object_pool =
  fixes repr :: "'p \<Rightarrow> 'n list \<Rightarrow> bool"
    and live_set :: "'p \<Rightarrow> 'n set"
    and alloc :: "'p \<Rightarrow> ('n option \<times> 'p) option"
    and release :: "'n \<Rightarrow> 'p \<Rightarrow> 'p"
  assumes alloc_some: "repr p (x # fs) \<Longrightarrow>
      \<exists>p'. alloc p = Some (Some x, p') \<and> repr p' fs \<and> live_set p' = insert x (live_set p) \<and> x \<notin> live_set p"
    and alloc_none: "repr p [] \<Longrightarrow> alloc p = Some (None, p)"
    and release_law: "repr p fs \<Longrightarrow> x \<in> live_set p \<Longrightarrow>
      repr (release x p) (fs @ [x]) \<and> live_set (release x p) = live_set p - {x}"
begin

lemma alloc_batch:
  "repr p (xs @ fs) \<Longrightarrow>
   \<exists>p'. foldM (\<lambda>x p. alloc p \<bind> (\<lambda>(n, p'). if n = Some x then Some p' else None)) xs p = Some p'
     \<and> repr p' fs \<and> live_set p' = set xs \<union> live_set p"
proof (induction xs arbitrary: p)
  case (Cons x xs)
  obtain p1 where p1: "alloc p = Some (Some x, p1)" "repr p1 (xs @ fs)"
    "live_set p1 = insert x (live_set p)"
    using alloc_some [of p x "xs @ fs"] Cons.prems by auto
  with Cons.IH [OF p1(2)] show ?case by auto
qed auto

lemma released_node_waits:
  assumes "repr p fs" "x \<in> live_set p"
  shows "\<exists>p'. foldM (\<lambda>y p. alloc p \<bind> (\<lambda>(n, p'). if n = Some y then Some p' else None)) fs (release x p)
      = Some p' \<and> (\<exists>p''. alloc p' = Some (Some x, p'') \<and> alloc p'' = Some (None, p''))"
proof -
  obtain p' where "foldM (\<lambda>y p. alloc p \<bind> (\<lambda>(n, p'). if n = Some y then Some p' else None)) fs
      (release x p) = Some p'" "repr p' [x]"
    using alloc_batch [of "release x p" fs "[x]"] release_law [OF assms] by auto
  moreover obtain p'' where "alloc p' = Some (Some x, p'')" "repr p'' []"
    using alloc_some [OF \<open>repr p' [x]\<close>] by auto
  ultimately show ?thesis using alloc_none by blast
qed

end

interpretation op: object_pool pool_repr live ogs_pool_alloc ogs_pool_free
proof unfold_locales
  show "\<exists>p'. ogs_pool_alloc p = Some (Some x, p') \<and> pool_repr p' fs \<and> live p' = insert x (live p)
      \<and> x \<notin> live p" if "pool_repr p (x # fs)" for p x fs
    using pool_alloc_repr [OF that] by blast
qed (simp_all add: pool_alloc_empty pool_free_repr)

subsection \<open>Pools with identifiers\<close>

lemma id_bytes_inject [simp]: "id_bytes x = id_bytes y \<longleftrightarrow> x = y"
proof
  assume "id_bytes x = id_bytes y"
  then have "rd32 (be32 x ! 0) (be32 x ! 1) (be32 x ! 2) (be32 x ! 3)
      = rd32 (be32 y ! 0) (be32 y ! 1) (be32 y ! 2) (be32 y ! 3)"
    by (simp add: id_bytes_def)
  then show "x = y" by (simp add: be32_def)
qed simp

lemma length_id_bytes [simp]: "length (id_bytes x) = 4"
  by (simp add: id_bytes_def)

lemma read_key_node: "n < length is \<Longrightarrow> read_key (pool_mem is) (NodeId n) 4 = Some (id_bytes (is ! n))"
  by (simp add: read_key_def OGS_HASH_KEY_STRING_def)

lemma read_key_local: "read_key (pool_mem is) (LocalId x) 4 = Some (id_bytes x)"
  by (simp add: read_key_def OGS_HASH_KEY_STRING_def)

text \<open>
  The table of identifiers has one entry for each live node; its key pointer
  is the node's own \<open>id\<close> field, which no other node's allocation writes.
\<close>

definition id_inv :: "ogs_pool \<Rightarrow> bool" where
  "id_inv p \<longleftrightarrow> length (ids p) = size p \<and> size p \<le> 2 ^ 30 \<and> id p \<le> OGS_MAX_POOL_ID
   \<and> hash_inv (pool_mem (ids p)) (id_hash p)
   \<and> (\<forall>e \<in> set (entries (id_hash p)). he_key e = NodeId (he_val e) \<and> he_klen e = 4)
   \<and> he_val ` set (entries (id_hash p)) = live p
   \<and> (\<forall>n \<in> live p. 1 \<le> ids p ! n \<and> ids p ! n \<le> OGS_MAX_POOL_ID)"

lemma id_entry_key:
  assumes "id_inv p" "e \<in> set (entries (id_hash p))"
  shows "entry_key (pool_mem (ids p)) e = Some (id_bytes (ids p ! he_val e))"
proof -
  have "he_val e \<in> live p" using assms by (auto simp: id_inv_def)
  then have "he_val e < length (ids p)" using assms(1) by (auto simp: id_inv_def live_def)
  then show ?thesis
    using assms read_key_node by (auto simp: id_inv_def entry_key_def)
qed

lemma id_lookup:
  assumes "id_inv p"
  shows "hash_map (pool_mem (ids p)) (id_hash p) (id_bytes i) = Some n
    \<longleftrightarrow> n \<in> live p \<and> ids p ! n = i"
proof -
  have inv: "hash_inv (pool_mem (ids p)) (id_hash p)" using assms by (simp add: id_inv_def)
  have "live p = he_val ` set (entries (id_hash p))" using assms by (simp add: id_inv_def)
  then show ?thesis
    unfolding hash_map_Some_iff [OF inv] using id_entry_key [OF assms] by (auto simp: image_iff)
qed

lemma find_by_id_correct:
  assumes "id_inv p"
  shows "ogs_pool_find_by_id p i = Some (hash_map (pool_mem (ids p)) (id_hash p) (id_bytes i))"
  using assms ogs_hash_get_correct [OF _ read_key_local, of "ids p" "id_hash p" i]
  by (simp add: ogs_pool_find_by_id_def id_inv_def)

lemma live_ids_distinct:
  assumes "id_inv p" "n \<in> live p" "k \<in> live p" "ids p ! n = ids p ! k"
  shows "n = k"
  using id_lookup [OF assms(1), of "ids p ! n"] assms(2-4) by (metis option.inject)

lemma id_entries_count:
  assumes "id_inv p" "pool_repr p fs"
  shows "unat (count (id_hash p)) = card (live p)"
proof -
  have "inj_on he_val (set (entries (id_hash p)))"
  proof (rule inj_onI)
    fix a b assume ab: "a \<in> set (entries (id_hash p))" "b \<in> set (entries (id_hash p))" "he_val a = he_val b"
    then have "entry_key (pool_mem (ids p)) a = entry_key (pool_mem (ids p)) b"
      using id_entry_key [OF assms(1)] by simp
    then show "a = b"
      using assms(1) ab by (auto simp: id_inv_def hash_inv_def distinct_map dest: inj_onD)
  qed
  then show ?thesis
    using assms(1) count_card card_image by (metis id_inv_def)
qed

lemma id_inv_init:
  assumes "length c = n" "n \<le> 2 ^ 30" "l \<le> OGS_MAX_POOL_ID"
  shows "id_inv (ogs_pool_init n c l sd)"
proof -
  have "entries (ogs_hash_make sd :: (id_ptr, nat) ogs_hash) = []"
    by (simp add: entries_def ogs_hash_make_def alloc_array_def)
  then show ?thesis
    using assms by (simp add: id_inv_def ogs_pool_init_def live_def cong: conj_cong)
qed

lemma next_id_range:
  assumes "l \<le> OGS_MAX_POOL_ID"
  shows "1 \<le> OGS_NEXT_ID l 1 OGS_MAX_POOL_ID" "OGS_NEXT_ID l 1 OGS_MAX_POOL_ID \<le> OGS_MAX_POOL_ID"
proof -
  have "l < OGS_MAX_POOL_ID \<Longrightarrow> unat (l + 1) = Suc (unat l)" by (rule unat_Suc_less)
  then show "1 \<le> OGS_NEXT_ID l 1 OGS_MAX_POOL_ID" "OGS_NEXT_ID l 1 OGS_MAX_POOL_ID \<le> OGS_MAX_POOL_ID"
    using assms by (auto simp: OGS_NEXT_ID_def word_le_nat_alt word_less_nat_alt OGS_MAX_POOL_ID_def
        word_unat_eq_iff)
qed

text \<open>
  Allocation with an identifier. The counter wraps at \<open>OGS_MAX_POOL_ID\<close>, so the new
  identifier is unique as long as no live node still holds it.
\<close>

lemma id_calloc_correct:
  assumes inv: "id_inv p" and repr: "pool_repr p (x # fs)"
  defines "i \<equiv> OGS_NEXT_ID (id p) 1 OGS_MAX_POOL_ID"
  assumes fresh: "\<forall>n \<in> live p. ids p ! n \<noteq> i"
  shows "\<exists>p'. ogs_pool_id_calloc p = Some (Some x, p') \<and> id_inv p' \<and> pool_repr p' fs
    \<and> live p' = insert x (live p) \<and> x \<notin> live p \<and> ids p' = (ids p)[x := i] \<and> id p' = i
    \<and> size p' = size p"
proof -
  obtain p1 where p1: "ogs_pool_alloc p = Some (Some x, p1)" "pool_repr p1 fs" "size p1 = size p"
    "live p1 = insert x (live p)" "x \<notin> live p" "x < size p"
    "ids p1 = ids p" "id_hash p1 = id_hash p" "id p1 = id p"
    using pool_alloc_repr [OF repr] by blast
  let ?is = "(ids p)[x := i]" and ?h = "id_hash p"
  have x: "x < length (ids p)" using inv p1(6) by (simp add: id_inv_def)
  have same: "pool_mem ?is (he_key e) = pool_mem (ids p) (he_key e)" if "e \<in> set (entries ?h)" for e
  proof -
    have "he_val e \<in> live p" using inv that by (auto simp: id_inv_def)
    then have "he_val e \<noteq> x" using p1(5) by auto
    then show ?thesis using inv that by (simp add: id_inv_def)
  qed
  have hinv: "hash_inv (pool_mem ?is) ?h" "hash_map (pool_mem ?is) ?h = hash_map (pool_mem (ids p)) ?h"
    using hash_frame [of "pool_mem (ids p)" ?h "pool_mem ?is"] same inv by (auto simp: id_inv_def)
  have none: "hash_map (pool_mem ?is) ?h (id_bytes i) = None"
    using hinv(2) id_lookup [OF inv, of i] fresh by (metis option.exhaust)
  have key: "read_key (pool_mem ?is) (NodeId x) 4 = Some (id_bytes i)"
    using x read_key_node [of x ?is] by simp
  have "card (live p) < size p" using card_live [OF repr] repr by (simp add: pool_repr_def)
  then have "unat (count ?h) < 2 ^ 30"
    using id_entries_count [OF inv repr] inv by (simp add: id_inv_def)
  from set_new_key [OF hinv(1) key _ this none, of x]
  obtain ht' where ht': "ogs_hash_set (pool_mem ?is) ?h (NodeId x) 4 (Some x) = Some ht'"
    "hash_inv (pool_mem ?is) ht'" "set (entries ht') = insert \<lparr>he_hash = hash_key ?h (id_bytes i),
        he_key = NodeId x, he_klen = 4, he_val = x\<rparr> (set (entries ?h))"
    by auto
  define p' where "p' = p1\<lparr>id := i, ids := ?is, id_hash := ht'\<rparr>"
  have "live p' = insert x (live p)" using p1(4) by (simp add: p'_def)
  moreover have "pool_repr p' fs" using p1(2) by (simp add: p'_def)
  moreover have "ogs_pool_id_calloc p = Some (Some x, p')"
    using p1 ht'(1) by (simp add: ogs_pool_id_calloc_def p'_def i_def [symmetric] Let_def)
  moreover have "id_inv p'"
  proof -
    have "id p \<le> OGS_MAX_POOL_ID" using inv by (simp add: id_inv_def)
    note rng = next_id_range [OF this, folded i_def]
    have "\<forall>n \<in> insert x (live p). 1 \<le> ?is ! n \<and> ?is ! n \<le> OGS_MAX_POOL_ID"
      using inv rng x p1(5) by (auto simp: id_inv_def nth_list_update)
    moreover have "he_val ` set (entries ht') = insert x (live p)"
      using inv by (simp add: ht'(3) id_inv_def)
    moreover have "\<forall>e \<in> set (entries ht'). he_key e = NodeId (he_val e) \<and> he_klen e = 4"
      using inv by (simp add: ht'(3) id_inv_def)
    ultimately show ?thesis
      using inv ht'(2) rng p1(3) \<open>live p' = insert x (live p)\<close>
      unfolding id_inv_def by (simp add: p'_def)
  qed
  ultimately show ?thesis using p1(3,5) by (simp add: p'_def)
qed

lemma id_free_correct:
  assumes inv: "id_inv p" and repr: "pool_repr p fs" and n: "n \<in> live p"
  shows "\<exists>p'. ogs_pool_id_free n p = Some p' \<and> id_inv p' \<and> pool_repr p' (fs @ [n])
    \<and> live p' = live p - {n} \<and> ids p' = ids p \<and> id p' = id p \<and> size p' = size p"
proof -
  have nl: "n < length (ids p)" using inv n by (simp add: id_inv_def live_def)
  have hinv: "hash_inv (pool_mem (ids p)) (id_hash p)" using inv by (simp add: id_inv_def)
  from set_delete_key [OF hinv read_key_node [OF nl]]
  obtain ht' where ht': "ogs_hash_set (pool_mem (ids p)) (id_hash p) (NodeId n) 4 None = Some ht'"
    "hash_inv (pool_mem (ids p)) ht'"
    "set (entries ht') = {e \<in> set (entries (id_hash p)).
        entry_key (pool_mem (ids p)) e \<noteq> Some (id_bytes (ids p ! n))}"
    by auto
  have ent: "set (entries ht') = {e \<in> set (entries (id_hash p)). he_val e \<noteq> n}"
  proof -
    have "ids p ! he_val e = ids p ! n \<longleftrightarrow> he_val e = n" if "e \<in> set (entries (id_hash p))" for e
    proof -
      have "he_val e \<in> live p" using that inv by (auto simp: id_inv_def)
      then show ?thesis using live_ids_distinct [OF inv _ n] by auto
    qed
    then show ?thesis using ht'(3) id_entry_key [OF inv] by auto
  qed
  let ?p = "p\<lparr>id_hash := ht'\<rparr>"
  have "pool_repr ?p fs" "n \<in> live ?p" using repr n by simp_all
  note fr = pool_free_repr [OF this]
  have lv: "live ?p = live p" by simp
  have "OGS_MIN_POOL_ID \<le> ids p ! n \<and> ids p ! n \<le> OGS_MAX_POOL_ID"
    using inv n by (simp add: id_inv_def OGS_MIN_POOL_ID_def)
  then have "ogs_pool_id_free n p = Some (ogs_pool_free n ?p)"
    using ht'(1) by (simp add: ogs_pool_id_free_def)
  moreover have "he_val ` set (entries ht') = live p - {n}"
    using inv ent by (auto simp: id_inv_def)
  then have "id_inv (ogs_pool_free n ?p)"
    using inv ht'(2) ent fr lv unfolding id_inv_def by simp
  ultimately show ?thesis using fr lv by simp
qed

subsection \<open>Runs of a pool with identifiers\<close>

text \<open>
  \<open>id_pool_run n t p\<close>: \<open>p\<close> is a state of a pool of \<open>n\<close> nodes that has handed out \<open>t\<close>
  identifiers, after any interleaving of \<open>ogs_pool_id_calloc\<close> and
  \<open>ogs_pool_id_free\<close> of live nodes.
\<close>

inductive id_pool_run :: "nat \<Rightarrow> nat \<Rightarrow> ogs_pool \<Rightarrow> bool" where
  run_init: "length c = n \<Longrightarrow> id_pool_run n 0 (ogs_pool_init n c 0 sd)"
| run_calloc: "id_pool_run n t p \<Longrightarrow> ogs_pool_id_calloc p = Some (Some x, p') \<Longrightarrow>
    id_pool_run n (Suc t) p'"
| run_empty: "id_pool_run n t p \<Longrightarrow> ogs_pool_id_calloc p = Some (None, p') \<Longrightarrow> id_pool_run n t p'"
| run_free: "id_pool_run n t p \<Longrightarrow> x \<in> live p \<Longrightarrow> ogs_pool_id_free x p = Some p' \<Longrightarrow>
    id_pool_run n t p'"

inductive_cases run_calloc_cases: "id_pool_run n (Suc t) p"

definition run_inv :: "nat \<Rightarrow> nat \<Rightarrow> ogs_pool \<Rightarrow> bool" where
  "run_inv n t p \<longleftrightarrow> (\<exists>fs. pool_repr p fs) \<and> id_inv p \<and> size p = n
     \<and> unat (id p) = t \<and> (\<forall>x \<in> live p. ids p ! x \<le> id p)"

lemma run_inv_next_id:
  assumes "run_inv n t p" "t < 2 ^ 31 - 1"
  shows "unat (OGS_NEXT_ID (id p) 1 OGS_MAX_POOL_ID) = Suc t"
    "\<forall>x \<in> live p. ids p ! x < OGS_NEXT_ID (id p) 1 OGS_MAX_POOL_ID"
proof -
  have lt: "id p < OGS_MAX_POOL_ID"
    using assms by (simp add: run_inv_def word_less_nat_alt OGS_MAX_POOL_ID_def)
  then show u: "unat (OGS_NEXT_ID (id p) 1 OGS_MAX_POOL_ID) = Suc t"
    using assms(1) unat_Suc_less [OF lt] by (auto simp: OGS_NEXT_ID_def run_inv_def)
  show "\<forall>x \<in> live p. ids p ! x < OGS_NEXT_ID (id p) 1 OGS_MAX_POOL_ID"
    using assms(1) u by (auto simp: run_inv_def word_less_nat_alt word_le_nat_alt)
qed

lemma run_inv_calloc:
  assumes "run_inv n t p" "t < 2 ^ 31 - 1" "pool_repr p (x # fs)"
  shows "\<exists>p'. ogs_pool_id_calloc p = Some (Some x, p') \<and> run_inv n (Suc t) p'"
proof -
  note nxt = run_inv_next_id [OF assms(1,2)]
  let ?i = "OGS_NEXT_ID (id p) 1 OGS_MAX_POOL_ID"
  have inv: "id_inv p" using assms(1) by (simp add: run_inv_def)
  obtain p' where p': "ogs_pool_id_calloc p = Some (Some x, p')" "id_inv p'" "pool_repr p' fs"
    "live p' = insert x (live p)" "x \<notin> live p" "ids p' = (ids p)[x := ?i]" "id p' = ?i"
    "size p' = size p"
    using id_calloc_correct [OF inv assms(3)] nxt(2) by fastforce
  have "x < length (ids p)" using inv assms(3) by (simp add: id_inv_def pool_repr_def)
  then have "ids p' ! y \<le> id p'" if "y \<in> live p'" for y
    using that nxt(2) p'(4-7) by (auto simp: nth_list_update)
  then show ?thesis using p' assms(1) nxt(1) by (auto simp: run_inv_def)
qed

lemma id_pool_run_inv:
  assumes "id_pool_run n t p" "0 < n" "n \<le> 2 ^ 30" "t < 2 ^ 31"
  shows "run_inv n t p"
  using assms
proof (induction rule: id_pool_run.induct)
  case (run_init c n sd)
  then show ?case
    using pool_repr_init [of n c 0 sd] id_inv_init [of c n 0 sd]
    by (auto simp: run_inv_def ogs_pool_init_def live_def OGS_MAX_POOL_ID_def)
next
  case (run_calloc n t p x p')
  then have inv: "run_inv n t p" by simp
  then obtain fs where fs: "pool_repr p fs" by (auto simp: run_inv_def)
  show ?case
  proof (cases fs)
    case Nil
    then show ?thesis using run_calloc.hyps(2) fs by (simp add: ogs_pool_id_calloc_def pool_alloc_empty)
  next
    case (Cons y ys)
    then show ?thesis using run_inv_calloc [OF inv, of y ys] fs run_calloc by auto
  qed
next
  case (run_empty n t p p')
  then have inv: "run_inv n t p" by simp
  then obtain fs where fs: "pool_repr p fs" by (auto simp: run_inv_def)
  show ?case
  proof (cases fs)
    case Nil
    then show ?thesis using run_empty.hyps(2) fs inv by (simp add: ogs_pool_id_calloc_def pool_alloc_empty)
  next
    case (Cons y ys)
    then obtain q where "ogs_pool_alloc p = Some (Some y, q)" using pool_alloc_repr fs by blast
    then show ?thesis using run_empty.hyps(2) by (auto simp: ogs_pool_id_calloc_def Let_def split: bind_splits)
  qed
next
  case (run_free n t p x p')
  then have inv: "run_inv n t p" by simp
  then obtain fs where "pool_repr p fs" "id_inv p" by (auto simp: run_inv_def)
  with id_free_correct [OF this(2,1)] run_free inv show ?case by (fastforce simp: run_inv_def)
qed

subsection \<open>Properties\<close>


lemma run_one: "id_pool_run 2 0 (ogs_pool_init 2 [0, 0] 0 5)"
  by (rule run_init) simp


text \<open>In every such run, \<open>ogs_pool_find_by_id\<close> finds a live node by its identifier and
  nothing by any other number: identifiers of released nodes find nothing.\<close>

theorem pool_find_by_id_exact:
  assumes "id_pool_run n t p" "0 < n" "n \<le> 2 ^ 30" "t < 2 ^ 31"
  shows "\<exists>r. ogs_pool_find_by_id p i = Some r \<and> (\<forall>x. r = Some x \<longleftrightarrow> x \<in> live p \<and> ids p ! x = i)"
proof -
  have "id_inv p" using id_pool_run_inv [OF assms] by (simp add: run_inv_def)
  then show ?thesis by (simp add: find_by_id_correct id_lookup)
qed

theorem pool_find_by_id_exact_witness:
  "\<exists>r. ogs_pool_find_by_id (ogs_pool_init 2 [0, 0] 0 5) 1 = Some r \<and> r = None"
proof -
  have "live (ogs_pool_init 2 [0, 0] 0 5) = {}" by (auto simp: live_def ogs_pool_init_def)
  moreover have "0 < (2::nat)" "(2::nat) \<le> 2 ^ 30" "(0::nat) < 2 ^ 31" by simp_all
  note pool_find_by_id_exact [OF run_one this, of 1]
  ultimately show ?thesis by auto
qed

text \<open>A released node is the last of the free nodes to be handed out again: every node
  that was free before the release comes first, in order. Stale pointers are therefore reused as
  late as possible.\<close>

theorem pool_fifo_reuse:
  assumes "pool_repr p fs" "x \<in> live p"
  shows "\<exists>p'. foldM (\<lambda>y p. ogs_pool_alloc p \<bind> (\<lambda>(n, p'). if n = Some y then Some p' else None))
        fs (ogs_pool_free x p) = Some p'
    \<and> (\<exists>p''. ogs_pool_alloc p' = Some (Some x, p'') \<and> ogs_pool_alloc p'' = Some (None, p''))"
  using assms by (rule op.released_node_waits)

theorem pool_fifo_reuse_witness:
  "\<exists>p fs. pool_repr p fs \<and> 0 \<in> live p \<and>
    (\<exists>p'. foldM (\<lambda>y p. ogs_pool_alloc p \<bind> (\<lambda>(n, p'). if n = Some y then Some p' else None))
        fs (ogs_pool_free 0 p) = Some p')"
proof -
  obtain p where "pool_repr p [1]" "0 \<in> live p"
    using pool_alloc_repr [of "ogs_pool_init 2 [0, 0] 0 5" 0 "[1]"]
      pool_repr_init [of 2 "[0, 0]" 0 5] by (auto simp: upt_rec)
  then show ?thesis using pool_fifo_reuse by blast
qed

text \<open>\<open>ogs_pool_random_id_generate\<close> shuffles without loss whatever the random numbers are:
  the result holds each of 1 to the pool size once, so \<open>ogs_pool_assert_if_has_duplicate\<close>
  passes.\<close>

theorem pool_random_ids_permutation:
  "set (ogs_pool_random_id_generate rnd n) = {1..n}
   \<and> length (ogs_pool_random_id_generate rnd n) = n
   \<and> ogs_pool_assert_if_has_duplicate (ogs_pool_random_id_generate rnd n) = Some ()"
proof -
  have sh: "i < length a \<Longrightarrow> mset (shuffle rnd i a) = mset a" for i and a :: "nat list"
  proof (induction i arbitrary: a)
    case (Suc i)
    let ?j = "unat (rnd (Suc i)) mod (Suc i + 1)"
    have "?j < Suc i + 1" by (rule mod_less_divisor) simp
    then have j: "?j < length a" using Suc.prems by linarith
    have "mset (shuffle rnd (Suc i) a) = mset (a[Suc i := a ! ?j, ?j := a ! Suc i])"
      using Suc by (simp add: Let_def)
    also have "\<dots> = mset a" using mset_swap [OF j Suc.prems] by simp
    finally show ?case .
  qed simp
  let ?r = "ogs_pool_random_id_generate rnd n"
  have ms: "mset ?r = mset (map (\<lambda>i. i + 1) [0..<n])"
    using sh [of "n - 1" "map (\<lambda>i. i + 1) [0..<n]"]
    by (cases "n = 0") (auto simp: ogs_pool_random_id_generate_def)
  then have "set ?r = set (map (\<lambda>i. i + 1) [0..<n])" by (metis set_mset_mset)
  moreover have "set (map (\<lambda>i. i + 1) [0..<n]) = {1..n}"
    by (auto simp: image_iff intro!: bexI [of _ "_ - 1"])
  moreover have "distinct ?r" using mset_eq_imp_distinct_iff [OF ms] by (simp add: distinct_map)
  moreover have "length ?r = n" using mset_eq_length [OF ms] by simp
  ultimately show ?thesis
    by (auto simp: ogs_pool_assert_if_has_duplicate_def nth_eq_iff_index_eq)
qed

end
