(* ===== verification/Ogs_Queue.thy ===== *)
theory Ogs_Queue
  imports Ogs_Prelude
begin

section \<open>The bounded event queue (lib/core/ogs-queue.c)\<close>

text \<open>
  Every network function's main thread pops its events from this queue, and the
  SBI and timer code pushes them. The operations are split where they give up the
  mutex: the unlocked test of \<open>terminated\<close>, the critical section, and the
  code that runs when a condition wait returns with status \<open>rv\<close>. A critical
  section returns \<open>None\<close> when the thread starts to wait, and says whether it signals
  the other side. The system of several threads is a step relation in which a
  waiting thread may wake up at any time, as POSIX allows.
\<close>

record 'a ogs_queue =
  data :: "'a option list"
  nelts :: nat
  q_in :: nat
  q_out :: nat
  bounds :: nat
  full_waiters :: nat
  empty_waiters :: nat
  terminated :: bool

definition ogs_queue_create :: "nat \<Rightarrow> 'a ogs_queue" where
  "ogs_queue_create capacity = \<lparr>data = replicate capacity None, nelts = 0, q_in = 0, q_out = 0,
     bounds = capacity, full_waiters = 0, empty_waiters = 0, terminated = False\<rparr>"

definition ogs_queue_full :: "'a ogs_queue \<Rightarrow> bool" where
  "ogs_queue_full q \<longleftrightarrow> nelts q = bounds q"

definition ogs_queue_empty :: "'a ogs_queue \<Rightarrow> bool" where
  "ogs_queue_empty q \<longleftrightarrow> nelts q = 0"

definition advance :: "'a ogs_queue \<Rightarrow> nat \<Rightarrow> nat" where
  "advance q i = (if i + 1 \<ge> bounds q then i + 1 - bounds q else i + 1)"

definition store :: "'a ogs_queue \<Rightarrow> 'a \<Rightarrow> 'a ogs_queue" where
  "store q d = q\<lparr>data := (data q)[q_in q := Some d], q_in := advance q (q_in q), nelts := nelts q + 1\<rparr>"

definition fetch :: "'a ogs_queue \<Rightarrow> 'a option \<times> 'a ogs_queue" where
  "fetch q = (data q ! q_out q, q\<lparr>nelts := nelts q - 1, q_out := advance q (q_out q)\<rparr>)"

text \<open>The critical section of \<open>queue_push\<close>: status, queue, and whether \<open>not_empty\<close> is signalled.\<close>

definition queue_push_locked :: "'a ogs_queue \<Rightarrow> 'a \<Rightarrow> int \<Rightarrow> status option \<times> 'a ogs_queue \<times> bool" where
  "queue_push_locked q d timeout =
     (if ogs_queue_full q then
        if timeout = 0 then (Some OGS_RETRY, q, False)
        else if \<not> terminated q then (None, q\<lparr>full_waiters := full_waiters q + 1\<rparr>, False)
        else (Some OGS_DONE, q, False)
      else (Some OGS_OK, store q d, empty_waiters q > 0))"

definition queue_push_resume :: "'a ogs_queue \<Rightarrow> 'a \<Rightarrow> status \<Rightarrow> status \<times> 'a ogs_queue \<times> bool" where
  "queue_push_resume q d rv =
     (let q = q\<lparr>full_waiters := full_waiters q - 1\<rparr>
      in if rv \<noteq> OGS_OK then (rv, q, False)
         else if ogs_queue_full q then (if terminated q then OGS_DONE else OGS_ERROR, q, False)
         else (OGS_OK, store q d, empty_waiters q > 0))"

definition queue_pop_locked :: "'a ogs_queue \<Rightarrow> int \<Rightarrow> status option \<times> 'a option \<times> 'a ogs_queue \<times> bool" where
  "queue_pop_locked q timeout =
     (if ogs_queue_empty q then
        if timeout = 0 then (Some OGS_RETRY, None, q, False)
        else if \<not> terminated q then (None, None, q\<lparr>empty_waiters := empty_waiters q + 1\<rparr>, False)
        else (Some OGS_DONE, None, q, False)
      else let (d, q') = fetch q in (Some OGS_OK, d, q', full_waiters q > 0))"

definition queue_pop_resume :: "'a ogs_queue \<Rightarrow> status \<Rightarrow> status \<times> 'a option \<times> 'a ogs_queue \<times> bool" where
  "queue_pop_resume q rv =
     (let q = q\<lparr>empty_waiters := empty_waiters q - 1\<rparr>
      in if rv \<noteq> OGS_OK then (rv, None, q, False)
         else if ogs_queue_empty q then (if terminated q then OGS_DONE else OGS_ERROR, None, q, False)
         else let (d, q') = fetch q in (OGS_OK, d, q', full_waiters q > 0))"

text \<open>The non-blocking operations run start to end without giving up the mutex.\<close>

definition ogs_queue_trypush :: "'a ogs_queue \<Rightarrow> 'a \<Rightarrow> status \<times> 'a ogs_queue" where
  "ogs_queue_trypush q d =
     (if terminated q then (OGS_DONE, q)
      else case queue_push_locked q d 0 of (s, q', _) \<Rightarrow> (case s of Some st \<Rightarrow> st | None \<Rightarrow> OGS_ERROR, q'))"

definition ogs_queue_trypop :: "'a ogs_queue \<Rightarrow> status \<times> 'a option \<times> 'a ogs_queue" where
  "ogs_queue_trypop q =
     (if terminated q then (OGS_DONE, None, q)
      else case queue_pop_locked q 0 of
             (s, d, q', _) \<Rightarrow> (case s of Some st \<Rightarrow> st | None \<Rightarrow> OGS_ERROR, d, q'))"

definition ogs_queue_size :: "'a ogs_queue \<Rightarrow> nat" where
  "ogs_queue_size q = nelts q"

definition ogs_queue_term :: "'a ogs_queue \<Rightarrow> 'a ogs_queue" where
  "ogs_queue_term q = q\<lparr>terminated := True\<rparr>"

subsection \<open>Contents\<close>

definition queue_repr :: "'a ogs_queue \<Rightarrow> 'a list \<Rightarrow> bool" where
  "queue_repr q xs \<longleftrightarrow> length (data q) = bounds q \<and> 0 < bounds q \<and> q_out q < bounds q
     \<and> nelts q = length xs \<and> length xs \<le> bounds q
     \<and> q_in q = (q_out q + nelts q) mod bounds q
     \<and> ring (data q) (q_out q) (nelts q) = map Some xs"

lemma advance_mod: "i < bounds q \<Longrightarrow> advance q i = (i + 1) mod bounds q"
  by (auto simp: advance_def mod_if)

lemma queue_repr_create: "0 < n \<Longrightarrow> queue_repr (ogs_queue_create n) []"
  by (simp add: queue_repr_def ogs_queue_create_def)

lemma queue_repr_waiters [simp]:
  "queue_repr (q\<lparr>full_waiters := a\<rparr>) xs = queue_repr q xs"
  "queue_repr (q\<lparr>empty_waiters := a\<rparr>) xs = queue_repr q xs"
  "queue_repr (q\<lparr>terminated := b\<rparr>) xs = queue_repr q xs"
  by (simp_all add: queue_repr_def)

lemma queue_repr_store:
  assumes "queue_repr q xs" "length xs \<noteq> bounds q"
  shows "queue_repr (store q d) (xs @ [d])"
proof -
  have "length xs < bounds q" using assms by (simp add: queue_repr_def)
  have "q_in q < bounds q" using assms(1) by (auto simp: queue_repr_def)
  moreover have "ring ((data q)[q_in q := Some d]) (q_out q) (Suc (length xs)) = map Some xs @ [Some d]"
    using ring_snoc [of "length xs" "data q" "q_out q" "Some d"] assms \<open>length xs < bounds q\<close>
    by (auto simp: queue_repr_def)
  ultimately show ?thesis
    using assms \<open>length xs < bounds q\<close> by (auto simp: queue_repr_def store_def advance_mod mod_simps)
qed

lemma queue_repr_fetch:
  assumes "queue_repr q (x # xs)"
  shows "\<exists>q'. fetch q = (Some x, q') \<and> queue_repr q' xs \<and> bounds q' = bounds q
    \<and> full_waiters q' = full_waiters q \<and> empty_waiters q' = empty_waiters q \<and> terminated q' = terminated q"
  using assms ring_Suc_hd [of "q_out q" "data q" "length xs"]
  by (auto simp: queue_repr_def fetch_def advance_mod mod_simps)

lemma queue_repr_full_empty:
  assumes "queue_repr q xs"
  shows "ogs_queue_full q \<longleftrightarrow> length xs = bounds q" "ogs_queue_empty q \<longleftrightarrow> xs = []"
    "\<not> ogs_queue_full q \<longleftrightarrow> length xs < bounds q"
  using assms by (auto simp: queue_repr_def ogs_queue_full_def ogs_queue_empty_def)

lemma store_fields [simp]:
  "bounds (store q d) = bounds q" "full_waiters (store q d) = full_waiters q"
  "empty_waiters (store q d) = empty_waiters q" "terminated (store q d) = terminated q"
  by (simp_all add: store_def)

subsection \<open>The queue as an interface\<close>

text \<open>
  A bounded FIFO buffer: from the laws of storing and fetching, what went in
  comes out in the same order.
\<close>

locale bounded_fifo =
  fixes repr :: "'q \<Rightarrow> 'a list \<Rightarrow> bool" and capacity :: "'q \<Rightarrow> nat"
    and enq :: "'q \<Rightarrow> 'a \<Rightarrow> 'q" and deq :: "'q \<Rightarrow> 'a option \<times> 'q"
  assumes enq_law: "repr q xs \<Longrightarrow> length xs < capacity q \<Longrightarrow>
      repr (enq q x) (xs @ [x]) \<and> capacity (enq q x) = capacity q"
    and deq_law: "repr q (x # xs) \<Longrightarrow> \<exists>q'. deq q = (Some x, q') \<and> repr q' xs \<and> capacity q' = capacity q"
begin

lemma enq_all:
  "repr q xs \<Longrightarrow> length xs + length ys \<le> capacity q \<Longrightarrow>
   repr (foldl enq q ys) (xs @ ys) \<and> capacity (foldl enq q ys) = capacity q"
proof (induction ys arbitrary: q xs)
  case (Cons y ys)
  then show ?case using enq_law [of q xs y] Cons.IH [of "enq q y" "xs @ [y]"] by simp
qed simp

lemma fifo_order:
  assumes "repr q []" "Suc (length ys) \<le> capacity q"
  shows "fst (deq (foldl enq q (y # ys))) = Some y"
  using enq_all [OF assms(1), of "y # ys"] assms(2) deq_law by fastforce

end

interpretation bq: bounded_fifo queue_repr bounds store fetch
  by unfold_locales (use queue_repr_store queue_repr_fetch in \<open>fastforce+\<close>)

subsection \<open>Several threads\<close>

datatype 'a pc = Idle | PushLock 'a int | PushWait 'a | PopLock int | PopWait

record 'a qsys =
  queue :: "'a ogs_queue"
  threads :: "'a pc list"
  pushed :: "'a list"
  popped :: "'a list"

inductive qstep :: "'a qsys \<Rightarrow> 'a qsys \<Rightarrow> bool" where
  push_call: "i < length (threads s) \<Longrightarrow> threads s ! i = Idle \<Longrightarrow> \<not> terminated (queue s) \<Longrightarrow>
    qstep s (s\<lparr>threads := (threads s)[i := PushLock d timeout]\<rparr>)"
| push_go: "i < length (threads s) \<Longrightarrow> threads s ! i = PushLock d timeout \<Longrightarrow>
    queue_push_locked (queue s) d timeout = (r, q', sig) \<Longrightarrow>
    qstep s (s\<lparr>queue := q', threads := (threads s)[i := (if r = None then PushWait d else Idle)],
               pushed := (if r = Some OGS_OK then pushed s @ [d] else pushed s)\<rparr>)"
| push_wake: "i < length (threads s) \<Longrightarrow> threads s ! i = PushWait d \<Longrightarrow>
    queue_push_resume (queue s) d rv = (r, q', sig) \<Longrightarrow>
    qstep s (s\<lparr>queue := q', threads := (threads s)[i := Idle],
               pushed := (if r = OGS_OK then pushed s @ [d] else pushed s)\<rparr>)"
| pop_call: "i < length (threads s) \<Longrightarrow> threads s ! i = Idle \<Longrightarrow> \<not> terminated (queue s) \<Longrightarrow>
    qstep s (s\<lparr>threads := (threads s)[i := PopLock timeout]\<rparr>)"
| pop_go: "i < length (threads s) \<Longrightarrow> threads s ! i = PopLock timeout \<Longrightarrow>
    queue_pop_locked (queue s) timeout = (r, d, q', sig) \<Longrightarrow>
    qstep s (s\<lparr>queue := q', threads := (threads s)[i := (if r = None then PopWait else Idle)],
               popped := (case d of Some x \<Rightarrow> popped s @ [x] | None \<Rightarrow> popped s)\<rparr>)"
| pop_wake: "i < length (threads s) \<Longrightarrow> threads s ! i = PopWait \<Longrightarrow>
    queue_pop_resume (queue s) rv = (r, d, q', sig) \<Longrightarrow>
    qstep s (s\<lparr>queue := q', threads := (threads s)[i := Idle],
               popped := (case d of Some x \<Rightarrow> popped s @ [x] | None \<Rightarrow> popped s)\<rparr>)"
| qterm: "qstep s (s\<lparr>queue := ogs_queue_term (queue s)\<rparr>)"

inductive_simps qstep_simps: "qstep s s'"

definition start :: "nat \<Rightarrow> nat \<Rightarrow> 'a qsys" where
  "start capacity n = \<lparr>queue = ogs_queue_create capacity, threads = replicate n Idle, pushed = [], popped = []\<rparr>"

fun is_push_wait :: "'a pc \<Rightarrow> bool" where
  "is_push_wait (PushWait d) = True"
| "is_push_wait _ = False"

fun is_pop_wait :: "'a pc \<Rightarrow> bool" where
  "is_pop_wait PopWait = True"
| "is_pop_wait _ = False"

definition num :: "('b \<Rightarrow> bool) \<Rightarrow> 'b list \<Rightarrow> nat" where
  "num P xs = length (filter P xs)"

lemma num_update:
  assumes "i < length xs"
  shows "num P (xs[i := y]) + (if P (xs ! i) then 1 else 0) = num P xs + (if P y then 1 else 0)"
proof -
  have "num P xs = num P (take i xs @ xs ! i # drop (Suc i) xs)"
    using id_take_nth_drop [OF assms] by simp
  then show ?thesis using assms by (simp add: upd_conv_take_nth_drop num_def)
qed

definition qinv :: "'a qsys \<Rightarrow> bool" where
  "qinv s \<longleftrightarrow> (\<exists>xs. queue_repr (queue s) xs \<and> pushed s = popped s @ xs)
     \<and> full_waiters (queue s) = num is_push_wait (threads s)
     \<and> empty_waiters (queue s) = num is_pop_wait (threads s)"

lemma qinv_start: "0 < capacity \<Longrightarrow> qinv (start capacity n)"
  using queue_repr_create [of capacity]
  by (simp add: qinv_def start_def num_def) (simp add: ogs_queue_create_def)

lemma qinv_step:
  assumes "qstep s s'" "qinv s"
  shows "qinv s'"
  using assms
proof (cases rule: qstep.cases)
  case (push_call i d timeout)
  then show ?thesis
    using assms(2) num_update [of i "threads s" is_push_wait "PushLock d timeout"]
      num_update [of i "threads s" is_pop_wait "PushLock d timeout"]
    by (simp add: qinv_def)
next
  case (pop_call i timeout)
  then show ?thesis
    using assms(2) num_update [of i "threads s" is_push_wait "PopLock timeout"]
      num_update [of i "threads s" is_pop_wait "PopLock timeout"]
    by (simp add: qinv_def)
next
  case (push_go i d timeout r q' sig)
  then show ?thesis
    using assms(2) num_update [of i "threads s" is_push_wait "if r = None then PushWait d else Idle"]
      num_update [of i "threads s" is_pop_wait "if r = None then PushWait d else Idle"]
    by (auto simp: qinv_def queue_push_locked_def queue_repr_full_empty queue_repr_store
        split: if_splits)
next
  case (push_wake i d rv r q' sig)
  then show ?thesis
    using assms(2) num_update [of i "threads s" is_push_wait Idle]
      num_update [of i "threads s" is_pop_wait Idle]
    by (auto simp: qinv_def queue_push_resume_def Let_def queue_repr_full_empty queue_repr_store
        split: if_splits)
next
  case qterm
  then show ?thesis using assms(2) by (auto simp: qinv_def ogs_queue_term_def)
next
  case (pop_go i timeout r d q' sig)
  show ?thesis
  proof (cases "ogs_queue_empty (queue s)")
    case True
    then show ?thesis
      using pop_go assms(2) num_update [of i "threads s" is_push_wait "if r = None then PopWait else Idle"]
        num_update [of i "threads s" is_pop_wait "if r = None then PopWait else Idle"]
      by (auto simp: qinv_def queue_pop_locked_def split: if_splits)
  next
    case False
    then obtain x xs where xs: "queue_repr (queue s) (x # xs)" "pushed s = popped s @ x # xs"
      using assms(2) by (auto simp: qinv_def queue_repr_full_empty neq_Nil_conv)
    then show ?thesis
      using queue_repr_fetch [OF xs(1)] False pop_go assms(2)
        num_update [of i "threads s" is_push_wait Idle] num_update [of i "threads s" is_pop_wait Idle]
      by (auto simp: qinv_def queue_pop_locked_def)
  qed
next
  case (pop_wake i rv r d q' sig)
  show ?thesis
  proof (cases "rv \<noteq> OGS_OK \<or> ogs_queue_empty (queue s)")
    case True
    then show ?thesis
      using pop_wake assms(2) num_update [of i "threads s" is_push_wait Idle]
        num_update [of i "threads s" is_pop_wait Idle]
      by (auto simp: qinv_def queue_pop_resume_def Let_def ogs_queue_empty_def split: if_splits)
  next
    case False
    then obtain x xs where xs: "queue_repr (queue s) (x # xs)" "pushed s = popped s @ x # xs"
      using assms(2) by (auto simp: qinv_def queue_repr_full_empty neq_Nil_conv)
    then have "queue_repr ((queue s)\<lparr>empty_waiters := empty_waiters (queue s) - 1\<rparr>) (x # xs)" by simp
    from queue_repr_fetch [OF this] False pop_wake assms(2) xs show ?thesis
      using num_update [of i "threads s" is_push_wait Idle] num_update [of i "threads s" is_pop_wait Idle]
      by (auto simp: qinv_def queue_pop_resume_def Let_def ogs_queue_empty_def)
  qed
qed

lemma qstep_bounds: "qstep s s' \<Longrightarrow> bounds (queue s') = bounds (queue s)"
  by (induction rule: qstep.induct)
    (auto simp: queue_push_locked_def queue_push_resume_def queue_pop_locked_def queue_pop_resume_def
      fetch_def ogs_queue_term_def Let_def split: if_splits)

lemma qinv_reachable:
  "qstep\<^sup>*\<^sup>* (start c n) s \<Longrightarrow> 0 < c \<Longrightarrow> qinv s \<and> bounds (queue s) = c"
  by (induction rule: rtranclp_induct)
    (auto simp: qinv_start qstep_bounds intro: qinv_step, simp add: start_def ogs_queue_create_def)

subsection \<open>Properties\<close>

text \<open>C20. Whatever the interleaving of pushing and popping threads, timeouts, spurious wake-ups
  and termination: the values popped so far, followed by the queue's contents, are the values
  pushed so far, in order; nothing is lost, duplicated or reordered, and the queue never exceeds
  its capacity.\<close>

theorem queue_fifo_all_interleavings:
  assumes "qstep\<^sup>*\<^sup>* (start c n) s" "0 < c"
  shows "\<exists>xs. queue_repr (queue s) xs \<and> pushed s = popped s @ xs \<and> ogs_queue_size (queue s) = length xs
    \<and> length xs \<le> c"
  using qinv_reachable [OF assms] by (auto simp: qinv_def queue_repr_def ogs_queue_size_def)

theorem queue_fifo_all_interleavings_witness:
  "\<exists>s :: int qsys. qstep\<^sup>*\<^sup>* (start 2 1) s \<and> threads s = [PushLock 5 0]
    \<and> (\<exists>xs. queue_repr (queue s) xs \<and> pushed s = popped s @ xs)"
proof -
  have "qstep (start 2 1 :: int qsys) ((start 2 1)\<lparr>threads := (threads (start 2 1))[0 := PushLock 5 0]\<rparr>)"
    by (rule push_call) (simp_all add: start_def ogs_queue_create_def)
  then have r: "qstep\<^sup>*\<^sup>* (start 2 1 :: int qsys) ((start 2 1)\<lparr>threads := [PushLock 5 0]\<rparr>)"
    by (simp add: start_def)
  then show ?thesis using queue_fifo_all_interleavings [OF r] by fastforce
qed

text \<open>No wake-up is lost at the source: in every reachable state the waiter counters equal the
  number of threads that are waiting, so a push that succeeds while some thread waits for an
  element signals \<open>not_empty\<close>, and a pop that succeeds while some thread waits for room signals
  \<open>not_full\<close>.\<close>

theorem queue_signals_waiters:
  assumes "qstep\<^sup>*\<^sup>* (start c n) s" "0 < c"
  shows "(PopWait \<in> set (threads s) \<and> queue_push_locked (queue s) d timeout = (Some OGS_OK, q', sig) \<longrightarrow> sig)
    \<and> ((\<exists>v. PushWait v \<in> set (threads s)) \<and> queue_pop_locked (queue s) timeout = (Some OGS_OK, x, q', sig)
         \<longrightarrow> sig)"
proof -
  have inv: "qinv s" using qinv_reachable [OF assms] by simp
  have "0 < num is_pop_wait (threads s)" if "PopWait \<in> set (threads s)"
    using that by (force simp: num_def filter_empty_conv)
  moreover have "0 < num is_push_wait (threads s)" if "PushWait v \<in> set (threads s)" for v
    using that by (force simp: num_def filter_empty_conv)
  ultimately show ?thesis
    using inv by (auto simp: qinv_def queue_push_locked_def queue_pop_locked_def split: if_splits prod.splits)
qed

definition waiting_state :: "int qsys" where
  "waiting_state = (start 1 1)\<lparr>queue := (ogs_queue_create 1)\<lparr>empty_waiters := 1\<rparr>, threads := [PopWait]\<rparr>"

lemma waiting_state_reachable: "qstep\<^sup>*\<^sup>* (start 1 1) waiting_state"
proof -
  let ?s1 = "(start 1 1)\<lparr>threads := [PopLock (- 1)]\<rparr> :: int qsys"
  have "qstep (start 1 1 :: int qsys) ((start 1 1)\<lparr>threads := (threads (start 1 1))[0 := PopLock (- 1)]\<rparr>)"
    by (rule pop_call) (simp_all add: start_def ogs_queue_create_def)
  then have "qstep (start 1 1) ?s1" by (simp add: start_def)
  moreover have "qstep ?s1 waiting_state"
    using pop_go [of 0 ?s1 "- 1" None None "(ogs_queue_create 1)\<lparr>empty_waiters := 1\<rparr>" False]
    by (simp add: start_def waiting_state_def queue_pop_locked_def ogs_queue_create_def ogs_queue_empty_def)
  ultimately show ?thesis by (meson rtranclp.rtrancl_into_rtrancl rtranclp.rtrancl_refl)
qed

theorem queue_signals_waiters_witness:
  "\<exists>q'. queue_push_locked (queue waiting_state) 4 0 = (Some OGS_OK, q', True)"
proof -
  obtain q' sig where r: "queue_push_locked (queue waiting_state) 4 0 = (Some OGS_OK, q', sig)"
    by (simp add: queue_push_locked_def waiting_state_def ogs_queue_full_def ogs_queue_create_def)
  have "PopWait \<in> set (threads waiting_state)" by (simp add: waiting_state_def)
  then show ?thesis using queue_signals_waiters [OF waiting_state_reachable] r by fastforce
qed

text \<open>Without concurrency, \<open>ogs_queue_trypush\<close> appends unless the queue is full or terminated,
  and \<open>ogs_queue_trypop\<close> returns the oldest element unless it is empty or terminated.\<close>

theorem queue_try_ops:
  assumes "queue_repr q xs" "\<not> terminated q"
  shows "(if length xs = bounds q then ogs_queue_trypush q d = (OGS_RETRY, q)
          else \<exists>q'. ogs_queue_trypush q d = (OGS_OK, q') \<and> queue_repr q' (xs @ [d]))
    \<and> (case xs of [] \<Rightarrow> ogs_queue_trypop q = (OGS_RETRY, None, q)
        | y # ys \<Rightarrow> \<exists>q'. ogs_queue_trypop q = (OGS_OK, Some y, q') \<and> queue_repr q' ys)"
proof -
  note fe = queue_repr_full_empty [OF assms(1)]
  have "length xs \<noteq> bounds q \<Longrightarrow> queue_repr (store q d) (xs @ [d])"
    using queue_repr_store [OF assms(1)] by simp
  moreover have "\<exists>q'. fetch q = (Some y, q') \<and> queue_repr q' ys" if "xs = y # ys" for y ys
    using queue_repr_fetch [OF assms(1) [unfolded that]] by auto
  moreover have "ogs_queue_trypush q d
      = (if length xs = bounds q then (OGS_RETRY, q) else (OGS_OK, store q d))"
    using assms(2) fe by (simp add: ogs_queue_trypush_def queue_push_locked_def)
  moreover have "ogs_queue_trypop q
      = (if xs = [] then (OGS_RETRY, None, q) else (OGS_OK, fetch q))"
    using assms(2) fe by (simp add: ogs_queue_trypop_def queue_pop_locked_def split: prod.splits)
  ultimately show ?thesis by (cases xs) auto
qed

theorem queue_try_ops_witness:
  "\<exists>q'. ogs_queue_trypush (ogs_queue_create 3) (7 :: int) = (OGS_OK, q') \<and> queue_repr q' [7]"
proof -
  have "queue_repr (ogs_queue_create 3 :: int ogs_queue) []" by (simp add: queue_repr_create)
  moreover have "\<not> terminated (ogs_queue_create 3 :: int ogs_queue)"
    "length ([] :: int list) \<noteq> bounds (ogs_queue_create 3 :: int ogs_queue)"
    by (simp_all add: ogs_queue_create_def)
  ultimately show ?thesis using queue_try_ops [of "ogs_queue_create 3" "[]" "7 :: int"] by auto
qed

end
