(* ===== verification/Ogs_Fsm.thy ===== *)
theory Ogs_Fsm
  imports Ogs_Prelude
begin

section \<open>The state machine engine (lib/core/ogs-fsm.c)\<close>

text \<open>
  A machine holds three function pointers: the handler of its current state and its
  initial and final handlers. A handler is named by a value of type \<open>'s\<close>; what it does is the
  argument \<open>sem\<close>, which may change the machine (\<open>OGS_FSM_TRAN\<close> writes its \<open>state\<close>), the
  world \<open>'w\<close> and the event, or abort. An event is an identifier with a payload;
  the engine overwrites the identifier of the event it is given when it calls
  exit and entry handlers, and uses its own payload-free events otherwise.
\<close>

record 'e fsm_event =
  ev_id :: int
  ev_data :: "'e option"

record 's ogs_fsm =
  init :: "'s option"
  fini :: "'s option"
  state :: "'s option"

definition OGS_FSM_ENTRY_SIG :: int where "OGS_FSM_ENTRY_SIG = 0"
definition OGS_FSM_EXIT_SIG :: int where "OGS_FSM_EXIT_SIG = 1"
definition OGS_FSM_USER_SIG :: int where "OGS_FSM_USER_SIG = 2"

type_synonym ('s, 'w, 'e) handlers =
  "'s \<Rightarrow> 's ogs_fsm \<Rightarrow> 'w \<Rightarrow> 'e fsm_event option \<Rightarrow> ('s ogs_fsm \<times> 'w \<times> 'e fsm_event option) option"

definition entry_event :: "'e fsm_event" where
  "entry_event = \<lparr>ev_id = OGS_FSM_ENTRY_SIG, ev_data = None\<rparr>"

definition exit_event :: "'e fsm_event" where
  "exit_event = \<lparr>ev_id = OGS_FSM_EXIT_SIG, ev_data = None\<rparr>"

definition OGS_FSM_TRAN :: "'s \<Rightarrow> 's ogs_fsm \<Rightarrow> 's ogs_fsm" where
  "OGS_FSM_TRAN target sm = sm\<lparr>state := Some target\<rparr>"

definition OGS_FSM_CHECK :: "'s ogs_fsm \<Rightarrow> 's \<Rightarrow> bool" where
  "OGS_FSM_CHECK sm s \<longleftrightarrow> state sm = Some s"

definition fsm_entry :: "('s, 'w, 'e) handlers \<Rightarrow> 's \<Rightarrow> 's ogs_fsm \<Rightarrow> 'w \<Rightarrow> 'e fsm_event option
    \<Rightarrow> ('s ogs_fsm \<times> 'w \<times> 'e fsm_event option) option" where
  "fsm_entry sem s sm w e =
     (case e of
        Some ev \<Rightarrow> sem s sm w (Some (ev\<lparr>ev_id := OGS_FSM_ENTRY_SIG\<rparr>))
      | None \<Rightarrow> do { (sm, w, _) \<leftarrow> sem s sm w (Some entry_event); Some (sm, w, None) })"

definition fsm_exit :: "('s, 'w, 'e) handlers \<Rightarrow> 's \<Rightarrow> 's ogs_fsm \<Rightarrow> 'w \<Rightarrow> 'e fsm_event option
    \<Rightarrow> ('s ogs_fsm \<times> 'w \<times> 'e fsm_event option) option" where
  "fsm_exit sem s sm w e =
     (case e of
        Some ev \<Rightarrow> sem s sm w (Some (ev\<lparr>ev_id := OGS_FSM_EXIT_SIG\<rparr>))
      | None \<Rightarrow> do { (sm, w, _) \<leftarrow> sem s sm w (Some exit_event); Some (sm, w, None) })"

definition fsm_change :: "('s, 'w, 'e) handlers \<Rightarrow> 's \<Rightarrow> 's option \<Rightarrow> 's ogs_fsm \<Rightarrow> 'w
    \<Rightarrow> 'e fsm_event option \<Rightarrow> ('s ogs_fsm \<times> 'w \<times> 'e fsm_event option) option" where
  "fsm_change sem old new sm w e =
     do { n \<leftarrow> new;
          (sm, w, e) \<leftarrow> fsm_exit sem old sm w e;
          fsm_entry sem n sm w e }"

definition ogs_fsm_init :: "('s, 'w, 'e) handlers \<Rightarrow> 's option \<Rightarrow> 's option \<Rightarrow> 'w
    \<Rightarrow> 'e fsm_event option \<Rightarrow> ('s ogs_fsm \<times> 'w \<times> 'e fsm_event option) option" where
  "ogs_fsm_init sem i f w e =
     (let sm = \<lparr>init = i, fini = f, state = i\<rparr>
      in case i of
           None \<Rightarrow> Some (sm, w, e)
         | Some s \<Rightarrow>
             do { (sm, w, e) \<leftarrow> sem s sm w e;
                  if init sm \<noteq> state sm then do { t \<leftarrow> state sm; fsm_entry sem t sm w e }
                  else Some (sm, w, e) })"

definition ogs_fsm_tran :: "('s, 'w, 'e) handlers \<Rightarrow> 's option \<Rightarrow> 's ogs_fsm \<Rightarrow> 'w
    \<Rightarrow> 'e fsm_event option \<Rightarrow> ('s ogs_fsm \<times> 'w \<times> 'e fsm_event option) option" where
  "ogs_fsm_tran sem target sm w e =
     do { tmp \<leftarrow> state sm;
          t \<leftarrow> target;
          let sm = sm\<lparr>state := Some t\<rparr>;
          if state sm \<noteq> Some tmp then fsm_change sem tmp (state sm) sm w e else Some (sm, w, e) }"

definition ogs_fsm_dispatch :: "('s, 'w, 'e) handlers \<Rightarrow> 's ogs_fsm \<Rightarrow> 'w
    \<Rightarrow> 'e fsm_event option \<Rightarrow> ('s ogs_fsm \<times> 'w \<times> 'e fsm_event option) option" where
  "ogs_fsm_dispatch sem sm w e =
     do { tmp \<leftarrow> state sm;
          (sm, w, e) \<leftarrow> (case e of Some _ \<Rightarrow> sem tmp sm w e | None \<Rightarrow> Some (sm, w, e));
          if state sm \<noteq> Some tmp then fsm_change sem tmp (state sm) sm w e else Some (sm, w, e) }"

definition ogs_fsm_fini :: "('s, 'w, 'e) handlers \<Rightarrow> 's ogs_fsm \<Rightarrow> 'w
    \<Rightarrow> 'e fsm_event option \<Rightarrow> ('s ogs_fsm \<times> 'w \<times> 'e fsm_event option) option" where
  "ogs_fsm_fini sem sm w e =
     (if fini sm \<noteq> state sm then
        do { s \<leftarrow> state sm;
             (sm, w, e) \<leftarrow> fsm_exit sem s sm w e;
             (sm, w, e) \<leftarrow> (case fini sm of Some f \<Rightarrow> sem f sm w e | None \<Rightarrow> Some (sm, w, e));
             Some (sm\<lparr>init := None, state := None, fini := None\<rparr>, w, e) }
      else Some (sm\<lparr>init := None, state := None, fini := None\<rparr>, w, e))"

subsection \<open>Entry and exit are bracketed\<close>

text \<open>
  \<open>call_step\<close> reads the log of handler calls, a pair of the state called and the
  event identifier. It accepts a call for an event only in the state that is
  active, an exit only of the active state, and an entry only when no state is active.
\<close>

fun call_step :: "'s option \<Rightarrow> 's \<times> int \<Rightarrow> 's option option" where
  "call_step cur (s, i) =
     (if i = OGS_FSM_ENTRY_SIG then (if cur = None then Some (Some s) else None)
      else if i = OGS_FSM_EXIT_SIG then (if cur = Some s then Some None else None)
      else (if cur = Some s then Some cur else None))"

definition bracketed :: "'s option \<Rightarrow> ('s \<times> int) list \<Rightarrow> 's option \<Rightarrow> bool" where
  "bracketed cur log cur' \<longleftrightarrow> foldM (\<lambda>c cur. call_step cur c) log cur = Some cur'"

lemma bracketed_Nil [simp]: "bracketed cur [] cur' \<longleftrightarrow> cur = cur'"
  by (auto simp: bracketed_def)

lemma bracketed_append:
  "bracketed a xs b \<Longrightarrow> bracketed b ys c \<Longrightarrow> bracketed a (xs @ ys) c"
  by (simp add: bracketed_def foldM_append)

text \<open>Handlers that log their calls, and do not switch states from entry or exit.\<close>

definition logs :: "('s, ('s \<times> int) list \<times> 'v, 'e) handlers \<Rightarrow> bool" where
  "logs sem \<longleftrightarrow> (\<forall>s sm log v e sm' log' v' e'.
     sem s sm (log, v) (Some e) = Some (sm', (log', v'), e') \<longrightarrow> log' = log @ [(s, ev_id e)])"

definition passive_brackets :: "('s, 'w, 'e) handlers \<Rightarrow> bool" where
  "passive_brackets sem \<longleftrightarrow> (\<forall>s sm w e sm' w' e'.
     sem s sm w (Some e) = Some (sm', w', e')
       \<and> (ev_id e = OGS_FSM_ENTRY_SIG \<or> ev_id e = OGS_FSM_EXIT_SIG) \<longrightarrow> state sm' = state sm)"

lemma fsm_bracket_calls:
  assumes "logs sem" "passive_brackets sem"
  shows "fsm_entry sem s sm (log, v) e = Some (sm', (log', v'), e') \<Longrightarrow>
      log' = log @ [(s, OGS_FSM_ENTRY_SIG)] \<and> state sm' = state sm"
    and "fsm_exit sem s sm (log, v) e = Some (sm', (log', v'), e') \<Longrightarrow>
      log' = log @ [(s, OGS_FSM_EXIT_SIG)] \<and> state sm' = state sm"
  using assms unfolding logs_def passive_brackets_def fsm_entry_def fsm_exit_def
    entry_event_def exit_event_def
  by (fastforce split: option.splits bind_splits)+

lemma fsm_change_calls:
  assumes "logs sem" "passive_brackets sem"
    "fsm_change sem old new sm (log, v) e = Some (sm', (log', v'), e')"
  shows "\<exists>n. new = Some n \<and> state sm' = state sm
    \<and> log' = log @ [(old, OGS_FSM_EXIT_SIG), (n, OGS_FSM_ENTRY_SIG)]"
proof -
  from assms(3) obtain n sm1 log1 v1 e1 where "new = Some n"
    "fsm_exit sem old sm (log, v) e = Some (sm1, (log1, v1), e1)"
    "fsm_entry sem n sm1 (log1, v1) e1 = Some (sm', (log', v'), e')"
    by (auto simp: fsm_change_def split: bind_splits)
  then show ?thesis using fsm_bracket_calls [OF assms(1,2)] by fastforce
qed

lemma dispatch_bracketed:
  assumes "logs sem" "passive_brackets sem" "ev_id e \<ge> OGS_FSM_USER_SIG" "state sm = Some s"
    "ogs_fsm_dispatch sem sm (log, v) (Some e) = Some (sm', (log', v'), e')"
  shows "\<exists>new. log' = log @ new \<and> bracketed (Some s) new (state sm') \<and> state sm' \<noteq> None"
proof -
  from assms(4,5) obtain sm1 log1 v1 e1 where
    h: "sem s sm (log, v) (Some e) = Some (sm1, (log1, v1), e1)" and
    r: "(if state sm1 \<noteq> Some s then fsm_change sem s (state sm1) sm1 (log1, v1) e1
         else Some (sm1, (log1, v1), e1)) = Some (sm', (log', v'), e')"
    by (auto simp: ogs_fsm_dispatch_def split: bind_splits)
  have log1: "log1 = log @ [(s, ev_id e)]" using assms(1) h unfolding logs_def by blast
  have u: "call_step (Some s) (s, ev_id e) = Some (Some s)"
    using assms(3) by (simp add: OGS_FSM_USER_SIG_def OGS_FSM_ENTRY_SIG_def OGS_FSM_EXIT_SIG_def)
  show ?thesis
  proof (cases "state sm1 = Some s")
    case True
    then show ?thesis using r log1 u by (auto simp: bracketed_def simp del: call_step.simps)
  next
    case False
    then have "fsm_change sem s (state sm1) sm1 (log1, v1) e1 = Some (sm', (log', v'), e')"
      using r by simp
    from fsm_change_calls [OF assms(1,2) this]
    obtain n where "state sm1 = Some n" "state sm' = state sm1"
      "log' = log1 @ [(s, OGS_FSM_EXIT_SIG), (n, OGS_FSM_ENTRY_SIG)]" by blast
    then have "log' = log @ [(s, ev_id e), (s, OGS_FSM_EXIT_SIG), (n, OGS_FSM_ENTRY_SIG)]"
      "bracketed (Some s) [(s, ev_id e), (s, OGS_FSM_EXIT_SIG), (n, OGS_FSM_ENTRY_SIG)] (state sm')"
      using log1 u by (simp_all add: bracketed_def)
        (simp add: OGS_FSM_EXIT_SIG_def OGS_FSM_ENTRY_SIG_def)
    moreover have "state sm' \<noteq> None" using \<open>state sm1 = Some n\<close> \<open>state sm' = state sm1\<close> by simp
    ultimately show ?thesis by (intro exI conjI)
  qed
qed

text \<open>The main loop of a network function: dispatch events one after the other.\<close>

definition dispatch_all :: "('s, 'w, 'e) handlers \<Rightarrow> 'e fsm_event list \<Rightarrow> 's ogs_fsm \<times> 'w
    \<Rightarrow> ('s ogs_fsm \<times> 'w) option" where
  "dispatch_all sem es = foldM (\<lambda>e (sm, w).
     do { (sm, w, _) \<leftarrow> ogs_fsm_dispatch sem sm w (Some e); Some (sm, w) }) es"

subsection \<open>Properties\<close>


definition toggle :: "(bool, (bool \<times> int) list \<times> unit, unit) handlers" where
  "toggle s sm w e = (case e of
     None \<Rightarrow> None
   | Some ev \<Rightarrow> Some (if ev_id ev = 2 then OGS_FSM_TRAN (\<not> s) sm else sm,
                     (fst w @ [(s, ev_id ev)], ()), e))"


end
