(* ===== verification/Ogs_Tlv.thy ===== *)
theory Ogs_Tlv
  imports Ogs_Prelude
begin

unbundle bit_operations_syntax

section \<open>Type-length-value codec (lib/core/ogs-tlv.c)\<close>

text \<open>
  GTP and PFCP messages are sequences of such elements, some of which embed
  further sequences. The chain of \<open>next\<close> pointers is a list and \<open>embedded\<close> the
  list below an element, empty for NULL. The writer fills a buffer of \<open>length\<close>
  bytes: the model collects what it writes and returns \<open>None\<close> when it aborts or would
  write past the buffer. The reader gets all bytes that are readable at \<open>data\<close>; reading
  past them is \<open>None\<close>. It takes its nodes from a pool, of which \<open>avail\<close> are left.
\<close>

datatype ogs_tlv = Tlv (mode: u8) (type: u32) (tlen: u32) (tinstance: u8) (tvalue: "u8 list")
  (embedded: "ogs_tlv list")

definition OGS_TLV_MODE_T1_L1 :: u8 where "OGS_TLV_MODE_T1_L1 = 1"
definition OGS_TLV_MODE_T1_L2 :: u8 where "OGS_TLV_MODE_T1_L2 = 2"
definition OGS_TLV_MODE_T1_L2_I1 :: u8 where "OGS_TLV_MODE_T1_L2_I1 = 3"
definition OGS_TLV_MODE_T2_L2 :: u8 where "OGS_TLV_MODE_T2_L2 = 4"
definition OGS_TLV_MODE_T1 :: u8 where "OGS_TLV_MODE_T1 = 5"

lemmas tlv_modes = OGS_TLV_MODE_T1_L1_def OGS_TLV_MODE_T1_L2_def OGS_TLV_MODE_T1_L2_I1_def
  OGS_TLV_MODE_T2_L2_def OGS_TLV_MODE_T1_def

subsection \<open>Operations\<close>

fun ogs_tlv_value_8 :: "ogs_tlv \<Rightarrow> u8 option" where
  "ogs_tlv_value_8 t = (case tvalue t of a # _ \<Rightarrow> Some a | _ \<Rightarrow> None)"

fun ogs_tlv_value_16 :: "ogs_tlv \<Rightarrow> u16 option" where
  "ogs_tlv_value_16 t =
     (case tvalue t of
        a # b # _ \<Rightarrow> Some ((push_bit 8 (ucast a) AND 0xff00) OR (ucast b AND 0x00ff))
      | _ \<Rightarrow> None)"

fun ogs_tlv_value_32 :: "ogs_tlv \<Rightarrow> u32 option" where
  "ogs_tlv_value_32 t =
     (case tvalue t of
        a # b # c # d # _ \<Rightarrow>
          Some ((push_bit 24 (ucast a) AND 0xff000000) OR (push_bit 16 (ucast b) AND 0x00ff0000)
             OR (push_bit 8 (ucast c) AND 0x0000ff00) OR (ucast d AND 0x000000ff))
      | _ \<Rightarrow> None)"

definition header_length :: "u8 \<Rightarrow> u32 option" where
  "header_length m =
     (if m = OGS_TLV_MODE_T1_L1 then Some 2
      else if m = OGS_TLV_MODE_T1_L2 then Some 3
      else if m = OGS_TLV_MODE_T1_L2_I1 \<or> m = OGS_TLV_MODE_T2_L2 then Some 4
      else if m = OGS_TLV_MODE_T1 then Some 1
      else None)"

text \<open>\<open>ogs_tlv_calc_length\<close> also stores the computed length into elements that embed others.\<close>

fun ogs_tlv_calc_length :: "ogs_tlv list \<Rightarrow> (u32 \<times> ogs_tlv list) option" where
  "ogs_tlv_calc_length [] = Some (0, [])"
| "ogs_tlv_calc_length (Tlv m ty l i v es # ts) =
     do { h \<leftarrow> header_length m;
          (l, es) \<leftarrow> (if es \<noteq> [] then ogs_tlv_calc_length es else Some (l, []));
          (n, ts) \<leftarrow> ogs_tlv_calc_length ts;
          Some (h + l + n, Tlv m ty l i v es # ts) }"

fun ogs_tlv_calc_count :: "ogs_tlv list \<Rightarrow> u32" where
  "ogs_tlv_calc_count [] = 0"
| "ogs_tlv_calc_count (Tlv m ty l i v es # ts) =
     (if es \<noteq> [] then ogs_tlv_calc_count es else 1) + ogs_tlv_calc_count ts"

definition tlv_put_type :: "u32 \<Rightarrow> u8 \<Rightarrow> u8 list option" where
  "tlv_put_type ty m =
     (if m = OGS_TLV_MODE_T1_L1 \<or> m = OGS_TLV_MODE_T1_L2 \<or> m = OGS_TLV_MODE_T1_L2_I1 \<or> m = OGS_TLV_MODE_T1
      then Some [ucast (ty AND 0xFF)]
      else if m = OGS_TLV_MODE_T2_L2 then Some [ucast (drop_bit 8 ty AND 0xFF), ucast (ty AND 0xFF)]
      else None)"

definition tlv_put_length :: "u32 \<Rightarrow> u8 \<Rightarrow> u8 list option" where
  "tlv_put_length l m =
     (if m = OGS_TLV_MODE_T1_L1 then Some [ucast (l AND 0xFF)]
      else if m = OGS_TLV_MODE_T1_L2 \<or> m = OGS_TLV_MODE_T1_L2_I1 \<or> m = OGS_TLV_MODE_T2_L2
      then Some [ucast (drop_bit 8 l AND 0xFF), ucast (l AND 0xFF)]
      else if m = OGS_TLV_MODE_T1 then Some []
      else None)"

definition tlv_put_instance :: "u8 \<Rightarrow> u8 \<Rightarrow> u8 list" where
  "tlv_put_instance i m = (if m = OGS_TLV_MODE_T1_L2_I1 then [i AND 0xFF] else [])"

text \<open>
  The loop of \<open>ogs_tlv_render\<close>: \<open>out\<close> is what was written from \<open>blk\<close> to \<open>pos\<close>, \<open>len\<close> the size
  of the buffer. An embedded chain whose rendering differs in size from its computed
  length, which only a wrapped 32-bit sum could cause, would leave a gap: \<open>None\<close>.
\<close>

fun render_loop :: "nat \<Rightarrow> u8 list \<Rightarrow> ogs_tlv list \<Rightarrow> u8 list option" where
  "render_loop len out [] = Some out"
| "render_loop len out (Tlv m ty l i v es # ts) =
     do { tb \<leftarrow> tlv_put_type ty m;
          if es = [] then
            do { lb \<leftarrow> tlv_put_length l m;
                 let out = out @ tb @ lb @ tlv_put_instance i m;
                 if length out + unat l > len then None
                 else if unat l > length v then None
                 else render_loop len (out @ take (unat l) v) ts }
          else
            do { (n, _) \<leftarrow> ogs_tlv_calc_length es;
                 lb \<leftarrow> tlv_put_length n m;
                 let out = out @ tb @ lb @ tlv_put_instance i m;
                 if length out > len then None
                 else do { eb \<leftarrow> render_loop (len - length out) [] es;
                           if length eb \<noteq> unat n then None
                           else render_loop len (out @ eb) ts } } }"

definition ogs_tlv_render :: "ogs_tlv list \<Rightarrow> nat \<Rightarrow> u8 list option" where
  "ogs_tlv_render root len = render_loop len [] root"

text \<open>
  \<open>tlv_get_element\<close>: the element at the start of the bytes, with its value, and
  the offset behind it. The value is a pointer into the block; its bytes are
  taken as far as they exist.
\<close>

definition tlv_header :: "u8 list \<Rightarrow> u8 \<Rightarrow> (u32 \<times> u32 \<times> u8 \<times> nat) option" where
  "tlv_header bs m =
     (if m = OGS_TLV_MODE_T1_L1 then
        (case bs of t # l # _ \<Rightarrow> Some (ucast t, ucast l, 0, 2) | _ \<Rightarrow> None)
      else if m = OGS_TLV_MODE_T1_L2 then
        (case bs of t # h # l # _ \<Rightarrow> Some (ucast t, push_bit 8 (ucast h) + ucast l, 0, 3) | _ \<Rightarrow> None)
      else if m = OGS_TLV_MODE_T1_L2_I1 then
        (case bs of t # h # l # i # _ \<Rightarrow>
           Some (ucast t, push_bit 8 (ucast h) + ucast l, i AND 0b00001111, 4) | _ \<Rightarrow> None)
      else if m = OGS_TLV_MODE_T2_L2 then
        (case bs of t1 # t # h # l # _ \<Rightarrow>
           Some (push_bit 8 (ucast t1) + ucast t, push_bit 8 (ucast h) + ucast l, 0, 4) | _ \<Rightarrow> None)
      else if m = OGS_TLV_MODE_T1 then
        (case bs of t # _ \<Rightarrow> Some (ucast t, 0, 0, 1) | _ \<Rightarrow> None)
      else None)"

definition tlv_get_element :: "u8 list \<Rightarrow> u8 \<Rightarrow> (ogs_tlv \<times> nat) option" where
  "tlv_get_element bs m =
     do { (ty, l, i, h) \<leftarrow> tlv_header bs m;
          Some (Tlv m ty l i (take (unat l) (drop h bs)) [], h + unat l) }"

definition tlv_get_element_fixed :: "u8 list \<Rightarrow> u8 \<Rightarrow> u32 \<Rightarrow> (ogs_tlv \<times> nat) option" where
  "tlv_get_element_fixed bs m fixed_length =
     (if m = OGS_TLV_MODE_T1 then
        (case bs of
           t # r \<Rightarrow> Some (Tlv m (ucast t) fixed_length 0 (take (unat fixed_length) r) [], 1 + unat fixed_length)
         | [] \<Rightarrow> None)
      else None)"

lemma tlv_get_element_progress:
  "tlv_get_element bs m = Some (t, n) \<Longrightarrow> 0 < n"
  by (auto simp: tlv_get_element_def tlv_header_def split: bind_splits if_splits list.splits)

text \<open>The loop of \<open>ogs_tlv_parse_block\<close>, from offset \<open>pos\<close>; each element takes a node of the pool.\<close>

function parse_loop :: "nat \<Rightarrow> nat \<Rightarrow> nat \<Rightarrow> u8 list \<Rightarrow> u8 \<Rightarrow> (ogs_tlv list \<times> nat \<times> nat) option" where
  "parse_loop avail pos len bs m =
     (if pos < len then
        if avail = 0 then None
        else (case tlv_get_element (drop pos bs) m of
                None \<Rightarrow> None
              | Some (t, n) \<Rightarrow>
                  if n = 0 then None
                  else map_option (\<lambda>(ts, p, a). (t # ts, p, a)) (parse_loop (avail - 1) (pos + n) len bs m))
      else Some ([], pos, avail))"
  by pat_completeness auto
termination by (relation "measure (\<lambda>(avail, pos, len, bs, m). len - pos)") auto

declare parse_loop.simps [simp del]

definition ogs_tlv_parse_block :: "nat \<Rightarrow> u32 \<Rightarrow> u8 list \<Rightarrow> u8 \<Rightarrow> (ogs_tlv list option \<times> nat) option" where
  "ogs_tlv_parse_block avail blen bs m =
     (if avail = 0 then None
      else do { (t, n) \<leftarrow> tlv_get_element bs m;
                (ts, pos, left) \<leftarrow> parse_loop (avail - 1) n (unat blen) bs m;
                if unat blen \<noteq> pos then Some (None, avail) else Some (Some (t # ts), left) })"

definition ogs_tlv_parse_embedded_block :: "nat \<Rightarrow> ogs_tlv \<Rightarrow> u8 \<Rightarrow> (ogs_tlv option \<times> nat) option" where
  "ogs_tlv_parse_embedded_block avail t m =
     do { (es, left) \<leftarrow> ogs_tlv_parse_block avail (tlen t) (tvalue t) m;
          case es of
            None \<Rightarrow> Some (None, left)
          | Some es \<Rightarrow> Some (Some (Tlv (mode t) (type t) (tlen t) (tinstance t) (tvalue t) es), left) }"

fun ogs_tlv_find :: "ogs_tlv list \<Rightarrow> u32 \<Rightarrow> ogs_tlv option" where
  "ogs_tlv_find [] ty = None"
| "ogs_tlv_find (Tlv m t l i v es # ts) ty =
     (if t = ty then Some (Tlv m t l i v es)
      else case ogs_tlv_find es ty of
             Some e \<Rightarrow> Some e
           | None \<Rightarrow> ogs_tlv_find ts ty)"

subsection \<open>Building a message\<close>

text \<open>
  A chain under construction: its elements, and the private buffer of its head
  if it has one, as its size and the part already used. Values are then copied into
  the buffer; otherwise the element keeps the caller's pointer. \<open>ogs_tlv_embed\<close> uses the
  buffer of the root of the tree that the parent belongs to.
\<close>

record tlv_chain =
  elems :: "ogs_tlv list"
  buff :: "(nat \<times> nat) option"

definition copy_value :: "(nat \<times> nat) option \<Rightarrow> u32 \<Rightarrow> u8 list option
    \<Rightarrow> (u8 list \<times> (nat \<times> nat) option) option" where
  "copy_value b l v =
     (case b of
        None \<Rightarrow> Some (case v of None \<Rightarrow> [] | Some bs \<Rightarrow> bs, None)
      | Some (bl, used) \<Rightarrow>
          do { ogs_assert (used + unat l < bl);
               bs \<leftarrow> (case v of None \<Rightarrow> if l = 0 then Some [] else None
                             | Some bs \<Rightarrow> if unat l \<le> length bs then Some (take (unat l) bs) else None);
               Some (bs, Some (bl, used + unat l)) })"

definition ogs_tlv_add :: "tlv_chain option \<Rightarrow> u8 \<Rightarrow> u32 \<Rightarrow> u32 \<Rightarrow> u8 \<Rightarrow> u8 list option \<Rightarrow> tlv_chain option" where
  "ogs_tlv_add head m ty l i v =
     do { ogs_assert (l \<noteq> 0 \<longrightarrow> v \<noteq> None);
          let c = (case head of None \<Rightarrow> \<lparr>elems = [], buff = None\<rparr> | Some c \<Rightarrow> c);
          (bs, b) \<leftarrow> copy_value (buff c) l v;
          Some (c\<lparr>elems := elems c @ [Tlv m ty l i bs []], buff := b\<rparr>) }"

definition ogs_tlv_copy :: "nat \<Rightarrow> u8 \<Rightarrow> u32 \<Rightarrow> u32 \<Rightarrow> u8 \<Rightarrow> u8 list \<Rightarrow> tlv_chain option" where
  "ogs_tlv_copy buff_len m ty l i v =
     (if unat l \<le> length v \<and> unat l \<le> buff_len
      then Some \<lparr>elems = [Tlv m ty l i (take (unat l) v) []], buff = Some (buff_len, unat l)\<rparr>
      else None)"

definition ogs_tlv_embed :: "(nat \<times> nat) option \<Rightarrow> ogs_tlv \<Rightarrow> u8 \<Rightarrow> u32 \<Rightarrow> u32 \<Rightarrow> u8 \<Rightarrow> u8 list option
    \<Rightarrow> (ogs_tlv \<times> (nat \<times> nat) option) option" where
  "ogs_tlv_embed root_buff parent m ty l i v =
     do { (bs, b) \<leftarrow> copy_value root_buff l v;
          Some (Tlv (mode parent) (type parent) (tlen parent) (tinstance parent) (tvalue parent)
                 (embedded parent @ [Tlv m ty l i bs []]), b) }"

subsection \<open>Headers\<close>

lemma low_byte:
  assumes "unat (x :: u32) < 2 ^ 8"
  shows "ucast (ucast (x AND 0xFF) :: u8) = x"
  by (rule bit_word_eqI) (use bit_small [OF assms] in \<open>auto simp: and_ff bit_simps\<close>)

lemma two_bytes:
  assumes "unat (x :: u32) < 2 ^ 16"
  shows "push_bit 8 (ucast (ucast (drop_bit 8 x AND 0xFF) :: u8)) + ucast (ucast (x AND 0xFF) :: u8) = x"
proof -
  have "push_bit 8 (ucast (a :: u8)) + ucast (b :: u8) = push_bit 8 (ucast a) OR (ucast b :: u32)" for a b
    by (rule disjunctive_add) (auto simp: bit_simps dest!: bit_imp_le_length)
  then have "?thesis \<longleftrightarrow> push_bit 8 (ucast (ucast (drop_bit 8 x AND 0xFF) :: u8))
      OR ucast (ucast (x AND 0xFF) :: u8) = x" by simp
  moreover have "push_bit 8 (ucast (ucast (drop_bit 8 x AND 0xFF) :: u8))
      OR ucast (ucast (x AND 0xFF) :: u8) = x"
  proof (rule bit_word_eqI)
    fix n
    have "bit x n \<Longrightarrow> n < 16" using bit_small [OF assms] by simp
    then show "bit (push_bit 8 (ucast (ucast (drop_bit 8 x AND 0xFF) :: u8))
        OR ucast (ucast (x AND 0xFF) :: u8) :: u32) n = bit x n"
      by (cases "n < 8") (auto simp: and_ff bit_simps)
  qed
  ultimately show ?thesis by blast
qed

lemma low_nibble:
  assumes "unat (i :: u8) < 16"
  shows "i AND 15 = i"
proof -
  have "i AND 15 = take_bit 4 i" by (simp add: take_bit_eq_mask mask_eq_exp_minus_1)
  then show ?thesis using assms small_take_bit [of i 4] by simp
qed

text \<open>An element without embedded ones whose fields fit the widths of its mode.\<close>

definition valid_mode :: "u8 \<Rightarrow> bool" where
  "valid_mode m \<longleftrightarrow> header_length m \<noteq> None"

definition tlv_ok :: "u8 \<Rightarrow> ogs_tlv \<Rightarrow> bool" where
  "tlv_ok m t \<longleftrightarrow> valid_mode m \<and> mode t = m \<and> embedded t = [] \<and> length (tvalue t) = unat (tlen t)
     \<and> unat (type t) < (if m = OGS_TLV_MODE_T2_L2 then 2 ^ 16 else 2 ^ 8)
     \<and> (if m = OGS_TLV_MODE_T1_L1 then unat (tlen t) < 2 ^ 8
        else if m = OGS_TLV_MODE_T1 then tlen t = 0 else unat (tlen t) < 2 ^ 16)
     \<and> (if m = OGS_TLV_MODE_T1_L2_I1 then unat (tinstance t) < 16 else tinstance t = 0)"

definition put_header :: "u8 \<Rightarrow> u32 \<Rightarrow> u32 \<Rightarrow> u8 \<Rightarrow> u8 list" where
  "put_header m ty l i = the (tlv_put_type ty m) @ the (tlv_put_length l m) @ tlv_put_instance i m"

lemma valid_mode_cases:
  assumes "valid_mode m"
  obtains "m = OGS_TLV_MODE_T1_L1" | "m = OGS_TLV_MODE_T1_L2" | "m = OGS_TLV_MODE_T1_L2_I1"
    | "m = OGS_TLV_MODE_T2_L2" | "m = OGS_TLV_MODE_T1"
  using assms by (auto simp: valid_mode_def header_length_def split: if_splits)

lemma put_header_Some:
  assumes "valid_mode m"
  shows "tlv_put_type ty m = Some (the (tlv_put_type ty m))"
    "tlv_put_length l m = Some (the (tlv_put_length l m))"
    "header_length m = Some (of_nat (length (put_header m ty l i)))"
    "length (put_header m ty l i) \<le> 4" "0 < length (put_header m ty l i)"
  using assms by (cases rule: valid_mode_cases;
      simp add: tlv_put_type_def tlv_put_length_def tlv_put_instance_def header_length_def put_header_def tlv_modes)+

lemma tlv_header_put:
  assumes "tlv_ok m t"
  shows "tlv_header (put_header m (type t) (tlen t) (tinstance t) @ r) m
    = Some (type t, tlen t, tinstance t, length (put_header m (type t) (tlen t) (tinstance t)))"
proof -
  have "valid_mode m" using assms by (simp add: tlv_ok_def)
  then show ?thesis
    using assms low_byte [of "type t"] low_byte [of "tlen t"] two_bytes [of "type t"] two_bytes [of "tlen t"]
      low_nibble [of "tinstance t"]
    by (cases rule: valid_mode_cases)
      (simp_all add: tlv_header_def tlv_put_type_def tlv_put_length_def tlv_put_instance_def tlv_ok_def
        put_header_def tlv_modes)
qed

subsection \<open>Round trip\<close>

definition encode :: "ogs_tlv \<Rightarrow> u8 list" where
  "encode t = put_header (mode t) (type t) (tlen t) (tinstance t) @ tvalue t"

lemma encode_nonempty: "tlv_ok m t \<Longrightarrow> 0 < length (encode t)"
  using put_header_Some(5) [of "mode t"] by (simp add: encode_def tlv_ok_def)

lemma tlv_get_element_encode:
  assumes "tlv_ok m t"
  shows "tlv_get_element (encode t @ r) m = Some (t, length (encode t))"
proof -
  have "mode t = m" "embedded t = []" "length (tvalue t) = unat (tlen t)" using assms by (simp_all add: tlv_ok_def)
  then show ?thesis
    using tlv_header_put [OF assms, of "tvalue t @ r"]
    by (cases t) (simp add: tlv_get_element_def encode_def)
qed

lemma render_leaves:
  assumes "\<forall>t \<in> set ts. tlv_ok m t" "length out + length (concat (map encode ts)) \<le> len"
  shows "render_loop len out ts = Some (out @ concat (map encode ts))"
  using assms
proof (induction ts arbitrary: out)
  case (Cons t ts)
  have ok: "tlv_ok m t" "valid_mode (mode t)" using Cons.prems(1) by (auto simp: tlv_ok_def)
  have l: "length (tvalue t) = unat (tlen t)" "embedded t = []" using ok by (simp_all add: tlv_ok_def)
  obtain tb lb where ph: "tlv_put_type (type t) (mode t) = Some tb" "tlv_put_length (tlen t) (mode t) = Some lb"
    using put_header_Some(1) [OF ok(2), of "type t"] put_header_Some(2) [OF ok(2), of "tlen t"] by blast
  have "render_loop len (out @ encode t) ts = Some ((out @ encode t) @ concat (map encode ts))"
    using Cons.prems by (intro Cons.IH) auto
  moreover have enc: "encode t = tb @ lb @ tlv_put_instance (tinstance t) (mode t) @ tvalue t"
    using ph by (simp add: encode_def put_header_def)
  ultimately show ?case
    using l Cons.prems(2) ph by (cases t) (simp add: Let_def)
qed simp

lemma parse_leaves:
  assumes "\<forall>t \<in> set ts. tlv_ok m t" "length ts \<le> avail"
  shows "parse_loop avail (length pre) (length pre + length (concat (map encode ts)))
      (pre @ concat (map encode ts) @ r) m
    = Some (ts, length pre + length (concat (map encode ts)), avail - length ts)"
  using assms
proof (induction ts arbitrary: avail pre)
  case (Cons t ts)
  have ok: "tlv_ok m t" using Cons.prems(1) by simp
  have "parse_loop (avail - 1) (length (pre @ encode t)) (length (pre @ encode t) + length (concat (map encode ts)))
      ((pre @ encode t) @ concat (map encode ts) @ r) m
    = Some (ts, length (pre @ encode t) + length (concat (map encode ts)), avail - 1 - length ts)"
    using Cons.prems by (intro Cons.IH) auto
  then show ?case
    using tlv_get_element_encode [OF ok, of "concat (map encode ts) @ r"] encode_nonempty [OF ok] Cons.prems(2)
    by (subst parse_loop.simps) (simp add: add.assoc)
qed (simp add: parse_loop.simps)

subsection \<open>Sizes of embedded chains\<close>

fun tsize :: "ogs_tlv list \<Rightarrow> nat" where
  "tsize [] = 0"
| "tsize (Tlv m ty l i v es # ts) =
     length (put_header m ty l i) + (if es \<noteq> [] then tsize es else unat l) + tsize ts"

fun tree_ok :: "ogs_tlv list \<Rightarrow> bool" where
  "tree_ok [] = True"
| "tree_ok (Tlv m ty l i v es # ts) \<longleftrightarrow>
     valid_mode m \<and> (es = [] \<longrightarrow> unat l \<le> length v) \<and> tree_ok es \<and> tree_ok ts"

lemma put_header_length_irrelevant:
  "valid_mode m \<Longrightarrow> length (put_header m ty l i) = length (put_header m ty l' i)"
  by (cases rule: valid_mode_cases)
    (simp_all add: put_header_def tlv_put_type_def tlv_put_length_def tlv_modes)

lemma calc_length_tsize:
  "tree_ok ts \<Longrightarrow> \<exists>ts'. ogs_tlv_calc_length ts = Some (of_nat (tsize ts), ts')"
proof (induction ts rule: tree_ok.induct)
  case (2 m ty l i v es ts)
  then have m: "header_length m = Some (of_nat (length (put_header m ty l i)))"
    by (simp add: put_header_Some(3))
  obtain es' ts' where "ogs_tlv_calc_length es = Some (of_nat (tsize es), es')"
    "ogs_tlv_calc_length ts = Some (of_nat (tsize ts), ts')"
    using 2 by auto
  then show ?case using m by (cases "es = []") (simp_all add: add.assoc)
qed simp

lemma render_loop_size:
  "tree_ok ts \<Longrightarrow> length out + tsize ts \<le> len \<Longrightarrow> len < 2 ^ 32 \<Longrightarrow>
   \<exists>bs. render_loop len out ts = Some bs \<and> length bs = length out + tsize ts"
proof (induction ts arbitrary: len out rule: tree_ok.induct)
  case (2 m ty l i v es ts)
  have vm: "valid_mode m" using 2(3) by simp
  obtain tb where tb: "tlv_put_type ty m = Some tb" using put_header_Some(1) [OF vm] by blast
  show ?case
  proof (cases "es = []")
    case True
    obtain lb where lb: "tlv_put_length l m = Some lb" using put_header_Some(2) [OF vm] by blast
    let ?o = "out @ tb @ lb @ tlv_put_instance i m"
    have len: "length ?o = length out + length (put_header m ty l i)" by (simp add: put_header_def tb lb)
    have v: "unat l \<le> length v" "length ?o + unat l + tsize ts \<le> len" using 2(3,4) True len by simp_all
    then have "\<exists>bs. render_loop len (?o @ take (unat l) v) ts = Some bs
        \<and> length bs = length (?o @ take (unat l) v) + tsize ts"
      using 2(3,5) by (intro 2(2)) auto
    then show ?thesis using True v len tb lb by (auto simp: Let_def)
  next
    case False
    let ?n = "of_nat (tsize es) :: u32"
    obtain lb where lb: "tlv_put_length ?n m = Some lb" using put_header_Some(2) [OF vm] by blast
    let ?o = "out @ tb @ lb @ tlv_put_instance i m"
    have len: "length ?o = length out + length (put_header m ty l i)"
      using put_header_length_irrelevant [OF vm, of ty l i ?n] by (simp add: put_header_def tb lb)
    obtain es' where calc: "ogs_tlv_calc_length es = Some (?n, es')"
      using calc_length_tsize [of es] 2(3) by auto
    have n: "unat ?n = tsize es" using 2(4,5) False by (simp add: unat_of_nat_small)
    have b: "length ?o \<le> len" "tsize es \<le> len - length ?o" using len 2(4) False by simp_all
    have "len - length ?o < 2 ^ 32" using 2(5) by linarith
    then obtain eb where eb: "render_loop (len - length ?o) [] es = Some eb" "length eb = tsize es"
      using 2(1) [of "[]" "len - length ?o"] 2(3) b(2) by fastforce
    obtain bs where "render_loop len (?o @ eb) ts = Some bs" "length bs = length (?o @ eb) + tsize ts"
      using 2(2) [of "?o @ eb" len] 2(3-5) False len eb(2) by auto
    then show ?thesis using False calc n eb len b(1) tb lb by (simp add: Let_def)
  qed
qed simp

subsection \<open>The reader on arbitrary input\<close>

lemma tlv_get_element_total:
  assumes "valid_mode m" "4 \<le> length bs"
  shows "\<exists>t n. tlv_get_element bs m = Some (t, n) \<and> 0 < n"
proof -
  obtain a b c d r where "bs = a # b # c # d # r"
    using assms(2) by (auto simp: numeral_eq_Suc Suc_le_length_iff)
  with assms(1) have "\<exists>t n. tlv_get_element bs m = Some (t, n)"
    by (cases rule: valid_mode_cases)
      (simp_all add: tlv_get_element_def tlv_header_def tlv_modes)
  then show ?thesis using tlv_get_element_progress by blast
qed

lemma parse_loop_total:
  assumes "valid_mode m" "len + 4 \<le> length bs" "len - pos \<le> avail"
  shows "\<exists>ts p a. parse_loop avail pos len bs m = Some (ts, p, a) \<and> length ts + a = avail"
  using assms
proof (induction "len - pos" arbitrary: pos avail rule: less_induct)
  case less
  show ?case
  proof (cases "pos < len")
    case True
    then have "4 \<le> length (drop pos bs)" using less.prems(2) by simp
    then obtain t n where t: "tlv_get_element (drop pos bs) m = Some (t, n)" "0 < n"
      using tlv_get_element_total [OF assms(1)] by blast
    obtain ts p a where "parse_loop (avail - 1) (pos + n) len bs m = Some (ts, p, a)" "length ts + a = avail - 1"
      using less.hyps [of "pos + n" "avail - 1"] t(2) True less.prems by fastforce
    then show ?thesis using True t less.prems(3) by (subst parse_loop.simps) auto
  qed (simp add: parse_loop.simps)
qed

subsection \<open>Properties\<close>

text \<open>C22. Rendering a sequence of elements whose fields fit the mode and parsing the result, followed by
  any further bytes, gives the sequence back, and takes one pool node per element.\<close>

theorem tlv_parse_render:
  assumes "ts \<noteq> []" "\<forall>t \<in> set ts. tlv_ok m t" "length ts \<le> avail"
    and "length (concat (map encode ts)) < 2 ^ 32" "length (concat (map encode ts)) \<le> len"
  shows "\<exists>bs. ogs_tlv_render ts len = Some bs
    \<and> ogs_tlv_parse_block avail (of_nat (length bs)) (bs @ junk) m = Some (Some ts, avail - length ts)"
proof -
  obtain t us where ts: "ts = t # us" using assms(1) by (cases ts) auto
  have ok: "tlv_ok m t" using assms(2) ts by simp
  have "parse_loop (avail - 1) (length (encode t)) (length (encode t) + length (concat (map encode us)))
      (encode t @ concat (map encode us) @ junk) m
    = Some (us, length (encode t) + length (concat (map encode us)), avail - 1 - length us)"
    using assms(2,3) ts by (intro parse_leaves) auto
  moreover have "unat (of_nat (length (concat (map encode ts))) :: u32) = length (concat (map encode ts))"
    using assms(4) by (simp add: unat_of_nat_small)
  ultimately have "ogs_tlv_parse_block avail (of_nat (length (concat (map encode ts))))
      (concat (map encode ts) @ junk) m = Some (Some ts, avail - length ts)"
    using tlv_get_element_encode [OF ok] assms(3) ts by (simp add: ogs_tlv_parse_block_def)
  then show ?thesis
    using render_leaves [OF assms(2), of "[]" len] assms(5) by (auto simp: ogs_tlv_render_def)
qed

theorem tlv_parse_render_witness:
  "\<exists>bs. ogs_tlv_render [Tlv 4 10 2 0 [1, 2] [], Tlv 4 300 0 0 [] []] 20 = Some bs
    \<and> ogs_tlv_parse_block 5 (of_nat (length bs)) (bs @ [9]) 4
       = Some (Some [Tlv 4 10 2 0 [1, 2] [], Tlv 4 300 0 0 [] []], 3)"
proof -
  let ?ts = "[Tlv 4 10 2 0 [1, 2] [], Tlv 4 300 0 0 [] []]"
  have ok: "\<forall>t \<in> set ?ts. tlv_ok 4 t"
    by (simp add: tlv_ok_def valid_mode_def header_length_def tlv_modes)
  have "length (concat (map encode ?ts)) = 10"
    by (simp add: encode_def put_header_def tlv_put_type_def tlv_put_length_def tlv_put_instance_def tlv_modes)
  then show ?thesis using tlv_parse_render [OF _ ok, of 5 20 "[9]"] by simp
qed

text \<open>For any tree of elements that fits 32 bits, with embedded chains at any depth,
  \<open>ogs_tlv_calc_length\<close> computes exactly the number of bytes that \<open>ogs_tlv_render\<close> writes, and
  a buffer of that size is enough.\<close>

theorem tlv_render_length:
  assumes "tree_ok ts" "tsize ts \<le> len" "len < 2 ^ 32"
  shows "\<exists>n ts' bs. ogs_tlv_calc_length ts = Some (n, ts') \<and> ogs_tlv_render ts len = Some bs
    \<and> length bs = unat n"
proof -
  obtain bs where "ogs_tlv_render ts len = Some bs" "length bs = tsize ts"
    using render_loop_size [of ts "[]" len] assms by (auto simp: ogs_tlv_render_def)
  moreover have "unat (of_nat (tsize ts) :: u32) = tsize ts"
    using assms(2,3) by (simp add: unat_of_nat_small)
  ultimately show ?thesis using calc_length_tsize [OF assms(1)] by auto
qed

theorem tlv_render_length_witness:
  "\<exists>n ts' bs. ogs_tlv_calc_length [Tlv 4 1 0 0 [] [Tlv 4 2 1 0 [7] []]] = Some (n, ts')
    \<and> ogs_tlv_render [Tlv 4 1 0 0 [] [Tlv 4 2 1 0 [7] []]] 9 = Some bs \<and> length bs = unat n"
  by (rule tlv_render_length)
    (simp_all add: valid_mode_def header_length_def put_header_def tlv_put_type_def tlv_put_length_def
      tlv_put_instance_def tlv_modes)

text \<open>The reader checks its position against the block's length only after it has read a
  header and followed its length field. It is safe when four bytes beyond the block are readable
  and the pool has a node for every byte: then it ends, and every node is either in the result or
  back in the pool.\<close>

theorem tlv_parse_total_with_slack:
  assumes "valid_mode m" "unat blen + 4 \<le> length bs" "unat blen < avail"
  shows "\<exists>r left. ogs_tlv_parse_block avail blen bs m = Some (r, left)
    \<and> left + (case r of None \<Rightarrow> 0 | Some ts \<Rightarrow> length ts) = avail"
proof -
  obtain t n where t: "tlv_get_element bs m = Some (t, n)"
    using tlv_get_element_total [OF assms(1), of bs] assms(2) by auto
  have "unat blen - n \<le> avail - 1" using assms(3) by linarith
  then obtain ts p a where
    "parse_loop (avail - 1) n (unat blen) bs m = Some (ts, p, a)" "length ts + a = avail - 1"
    using parse_loop_total [OF assms(1,2)] by blast
  then show ?thesis using t assms(3) by (auto simp: ogs_tlv_parse_block_def)
qed

theorem tlv_parse_total_with_slack_witness:
  "\<exists>r left. ogs_tlv_parse_block 3 1 [1, 2, 3, 4, 5] 1 = Some (r, left)"
  using tlv_parse_total_with_slack [of 1 1 "[1, 2, 3, 4, 5]" 3]
  by (auto simp: valid_mode_def header_length_def tlv_modes)

text \<open>Without that slack the reader is not safe: in every mode with a length field, a
  one-byte block that ends at the end of its buffer makes \<open>ogs_tlv_parse_block\<close> read past
  the buffer.\<close>

theorem tlv_parse_truncated_overreads:
  assumes "valid_mode m" "m \<noteq> OGS_TLV_MODE_T1"
  shows "ogs_tlv_parse_block avail 1 [b] m = None"
  using assms(1) by (cases rule: valid_mode_cases)
    (use assms(2) in \<open>simp_all add: ogs_tlv_parse_block_def tlv_get_element_def tlv_header_def tlv_modes\<close>)

theorem tlv_parse_truncated_overreads_witness:
  "ogs_tlv_parse_block 8 1 [0] 4 = None"
  by (rule tlv_parse_truncated_overreads) (simp_all add: valid_mode_def header_length_def tlv_modes)

end
