(* ===== verification/Ogs_Pkbuf.thy ===== *)
theory Ogs_Pkbuf
  imports Ogs_Prelude
begin

section \<open>Packet buffers (lib/core/ogs-pkbuf.h, ogs-pkbuf.c)\<close>

text \<open>
  A packet buffer is an allocation \<open>buf\<close> (from \<open>head\<close> to \<open>end\<close>) with two
  offsets into it: the packet's bytes lie between \<open>data\<close> and \<open>tail\<close>, and \<open>len\<close> is
  kept beside them. The model is of the build with \<open>OGS_USE_TALLOC\<close> set, in which
  a buffer is allocated zeroed and at its exact size. Allocation failure is not modelled.
\<close>

record ogs_pkbuf =
  buf :: "u8 list"
  pk_data :: nat
  pk_tail :: nat
  pk_len :: nat

text \<open>\<open>memcpy\<close> into the buffer; the bytes have to fit.\<close>

definition write_at :: "nat \<Rightarrow> u8 list \<Rightarrow> ogs_pkbuf \<Rightarrow> ogs_pkbuf option" where
  "write_at off bs p =
     (if off + length bs \<le> length (buf p)
      then Some (p\<lparr>buf := take off (buf p) @ bs @ drop (off + length bs) (buf p)\<rparr>)
      else None)"

definition contents :: "ogs_pkbuf \<Rightarrow> u8 list" where
  "contents p = take (pk_len p) (drop (pk_data p) (buf p))"

definition byte_at :: "ogs_pkbuf \<Rightarrow> nat \<Rightarrow> u8 option" where
  "byte_at p i = (if pk_data p + i < length (buf p) then Some (buf p ! (pk_data p + i)) else None)"

definition ogs_pkbuf_alloc :: "nat \<Rightarrow> ogs_pkbuf" where
  "ogs_pkbuf_alloc sz = \<lparr>buf = replicate sz 0, pk_data = 0, pk_tail = 0, pk_len = 0\<rparr>"

definition ogs_pkbuf_tailroom :: "ogs_pkbuf \<Rightarrow> nat" where
  "ogs_pkbuf_tailroom p = length (buf p) - pk_tail p"

definition ogs_pkbuf_headroom :: "ogs_pkbuf \<Rightarrow> nat" where
  "ogs_pkbuf_headroom p = pk_data p"

definition ogs_pkbuf_reserve :: "nat \<Rightarrow> ogs_pkbuf \<Rightarrow> ogs_pkbuf" where
  "ogs_pkbuf_reserve n p = p\<lparr>pk_data := pk_data p + n, pk_tail := pk_tail p + n\<rparr>"

text \<open>\<open>ogs_pkbuf_put\<close> returns the old tail, where the caller writes.\<close>

definition ogs_pkbuf_put :: "nat \<Rightarrow> ogs_pkbuf \<Rightarrow> (nat \<times> ogs_pkbuf) option" where
  "ogs_pkbuf_put n p =
     do { ogs_assert (n \<le> ogs_pkbuf_tailroom p);
          Some (pk_tail p, p\<lparr>pk_tail := pk_tail p + n, pk_len := pk_len p + n\<rparr>) }"

definition ogs_pkbuf_put_data :: "u8 list \<Rightarrow> ogs_pkbuf \<Rightarrow> ogs_pkbuf option" where
  "ogs_pkbuf_put_data bs p = do { (t, p) \<leftarrow> ogs_pkbuf_put (length bs) p; write_at t bs p }"

definition ogs_pkbuf_put_u8 :: "u8 \<Rightarrow> ogs_pkbuf \<Rightarrow> ogs_pkbuf option" where
  "ogs_pkbuf_put_u8 v p = do { (t, p) \<leftarrow> ogs_pkbuf_put 1 p; write_at t [v] p }"

definition ogs_pkbuf_put_u16 :: "u16 \<Rightarrow> ogs_pkbuf \<Rightarrow> ogs_pkbuf option" where
  "ogs_pkbuf_put_u16 v p = do { (t, p) \<leftarrow> ogs_pkbuf_put 2 p; write_at t (be16 v) p }"

definition ogs_pkbuf_put_u32 :: "u32 \<Rightarrow> ogs_pkbuf \<Rightarrow> ogs_pkbuf option" where
  "ogs_pkbuf_put_u32 v p = do { (t, p) \<leftarrow> ogs_pkbuf_put 4 p; write_at t (be32 v) p }"

definition ogs_pkbuf_push :: "nat \<Rightarrow> ogs_pkbuf \<Rightarrow> ogs_pkbuf option" where
  "ogs_pkbuf_push n p =
     do { ogs_assert (n \<le> ogs_pkbuf_headroom p);
          Some (p\<lparr>pk_data := pk_data p - n, pk_len := pk_len p + n\<rparr>) }"

text \<open>\<open>ogs_pkbuf_pull\<close> returns NULL and leaves the buffer alone when it holds too little.\<close>

definition ogs_pkbuf_pull :: "nat \<Rightarrow> ogs_pkbuf \<Rightarrow> bool \<times> ogs_pkbuf" where
  "ogs_pkbuf_pull n p =
     (if n > pk_len p then (False, p)
      else (True, p\<lparr>pk_data := pk_data p + n, pk_len := pk_len p - n\<rparr>))"

definition ogs_pkbuf_trim :: "nat \<Rightarrow> ogs_pkbuf \<Rightarrow> status \<times> ogs_pkbuf" where
  "ogs_pkbuf_trim n p =
     (if n > pk_len p then (OGS_ERROR, p)
      else (OGS_OK, p\<lparr>pk_tail := pk_data p + n, pk_len := n\<rparr>))"

definition ogs_pkbuf_copy :: "ogs_pkbuf \<Rightarrow> ogs_pkbuf option" where
  "ogs_pkbuf_copy p =
     (let sz = length (buf p)
      in if sz \<le> 0 then None
         else let newbuf = ogs_pkbuf_alloc sz
              in Some (newbuf\<lparr>buf := take sz (buf p), pk_len := pk_len p,
                              pk_tail := pk_tail newbuf + pk_tail p,
                              pk_data := pk_data newbuf + pk_data p\<rparr>))"

subsection \<open>Effect on the contents\<close>

definition pkbuf_ok :: "ogs_pkbuf \<Rightarrow> bool" where
  "pkbuf_ok p \<longleftrightarrow> pk_tail p = pk_data p + pk_len p \<and> pk_tail p \<le> length (buf p)"

lemma length_contents: "pkbuf_ok p \<Longrightarrow> length (contents p) = pk_len p"
  by (auto simp: pkbuf_ok_def contents_def)

lemma pkbuf_ok_alloc [simp]: "pkbuf_ok (ogs_pkbuf_alloc n)"
  by (simp add: pkbuf_ok_def ogs_pkbuf_alloc_def)

lemma contents_alloc [simp]: "contents (ogs_pkbuf_alloc n) = []"
  by (simp add: contents_def ogs_pkbuf_alloc_def)

lemma put_data_correct:
  assumes "pkbuf_ok p" "length bs \<le> ogs_pkbuf_tailroom p"
  shows "\<exists>p'. ogs_pkbuf_put_data bs p = Some p' \<and> pkbuf_ok p' \<and> contents p' = contents p @ bs
    \<and> length (buf p') = length (buf p) \<and> pk_data p' = pk_data p"
proof -
  have fit: "pk_tail p + length bs \<le> length (buf p)"
    using assms by (auto simp: pkbuf_ok_def ogs_pkbuf_tailroom_def)
  let ?b = "take (pk_tail p) (buf p) @ bs @ drop (pk_tail p + length bs) (buf p)"
  have "take (pk_len p + length bs) (drop (pk_data p) ?b) = contents p @ bs"
    using assms(1) fit by (simp add: pkbuf_ok_def contents_def drop_take)
  then show ?thesis
    using assms fit by (auto simp: ogs_pkbuf_put_data_def ogs_pkbuf_put_def write_at_def
        contents_def pkbuf_ok_def)
qed

lemma put_words:
  "ogs_pkbuf_put_u8 v p = ogs_pkbuf_put_data [v] p"
  "ogs_pkbuf_put_u16 h p = ogs_pkbuf_put_data (be16 h) p"
  "ogs_pkbuf_put_u32 w p = ogs_pkbuf_put_data (be32 w) p"
  by (simp_all add: ogs_pkbuf_put_u8_def ogs_pkbuf_put_u16_def ogs_pkbuf_put_u32_def
      ogs_pkbuf_put_data_def)

text \<open>Making room in front and writing a header there.\<close>

lemma push_write_correct:
  assumes "pkbuf_ok p" "length bs \<le> ogs_pkbuf_headroom p"
  shows "\<exists>p1 p2. ogs_pkbuf_push (length bs) p = Some p1 \<and> write_at (pk_data p1) bs p1 = Some p2
    \<and> pkbuf_ok p2 \<and> contents p2 = bs @ contents p \<and> pk_len p2 = length bs + pk_len p"
proof -
  let ?o = "pk_data p - length bs"
  have o: "?o + length bs = pk_data p" using assms(2) by (simp add: ogs_pkbuf_headroom_def)
  have b: "pk_data p + pk_len p \<le> length (buf p)" using assms(1) by (simp add: pkbuf_ok_def)
  have "take (pk_len p + length bs) (drop ?o (take ?o (buf p) @ bs @ drop (pk_data p) (buf p)))
      = bs @ contents p"
    using b by (simp add: contents_def)
  then show ?thesis
    using assms o b by (simp add: ogs_pkbuf_push_def write_at_def pkbuf_ok_def contents_def
        ogs_pkbuf_headroom_def add.commute)
qed

lemma pull_correct:
  assumes "pkbuf_ok p" "n \<le> pk_len p"
  shows "\<exists>p'. ogs_pkbuf_pull n p = (True, p') \<and> pkbuf_ok p' \<and> contents p' = drop n (contents p)
    \<and> buf p' = buf p \<and> pk_data p' = pk_data p + n \<and> pk_len p' = pk_len p - n"
  using assms by (auto simp: ogs_pkbuf_pull_def pkbuf_ok_def contents_def drop_take add.commute)

lemma trim_correct:
  assumes "pkbuf_ok p" "n \<le> pk_len p"
  shows "\<exists>p'. ogs_pkbuf_trim n p = (OGS_OK, p') \<and> pkbuf_ok p' \<and> contents p' = take n (contents p)
    \<and> buf p' = buf p \<and> pk_data p' = pk_data p \<and> pk_len p' = n"
  using assms by (auto simp: ogs_pkbuf_trim_def pkbuf_ok_def contents_def min_def)

lemma copy_correct:
  assumes "buf p \<noteq> []"
  shows "ogs_pkbuf_copy p = Some p"
  using assms by (cases p) (simp add: ogs_pkbuf_copy_def ogs_pkbuf_alloc_def Let_def)

text \<open>A received datagram: a full-size buffer, the bytes written at its start, trimmed.\<close>

definition received :: "nat \<Rightarrow> u8 list \<Rightarrow> ogs_pkbuf option" where
  "received sz d =
     do { let p = ogs_pkbuf_alloc sz;
          (_, p) \<leftarrow> ogs_pkbuf_put sz p;
          p \<leftarrow> write_at (pk_data p) d p;
          Some (snd (ogs_pkbuf_trim (length d) p)) }"

lemma received_correct:
  assumes "length d \<le> sz"
  shows "received sz d = Some \<lparr>buf = d @ replicate (sz - length d) 0, pk_data = 0,
      pk_tail = length d, pk_len = length d\<rparr>"
  using assms by (simp add: received_def ogs_pkbuf_alloc_def ogs_pkbuf_put_def ogs_pkbuf_tailroom_def
      write_at_def ogs_pkbuf_trim_def)

subsection \<open>Properties\<close>

text \<open>In the order in which the data path uses them: data put at the end is appended to the
  contents, a header pushed and written is put in front of them, and pulling as many bytes again
  gives the contents back; each succeeds exactly when there is room, and otherwise aborts.\<close>

theorem pkbuf_push_pull:
  assumes "pkbuf_ok p"
  shows "(if length hdr \<le> ogs_pkbuf_headroom p
     then \<exists>p1 p2 p3. ogs_pkbuf_push (length hdr) p = Some p1 \<and> write_at (pk_data p1) hdr p1 = Some p2
       \<and> contents p2 = hdr @ contents p
       \<and> ogs_pkbuf_pull (length hdr) p2 = (True, p3) \<and> contents p3 = contents p
     else ogs_pkbuf_push (length hdr) p = None)
   \<and> (if length bs \<le> ogs_pkbuf_tailroom p
      then \<exists>p'. ogs_pkbuf_put_data bs p = Some p' \<and> contents p' = contents p @ bs
      else ogs_pkbuf_put_data bs p = None)"
proof -
  have "\<exists>p1 p2 p3. ogs_pkbuf_push (length hdr) p = Some p1 \<and> write_at (pk_data p1) hdr p1 = Some p2
       \<and> contents p2 = hdr @ contents p
       \<and> ogs_pkbuf_pull (length hdr) p2 = (True, p3) \<and> contents p3 = contents p"
    if h: "length hdr \<le> ogs_pkbuf_headroom p"
  proof -
    obtain p1 p2 where p: "ogs_pkbuf_push (length hdr) p = Some p1" "write_at (pk_data p1) hdr p1 = Some p2"
      "pkbuf_ok p2" "contents p2 = hdr @ contents p" "pk_len p2 = length hdr + pk_len p"
      using push_write_correct [OF assms h] by blast
    then show ?thesis using pull_correct [OF p(3), of "length hdr"] by fastforce
  qed
  moreover have "\<exists>p'. ogs_pkbuf_put_data bs p = Some p' \<and> contents p' = contents p @ bs"
    if "length bs \<le> ogs_pkbuf_tailroom p"
    using put_data_correct [OF assms that] by blast
  ultimately show ?thesis
    by (simp add: ogs_pkbuf_push_def ogs_pkbuf_put_data_def ogs_pkbuf_put_def)
qed

theorem pkbuf_push_pull_witness:
  "\<exists>p'. ogs_pkbuf_put_data [1, 2] (ogs_pkbuf_alloc 4) = Some p' \<and> contents p' = [1, 2]"
  using pkbuf_push_pull [of "ogs_pkbuf_alloc 4" "[]" "[1, 2]"]
  by (simp add: ogs_pkbuf_alloc_def ogs_pkbuf_tailroom_def contents_def pkbuf_ok_def)

end
