(* ===== verification/Ogs_Gtpu.thy ===== *)
theory Ogs_Gtpu
  imports Ogs_Pkbuf
begin

unbundle bit_operations_syntax

section \<open>GTP-U headers and echo (lib/gtp/v2/message.h, path.c)\<close>

text \<open>
  \<open>ogs_gtp2_header_t\<close> is a packed 12-byte struct. The distributed functions copy it over
  received GTP-U packets, whose own header (3GPP TS 29.281) has 8 bytes. Multi-byte
  fields are kept here as the numbers they denote in network order.
\<close>

record gtp2_header =
  flags :: u8
  gtype :: u8
  glength :: u16
  gteid :: u32
  sqn :: u32

definition OGS_GTPU_MSGTYPE_ECHO_REQ :: u8 where "OGS_GTPU_MSGTYPE_ECHO_REQ = 1"
definition OGS_GTPU_MSGTYPE_ECHO_RSP :: u8 where "OGS_GTPU_MSGTYPE_ECHO_RSP = 2"
definition OGS_GTPU_MSGTYPE_GPDU :: u8 where "OGS_GTPU_MSGTYPE_GPDU = 255"
definition OGS_GTPU_FLAGS_S :: u8 where "OGS_GTPU_FLAGS_S = 2"
definition OGS_GTPU_FLAGS_PN :: u8 where "OGS_GTPU_FLAGS_PN = 1"
definition OGS_GTPV1U_HEADER_LEN :: nat where "OGS_GTPV1U_HEADER_LEN = 8"
definition OGS_GTPV2C_HEADER_LEN :: nat where "OGS_GTPV2C_HEADER_LEN = 12"

text \<open>The two \<open>memcpy\<close>s between a header and a buffer.\<close>

definition put_gtp2_header :: "gtp2_header \<Rightarrow> u8 list" where
  "put_gtp2_header h = [flags h, gtype h] @ be16 (glength h) @ be32 (gteid h) @ be32 (sqn h)"

fun get_gtp2_header :: "u8 list \<Rightarrow> gtp2_header option" where
  "get_gtp2_header (f # t # l1 # l2 # a # b # c # d # s1 # s2 # s3 # s4 # _) =
     Some \<lparr>flags = f, gtype = t, glength = rd16 l1 l2, gteid = rd32 a b c d, sqn = rd32 s1 s2 s3 s4\<rparr>"
| "get_gtp2_header _ = None"

lemma length_put_gtp2_header [simp]: "length (put_gtp2_header h) = 12"
  by (simp add: put_gtp2_header_def)

lemma get_put_gtp2_header [simp]: "get_gtp2_header (put_gtp2_header h @ r) = Some h"
  by (simp add: put_gtp2_header_def be16_def be32_def)

lemma put_get_gtp2_header: "get_gtp2_header bs = Some h \<Longrightarrow> put_gtp2_header h = take 12 bs"
  by (cases bs rule: get_gtp2_header.cases) (auto simp: put_gtp2_header_def)

lemma get_gtp2_header_long: "12 \<le> length bs \<Longrightarrow> \<exists>h. get_gtp2_header bs = Some h"
proof -
  assume "12 \<le> length bs"
  then obtain f t l1 l2 a b c d s1 s2 s3 s4 r
    where "bs = f # t # l1 # l2 # a # b # c # d # s1 # s2 # s3 # s4 # r"
    by (auto simp: numeral_eq_Suc Suc_le_length_iff)
  then show ?thesis by simp
qed

text \<open>
  What the receivers of the DF and the DNF have after taking the header off a datagram, and what the senders make
  of it: both use the room in front that the removed header leaves.
\<close>

lemma header_pulled:
  assumes "12 \<le> length d" "length d \<le> sz"
  shows "\<exists>q p. received sz d = Some q \<and> pk_len q = length d \<and> contents q = d
    \<and> ogs_pkbuf_pull 12 q = (True, p) \<and> pkbuf_ok p \<and> ogs_pkbuf_headroom p = 12
    \<and> contents p = drop 12 d \<and> pk_len p = length d - 12"
  using assms received_correct [OF assms(2)]
  by (simp add: ogs_pkbuf_pull_def pkbuf_ok_def ogs_pkbuf_headroom_def contents_def)

lemma encapsulate:
  assumes "pkbuf_ok p" "12 \<le> ogs_pkbuf_headroom p" "length hdr = 12"
  shows "\<exists>q. (do { b \<leftarrow> ogs_pkbuf_copy p; b \<leftarrow> ogs_pkbuf_push 12 b; write_at (pk_data b) hdr b }) = Some q
    \<and> contents q = hdr @ contents p \<and> pk_len q = 12 + pk_len p"
proof -
  have "buf p \<noteq> []" using assms(1,2) by (auto simp: pkbuf_ok_def ogs_pkbuf_headroom_def)
  then show ?thesis
    using copy_correct push_write_correct [OF assms(1), of hdr] assms(2,3) by auto
qed

subsection \<open>Echo\<close>

text \<open>
  \<open>ogs_gtp2_handle_echo_req\<close> looks at the bytes from the buffer's current \<open>data\<close> on,
  without comparing with its length, and builds the reply, or returns NULL (\<open>Some None\<close>).
\<close>

definition ogs_gtp2_handle_echo_req :: "ogs_pkbuf \<Rightarrow> u8 list option option" where
  "ogs_gtp2_handle_echo_req p =
     do { f \<leftarrow> byte_at p 0;
          if drop_bit 5 f \<noteq> 1 then Some None
          else do {
            t \<leftarrow> byte_at p 1;
            if t \<noteq> OGS_GTPU_MSGTYPE_ECHO_REQ then Some None
            else do {
              let rf = (push_bit 5 1 OR push_bit 4 1 :: u8);
              (rf, len, opt) \<leftarrow>
                (if f AND (OGS_GTPU_FLAGS_PN OR OGS_GTPU_FLAGS_S) \<noteq> 0 then
                   do { (rf, s) \<leftarrow> (if f AND OGS_GTPU_FLAGS_S \<noteq> 0 then
                                 do { a \<leftarrow> byte_at p 8; b \<leftarrow> byte_at p 9;
                                      Some (rf OR OGS_GTPU_FLAGS_S, [a, b]) }
                               else Some (rf, [0, 0]));
                        (rf, n) \<leftarrow> (if f AND OGS_GTPU_FLAGS_PN \<noteq> 0 then
                                 do { c \<leftarrow> byte_at p 10; Some (rf OR OGS_GTPU_FLAGS_PN, [c]) }
                               else Some (rf, [0]));
                        Some (rf, 4, s @ n @ [0]) }
                 else Some (rf, 0, []));
              Some (Some ([rf, OGS_GTPU_MSGTYPE_ECHO_RSP] @ be16 (len + 2) @ be32 0 @ opt @ [14, 0])) } } }"

lemma byte_at_contents:
  assumes "pkbuf_ok p" "i < pk_len p"
  shows "byte_at p i = Some (contents p ! i)"
  using assms by (auto simp: byte_at_def contents_def pkbuf_ok_def)

subsection \<open>Properties\<close>

text \<open>A GTPv1 echo request that lies in the buffer is answered with an echo response for
  TEID 0 whose length field counts exactly the bytes behind the 8-byte header, ending in a Recovery
  element, and which repeats the request's sequence number when it has one.\<close>

theorem gtp_echo_response:
  assumes "pkbuf_ok p" "pk_len p \<ge> 11" "drop_bit 5 (contents p ! 0) = 1"
    and "contents p ! 1 = OGS_GTPU_MSGTYPE_ECHO_REQ"
  shows "\<exists>r f l opt. ogs_gtp2_handle_echo_req p = Some (Some r)
    \<and> r = [f, OGS_GTPU_MSGTYPE_ECHO_RSP] @ be16 l @ be32 0 @ opt @ [14, 0]
    \<and> length r = 8 + unat l \<and> drop_bit 5 f = 1
    \<and> (contents p ! 0 AND OGS_GTPU_FLAGS_S \<noteq> 0 \<longrightarrow> take 2 opt = [contents p ! 8, contents p ! 9])"
proof -
  have b: "byte_at p i = Some (contents p ! i)" if "i < 11" for i
    using byte_at_contents [OF assms(1)] assms(2) that by simp
  let ?f = "contents p ! 0"
  have v: "drop_bit 5 (48 :: u8) = 1" "drop_bit 5 (50 :: u8) = 1" "drop_bit 5 (49 :: u8) = 1"
    "drop_bit 5 (51 :: u8) = 1" by simp_all
  have "x AND 2 = (x AND 3) AND 2" for x :: u8 by (simp add: and.assoc)
  then have s3: "x AND 2 \<noteq> 0 \<Longrightarrow> x AND 3 \<noteq> 0" for x :: u8 by (metis and_zero_eq zero_and_eq)
  show ?thesis
    by (cases "?f AND OGS_GTPU_FLAGS_S = 0"; cases "?f AND OGS_GTPU_FLAGS_PN = 0";
        cases "?f AND (OGS_GTPU_FLAGS_PN OR OGS_GTPU_FLAGS_S) = 0")
      (use assms(3,4) in \<open>auto simp: ogs_gtp2_handle_echo_req_def b v OGS_GTPU_FLAGS_S_def
        OGS_GTPU_FLAGS_PN_def bit.conj_disj_distrib s3 dest: s3\<close>)
qed

theorem gtp_echo_response_witness:
  "\<exists>r f l opt. ogs_gtp2_handle_echo_req
       \<lparr>buf = [0x32, 1, 0, 4, 0, 0, 0, 0, 7, 9, 0, 0], pk_data = 0, pk_tail = 12, pk_len = 12\<rparr> = Some (Some r)
    \<and> r = [f, OGS_GTPU_MSGTYPE_ECHO_RSP] @ be16 l @ be32 0 @ opt @ [14, 0] \<and> take 2 opt = [7, 9]"
  using gtp_echo_response [of "\<lparr>buf = [0x32, 1, 0, 4, 0, 0, 0, 0, 7, 9, 0, 0], pk_data = 0, pk_tail = 12, pk_len = 12\<rparr>"]
  by (fastforce simp: pkbuf_ok_def contents_def OGS_GTPU_MSGTYPE_ECHO_REQ_def OGS_GTPU_FLAGS_S_def)

end
