(* ===== verification/Ogs_Main.thy ===== *)
theory Ogs_Main
  imports Ogs_Queue Ogs_Fsm
begin

section \<open>The event loop of a network function (init.c)\<close>

text \<open>
  \<open>dnf_main\<close>, \<open>dmf_main\<close>, \<open>dsmf_main\<close> and \<open>df_main\<close> share one inner loop: pop events without
  blocking until the queue is empty or terminated, and dispatch each to the state
  machine. The queue is part of the world, since a handler may push to it; the loop
  then need not end, which is \<open>None\<close>.
\<close>

partial_function (option) main_drain ::
  "('s, 'e fsm_event ogs_queue \<times> 'w, 'e) handlers \<Rightarrow> 's ogs_fsm \<Rightarrow> 'e fsm_event ogs_queue \<Rightarrow> 'w
     \<Rightarrow> (bool \<times> 's ogs_fsm \<times> 'e fsm_event ogs_queue \<times> 'w) option" where
  "main_drain sem sm q w =
     (case ogs_queue_trypop q of (rv, e, q) \<Rightarrow>
        if rv = OGS_ERROR then None
        else if rv = OGS_DONE then Some (True, sm, q, w)
        else if rv = OGS_RETRY then Some (False, sm, q, w)
        else (case e of
                None \<Rightarrow> None
              | Some ev \<Rightarrow>
                  ogs_fsm_dispatch sem sm (q, w) (Some ev) \<bind>
                    (\<lambda>(sm, (q, w), _). main_drain sem sm q w)))"

text \<open>Handlers that leave the queue alone.\<close>

definition keeps_queue :: "('s, 'q \<times> 'w, 'e) handlers \<Rightarrow> bool" where
  "keeps_queue sem \<longleftrightarrow> (\<forall>s sm q w e sm' q' w' e'.
     sem s sm (q, w) e = Some (sm', (q', w'), e') \<longrightarrow> q' = q)"

lemma dispatch_keeps_queue:
  assumes "keeps_queue sem" "ogs_fsm_dispatch sem sm (q, w) (Some ev) = Some (sm', (q', w'), e')"
  shows "q' = q"
proof -
  have k: "sem s sm (q, w) e = Some (sm', (q', w'), e') \<Longrightarrow> q' = q" for s sm q w e sm' q' w' e'
    using assms(1) unfolding keeps_queue_def by blast
  have ex: "fsm_exit sem s sm (q, w) e = Some (sm', (q', w'), e') \<Longrightarrow> q' = q" for s sm q w e sm' q' w' e'
    by (auto simp: fsm_exit_def split: option.splits bind_splits dest: k)
  have en: "fsm_entry sem s sm (q, w) e = Some (sm', (q', w'), e') \<Longrightarrow> q' = q" for s sm q w e sm' q' w' e'
    by (auto simp: fsm_entry_def split: option.splits bind_splits dest: k)
  have ch: "fsm_change sem s n sm (q, w) e = Some (sm', (q', w'), e') \<Longrightarrow> q' = q" for s n sm q w e sm' q' w' e'
    by (auto simp: fsm_change_def split: bind_splits dest!: ex en)
  show ?thesis
    using assms(2) by (auto simp: ogs_fsm_dispatch_def split: bind_splits if_splits)
      (metis k ch, metis k)
qed

lemma main_drain_empty:
  assumes "queue_repr q []" "\<not> terminated q"
  shows "main_drain sem sm q w = Some (False, sm, q, w)"
  using assms by (subst main_drain.simps)
    (simp add: ogs_queue_trypop_def queue_pop_locked_def queue_repr_full_empty)

lemma main_drain_step:
  assumes "queue_repr q (e # es)" "\<not> terminated q"
  shows "\<exists>q'. queue_repr q' es \<and> \<not> terminated q'
    \<and> main_drain sem sm q w = ogs_fsm_dispatch sem sm (q', w) (Some e) \<bind>
                                (\<lambda>(sm, (q, w), _). main_drain sem sm q w)"
proof -
  obtain q' where q': "fetch q = (Some e, q')" "queue_repr q' es" "terminated q' = terminated q"
    using queue_repr_fetch [OF assms(1)] by blast
  have "ogs_queue_trypop q = (OGS_OK, Some e, q')"
    using assms q'(1) by (simp add: ogs_queue_trypop_def queue_pop_locked_def queue_repr_full_empty)
  then have "main_drain sem sm q w = ogs_fsm_dispatch sem sm (q', w) (Some e) \<bind>
                                (\<lambda>(sm, (q, w), _). main_drain sem sm q w)"
    by (subst main_drain.simps) simp
  then show ?thesis using q'(2,3) assms(2) by blast
qed

subsection \<open>Properties\<close>

text \<open>C36. With handlers that do not push to the queue and do not abort on the queued events, one
  round of the main loop ends with the queue empty, having dispatched exactly the queued events, in the
  order in which they were pushed.\<close>

theorem main_loop_drains_in_order:
  assumes "keeps_queue sem" "queue_repr q es" "\<not> terminated q"
    and "\<And>sm q w e. e \<in> set es \<Longrightarrow> state sm \<noteq> None \<Longrightarrow>
      \<exists>sm' q' w' e'. ogs_fsm_dispatch sem sm (q, w) (Some e) = Some (sm', (q', w'), e')
        \<and> (sm', w') = step e (sm, w) \<and> state sm' \<noteq> None"
    and "state sm \<noteq> None"
  shows "\<exists>q'. main_drain sem sm q w = Some (False, fst (fold step es (sm, w)), q', snd (fold step es (sm, w)))
    \<and> ogs_queue_size q' = 0"
  using assms(2-5)
proof (induction es arbitrary: q sm w)
  case Nil
  then show ?case
    using main_drain_empty [OF Nil(1,2), of sem sm w] by (auto simp: ogs_queue_size_def queue_repr_def)
next
  case (Cons e es)
  from main_drain_step [OF Cons.prems(1,2), of sem sm w]
  obtain q1 where q1: "queue_repr q1 es" "\<not> terminated q1"
    "main_drain sem sm q w = ogs_fsm_dispatch sem sm (q1, w) (Some e) \<bind>
       (\<lambda>(sm, (q, w), _). main_drain sem sm q w)"
    by (elim exE conjE)
  obtain sm' q' w' e' where d: "ogs_fsm_dispatch sem sm (q1, w) (Some e) = Some (sm', (q', w'), e')"
    "(sm', w') = step e (sm, w)" "state sm' \<noteq> None"
    using Cons.prems(3) [of e sm q1 w] Cons.prems(4) by auto
  have "q' = q1" using dispatch_keeps_queue [OF assms(1) d(1)] .
  moreover have "\<exists>q'. main_drain sem sm' q1 w' = Some (False, fst (fold step es (sm', w')), q',
      snd (fold step es (sm', w'))) \<and> ogs_queue_size q' = 0"
    using Cons.prems(3) d(3) by (intro Cons.IH [OF q1(1,2)]) auto
  ultimately show ?case using q1(3) d(1,2) by simp
qed

definition tick :: "(unit, int fsm_event ogs_queue \<times> int, int) handlers" where
  "tick s sm w e = Some (sm, (fst w, snd w + 1), e)"

theorem main_loop_drains_in_order_witness:
  "\<exists>q'. main_drain tick \<lparr>init = None, fini = None, state = Some ()\<rparr>
      (store (ogs_queue_create 2) \<lparr>ev_id = 5, ev_data = None\<rparr>) 0
    = Some (False, \<lparr>init = None, fini = None, state = Some ()\<rparr>, q', 1) \<and> ogs_queue_size q' = 0"
proof -
  let ?e = "\<lparr>ev_id = 5, ev_data = None\<rparr> :: int fsm_event"
  let ?sm = "\<lparr>init = None, fini = None, state = Some ()\<rparr>"
  have k: "keeps_queue tick" by (simp add: keeps_queue_def tick_def)
  have r: "queue_repr (store (ogs_queue_create 2) ?e) [?e]"
    using queue_repr_store [OF queue_repr_create [of 2], of ?e] by (simp add: ogs_queue_create_def)
  have t: "\<not> terminated (store (ogs_queue_create 2) ?e)" by (simp add: ogs_queue_create_def)
  have d: "ogs_fsm_dispatch tick sm (q, w) (Some e) = Some (sm, (q, w + 1), Some e)"
    if "state sm \<noteq> None" for sm q w e
    using that by (auto simp: ogs_fsm_dispatch_def tick_def)
  show ?thesis
    using main_loop_drains_in_order [OF k r t, of "\<lambda>e (sm, w). (sm, w + 1)" ?sm 0] d by simp
qed

end
