(* ===== verification/Ogs_Rbtree.thy ===== *)
theory Ogs_Rbtree
  imports Ogs_Prelude
begin

section \<open>The red-black tree (lib/core/ogs-rbtree.c)\<close>

text \<open>
  The intrusive red-black tree under the timers. A node is a struct with three pointers and a
  colour, embedded in the object it orders; the tree is a pointer to the root. The model keeps the
  nodes of all objects in a map from addresses and follows the pointer code statement by
  statement: following NULL and a failed \<open>ogs_assert\<close> give \<open>None\<close>, and so does a loop that does
  not return.

  The proofs relate this heap to a functional tree with a zipper. \<open>zip_at s t k\<close> says that the tree in
  memory is \<open>t\<close> plugged into the path \<open>k\<close> up to the root, all parent pointers included; the rotations
  and recolourings act on the focus \<open>t\<close>, and the loops, which climb the path, are shown to
  return with the invariants restored and with the order of the nodes as it was.
\<close>

subsection \<open>Nodes and trees (ogs-rbtree.h)\<close>

datatype ogs_rbtree_color = OGS_RBTREE_BLACK | OGS_RBTREE_RED

record 'a ogs_rbnode =
  rb_parent :: "'a option"
  rb_left :: "'a option"
  rb_right :: "'a option"
  rb_color :: ogs_rbtree_color

record 'a ogs_rbtree =
  nodes :: "'a \<Rightarrow> 'a ogs_rbnode"
  root :: "'a option"

definition set_parent :: "'a \<Rightarrow> 'a option \<Rightarrow> 'a ogs_rbtree \<Rightarrow> 'a ogs_rbtree" where
  "set_parent a p s = s\<lparr>nodes := (nodes s)(a := (nodes s a)\<lparr>rb_parent := p\<rparr>)\<rparr>"

definition set_left :: "'a \<Rightarrow> 'a option \<Rightarrow> 'a ogs_rbtree \<Rightarrow> 'a ogs_rbtree" where
  "set_left a p s = s\<lparr>nodes := (nodes s)(a := (nodes s a)\<lparr>rb_left := p\<rparr>)\<rparr>"

definition set_right :: "'a \<Rightarrow> 'a option \<Rightarrow> 'a ogs_rbtree \<Rightarrow> 'a ogs_rbtree" where
  "set_right a p s = s\<lparr>nodes := (nodes s)(a := (nodes s a)\<lparr>rb_right := p\<rparr>)\<rparr>"

definition set_color :: "'a \<Rightarrow> ogs_rbtree_color \<Rightarrow> 'a ogs_rbtree \<Rightarrow> 'a ogs_rbtree" where
  "set_color a c s = s\<lparr>nodes := (nodes s)(a := (nodes s a)\<lparr>rb_color := c\<rparr>)\<rparr>"

text \<open>The place a pointer to a child is stored in (\<open>rb_link\<close>): the root of the tree or a field of a node.\<close>

datatype 'a link = RootLink | LeftLink 'a | RightLink 'a

definition set_link :: "'a link \<Rightarrow> 'a option \<Rightarrow> 'a ogs_rbtree \<Rightarrow> 'a ogs_rbtree" where
  "set_link k p s = (case k of RootLink \<Rightarrow> s\<lparr>root := p\<rparr> | LeftLink a \<Rightarrow> set_left a p s | RightLink a \<Rightarrow> set_right a p s)"

definition get_link :: "'a link \<Rightarrow> 'a ogs_rbtree \<Rightarrow> 'a option" where
  "get_link k s = (case k of RootLink \<Rightarrow> root s | LeftLink a \<Rightarrow> rb_left (nodes s a) | RightLink a \<Rightarrow> rb_right (nodes s a))"

definition ogs_rbtree_link_node :: "'a \<Rightarrow> 'a option \<Rightarrow> 'a link \<Rightarrow> 'a ogs_rbtree \<Rightarrow> 'a ogs_rbtree" where
  "ogs_rbtree_link_node node parent rb_link s =
     (let s = set_parent node parent s;
          s = set_left node None (set_right node None s);
          s = set_color node OGS_RBTREE_RED s
      in set_link rb_link (Some node) s)"

partial_function (option) ogs_rbtree_min :: "'a ogs_rbtree \<Rightarrow> 'a \<Rightarrow> 'a option" where
  "ogs_rbtree_min s node =
     (case rb_left (nodes s node) of Some l \<Rightarrow> ogs_rbtree_min s l | None \<Rightarrow> Some node)"

partial_function (option) ogs_rbtree_max :: "'a ogs_rbtree \<Rightarrow> 'a \<Rightarrow> 'a option" where
  "ogs_rbtree_max s node =
     (case rb_right (nodes s node) of Some r \<Rightarrow> ogs_rbtree_max s r | None \<Rightarrow> Some node)"

definition ogs_rbtree_empty :: "'a ogs_rbtree \<Rightarrow> bool" where
  "ogs_rbtree_empty s \<longleftrightarrow> root s = None"

subsection \<open>Rotations (ogs-rbtree.c)\<close>

definition rb_change_child :: "'a option \<Rightarrow> 'a option \<Rightarrow> 'a option \<Rightarrow> 'a ogs_rbtree \<Rightarrow> 'a ogs_rbtree" where
  "rb_change_child old new parent s =
     (case parent of
        Some p \<Rightarrow> if old = rb_left (nodes s p) then set_left p new s else set_right p new s
      | None \<Rightarrow> s\<lparr>root := new\<rparr>)"

definition rb_replace_node :: "'a option \<Rightarrow> 'a option \<Rightarrow> 'a option \<Rightarrow> 'a ogs_rbtree \<Rightarrow> 'a ogs_rbtree" where
  "rb_replace_node old new parent s =
     (let s = rb_change_child old new parent s
      in case new of Some n \<Rightarrow> set_parent n parent s | None \<Rightarrow> s)"

definition rb_rotate_left :: "'a \<Rightarrow> 'a ogs_rbtree \<Rightarrow> 'a ogs_rbtree option" where
  "rb_rotate_left node s =
     do { right \<leftarrow> rb_right (nodes s node);
          let s = set_right node (rb_left (nodes s right)) s;
          let s = (case rb_left (nodes s right) of Some x \<Rightarrow> set_parent x (Some node) s | None \<Rightarrow> s);
          let s = rb_replace_node (Some node) (Some right) (rb_parent (nodes s node)) s;
          let s = set_left right (Some node) s;
          Some (set_parent node (Some right) s) }"

definition rb_rotate_right :: "'a \<Rightarrow> 'a ogs_rbtree \<Rightarrow> 'a ogs_rbtree option" where
  "rb_rotate_right node s =
     do { left \<leftarrow> rb_left (nodes s node);
          let s = set_left node (rb_right (nodes s left)) s;
          let s = (case rb_right (nodes s left) of Some x \<Rightarrow> set_parent x (Some node) s | None \<Rightarrow> s);
          let s = rb_replace_node (Some node) (Some left) (rb_parent (nodes s node)) s;
          let s = set_right left (Some node) s;
          Some (set_parent node (Some left) s) }"

subsection \<open>Insertion (ogs-rbtree.c)\<close>

definition rb_is_red :: "'a ogs_rbtree \<Rightarrow> 'a option \<Rightarrow> bool" where
  "rb_is_red s p = (case p of Some a \<Rightarrow> rb_color (nodes s a) = OGS_RBTREE_RED | None \<Rightarrow> False)"

text \<open>One iteration of the loop, with the node, its parent and its grandparent; the result is the next node.\<close>

definition insert_color_left :: "'a \<Rightarrow> 'a \<Rightarrow> 'a \<Rightarrow> 'a ogs_rbtree \<Rightarrow> ('a \<times> 'a ogs_rbtree) option" where
  "insert_color_left node parent gparent s =
     (let uncle = rb_right (nodes s gparent) in
      if rb_is_red s uncle then
        do { u \<leftarrow> uncle;
             let s = set_color u OGS_RBTREE_BLACK s;
             let s = set_color parent OGS_RBTREE_BLACK s;
             let s = set_color gparent OGS_RBTREE_RED s;
             Some (gparent, s) }
      else
        do { (node, s) \<leftarrow> (if Some node = rb_right (nodes s parent)
               then do { node \<leftarrow> rb_parent (nodes s node); s \<leftarrow> rb_rotate_left node s; Some (node, s) }
               else Some (node, s));
             p \<leftarrow> rb_parent (nodes s node);
             let s = set_color p OGS_RBTREE_BLACK s;
             let s = set_color gparent OGS_RBTREE_RED s;
             s \<leftarrow> rb_rotate_right gparent s;
             Some (node, s) })"

definition insert_color_right :: "'a \<Rightarrow> 'a \<Rightarrow> 'a \<Rightarrow> 'a ogs_rbtree \<Rightarrow> ('a \<times> 'a ogs_rbtree) option" where
  "insert_color_right node parent gparent s =
     (let uncle = rb_left (nodes s gparent) in
      if rb_is_red s uncle then
        do { u \<leftarrow> uncle;
             let s = set_color u OGS_RBTREE_BLACK s;
             let s = set_color parent OGS_RBTREE_BLACK s;
             let s = set_color gparent OGS_RBTREE_RED s;
             Some (gparent, s) }
      else
        do { (node, s) \<leftarrow> (if Some node = rb_left (nodes s parent)
               then do { node \<leftarrow> rb_parent (nodes s node); s \<leftarrow> rb_rotate_right node s; Some (node, s) }
               else Some (node, s));
             p \<leftarrow> rb_parent (nodes s node);
             let s = set_color p OGS_RBTREE_BLACK s;
             let s = set_color gparent OGS_RBTREE_RED s;
             s \<leftarrow> rb_rotate_left gparent s;
             Some (node, s) })"

partial_function (option) insert_color_loop :: "'a \<Rightarrow> 'a ogs_rbtree \<Rightarrow> 'a ogs_rbtree option" where
  "insert_color_loop node s =
     (case rb_parent (nodes s node) of
        None \<Rightarrow> Some s
      | Some parent \<Rightarrow>
          if rb_color (nodes s parent) \<noteq> OGS_RBTREE_RED then Some s
          else do { gparent \<leftarrow> rb_parent (nodes s parent);
                    (node, s) \<leftarrow> (if Some parent = rb_left (nodes s gparent)
                      then insert_color_left node parent gparent s
                      else insert_color_right node parent gparent s);
                    insert_color_loop node s })"

definition ogs_rbtree_insert_color :: "'a \<Rightarrow> 'a ogs_rbtree \<Rightarrow> 'a ogs_rbtree option" where
  "ogs_rbtree_insert_color node s =
     do { s \<leftarrow> insert_color_loop node s;
          r \<leftarrow> root s;
          Some (set_color r OGS_RBTREE_BLACK s) }"

subsection \<open>Deletion (ogs-rbtree.c)\<close>

definition rb_is_black :: "'a ogs_rbtree \<Rightarrow> 'a option \<Rightarrow> bool" where
  "rb_is_black s p = (case p of Some a \<Rightarrow> rb_color (nodes s a) = OGS_RBTREE_BLACK | None \<Rightarrow> True)"

text \<open>
  One iteration for a node that is the left or the right child of \<open>parent\<close>, by the cases the code names; the
  result is the next node and its parent.
\<close>

definition delete_case1_left :: "'a \<Rightarrow> 'a ogs_rbtree \<Rightarrow> ('a \<times> 'a ogs_rbtree) option" where
  "delete_case1_left parent s =
     do { sibling \<leftarrow> rb_right (nodes s parent);
          if rb_color (nodes s sibling) = OGS_RBTREE_RED then
            do { let s = set_color sibling OGS_RBTREE_BLACK s;
                 let s = set_color parent OGS_RBTREE_RED s;
                 s \<leftarrow> rb_rotate_left parent s;
                 sibling \<leftarrow> rb_right (nodes s parent);
                 Some (sibling, s) }
          else Some (sibling, s) }"

definition delete_case3_left :: "'a \<Rightarrow> 'a \<Rightarrow> 'a ogs_rbtree \<Rightarrow> ('a \<times> 'a ogs_rbtree) option" where
  "delete_case3_left parent sibling s =
     (if rb_is_black s (rb_right (nodes s sibling)) then
        do { n \<leftarrow> rb_left (nodes s sibling);
             let s = set_color n OGS_RBTREE_BLACK s;
             let s = set_color sibling OGS_RBTREE_RED s;
             s \<leftarrow> rb_rotate_right sibling s;
             sibling \<leftarrow> rb_right (nodes s parent);
             Some (sibling, s) }
      else Some (sibling, s))"

definition delete_case4_left :: "'a \<Rightarrow> 'a \<Rightarrow> 'a ogs_rbtree \<Rightarrow> ('a option \<times> 'a option \<times> 'a ogs_rbtree) option" where
  "delete_case4_left parent sibling s =
     do { let s = set_color sibling (rb_color (nodes s parent)) s;
          let s = set_color parent OGS_RBTREE_BLACK s;
          n \<leftarrow> rb_right (nodes s sibling);
          let s = set_color n OGS_RBTREE_BLACK s;
          s \<leftarrow> rb_rotate_left parent s;
          Some (root s, Some parent, s) }"

definition delete_color_left :: "'a \<Rightarrow> 'a ogs_rbtree \<Rightarrow> ('a option \<times> 'a option \<times> 'a ogs_rbtree) option" where
  "delete_color_left parent s =
     do { (sibling, s) \<leftarrow> delete_case1_left parent s;
          if rb_is_black s (rb_left (nodes s sibling)) \<and> rb_is_black s (rb_right (nodes s sibling)) then
            (let s = set_color sibling OGS_RBTREE_RED s in Some (Some parent, rb_parent (nodes s parent), s))
          else
            do { (sibling, s) \<leftarrow> delete_case3_left parent sibling s;
                 delete_case4_left parent sibling s } }"

definition delete_case1_right :: "'a \<Rightarrow> 'a ogs_rbtree \<Rightarrow> ('a \<times> 'a ogs_rbtree) option" where
  "delete_case1_right parent s =
     do { sibling \<leftarrow> rb_left (nodes s parent);
          if rb_color (nodes s sibling) = OGS_RBTREE_RED then
            do { let s = set_color sibling OGS_RBTREE_BLACK s;
                 let s = set_color parent OGS_RBTREE_RED s;
                 s \<leftarrow> rb_rotate_right parent s;
                 sibling \<leftarrow> rb_left (nodes s parent);
                 Some (sibling, s) }
          else Some (sibling, s) }"

definition delete_case3_right :: "'a \<Rightarrow> 'a \<Rightarrow> 'a ogs_rbtree \<Rightarrow> ('a \<times> 'a ogs_rbtree) option" where
  "delete_case3_right parent sibling s =
     (if rb_is_black s (rb_left (nodes s sibling)) then
        do { n \<leftarrow> rb_right (nodes s sibling);
             let s = set_color n OGS_RBTREE_BLACK s;
             let s = set_color sibling OGS_RBTREE_RED s;
             s \<leftarrow> rb_rotate_left sibling s;
             sibling \<leftarrow> rb_left (nodes s parent);
             Some (sibling, s) }
      else Some (sibling, s))"

definition delete_case4_right :: "'a \<Rightarrow> 'a \<Rightarrow> 'a ogs_rbtree \<Rightarrow> ('a option \<times> 'a option \<times> 'a ogs_rbtree) option" where
  "delete_case4_right parent sibling s =
     do { let s = set_color sibling (rb_color (nodes s parent)) s;
          let s = set_color parent OGS_RBTREE_BLACK s;
          n \<leftarrow> rb_left (nodes s sibling);
          let s = set_color n OGS_RBTREE_BLACK s;
          s \<leftarrow> rb_rotate_right parent s;
          Some (root s, Some parent, s) }"

definition delete_color_right :: "'a \<Rightarrow> 'a ogs_rbtree \<Rightarrow> ('a option \<times> 'a option \<times> 'a ogs_rbtree) option" where
  "delete_color_right parent s =
     do { (sibling, s) \<leftarrow> delete_case1_right parent s;
          if rb_is_black s (rb_left (nodes s sibling)) \<and> rb_is_black s (rb_right (nodes s sibling)) then
            (let s = set_color sibling OGS_RBTREE_RED s in Some (Some parent, rb_parent (nodes s parent), s))
          else
            do { (sibling, s) \<leftarrow> delete_case3_right parent sibling s;
                 delete_case4_right parent sibling s } }"

partial_function (option) delete_color_loop :: "'a option \<Rightarrow> 'a option \<Rightarrow> 'a ogs_rbtree \<Rightarrow> ('a option \<times> 'a ogs_rbtree) option" where
  "delete_color_loop node parent s =
     (if node \<noteq> root s \<and> rb_is_black s node then
        do { p \<leftarrow> parent;
             (node, parent, s) \<leftarrow> (if node = rb_left (nodes s p) then delete_color_left p s else delete_color_right p s);
             delete_color_loop node parent s }
      else Some (node, s))"

definition rb_delete_color :: "'a option \<Rightarrow> 'a option \<Rightarrow> 'a ogs_rbtree \<Rightarrow> 'a ogs_rbtree option" where
  "rb_delete_color node parent s =
     do { (node, s) \<leftarrow> delete_color_loop node parent s;
          Some (case node of Some a \<Rightarrow> set_color a OGS_RBTREE_BLACK s | None \<Rightarrow> s) }"

text \<open>The unlinking of a node: the child that takes its place, the parent of that child, and the colour that is taken out.\<close>

definition rb_unlink :: "'a \<Rightarrow> 'a ogs_rbtree \<Rightarrow> ('a option \<times> 'a option \<times> ogs_rbtree_color \<times> 'a ogs_rbtree) option" where
  "rb_unlink node s =
     (case rb_left (nodes s node) of
        None \<Rightarrow>
          let child = rb_right (nodes s node); parent = rb_parent (nodes s node) in
          Some (child, parent, rb_color (nodes s node), rb_replace_node (Some node) child parent s)
      | Some left \<Rightarrow>
          (case rb_right (nodes s node) of
             None \<Rightarrow>
               let child = Some left; parent = rb_parent (nodes s node) in
               Some (child, parent, rb_color (nodes s node), rb_replace_node (Some node) child parent s)
           | Some right \<Rightarrow>
               do { new \<leftarrow> ogs_rbtree_min s right;
                    let child = rb_right (nodes s new);
                    let parent = rb_parent (nodes s new);
                    let color = rb_color (nodes s new);
                    let s = set_left new (rb_left (nodes s node)) s;
                    l \<leftarrow> rb_left (nodes s node);
                    let s = set_parent l (Some new) s;
                    (parent, s) \<leftarrow> (if parent = Some node then Some (Some new, s)
                      else do { let s = (case child of Some c \<Rightarrow> set_parent c parent s | None \<Rightarrow> s);
                                p \<leftarrow> parent;
                                let s = set_left p child s;
                                let s = set_right new (rb_right (nodes s node)) s;
                                r \<leftarrow> rb_right (nodes s node);
                                Some (parent, set_parent r (Some new) s) });
                    let s = set_color new (rb_color (nodes s node)) s;
                    let s = rb_replace_node (Some node) (Some new) (rb_parent (nodes s node)) s;
                    Some (child, parent, color, s) }))"

definition ogs_rbtree_delete :: "'a \<Rightarrow> 'a ogs_rbtree \<Rightarrow> 'a ogs_rbtree option" where
  "ogs_rbtree_delete node s =
     do { (child, parent, color, s) \<leftarrow> rb_unlink node s;
          if color = OGS_RBTREE_BLACK then rb_delete_color child parent s else Some s }"

subsection \<open>Traversal (ogs-rbtree.c)\<close>

definition ogs_rbtree_first :: "'a ogs_rbtree \<Rightarrow> 'a option option" where
  "ogs_rbtree_first s =
     (case root s of None \<Rightarrow> Some None | Some node \<Rightarrow> map_option Some (ogs_rbtree_min s node))"

definition ogs_rbtree_last :: "'a ogs_rbtree \<Rightarrow> 'a option option" where
  "ogs_rbtree_last s =
     (case root s of None \<Rightarrow> Some None | Some node \<Rightarrow> map_option Some (ogs_rbtree_max s node))"

partial_function (option) climb_right :: "'a ogs_rbtree \<Rightarrow> 'a \<Rightarrow> 'a option option" where
  "climb_right s node =
     (case rb_parent (nodes s node) of
        None \<Rightarrow> Some None
      | Some p \<Rightarrow> if Some node = rb_right (nodes s p) then climb_right s p else Some (Some p))"

partial_function (option) climb_left :: "'a ogs_rbtree \<Rightarrow> 'a \<Rightarrow> 'a option option" where
  "climb_left s node =
     (case rb_parent (nodes s node) of
        None \<Rightarrow> Some None
      | Some p \<Rightarrow> if Some node = rb_left (nodes s p) then climb_left s p else Some (Some p))"

definition rb_empty_node :: "'a ogs_rbtree \<Rightarrow> 'a \<Rightarrow> bool" where
  "rb_empty_node s node \<longleftrightarrow> rb_parent (nodes s node) = Some node"

definition ogs_rbtree_next :: "'a ogs_rbtree \<Rightarrow> 'a \<Rightarrow> 'a option option" where
  "ogs_rbtree_next s node =
     (if rb_empty_node s node then Some None
      else case rb_right (nodes s node) of
             Some r \<Rightarrow> map_option Some (ogs_rbtree_min s r)
           | None \<Rightarrow> climb_right s node)"

definition ogs_rbtree_prev :: "'a ogs_rbtree \<Rightarrow> 'a \<Rightarrow> 'a option option" where
  "ogs_rbtree_prev s node =
     (if rb_empty_node s node then Some None
      else case rb_left (nodes s node) of
             Some l \<Rightarrow> map_option Some (ogs_rbtree_max s l)
           | None \<Rightarrow> climb_left s node)"

text \<open>\<open>ogs_rbtree_for_each\<close> with a body that counts.\<close>

partial_function (option) rb_count_from :: "'a ogs_rbtree \<Rightarrow> 'a option \<Rightarrow> int \<Rightarrow> int option" where
  "rb_count_from s node i =
     (case node of
        None \<Rightarrow> Some i
      | Some a \<Rightarrow> do { n \<leftarrow> ogs_rbtree_next s a; rb_count_from s n (i + 1) })"

definition ogs_rbtree_count :: "'a ogs_rbtree \<Rightarrow> int option" where
  "ogs_rbtree_count s = do { node \<leftarrow> ogs_rbtree_first s; rb_count_from s node 0 }"

subsection \<open>Trees, paths and what is in memory\<close>

datatype 'a rbt = E | T ogs_rbtree_color "'a rbt" 'a "'a rbt"

text \<open>A step of a path: the hole is the left or the right child of a node, and the other child is given.\<close>

datatype 'a frame = InL ogs_rbtree_color 'a "'a rbt" | InR ogs_rbtree_color "'a rbt" 'a

fun elems :: "'a rbt \<Rightarrow> 'a list" where
  "elems E = []"
| "elems (T c l a r) = elems l @ a # elems r"

fun ptr :: "'a rbt \<Rightarrow> 'a option" where
  "ptr E = None"
| "ptr (T c l a r) = Some a"

fun frame_node :: "'a frame \<Rightarrow> 'a" where
  "frame_node (InL c a r) = a"
| "frame_node (InR c l a) = a"

fun above :: "'a frame list \<Rightarrow> 'a option" where
  "above [] = None"
| "above (f # k) = Some (frame_node f)"

fun base :: "'a option \<Rightarrow> 'a frame list \<Rightarrow> 'a option" where
  "base p [] = p"
| "base p (f # k) = base (Some (frame_node f)) k"

fun plug :: "'a rbt \<Rightarrow> 'a frame list \<Rightarrow> 'a rbt" where
  "plug t [] = t"
| "plug t (InL c a r # k) = plug (T c t a r) k"
| "plug t (InR c l a # k) = plug (T c l a t) k"

fun lefts :: "'a frame list \<Rightarrow> 'a list" where
  "lefts [] = []"
| "lefts (InL c a r # k) = lefts k"
| "lefts (InR c l a # k) = lefts k @ elems l @ [a]"

fun rights :: "'a frame list \<Rightarrow> 'a list" where
  "rights [] = []"
| "rights (InL c a r # k) = a # elems r @ rights k"
| "rights (InR c l a # k) = rights k"

fun tree_at :: "('a \<Rightarrow> 'a ogs_rbnode) \<Rightarrow> 'a option \<Rightarrow> 'a rbt \<Rightarrow> bool" where
  "tree_at h p E \<longleftrightarrow> True"
| "tree_at h p (T c l a r) \<longleftrightarrow> rb_parent (h a) = p \<and> rb_left (h a) = ptr l \<and> rb_right (h a) = ptr r \<and> rb_color (h a) = c
     \<and> tree_at h (Some a) l \<and> tree_at h (Some a) r"

fun path_at :: "('a \<Rightarrow> 'a ogs_rbnode) \<Rightarrow> 'a option \<Rightarrow> 'a frame list \<Rightarrow> bool" where
  "path_at h p [] \<longleftrightarrow> True"
| "path_at h p (InL c a r # k) \<longleftrightarrow> rb_parent (h a) = above k \<and> rb_left (h a) = p \<and> rb_right (h a) = ptr r \<and> rb_color (h a) = c
     \<and> tree_at h (Some a) r \<and> path_at h (Some a) k"
| "path_at h p (InR c l a # k) \<longleftrightarrow> rb_parent (h a) = above k \<and> rb_left (h a) = ptr l \<and> rb_right (h a) = p \<and> rb_color (h a) = c
     \<and> tree_at h (Some a) l \<and> path_at h (Some a) k"

definition zip_at :: "'a ogs_rbtree \<Rightarrow> 'a rbt \<Rightarrow> 'a frame list \<Rightarrow> bool" where
  "zip_at s t k \<longleftrightarrow> tree_at (nodes s) (above k) t \<and> path_at (nodes s) (ptr t) k \<and> root s = base (ptr t) k
     \<and> distinct (lefts k @ elems t @ rights k)"

lemma elems_plug [simp]: "elems (plug t k) = lefts k @ elems t @ rights k"
  by (induction t k rule: plug.induct) simp_all

lemma ptr_in: "ptr t = Some a \<Longrightarrow> a \<in> set (elems t)"
  by (cases t) auto

lemma ptr_None [simp]: "ptr t = None \<longleftrightarrow> t = E" "None = ptr t \<longleftrightarrow> t = E"
  by (cases t; auto)+

lemma tree_at_upd [simp]: "x \<notin> set (elems t) \<Longrightarrow> tree_at (h(x := v)) p t = tree_at h p t"
  by (induction t arbitrary: p) auto

lemma path_at_upd [simp]:
  "x \<notin> set (lefts k) \<Longrightarrow> x \<notin> set (rights k) \<Longrightarrow> path_at (h(x := v)) p k = path_at h p k"
  by (induction h p k rule: path_at.induct) auto

lemma zip_up [simp]:
  "zip_at s t (InL c a r # k) \<longleftrightarrow> zip_at s (T c t a r) k"
  "zip_at s t (InR c l a # k) \<longleftrightarrow> zip_at s (T c l a t) k"
  by (auto simp: zip_at_def)

lemma zip_plug: "zip_at s t k \<longleftrightarrow> zip_at s (plug t k) []"
  by (induction t k rule: plug.induct) simp_all

lemma zip_distinct: "zip_at s t k \<Longrightarrow> distinct (lefts k @ elems t @ rights k)"
  by (simp add: zip_at_def)

lemma above_in: "above k = Some p \<Longrightarrow> p \<in> set (lefts k) \<union> set (rights k)"
  by (cases k rule: lefts.cases) auto

text \<open>Every node of a tree is the focus of a zipper.\<close>

lemma zip_exists:
  assumes "a \<in> set (elems t)"
  obtains c l r k where "t = plug (T c l a r) k"
  using assms
proof (induction t arbitrary: thesis)
  case (T c l b r)
  have app: "plug u (k @ k') = plug (plug u k) k'" for u :: "'a rbt" and k k'
    by (induction u k rule: plug.induct) simp_all
  from T.prems(2) consider "a \<in> set (elems l)" | "a = b" | "a \<in> set (elems r)" by auto
  then show ?case
  proof cases
    case 1
    then obtain c' l' r' k where "l = plug (T c' l' a r') k" using T.IH(1) by blast
    then show ?thesis using T.prems(1) [of c' l' r' "k @ [InL c b r]"] by (simp add: app)
  next
    case 2 then show ?thesis using T.prems(1) [of c l r "[]"] by simp
  next
    case 3
    then obtain c' l' r' k where "r = plug (T c' l' a r') k" using T.IH(2) by blast
    then show ?thesis using T.prems(1) [of c' l' r' "k @ [InR c l b]"] by (simp add: app)
  qed
qed simp

text \<open>Reading after writing, and what a write leaves alone.\<close>

lemmas rb_set_defs = set_parent_def set_left_def set_right_def set_color_def

lemma rb_read [simp]:
  "rb_parent (nodes (set_parent a p s) x) = (if x = a then p else rb_parent (nodes s x))"
  "rb_parent (nodes (set_left a p s) x) = rb_parent (nodes s x)"
  "rb_parent (nodes (set_right a p s) x) = rb_parent (nodes s x)"
  "rb_parent (nodes (set_color a c s) x) = rb_parent (nodes s x)"
  "rb_left (nodes (set_left a p s) x) = (if x = a then p else rb_left (nodes s x))"
  "rb_left (nodes (set_parent a p s) x) = rb_left (nodes s x)"
  "rb_left (nodes (set_right a p s) x) = rb_left (nodes s x)"
  "rb_left (nodes (set_color a c s) x) = rb_left (nodes s x)"
  "rb_right (nodes (set_right a p s) x) = (if x = a then p else rb_right (nodes s x))"
  "rb_right (nodes (set_parent a p s) x) = rb_right (nodes s x)"
  "rb_right (nodes (set_left a p s) x) = rb_right (nodes s x)"
  "rb_right (nodes (set_color a c s) x) = rb_right (nodes s x)"
  "rb_color (nodes (set_color a c s) x) = (if x = a then c else rb_color (nodes s x))"
  "rb_color (nodes (set_parent a p s) x) = rb_color (nodes s x)"
  "rb_color (nodes (set_left a p s) x) = rb_color (nodes s x)"
  "rb_color (nodes (set_right a p s) x) = rb_color (nodes s x)"
  "root (set_parent a p s) = root s" "root (set_left a p s) = root s"
  "root (set_right a p s) = root s" "root (set_color a c s) = root s"
  by (simp_all add: rb_set_defs)

lemma rb_tree_frame [simp]:
  assumes "x \<notin> set (elems t)"
  shows "tree_at (nodes (set_parent x p s)) q t = tree_at (nodes s) q t"
    "tree_at (nodes (set_left x p s)) q t = tree_at (nodes s) q t"
    "tree_at (nodes (set_right x p s)) q t = tree_at (nodes s) q t"
    "tree_at (nodes (set_color x c s)) q t = tree_at (nodes s) q t"
  using assms by (simp_all add: rb_set_defs)

lemma rb_path_frame [simp]:
  assumes "x \<notin> set (lefts k)" "x \<notin> set (rights k)"
  shows "path_at (nodes (set_parent x p s)) q k = path_at (nodes s) q k"
    "path_at (nodes (set_left x p s)) q k = path_at (nodes s) q k"
    "path_at (nodes (set_right x p s)) q k = path_at (nodes s) q k"
    "path_at (nodes (set_color x c s)) q k = path_at (nodes s) q k"
  using assms by (simp_all add: rb_set_defs)

lemma ptr_neq [simp]:
  "a \<notin> set (elems t) \<Longrightarrow> ptr t \<noteq> Some a" "a \<notin> set (elems t) \<Longrightarrow> Some a \<noteq> ptr t"
  by (auto dest!: ptr_in [OF sym] ptr_in)

text \<open>A node of the tree leaves its place to the subtree \<open>u\<close>; nothing else changes.\<close>

lemma replace_focus:
  fixes p :: "'a option"
  assumes "path_at (nodes s) (Some a) k" "root s = base (Some a) k" "a \<notin> set (lefts k)" "a \<notin> set (rights k)"
    and "distinct (lefts k @ rights k)"
  defines "s' \<equiv> rb_change_child (Some a) p (above k) s"
  shows "path_at (nodes s') p k" "root s' = base p k"
    "x \<notin> set (lefts k) \<Longrightarrow> x \<notin> set (rights k) \<Longrightarrow> nodes s' x = nodes s x"
    "set (elems u) \<inter> (set (lefts k) \<union> set (rights k)) = {} \<Longrightarrow> tree_at (nodes s') q u = tree_at (nodes s) q u"
  using assms by (cases k rule: lefts.cases; simp add: rb_change_child_def; force simp: rb_set_defs)+

lemma rotate_left_at:
  assumes "zip_at s (T c l a (T d m b r)) k"
  shows "\<exists>s'. rb_rotate_left a s = Some s' \<and> zip_at s' (T d (T c l a m) b r) k"
proof -
  let ?s1 = "case ptr m of Some x \<Rightarrow> set_parent x (Some a) (set_right a (ptr m) s) | None \<Rightarrow> set_right a (ptr m) s"
  let ?s2 = "rb_change_child (Some a) (Some b) (above k) ?s1"
  have 1: "path_at (nodes ?s1) (Some a) k" "root ?s1 = base (Some a) k" "tree_at (nodes ?s1) (Some a) m"
    "tree_at (nodes ?s1) (Some a) l" "tree_at (nodes ?s1) (Some b) r" "rb_parent (nodes ?s1 a) = above k"
    "rb_left (nodes ?s1 a) = ptr l" "rb_right (nodes ?s1 a) = ptr m" "rb_color (nodes ?s1 a) = c"
    "rb_left (nodes ?s1 b) = ptr m" "rb_right (nodes ?s1 b) = ptr r" "rb_color (nodes ?s1 b) = d"
    using assms by (cases m; auto simp: zip_at_def)+
  have d: "a \<notin> set (lefts k)" "a \<notin> set (rights k)" "distinct (lefts k @ rights k)"
    "set (elems l) \<inter> (set (lefts k) \<union> set (rights k)) = {}" "set (elems m) \<inter> (set (lefts k) \<union> set (rights k)) = {}"
    "set (elems r) \<inter> (set (lefts k) \<union> set (rights k)) = {}" "b \<notin> set (lefts k)" "b \<notin> set (rights k)"  "a \<noteq> b" "b \<noteq> a"
    using assms by (auto simp: zip_at_def)
  note 2 = replace_focus [OF 1(1,2) d(1-3), where p = "Some b"]
  note 3 = 2(1,2) 2(3) [OF d(1,2)] 2(3) [OF d(7,8)] 2(4) [OF d(4)] 2(4) [OF d(5)] 2(4) [OF d(6)]
  have "rb_rotate_left a s = Some (set_parent a (Some b) (set_left b (Some a) (set_parent b (above k) ?s2)))"
    using assms 1(6,10) by (cases m) (simp_all add: rb_rotate_left_def zip_at_def rb_replace_node_def Let_def)
  moreover have "zip_at (set_parent a (Some b) (set_left b (Some a) (set_parent b (above k) ?s2))) (T d (T c l a m) b r) k"
    using assms 1 d(9,10) by (simp add: zip_at_def 3)
  ultimately show ?thesis by blast
qed

lemma rotate_right_at:
  assumes "zip_at s (T d (T c l a m) b r) k"
  shows "\<exists>s'. rb_rotate_right b s = Some s' \<and> zip_at s' (T c l a (T d m b r)) k"
proof -
  let ?s1 = "case ptr m of Some x \<Rightarrow> set_parent x (Some b) (set_left b (ptr m) s) | None \<Rightarrow> set_left b (ptr m) s"
  let ?s2 = "rb_change_child (Some b) (Some a) (above k) ?s1"
  have 1: "path_at (nodes ?s1) (Some b) k" "root ?s1 = base (Some b) k" "tree_at (nodes ?s1) (Some b) m"
    "tree_at (nodes ?s1) (Some a) l" "tree_at (nodes ?s1) (Some b) r" "rb_parent (nodes ?s1 b) = above k"
    "rb_left (nodes ?s1 b) = ptr m" "rb_right (nodes ?s1 b) = ptr r" "rb_color (nodes ?s1 b) = d"
    "rb_right (nodes ?s1 a) = ptr m" "rb_left (nodes ?s1 a) = ptr l" "rb_color (nodes ?s1 a) = c"
    using assms by (cases m; auto simp: zip_at_def)+
  have d: "b \<notin> set (lefts k)" "b \<notin> set (rights k)" "distinct (lefts k @ rights k)"
    "set (elems l) \<inter> (set (lefts k) \<union> set (rights k)) = {}" "set (elems m) \<inter> (set (lefts k) \<union> set (rights k)) = {}"
    "set (elems r) \<inter> (set (lefts k) \<union> set (rights k)) = {}" "a \<notin> set (lefts k)" "a \<notin> set (rights k)"  "a \<noteq> b" "b \<noteq> a"
    using assms by (auto simp: zip_at_def)
  note 2 = replace_focus [OF 1(1,2) d(1-3), where p = "Some a"]
  note 3 = 2(1,2) 2(3) [OF d(1,2)] 2(3) [OF d(7,8)] 2(4) [OF d(4)] 2(4) [OF d(5)] 2(4) [OF d(6)]
  have "rb_rotate_right b s = Some (set_parent b (Some a) (set_right a (Some b) (set_parent a (above k) ?s2)))"
    using assms 1(6,10) by (cases m) (simp_all add: rb_rotate_right_def zip_at_def rb_replace_node_def Let_def)
  moreover have "zip_at (set_parent b (Some a) (set_right a (Some b) (set_parent a (above k) ?s2))) (T c l a (T d m b r)) k"
    using assms 1 d(9,10) by (simp add: zip_at_def 3)
  ultimately show ?thesis by blast
qed

lemma recolor_at: "zip_at s (T c l a r) k \<Longrightarrow> zip_at (set_color a d s) (T d l a r) k"
  by (auto simp: zip_at_def)

lemma recolor_left: "zip_at s (T c (T e ll b lr) a r) k \<Longrightarrow> zip_at (set_color b d s) (T c (T d ll b lr) a r) k"
  using recolor_at [of s e ll b lr "InL c a r # k"] by simp

lemma recolor_right: "zip_at s (T c l a (T e rl b rr)) k \<Longrightarrow> zip_at (set_color b d s) (T c l a (T d rl b rr)) k"
  using recolor_at [of s e rl b rr "InR c l a # k"] by simp

subsection \<open>Colours and black heights\<close>

abbreviation "BLACK \<equiv> OGS_RBTREE_BLACK"
abbreviation "RED \<equiv> OGS_RBTREE_RED"

fun col :: "'a rbt \<Rightarrow> ogs_rbtree_color" where
  "col E = BLACK"
| "col (T c l a r) = c"

fun bh :: "'a rbt \<Rightarrow> nat" where
  "bh E = 0"
| "bh (T c l a r) = bh l + (if c = BLACK then 1 else 0)"

fun invh :: "'a rbt \<Rightarrow> bool" where
  "invh E \<longleftrightarrow> True"
| "invh (T c l a r) \<longleftrightarrow> bh l = bh r \<and> invh l \<and> invh r"

fun invc :: "'a rbt \<Rightarrow> bool" where
  "invc E \<longleftrightarrow> True"
| "invc (T c l a r) \<longleftrightarrow> (c = RED \<longrightarrow> col l = BLACK \<and> col r = BLACK) \<and> invc l \<and> invc r"

definition rb_inv :: "'a rbt \<Rightarrow> bool" where
  "rb_inv t \<longleftrightarrow> invc t \<and> invh t \<and> col t = BLACK"

text \<open>What a path asks of the subtree in its hole.\<close>

fun hfits :: "nat \<Rightarrow> 'a frame list \<Rightarrow> bool" where
  "hfits n [] \<longleftrightarrow> True"
| "hfits n (InL c a r # k) \<longleftrightarrow> bh r = n \<and> invh r \<and> hfits (n + (if c = BLACK then 1 else 0)) k"
| "hfits n (InR c l a # k) \<longleftrightarrow> bh l = n \<and> invh l \<and> hfits (n + (if c = BLACK then 1 else 0)) k"

fun cfits :: "ogs_rbtree_color \<Rightarrow> 'a frame list \<Rightarrow> bool" where
  "cfits d [] \<longleftrightarrow> True"
| "cfits d (InL c a r # k) \<longleftrightarrow> (c = RED \<longrightarrow> d = BLACK \<and> col r = BLACK) \<and> invc r \<and> cfits c k"
| "cfits d (InR c l a # k) \<longleftrightarrow> (c = RED \<longrightarrow> d = BLACK \<and> col l = BLACK) \<and> invc l \<and> cfits c k"

fun root_col :: "ogs_rbtree_color \<Rightarrow> 'a frame list \<Rightarrow> ogs_rbtree_color" where
  "root_col d [] = d"
| "root_col d (InL c a r # k) = root_col c k"
| "root_col d (InR c l a # k) = root_col c k"

lemma not_red [simp]: "c \<noteq> RED \<longleftrightarrow> c = BLACK" "c \<noteq> BLACK \<longleftrightarrow> c = RED"
  by (cases c; simp)+

lemma plug_inv:
  "invh (plug t k) \<longleftrightarrow> invh t \<and> hfits (bh t) k"
  "invc (plug t k) \<longleftrightarrow> invc t \<and> cfits (col t) k"
  "col (plug t k) = root_col (col t) k"
  by (induction t k rule: plug.induct) auto

lemma root_col_above: "k \<noteq> [] \<Longrightarrow> root_col RED k = root_col BLACK k"
  by (cases k rule: lefts.cases) auto

lemma root_col_black: "root_col c k = BLACK \<Longrightarrow> root_col BLACK k = BLACK"
  by (cases k rule: lefts.cases) auto

lemma cfits_black: "cfits d k \<Longrightarrow> cfits BLACK k"
  by (cases k rule: lefts.cases) auto

text \<open>The colour test on a child pointer.\<close>

lemma tree_red: "tree_at (nodes s) p t \<Longrightarrow> rb_is_red s (ptr t) \<longleftrightarrow> col t = RED"
  and tree_black: "tree_at (nodes s) p t \<Longrightarrow> rb_is_black s (ptr t) \<longleftrightarrow> col t = BLACK"
  by (cases t; simp add: rb_is_red_def rb_is_black_def)+

text \<open>The fields of the focus and of its children.\<close>

lemma zip_read:
  assumes "zip_at s (T c l a r) k"
  shows "rb_parent (nodes s a) = above k" "rb_left (nodes s a) = ptr l" "rb_right (nodes s a) = ptr r"
    "rb_color (nodes s a) = c" "tree_at (nodes s) (Some a) l" "tree_at (nodes s) (Some a) r"
    "a \<notin> set (elems l)" "a \<notin> set (elems r)" "root s = base (Some a) k"
  using assms by (auto simp: zip_at_def)

subsection \<open>Insertion restores the invariants\<close>

lemma insert_left_flip:
  assumes "zip_at s (T BLACK (T RED l p r) g (T RED ul u ur)) k"
  shows "\<exists>s'. insert_color_left node p g s = Some (g, s') \<and> zip_at s' (T RED (T BLACK l p r) g (T BLACK ul u ur)) k"
proof -
  have "rb_is_red s (rb_right (nodes s g))" "rb_right (nodes s g) = Some u"
    using zip_read [OF assms] by (simp_all add: rb_is_red_def)
  then show ?thesis
    using recolor_at [OF recolor_left [OF recolor_right [OF assms]]] by (simp add: insert_color_left_def Let_def)
qed

lemma insert_right_flip:
  assumes "zip_at s (T BLACK (T RED ul u ur) g (T RED l p r)) k"
  shows "\<exists>s'. insert_color_right node p g s = Some (g, s') \<and> zip_at s' (T RED (T BLACK ul u ur) g (T BLACK l p r)) k"
proof -
  have "rb_is_red s (rb_left (nodes s g))" "rb_left (nodes s g) = Some u"
    using zip_read [OF assms] by (simp_all add: rb_is_red_def)
  then show ?thesis
    using recolor_at [OF recolor_right [OF recolor_left [OF assms]]] by (simp add: insert_color_right_def Let_def)
qed

lemma insert_left_rot:
  assumes "zip_at s (T BLACK (T RED (T RED l a r) p m) g u) k" "col u = BLACK"
  shows "\<exists>s'. insert_color_left a p g s = Some (a, s') \<and> zip_at s' (T BLACK (T RED l a r) p (T RED m g u)) k"
proof -
  have "\<not> rb_is_red s (rb_right (nodes s g))" "Some a \<noteq> rb_right (nodes s p)" "rb_parent (nodes s a) = Some p"
    using assms by (auto simp: zip_at_def tree_red)
  moreover obtain s' where "rb_rotate_right g (set_color g RED (set_color p BLACK s)) = Some s'"
    "zip_at s' (T BLACK (T RED l a r) p (T RED m g u)) k"
    using rotate_right_at [OF recolor_at [OF recolor_left [OF assms(1)]]] by blast
  ultimately show ?thesis by (simp add: insert_color_left_def)
qed

lemma insert_right_rot:
  assumes "zip_at s (T BLACK u g (T RED m p (T RED l a r))) k" "col u = BLACK"
  shows "\<exists>s'. insert_color_right a p g s = Some (a, s') \<and> zip_at s' (T BLACK (T RED u g m) p (T RED l a r)) k"
proof -
  have "\<not> rb_is_red s (rb_left (nodes s g))" "Some a \<noteq> rb_left (nodes s p)" "rb_parent (nodes s a) = Some p"
    using assms by (auto simp: zip_at_def tree_red)
  moreover obtain s' where "rb_rotate_left g (set_color g RED (set_color p BLACK s)) = Some s'"
    "zip_at s' (T BLACK (T RED u g m) p (T RED l a r)) k"
    using rotate_left_at [OF recolor_at [OF recolor_right [OF assms(1)]]] by blast
  ultimately show ?thesis by (simp add: insert_color_right_def)
qed

lemma insert_left_rot2:
  assumes "zip_at s (T BLACK (T RED m p (T RED l a r)) g u) k" "col u = BLACK"
  shows "\<exists>s'. insert_color_left a p g s = Some (p, s') \<and> zip_at s' (T BLACK (T RED m p l) a (T RED r g u)) k"
proof -
  have "\<not> rb_is_red s (rb_right (nodes s g))" "rb_right (nodes s p) = Some a" "rb_parent (nodes s a) = Some p"
    using assms by (auto simp: zip_at_def tree_red)
  moreover obtain s1 where s1: "rb_rotate_left p s = Some s1" "zip_at s1 (T BLACK (T RED (T RED m p l) a r) g u) k"
    using rotate_left_at [of s RED m p RED l a r "InL BLACK g u # k"] assms(1) by auto
  moreover have "rb_parent (nodes s1 p) = Some a" using s1(2) by (auto simp: zip_at_def)
  moreover obtain s' where "rb_rotate_right g (set_color g RED (set_color a BLACK s1)) = Some s'"
    "zip_at s' (T BLACK (T RED m p l) a (T RED r g u)) k"
    using rotate_right_at [OF recolor_at [OF recolor_left [OF s1(2)]]] by blast
  ultimately show ?thesis by (simp add: insert_color_left_def)
qed

lemma insert_right_rot2:
  assumes "zip_at s (T BLACK u g (T RED (T RED l a r) p m)) k" "col u = BLACK"
  shows "\<exists>s'. insert_color_right a p g s = Some (p, s') \<and> zip_at s' (T BLACK (T RED u g l) a (T RED r p m)) k"
proof -
  have "\<not> rb_is_red s (rb_left (nodes s g))" "rb_left (nodes s p) = Some a" "rb_parent (nodes s a) = Some p"
    using assms by (auto simp: zip_at_def tree_red)
  moreover obtain s1 where s1: "rb_rotate_right p s = Some s1" "zip_at s1 (T BLACK u g (T RED l a (T RED r p m))) k"
    using rotate_right_at [of s RED RED l a r p m "InR BLACK u g # k"] assms(1) by auto
  moreover have "rb_parent (nodes s1 p) = Some a" using s1(2) by (auto simp: zip_at_def)
  moreover obtain s' where "rb_rotate_left g (set_color g RED (set_color a BLACK s1)) = Some s'"
    "zip_at s' (T BLACK (T RED u g l) a (T RED r p m)) k"
    using rotate_left_at [OF recolor_at [OF recolor_right [OF s1(2)]]] by blast
  ultimately show ?thesis by (simp add: insert_color_right_def)
qed

text \<open>The loop stops at a node below a black parent, and always returns.\<close>

lemma insert_color_stop:
  assumes "zip_at s (T BLACK l p r) k" "rb_parent (nodes s a) = Some p"
  shows "insert_color_loop a s = Some s"
  using assms zip_read(4) [OF assms(1)] by (subst insert_color_loop.simps) simp

lemma insert_color_step:
  assumes "rb_parent (nodes s a) = Some p" "rb_color (nodes s p) = RED" "rb_parent (nodes s p) = Some g"
  shows "insert_color_loop a s =
    (if Some p = rb_left (nodes s g) then insert_color_left a p g s else insert_color_right a p g s)
      \<bind> (\<lambda>(node, s). insert_color_loop node s)"
  by (subst insert_color_loop.simps) (simp add: assms)

definition ins_pre :: "'a rbt \<Rightarrow> 'a frame list \<Rightarrow> bool" where
  "ins_pre t k \<longleftrightarrow> invc t \<and> invh t \<and> col t = RED \<and> hfits (bh t) k \<and> cfits BLACK k \<and> (k \<noteq> [] \<longrightarrow> root_col RED k = BLACK)"

definition ins_post :: "'a ogs_rbtree \<Rightarrow> 'a list \<Rightarrow> bool" where
  "ins_post s xs \<longleftrightarrow> (\<exists>c l a r. zip_at s (T c l a r) [] \<and> rb_inv (T BLACK l a r) \<and> elems (T c l a r) = xs)"

lemma plug_E [simp]: "plug t k = E \<longleftrightarrow> t = E \<and> k = []"
  by (induction t k rule: plug.induct) auto

lemma ins_postI:
  assumes "zip_at s t k" "invc t" "invh t" "hfits (bh t) k" "cfits (col t) k" "t \<noteq> E"
  shows "ins_post s (lefts k @ elems t @ rights k)"
proof -
  have p: "zip_at s (plug t k) []" "invc (plug t k)" "invh (plug t k)" "plug t k \<noteq> E"
    using assms zip_plug [of s t k] by (auto simp: plug_inv)
  then obtain c l a r where q: "plug t k = T c l a r" by (cases "plug t k") auto
  have "elems (T c l a r) = lefts k @ elems t @ rights k" unfolding q [symmetric] by simp
  with p q show ?thesis
    unfolding ins_post_def rb_inv_def by (intro exI [of _ c] exI [of _ l] exI [of _ a] exI [of _ r]) auto
qed

lemma red_parent_cases [consumes 2, case_names LL RL LR RR]:
  assumes "ins_pre t k" "\<not> cfits RED k"
  obtains (LL) p m g u k' where "k = InL RED p m # InL BLACK g u # k'"
    | (RL) p m g u k' where "k = InR RED m p # InL BLACK g u # k'"
    | (LR) p m g u k' where "k = InL RED p m # InR BLACK u g # k'"
    | (RR) p m g u k' where "k = InR RED m p # InR BLACK u g # k'"
proof -
  obtain f k1 where k: "k = f # k1" using assms(2) by (cases k) auto
  with assms obtain g k2 where "k1 = g # k2" by (cases k1; cases f) (auto simp: ins_pre_def)
  with k assms that show thesis by (cases f; cases g) (auto simp: ins_pre_def)
qed

text \<open>
  An iteration either flips colours and continues at the grandparent, or rotates and leaves the loop: then the focus
  is black, its black height and its nodes are as before, and it is the parent of the next node.
\<close>

definition ins_step :: "('a \<times> 'a ogs_rbtree) option \<Rightarrow> 'a rbt \<Rightarrow> 'a frame list \<Rightarrow> bool" where
  "ins_step res t k \<longleftrightarrow> (\<exists>node s'. res = Some (node, s') \<and> (\<exists>t'. zip_at s' t' k \<and> invc t' \<and> invh t' \<and> bh t' = bh t \<and> elems t' = elems t
     \<and> (if col t' = RED then ptr t' = Some node else t' \<noteq> E \<and> rb_parent (nodes s' node) = ptr t')))"

lemma ins_stepI:
  assumes "\<exists>s'. res = Some (node, s') \<and> zip_at s' t' k" "invc t'" "invh t'" "bh t' = bh t" "elems t' = elems t"
    and "\<And>s'. zip_at s' t' k \<Longrightarrow> if col t' = RED then ptr t' = Some node else t' \<noteq> E \<and> rb_parent (nodes s' node) = ptr t'"
  shows "ins_step res t k"
  using assms unfolding ins_step_def by blast

lemma ins_step_left:
  assumes z: "zip_at s (T BLACK t g u) k" and t: "t = T RED (T RED l a r) p m \<or> t = T RED m p (T RED l a r)"
    and "invc (T RED l a r)" "invh (T RED l a r)" "invc m" "invh m" "bh m = bh l" "col m = BLACK" "invc u" "invh u" "bh u = bh l"
  shows "ins_step (insert_color_left a p g s) (T BLACK t g u) k"
proof (cases "col u")
  case OGS_RBTREE_RED
  then obtain ul un ur where u: "u = T RED ul un ur" by (cases u) auto
  from t show ?thesis
  proof
    assume t: "t = T RED (T RED l a r) p m"
    show ?thesis
      using insert_left_flip [of s "T RED l a r" p m g ul un ur k a] assms(3-) z t u
      by (intro ins_stepI [where node = g and t' = "T RED (T BLACK (T RED l a r) p m) g (T BLACK ul un ur)"]) auto
  next
    assume t: "t = T RED m p (T RED l a r)"
    show ?thesis
      using insert_left_flip [of s m p "T RED l a r" g ul un ur k a] assms(3-) z t u
      by (intro ins_stepI [where node = g and t' = "T RED (T BLACK m p (T RED l a r)) g (T BLACK ul un ur)"]) auto
  qed
next
  case OGS_RBTREE_BLACK
  from t show ?thesis
  proof
    assume t: "t = T RED (T RED l a r) p m"
    show ?thesis
      using insert_left_rot [of s l a r p m g u k] assms(3-) z t OGS_RBTREE_BLACK
      by (intro ins_stepI [where node = a and t' = "T BLACK (T RED l a r) p (T RED m g u)"]) (auto simp: zip_at_def)
  next
    assume t: "t = T RED m p (T RED l a r)"
    show ?thesis
      using insert_left_rot2 [of s m p l a r g u k] assms(3-) z t OGS_RBTREE_BLACK
      by (intro ins_stepI [where node = p and t' = "T BLACK (T RED m p l) a (T RED r g u)"]) (auto simp: zip_at_def)
  qed
qed

lemma ins_step_right:
  assumes z: "zip_at s (T BLACK u g t) k" and t: "t = T RED (T RED l a r) p m \<or> t = T RED m p (T RED l a r)"
    and "invc (T RED l a r)" "invh (T RED l a r)" "invc m" "invh m" "bh m = bh l" "col m = BLACK" "invc u" "invh u" "bh u = bh l"
  shows "ins_step (insert_color_right a p g s) (T BLACK u g t) k"
proof (cases "col u")
  case OGS_RBTREE_RED
  then obtain ul un ur where u: "u = T RED ul un ur" by (cases u) auto
  from t show ?thesis
  proof
    assume t: "t = T RED (T RED l a r) p m"
    show ?thesis
      using insert_right_flip [of s ul un ur g "T RED l a r" p m k a] assms(3-) z t u
      by (intro ins_stepI [where node = g and t' = "T RED (T BLACK ul un ur) g (T BLACK (T RED l a r) p m)"]) auto
  next
    assume t: "t = T RED m p (T RED l a r)"
    show ?thesis
      using insert_right_flip [of s ul un ur g m p "T RED l a r" k a] assms(3-) z t u
      by (intro ins_stepI [where node = g and t' = "T RED (T BLACK ul un ur) g (T BLACK m p (T RED l a r))"]) auto
  qed
next
  case OGS_RBTREE_BLACK
  from t show ?thesis
  proof
    assume t: "t = T RED (T RED l a r) p m"
    show ?thesis
      using insert_right_rot2 [of s u g l a r p m k] assms(3-) z t OGS_RBTREE_BLACK
      by (intro ins_stepI [where node = p and t' = "T BLACK (T RED u g l) a (T RED r p m)"]) (auto simp: zip_at_def)
  next
    assume t: "t = T RED m p (T RED l a r)"
    show ?thesis
      using insert_right_rot [of s u g m p l a r k] assms(3-) z t OGS_RBTREE_BLACK
      by (intro ins_stepI [where node = a and t' = "T BLACK (T RED u g m) p (T RED l a r)"]) (auto simp: zip_at_def)
  qed
qed

lemma insert_color_loop_ok:
  assumes "zip_at s (T RED l a r) k" "ins_pre (T RED l a r) k"
  shows "\<exists>s'. insert_color_loop a s = Some s' \<and> ins_post s' (lefts k @ elems (T RED l a r) @ rights k)"
  using assms
proof (induction "length k" arbitrary: s l a r k rule: less_induct)
  case less
  note pre = less.prems(2) [unfolded ins_pre_def]
  have go: ?case if z: "zip_at s t k'" and k: "length k' < length k" and st: "ins_step res t k'"
      and res: "insert_color_loop a s = res \<bind> (\<lambda>(node, s). insert_color_loop node s)"
      and t: "plug t k' = plug (T RED l a r) k" "hfits (bh t) k'" "cfits BLACK k'" "k' \<noteq> [] \<longrightarrow> root_col RED k' = BLACK" for t k' res
  proof -
    have e: "lefts k' @ elems t @ rights k' = lefts k @ elems (T RED l a r) @ rights k" using arg_cong [OF t(1), of elems] by simp
    obtain node s' t' where r: "res = Some (node, s')" "zip_at s' t' k'" "invc t'" "invh t'" "bh t' = bh t" "elems t' = elems t"
      "if col t' = RED then ptr t' = Some node else t' \<noteq> E \<and> rb_parent (nodes s' node) = ptr t'"
      using st unfolding ins_step_def by blast
    show ?thesis
    proof (cases "col t' = RED")
      case True
      then obtain l' r' where t': "t' = T RED l' node r'" using r(7) by (cases t') auto
      then have "ins_pre (T RED l' node r') k'" using r t by (simp add: ins_pre_def)
      then obtain s2 where "insert_color_loop node s' = Some s2" "ins_post s2 (lefts k' @ elems t' @ rights k')"
        using less.hyps [OF k] r(2) t' by blast
      then show ?thesis using r(1,6) res e by simp
    next
      case False
      then obtain l' p r' where t': "t' = T BLACK l' p r'" using r(7) by (cases t') auto
      then have stop: "insert_color_loop node s' = Some s'" using insert_color_stop [of s' l' p r' k' node] r by simp
      have "hfits (bh t') k'" "cfits (col t') k'" "t' \<noteq> E" using r(5) t t' by auto
      from ins_postI [OF r(2-4) this] show ?thesis using stop r(1,6) res e by simp
    qed
  qed
  show ?case
  proof (cases "cfits RED k")
    case True
    have "insert_color_loop a s = Some s"
    proof (cases k rule: lefts.cases)
      case 1 then show ?thesis using zip_read(1) [OF less.prems(1)] by (subst insert_color_loop.simps) simp
    next
      case (2 c p m k')
      then show ?thesis using True less.prems(1) zip_read(1) [OF less.prems(1)]
        by (intro insert_color_stop [of s "T RED l a r" p m k']) auto
    next
      case (3 c m p k')
      then show ?thesis using True less.prems(1) zip_read(1) [OF less.prems(1)]
        by (intro insert_color_stop [of s m p "T RED l a r" k']) auto
    qed
    then show ?thesis using ins_postI [OF less.prems(1)] pre True by auto
  next
    case False
    from less.prems(2) False show ?thesis
    proof (cases rule: red_parent_cases)
      case (LL p m g u k')
      have z: "zip_at s (T BLACK (T RED (T RED l a r) p m) g u) k'" using less.prems(1) LL by simp
      have "insert_color_loop a s = insert_color_left a p g s \<bind> (\<lambda>(node, s). insert_color_loop node s)"
        using z by (subst insert_color_step [of s a p g]) (auto simp: zip_at_def)
      with pre LL show ?thesis by (intro go [OF z _ ins_step_left [OF z, of l a r p m]]) (auto intro: cfits_black simp: root_col_above)
    next
      case (RL p m g u k')
      have z: "zip_at s (T BLACK (T RED m p (T RED l a r)) g u) k'" using less.prems(1) RL by simp
      have "insert_color_loop a s = insert_color_left a p g s \<bind> (\<lambda>(node, s). insert_color_loop node s)"
        using z by (subst insert_color_step [of s a p g]) (auto simp: zip_at_def)
      with pre RL show ?thesis by (intro go [OF z _ ins_step_left [OF z, of l a r p m]]) (auto intro: cfits_black simp: root_col_above)
    next
      case (LR p m g u k')
      have z: "zip_at s (T BLACK u g (T RED (T RED l a r) p m)) k'" using less.prems(1) LR by simp
      have "insert_color_loop a s = insert_color_right a p g s \<bind> (\<lambda>(node, s). insert_color_loop node s)"
        using z by (subst insert_color_step [of s a p g]) (auto simp: zip_at_def)
      with pre LR show ?thesis by (intro go [OF z _ ins_step_right [OF z, of l a r p m]]) (auto intro: cfits_black simp: root_col_above)
    next
      case (RR p m g u k')
      have z: "zip_at s (T BLACK u g (T RED m p (T RED l a r))) k'" using less.prems(1) RR by simp
      have "insert_color_loop a s = insert_color_right a p g s \<bind> (\<lambda>(node, s). insert_color_loop node s)"
        using z by (subst insert_color_step [of s a p g]) (auto simp: zip_at_def)
      with pre RR show ?thesis by (intro go [OF z _ ins_step_right [OF z, of l a r p m]]) (auto intro: cfits_black simp: root_col_above)
    qed
  qed
qed

fun link_of :: "'a frame list \<Rightarrow> 'a link" where
  "link_of [] = RootLink"
| "link_of (InL c a r # k) = LeftLink a"
| "link_of (InR c l a # k) = RightLink a"

lemma link_node_at:
  assumes "zip_at s E k" "a \<notin> set (lefts k)" "a \<notin> set (rights k)"
  shows "zip_at (ogs_rbtree_link_node a (above k) (link_of k) s) (T RED E a E) k"
  using assms
  by (cases k rule: lefts.cases) (auto simp: zip_at_def ogs_rbtree_link_node_def set_link_def Let_def)

lemma hole_fits: "rb_inv (plug E k) \<Longrightarrow> hfits 0 k \<and> cfits BLACK k \<and> (k \<noteq> [] \<longrightarrow> root_col RED k = BLACK)"
  using plug_inv [of E k] by (cases k rule: lefts.cases) (auto simp: rb_inv_def)

lemma insert_color_ok:
  assumes "zip_at s E k" "rb_inv (plug E k)" "a \<notin> set (lefts k)" "a \<notin> set (rights k)"
  shows "\<exists>s' t. ogs_rbtree_insert_color a (ogs_rbtree_link_node a (above k) (link_of k) s) = Some s'
    \<and> zip_at s' t [] \<and> rb_inv t \<and> elems t = lefts k @ a # rights k"
proof -
  let ?s = "ogs_rbtree_link_node a (above k) (link_of k) s"
  have "ins_pre (T RED E a E) k" using hole_fits [OF assms(2)] by (simp add: ins_pre_def)
  then obtain s1 where s1: "insert_color_loop a ?s = Some s1" "ins_post s1 (lefts k @ a # rights k)"
    using insert_color_loop_ok [OF link_node_at [OF assms(1,3,4)]] by auto
  then obtain c l b r where t: "zip_at s1 (T c l b r) []" "rb_inv (T BLACK l b r)" "elems (T BLACK l b r) = lefts k @ a # rights k"
    unfolding ins_post_def by fastforce
  then show ?thesis using s1(1) zip_read(9) [OF t(1)] recolor_at [OF t(1), of BLACK]
    by (auto simp: ogs_rbtree_insert_color_def intro!: exI [of _ "T BLACK l b r"])
qed

subsection \<open>Deletion restores the invariants\<close>

lemma case1_left_skip:
  assumes "zip_at s (T c t p (T BLACK sl b sr)) k" shows "delete_case1_left p s = Some (b, s)"
  using assms by (simp add: delete_case1_left_def zip_at_def)

lemma case1_right_skip:
  assumes "zip_at s (T c (T BLACK sl b sr) p t) k" shows "delete_case1_right p s = Some (b, s)"
  using assms by (simp add: delete_case1_right_def zip_at_def)

lemma case1_left:
  assumes "zip_at s (T c t p (T RED sl b sr)) k" "ptr sl = Some x"
  shows "\<exists>s'. delete_case1_left p s = Some (x, s') \<and> zip_at s' (T RED t p sl) (InL BLACK b sr # k)"
proof -
  have "rb_right (nodes s p) = Some b" "rb_color (nodes s b) = RED" using assms(1) by (simp_all add: zip_at_def)
  moreover obtain s' where s': "rb_rotate_left p (set_color p RED (set_color b BLACK s)) = Some s'"
    "zip_at s' (T BLACK (T RED t p sl) b sr) k"
    using rotate_left_at [OF recolor_at [OF recolor_right [OF assms(1)]]] by blast
  moreover have "rb_right (nodes s' p) = Some x" using s'(2) assms(2) by (simp add: zip_at_def)
  ultimately show ?thesis by (simp add: delete_case1_left_def)
qed

lemma case1_right:
  assumes "zip_at s (T c (T RED sl b sr) p t) k" "ptr sr = Some x"
  shows "\<exists>s'. delete_case1_right p s = Some (x, s') \<and> zip_at s' (T RED sr p t) (InR BLACK sl b # k)"
proof -
  have "rb_left (nodes s p) = Some b" "rb_color (nodes s b) = RED" using assms(1) by (simp_all add: zip_at_def)
  moreover obtain s' where s': "rb_rotate_right p (set_color p RED (set_color b BLACK s)) = Some s'"
    "zip_at s' (T BLACK sl b (T RED sr p t)) k"
    using rotate_right_at [OF recolor_at [OF recolor_left [OF assms(1)]]] by blast
  moreover have "rb_left (nodes s' p) = Some x" using s'(2) assms(2) by (simp add: zip_at_def)
  ultimately show ?thesis by (simp add: delete_case1_right_def)
qed

lemma case3_left:
  assumes "zip_at s (T c t p (T BLACK (T RED x a y) b sr)) k" "col sr = BLACK"
  shows "\<exists>s'. delete_case3_left p b s = Some (a, s') \<and> zip_at s' (T c t p (T BLACK x a (T RED y b sr))) k"
proof -
  let ?k = "InR c t p # k"
  have z: "zip_at s (T BLACK (T RED x a y) b sr) ?k" using assms(1) by simp
  have "rb_left (nodes s b) = Some a" "rb_is_black s (rb_right (nodes s b))"
    using assms tree_black by (auto simp: zip_at_def)
  moreover obtain s' where s': "rb_rotate_right b (set_color b RED (set_color a BLACK s)) = Some s'"
    "zip_at s' (T BLACK x a (T RED y b sr)) ?k"
    using rotate_right_at [OF recolor_at [OF recolor_left [OF z]]] by blast
  moreover have "rb_right (nodes s' p) = Some a" using s'(2) by (simp add: zip_at_def)
  ultimately show ?thesis by (simp add: delete_case3_left_def)
qed

lemma case3_right:
  assumes "zip_at s (T c (T BLACK sl b (T RED x a y)) p t) k" "col sl = BLACK"
  shows "\<exists>s'. delete_case3_right p b s = Some (a, s') \<and> zip_at s' (T c (T BLACK (T RED sl b x) a y) p t) k"
proof -
  let ?k = "InL c p t # k"
  have z: "zip_at s (T BLACK sl b (T RED x a y)) ?k" using assms(1) by simp
  have "rb_right (nodes s b) = Some a" "rb_is_black s (rb_left (nodes s b))"
    using assms tree_black by (auto simp: zip_at_def)
  moreover obtain s' where s': "rb_rotate_left b (set_color b RED (set_color a BLACK s)) = Some s'"
    "zip_at s' (T BLACK (T RED sl b x) a y) ?k"
    using rotate_left_at [OF recolor_at [OF recolor_right [OF z]]] by blast
  moreover have "rb_left (nodes s' p) = Some a" using s'(2) by (simp add: zip_at_def)
  ultimately show ?thesis by (simp add: delete_case3_right_def)
qed

lemma case4_left:
  assumes "zip_at s (T c t p (T BLACK sl b (T RED x d y))) k"
  shows "\<exists>s'. delete_case4_left p b s = Some (root s', Some p, s') \<and> zip_at s' (T c (T BLACK t p sl) b (T BLACK x d y)) k"
proof -
  have r: "rb_color (nodes s p) = c" "rb_right (nodes s b) = Some d" using assms by (simp_all add: zip_at_def)
  have q: "zip_at (set_color d BLACK (set_color p BLACK (set_color b c s))) (T BLACK t p (T c sl b (T BLACK x d y))) k"
    using recolor_right [of _ c sl b RED x d y "InR BLACK t p # k" BLACK] recolor_at [OF recolor_right [OF assms]] by simp
  then obtain s' where "rb_rotate_left p (set_color d BLACK (set_color p BLACK (set_color b c s))) = Some s'"
    "zip_at s' (T c (T BLACK t p sl) b (T BLACK x d y)) k"
    using rotate_left_at [OF q] by blast
  then show ?thesis using r by (simp add: delete_case4_left_def)
qed

lemma case4_right:
  assumes "zip_at s (T c (T BLACK (T RED x d y) b sr) p t) k"
  shows "\<exists>s'. delete_case4_right p b s = Some (root s', Some p, s') \<and> zip_at s' (T c (T BLACK x d y) b (T BLACK sr p t)) k"
proof -
  have r: "rb_color (nodes s p) = c" "rb_left (nodes s b) = Some d" using assms by (simp_all add: zip_at_def)
  have q: "zip_at (set_color d BLACK (set_color p BLACK (set_color b c s))) (T BLACK (T c (T BLACK x d y) b sr) p t) k"
    using recolor_left [of _ c RED x d y b sr "InL BLACK p t # k" BLACK] recolor_at [OF recolor_left [OF assms]] by simp
  then obtain s' where "rb_rotate_right p (set_color d BLACK (set_color p BLACK (set_color b c s))) = Some s'"
    "zip_at s' (T c (T BLACK x d y) b (T BLACK sr p t)) k"
    using rotate_right_at [OF q] by blast
  then show ?thesis using r by (simp add: delete_case4_right_def)
qed

text \<open>
  The subtree in focus is one black node short. An iteration moves the shortage up, turns it into a red focus, or
  removes it and leaves the loop at the root.
\<close>

fun blacken :: "'a rbt \<Rightarrow> 'a rbt" where
  "blacken E = E"
| "blacken (T c l a r) = T BLACK l a r"

definition del_pre :: "'a rbt \<Rightarrow> 'a frame list \<Rightarrow> bool" where
  "del_pre t k \<longleftrightarrow> invc (blacken t) \<and> invh t \<and> hfits (bh t + 1) k \<and> cfits BLACK k \<and> root_col BLACK k = BLACK"

definition del_meas :: "'a rbt \<Rightarrow> 'a frame list \<Rightarrow> nat" where
  "del_meas t k = 2 * length k + (if col t = BLACK then 1 else 0)"

definition del_step :: "('a option \<times> 'a option \<times> 'a ogs_rbtree) option \<Rightarrow> 'a rbt \<Rightarrow> 'a frame list \<Rightarrow> bool" where
  "del_step res t k \<longleftrightarrow> (\<exists>node par s' t' k'. res = Some (node, par, s') \<and> zip_at s' t' k'
     \<and> lefts k' @ elems t' @ rights k' = lefts k @ elems t @ rights k
     \<and> (node = ptr t' \<and> par = above k' \<and> del_pre t' k' \<and> del_meas t' k' < del_meas t k
        \<or> node = root s' \<and> rb_inv (plug t' k')))"

lemma del_step_left:
  assumes z: "zip_at s (T c t p (T BLACK sl b sr)) k" and c1: "delete_case1_left p s0 = Some (b, s)"
    and t: "invc t" "invh t" "col t = BLACK" "invc sl" "invc sr" "invh sl" "invh sr" "bh sl = bh t" "bh sr = bh t"
    and k: "hfits (bh t + 1 + (if c = BLACK then 1 else 0)) k" "cfits c k" "root_col c k = BLACK"
    and o: "lefts k0 @ elems t @ rights k0 = lefts k @ elems (T c t p (T BLACK sl b sr)) @ rights k"
    and m: "2 * length k + (if c = BLACK then 1 else 0) < del_meas t k0"
  shows "del_step (delete_color_left p s0) t k0"
proof -
  have r: "rb_left (nodes s b) = ptr sl" "rb_right (nodes s b) = ptr sr" "rb_parent (nodes s p) = above k"
    "rb_is_black s (ptr sl) \<longleftrightarrow> col sl = BLACK" "rb_is_black s (ptr sr) \<longleftrightarrow> col sr = BLACK"
    using z tree_black by (auto simp: zip_at_def)
  show ?thesis
  proof (cases "col sl = BLACK \<and> col sr = BLACK")
    case True
    let ?t = "T c t p (T RED sl b sr)" and ?s = "set_color b RED s"
    have "delete_color_left p s0 = Some (Some p, above k, ?s)" using c1 r True by (simp add: delete_color_left_def)
    moreover have "zip_at ?s ?t k" using recolor_right [OF z] by simp
    moreover have "del_pre ?t k" "del_meas ?t k < del_meas t k0"
      using t k(1) cfits_black [OF k(2)] root_col_black [OF k(3)] m True by (simp_all add: del_pre_def del_meas_def)
    ultimately show ?thesis unfolding del_step_def using o by fastforce
  next
    case False
    have fin: ?thesis if z': "zip_at s' (T c t p (T BLACK x d (T RED y e w))) k" and c3: "delete_case3_left p b s = Some (d, s')"
      and i: "invc x" "invc y" "invc w" "invh x" "invh y" "invh w" "bh x = bh t" "bh y = bh t" "bh w = bh t" "col y = BLACK" "col w = BLACK"
      and e: "elems x @ d # elems y @ e # elems w = elems sl @ b # elems sr" for s' x d y e w
    proof -
      obtain s2 where s2: "delete_case4_left p d s' = Some (root s2, Some p, s2)"
        "zip_at s2 (T c (T BLACK t p x) d (T BLACK y e w)) k" using case4_left [OF z'] by blast
      moreover have "delete_color_left p s0 = delete_case4_left p d s'" using c1 r False c3 by (auto simp: delete_color_left_def)
      moreover have "rb_inv (plug (T c (T BLACK t p x) d (T BLACK y e w)) k)" using t k i by (simp add: rb_inv_def plug_inv)
      ultimately show ?thesis unfolding del_step_def using o e by fastforce
    qed
    show ?thesis
    proof (cases "col sr")
      case OGS_RBTREE_RED
      then obtain y e w where "sr = T RED y e w" by (cases sr) auto
      then show ?thesis using fin [of s sl b y e w] z t r by (simp add: delete_case3_left_def)
    next
      case OGS_RBTREE_BLACK
      then obtain x a y where sl: "sl = T RED x a y" using False by (cases sl) auto
      obtain s' where "delete_case3_left p b s = Some (a, s')" "zip_at s' (T c t p (T BLACK x a (T RED y b sr))) k"
        using case3_left [OF z [unfolded sl] OGS_RBTREE_BLACK] by blast
      then show ?thesis using fin [of s' x a y b sr] t sl OGS_RBTREE_BLACK by simp
    qed
  qed
qed

lemma del_step_right:
  assumes z: "zip_at s (T c (T BLACK sl b sr) p t) k" and c1: "delete_case1_right p s0 = Some (b, s)"
    and t: "invc t" "invh t" "col t = BLACK" "invc sl" "invc sr" "invh sl" "invh sr" "bh sl = bh t" "bh sr = bh t"
    and k: "hfits (bh t + 1 + (if c = BLACK then 1 else 0)) k" "cfits c k" "root_col c k = BLACK"
    and o: "lefts k0 @ elems t @ rights k0 = lefts k @ elems (T c (T BLACK sl b sr) p t) @ rights k"
    and m: "2 * length k + (if c = BLACK then 1 else 0) < del_meas t k0"
  shows "del_step (delete_color_right p s0) t k0"
proof -
  have r: "rb_left (nodes s b) = ptr sl" "rb_right (nodes s b) = ptr sr" "rb_parent (nodes s p) = above k"
    "rb_is_black s (ptr sl) \<longleftrightarrow> col sl = BLACK" "rb_is_black s (ptr sr) \<longleftrightarrow> col sr = BLACK"
    using z tree_black by (auto simp: zip_at_def)
  show ?thesis
  proof (cases "col sl = BLACK \<and> col sr = BLACK")
    case True
    let ?t = "T c (T RED sl b sr) p t" and ?s = "set_color b RED s"
    have "delete_color_right p s0 = Some (Some p, above k, ?s)" using c1 r True by (simp add: delete_color_right_def)
    moreover have "zip_at ?s ?t k" using recolor_left [OF z] by simp
    moreover have "del_pre ?t k" "del_meas ?t k < del_meas t k0"
      using t k(1) cfits_black [OF k(2)] root_col_black [OF k(3)] m True by (simp_all add: del_pre_def del_meas_def)
    ultimately show ?thesis unfolding del_step_def using o by fastforce
  next
    case False
    have fin: ?thesis if z': "zip_at s' (T c (T BLACK (T RED y e w) d x) p t) k" and c3: "delete_case3_right p b s = Some (d, s')"
      and i: "invc x" "invc y" "invc w" "invh x" "invh y" "invh w" "bh x = bh t" "bh y = bh t" "bh w = bh t" "col y = BLACK" "col w = BLACK"
      and e: "elems y @ e # elems w @ d # elems x = elems sl @ b # elems sr" for s' x d y e w
    proof -
      obtain s2 where s2: "delete_case4_right p d s' = Some (root s2, Some p, s2)"
        "zip_at s2 (T c (T BLACK y e w) d (T BLACK x p t)) k" using case4_right [OF z'] by blast
      moreover have "delete_color_right p s0 = delete_case4_right p d s'" using c1 r False c3 by (auto simp: delete_color_right_def)
      moreover have "rb_inv (plug (T c (T BLACK y e w) d (T BLACK x p t)) k)" using t k i by (simp add: rb_inv_def plug_inv)
      ultimately show ?thesis unfolding del_step_def using o e by fastforce
    qed
    show ?thesis
    proof (cases "col sl")
      case OGS_RBTREE_RED
      then obtain y e w where "sl = T RED y e w" by (cases sl) auto
      then show ?thesis using fin [of s y e w b sr] z t r by (simp add: delete_case3_right_def)
    next
      case OGS_RBTREE_BLACK
      then obtain x a y where sr: "sr = T RED x a y" using False by (cases sr) auto
      obtain s' where "delete_case3_right p b s = Some (a, s')" "zip_at s' (T c (T BLACK (T RED sl b x) a y) p t) k"
        using case3_right [OF z [unfolded sr] OGS_RBTREE_BLACK] by blast
      then show ?thesis using fin [of s' sl b x a y] t sr OGS_RBTREE_BLACK by simp
    qed
  qed
qed

lemma blacken_simps [simp]:
  "col t = BLACK \<Longrightarrow> blacken t = t" "elems (blacken t) = elems t" "invh (blacken t) \<longleftrightarrow> invh t"
  "col (blacken t) = BLACK" "col t = RED \<Longrightarrow> bh (blacken t) = bh t + 1"
  by (cases t; simp)+

lemma invc_blacken: "invc t \<Longrightarrow> invc (blacken t)"
  by (cases t) auto

lemma del_step_ok:
  assumes z: "zip_at s t k" and pre: "del_pre t k" and "col t = BLACK" "k = f # k'"
  shows "del_step (if ptr t = rb_left (nodes s (frame_node f)) then delete_color_left (frame_node f) s
    else delete_color_right (frame_node f) s) t k"
proof (cases f)
  case (InL c p sib)
  have t: "invc t" "invh t" "cfits c k'" "root_col c k' = BLACK" "hfits (bh t + 1 + (if c = BLACK then 1 else 0)) k'"
    "bh sib = bh t + 1" "invh sib" "invc sib" "c = RED \<Longrightarrow> col sib = BLACK"
    using pre assms(3,4) InL by (auto simp: del_pre_def)
  have z': "zip_at s (T c t p sib) k'" using z assms(4) InL by simp
  obtain d sl b sr where sib: "sib = T d sl b sr" using t(6) by (cases sib) auto
  have "del_step (delete_color_left p s) t k"
  proof (cases d)
    case OGS_RBTREE_BLACK
    show ?thesis
      using t(2-) assms(3,4) InL sib OGS_RBTREE_BLACK z'
      by (intro del_step_left [OF _ case1_left_skip t(1)]) (auto simp: del_meas_def)
  next
    case OGS_RBTREE_RED
    then have c: "c = BLACK" using t(9) sib by (cases c) auto
    obtain x sll slr where sl: "sl = T BLACK sll x slr" using t(6,8) sib OGS_RBTREE_RED by (cases sl) auto
    obtain s' where s': "delete_case1_left p s = Some (x, s')" "zip_at s' (T RED t p sl) (InL BLACK b sr # k')"
      using case1_left [of s c t p sl b sr k' x] z' sib sl OGS_RBTREE_RED by auto
    show ?thesis
      using t(2-) assms(3,4) InL sib OGS_RBTREE_RED c sl s'
      by (intro del_step_left [OF s'(2) [unfolded sl] s'(1) t(1)]) (auto simp: del_meas_def)
  qed
  moreover have "rb_left (nodes s p) = ptr t" using z' by (simp add: zip_at_def)
  ultimately show ?thesis by (simp add: InL)
next
  case (InR c sib p)
  have t: "invc t" "invh t" "cfits c k'" "root_col c k' = BLACK" "hfits (bh t + 1 + (if c = BLACK then 1 else 0)) k'"
    "bh sib = bh t + 1" "invh sib" "invc sib" "c = RED \<Longrightarrow> col sib = BLACK"
    using pre assms(3,4) InR by (auto simp: del_pre_def)
  have z': "zip_at s (T c sib p t) k'" using z assms(4) InR by simp
  obtain d sl b sr where sib: "sib = T d sl b sr" using t(6) by (cases sib) auto
  have "del_step (delete_color_right p s) t k"
  proof (cases d)
    case OGS_RBTREE_BLACK
    show ?thesis
      using t(2-) assms(3,4) InR sib OGS_RBTREE_BLACK z'
      by (intro del_step_right [OF _ case1_right_skip t(1)]) (auto simp: del_meas_def)
  next
    case OGS_RBTREE_RED
    then have c: "c = BLACK" using t(9) sib by (cases c) auto
    obtain x srl srr where sr: "sr = T BLACK srl x srr" using t(6-8) sib OGS_RBTREE_RED by (cases sr) auto
    obtain s' where s': "delete_case1_right p s = Some (x, s')" "zip_at s' (T RED sr p t) (InR BLACK sl b # k')"
      using case1_right [of s c sl b sr p t k' x] z' sib sr OGS_RBTREE_RED by auto
    show ?thesis
      using t(2-) assms(3,4) InR sib OGS_RBTREE_RED c sr s'
      by (intro del_step_right [OF s'(2) [unfolded sr] s'(1) t(1)]) (auto simp: del_meas_def)
  qed
  moreover have "rb_left (nodes s p) \<noteq> ptr t" using z' sib by (cases t) (auto simp: zip_at_def)
  ultimately show ?thesis by (simp add: InR eq_commute)
qed

lemma base_eq_ptr:
  assumes "zip_at s t k" "base (ptr t) k = ptr t" shows "k = []"
proof (rule ccontr)
  assume "k \<noteq> []"
  then have "\<exists>x. base p k = Some x \<and> x \<in> set (lefts k) \<union> set (rights k)" for p
  proof (induction k arbitrary: p)
    case (Cons f k)
    then show ?case by (cases f; cases "k = []") fastforce+
  qed simp
  then obtain x where "base (ptr t) k = Some x" "x \<in> set (lefts k) \<union> set (rights k)" by blast
  then show False using assms(2) ptr_in [of t x] zip_distinct [OF assms(1)] by auto
qed

lemma recolor_black_id:
  assumes "zip_at s t []" "col t = BLACK"
  shows "zip_at (case root s of Some a \<Rightarrow> set_color a BLACK s | None \<Rightarrow> s) t []"
proof (cases t)
  case E then show ?thesis using assms by (simp add: zip_at_def)
next
  case (T c l a r)
  then show ?thesis using recolor_at [of s c l a r "[]" BLACK] assms zip_read(9) [of s c l a r "[]"] by simp
qed

lemma delete_color_ok:
  assumes "zip_at s t k" "del_pre t k"
  shows "\<exists>s' t'. rb_delete_color (ptr t) (above k) s = Some s' \<and> zip_at s' t' [] \<and> rb_inv t'
    \<and> elems t' = lefts k @ elems t @ rights k"
  using assms
proof (induction "del_meas t k" arbitrary: s t k rule: less_induct)
  case less
  note z = less.prems(1) and pre = less.prems(2) [unfolded del_pre_def]
  have root: "root s = base (ptr t) k" "rb_is_black s (ptr t) \<longleftrightarrow> col t = BLACK"
    using z tree_black by (auto simp: zip_at_def)
  show ?case
  proof (cases "k = [] \<or> col t = RED")
    case True
    let ?s = "case ptr t of Some a \<Rightarrow> set_color a BLACK s | None \<Rightarrow> s"
    have "delete_color_loop (ptr t) (above k) s = Some (ptr t, s)"
      using True root by (subst delete_color_loop.simps) auto
    moreover have "zip_at ?s (blacken t) k" using z by (cases t) (auto dest: recolor_at)
    then have "zip_at ?s (plug (blacken t) k) []" using zip_plug by blast
    moreover have "rb_inv (plug (blacken t) k)" using pre True by (auto simp: rb_inv_def plug_inv)
    ultimately show ?thesis by (auto simp: rb_delete_color_def intro!: exI [of _ "plug (blacken t) k"])
  next
    case False
    then obtain f k' where k: "k = f # k'" by (cases k) auto
    have c: "col t = BLACK" using False by simp
    obtain node par s' t' k2 where st: "(if ptr t = rb_left (nodes s (frame_node f)) then delete_color_left (frame_node f) s
        else delete_color_right (frame_node f) s) = Some (node, par, s')" "zip_at s' t' k2"
      "lefts k2 @ elems t' @ rights k2 = lefts k @ elems t @ rights k"
      "node = ptr t' \<and> par = above k2 \<and> del_pre t' k2 \<and> del_meas t' k2 < del_meas t k \<or> node = root s' \<and> rb_inv (plug t' k2)"
      using del_step_ok [OF z less.prems(2) c k] unfolding del_step_def by metis
    have "ptr t \<noteq> root s" using base_eq_ptr [OF z] root(1) k by auto
    then have unf: "delete_color_loop (ptr t) (above k) s = delete_color_loop node par s'"
      using st(1) root(2) c k by (subst delete_color_loop.simps) simp
    from st(4) show ?thesis
    proof (elim disjE conjE)
      assume "node = ptr t'" "par = above k2" "del_pre t' k2" "del_meas t' k2 < del_meas t k"
      then show ?thesis using less.hyps [OF _ st(2)] st(3) unf by (simp add: rb_delete_color_def)
    next
      assume n: "node = root s'" and i: "rb_inv (plug t' k2)"
      have "delete_color_loop node par s' = Some (root s', s')" using n by (subst delete_color_loop.simps) simp
      moreover have "zip_at (case root s' of Some a \<Rightarrow> set_color a BLACK s' | None \<Rightarrow> s') (plug t' k2) []"
        using st(2) i zip_plug by (intro recolor_black_id) (auto simp: rb_inv_def)
      ultimately show ?thesis using unf i st(3) by (auto simp: rb_delete_color_def intro!: exI [of _ "plug t' k2"])
    qed
  qed
qed

text \<open>Unlinking a node with at most one child puts the child in its place.\<close>

lemma replace_node_at:
  assumes "zip_at s (T c l a r) k" "l = E \<and> t = r \<or> r = E \<and> t = l"
  shows "zip_at (rb_replace_node (Some a) (ptr t) (above k) s) t k"
proof -
  have p: "path_at (nodes s) (Some a) k" "root s = base (Some a) k" "tree_at (nodes s) (Some a) t"
    using assms by (auto simp: zip_at_def)
  have d: "a \<notin> set (lefts k)" "a \<notin> set (rights k)" "distinct (lefts k @ rights k)"
    "set (elems t) \<inter> (set (lefts k) \<union> set (rights k)) = {}" "distinct (lefts k @ elems t @ rights k)"
    using assms by (auto simp: zip_at_def)
  note rf = replace_focus [OF p(1,2) d(1-3), where p = "ptr t"]
  show ?thesis
    using rf(1,2) rf(4) [OF d(4)] d(4,5) p(3) by (cases t) (auto simp: zip_at_def rb_replace_node_def)
qed

lemma unlink_one_child:
  assumes "zip_at s (T c l a r) k" "l = E \<and> t = r \<or> r = E \<and> t = l"
  shows "\<exists>s'. rb_unlink a s = Some (ptr t, above k, c, s') \<and> zip_at s' t k"
  using replace_node_at [OF assms] zip_read [OF assms(1)] assms(2)
  by (cases l; cases r) (auto simp: rb_unlink_def Let_def)

text \<open>The leftmost node of a subtree: the path to it goes left only.\<close>

fun all_left :: "'a frame list \<Rightarrow> bool" where
  "all_left [] \<longleftrightarrow> True"
| "all_left (InL c a r # k) \<longleftrightarrow> all_left k"
| "all_left (InR c l a # k) \<longleftrightarrow> False"

lemma leftmost_exists:
  assumes "t \<noteq> E" obtains c m r k where "t = plug (T c E m r) k" "all_left k"
  using assms
proof (induction t arbitrary: thesis)
  case (T c l a r)
  show ?case
  proof (cases "l = E")
    case True then show ?thesis using T.prems(1) [of c a r "[]"] by simp
  next
    case False
    then obtain c' m r' k where k: "l = plug (T c' E m r') k" "all_left k" using T.IH(1) by blast
    have "plug u (k @ k') = plug (plug u k) k'" for u :: "'a rbt" and k k' by (induction u k rule: plug.induct) simp_all
    moreover have "all_left (k @ [InL c a r])" using k(2) by (induction k rule: all_left.induct) auto
    ultimately show ?thesis using T.prems(1) [of c' m r' "k @ [InL c a r]"] k(1) by simp
  qed
qed simp

lemma min_leftmost:
  assumes "tree_at (nodes s) p (plug (T c E m r) k)" "all_left k" "ptr (plug (T c E m r) k) = Some x"
  shows "ogs_rbtree_min s x = Some m"
  using assms
proof (induction k arbitrary: p x rule: rev_induct)
  case Nil then show ?case by (subst ogs_rbtree_min.simps) simp
next
  case (snoc f k)
  have app: "plug u (k @ k') = plug (plug u k) k'" for u :: "'a rbt" and k k' by (induction u k rule: plug.induct) simp_all
  obtain d b t where f: "f = InL d b t" using snoc.prems(2) by (induction k rule: all_left.induct) (cases f; auto)+
  have l: "all_left k" using snoc.prems(2) by (induction k rule: all_left.induct) auto
  obtain y where "ptr (plug (T c E m r) k) = Some y" using plug_E by (metis not_None_eq ptr_None(1) rbt.distinct(1))
  with snoc.IH [of "Some b" y] snoc.prems l f show ?case by (subst ogs_rbtree_min.simps) (simp add: app)
qed

text \<open>A new node takes the place of \<open>a\<close>: its children know it already, and the path is told.\<close>

lemma refocus:
  assumes p: "path_at (nodes s) (Some a) k" "root s = base (Some a) k"
    and n: "tree_at (nodes s) (Some m) l" "tree_at (nodes s) (Some m) r" "rb_left (nodes s m) = ptr l" "rb_right (nodes s m) = ptr r"
      "rb_color (nodes s m) = c"
    and d: "distinct (lefts k @ elems (T c l m r) @ rights k)" "a \<notin> set (lefts k)" "a \<notin> set (rights k)"
  shows "zip_at (rb_replace_node (Some a) (Some m) (above k) s) (T c l m r) k"
proof -
  have e: "distinct (lefts k @ rights k)" "m \<notin> set (lefts k)" "m \<notin> set (rights k)" "m \<notin> set (elems l)" "m \<notin> set (elems r)"
    "set (elems l) \<inter> (set (lefts k) \<union> set (rights k)) = {}" "set (elems r) \<inter> (set (lefts k) \<union> set (rights k)) = {}"
    using d(1) by auto
  note rf = replace_focus [OF p d(2,3) e(1), where p = "Some m"]
  show ?thesis
    using rf(1,2) rf(3) [OF e(2,3)] rf(4) [OF e(6)] rf(4) [OF e(7)] n d(1) e(2-5)
    by (simp add: zip_at_def rb_replace_node_def)
qed

lemma transplant_at:
  assumes z: "zip_at s (T c (T lc ll L lr) a (T rc rl R rr)) k"
    and m: "m \<notin> set (lefts k @ elems (T c (T lc ll L lr) a (T rc rl R rr)) @ rights k)"
  shows "zip_at (rb_replace_node (Some a) (Some m) (above k) (set_color m c (set_parent R (Some m) (set_right m (Some R)
    (set_parent L (Some m) (set_left m (Some L) s)))))) (T c (T lc ll L lr) m (T rc rl R rr)) k"
proof (rule refocus)
  have "m \<noteq> a" "m \<noteq> L" "m \<noteq> R" "L \<noteq> R" "L \<notin> set (elems rl)" "L \<notin> set (elems rr)" "R \<notin> set (elems ll)" "R \<notin> set (elems lr)"
    "m \<notin> set (elems ll)" "m \<notin> set (elems lr)" "m \<notin> set (elems rl)" "m \<notin> set (elems rr)" "L \<notin> set (elems ll)" "L \<notin> set (elems lr)"
    "R \<notin> set (elems rl)" "R \<notin> set (elems rr)"
    using z m by (auto simp: zip_at_def)
  then show "tree_at (nodes (set_color m c (set_parent R (Some m) (set_right m (Some R) (set_parent L (Some m) (set_left m (Some L) s))))))
      (Some m) (T lc ll L lr)"
    "tree_at (nodes (set_color m c (set_parent R (Some m) (set_right m (Some R) (set_parent L (Some m) (set_left m (Some L) s))))))
      (Some m) (T rc rl R rr)"
    using z by (simp_all add: zip_at_def)
qed (use z m in \<open>auto simp: zip_at_def\<close>)

lemma transplant_child_at:
  assumes z: "zip_at s (T c (T lc ll L lr) a (T d E m rr)) k"
  shows "zip_at (rb_replace_node (Some a) (Some m) (above k) (set_color m c
    (set_parent L (Some m) (set_left m (Some L) s)))) (T c (T lc ll L lr) m rr) k"
proof (rule refocus)
  have "m \<noteq> a" "m \<noteq> L" "m \<notin> set (elems ll)" "m \<notin> set (elems lr)" "m \<notin> set (elems rr)" "L \<notin> set (elems ll)" "L \<notin> set (elems lr)"
    "L \<notin> set (elems rr)"
    using z by (auto simp: zip_at_def)
  then show "tree_at (nodes (set_color m c (set_parent L (Some m) (set_left m (Some L) s)))) (Some m) (T lc ll L lr)"
    "tree_at (nodes (set_color m c (set_parent L (Some m) (set_left m (Some L) s)))) (Some m) rr"
    using z by (simp_all add: zip_at_def)
qed (use z in \<open>auto simp: zip_at_def\<close>)

lemma rb_set_commute:
  "set_left x p (set_parent y q s) = set_parent y q (set_left x p s)"
  "x \<noteq> y \<Longrightarrow> set_left x p (set_left y q s) = set_left y q (set_left x p s)"
  "x \<noteq> y \<Longrightarrow> set_parent x p (set_parent y q s) = set_parent y q (set_parent x p s)"
  by (auto simp: rb_set_defs fun_upd_twist fun_eq_iff)

lemma plug_append: "plug t (k @ k') = plug (plug t k) k'"
  by (induction t k rule: plug.induct) simp_all

lemma zip_append: "zip_at s t (k @ k') \<longleftrightarrow> zip_at s (plug t k) k'"
  by (induction t k rule: plug.induct) simp_all

lemma path_append:
  "lefts (k @ k') = lefts k' @ lefts k" "rights (k @ k') = rights k @ rights k'" "root_col d (k @ k') = root_col (root_col d k) k'"
  "cfits d (k @ k') \<longleftrightarrow> cfits d k \<and> cfits (root_col d k) k'"
  by (induction k arbitrary: d rule: lefts.induct) auto

fun blacks :: "'a frame list \<Rightarrow> nat" where
  "blacks [] = 0"
| "blacks (InL c a r # k) = (if c = BLACK then 1 else 0) + blacks k"
| "blacks (InR c l a # k) = (if c = BLACK then 1 else 0) + blacks k"

lemma hfits_append: "hfits n (k @ k') \<longleftrightarrow> hfits n k \<and> hfits (n + blacks k) k'"
  by (induction n k rule: hfits.induct) auto

lemma bh_plug: "hfits (bh t) k \<Longrightarrow> bh (plug t k) = bh t + blacks k"
  by (induction t k rule: plug.induct) auto

lemma all_left_lefts: "all_left k \<Longrightarrow> lefts k = []"
  by (induction k rule: all_left.induct) auto

lemma ptr_plug: "ptr (plug t k) = base (ptr t) k"
  by (induction t k rule: plug.induct) simp_all

lemma unlink_two_near:
  assumes z: "zip_at s (T c (T lc ll L lr) a (T d E m rr)) k"
  shows "\<exists>s'. rb_unlink a s = Some (ptr rr, Some m, d, s') \<and> zip_at s' rr (InR c (T lc ll L lr) m # k)"
proof -
  have "rb_left (nodes s a) = Some L" "rb_right (nodes s a) = Some m" "ogs_rbtree_min s m = Some m" "rb_right (nodes s m) = ptr rr"
    "rb_parent (nodes s m) = Some a" "rb_color (nodes s m) = d" "rb_color (nodes s a) = c" "rb_parent (nodes s a) = above k"
    "m \<noteq> a" "L \<noteq> a"
    using z by (auto simp: zip_at_def ogs_rbtree_min.simps)
  then show ?thesis using transplant_child_at [OF z] by (simp add: rb_unlink_def)
qed

lemma unlink_two_far:
  assumes z: "zip_at s (T c (T lc ll L lr) a (plug (T d E m rr) k2)) k" and k2: "all_left k2" "k2 \<noteq> []"
  shows "\<exists>s'. rb_unlink a s = Some (ptr rr, above k2, d, s') \<and> zip_at s' (plug rr k2) (InR c (T lc ll L lr) m # k)"
proof -
  let ?l = "T lc ll L lr" and ?k = "k2 @ InR c (T lc ll L lr) a # k"
  obtain e p pr k3 where k3: "k2 = InL e p pr # k3" using k2 by (cases k2 rule: all_left.cases) auto
  obtain rc rl R rr' where R: "plug rr k2 = T rc rl R rr'" using k2 by (cases "plug rr k2") auto
  have R2: "ptr (plug (T d E m rr) k2) = Some R" using ptr_plug [of "T d E m rr" k2] ptr_plug [of rr k2] R k3 by simp
  have f: "zip_at s (T d E m rr) ?k" using z by (simp add: zip_append)
  let ?s1 = "rb_replace_node (Some m) (ptr rr) (Some p) s"
  have z1: "zip_at ?s1 (T c ?l a (T rc rl R rr')) k"
    using replace_node_at [OF f, of rr] R by (simp add: zip_append k3)
  have m: "m \<notin> set (lefts k @ elems (T c ?l a (T rc rl R rr')) @ rights k)"
    unfolding R [symmetric] using zip_distinct [OF z] by auto
  have r: "rb_left (nodes s a) = Some L" "rb_right (nodes s a) = Some R" "rb_color (nodes s a) = c" "rb_parent (nodes s a) = above k"
    "tree_at (nodes s) (Some a) (plug (T d E m rr) k2)" using zip_read [OF z] R2 by auto
  have mn: "ogs_rbtree_min s R = Some m" using min_leftmost [OF r(5) k2(1) R2] .
  have q: "rb_right (nodes s m) = ptr rr" "rb_parent (nodes s m) = Some p" "rb_color (nodes s m) = d" "rb_left (nodes s p) = Some m"
    using f k3 by (auto simp: zip_at_def)
  have ne: "m \<noteq> a" "L \<noteq> a" "p \<noteq> a" "m \<noteq> p" "L \<notin> set (elems rr)" "p \<noteq> L" "a \<notin> set (elems rr)" "R \<noteq> a"
    using zip_distinct [OF f] zip_distinct [OF z1] k3 by (auto simp: path_append)
  let ?s2 = "set_parent L (Some m) (set_left m (Some L) s)"
  let ?s3 = "set_left p (ptr rr) (case ptr rr of Some x \<Rightarrow> set_parent x (Some p) ?s2 | None \<Rightarrow> ?s2)"
  have "?s3 = set_parent L (Some m) (set_left m (Some L) ?s1)"
    using ne q(4) by (cases rr) (auto simp: rb_replace_node_def rb_change_child_def rb_set_commute)
  moreover have "rb_unlink a s = Some (ptr rr, Some p, d, rb_replace_node (Some a) (Some m) (above k)
      (set_color m c (set_parent R (Some m) (set_right m (Some R) ?s3))))"
    using r mn q ne by (cases rr) (auto simp: rb_unlink_def Let_def)
  ultimately show ?thesis using transplant_at [OF z1 m] R k3 by simp
qed

text \<open>
  In all cases the unlinked tree is the old one without \<open>a\<close>, and if the colour taken out is black, the focus is
  one black node short.
\<close>

lemma unlink_ok:
  assumes z: "zip_at s (T c l a r) k" and i: "rb_inv (plug (T c l a r) k)"
  shows "\<exists>t k' d s'. rb_unlink a s = Some (ptr t, above k', d, s') \<and> zip_at s' t k'
    \<and> lefts k' @ elems t @ rights k' = lefts k @ elems l @ elems r @ rights k
    \<and> (if d = BLACK then del_pre t k' else rb_inv (plug t k'))"
proof -
  have inv: "invc (T c l a r)" "invh (T c l a r)" "hfits (bh (T c l a r)) k" "cfits c k" "root_col c k = BLACK"
    using i by (auto simp: rb_inv_def plug_inv)
  have one: ?thesis if t: "l = E \<and> t = r \<or> r = E \<and> t = l" for t
  proof -
    obtain s' where "rb_unlink a s = Some (ptr t, above k, c, s')" "zip_at s' t k" using unlink_one_child [OF z t] by blast
    moreover have "if c = BLACK then del_pre t k else rb_inv (plug t k)"
      using inv t cfits_black [OF inv(4)] root_col_black [OF inv(5)] by (cases t) (auto simp: del_pre_def rb_inv_def plug_inv)
    ultimately show ?thesis using t by fastforce
  qed
  show ?thesis
  proof (cases "l = E \<or> r = E")
    case True then show ?thesis using one by blast
  next
    case False
    obtain lc ll L lr where l: "l = T lc ll L lr" using False by (cases l) auto
    obtain d m rr k2 where r: "r = plug (T d E m rr) k2" "all_left k2" using leftmost_exists False by metis
    let ?k = "k2 @ InR c l m # k"
    have ex: "\<exists>s'. rb_unlink a s = Some (ptr rr, above ?k, d, s') \<and> zip_at s' rr ?k"
    proof (cases "k2 = []")
      case True then show ?thesis using unlink_two_near [of s c lc ll L lr a d m rr k] z l r by simp
    next
      case False
      moreover from False have "above ?k = above k2" by (cases k2) auto
      ultimately show ?thesis using unlink_two_far [of s c lc ll L lr a d m rr k2 k] z l r by (simp add: zip_append)
    qed
    have o: "lefts ?k @ elems rr @ rights ?k = lefts k @ elems l @ elems r @ rights k"
      using all_left_lefts [OF r(2)] by (simp add: r(1) path_append)
    have "if d = BLACK then del_pre rr ?k else rb_inv (plug rr ?k)"
      using inv bh_plug [of "T d E m rr" k2] cfits_black [of d k2] unfolding r(1)
      by (cases d) (auto simp: del_pre_def rb_inv_def plug_inv path_append hfits_append intro: invc_blacken dest: root_col_black)
    with ex o show ?thesis by metis
  qed
qed

text \<open>A node of the sequence as the focus: what comes before and after it.\<close>

lemma zip_split:
  assumes "zip_at s t []" "elems t = xs @ a # ys"
  obtains c l r k where "t = plug (T c l a r) k" "zip_at s (T c l a r) k" "xs = lefts k @ elems l" "ys = elems r @ rights k"
proof -
  have "a \<in> set (elems t)" using assms(2) by simp
  then obtain c l r k where t: "t = plug (T c l a r) k" by (rule zip_exists)
  have z: "zip_at s (T c l a r) k" using assms(1) t zip_plug by blast
  then have "a \<notin> set (lefts k @ elems l)" "a \<notin> set (elems r @ rights k)" by (auto simp: zip_at_def)
  moreover have "(lefts k @ elems l) @ a # (elems r @ rights k) = xs @ a # ys" using assms(2) t by simp
  ultimately have "lefts k @ elems l = xs \<and> elems r @ rights k = ys" using append_Cons_eq_iff [of a "lefts k @ elems l" "elems r @ rights k" xs ys] by blast
  with that t z show thesis by blast
qed

lemma delete_ok:
  assumes "zip_at s t []" "rb_inv t" "elems t = xs @ a # ys"
  shows "\<exists>s' t'. ogs_rbtree_delete a s = Some s' \<and> zip_at s' t' [] \<and> rb_inv t' \<and> elems t' = xs @ ys"
proof -
  obtain c l r k where t: "t = plug (T c l a r) k" and z: "zip_at s (T c l a r) k" and xy: "xs = lefts k @ elems l" "ys = elems r @ rights k"
    using zip_split [OF assms(1,3)] .
  obtain u k' d s' where u: "rb_unlink a s = Some (ptr u, above k', d, s')" "zip_at s' u k'"
    "lefts k' @ elems u @ rights k' = xs @ ys" "if d = BLACK then del_pre u k' else rb_inv (plug u k')"
    using unlink_ok [OF z] assms(2) t xy by auto
  show ?thesis
  proof (cases "d = BLACK")
    case True
    then show ?thesis using u delete_color_ok [OF u(2)] by (simp add: ogs_rbtree_delete_def)
  next
    case False
    then show ?thesis using u zip_plug [of s' u k']
      by (auto simp: ogs_rbtree_delete_def intro!: exI [of _ "plug u k'"])
  qed
qed

subsection \<open>Traversal follows the order\<close>

lemma or_Some [simp]:
  "map_option Some (hd_or (Some x) xs) = Some (hd_or (Some x) xs)" "map_option Some (last_or (Some x) xs) = Some (last_or (Some x) xs)"
  by (cases xs; simp) (induction xs arbitrary: x; simp)

lemma min_ok: "tree_at (nodes s) p t \<Longrightarrow> ptr t = Some x \<Longrightarrow> ogs_rbtree_min s x = hd_or None (elems t)"
proof (induction t arbitrary: p x)
  case (T c l a r)
  show ?case
  proof (cases l)
    case E then show ?thesis using T.prems by (subst ogs_rbtree_min.simps) simp
  next
    case (T d l' b r')
    note u = this
    then have "ogs_rbtree_min s b = hd_or None (elems l)" using T.IH(1) [of "Some a" b] T.prems by simp
    then show ?thesis using T.prems u by (subst ogs_rbtree_min.simps) simp
  qed
qed simp

lemma max_ok: "tree_at (nodes s) p t \<Longrightarrow> ptr t = Some x \<Longrightarrow> ogs_rbtree_max s x = last_or None (elems t)"
proof (induction t arbitrary: p x)
  case (T c l a r)
  show ?case
  proof (cases r)
    case E then show ?thesis using T.prems by (subst ogs_rbtree_max.simps) simp
  next
    case (T d l' b r')
    note u = this
    then have "ogs_rbtree_max s b = last_or None (elems r)" using T.IH(2) [of "Some a" b] T.prems by simp
    then show ?thesis using T.prems u by (subst ogs_rbtree_max.simps) simp
  qed
qed simp

lemma climb_right_ok:
  assumes "path_at (nodes s) (Some x) k" "rb_parent (nodes s x) = above k" "x \<notin> set (lefts k) \<union> set (rights k)"
    "distinct (lefts k @ rights k)"
  shows "climb_right s x = Some (hd_or None (rights k))"
  using assms
proof (induction k arbitrary: x rule: lefts.induct)
  case 1 then show ?case by (subst climb_right.simps) simp
next
  case (2 c a r k)
  have "ptr r \<noteq> Some x" using 2 by auto
  then show ?case using 2 by (subst climb_right.simps) auto
next
  case (3 c l a k)
  then show ?case by (subst climb_right.simps) auto
qed

lemma climb_left_ok:
  assumes "path_at (nodes s) (Some x) k" "rb_parent (nodes s x) = above k" "x \<notin> set (lefts k) \<union> set (rights k)"
    "distinct (lefts k @ rights k)"
  shows "climb_left s x = Some (last_or None (lefts k))"
  using assms
proof (induction k arbitrary: x rule: lefts.induct)
  case 1 then show ?case by (subst climb_left.simps) simp
next
  case (2 c a r k)
  then show ?case by (subst climb_left.simps) auto
next
  case (3 c l a k)
  have "ptr l \<noteq> Some x" using 3 by auto
  then show ?case using 3 by (subst climb_left.simps) auto
qed

lemma next_ok:
  assumes "zip_at s t []" "elems t = xs @ a # ys"
  shows "ogs_rbtree_next s a = Some (hd_or None ys)"
proof -
  obtain c l r k where z: "zip_at s (T c l a r) k" and ys: "ys = elems r @ rights k" using zip_split [OF assms] by metis
  have d: "a \<notin> set (lefts k) \<union> set (rights k)" "distinct (lefts k @ rights k)" "path_at (nodes s) (Some a) k"
    using z by (auto simp: zip_at_def)
  have "\<not> rb_empty_node s a" using zip_read(1) [OF z] above_in [of k a] d(1) by (auto simp: rb_empty_node_def)
  then show ?thesis
    using zip_read [OF z] climb_right_ok [OF d(3) _ d(1,2)] ys min_ok [of s "Some a" r]
    by (cases r) (auto simp: ogs_rbtree_next_def)
qed

lemma prev_ok:
  assumes "zip_at s t []" "elems t = xs @ a # ys"
  shows "ogs_rbtree_prev s a = Some (last_or None xs)"
proof -
  obtain c l r k where z: "zip_at s (T c l a r) k" and xs: "xs = lefts k @ elems l" using zip_split [OF assms] by metis
  have d: "a \<notin> set (lefts k) \<union> set (rights k)" "distinct (lefts k @ rights k)" "path_at (nodes s) (Some a) k"
    using z by (auto simp: zip_at_def)
  have "\<not> rb_empty_node s a" using zip_read(1) [OF z] above_in [of k a] d(1) by (auto simp: rb_empty_node_def)
  then show ?thesis
    using zip_read [OF z] climb_left_ok [OF d(3) _ d(1,2)] xs max_ok [of s "Some a" l]
    by (cases l) (auto simp: ogs_rbtree_prev_def)
qed

lemma first_ok: "zip_at s t [] \<Longrightarrow> ogs_rbtree_first s = Some (hd_or None (elems t))"
  using min_ok [of s None t] by (cases t) (auto simp: ogs_rbtree_first_def zip_at_def)

lemma last_ok: "zip_at s t [] \<Longrightarrow> ogs_rbtree_last s = Some (last_or None (elems t))"
  using max_ok [of s None t] by (cases t) (auto simp: ogs_rbtree_last_def zip_at_def)

lemma count_from_ok:
  "zip_at s t [] \<Longrightarrow> elems t = xs @ ys \<Longrightarrow> rb_count_from s (hd_or None ys) i = Some (i + int (length ys))"
proof (induction ys arbitrary: xs i)
  case Nil then show ?case by (subst rb_count_from.simps) simp
next
  case (Cons y ys)
  then show ?case using next_ok [OF Cons.prems] Cons.IH [of "xs @ [y]" "i + 1"] by (subst rb_count_from.simps) simp
qed

lemma count_ok: "zip_at s t [] \<Longrightarrow> ogs_rbtree_count s = Some (int (length (elems t)))"
  using count_from_ok [of s t "[]" "elems t" 0] first_ok [of s t] by (simp add: ogs_rbtree_count_def)

subsection \<open>The tree as a sequence of nodes\<close>

text \<open>
  \<open>rb_repr s xs\<close>: the heap holds a red-black tree with the nodes \<open>xs\<close> from left to right. \<open>rb_hole s p k xs ys\<close>: the
  NULL pointer stored at the link \<open>k\<close> of the node \<open>p\<close> is the place between \<open>xs\<close> and \<open>ys\<close>.
\<close>

definition rb_repr :: "'a ogs_rbtree \<Rightarrow> 'a list \<Rightarrow> bool" where
  "rb_repr s xs \<longleftrightarrow> (\<exists>t. zip_at s t [] \<and> rb_inv t \<and> elems t = xs)"

definition rb_hole :: "'a ogs_rbtree \<Rightarrow> 'a option \<Rightarrow> 'a link \<Rightarrow> 'a list \<Rightarrow> 'a list \<Rightarrow> bool" where
  "rb_hole s p k xs ys \<longleftrightarrow> (\<exists>f. zip_at s E f \<and> rb_inv (plug E f) \<and> p = above f \<and> k = link_of f \<and> xs = lefts f \<and> ys = rights f)"

lemma rb_repr_distinct: "rb_repr s xs \<Longrightarrow> distinct xs"
  by (auto simp: rb_repr_def dest: zip_distinct)

lemma rb_repr_empty: "rb_repr \<lparr>nodes = h, root = None\<rparr> []"
  by (auto simp: rb_repr_def zip_at_def rb_inv_def intro!: exI [of _ E])

lemma rb_repr_delete: "rb_repr s (xs @ a # ys) \<Longrightarrow> \<exists>s'. ogs_rbtree_delete a s = Some s' \<and> rb_repr s' (xs @ ys)"
  unfolding rb_repr_def using delete_ok by metis

lemma rb_repr_insert:
  "rb_hole s p k xs ys \<Longrightarrow> a \<notin> set xs \<Longrightarrow> a \<notin> set ys \<Longrightarrow>
   \<exists>s'. ogs_rbtree_insert_color a (ogs_rbtree_link_node a p k s) = Some s' \<and> rb_repr s' (xs @ a # ys)"
  unfolding rb_repr_def rb_hole_def using insert_color_ok by metis

lemma rb_repr_first: "rb_repr s xs \<Longrightarrow> ogs_rbtree_first s = Some (hd_or None xs)"
  by (auto simp: rb_repr_def dest: first_ok)

lemma rb_repr_next: "rb_repr s (xs @ a # ys) \<Longrightarrow> ogs_rbtree_next s a = Some (hd_or None ys)"
  by (auto simp: rb_repr_def dest: next_ok)

text \<open>What the timers need of an ordered container of nodes.\<close>

locale node_sequence =
  fixes repr :: "'s \<Rightarrow> 'a list \<Rightarrow> bool"
    and first :: "'s \<Rightarrow> 'a option option"
    and succ :: "'s \<Rightarrow> 'a \<Rightarrow> 'a option option"
    and delete :: "'a \<Rightarrow> 's \<Rightarrow> 's option"
  assumes distinct: "repr s xs \<Longrightarrow> distinct xs"
    and first: "repr s xs \<Longrightarrow> first s = Some (hd_or None xs)"
    and succ: "repr s (xs @ a # ys) \<Longrightarrow> succ s a = Some (hd_or None ys)"
    and delete: "repr s (xs @ a # ys) \<Longrightarrow> \<exists>s'. delete a s = Some s' \<and> repr s' (xs @ ys)"
begin

lemma delete_member:
  assumes "repr s xs" "a \<in> set xs" shows "\<exists>s'. delete a s = Some s' \<and> repr s' (remove1 a xs)"
proof -
  obtain us vs where "xs = us @ a # vs" using assms(2) by (auto simp: in_set_conv_decomp)
  then show ?thesis using delete [of s us a vs] assms(1) distinct split_list_eq by metis
qed

lemma delete_prefix: "repr s (us @ vs) \<Longrightarrow> \<exists>s'. foldM delete us s = Some s' \<and> repr s' vs"
proof (induction us arbitrary: s)
  case (Cons u us)
  obtain s1 where "delete u s = Some s1" "repr s1 (us @ vs)" using delete [of s "[]" u "us @ vs"] Cons.prems by auto
  with Cons.IH show ?case by auto
qed simp

end

interpretation rbseq: node_sequence rb_repr ogs_rbtree_first ogs_rbtree_next ogs_rbtree_delete
  by unfold_locales (auto intro: rb_repr_distinct rb_repr_first rb_repr_next rb_repr_delete)

subsection \<open>Depth\<close>

fun height :: "'a rbt \<Rightarrow> nat" where
  "height E = 0"
| "height (T c l a r) = Suc (max (height l) (height r))"

lemma height_bh: "invc t \<Longrightarrow> invh t \<Longrightarrow> height t \<le> 2 * bh t + (if col t = RED then 1 else 0)"
proof (induction t)
  case (T c l a r)
  then show ?case by (cases c) (auto split: if_splits)
qed simp

lemma bh_size: "invh t \<Longrightarrow> 2 ^ bh t \<le> Suc (length (elems t))"
proof (induction t)
  case (T c l a r)
  then have "(2::nat) ^ bh l + 2 ^ bh r \<le> Suc (Suc (length (elems l) + length (elems r)))" by auto
  with T.prems show ?case using zero_less_power [of "2::nat" "bh l"] by (auto simp: algebra_simps)
qed simp

lemma length_path: "length k + height t \<le> height (plug t k)"
proof (induction t k rule: plug.induct)
  case (2 t c a r k)
  have "Suc (height t) \<le> height (T c t a r)" by simp
  with 2 show ?case by simp
next
  case (3 t c l a k)
  have "Suc (height t) \<le> height (T c l a t)" by simp
  with 3 show ?case by simp
qed simp

text \<open>The number of links from the root down to a place in the tree.\<close>

partial_function (option) depth_of :: "'a ogs_rbtree \<Rightarrow> 'a option \<Rightarrow> nat option" where
  "depth_of s p = (case p of None \<Rightarrow> Some 0 | Some a \<Rightarrow> do { d \<leftarrow> depth_of s (rb_parent (nodes s a)); Some (Suc d) })"

lemma depth_path: "path_at (nodes s) p k \<Longrightarrow> depth_of s (above k) = Some (length k)"
proof (induction k arbitrary: p)
  case Nil then show ?case by (subst depth_of.simps) simp
next
  case (Cons f k)
  then have "rb_parent (nodes s (frame_node f)) = above k" "\<exists>q. path_at (nodes s) q k" by (cases f; auto)+
  then show ?case using Cons.IH by (subst depth_of.simps) auto
qed

subsection \<open>Properties of the tree\<close>

text \<open>C6. Linking a node at a NULL link and rebalancing with \<open>ogs_rbtree_insert_color\<close> returns (no NULL is followed, no
  assertion fails, the loop ends) with a red-black tree that has the new node at exactly that place and all others in their order.\<close>

theorem rbtree_insert_correct:
  assumes "rb_hole s p k xs ys" "a \<notin> set xs" "a \<notin> set ys"
  shows "\<exists>s'. ogs_rbtree_insert_color a (ogs_rbtree_link_node a p k s) = Some s' \<and> rb_repr s' (xs @ a # ys)"
  using rb_repr_insert [OF assms] .

definition sample_rbtree :: "nat ogs_rbtree" where
  "sample_rbtree = \<lparr>nodes = (\<lambda>_. \<lparr>rb_parent = None, rb_left = None, rb_right = None, rb_color = BLACK\<rparr>)
     (2 := \<lparr>rb_parent = None, rb_left = Some 1, rb_right = Some 3, rb_color = BLACK\<rparr>,
      1 := \<lparr>rb_parent = Some 2, rb_left = None, rb_right = None, rb_color = RED\<rparr>,
      3 := \<lparr>rb_parent = Some 2, rb_left = None, rb_right = None, rb_color = RED\<rparr>), root = Some 2\<rparr>"

lemma sample_rbtree_zip: "zip_at sample_rbtree (T BLACK (T RED E 1 E) 2 (T RED E 3 E)) []"
  by (simp add: sample_rbtree_def zip_at_def)

lemma sample_rbtree_repr: "rb_repr sample_rbtree [1, 2, 3]"
  unfolding rb_repr_def using sample_rbtree_zip
  by (intro exI [of _ "T BLACK (T RED E 1 E) 2 (T RED E 3 E)"]) (simp add: rb_inv_def)

lemma sample_rbtree_hole: "rb_hole sample_rbtree (Some 3) (LeftLink 3) [1, 2] [3]"
  unfolding rb_hole_def using sample_rbtree_zip
  by (intro exI [of _ "[InL RED 3 E, InR BLACK (T RED E 1 E) 2]"]) (simp add: rb_inv_def)

theorem rbtree_insert_correct_witness:
  "\<exists>s'. ogs_rbtree_insert_color 7 (ogs_rbtree_link_node 7 (Some 3) (LeftLink 3) sample_rbtree) = Some s' \<and> rb_repr s' [1, 2, 7, 3]"
  using rbtree_insert_correct [OF sample_rbtree_hole, of 7] by simp

text \<open>C5. \<open>ogs_rbtree_delete\<close> of any node of a red-black tree returns with a red-black tree of the other nodes in their order.\<close>

theorem rbtree_delete_correct:
  assumes "rb_repr s (xs @ a # ys)"
  shows "\<exists>s'. ogs_rbtree_delete a s = Some s' \<and> rb_repr s' (xs @ ys)"
  using rb_repr_delete [OF assms] .

theorem rbtree_delete_correct_witness:
  "\<exists>s'. ogs_rbtree_delete 2 sample_rbtree = Some s' \<and> rb_repr s' [1, 3]"
  using rbtree_delete_correct [of sample_rbtree "[1]" 2 "[3]"] sample_rbtree_repr by simp

text \<open>Traversal: \<open>first\<close>, \<open>last\<close>, \<open>next\<close>, \<open>prev\<close> and \<open>count\<close> return and agree with the sequence of the nodes, NULL being
  the end of it.\<close>

theorem rbtree_traversal:
  assumes "rb_repr s (xs @ a # ys)"
  shows "ogs_rbtree_next s a = Some (hd_or None ys) \<and> ogs_rbtree_prev s a = Some (last_or None xs)
    \<and> ogs_rbtree_first s = Some (hd_or (Some a) xs) \<and> ogs_rbtree_last s = Some (last_or (Some a) ys)
    \<and> ogs_rbtree_count s = Some (int (length xs + length ys + 1)) \<and> \<not> ogs_rbtree_empty s"
proof -
  obtain t where t: "zip_at s t []" "elems t = xs @ a # ys" using assms by (auto simp: rb_repr_def)
  moreover have "root s \<noteq> None" using t by (cases t) (auto simp: zip_at_def)
  ultimately show ?thesis
    using next_ok [OF t] prev_ok [OF t] first_ok [OF t(1)] last_ok [OF t(1)] count_ok [OF t(1)] by (simp add: ogs_rbtree_empty_def)
qed

theorem rbtree_traversal_witness:
  "ogs_rbtree_next sample_rbtree 1 = Some (Some 2) \<and> ogs_rbtree_last sample_rbtree = Some (Some 3)
    \<and> ogs_rbtree_count sample_rbtree = Some 3"
  using rbtree_traversal [of sample_rbtree "[]" 1 "[2, 3]"] sample_rbtree_repr by simp



end
