(* ===== verification/Ogs_Timer.thy ===== *)
theory Ogs_Timer
  imports Ogs_Rbtree Ogs_List Ogs_Pool
begin

section \<open>Timers (lib/core/ogs-timer.c)\<close>

text \<open>
  The timer manager keeps its running timers in a red-black tree ordered by timeout. A timer is a node of
  a pool; its tree node and its list node are embedded in it, so a timer, its tree node and its
  list node have the same number. A callback and its argument are one value; what callbacks do is a parameter of
  \<open>ogs_timer_mgr_expire\<close>, which may use the manager. The clock is an argument of every operation that reads
  it. Times are 64-bit signed microseconds, and an overflow is \<open>None\<close>.
\<close>

record 'd ogs_timer =
  t_cb :: "'d option"
  t_manager :: bool
  t_running :: bool
  t_timeout :: int

text \<open>The list header of \<open>ogs_timer_mgr_expire\<close> is at the address \<open>None\<close>, the list node of timer \<open>i\<close> at \<open>Some i\<close>.\<close>

record 'd ogs_timer_mgr =
  m_pool :: ogs_pool
  m_tree :: "nat ogs_rbtree"
  m_timers :: "nat \<Rightarrow> 'd ogs_timer"
  m_lnodes :: "nat option lheap"

definition ogs_time :: "int \<Rightarrow> int option" where
  "ogs_time x = (if - (2 ^ 63) \<le> x \<and> x < 2 ^ 63 then Some x else None)"

definition OGS_INFINITE_TIME :: int where "OGS_INFINITE_TIME = -1"
definition OGS_NO_WAIT_TIME :: int where "OGS_NO_WAIT_TIME = 0"

definition upd_timer :: "nat \<Rightarrow> ('d ogs_timer \<Rightarrow> 'd ogs_timer) \<Rightarrow> 'd ogs_timer_mgr \<Rightarrow> 'd ogs_timer_mgr" where
  "upd_timer i f m = m\<lparr>m_timers := (m_timers m)(i := f (m_timers m i))\<rparr>"

subsection \<open>Operations\<close>

text \<open>The loop of \<open>add_timer_node\<close>: \<open>new\<close> is the link to look at, \<open>parent\<close> the node it is in.\<close>

partial_function (option) timer_link :: "'d ogs_timer_mgr \<Rightarrow> int \<Rightarrow> nat option \<Rightarrow> nat link \<Rightarrow> (nat option \<times> nat link) option" where
  "timer_link m timeout parent new =
     (case get_link new (m_tree m) of
        None \<Rightarrow> Some (parent, new)
      | Some this \<Rightarrow>
          if timeout < t_timeout (m_timers m this) then timer_link m timeout (Some this) (LeftLink this)
          else timer_link m timeout (Some this) (RightLink this))"

definition add_timer_node :: "nat \<Rightarrow> int \<Rightarrow> int \<Rightarrow> 'd ogs_timer_mgr \<Rightarrow> 'd ogs_timer_mgr option" where
  "add_timer_node timer duration now m =
     do { timeout \<leftarrow> ogs_time (now + duration);
          let m = upd_timer timer (\<lambda>t. t\<lparr>t_timeout := timeout\<rparr>) m;
          (parent, new) \<leftarrow> timer_link m timeout None RootLink;
          s \<leftarrow> ogs_rbtree_insert_color timer (ogs_rbtree_link_node timer parent new (m_tree m));
          Some (m\<lparr>m_tree := s\<rparr>) }"

text \<open>The contents of the new pool are those \<open>malloc\<close> returns; the tree is empty.\<close>

definition ogs_timer_mgr_create ::
  "bool \<Rightarrow> nat \<Rightarrow> u32 list \<Rightarrow> u32 \<Rightarrow> (nat \<Rightarrow> nat ogs_rbnode) \<Rightarrow> (nat \<Rightarrow> 'd ogs_timer) \<Rightarrow> nat option lheap \<Rightarrow> 'd ogs_timer_mgr option" where
  "ogs_timer_mgr_create calloc_ok capacity contents sd rbnodes timers lnodes =
     (if \<not> calloc_ok then None
      else Some \<lparr>m_pool = ogs_pool_init capacity contents 0 sd, m_tree = \<lparr>nodes = rbnodes, root = None\<rparr>, m_timers = timers,
             m_lnodes = lnodes\<rparr>)"

definition ogs_timer_mgr_destroy :: "'d ogs_timer_mgr \<Rightarrow> nat" where
  "ogs_timer_mgr_destroy m = ogs_pool_final (m_pool m)"

definition ogs_timer_add :: "'d option \<Rightarrow> 'd ogs_timer_mgr \<Rightarrow> (nat option \<times> 'd ogs_timer_mgr) option" where
  "ogs_timer_add cb m =
     do { (timer, p) \<leftarrow> ogs_pool_alloc (m_pool m);
          let m = m\<lparr>m_pool := p\<rparr>;
          case timer of
            None \<Rightarrow> Some (None, m)
          | Some i \<Rightarrow>
              let m = m\<lparr>m_tree := (m_tree m)\<lparr>nodes := (nodes (m_tree m))(i := \<lparr>rb_parent = None, rb_left = None, rb_right = None,
                          rb_color = OGS_RBTREE_BLACK\<rparr>)\<rparr>,
                        m_lnodes := (m_lnodes m)(Some i := \<lparr>prev = None, next = None\<rparr>)\<rparr>;
                  m = upd_timer i (\<lambda>t. \<lparr>t_cb = None, t_manager = False, t_running = False, t_timeout = 0\<rparr>) m;
                  m = upd_timer i (\<lambda>t. t\<lparr>t_cb := cb, t_manager := True\<rparr>) m
              in Some (Some i, m) }"

definition ogs_timer_stop :: "nat \<Rightarrow> 'd ogs_timer_mgr \<Rightarrow> 'd ogs_timer_mgr option" where
  "ogs_timer_stop timer m =
     do { ogs_assert (t_manager (m_timers m timer));
          if \<not> t_running (m_timers m timer) then Some m
          else do { let m = upd_timer timer (\<lambda>t. t\<lparr>t_running := False\<rparr>) m;
                    s \<leftarrow> ogs_rbtree_delete timer (m_tree m);
                    Some (m\<lparr>m_tree := s\<rparr>) } }"

definition ogs_timer_delete :: "nat \<Rightarrow> 'd ogs_timer_mgr \<Rightarrow> 'd ogs_timer_mgr option" where
  "ogs_timer_delete timer m =
     do { ogs_assert (t_manager (m_timers m timer));
          m \<leftarrow> ogs_timer_stop timer m;
          Some (m\<lparr>m_pool := ogs_pool_free timer (m_pool m)\<rparr>) }"

definition ogs_timer_start :: "nat \<Rightarrow> int \<Rightarrow> int \<Rightarrow> 'd ogs_timer_mgr \<Rightarrow> 'd ogs_timer_mgr option" where
  "ogs_timer_start timer duration now m =
     do { ogs_assert (duration \<noteq> 0);
          ogs_assert (t_manager (m_timers m timer));
          s \<leftarrow> (if t_running (m_timers m timer) then ogs_rbtree_delete timer (m_tree m) else Some (m_tree m));
          let m = m\<lparr>m_tree := s\<rparr>;
          let m = upd_timer timer (\<lambda>t. t\<lparr>t_running := True\<rparr>) m;
          add_timer_node timer duration now m }"

definition ogs_timer_mgr_next :: "int \<Rightarrow> 'd ogs_timer_mgr \<Rightarrow> int option" where
  "ogs_timer_mgr_next current m =
     do { rbnode \<leftarrow> ogs_rbtree_first (m_tree m);
          case rbnode of
            Some this \<Rightarrow>
              if t_timeout (m_timers m this) > current then ogs_time (t_timeout (m_timers m this) - current)
              else Some OGS_NO_WAIT_TIME
          | None \<Rightarrow> Some OGS_INFINITE_TIME }"

text \<open>The two loops of \<open>ogs_timer_mgr_expire\<close>: collect what is due, then stop and call back. \<open>w\<close> is the state callbacks work on.\<close>

partial_function (option) collect_expired :: "int \<Rightarrow> nat option \<Rightarrow> 'd ogs_timer_mgr \<Rightarrow> 'd ogs_timer_mgr option" where
  "collect_expired current rbnode m =
     (case rbnode of
        None \<Rightarrow> Some m
      | Some this \<Rightarrow>
          if t_timeout (m_timers m this) > current then Some m
          else do { let m = m\<lparr>m_lnodes := ogs_list_add None (Some this) (m_lnodes m)\<rparr>;
                    rbnode \<leftarrow> ogs_rbtree_next (m_tree m) this;
                    collect_expired current rbnode m })"

definition call_back :: "('d \<Rightarrow> 'd ogs_timer_mgr \<times> 'w \<Rightarrow> ('d ogs_timer_mgr \<times> 'w) option) \<Rightarrow> nat
    \<Rightarrow> 'd ogs_timer_mgr \<times> 'w \<Rightarrow> ('d ogs_timer_mgr \<times> 'w) option" where
  "call_back cb this mw =
     do { m \<leftarrow> ogs_timer_stop this (fst mw);
          case t_cb (m_timers m this) of Some d \<Rightarrow> cb d (m, snd mw) | None \<Rightarrow> Some (m, snd mw) }"

partial_function (option) fire_expired :: "('d \<Rightarrow> 'd ogs_timer_mgr \<times> 'w \<Rightarrow> ('d ogs_timer_mgr \<times> 'w) option) \<Rightarrow> nat option option
    \<Rightarrow> 'd ogs_timer_mgr \<times> 'w \<Rightarrow> ('d ogs_timer_mgr \<times> 'w) option" where
  "fire_expired cb lnode mw =
     (case lnode of
        None \<Rightarrow> Some mw
      | Some n \<Rightarrow> do { this \<leftarrow> n;
                       mw \<leftarrow> call_back cb this mw;
                       fire_expired cb (ogs_list_next (m_lnodes (fst mw)) n) mw })"

definition ogs_timer_mgr_expire :: "('d \<Rightarrow> 'd ogs_timer_mgr \<times> 'w \<Rightarrow> ('d ogs_timer_mgr \<times> 'w) option) \<Rightarrow> int
    \<Rightarrow> 'd ogs_timer_mgr \<times> 'w \<Rightarrow> ('d ogs_timer_mgr \<times> 'w) option" where
  "ogs_timer_mgr_expire cb current mw =
     do { let m = (fst mw)\<lparr>m_lnodes := ogs_list_init None (m_lnodes (fst mw))\<rparr>;
          rbnode \<leftarrow> ogs_rbtree_first (m_tree m);
          m \<leftarrow> collect_expired current rbnode m;
          fire_expired cb (ogs_list_first (m_lnodes m) None) (m, snd mw) }"

subsection \<open>The invariant\<close>

text \<open>
  \<open>timer_inv m xs\<close>: the tree holds the timers \<open>xs\<close>, in the order of their timeouts; of the timers in use these are exactly
  the running ones, and all timers in use know the manager.
\<close>

abbreviation timeout :: "'d ogs_timer_mgr \<Rightarrow> nat \<Rightarrow> int" where
  "timeout m i \<equiv> t_timeout (m_timers m i)"

definition timer_inv :: "'d ogs_timer_mgr \<Rightarrow> nat list \<Rightarrow> bool" where
  "timer_inv m xs \<longleftrightarrow> rb_repr (m_tree m) xs \<and> sorted_wrt (\<lambda>i j. timeout m i \<le> timeout m j) xs
     \<and> set xs \<subseteq> live (m_pool m) \<and> (\<forall>i \<in> live (m_pool m). t_manager (m_timers m i) \<and> (t_running (m_timers m i) \<longleftrightarrow> i \<in> set xs))
     \<and> (\<exists>fs. pool_repr (m_pool m) fs)"

lemma timer_invD:
  assumes "timer_inv m xs"
  shows "rb_repr (m_tree m) xs" "distinct xs" "i \<in> live (m_pool m) \<Longrightarrow> t_manager (m_timers m i)"
    "i \<in> live (m_pool m) \<Longrightarrow> t_running (m_timers m i) \<longleftrightarrow> i \<in> set xs"
  using assms by (auto simp: timer_inv_def rbseq.distinct)

lemma upd_timer_simps [simp]:
  "m_tree (upd_timer i f m) = m_tree m" "m_pool (upd_timer i f m) = m_pool m" "m_lnodes (upd_timer i f m) = m_lnodes m"
  "m_timers (upd_timer i f m) j = (if j = i then f (m_timers m i) else m_timers m j)"
  by (simp_all add: upd_timer_def)

lemma timer_inv_create:
  assumes "0 < n" shows "\<exists>m. ogs_timer_mgr_create True n contents sd rb ts ln = Some m \<and> timer_inv m []"
  using pool_repr_init [OF assms, of contents 0 sd] rb_repr_empty live_repr [OF pool_repr_init [OF assms, of contents 0 sd]]
  by (auto simp: ogs_timer_mgr_create_def timer_inv_def) (auto simp: ogs_pool_init_def live_def)

text \<open>The loop of \<open>add_timer_node\<close> ends at the place behind all timers that are not later.\<close>

lemma get_link_zip: "zip_at s t k \<Longrightarrow> get_link (link_of k) s = ptr t"
  by (cases k rule: lefts.cases) (auto simp: get_link_def zip_at_def)

lemma timer_link_ok:
  assumes "zip_at (m_tree m) t k" "rb_inv (plug t k)" "sorted_wrt (\<lambda>i j. timeout m i \<le> timeout m j) (elems t)"
    "\<forall>i \<in> set (lefts k). timeout m i \<le> x" "\<forall>i \<in> set (rights k). x < timeout m i"
  shows "\<exists>p l us vs. timer_link m x (above k) (link_of k) = Some (p, l) \<and> rb_hole (m_tree m) p l us vs
    \<and> us @ vs = elems (plug t k) \<and> (\<forall>i \<in> set us. timeout m i \<le> x) \<and> (\<forall>i \<in> set vs. x < timeout m i)"
  using assms
proof (induction t arbitrary: k)
  case E
  then have "timer_link m x (above k) (link_of k) = Some (above k, link_of k)"
    using get_link_zip [OF E.prems(1)] by (subst timer_link.simps) simp
  moreover have "rb_hole (m_tree m) (above k) (link_of k) (lefts k) (rights k)" using E by (auto simp: rb_hole_def)
  ultimately show ?case using E by fastforce
next
  case (T c l a r)
  have g: "get_link (link_of k) (m_tree m) = Some a" using get_link_zip [OF T.prems(1)] by simp
  show ?case
  proof (cases "x < timeout m a")
    case True
    then have "timer_link m x (above k) (link_of k) = timer_link m x (above (InL c a r # k)) (link_of (InL c a r # k))"
      using g by (subst timer_link.simps) simp
    moreover have "\<forall>i \<in> set (rights (InL c a r # k)). x < timeout m i" using T.prems True by (fastforce simp: sorted_wrt_append)
    ultimately show ?thesis using T.IH(1) [of "InL c a r # k"] T.prems by (simp add: sorted_wrt_append)
  next
    case False
    then have "timer_link m x (above k) (link_of k) = timer_link m x (above (InR c l a # k)) (link_of (InR c l a # k))"
      using g by (subst timer_link.simps) simp
    moreover have "\<forall>i \<in> set (lefts (InR c l a # k)). timeout m i \<le> x" using T.prems False by (fastforce simp: sorted_wrt_append)
    ultimately show ?thesis using T.IH(2) [of "InR c l a # k"] T.prems by (simp add: sorted_wrt_append)
  qed
qed

lemma split_by:
  assumes "us @ vs = xs" "\<forall>i \<in> set us. P i" "\<forall>i \<in> set vs. \<not> P i"
  shows "us = takeWhile P xs" "vs = dropWhile P xs"
proof -
  have "takeWhile P (us @ vs) = us \<and> dropWhile P (us @ vs) = vs"
    using assms(2,3) by (cases vs) (auto simp: takeWhile_append2 dropWhile_append2)
  then show "us = takeWhile P xs" "vs = dropWhile P xs" using assms(1) by auto
qed

definition place :: "(nat \<Rightarrow> int) \<Rightarrow> int \<Rightarrow> nat \<Rightarrow> nat list \<Rightarrow> nat list" where
  "place f x i xs = takeWhile (\<lambda>j. f j \<le> x) xs @ i # dropWhile (\<lambda>j. f j \<le> x) xs"

lemma set_place: "set (place f x i xs) = insert i (set xs)"
  by (simp add: place_def) (metis set_append takeWhile_dropWhile_id)

lemma dropWhile_later:
  "sorted_wrt (\<lambda>i j. f i \<le> f j) xs \<Longrightarrow> j \<in> set (dropWhile (\<lambda>j. f j \<le> x) xs) \<Longrightarrow> (x :: int) < f j"
  by (induction xs) (auto split: if_splits)

lemma place_sorted:
  assumes "sorted_wrt (\<lambda>i j. f i \<le> f j) xs" "\<And>j. j \<in> set xs \<Longrightarrow> g j = f j" "g i = x"
  shows "sorted_wrt (\<lambda>i j. g i \<le> g j) (place f x i xs)"
proof -
  let ?us = "takeWhile (\<lambda>j. f j \<le> x) xs" and ?vs = "dropWhile (\<lambda>j. f j \<le> x) xs"
  have "sorted_wrt (\<lambda>i j. g i \<le> g j) (?us @ ?vs)"
    using assms(1) by (simp, rule sorted_wrt_mono_rel [rotated]) (simp add: assms(2))
  moreover have "g u \<le> x" if "u \<in> set ?us" for u using set_takeWhileD [OF that] assms(2) by auto
  moreover have "x \<le> g v" if "v \<in> set ?vs" for v
    using dropWhile_later [OF assms(1) that] set_dropWhileD [OF that] assms(2) by fastforce
  ultimately show ?thesis by (auto simp: place_def sorted_wrt_append assms(3) intro: order.trans [of _ x])
qed

lemma add_timer_node_ok:
  assumes "rb_repr (m_tree m) xs" "\<And>j. timeout m j = f j" "sorted_wrt (\<lambda>i j. f i \<le> f j) xs" "i \<notin> set xs" "ogs_time (now + d) = Some x"
  shows "\<exists>s. add_timer_node i d now m = Some ((upd_timer i (\<lambda>t. t\<lparr>t_timeout := x\<rparr>) m)\<lparr>m_tree := s\<rparr>)
    \<and> rb_repr s (place f x i xs)"
proof -
  let ?m = "upd_timer i (\<lambda>t. t\<lparr>t_timeout := x\<rparr>) m"
  have to: "timeout ?m j = f j" if "j \<in> set xs" for j using that assms(2,4) by auto
  obtain t where t: "zip_at (m_tree ?m) t []" "rb_inv t" "elems t = xs" using assms(1) by (auto simp: rb_repr_def)
  have "sorted_wrt (\<lambda>i j. timeout ?m i \<le> timeout ?m j) (elems t)"
    using assms(3) unfolding t(3) by (rule sorted_wrt_mono_rel [rotated]) (simp del: upd_timer_simps add: to)
  then obtain p l us vs where l: "timer_link ?m x None RootLink = Some (p, l)" "rb_hole (m_tree ?m) p l us vs" "us @ vs = xs"
      "\<forall>i \<in> set us. timeout ?m i \<le> x" "\<forall>i \<in> set vs. x < timeout ?m i"
    using timer_link_ok [OF t(1), of x] t by auto
  have n: "i \<notin> set us" "i \<notin> set vs" using l(3) assms(4) by auto
  have "us = takeWhile (\<lambda>j. f j \<le> x) xs" "vs = dropWhile (\<lambda>j. f j \<le> x) xs"
    using l(3-5) to by (intro split_by; force)+
  then have "us @ i # vs = place f x i xs" by (simp add: place_def)
  then show ?thesis using rb_repr_insert [OF l(2) n] l(1) assms(5) by (auto simp: add_timer_node_def)
qed

lemma sorted_remove1: "sorted_wrt P xs \<Longrightarrow> sorted_wrt P (remove1 x xs)"
  by (induction xs) (auto dest: notin_set_remove1)

text \<open>What start and stop leave alone: the list nodes, the pool, the callbacks, and all other timers.\<close>

definition same_frame :: "'d ogs_timer_mgr \<Rightarrow> 'd ogs_timer_mgr \<Rightarrow> bool" where
  "same_frame m m' \<longleftrightarrow> m_lnodes m' = m_lnodes m \<and> m_pool m' = m_pool m \<and> (\<forall>j. t_cb (m_timers m' j) = t_cb (m_timers m j))"

lemma same_frame_refl [simp]: "same_frame m m"
  by (simp add: same_frame_def)

lemma same_frame_trans: "same_frame m m' \<Longrightarrow> same_frame m' m'' \<Longrightarrow> same_frame m m''"
  by (simp add: same_frame_def)

lemma timer_stop_ok:
  assumes "timer_inv m xs" "i \<in> live (m_pool m)"
  shows "\<exists>m'. ogs_timer_stop i m = Some m' \<and> timer_inv m' (remove1 i xs) \<and> same_frame m m' \<and> (\<forall>j. timeout m' j = timeout m j)"
proof (cases "i \<in> set xs")
  case True
  obtain s where s: "ogs_rbtree_delete i (m_tree m) = Some s" "rb_repr s (remove1 i xs)"
    using rbseq.delete_member [OF timer_invD(1) [OF assms(1)] True] by blast
  let ?m = "(upd_timer i (\<lambda>t. t\<lparr>t_running := False\<rparr>) m)\<lparr>m_tree := s\<rparr>"
  have to: "timeout ?m j = timeout m j" for j by simp
  have "sorted_wrt (\<lambda>i j. timeout ?m i \<le> timeout ?m j) (remove1 i xs)"
    unfolding to using assms(1) by (intro sorted_remove1) (simp add: timer_inv_def)
  then have "timer_inv ?m (remove1 i xs)"
    using assms s(2) timer_invD [OF assms(1)] set_remove1_subset [of i xs] by (auto simp: timer_inv_def)
  moreover have "ogs_timer_stop i m = Some ?m" using s timer_invD [OF assms(1)] assms(2) True by (simp add: ogs_timer_stop_def)
  ultimately show ?thesis by (auto simp: same_frame_def)
next
  case False
  then show ?thesis using timer_invD [OF assms(1)] assms by (simp add: ogs_timer_stop_def remove1_idem)
qed

lemma timer_start_ok:
  assumes inv: "timer_inv m xs" and i: "i \<in> live (m_pool m)" and d: "d \<noteq> 0" and x: "ogs_time (now + d) = Some x"
  shows "\<exists>m'. ogs_timer_start i d now m = Some m' \<and> timer_inv m' (place (timeout m) x i (remove1 i xs)) \<and> same_frame m m'
    \<and> timeout m' i = x \<and> (\<forall>j. j \<noteq> i \<longrightarrow> timeout m' j = timeout m j)"
proof -
  let ?ys = "remove1 i xs"
  obtain s1 where s1: "(if t_running (m_timers m i) then ogs_rbtree_delete i (m_tree m) else Some (m_tree m)) = Some s1" "rb_repr s1 ?ys"
    using rbseq.delete_member [of "m_tree m" xs i] timer_invD [OF inv] i by (cases "i \<in> set xs") (auto simp: remove1_idem)
  let ?m1 = "upd_timer i (\<lambda>t. t\<lparr>t_running := True\<rparr>) (m\<lparr>m_tree := s1\<rparr>)"
  have to: "timeout ?m1 j = timeout m j" for j by simp
  have srt: "sorted_wrt (\<lambda>i j. timeout m i \<le> timeout m j) ?ys" using inv by (intro sorted_remove1) (simp add: timer_inv_def)
  have n: "i \<notin> set ?ys" using timer_invD(2) [OF inv] by simp
  obtain s where s: "add_timer_node i d now ?m1 = Some ((upd_timer i (\<lambda>t. t\<lparr>t_timeout := x\<rparr>) ?m1)\<lparr>m_tree := s\<rparr>)"
    "rb_repr s (place (timeout m) x i ?ys)"
    using add_timer_node_ok [of ?m1 ?ys "timeout m", OF _ to srt n x] s1(2) by auto
  let ?m = "(upd_timer i (\<lambda>t. t\<lparr>t_timeout := x\<rparr>) ?m1)\<lparr>m_tree := s\<rparr>"
  have "sorted_wrt (\<lambda>i j. timeout ?m i \<le> timeout ?m j) (place (timeout m) x i ?ys)"
    using n by (intro place_sorted [OF srt]) auto
  moreover have "set (place (timeout m) x i ?ys) = insert i (set xs)" using timer_invD(2) [OF inv] by (auto simp: set_place)
  ultimately have "timer_inv ?m (place (timeout m) x i ?ys)"
    using inv i s(2) by (auto simp: timer_inv_def)
  moreover have "ogs_timer_start i d now m = Some ?m"
    using s(1) s1(1) d timer_invD(3) [OF inv i] by (simp add: ogs_timer_start_def)
  ultimately show ?thesis by (auto simp: same_frame_def)
qed

lemma timer_add_ok:
  assumes "timer_inv m xs" "pool_repr (m_pool m) (i # fs)"
  shows "\<exists>m'. ogs_timer_add cb m = Some (Some i, m') \<and> timer_inv m' xs \<and> pool_repr (m_pool m') fs
    \<and> live (m_pool m') = insert i (live (m_pool m)) \<and> i \<notin> live (m_pool m) \<and> t_cb (m_timers m' i) = cb \<and> \<not> t_running (m_timers m' i)
    \<and> (\<forall>j. j \<noteq> i \<longrightarrow> m_timers m' j = m_timers m j)"
proof -
  obtain p where p: "ogs_pool_alloc (m_pool m) = Some (Some i, p)" "pool_repr p fs" "live p = insert i (live (m_pool m))" "i \<notin> live (m_pool m)"
    using op.alloc_some [OF assms(2)] by blast
  have n: "i \<notin> set xs" using p(4) assms(1) by (auto simp: timer_inv_def)
  obtain t where t: "zip_at (m_tree m) t []" "rb_inv t" "elems t = xs" using assms(1) by (auto simp: timer_inv_def rb_repr_def)
  have "zip_at ((m_tree m)\<lparr>nodes := (nodes (m_tree m))(i := v)\<rparr>) t []" for v using t n by (simp add: zip_at_def)
  then have r: "rb_repr ((m_tree m)\<lparr>nodes := (nodes (m_tree m))(i := v)\<rparr>) xs" for v using t by (auto simp: rb_repr_def)
  define m' where "m' = the (map_option snd (ogs_timer_add cb m))"
  have m': "ogs_timer_add cb m = Some (Some i, m')" "m_pool m' = p" "\<exists>v. m_tree m' = (m_tree m)\<lparr>nodes := (nodes (m_tree m))(i := v)\<rparr>"
    "m_timers m' i = \<lparr>t_cb = cb, t_manager = True, t_running = False, t_timeout = 0\<rparr>" "\<And>j. j \<noteq> i \<Longrightarrow> m_timers m' j = m_timers m j"
    using p(1) by (auto simp: m'_def ogs_timer_add_def Let_def)
  have to: "timeout m' j = timeout m j" if "j \<in> set xs" for j using m'(5) [of j] n that by (cases "j = i") auto
  have "sorted_wrt (\<lambda>a b. timeout m a \<le> timeout m b) xs" using assms(1) by (simp add: timer_inv_def)
  then have "sorted_wrt (\<lambda>a b. timeout m' a \<le> timeout m' b) xs" by (rule sorted_wrt_mono_rel [rotated]) (simp add: to)
  moreover have "rb_repr (m_tree m') xs" using m'(3) r by auto
  moreover have "\<forall>j \<in> live (m_pool m'). t_manager (m_timers m' j) \<and> (t_running (m_timers m' j) \<longleftrightarrow> j \<in> set xs)"
  proof
    fix j assume "j \<in> live (m_pool m')"
    then show "t_manager (m_timers m' j) \<and> (t_running (m_timers m' j) \<longleftrightarrow> j \<in> set xs)"
      using assms(1) n m'(2,4) m'(5) [of j] p(3) by (cases "j = i") (auto simp: timer_inv_def)
  qed
  ultimately have "timer_inv m' xs" using assms(1) p m'(2) by (auto simp: timer_inv_def)
  then show ?thesis using m' p by auto
qed

lemma timer_add_full: "pool_repr (m_pool m) [] \<Longrightarrow> ogs_timer_add cb m = Some (None, m)"
  using op.alloc_none by (simp add: ogs_timer_add_def)

lemma timer_delete_ok:
  assumes "timer_inv m xs" "i \<in> live (m_pool m)"
  shows "\<exists>m'. ogs_timer_delete i m = Some m' \<and> timer_inv m' (remove1 i xs) \<and> live (m_pool m') = live (m_pool m) - {i}"
proof -
  obtain m1 where m1: "ogs_timer_stop i m = Some m1" "timer_inv m1 (remove1 i xs)" "same_frame m m1" using timer_stop_ok [OF assms] by blast
  obtain fs where fs: "pool_repr (m_pool m1) fs" using m1(2) by (auto simp: timer_inv_def)
  have i: "i \<in> live (m_pool m1)" using assms(2) m1(3) by (simp add: same_frame_def)
  note rl = op.release_law [OF fs i]
  have "i \<notin> set (remove1 i xs)" using timer_invD(2) [OF assms(1)] by simp
  then have "timer_inv (m1\<lparr>m_pool := ogs_pool_free i (m_pool m1)\<rparr>) (remove1 i xs)" using m1(2) rl by (auto simp: timer_inv_def)
  then show ?thesis using m1 rl timer_invD(3) [OF assms(1,2)] by (auto simp: ogs_timer_delete_def same_frame_def)
qed

text \<open>What each operation on one timer leaves alone, whatever the state: all other timers, and of the timer itself its callback and
  its manager. Deleting leaves the memory of the timer as it is.\<close>

definition only_timer :: "nat \<Rightarrow> 'd ogs_timer_mgr \<Rightarrow> 'd ogs_timer_mgr \<Rightarrow> bool" where
  "only_timer i m m' \<longleftrightarrow> m_lnodes m' = m_lnodes m \<and> t_cb (m_timers m' i) = t_cb (m_timers m i)
     \<and> t_manager (m_timers m' i) = t_manager (m_timers m i) \<and> (\<forall>j. j \<noteq> i \<longrightarrow> m_timers m' j = m_timers m j)"

lemma timer_stop_only: "ogs_timer_stop i m = Some m' \<Longrightarrow> only_timer i m m' \<and> \<not> t_running (m_timers m' i) \<and> m_pool m' = m_pool m"
  by (auto simp: ogs_timer_stop_def only_timer_def split: if_splits bind_splits)

lemma timer_start_only: "ogs_timer_start i d now m = Some m' \<Longrightarrow> only_timer i m m' \<and> t_running (m_timers m' i) \<and> m_pool m' = m_pool m"
  by (auto simp: ogs_timer_start_def add_timer_node_def only_timer_def Let_def split: if_splits bind_splits)

lemma timer_delete_only: "ogs_timer_delete i m = Some m' \<Longrightarrow> only_timer i m m' \<and> \<not> t_running (m_timers m' i)"
  using timer_stop_only [of i m] by (auto simp: ogs_timer_delete_def only_timer_def split: bind_splits)

subsection \<open>Expiry\<close>

text \<open>The first loop collects the timers that are due, in order, and touches nothing but list nodes.\<close>

lemma collect_expired_ok:
  assumes "rb_repr (m_tree m) (us @ xs)" "list_repr (m_lnodes m) None (map Some us)"
  shows "\<exists>h. collect_expired now (hd_or None xs) m = Some (m\<lparr>m_lnodes := h\<rparr>)
    \<and> list_repr h None (map Some (us @ takeWhile (\<lambda>i. timeout m i \<le> now) xs))"
  using assms
proof (induction xs arbitrary: m us)
  case Nil then show ?case by (subst collect_expired.simps) (auto intro!: exI [of _ "m_lnodes m"])
next
  case (Cons x xs)
  show ?case
  proof (cases "timeout m x > now")
    case True then show ?thesis using Cons.prems by (subst collect_expired.simps) (auto intro!: exI [of _ "m_lnodes m"])
  next
    case False
    let ?m = "m\<lparr>m_lnodes := ogs_list_add None (Some x) (m_lnodes m)\<rparr>"
    have "x \<notin> set us" using rbseq.distinct [OF Cons.prems(1)] by auto
    then have "list_repr (m_lnodes ?m) None (map Some (us @ [x]))"
      using list_repr_add [OF Cons.prems(2), of "Some x"] by auto
    moreover have "rb_repr (m_tree ?m) ((us @ [x]) @ xs)" using Cons.prems(1) by simp
    ultimately obtain h where "collect_expired now (hd_or None xs) ?m = Some (?m\<lparr>m_lnodes := h\<rparr>)"
      "list_repr h None (map Some ((us @ [x]) @ takeWhile (\<lambda>i. timeout ?m i \<le> now) xs))" using Cons.IH by blast
    moreover have "collect_expired now (Some x) m = collect_expired now (hd_or None xs) ?m"
      using False rbseq.succ [OF Cons.prems(1)] by (subst collect_expired.simps) simp
    ultimately show ?thesis using False by auto
  qed
qed

lemma timer_inv_lnodes [simp]: "timer_inv (m\<lparr>m_lnodes := h\<rparr>) xs = timer_inv m xs"
  by (simp add: timer_inv_def)

text \<open>
  The second loop, for callbacks that keep a condition \<open>ok S\<close> on the state, where \<open>S\<close> are timers that may be called back, and that
  do not use the list nodes of timers: it is a loop over the timers that were due at the start.
\<close>

locale timer_loop =
  fixes cb :: "'d \<Rightarrow> 'd ogs_timer_mgr \<times> 'w \<Rightarrow> ('d ogs_timer_mgr \<times> 'w) option"
    and ok :: "nat set \<Rightarrow> 'd ogs_timer_mgr \<times> 'w \<Rightarrow> bool"
  assumes step: "ok S mw \<Longrightarrow> i \<in> S \<Longrightarrow> call_back cb i mw = Some mw' \<Longrightarrow> ok S mw' \<and> m_lnodes (fst mw') = m_lnodes (fst mw)"
    and lnodes: "ok S (m, w) \<Longrightarrow> ok S (m\<lparr>m_lnodes := h\<rparr>, w)"
begin

lemma fire_eq:
  assumes "ok S mw" "list_repr (m_lnodes (fst mw)) None (map Some (us @ due))" "set due \<subseteq> S"
  shows "fire_expired cb (hd_or None (map Some due)) mw = foldM (call_back cb) due mw"
  using assms
proof (induction due arbitrary: mw us)
  case Nil then show ?case by (subst fire_expired.simps) simp
next
  case (Cons i due)
  have unf: "fire_expired cb (Some (Some i)) mw
      = call_back cb i mw \<bind> (\<lambda>mw. fire_expired cb (ogs_list_next (m_lnodes (fst mw)) (Some i)) mw)"
    by (subst fire_expired.simps) simp
  show ?case
  proof (cases "call_back cb i mw")
    case None then show ?thesis using unf by simp
  next
    case (Some mw')
    have k: "ok S mw'" "m_lnodes (fst mw') = m_lnodes (fst mw)" using step [OF Cons.prems(1) _ Some] Cons.prems(3) by auto
    have "ogs_list_next (m_lnodes (fst mw')) (Some i) = hd_or None (map Some due)"
      using Cons.prems(2) unfolding k(2) by (simp add: list_repr_def ogs_list_next_def)
    then show ?thesis using unf Some Cons.IH [OF k(1), of "us @ [i]"] Cons.prems(2,3) k(2) by simp
  qed
qed

lemma loop_eq:
  assumes "timer_inv m xs" "ok S (m, w)" "set (takeWhile (\<lambda>i. timeout m i \<le> now) xs) \<subseteq> S"
  shows "\<exists>h. ogs_timer_mgr_expire cb now (m, w) = foldM (call_back cb) (takeWhile (\<lambda>i. timeout m i \<le> now) xs) (m\<lparr>m_lnodes := h\<rparr>, w)"
proof -
  let ?m = "m\<lparr>m_lnodes := ogs_list_init None (m_lnodes m)\<rparr>" and ?due = "takeWhile (\<lambda>i. timeout m i \<le> now) xs"
  obtain h where h: "collect_expired now (hd_or None xs) ?m = Some (?m\<lparr>m_lnodes := h\<rparr>)" "list_repr h None (map Some ?due)"
    using collect_expired_ok [of ?m "[]" xs now] timer_invD(1) [OF assms(1)] by auto
  have "ogs_list_first h None = hd_or None (map Some ?due)" using h(2) by (simp add: list_repr_def ogs_list_first_def)
  moreover have "fire_expired cb (hd_or None (map Some ?due)) (m\<lparr>m_lnodes := h\<rparr>, w) = foldM (call_back cb) ?due (m\<lparr>m_lnodes := h\<rparr>, w)"
    using fire_eq [OF lnodes [OF assms(2)], of h "[]" ?due] assms(3) h(2) by simp
  ultimately show ?thesis using h(1) rbseq.first [OF timer_invD(1) [OF assms(1)]] by (auto simp: ogs_timer_mgr_expire_def)
qed

end

text \<open>
  The contract of callbacks that start and stop timers, but do not delete them or use their list nodes (the code warns
  of \<open>ogs_timer_delete\<close> in a callback): any timers in use may be called back.
\<close>

locale timer_client =
  fixes cb :: "'d \<Rightarrow> 'd ogs_timer_mgr \<times> 'w \<Rightarrow> ('d ogs_timer_mgr \<times> 'w) option"
  assumes keeps: "timer_inv m xs \<Longrightarrow> cb d (m, w) = Some (m', w') \<Longrightarrow> \<exists>xs'. timer_inv m' xs' \<and> same_frame m m'"
begin

lemma call_back_keeps:
  assumes "timer_inv m xs" "i \<in> live (m_pool m)" "call_back cb i (m, w) = Some (m', w')"
  shows "\<exists>xs'. timer_inv m' xs' \<and> same_frame m m'"
proof -
  obtain m1 where m1: "ogs_timer_stop i m = Some m1" "timer_inv m1 (remove1 i xs)" "same_frame m m1"
    using timer_stop_ok [OF assms(1,2)] by blast
  show ?thesis
  proof (cases "t_cb (m_timers m1 i)")
    case None then show ?thesis using assms(3) m1 by (auto simp: call_back_def)
  next
    case (Some d)
    then show ?thesis using assms(3) m1 keeps [OF m1(2)] same_frame_trans by (fastforce simp: call_back_def)
  qed
qed

end

definition in_use :: "nat set \<Rightarrow> 'd ogs_timer_mgr \<times> 'w \<Rightarrow> bool" where
  "in_use S mw \<longleftrightarrow> (\<exists>xs. timer_inv (fst mw) xs) \<and> S \<subseteq> live (m_pool (fst mw))"

sublocale timer_client \<subseteq> timer_loop cb in_use
proof unfold_locales
  fix S i mw mw'
  assume "in_use S mw" "i \<in> S" "call_back cb i mw = Some mw'"
  then show "in_use S mw' \<and> m_lnodes (fst mw') = m_lnodes (fst mw)"
    using call_back_keeps [of "fst mw" _ i "snd mw" "fst mw'" "snd mw'"] by (fastforce simp: in_use_def same_frame_def)
qed (simp add: in_use_def)

context timer_client
begin

lemma expire_eq:
  assumes "timer_inv m xs"
  shows "\<exists>h. ogs_timer_mgr_expire cb now (m, w) = foldM (call_back cb) (takeWhile (\<lambda>i. timeout m i \<le> now) xs) (m\<lparr>m_lnodes := h\<rparr>, w)"
  using assms by (intro loop_eq [where S = "set xs"]) (auto simp: in_use_def timer_inv_def dest: set_takeWhileD)

end

text \<open>Callbacks that do not use the manager, such as those that only push an event: they are called once each, in order.\<close>

definition event_cb :: "('d \<Rightarrow> 'w \<Rightarrow> 'w option) \<Rightarrow> 'd \<Rightarrow> 'd ogs_timer_mgr \<times> 'w \<Rightarrow> ('d ogs_timer_mgr \<times> 'w) option" where
  "event_cb f d mw = map_option (Pair (fst mw)) (f d (snd mw))"

interpretation pc: timer_client "event_cb f" for f
  by unfold_locales (auto simp: event_cb_def)

lemma event_cb_fold:
  assumes "timer_inv m (us @ vs)" "\<forall>i \<in> set us. t_cb (m_timers m i) = Some (g i)"
  shows "case foldM f (map g us) w of
      None \<Rightarrow> foldM (call_back (event_cb f)) us (m, w) = None
    | Some w' \<Rightarrow> \<exists>m'. foldM (call_back (event_cb f)) us (m, w) = Some (m', w') \<and> timer_inv m' vs \<and> same_frame m m'
        \<and> (\<forall>i. timeout m' i = timeout m i)"
  using assms
proof (induction us arbitrary: m w)
  case (Cons u us)
  have "u \<in> live (m_pool m)" using Cons.prems(1) by (auto simp: timer_inv_def)
  then obtain m1 where m1: "ogs_timer_stop u m = Some m1" "timer_inv m1 (us @ vs)" "same_frame m m1" "\<forall>j. timeout m1 j = timeout m j"
    using timer_stop_ok [OF Cons.prems(1), of u] by auto
  have c: "call_back (event_cb f) u (m, w) = map_option (Pair m1) (f (g u) w)"
    using m1(1,3) Cons.prems(2) by (simp add: call_back_def event_cb_def same_frame_def)
  have g: "\<forall>i \<in> set us. t_cb (m_timers m1 i) = Some (g i)" using Cons.prems(2) m1(3) by (simp add: same_frame_def)
  show ?case
  proof (cases "f (g u) w")
    case None then show ?thesis using c by simp
  next
    case (Some w1)
    then show ?thesis
      using c Cons.IH [OF m1(2) g, of w1] m1(3,4) by (auto split: option.splits intro: same_frame_trans)
  qed
qed simp

subsection \<open>Every history of the manager\<close>

text \<open>The calls a program makes: on timers in use, with nonzero durations that do not overflow. \<open>expire\<close> runs callbacks that push events.\<close>

inductive timer_run :: "('d \<Rightarrow> 'w \<Rightarrow> 'w option) \<Rightarrow> nat \<Rightarrow> 'd ogs_timer_mgr \<times> 'w \<Rightarrow> bool" for f :: "'d \<Rightarrow> 'w \<Rightarrow> 'w option" and n :: nat where
  create: "ogs_timer_mgr_create True n contents sd rb ts ln = Some m \<Longrightarrow> timer_run f n (m, w)"
| add: "timer_run f n (m, w) \<Longrightarrow> ogs_timer_add cb m = Some (t, m') \<Longrightarrow> timer_run f n (m', w)"
| start: "timer_run f n (m, w) \<Longrightarrow> i \<in> live (m_pool m) \<Longrightarrow> ogs_timer_start i d now m = Some m' \<Longrightarrow> timer_run f n (m', w)"
| stop: "timer_run f n (m, w) \<Longrightarrow> i \<in> live (m_pool m) \<Longrightarrow> ogs_timer_stop i m = Some m' \<Longrightarrow> timer_run f n (m', w)"
| delete: "timer_run f n (m, w) \<Longrightarrow> i \<in> live (m_pool m) \<Longrightarrow> ogs_timer_delete i m = Some m' \<Longrightarrow> timer_run f n (m', w)"
| expire: "timer_run f n (m, w) \<Longrightarrow> ogs_timer_mgr_expire (event_cb f) now (m, w) = Some mw \<Longrightarrow> timer_run f n mw"

lemma fold_call_back_inv:
  "timer_inv m xs \<Longrightarrow> set us \<subseteq> live (m_pool m) \<Longrightarrow> foldM (call_back (event_cb f)) us (m, w) = Some (m', w') \<Longrightarrow> \<exists>xs'. timer_inv m' xs'"
proof (induction us arbitrary: m w xs)
  case (Cons u us)
  from Cons.prems(3) obtain m1 w1 where c: "call_back (event_cb f) u (m, w) = Some (m1, w1)"
    "foldM (call_back (event_cb f)) us (m1, w1) = Some (m', w')" by (auto split: bind_splits)
  then obtain ys where "timer_inv m1 ys" "same_frame m m1" using pc.call_back_keeps [OF Cons.prems(1)] Cons.prems(2) by fastforce
  then show ?case using Cons.IH [OF _ _ c(2)] Cons.prems(2) by (auto simp: same_frame_def)
qed auto

lemma timer_start_cases:
  assumes "ogs_timer_start i d now m = Some m'"
  shows "d \<noteq> 0" "\<exists>x. ogs_time (now + d) = Some x"
  using assms by (auto simp: ogs_timer_start_def add_timer_node_def split: bind_splits)

lemma timer_run_inv:
  assumes "timer_run f n mw" "0 < n" shows "\<exists>xs. timer_inv (fst mw) xs"
  using assms
proof (induction rule: timer_run.induct)
  case (create contents sd rb ts ln m w)
  then show ?case using timer_inv_create [of n contents sd rb ts ln] by auto
next
  case (add m w cb t m')
  then obtain xs fs where i: "timer_inv m xs" "pool_repr (m_pool m) fs" by (auto simp: timer_inv_def)
  then show ?case using add.hyps timer_add_ok [OF i(1), of _ _ cb] timer_add_full [of m cb] by (cases fs) auto
next
  case (start m w i d now m')
  then obtain xs x where "timer_inv m xs" "d \<noteq> 0" "ogs_time (now + d) = Some x" using timer_start_cases by fastforce
  then show ?case using timer_start_ok [of m xs i d now x] start.hyps by auto
next
  case (stop m w i m')
  then show ?case using timer_stop_ok by fastforce
next
  case (delete m w i m')
  then show ?case using timer_delete_ok by fastforce
next
  case (expire m w now mw)
  then obtain xs where i: "timer_inv m xs" by auto
  obtain h where h: "ogs_timer_mgr_expire (event_cb f) now (m, w)
      = foldM (call_back (event_cb f)) (takeWhile (\<lambda>i. timeout m i \<le> now) xs) (m\<lparr>m_lnodes := h\<rparr>, w)"
    using pc.expire_eq [OF i, of f now w] by blast
  have "set (takeWhile (\<lambda>i. timeout m i \<le> now) xs) \<subseteq> live (m_pool m)" using i by (auto simp: timer_inv_def dest: set_takeWhileD)
  then show ?case using fold_call_back_inv [of "m\<lparr>m_lnodes := h\<rparr>" xs _ f w "fst mw" "snd mw"] i h expire.hyps by simp
qed

subsection \<open>Properties\<close>


text \<open>Starting a timer, running or not, returns and puts it behind every timer with the same or an earlier timeout and before all
  later ones: timers with equal timeouts keep the order in which they were started. No other timer changes.\<close>

theorem timer_start_places:
  assumes "timer_inv m xs" "i \<in> live (m_pool m)" "d \<noteq> 0" "- (2 ^ 63) \<le> now + d" "now + d < 2 ^ 63"
  shows "\<exists>m'. ogs_timer_start i d now m = Some m' \<and> timer_inv m' (place (timeout m) (now + d) i (remove1 i xs))
    \<and> timeout m' i = now + d \<and> (\<forall>j. j \<noteq> i \<longrightarrow> timeout m' j = timeout m j)"
  using timer_start_ok [OF assms(1-3), of now "now + d"] assms(4,5) by (auto simp: ogs_time_def)

definition sample_mgr :: "nat ogs_timer_mgr" where
  "sample_mgr = the (ogs_timer_mgr_create True 2 [0, 0] 5 (\<lambda>_. \<lparr>rb_parent = None, rb_left = None, rb_right = None, rb_color = BLACK\<rparr>)
     (\<lambda>_. \<lparr>t_cb = None, t_manager = False, t_running = False, t_timeout = 0\<rparr>) (\<lambda>_. \<lparr>prev = None, next = None\<rparr>))"

lemma sample_mgr_inv: "timer_inv sample_mgr [] \<and> pool_repr (m_pool sample_mgr) [0, 1]"
  using timer_inv_create [of 2] pool_repr_init [of 2 "[0, 0]" 0 5]
  by (auto simp: sample_mgr_def ogs_timer_mgr_create_def upt_rec)

lemma sample_running:
  "\<exists>m :: nat ogs_timer_mgr. timer_inv m [0] \<and> 0 \<in> live (m_pool m) \<and> t_cb (m_timers m 0) = Some 8 \<and> timeout m 0 = 15"
proof -
  obtain m1 :: "nat ogs_timer_mgr" where m1: "timer_inv m1 []" "0 \<in> live (m_pool m1)" "t_cb (m_timers m1 0) = Some 8"
    using timer_add_ok [of sample_mgr "[]" 0 "[1]" "Some 8"] sample_mgr_inv by auto
  then show ?thesis using timer_start_ok [OF m1(1,2), of 10 5 15] by (fastforce simp: ogs_time_def place_def same_frame_def)
qed

theorem timer_start_places_witness:
  "\<exists>(m :: nat ogs_timer_mgr) m'. timer_inv m [0] \<and> ogs_timer_start 0 20 3 m = Some m' \<and> timeout m' 0 = 23"
proof -
  obtain m :: "nat ogs_timer_mgr" where "timer_inv m [0]" "0 \<in> live (m_pool m)" using sample_running by blast
  then show ?thesis using timer_start_places [of m "[0]" 0 20 3] by auto
qed


text \<open>C8. \<open>ogs_timer_mgr_expire\<close> with callbacks that only push events: it calls the callbacks of exactly the timers whose timeout
  has been reached, once each and in the order of the timeouts, and these timers are stopped afterwards; it fails only when a callback does.\<close>

theorem timer_expire_fires_due:
  assumes "timer_inv m xs" "\<forall>i \<in> set xs. t_cb (m_timers m i) = Some (g i)"
  shows "let due = filter (\<lambda>i. timeout m i \<le> now) xs in
    case foldM f (map g due) w of
      None \<Rightarrow> ogs_timer_mgr_expire (event_cb f) now (m, w) = None
    | Some w' \<Rightarrow> \<exists>m'. ogs_timer_mgr_expire (event_cb f) now (m, w) = Some (m', w')
        \<and> timer_inv m' (filter (\<lambda>i. now < timeout m i) xs)"
proof -
  let ?P = "\<lambda>i. timeout m i \<le> now"
  have s: "sorted_wrt (\<lambda>i j. timeout m i \<le> timeout m j) xs" using assms(1) by (simp add: timer_inv_def)
  then have d: "takeWhile ?P xs = filter ?P xs" by (induction xs) (auto intro!: filter_False [symmetric])
  have v: "dropWhile ?P xs = filter (\<lambda>i. now < timeout m i) xs"
    using s by (induction xs) (auto intro!: filter_True [symmetric])
  obtain h where h: "ogs_timer_mgr_expire (event_cb f) now (m, w) = foldM (call_back (event_cb f)) (takeWhile ?P xs) (m\<lparr>m_lnodes := h\<rparr>, w)"
    using pc.expire_eq [OF assms(1), of f now w] by blast
  have "timer_inv (m\<lparr>m_lnodes := h\<rparr>) (takeWhile ?P xs @ dropWhile ?P xs)" using assms(1) by simp
  from event_cb_fold [OF this, of g f w] show ?thesis
    using assms(2) h unfolding d v by (auto simp: Let_def split: option.splits)
qed

theorem timer_expire_fires_due_witness:
  "\<exists>(m :: nat ogs_timer_mgr) m'. timer_inv m [0] \<and> ogs_timer_mgr_expire (event_cb (\<lambda>d w. Some (w @ [d]))) 15 (m, []) = Some (m', [8])
     \<and> timer_inv m' []"
proof -
  obtain m :: "nat ogs_timer_mgr" where "timer_inv m [0]" "t_cb (m_timers m 0) = Some 8" "timeout m 0 = 15" using sample_running by blast
  then show ?thesis using timer_expire_fires_due [of m "[0]" "\<lambda>_. 8" 15 "\<lambda>d w. Some (w @ [d])" "[]"] by auto
qed

text \<open>Which timers an expiry serves is fixed when it starts: with any callbacks that start and stop timers, it is the loop over
  the timers then due. So a timer that an earlier callback of the same expiry stops is called back nevertheless.\<close>

theorem timer_expire_ignores_stop:
  assumes "timer_inv m (i # j # xs)" "timeout m i \<le> now" "timeout m j \<le> now" "t_cb (m_timers m i) = Some a" "t_cb (m_timers m j) = Some b"
    and "\<And>m. j \<in> live (m_pool m) \<Longrightarrow> cb a (m, w0) = map_option (\<lambda>m. (m, w1)) (ogs_timer_stop j m)" "\<And>m. cb b (m, w1) = Some (m, w2)"
    and "\<And>d m xs w m' w'. timer_inv m xs \<Longrightarrow> cb d (m, w) = Some (m', w') \<Longrightarrow> \<exists>xs'. timer_inv m' xs' \<and> same_frame m m'"
    and "\<forall>k \<in> set xs. now < timeout m k"
  shows "\<exists>m'. ogs_timer_mgr_expire cb now (m, w0) = Some (m', w2)"
proof -
  have c: "timer_client cb" using assms(8) by (rule timer_client.intro)
  obtain h where h: "ogs_timer_mgr_expire cb now (m, w0) = foldM (call_back cb) (takeWhile (\<lambda>i. timeout m i \<le> now) (i # j # xs)) (m\<lparr>m_lnodes := h\<rparr>, w0)"
    using timer_client.expire_eq [OF c assms(1)] by blast
  have e: "takeWhile (\<lambda>i. timeout m i \<le> now) xs = []" using assms(9) by (cases xs) auto
  let ?m = "m\<lparr>m_lnodes := h\<rparr>"
  have l: "timer_inv ?m (i # j # xs)" "i \<in> live (m_pool ?m)" "j \<in> live (m_pool ?m)" using assms(1) by (auto simp: timer_inv_def)
  obtain m1 where m1: "ogs_timer_stop i ?m = Some m1" "timer_inv m1 (j # xs)" "same_frame ?m m1" using timer_stop_ok [OF l(1,2)] by auto
  have j1: "j \<in> live (m_pool m1)" using l(3) m1(3) by (simp add: same_frame_def)
  obtain m2 where m2: "ogs_timer_stop j m1 = Some m2" "timer_inv m2 xs" "same_frame m1 m2" using timer_stop_ok [OF m1(2) j1] by auto
  have "i \<noteq> j" using timer_invD(2) [OF assms(1)] by simp
  obtain m3 where m3: "ogs_timer_stop j m2 = Some m3" "same_frame m2 m3"
    using timer_stop_ok [OF m2(2), of j] j1 m2(3) by (auto simp: same_frame_def)
  have "call_back cb i (?m, w0) = Some (m2, w1)" using m1 m2 j1 assms(4,6) by (simp add: call_back_def same_frame_def)
  moreover have "call_back cb j (m2, w1) = Some (m3, w2)"
    using m3 m1(3) m2(3) assms(5,7) by (simp add: call_back_def same_frame_def)
  ultimately show ?thesis using h e assms(2,3) by simp
qed

definition sample_cb :: "nat \<Rightarrow> nat ogs_timer_mgr \<times> nat list \<Rightarrow> (nat ogs_timer_mgr \<times> nat list) option" where
  "sample_cb d mw = (if d = 8 \<and> 1 \<in> live (m_pool (fst mw)) then map_option (\<lambda>m. (m, snd mw @ [d])) (ogs_timer_stop 1 (fst mw))
     else Some (fst mw, snd mw @ [d]))"

theorem timer_expire_ignores_stop_witness:
  "\<exists>m m'. timer_inv m [0, 1] \<and> ogs_timer_mgr_expire sample_cb 40 (m, []) = Some (m', [8, 9])"
proof -
  obtain m1 :: "nat ogs_timer_mgr" where m1: "timer_inv m1 []" "pool_repr (m_pool m1) [1]" "0 \<in> live (m_pool m1)" "t_cb (m_timers m1 0) = Some 8"
    using timer_add_ok [of sample_mgr "[]" 0 "[1]" "Some 8"] sample_mgr_inv by auto
  obtain m2 :: "nat ogs_timer_mgr" where m2: "timer_inv m2 []" "0 \<in> live (m_pool m2)" "1 \<in> live (m_pool m2)" "t_cb (m_timers m2 0) = Some 8" "t_cb (m_timers m2 1) = Some 9"
    using timer_add_ok [OF m1(1,2), of "Some 9"] m1(3,4) by auto
  obtain m3 :: "nat ogs_timer_mgr" where m3: "timer_inv m3 [0]" "same_frame m2 m3" "timeout m3 0 = 20"
    using timer_start_ok [OF m2(1,2), of 10 10 20] by (fastforce simp: ogs_time_def place_def)
  obtain m :: "nat ogs_timer_mgr" where m: "timer_inv m [0, 1]" "same_frame m3 m" "timeout m 1 = 30" "timeout m 0 = 20"
    using timer_start_ok [OF m3(1), of 1 20 10 30] m3 m2(3) by (fastforce simp: ogs_time_def place_def same_frame_def)
  have cb: "t_cb (m_timers m 0) = Some 8" "t_cb (m_timers m 1) = Some 9" using m(2) m2(4,5) m3(2) by (simp_all add: same_frame_def)
  have k: "\<exists>xs'. timer_inv m' xs' \<and> same_frame m m'" if "timer_inv m xs" "sample_cb d (m, w) = Some (m', w')" for d m xs w m' w'
    using that timer_stop_ok [OF that(1), of 1] by (auto simp: sample_cb_def split: if_splits)
  have "\<exists>m'. ogs_timer_mgr_expire sample_cb 40 (m, []) = Some (m', [8, 9])"
    by (rule timer_expire_ignores_stop [OF m(1) _ _ cb _ _ k, where ?w1.0 = "[8]"]) (simp_all add: m(4) m(3) [simplified] sample_cb_def)
  then show ?thesis using m(1) by blast
qed

text \<open>The time to wait: until the earliest timeout, not at all when it has been reached, without end when no timer runs.\<close>

theorem timer_next_wait:
  assumes "timer_inv m xs" "- (2 ^ 62) < now" "now < 2 ^ 62" "\<forall>i \<in> set xs. timeout m i < 2 ^ 62"
  shows "ogs_timer_mgr_next now m =
    Some (if xs = [] then OGS_INFINITE_TIME else max 0 (Min (timeout m ` set xs) - now))"
proof (cases xs)
  case Nil then show ?thesis using rbseq.first [OF timer_invD(1) [OF assms(1)]] by (simp add: ogs_timer_mgr_next_def)
next
  case (Cons i ys)
  have "sorted_wrt (\<lambda>i j. timeout m i \<le> timeout m j) xs" using assms(1) by (simp add: timer_inv_def)
  then have "Min (timeout m ` set xs) = timeout m i" using Cons by (auto intro!: Min_eqI)
  then show ?thesis
    using Cons rbseq.first [OF timer_invD(1) [OF assms(1)]] assms(2-4)
    by (auto simp: ogs_timer_mgr_next_def ogs_time_def OGS_NO_WAIT_TIME_def)
qed

theorem timer_next_wait_witness: "ogs_timer_mgr_next 12 sample_mgr = Some (- 1)"
  using timer_next_wait [of sample_mgr "[]" 12] sample_mgr_inv by (simp add: OGS_INFINITE_TIME_def)

end
