(* ===== verification/Ogs_Sockaddr.thy ===== *)
theory Ogs_Sockaddr
  imports Ogs_Prelude "HOL-Library.Multiset" "HOL-Library.Sublist"
begin

section \<open>Lists of socket addresses (lib/core/ogs-sockaddr.c)\<close>

text \<open>
  Addresses form singly linked lists through their \<open>next\<close> field; here a list is the sequence of its addresses. An address is an IPv4 address
  with a port, or the 16 bytes of an IPv6 address with a port; the host name, which only other components read, is left out. Allocation
  succeeds. Name resolution itself is not part of this theory.
\<close>

datatype ogs_sockaddr = SockAddr4 u32 u16 | SockAddr6 "u8 list" u16

datatype family = AF_INET | AF_INET6

fun ogs_sa_family :: "ogs_sockaddr \<Rightarrow> family" where
  "ogs_sa_family (SockAddr4 _ _) = AF_INET"
| "ogs_sa_family (SockAddr6 _ _) = AF_INET6"

subsection \<open>Comparison\<close>

fun ogs_sockaddr_compare :: "ogs_sockaddr \<Rightarrow> ogs_sockaddr \<Rightarrow> bool \<Rightarrow> bool" where
  "ogs_sockaddr_compare (SockAddr4 a p) (SockAddr4 b q) compare_port = (if compare_port \<and> p \<noteq> q then False else a = b)"
| "ogs_sockaddr_compare (SockAddr6 a p) (SockAddr6 b q) compare_port = (if compare_port \<and> p \<noteq> q then False else a = b)"
| "ogs_sockaddr_compare _ _ _ = False"

definition ogs_sockaddr_is_equal :: "ogs_sockaddr \<Rightarrow> ogs_sockaddr \<Rightarrow> bool" where
  "ogs_sockaddr_is_equal a b = ogs_sockaddr_compare a b True"

definition ogs_sockaddr_is_equal_addr :: "ogs_sockaddr \<Rightarrow> ogs_sockaddr \<Rightarrow> bool" where
  "ogs_sockaddr_is_equal_addr a b = ogs_sockaddr_compare a b False"

text \<open>The inner loop over \<open>base\<close>, and the function with its two loops.\<close>

fun any_match :: "ogs_sockaddr list \<Rightarrow> ogs_sockaddr \<Rightarrow> bool \<Rightarrow> bool" where
  "any_match [] a compare_port = False"
| "any_match (p # ps) a compare_port = (if ogs_sockaddr_compare p a compare_port then True else any_match ps a compare_port)"

fun ogs_sockaddr_check_any_match :: "ogs_sockaddr list \<Rightarrow> ogs_sockaddr list \<Rightarrow> ogs_sockaddr option \<Rightarrow> bool \<Rightarrow> bool" where
  "ogs_sockaddr_check_any_match base (l # list) single compare_port =
     (if any_match base l compare_port then True else ogs_sockaddr_check_any_match base list single compare_port)"
| "ogs_sockaddr_check_any_match base [] single compare_port =
     (case single of Some s \<Rightarrow> any_match base s compare_port | None \<Rightarrow> False)"

subsection \<open>Operations on lists\<close>

fun ogs_filteraddrinfo :: "ogs_sockaddr list \<Rightarrow> family \<Rightarrow> ogs_sockaddr list" where
  "ogs_filteraddrinfo [] family = []"
| "ogs_filteraddrinfo (a # as) family =
     (if ogs_sa_family a \<noteq> family then ogs_filteraddrinfo as family else a # ogs_filteraddrinfo as family)"

fun ogs_copyaddrinfo :: "ogs_sockaddr list \<Rightarrow> ogs_sockaddr list" where
  "ogs_copyaddrinfo [] = []"
| "ogs_copyaddrinfo (s # src) = s # ogs_copyaddrinfo src"

text \<open>The inner loop of \<open>ogs_sortaddrinfo\<close>, on what follows the head: the address is put before the first one of the family.\<close>

fun sort_insert :: "family \<Rightarrow> ogs_sockaddr \<Rightarrow> ogs_sockaddr list \<Rightarrow> ogs_sockaddr list" where
  "sort_insert family addr [] = [addr]"
| "sort_insert family addr (n # ns) = (if ogs_sa_family n \<noteq> family then n # sort_insert family addr ns else addr # n # ns)"

fun sort_step :: "family \<Rightarrow> ogs_sockaddr \<Rightarrow> ogs_sockaddr list \<Rightarrow> ogs_sockaddr list" where
  "sort_step family addr [] = [addr]"
| "sort_step family addr (h # hs) = (if ogs_sa_family addr = family then addr # h # hs else h # sort_insert family addr hs)"

definition ogs_sortaddrinfo :: "ogs_sockaddr list \<Rightarrow> family \<Rightarrow> ogs_sockaddr list" where
  "ogs_sortaddrinfo sa_list family = fold (sort_step family) sa_list []"

fun ogs_merge_single_addrinfo :: "ogs_sockaddr list \<Rightarrow> ogs_sockaddr \<Rightarrow> ogs_sockaddr list" where
  "ogs_merge_single_addrinfo [] item = [item]"
| "ogs_merge_single_addrinfo (p # ps) item = (if ogs_sockaddr_is_equal p item then p # ps else p # ogs_merge_single_addrinfo ps item)"

fun ogs_merge_addrinfo :: "ogs_sockaddr list \<Rightarrow> ogs_sockaddr list \<Rightarrow> ogs_sockaddr list" where
  "ogs_merge_addrinfo dest [] = dest"
| "ogs_merge_addrinfo dest (cur # src) = ogs_merge_addrinfo (ogs_merge_single_addrinfo dest cur) src"

definition ogs_filter_ip_version :: "ogs_sockaddr list \<Rightarrow> bool \<Rightarrow> bool \<Rightarrow> bool \<Rightarrow> ogs_sockaddr list" where
  "ogs_filter_ip_version addr no_ipv4 no_ipv6 prefer_ipv4 =
     (let addr = (if no_ipv4 then ogs_filteraddrinfo addr AF_INET6 else addr);
          addr = (if no_ipv6 then ogs_filteraddrinfo addr AF_INET else addr)
      in if prefer_ipv4 then ogs_sortaddrinfo addr AF_INET else ogs_sortaddrinfo addr AF_INET6)"

subsection \<open>What the operations do to the sequence\<close>

lemma compare_eq [simp]: "ogs_sockaddr_compare a b True \<longleftrightarrow> a = b"
  by (cases "(a, b, True)" rule: ogs_sockaddr_compare.cases) auto

lemma sockaddr_is_equal [simp]: "ogs_sockaddr_is_equal a b \<longleftrightarrow> a = b"
  by (simp add: ogs_sockaddr_is_equal_def)

lemma any_match_iff [simp]: "any_match base a p \<longleftrightarrow> (\<exists>b \<in> set base. ogs_sockaddr_compare b a p)"
  by (induction base) auto

lemma check_any_match_iff:
  "ogs_sockaddr_check_any_match base list single p \<longleftrightarrow> (\<exists>b \<in> set base. \<exists>a \<in> set list \<union> set_option single. ogs_sockaddr_compare b a p)"
  by (induction list) (auto split: option.splits)

lemma check_single [simp]: "ogs_sockaddr_check_any_match base [] (Some a) True \<longleftrightarrow> a \<in> set base"
  by (auto simp: check_any_match_iff)

lemma filteraddrinfo_eq [simp]: "ogs_filteraddrinfo as family = filter (\<lambda>a. ogs_sa_family a = family) as"
  by (induction as) auto

lemma copyaddrinfo_eq [simp]: "ogs_copyaddrinfo as = as"
  by (induction as) auto

lemma merge_single_eq: "ogs_merge_single_addrinfo d a = (if a \<in> set d then d else d @ [a])"
  by (induction d) auto

lemma merge_set [simp]: "set (ogs_merge_addrinfo d s) = set d \<union> set s"
  by (induction s arbitrary: d) (auto simp: merge_single_eq)

lemma merge_distinct: "distinct d \<Longrightarrow> distinct (ogs_merge_addrinfo d s)"
  by (induction s arbitrary: d) (auto simp: merge_single_eq)

lemma merge_prefix: "prefix d (ogs_merge_addrinfo d s)"
proof (induction s arbitrary: d)
  case (Cons a s)
  have "prefix d (ogs_merge_single_addrinfo d a)" by (simp add: merge_single_eq)
  then show ?case using Cons [of "ogs_merge_single_addrinfo d a"] by (simp add: prefix_order.trans)
qed simp

lemma merge_subset: "set s \<subseteq> set d \<Longrightarrow> ogs_merge_addrinfo d s = d"
  by (induction s) (auto simp: merge_single_eq)

lemma merge_append [simp]: "ogs_merge_addrinfo d (s @ t) = ogs_merge_addrinfo (ogs_merge_addrinfo d s) t"
  by (induction s arbitrary: d) auto

lemma sort_insert_mset [simp]: "mset (sort_insert f a xs) = add_mset a (mset xs)"
  by (induction xs) auto

lemma sort_step_mset [simp]: "mset (sort_step f a xs) = add_mset a (mset xs)"
  by (cases xs) auto

lemma sort_fold_mset: "mset (fold (sort_step f) xs acc) = mset xs + mset acc"
  by (induction xs arbitrary: acc) auto

lemma sort_mset [simp]: "mset (ogs_sortaddrinfo xs f) = mset xs"
  by (simp add: ogs_sortaddrinfo_def sort_fold_mset)

lemma sort_set [simp]: "set (ogs_sortaddrinfo xs f) = set xs"
  by (metis set_mset_mset sort_mset)

lemma sort_step_hd:
  "sort_step f a acc \<noteq> []" "ogs_sa_family a = f \<or> acc \<noteq> [] \<and> ogs_sa_family (hd acc) = f \<Longrightarrow> ogs_sa_family (hd (sort_step f a acc)) = f"
  by (cases acc; auto)+

lemma sort_fold_hd:
  assumes "(\<exists>a \<in> set xs. ogs_sa_family a = f) \<or> acc \<noteq> [] \<and> ogs_sa_family (hd acc) = f"
  shows "ogs_sa_family (hd (fold (sort_step f) xs acc)) = f"
  using assms
proof (induction xs arbitrary: acc)
  case (Cons a xs) then show ?case using Cons.IH [of "sort_step f a acc"] sort_step_hd by (cases "ogs_sa_family a = f") auto
qed simp

text \<open>When the addresses of the other family come first, or at most one address is of the family, the sort separates the families.\<close>

lemma sort_insert_others: "\<forall>x \<in> set xs. ogs_sa_family x \<noteq> f \<Longrightarrow> sort_insert f a xs = xs @ [a]"
  by (induction xs) auto

lemma sort_fold_others:
  "\<forall>x \<in> set (xs @ tl acc). ogs_sa_family x \<noteq> f \<Longrightarrow> fold (sort_step f) xs acc = acc @ xs"
proof (induction xs arbitrary: acc)
  case (Cons a xs)
  have "sort_step f a acc = acc @ [a]" using Cons.prems by (cases acc) (auto simp: sort_insert_others)
  then show ?case using Cons.IH [of "acc @ [a]"] Cons.prems by (cases acc) auto
qed simp

lemma sort_fold_preferred: "\<forall>x \<in> set xs. ogs_sa_family x = f \<Longrightarrow> fold (sort_step f) xs acc = rev xs @ acc"
proof (induction xs arbitrary: acc)
  case (Cons a xs) then show ?case by (cases acc) simp_all
qed simp

text \<open>Preferring a family sorts the lists as a permutation and makes an address of that family the first one, if there is any; what
  \<open>ogs_filter_ip_version\<close> leaves has no address of a family that is switched off.\<close>

theorem filter_ip_version_prefers:
  shows "mset (ogs_filter_ip_version as no4 no6 p4) = filter_mset (\<lambda>a. \<not> (no4 \<and> ogs_sa_family a = AF_INET) \<and> \<not> (no6 \<and> ogs_sa_family a = AF_INET6)) (mset as)
    \<and> (\<forall>a \<in> set (ogs_filter_ip_version as no4 no6 p4). ogs_sa_family a = (if p4 then AF_INET else AF_INET6)
         \<longrightarrow> ogs_sa_family (hd (ogs_filter_ip_version as no4 no6 p4)) = (if p4 then AF_INET else AF_INET6))"
proof
  have n: "ogs_sa_family a \<noteq> AF_INET \<longleftrightarrow> ogs_sa_family a = AF_INET6" "ogs_sa_family a \<noteq> AF_INET6 \<longleftrightarrow> ogs_sa_family a = AF_INET" for a by (cases a; simp)+
  show "mset (ogs_filter_ip_version as no4 no6 p4) = filter_mset (\<lambda>a. \<not> (no4 \<and> ogs_sa_family a = AF_INET) \<and> \<not> (no6 \<and> ogs_sa_family a = AF_INET6)) (mset as)"
    by (auto simp: ogs_filter_ip_version_def Let_def n filter_filter_mset conj_commute)
  define f where "f = (if p4 then AF_INET else AF_INET6)"
  obtain bs where "ogs_filter_ip_version as no4 no6 p4 = ogs_sortaddrinfo bs f"
    using that [of "if no6 then ogs_filteraddrinfo (if no4 then ogs_filteraddrinfo as AF_INET6 else as) AF_INET
        else if no4 then ogs_filteraddrinfo as AF_INET6 else as"] unfolding ogs_filter_ip_version_def Let_def f_def by (cases p4) simp_all
  then show "\<forall>a \<in> set (ogs_filter_ip_version as no4 no6 p4). ogs_sa_family a = (if p4 then AF_INET else AF_INET6)
         \<longrightarrow> ogs_sa_family (hd (ogs_filter_ip_version as no4 no6 p4)) = (if p4 then AF_INET else AF_INET6)"
    using sort_fold_hd [of bs f "[]"] sort_set [of bs f] unfolding f_def [symmetric] by (auto simp: ogs_sortaddrinfo_def)
qed

text \<open>The sort does not separate the families: an address of the other family that comes after at least two preferred ones is put right
  behind the first preferred one, before the others.\<close>

theorem sortaddrinfo_mixes_families:
  assumes "2 \<le> length fs" "\<forall>x \<in> set fs. ogs_sa_family x = f" "ogs_sa_family n \<noteq> f"
  shows "ogs_sortaddrinfo (fs @ [n]) f = last fs # n # rev (butlast fs)"
proof -
  obtain x xs where "rev fs = x # xs" "xs \<noteq> []" using assms(1) by (cases "rev fs") (auto simp: Suc_le_eq dest: arg_cong [of _ _ length])
  moreover from this have "last fs = x" "rev (butlast fs) = xs" using arg_cong [of "rev fs" "x # xs" rev] by (simp_all add: butlast_append)
  moreover have "\<forall>y \<in> set (rev fs). ogs_sa_family y = f" using assms(2) by simp
  moreover have "fold (sort_step f) fs [] = rev fs" using sort_fold_preferred [OF assms(2), of "[]"] by simp
  ultimately show ?thesis using assms(3) by (cases xs) (auto simp: ogs_sortaddrinfo_def)
qed

end
