(* ===== verification/Pfcp_Xact.thy ===== *)
theory Pfcp_Xact
  imports Ogs_Timer Ogs_Pkbuf Ogs_Sockaddr
begin

section \<open>PFCP transactions (lib/pfcp/xact.c, lib/pfcp/path.c)\<close>

text \<open>
  A transaction pairs a PFCP request with its response: it stores the packets of its steps, retransmits a request
  until the response arrives or a count is used up, and answers a repeated request from the stored response. Transactions
  are nodes of a pool with identifiers, and each owns three timers, whose callbacks get the identifier. A transaction
  is on the list of its originator in its PFCP node.
  The state is a pair of the timer manager and the transactions, so that the callbacks fit \<open>ogs_timer_mgr_expire\<close>. The lists
  are sequences of transactions (\<open>ogs_list_add\<close> appends, \<open>ogs_list_remove\<close> removes one). What the code gives to the
  socket and the calls of the application's timeout handlers are recorded in the order in which they happen;
  the fields of a transaction that only the application uses are not modelled, and neither is the release of packet buffers.
\<close>

subsection \<open>Data\<close>

text \<open>The callbacks of the three timers, with their argument.\<close>

datatype tm_data = ResponseTimeout u32 | HoldingTimeout u32 | DelayedCommitTimeout u32

datatype 'c xact_out =
    SentTo nat ogs_sockaddr "u8 list"
  | TimeoutHandler 'c nat

record 'c ogs_pfcp_xact =
  x_index :: nat
  x_org :: u8
  x_xid :: u32
  x_node :: nat
  x_cb :: "'c option"
  x_step :: int
  x_seq :: "(u8 \<times> ogs_pkbuf option) list"
  x_tm_response :: "nat option"
  x_response_rcount :: u8
  x_tm_holding :: "nat option"
  x_holding_rcount :: u8
  x_tm_delayed_commit :: "nat option"

text \<open>A PFCP node: its lists of transactions and its addresses, the current one by its position.\<close>

record pfcp_node =
  local_list :: "nat list"
  remote_list :: "nat list"
  addr_list :: "ogs_sockaddr list"
  current_addr :: "nat option"

record 'c pfcp_xacts =
  xpool :: ogs_pool
  g_xact_id :: u32
  xacts :: "nat \<Rightarrow> 'c ogs_pfcp_xact"
  pnodes :: "nat \<Rightarrow> pfcp_node"
  xouts :: "'c xact_out list"

type_synonym 'c xstate = "tm_data ogs_timer_mgr \<times> 'c pfcp_xacts"

text \<open>The configuration, which sockets are open, and whether the socket takes the \<open>i\<close>-th datagram.\<close>

record pfcp_conf =
  n1_response_rcount :: int
  t1_response_duration :: int
  n1_holding_rcount :: int
  t1_holding_duration :: int
  pfcp_sock :: bool
  pfcp_sock6 :: bool
  tx_ok :: "nat \<Rightarrow> bool"

definition PFCP_N1_RESPONSE_RETRY_COUNT :: int where "PFCP_N1_RESPONSE_RETRY_COUNT = 3"
definition PFCP_N1_HOLDING_RETRY_COUNT :: int where "PFCP_N1_HOLDING_RETRY_COUNT = 1"

text \<open>The PFCP part of \<open>regenerate_all_timer_duration\<close>. The division is C's, which rounds to zero.\<close>

definition regenerate_pfcp_durations :: "int \<Rightarrow> pfcp_conf \<Rightarrow> pfcp_conf option" where
  "regenerate_pfcp_durations duration c =
     do { ogs_assert (duration \<noteq> 0);
          let c = c\<lparr>n1_response_rcount := PFCP_N1_RESPONSE_RETRY_COUNT\<rparr>;
          let c = c\<lparr>t1_response_duration := sgn duration * (\<bar>duration\<bar> div (n1_response_rcount c + 1))\<rparr>;
          ogs_assert (t1_response_duration c \<noteq> 0);
          let c = c\<lparr>n1_holding_rcount := PFCP_N1_HOLDING_RETRY_COUNT\<rparr>;
          let c = c\<lparr>t1_holding_duration := n1_response_rcount c * t1_response_duration c\<rparr>;
          ogs_assert (t1_holding_duration c \<noteq> 0);
          Some c }"

definition PFCP_MIN_XACT_ID :: u32 where "PFCP_MIN_XACT_ID = 1"
definition PFCP_MAX_XACT_ID :: u32 where "PFCP_MAX_XACT_ID = 0x800000"
definition OGS_PFCP_LOCAL_ORIGINATOR :: u8 where "OGS_PFCP_LOCAL_ORIGINATOR = 0"
definition OGS_PFCP_REMOTE_ORIGINATOR :: u8 where "OGS_PFCP_REMOTE_ORIGINATOR = 1"
definition OGS_PFCP_HEADER_LEN :: nat where "OGS_PFCP_HEADER_LEN = 16"
definition OGS_PFCP_SEID_LEN :: nat where "OGS_PFCP_SEID_LEN = 8"
definition OGS_PFCP_VERSION :: u8 where "OGS_PFCP_VERSION = 1"
definition OGS_PFCP_HEARTBEAT_REQUEST_TYPE :: u8 where "OGS_PFCP_HEARTBEAT_REQUEST_TYPE = 1"
definition OGS_PFCP_HEARTBEAT_RESPONSE_TYPE :: u8 where "OGS_PFCP_HEARTBEAT_RESPONSE_TYPE = 2"
definition OGS_PFCP_ASSOCIATION_SETUP_REQUEST_TYPE :: u8 where "OGS_PFCP_ASSOCIATION_SETUP_REQUEST_TYPE = 5"
definition OGS_PFCP_ASSOCIATION_SETUP_RESPONSE_TYPE :: u8 where "OGS_PFCP_ASSOCIATION_SETUP_RESPONSE_TYPE = 6"
definition OGS_PFCP_SESSION_ESTABLISHMENT_REQUEST_TYPE :: u8 where "OGS_PFCP_SESSION_ESTABLISHMENT_REQUEST_TYPE = 50"

lemmas pfcp_const_defs = PFCP_MIN_XACT_ID_def PFCP_MAX_XACT_ID_def OGS_PFCP_LOCAL_ORIGINATOR_def OGS_PFCP_REMOTE_ORIGINATOR_def
  OGS_PFCP_HEADER_LEN_def OGS_PFCP_SEID_LEN_def OGS_PFCP_VERSION_def OGS_PFCP_HEARTBEAT_REQUEST_TYPE_def
  OGS_PFCP_HEARTBEAT_RESPONSE_TYPE_def OGS_PFCP_ASSOCIATION_SETUP_REQUEST_TYPE_def OGS_PFCP_ASSOCIATION_SETUP_RESPONSE_TYPE_def
  OGS_PFCP_SESSION_ESTABLISHMENT_REQUEST_TYPE_def

text \<open>The sequence number field as its four bytes in the packet.\<close>

definition OGS_PFCP_XID_TO_SQN :: "u32 \<Rightarrow> u8 list" where
  "OGS_PFCP_XID_TO_SQN xid = be32 (push_bit 8 xid)"

fun OGS_PFCP_SQN_TO_XID :: "u8 list \<Rightarrow> u32" where
  "OGS_PFCP_SQN_TO_XID [a, b, c, d] = drop_bit 8 (rd32 a b c d)"
| "OGS_PFCP_SQN_TO_XID _ = 0"

definition be64 :: "u64 \<Rightarrow> u8 list" where
  "be64 x = rev (le64 x)"

datatype xact_stage = PFCP_XACT_UNKNOWN_STAGE | PFCP_XACT_INITIAL_STAGE | PFCP_XACT_INTERMEDIATE_STAGE | PFCP_XACT_FINAL_STAGE

definition ogs_pfcp_xact_get_stage :: "u8 \<Rightarrow> xact_stage" where
  "ogs_pfcp_xact_get_stage type =
     (if type \<in> {1, 5, 7, 9, 50, 52, 54, 56} then PFCP_XACT_INITIAL_STAGE
      else if type \<in> {2, 6, 8, 10, 11, 51, 53, 55, 57} then PFCP_XACT_FINAL_STAGE
      else PFCP_XACT_UNKNOWN_STAGE)"

definition upd_xact :: "nat \<Rightarrow> ('c ogs_pfcp_xact \<Rightarrow> 'c ogs_pfcp_xact) \<Rightarrow> 'c pfcp_xacts \<Rightarrow> 'c pfcp_xacts" where
  "upd_xact n f w = w\<lparr>xacts := (xacts w)(n := f (xacts w n))\<rparr>"

definition upd_pnode :: "nat \<Rightarrow> (pfcp_node \<Rightarrow> pfcp_node) \<Rightarrow> 'c pfcp_xacts \<Rightarrow> 'c pfcp_xacts" where
  "upd_pnode n f w = w\<lparr>pnodes := (pnodes w)(n := f (pnodes w n))\<rparr>"

text \<open>\<open>xact->seq[i]\<close>; an index out of range is \<open>None\<close>.\<close>

definition seq_at :: "'c ogs_pfcp_xact \<Rightarrow> int \<Rightarrow> (u8 \<times> ogs_pkbuf option) option" where
  "seq_at x i = (if 0 \<le> i \<and> i < 3 then Some (x_seq x ! nat i) else None)"

definition set_seq :: "int \<Rightarrow> u8 \<times> ogs_pkbuf option \<Rightarrow> 'c ogs_pfcp_xact \<Rightarrow> 'c ogs_pfcp_xact option" where
  "set_seq i v x = (if 0 \<le> i \<and> i < 3 then Some (x\<lparr>x_seq := (x_seq x)[nat i := v]\<rparr>) else None)"

text \<open>\<open>if (tm) ogs_timer_...(tm)\<close>.\<close>

definition tm_start :: "nat option \<Rightarrow> int \<Rightarrow> int \<Rightarrow> 'd ogs_timer_mgr \<Rightarrow> 'd ogs_timer_mgr option" where
  "tm_start tm duration now m = (case tm of Some t \<Rightarrow> ogs_timer_start t duration now m | None \<Rightarrow> Some m)"

definition tm_stop :: "nat option \<Rightarrow> 'd ogs_timer_mgr \<Rightarrow> 'd ogs_timer_mgr option" where
  "tm_stop tm m = (case tm of Some t \<Rightarrow> ogs_timer_stop t m | None \<Rightarrow> Some m)"

definition tm_delete :: "nat option \<Rightarrow> 'd ogs_timer_mgr \<Rightarrow> 'd ogs_timer_mgr option" where
  "tm_delete tm m = (case tm of Some t \<Rightarrow> ogs_timer_delete t m | None \<Rightarrow> Some m)"

subsection \<open>Sending (path.c)\<close>

text \<open>\<open>ogs_pfcp_sendto\<close>: one datagram to the current address of the node, then the next address. A failure leaves the address.\<close>

definition has_sock :: "pfcp_conf \<Rightarrow> ogs_sockaddr \<Rightarrow> bool" where
  "has_sock c a = (case a of SockAddr4 _ _ \<Rightarrow> pfcp_sock c | SockAddr6 _ _ \<Rightarrow> pfcp_sock6 c)"

definition ogs_pfcp_sendto :: "pfcp_conf \<Rightarrow> nat \<Rightarrow> ogs_pkbuf \<Rightarrow> 'c pfcp_xacts \<Rightarrow> (status \<times> 'c pfcp_xacts) option" where
  "ogs_pfcp_sendto c nd pk w =
     do { let as = addr_list (pnodes w nd);
          ogs_assert (as \<noteq> []);
          let k = (case current_addr (pnodes w nd) of None \<Rightarrow> 0 | Some k \<Rightarrow> k);
          let w = upd_pnode nd (\<lambda>p. p\<lparr>current_addr := Some k\<rparr>) w;
          ogs_assert (k < length as);
          let addr = as ! k;
          if \<not> has_sock c addr then Some (OGS_ERROR, w)
          else let ok = tx_ok c (length (xouts w));
                   w = w\<lparr>xouts := xouts w @ [SentTo nd addr (contents pk)]\<rparr>
               in if \<not> ok then Some (OGS_ERROR, w)
                  else Some (OGS_OK, upd_pnode nd (\<lambda>p. p\<lparr>current_addr := Some (if k + 1 < length as then k + 1 else 0)\<rparr>) w) }"

subsection \<open>Creating and deleting\<close>

text \<open>The contents of the pool are those \<open>malloc\<close> returns.\<close>

definition ogs_pfcp_xact_init :: "nat \<Rightarrow> u32 list \<Rightarrow> u32 \<Rightarrow> (nat \<Rightarrow> 'c ogs_pfcp_xact) \<Rightarrow> (nat \<Rightarrow> pfcp_node) \<Rightarrow> 'c pfcp_xacts" where
  "ogs_pfcp_xact_init n mem sd xs nds =
     \<lparr>xpool = ogs_pool_init n mem 0 sd, g_xact_id = 0, xacts = xs, pnodes = nds, xouts = []\<rparr>"

definition ogs_pfcp_xact_final :: "'c pfcp_xacts \<Rightarrow> nat" where
  "ogs_pfcp_xact_final w = ogs_pool_final (xpool w)"

text \<open>The timers of a new transaction; running out of timers aborts.\<close>

definition add_xact_timers :: "u32 \<Rightarrow> tm_data ogs_timer_mgr \<Rightarrow> ((nat \<times> nat \<times> nat) \<times> tm_data ogs_timer_mgr) option" where
  "add_xact_timers i m =
     do { (r, m) \<leftarrow> ogs_timer_add (Some (ResponseTimeout i)) m;
          r \<leftarrow> r;
          (h, m) \<leftarrow> ogs_timer_add (Some (HoldingTimeout i)) m;
          h \<leftarrow> h;
          (d, m) \<leftarrow> ogs_timer_add (Some (DelayedCommitTimeout i)) m;
          d \<leftarrow> d;
          Some ((r, h, d), m) }"

definition ogs_pfcp_xact_local_create :: "pfcp_conf \<Rightarrow> nat \<Rightarrow> 'c option \<Rightarrow> 'c xstate \<Rightarrow> (nat \<times> 'c xstate) option" where
  "ogs_pfcp_xact_local_create c nd cb mw =
     do { (x, p) \<leftarrow> ogs_pool_id_calloc (xpool (snd mw));
          n \<leftarrow> x;
          let w = (snd mw)\<lparr>xpool := p, g_xact_id := OGS_NEXT_ID (g_xact_id (snd mw)) PFCP_MIN_XACT_ID PFCP_MAX_XACT_ID\<rparr>;
          ((r, h, d), m) \<leftarrow> add_xact_timers (ids p ! n) (fst mw);
          let w = upd_xact n (\<lambda>_. \<lparr>x_index = ogs_pool_index n, x_org = OGS_PFCP_LOCAL_ORIGINATOR, x_xid = g_xact_id w, x_node = nd,
             x_cb = cb, x_step = 0, x_seq = replicate 3 (0, None), x_tm_response = Some r,
             x_response_rcount = word_of_int (n1_response_rcount c), x_tm_holding = Some h,
             x_holding_rcount = word_of_int (n1_holding_rcount c), x_tm_delayed_commit = Some d\<rparr>) w;
          Some (n, (m, upd_pnode nd (\<lambda>p. p\<lparr>local_list := local_list p @ [n]\<rparr>) w)) }"

definition ogs_pfcp_xact_remote_create :: "pfcp_conf \<Rightarrow> nat \<Rightarrow> u8 list \<Rightarrow> 'c xstate \<Rightarrow> (nat \<times> 'c xstate) option" where
  "ogs_pfcp_xact_remote_create c nd sqn mw =
     do { (x, p) \<leftarrow> ogs_pool_id_calloc (xpool (snd mw));
          n \<leftarrow> x;
          let w = (snd mw)\<lparr>xpool := p\<rparr>;
          ((r, h, d), m) \<leftarrow> add_xact_timers (ids p ! n) (fst mw);
          let w = upd_xact n (\<lambda>_. \<lparr>x_index = ogs_pool_index n, x_org = OGS_PFCP_REMOTE_ORIGINATOR, x_xid = OGS_PFCP_SQN_TO_XID sqn, x_node = nd,
             x_cb = None, x_step = 0, x_seq = replicate 3 (0, None), x_tm_response = Some r,
             x_response_rcount = word_of_int (n1_response_rcount c), x_tm_holding = Some h,
             x_holding_rcount = word_of_int (n1_holding_rcount c), x_tm_delayed_commit = Some d\<rparr>) w;
          Some (n, (m, upd_pnode nd (\<lambda>p. p\<lparr>remote_list := remote_list p @ [n]\<rparr>) w)) }"

text \<open>\<open>ogs_pfcp_xact_delete\<close> always returns \<open>OGS_OK\<close>; the result here is the state.\<close>

definition ogs_pfcp_xact_delete :: "nat \<Rightarrow> 'c xstate \<Rightarrow> 'c xstate option" where
  "ogs_pfcp_xact_delete n mw =
     do { let w = snd mw;
          let x = xacts w n;
          m \<leftarrow> tm_delete (x_tm_response x) (fst mw);
          m \<leftarrow> tm_delete (x_tm_holding x) m;
          m \<leftarrow> tm_delete (x_tm_delayed_commit x) m;
          let w = (if x_org x = OGS_PFCP_LOCAL_ORIGINATOR
                   then upd_pnode (x_node x) (\<lambda>p. p\<lparr>local_list := remove1 n (local_list p)\<rparr>) w
                   else upd_pnode (x_node x) (\<lambda>p. p\<lparr>remote_list := remove1 n (remote_list p)\<rparr>) w);
          p \<leftarrow> ogs_pool_id_free n (xpool w);
          Some (m, w\<lparr>xpool := p\<rparr>) }"

definition ogs_pfcp_xact_delete_all :: "nat \<Rightarrow> 'c xstate \<Rightarrow> 'c xstate option" where
  "ogs_pfcp_xact_delete_all nd mw =
     do { mw \<leftarrow> foldM ogs_pfcp_xact_delete (local_list (pnodes (snd mw) nd)) mw;
          foldM ogs_pfcp_xact_delete (remote_list (pnodes (snd mw) nd)) mw }"

definition ogs_pfcp_xact_find_by_id :: "u32 \<Rightarrow> 'c pfcp_xacts \<Rightarrow> nat option option" where
  "ogs_pfcp_xact_find_by_id i w = ogs_pool_find_by_id (xpool w) i"

subsection \<open>Steps of a transaction\<close>

text \<open>The header \<open>ogs_pfcp_xact_update_tx\<close> writes in front of the message: flags, type, length, SEID if any, sequence number.\<close>

definition pfcp_hlen :: "u8 \<Rightarrow> nat" where
  "pfcp_hlen type = (if type \<ge> OGS_PFCP_SESSION_ESTABLISHMENT_REQUEST_TYPE then OGS_PFCP_HEADER_LEN else OGS_PFCP_HEADER_LEN - OGS_PFCP_SEID_LEN)"

definition pfcp_header :: "u8 \<Rightarrow> u64 \<Rightarrow> u32 \<Rightarrow> u16 \<Rightarrow> u8 list" where
  "pfcp_header type seid xid len =
     (if type \<ge> OGS_PFCP_SESSION_ESTABLISHMENT_REQUEST_TYPE
      then [push_bit 5 OGS_PFCP_VERSION OR 1, type] @ be16 len @ be64 seid @ OGS_PFCP_XID_TO_SQN xid
      else [push_bit 5 OGS_PFCP_VERSION, type] @ be16 len @ OGS_PFCP_XID_TO_SQN xid)"

text \<open>The guard of \<open>ogs_pfcp_xact_update_tx\<close>: \<open>None\<close> is \<open>ogs_assert_if_reached\<close>, \<open>Some False\<close> the return of \<open>OGS_ERROR\<close>.\<close>

definition tx_allowed :: "'c ogs_pfcp_xact \<Rightarrow> u8 \<Rightarrow> bool option" where
  "tx_allowed x type =
     (let stage = ogs_pfcp_xact_get_stage type
      in if x_org x = OGS_PFCP_LOCAL_ORIGINATOR
         then (case stage of
                 PFCP_XACT_INITIAL_STAGE \<Rightarrow> Some (x_step x = 0)
               | PFCP_XACT_INTERMEDIATE_STAGE \<Rightarrow> Some False
               | PFCP_XACT_FINAL_STAGE \<Rightarrow> Some (x_step x = 2)
               | PFCP_XACT_UNKNOWN_STAGE \<Rightarrow> None)
         else if x_org x = OGS_PFCP_REMOTE_ORIGINATOR
         then (case stage of
                 PFCP_XACT_INITIAL_STAGE \<Rightarrow> Some False
               | PFCP_XACT_INTERMEDIATE_STAGE \<Rightarrow> Some (x_step x = 1)
               | PFCP_XACT_FINAL_STAGE \<Rightarrow> Some (x_step x = 1)
               | PFCP_XACT_UNKNOWN_STAGE \<Rightarrow> Some False)
         else Some False)"

definition ogs_pfcp_xact_update_tx :: "nat \<Rightarrow> u8 \<Rightarrow> u64 \<Rightarrow> ogs_pkbuf \<Rightarrow> 'c xstate \<Rightarrow> (status \<times> 'c xstate) option" where
  "ogs_pfcp_xact_update_tx n type seid pkbuf mw =
     do { let x = xacts (snd mw) n;
          allowed \<leftarrow> tx_allowed x type;
          if \<not> allowed then Some (OGS_ERROR, mw)
          else do { pkbuf \<leftarrow> ogs_pkbuf_push (pfcp_hlen type) pkbuf;
                    pkbuf \<leftarrow> write_at (pk_data pkbuf) (pfcp_header type seid (x_xid x) (of_nat (pk_len pkbuf - 4))) pkbuf;
                    x \<leftarrow> set_seq (x_step x) (type, Some pkbuf) x;
                    let x = x\<lparr>x_step := x_step x + 1\<rparr>;
                    Some (OGS_OK, (fst mw, upd_xact n (\<lambda>_. x) (snd mw))) } }"

text \<open>A duplicate of the message of step \<open>i\<close>: the packet of the next step is sent again, if there is one.\<close>

definition retransmit :: "pfcp_conf \<Rightarrow> int \<Rightarrow> nat \<Rightarrow> nat \<Rightarrow> 'c xstate \<Rightarrow> (status \<times> 'c xstate) option" where
  "retransmit c now n i mw =
     do { let x = xacts (snd mw) n;
          case snd (x_seq x ! i) of
            Some pkbuf \<Rightarrow>
              do { m \<leftarrow> tm_start (x_tm_holding x) (t1_holding_duration c) now (fst mw);
                   (_, w) \<leftarrow> ogs_pfcp_sendto c (x_node x) pkbuf (snd mw);
                   Some (OGS_RETRY, (m, w)) }
          | None \<Rightarrow> Some (OGS_RETRY, mw) }"

text \<open>The common end of \<open>ogs_pfcp_xact_update_rx\<close>.\<close>

definition rx_accept :: "nat \<Rightarrow> u8 \<Rightarrow> 'c xstate \<Rightarrow> (status \<times> 'c xstate) option" where
  "rx_accept n type mw =
     do { let x = xacts (snd mw) n;
          m \<leftarrow> tm_stop (x_tm_response x) (fst mw);
          x \<leftarrow> do { v \<leftarrow> seq_at x (x_step x); set_seq (x_step x) (type, snd v) x };
          let x = x\<lparr>x_step := x_step x + 1\<rparr>;
          Some (OGS_OK, (m, upd_xact n (\<lambda>_. x) (snd mw))) }"

definition ogs_pfcp_xact_update_rx :: "pfcp_conf \<Rightarrow> int \<Rightarrow> nat \<Rightarrow> u8 \<Rightarrow> 'c xstate \<Rightarrow> (status \<times> 'c xstate) option" where
  "ogs_pfcp_xact_update_rx c now n type mw =
     (let x = xacts (snd mw) n; stage = ogs_pfcp_xact_get_stage type
      in if x_org x = OGS_PFCP_LOCAL_ORIGINATOR
         then (case stage of
                 PFCP_XACT_INITIAL_STAGE \<Rightarrow> Some (OGS_ERROR, mw)
               | PFCP_XACT_INTERMEDIATE_STAGE \<Rightarrow>
                   if fst (x_seq x ! 1) = type
                   then if x_step x \<noteq> 2 \<and> x_step x \<noteq> 3 then Some (OGS_ERROR, mw) else retransmit c now n 2 mw
                   else if x_step x \<noteq> 1 then Some (OGS_ERROR, mw)
                   else do { m \<leftarrow> tm_start (x_tm_holding x) (t1_holding_duration c) now (fst mw);
                             rx_accept n type (m, snd mw) }
               | PFCP_XACT_FINAL_STAGE \<Rightarrow>
                   if x_step x \<noteq> 1 then Some (OGS_ERROR, mw) else rx_accept n type mw
               | PFCP_XACT_UNKNOWN_STAGE \<Rightarrow> Some (OGS_ERROR, mw))
         else if x_org x = OGS_PFCP_REMOTE_ORIGINATOR
         then (case stage of
                 PFCP_XACT_INITIAL_STAGE \<Rightarrow>
                   if fst (x_seq x ! 0) = type
                   then if x_step x \<noteq> 1 \<and> x_step x \<noteq> 2 then Some (OGS_ERROR, mw) else retransmit c now n 1 mw
                   else if x_step x \<noteq> 0 then Some (OGS_ERROR, mw)
                   else do { m \<leftarrow> tm_start (x_tm_holding x) (t1_holding_duration c) now (fst mw);
                             rx_accept n type (m, snd mw) }
               | PFCP_XACT_INTERMEDIATE_STAGE \<Rightarrow> Some (OGS_ERROR, mw)
               | PFCP_XACT_FINAL_STAGE \<Rightarrow>
                   if x_step x \<noteq> 2 then Some (OGS_ERROR, mw) else rx_accept n type mw
               | PFCP_XACT_UNKNOWN_STAGE \<Rightarrow> Some (OGS_ERROR, mw))
         else Some (OGS_ERROR, mw))"

text \<open>What \<open>ogs_pfcp_xact_commit\<close> does in each case of originator, stage and step.\<close>

datatype commit_action = DeleteError | DeleteOk | SendStartTimer | SendOnly

definition commit_action_of :: "'c ogs_pfcp_xact \<Rightarrow> u8 \<Rightarrow> commit_action" where
  "commit_action_of x type =
     (let stage = ogs_pfcp_xact_get_stage type
      in if x_org x = OGS_PFCP_LOCAL_ORIGINATOR
         then (case stage of
                 PFCP_XACT_INITIAL_STAGE \<Rightarrow> if x_step x \<noteq> 1 then DeleteError else SendStartTimer
               | PFCP_XACT_INTERMEDIATE_STAGE \<Rightarrow> DeleteError
               | PFCP_XACT_FINAL_STAGE \<Rightarrow>
                   if x_step x \<noteq> 2 \<and> x_step x \<noteq> 3 then DeleteError else if x_step x = 2 then DeleteOk else SendOnly
               | PFCP_XACT_UNKNOWN_STAGE \<Rightarrow> DeleteError)
         else if x_org x = OGS_PFCP_REMOTE_ORIGINATOR
         then (case stage of
                 PFCP_XACT_INITIAL_STAGE \<Rightarrow> DeleteError
               | PFCP_XACT_INTERMEDIATE_STAGE \<Rightarrow> if x_step x \<noteq> 2 then DeleteError else SendStartTimer
               | PFCP_XACT_FINAL_STAGE \<Rightarrow>
                   if x_step x \<noteq> 2 \<and> x_step x \<noteq> 3 then DeleteError else if x_step x = 3 then DeleteOk else SendOnly
               | PFCP_XACT_UNKNOWN_STAGE \<Rightarrow> DeleteError)
         else DeleteError)"

definition ogs_pfcp_xact_commit :: "pfcp_conf \<Rightarrow> int \<Rightarrow> nat \<Rightarrow> 'c xstate \<Rightarrow> (status \<times> 'c xstate) option" where
  "ogs_pfcp_xact_commit c now n mw =
     do { let x = xacts (snd mw) n;
          (type, pkbuf) \<leftarrow> seq_at x (x_step x - 1);
          let action = commit_action_of x type;
          if action = DeleteError then map_option (Pair OGS_ERROR) (ogs_pfcp_xact_delete n mw)
          else if action = DeleteOk then map_option (Pair OGS_OK) (ogs_pfcp_xact_delete n mw)
          else do { m \<leftarrow> (if action = SendStartTimer then tm_start (x_tm_response x) (t1_response_duration c) now (fst mw) else Some (fst mw));
                    pkbuf \<leftarrow> pkbuf;
                    (_, w) \<leftarrow> ogs_pfcp_sendto c (x_node x) pkbuf (snd mw);
                    Some (OGS_OK, (m, w)) } }"

definition ogs_pfcp_xact_delayed_commit :: "nat \<Rightarrow> int \<Rightarrow> int \<Rightarrow> 'c xstate \<Rightarrow> 'c xstate option" where
  "ogs_pfcp_xact_delayed_commit n duration now mw =
     do { ogs_assert (duration \<noteq> 0);
          t \<leftarrow> x_tm_delayed_commit (xacts (snd mw) n);
          m \<leftarrow> ogs_timer_start t duration now (fst mw);
          Some (m, snd mw) }"

subsection \<open>Timeouts\<close>

text \<open>The start of the three callbacks: the identifier has to be in range, and a transaction that is gone is ignored. The
  debug messages read the type of the last step.\<close>

definition with_xact :: "u32 \<Rightarrow> (nat \<Rightarrow> 'c xstate option) \<Rightarrow> 'c xstate \<Rightarrow> 'c xstate option" where
  "with_xact i f mw =
     do { ogs_assert (OGS_MIN_POOL_ID \<le> i \<and> i \<le> OGS_MAX_POOL_ID);
          found \<leftarrow> ogs_pfcp_xact_find_by_id i (snd mw);
          case found of
            None \<Rightarrow> Some mw
          | Some n \<Rightarrow> do { _ \<leftarrow> seq_at (xacts (snd mw) n) (x_step (xacts (snd mw) n) - 1); f n } }"

definition response_timeout :: "pfcp_conf \<Rightarrow> int \<Rightarrow> u32 \<Rightarrow> 'c xstate \<Rightarrow> 'c xstate option" where
  "response_timeout c now i mw = with_xact i (\<lambda>n.
     do { let w = upd_xact n (\<lambda>x. x\<lparr>x_response_rcount := x_response_rcount x - 1\<rparr>) (snd mw);
          let x = xacts w n;
          if x_response_rcount x > 0
          then do { m \<leftarrow> tm_start (x_tm_response x) (t1_response_duration c) now (fst mw);
                    (_, pkbuf) \<leftarrow> seq_at x (x_step x - 1);
                    pkbuf \<leftarrow> pkbuf;
                    (_, w) \<leftarrow> ogs_pfcp_sendto c (x_node x) pkbuf w;
                    Some (m, w) }
          else let w = (case x_cb x of Some f \<Rightarrow> w\<lparr>xouts := xouts w @ [TimeoutHandler f n]\<rparr> | None \<Rightarrow> w)
               in ogs_pfcp_xact_delete n (fst mw, w) }) mw"

definition holding_timeout :: "pfcp_conf \<Rightarrow> int \<Rightarrow> u32 \<Rightarrow> 'c xstate \<Rightarrow> 'c xstate option" where
  "holding_timeout c now i mw = with_xact i (\<lambda>n.
     do { let w = upd_xact n (\<lambda>x. x\<lparr>x_holding_rcount := x_holding_rcount x - 1\<rparr>) (snd mw);
          let x = xacts w n;
          if x_holding_rcount x > 0
          then do { m \<leftarrow> tm_start (x_tm_holding x) (t1_holding_duration c) now (fst mw); Some (m, w) }
          else ogs_pfcp_xact_delete n (fst mw, w) }) mw"

definition delayed_commit_timeout :: "pfcp_conf \<Rightarrow> int \<Rightarrow> u32 \<Rightarrow> 'c xstate \<Rightarrow> 'c xstate option" where
  "delayed_commit_timeout c now i mw = with_xact i (\<lambda>n. map_option snd (ogs_pfcp_xact_commit c now n mw)) mw"

fun xact_timeout :: "pfcp_conf \<Rightarrow> int \<Rightarrow> tm_data \<Rightarrow> 'c xstate \<Rightarrow> 'c xstate option" where
  "xact_timeout c now (ResponseTimeout i) mw = response_timeout c now i mw"
| "xact_timeout c now (HoldingTimeout i) mw = holding_timeout c now i mw"
| "xact_timeout c now (DelayedCommitTimeout i) mw = delayed_commit_timeout c now i mw"

subsection \<open>Receiving\<close>

definition ogs_pfcp_xact_receive ::
  "pfcp_conf \<Rightarrow> int \<Rightarrow> nat \<Rightarrow> u8 \<Rightarrow> u8 list \<Rightarrow> 'c xstate \<Rightarrow> (status \<times> nat option \<times> 'c xstate) option" where
  "ogs_pfcp_xact_receive c now nd type sqn mw =
     do { let xid = OGS_PFCP_SQN_TO_XID sqn;
          let stage = ogs_pfcp_xact_get_stage type;
          if stage = PFCP_XACT_UNKNOWN_STAGE then Some (OGS_ERROR, None, mw)
          else do {
            let list = (if stage = PFCP_XACT_INITIAL_STAGE then remote_list (pnodes (snd mw) nd) else local_list (pnodes (snd mw) nd));
            (new, mw) \<leftarrow> (case find (\<lambda>n. x_xid (xacts (snd mw) n) = xid) list of
                            Some n \<Rightarrow> Some (n, mw)
                          | None \<Rightarrow> ogs_pfcp_xact_remote_create c nd sqn mw);
            (rv, mw) \<leftarrow> ogs_pfcp_xact_update_rx c now new type mw;
            if rv = OGS_ERROR then do { mw \<leftarrow> ogs_pfcp_xact_delete new mw; Some (rv, None, mw) }
            else if rv = OGS_RETRY then Some (rv, None, mw)
            else Some (rv, Some new, mw) } }"

subsection \<open>The invariant\<close>

text \<open>What the steps of a transaction look like: which messages are stored, with their packets where this side sends them.\<close>

definition xshape :: "'c ogs_pfcp_xact \<Rightarrow> bool" where
  "xshape x \<longleftrightarrow> length (x_seq x) = 3 \<and> x_xid x < 2 ^ 24 \<and>
     (if x_org x = OGS_PFCP_LOCAL_ORIGINATOR
      then x_step x \<in> {0, 1, 2, 3}
        \<and> (x_step x \<ge> 1 \<longrightarrow> ogs_pfcp_xact_get_stage (fst (x_seq x ! 0)) = PFCP_XACT_INITIAL_STAGE \<and> snd (x_seq x ! 0) \<noteq> None)
        \<and> (x_step x \<ge> 2 \<longrightarrow> ogs_pfcp_xact_get_stage (fst (x_seq x ! 1)) = PFCP_XACT_FINAL_STAGE)
        \<and> (x_step x = 3 \<longrightarrow> ogs_pfcp_xact_get_stage (fst (x_seq x ! 2)) = PFCP_XACT_FINAL_STAGE \<and> snd (x_seq x ! 2) \<noteq> None)
      else x_org x = OGS_PFCP_REMOTE_ORIGINATOR \<and> x_step x \<in> {0, 1, 2}
        \<and> (x_step x = 0 \<longrightarrow> fst (x_seq x ! 0) = 0)
        \<and> (x_step x \<ge> 1 \<longrightarrow> ogs_pfcp_xact_get_stage (fst (x_seq x ! 0)) = PFCP_XACT_INITIAL_STAGE)
        \<and> (x_step x \<le> 1 \<longrightarrow> snd (x_seq x ! 1) = None)
        \<and> (x_step x = 2 \<longrightarrow> ogs_pfcp_xact_get_stage (fst (x_seq x ! 1)) = PFCP_XACT_FINAL_STAGE \<and> snd (x_seq x ! 1) \<noteq> None))"

fun tm_of :: "tm_data \<Rightarrow> 'c ogs_pfcp_xact \<Rightarrow> nat option" where
  "tm_of (ResponseTimeout i) x = x_tm_response x"
| "tm_of (HoldingTimeout i) x = x_tm_holding x"
| "tm_of (DelayedCommitTimeout i) x = x_tm_delayed_commit x"

fun id_of :: "tm_data \<Rightarrow> u32" where
  "id_of (ResponseTimeout i) = i" | "id_of (HoldingTimeout i) = i" | "id_of (DelayedCommitTimeout i) = i"

text \<open>When a timer of a transaction may fire: the response timer while a request waits for its response, the others after the first step.\<close>

fun may_fire :: "tm_data \<Rightarrow> 'c ogs_pfcp_xact \<Rightarrow> bool" where
  "may_fire (ResponseTimeout i) x \<longleftrightarrow> x_org x = OGS_PFCP_LOCAL_ORIGINATOR \<and> x_step x = 1"
| "may_fire (HoldingTimeout i) x \<longleftrightarrow> x_step x \<ge> 1"
| "may_fire (DelayedCommitTimeout i) x \<longleftrightarrow> x_step x \<ge> 1"

definition xact_ok :: "tm_data ogs_timer_mgr \<Rightarrow> u32 \<Rightarrow> 'c ogs_pfcp_xact \<Rightarrow> bool" where
  "xact_ok m i x \<longleftrightarrow> xshape x \<and> (\<forall>d. id_of d = i \<longrightarrow>
     (\<exists>t \<in> live (m_pool m). tm_of d x = Some t \<and> t_cb (m_timers m t) = Some d \<and> (t_running (m_timers m t) \<longrightarrow> may_fire d x)))"

definition lists_ok :: "'c pfcp_xacts \<Rightarrow> bool" where
  "lists_ok w \<longleftrightarrow> (\<forall>nd. distinct (local_list (pnodes w nd)) \<and> distinct (remote_list (pnodes w nd))
     \<and> set (local_list (pnodes w nd)) = {k \<in> live (xpool w). x_org (xacts w k) = OGS_PFCP_LOCAL_ORIGINATOR \<and> x_node (xacts w k) = nd}
     \<and> set (remote_list (pnodes w nd)) = {k \<in> live (xpool w). x_org (xacts w k) \<noteq> OGS_PFCP_LOCAL_ORIGINATOR \<and> x_node (xacts w k) = nd})"

definition node_ok :: "pfcp_node \<Rightarrow> bool" where
  "node_ok p \<longleftrightarrow> addr_list p \<noteq> [] \<and> (\<forall>k. current_addr p = Some k \<longrightarrow> k < length (addr_list p))"

text \<open>The whole invariant; the last part says that no timer is left over from a transaction that is gone.\<close>

definition xinv :: "nat set \<Rightarrow> nat \<Rightarrow> tm_data ogs_timer_mgr \<Rightarrow> 'c pfcp_xacts \<Rightarrow> bool" where
  "xinv N nx m w \<longleftrightarrow> (\<exists>xs. timer_inv m xs) \<and> run_inv nx (unat (id (xpool w))) (xpool w) \<and> (\<forall>nd \<in> N. node_ok (pnodes w nd)) \<and> lists_ok w
     \<and> (\<forall>k \<in> live (xpool w). x_node (xacts w k) \<in> N)
     \<and> g_xact_id w \<le> PFCP_MAX_XACT_ID \<and> (\<forall>k \<in> live (xpool w). xact_ok m (ids (xpool w) ! k) (xacts w k))
     \<and> (\<forall>t \<in> live (m_pool m). \<exists>k \<in> live (xpool w). \<exists>d. id_of d = ids (xpool w) ! k \<and> tm_of d (xacts w k) = Some t)"

lemma xinvD:
  assumes "xinv N nx m w"
  shows "\<exists>xs. timer_inv m xs" "id_inv (xpool w)" "\<exists>fs. pool_repr (xpool w) fs" "nd \<in> N \<Longrightarrow> node_ok (pnodes w nd)" "lists_ok w"
    "k \<in> live (xpool w) \<Longrightarrow> xact_ok m (ids (xpool w) ! k) (xacts w k)" "k \<in> live (xpool w) \<Longrightarrow> xshape (xacts w k)" "g_xact_id w \<le> PFCP_MAX_XACT_ID"
    "k \<in> live (xpool w) \<Longrightarrow> x_node (xacts w k) \<in> N"
  using assms by (auto simp: xinv_def run_inv_def xact_ok_def)

lemma xact_timer:
  assumes "xinv N nx m w" "k \<in> live (xpool w)" "id_of d = ids (xpool w) ! k"
  obtains t where "t \<in> live (m_pool m)" "tm_of d (xacts w k) = Some t" "t_cb (m_timers m t) = Some d"
    "t_running (m_timers m t) \<Longrightarrow> may_fire d (xacts w k)"
  using xinvD(6) [OF assms(1,2)] assms(3) unfolding xact_ok_def by blast

text \<open>Timers belong to one transaction, in one role.\<close>

lemma timer_owner_unique:
  assumes "xinv N nx m w" "k \<in> live (xpool w)" "l \<in> live (xpool w)" "id_of d = ids (xpool w) ! k" "id_of e = ids (xpool w) ! l"
    "tm_of d (xacts w k) = Some t" "tm_of e (xacts w l) = Some t"
  shows "d = e \<and> k = l"
proof -
  have "t_cb (m_timers m t) = Some d" "t_cb (m_timers m t) = Some e"
    using xact_timer [OF assms(1,2,4)] xact_timer [OF assms(1,3,5)] assms(6,7) by (metis option.inject)+
  then show ?thesis using live_ids_distinct [OF xinvD(2) [OF assms(1)] assms(2,3)] assms(4,5) by auto
qed

lemma tm_of_datas: "id_of d = i \<Longrightarrow> d = ResponseTimeout i \<or> d = HoldingTimeout i \<or> d = DelayedCommitTimeout i"
  by (cases d) auto

text \<open>Steps that change one transaction and its timers, neither creating nor deleting anything.\<close>

definition same_slots :: "'c ogs_pfcp_xact \<Rightarrow> 'c ogs_pfcp_xact \<Rightarrow> bool" where
  "same_slots x y \<longleftrightarrow> x_org y = x_org x \<and> x_node y = x_node x \<and> x_tm_response y = x_tm_response x \<and> x_tm_holding y = x_tm_holding x
     \<and> x_tm_delayed_commit y = x_tm_delayed_commit x"

definition same_lists :: "'c pfcp_xacts \<Rightarrow> 'c pfcp_xacts \<Rightarrow> bool" where
  "same_lists w w' \<longleftrightarrow> xpool w' = xpool w \<and> g_xact_id w' = g_xact_id w
     \<and> (\<forall>nd. local_list (pnodes w' nd) = local_list (pnodes w nd) \<and> remote_list (pnodes w' nd) = remote_list (pnodes w nd)
           \<and> addr_list (pnodes w' nd) = addr_list (pnodes w nd))
     \<and> (\<forall>nd. node_ok (pnodes w nd) \<longrightarrow> node_ok (pnodes w' nd))"

lemma same_slots_refl [simp]: "same_slots x x" by (simp add: same_slots_def)

lemma tm_of_slots: "same_slots x y \<Longrightarrow> tm_of d y = tm_of d x" by (cases d) (auto simp: same_slots_def)

lemma same_lists_refl [simp]: "same_lists w w" by (simp add: same_lists_def)

lemma same_lists_trans: "same_lists w w' \<Longrightarrow> same_lists w' w'' \<Longrightarrow> same_lists w w''" by (simp add: same_lists_def)

lemma same_lists_upd [simp]: "same_lists w (upd_xact n f w') = same_lists w w'" "same_lists (upd_xact n f w) w' = same_lists w w'"
  "same_lists w (w'\<lparr>xouts := os\<rparr>) = same_lists w w'" "same_lists (w\<lparr>xouts := os\<rparr>) w' = same_lists w w'"
  by (simp_all add: same_lists_def upd_xact_def)

lemma upd_xact_simps [simp]:
  "xacts (upd_xact n f w) k = (if k = n then f (xacts w n) else xacts w k)" "xpool (upd_xact n f w) = xpool w"
  "pnodes (upd_xact n f w) = pnodes w" "xouts (upd_xact n f w) = xouts w" "g_xact_id (upd_xact n f w) = g_xact_id w"
  by (simp_all add: upd_xact_def)

lemma upd_pnode_simps [simp]:
  "pnodes (upd_pnode n f w) k = (if k = n then f (pnodes w n) else pnodes w k)" "xpool (upd_pnode n f w) = xpool w"
  "xacts (upd_pnode n f w) = xacts w" "xouts (upd_pnode n f w) = xouts w" "g_xact_id (upd_pnode n f w) = g_xact_id w"
  by (simp_all add: upd_pnode_def)

lemma lists_ok_same:
  assumes "lists_ok w" "same_lists w w'" "\<forall>l \<in> live (xpool w). x_org (xacts w' l) = x_org (xacts w l) \<and> x_node (xacts w' l) = x_node (xacts w l)"
  shows "lists_ok w'"
  using assms unfolding lists_ok_def same_lists_def by (simp cong: conj_cong)

lemma xinv_update:
  assumes inv: "xinv N nx m w" and k: "k \<in> live (xpool w)" and tm: "timer_inv m' xs" "m_pool m' = m_pool m"
    and cb: "\<forall>t. t_cb (m_timers m' t) = t_cb (m_timers m t)"
    and other: "\<forall>t. (\<forall>d. tm_of d (xacts w k) \<noteq> Some t) \<longrightarrow> m_timers m' t = m_timers m t"
    and w: "same_lists w w'" "same_slots (xacts w k) (xacts w' k)" "\<forall>l. l \<noteq> k \<longrightarrow> xacts w' l = xacts w l"
    and shape: "xshape (xacts w' k)"
    and fire: "\<forall>d t. id_of d = ids (xpool w) ! k \<longrightarrow> tm_of d (xacts w k) = Some t \<longrightarrow> t_running (m_timers m' t) \<longrightarrow> may_fire d (xacts w' k)"
  shows "xinv N nx m' w'"
proof -
  have p: "xpool w' = xpool w" "g_xact_id w' = g_xact_id w" using w(1) by (simp_all add: same_lists_def)
  have sl: "same_slots (xacts w l) (xacts w' l)" for l using w(2,3) by (cases "l = k") simp_all
  have "xact_ok m' (ids (xpool w) ! l) (xacts w' l)" if l: "l \<in> live (xpool w)" for l
    unfolding xact_ok_def
  proof (intro conjI allI impI)
    show "xshape (xacts w' l)" using shape w(3) xinvD(7) [OF inv l] by (cases "l = k") simp_all
    fix d assume d: "id_of d = ids (xpool w) ! l"
    obtain t where t: "t \<in> live (m_pool m)" "tm_of d (xacts w l) = Some t" "t_cb (m_timers m t) = Some d"
      "t_running (m_timers m t) \<Longrightarrow> may_fire d (xacts w l)" by (rule xact_timer [OF inv l d]) (rule that)
    have "may_fire d (xacts w' l)" if r: "t_running (m_timers m' t)"
    proof (cases "l = k")
      case True then show ?thesis using fire d t(2) r by blast
    next
      case False
      have "tm_of e (xacts w k) \<noteq> Some t" for e
      proof
        assume e: "tm_of e (xacts w k) = Some t"
        define e' where "e' = (case e of ResponseTimeout _ \<Rightarrow> ResponseTimeout (ids (xpool w) ! k) | HoldingTimeout _ \<Rightarrow> HoldingTimeout (ids (xpool w) ! k)
          | DelayedCommitTimeout _ \<Rightarrow> DelayedCommitTimeout (ids (xpool w) ! k))"
        have "id_of e' = ids (xpool w) ! k" "tm_of e' (xacts w k) = Some t" using e by (auto simp: e'_def split: tm_data.splits)
        then show False using timer_owner_unique [OF inv l k d _ t(2)] False by blast
      qed
      then show ?thesis using other r t(4) w(3) False by auto
    qed
    then show "\<exists>t \<in> live (m_pool m'). tm_of d (xacts w' l) = Some t \<and> t_cb (m_timers m' t) = Some d
        \<and> (t_running (m_timers m' t) \<longrightarrow> may_fire d (xacts w' l))"
      using t tm(2) cb tm_of_slots [OF sl, of d l] by auto
  qed
  moreover have "lists_ok w'" using lists_ok_same [OF xinvD(5) [OF inv] w(1)] sl by (simp add: same_slots_def)
  moreover have "\<forall>nd \<in> N. node_ok (pnodes w' nd)" using w(1) xinvD(4) [OF inv] by (simp add: same_lists_def)
  moreover have "tm_of d (xacts w' l) = tm_of d (xacts w l)" for d l using tm_of_slots [OF sl] .
  moreover have "x_node (xacts w' l) = x_node (xacts w l)" for l using sl [of l] by (simp add: same_slots_def)
  ultimately show ?thesis using inv tm p unfolding xinv_def by auto
qed

text \<open>Timers that stop do no harm.\<close>

lemma xinv_calmer:
  assumes inv: "xinv N nx m w" and "timer_inv m' xs" "m_pool m' = m_pool m" "\<forall>t. t_cb (m_timers m' t) = t_cb (m_timers m t)"
    "\<forall>t. t_running (m_timers m' t) \<longrightarrow> t_running (m_timers m t)"
  shows "xinv N nx m' w"
proof -
  have "xact_ok m' i (xacts w k)" if "xact_ok m i (xacts w k)" for i k using that assms(3-5) unfolding xact_ok_def by metis
  then show ?thesis using assms unfolding xinv_def by auto
qed

subsection \<open>Sending\<close>

text \<open>The address a datagram goes to, and the next one.\<close>

definition next_addr :: "pfcp_node \<Rightarrow> ogs_sockaddr" where
  "next_addr p = addr_list p ! (case current_addr p of None \<Rightarrow> 0 | Some k \<Rightarrow> k)"

lemma sendto_ok:
  assumes "node_ok (pnodes w nd)"
  shows "\<exists>rv w'. ogs_pfcp_sendto c nd pk w = Some (rv, w') \<and> same_lists w w' \<and> xacts w' = xacts w
    \<and> xouts w' = xouts w @ (if has_sock c (next_addr (pnodes w nd)) then [SentTo nd (next_addr (pnodes w nd)) (contents pk)] else [])"
proof -
  have n: "addr_list (pnodes w nd) \<noteq> []" "\<forall>k. current_addr (pnodes w nd) = Some k \<longrightarrow> k < length (addr_list (pnodes w nd))"
    using assms by (auto simp: node_ok_def)
  let ?k = "case current_addr (pnodes w nd) of None \<Rightarrow> 0 | Some k \<Rightarrow> k"
  have k: "?k < length (addr_list (pnodes w nd))" using n by (auto split: option.splits)
  then show ?thesis
    using assms n by (auto simp: ogs_pfcp_sendto_def Let_def next_addr_def same_lists_def node_ok_def)
qed

subsection \<open>Deleting and creating\<close>

text \<open>
  What a timeout leaves of the rest, also of timers that an earlier callback deleted: their memory keeps the callback, and they do not run.
  Transactions that remain keep originator and step.
\<close>

definition keeps_due :: "'c xstate \<Rightarrow> 'c xstate \<Rightarrow> bool" where
  "keeps_due mw mw' \<longleftrightarrow> m_lnodes (fst mw') = m_lnodes (fst mw)
     \<and> (\<forall>t. t_cb (m_timers (fst mw') t) = t_cb (m_timers (fst mw) t) \<and> t_manager (m_timers (fst mw') t) = t_manager (m_timers (fst mw) t))
     \<and> (\<forall>t. t \<notin> live (m_pool (fst mw')) \<longrightarrow> t \<in> live (m_pool (fst mw)) \<or> \<not> t_running (m_timers (fst mw) t) \<longrightarrow> \<not> t_running (m_timers (fst mw') t))
     \<and> live (xpool (snd mw')) \<subseteq> live (xpool (snd mw)) \<and> ids (xpool (snd mw')) = ids (xpool (snd mw))
     \<and> (\<forall>k \<in> live (xpool (snd mw')). x_org (xacts (snd mw') k) = x_org (xacts (snd mw) k) \<and> x_step (xacts (snd mw') k) = x_step (xacts (snd mw) k))"

lemma keeps_due_refl [simp]: "keeps_due mw mw"
  by (simp add: keeps_due_def)

lemma keeps_due_trans: "keeps_due a b \<Longrightarrow> keeps_due b c \<Longrightarrow> keeps_due a c"
  unfolding keeps_due_def
  by (elim conjE, intro conjI) (simp, simp, metis, erule (1) subset_trans [rotated], simp, metis subsetD)

lemma only_timer_keeps:
  assumes "only_timer t m m'" "m_pool m' = m_pool m" "t \<in> live (m_pool m)" "same_lists w w'"
    "\<forall>k. x_org (xacts w' k) = x_org (xacts w k) \<and> x_step (xacts w' k) = x_step (xacts w k)"
  shows "keeps_due (m, w) (m', w')"
proof -
  have "m_timers m' j = m_timers m j" if "j \<notin> live (m_pool m)" for j using that assms(1,3) by (auto simp: only_timer_def)
  moreover have "t_cb (m_timers m' j) = t_cb (m_timers m j) \<and> t_manager (m_timers m' j) = t_manager (m_timers m j)" for j
    using assms(1) by (cases "j = t") (auto simp: only_timer_def)
  ultimately show ?thesis using assms by (auto simp: keeps_due_def only_timer_def same_lists_def)
qed

lemma delete_timers:
  assumes "timer_inv m xs" "set ts \<subseteq> live (m_pool m)" "distinct ts"
  shows "\<exists>m' xs'. foldM ogs_timer_delete ts m = Some m' \<and> timer_inv m' xs' \<and> live (m_pool m') = live (m_pool m) - set ts
    \<and> m_lnodes m' = m_lnodes m \<and> (\<forall>t. t_cb (m_timers m' t) = t_cb (m_timers m t) \<and> t_manager (m_timers m' t) = t_manager (m_timers m t))
    \<and> (\<forall>t. t \<notin> set ts \<longrightarrow> m_timers m' t = m_timers m t) \<and> (\<forall>t \<in> set ts. \<not> t_running (m_timers m' t))"
  using assms
proof (induction ts arbitrary: m xs)
  case (Cons t ts)
  then obtain m1 where m1: "ogs_timer_delete t m = Some m1" "timer_inv m1 (remove1 t xs)" "live (m_pool m1) = live (m_pool m) - {t}"
    using timer_delete_ok [OF Cons.prems(1), of t] by auto
  note o = timer_delete_only [OF m1(1)]
  have "set ts \<subseteq> live (m_pool m1)" "distinct ts" using Cons.prems m1(3) by auto
  from Cons.IH [OF m1(2) this] obtain m' xs' where m': "foldM ogs_timer_delete ts m1 = Some m'" "timer_inv m' xs'"
    "live (m_pool m') = live (m_pool m1) - set ts" "m_lnodes m' = m_lnodes m1"
    "\<forall>t. t_cb (m_timers m' t) = t_cb (m_timers m1 t) \<and> t_manager (m_timers m' t) = t_manager (m_timers m1 t)"
    "\<forall>t. t \<notin> set ts \<longrightarrow> m_timers m' t = m_timers m1 t" "\<forall>t \<in> set ts. \<not> t_running (m_timers m' t)" by blast
  have "t_cb (m_timers m1 j) = t_cb (m_timers m j) \<and> t_manager (m_timers m1 j) = t_manager (m_timers m j)" for j
    using o by (cases "j = t") (auto simp: only_timer_def)
  then show ?case using m1 m' o Cons.prems(3) by (intro exI [of _ m'] exI [of _ xs']) (auto simp: only_timer_def)
qed auto

text \<open>The timers of a transaction, in the order of its deletion.\<close>

definition timers_of :: "'c ogs_pfcp_xact \<Rightarrow> nat list" where
  "timers_of x = [the (x_tm_response x), the (x_tm_holding x), the (x_tm_delayed_commit x)]"

lemma xact_timers:
  assumes "xinv N nx m w" "k \<in> live (xpool w)"
  shows "x_tm_response (xacts w k) = Some (timers_of (xacts w k) ! 0)" "x_tm_holding (xacts w k) = Some (timers_of (xacts w k) ! 1)"
    "x_tm_delayed_commit (xacts w k) = Some (timers_of (xacts w k) ! 2)" "set (timers_of (xacts w k)) \<subseteq> live (m_pool m)"
    "distinct (timers_of (xacts w k))" "t \<in> set (timers_of (xacts w k)) \<longleftrightarrow> (\<exists>d. id_of d = ids (xpool w) ! k \<and> tm_of d (xacts w k) = Some t)"
proof -
  let ?i = "ids (xpool w) ! k" and ?x = "xacts w k"
  obtain r where r: "r \<in> live (m_pool m)" "x_tm_response ?x = Some r" "t_cb (m_timers m r) = Some (ResponseTimeout ?i)"
    using xact_timer [OF assms, of "ResponseTimeout ?i"] by auto
  obtain h where h: "h \<in> live (m_pool m)" "x_tm_holding ?x = Some h" "t_cb (m_timers m h) = Some (HoldingTimeout ?i)"
    using xact_timer [OF assms, of "HoldingTimeout ?i"] by auto
  obtain d where d: "d \<in> live (m_pool m)" "x_tm_delayed_commit ?x = Some d" "t_cb (m_timers m d) = Some (DelayedCommitTimeout ?i)"
    using xact_timer [OF assms, of "DelayedCommitTimeout ?i"] by auto
  show "x_tm_response ?x = Some (timers_of ?x ! 0)" "x_tm_holding ?x = Some (timers_of ?x ! 1)" "x_tm_delayed_commit ?x = Some (timers_of ?x ! 2)"
    "set (timers_of ?x) \<subseteq> live (m_pool m)" using r h d by (simp_all add: timers_of_def)
  show "distinct (timers_of ?x)" using r h d by (auto simp: timers_of_def)
  have e: "tm_of e ?x \<in> Some ` set (timers_of ?x)" for e using r h d by (cases e) (simp_all add: timers_of_def)
  show "t \<in> set (timers_of ?x) \<longleftrightarrow> (\<exists>d. id_of d = ?i \<and> tm_of d ?x = Some t)"
  proof
    assume "t \<in> set (timers_of ?x)"
    then have "tm_of (ResponseTimeout ?i) ?x = Some t \<or> tm_of (HoldingTimeout ?i) ?x = Some t \<or> tm_of (DelayedCommitTimeout ?i) ?x = Some t"
      using r h d by (auto simp: timers_of_def)
    then show "\<exists>d. id_of d = ?i \<and> tm_of d ?x = Some t" by (metis id_of.simps)
  next
    assume "\<exists>d. id_of d = ?i \<and> tm_of d ?x = Some t"
    then show "t \<in> set (timers_of ?x)" using e by (metis image_iff option.inject)
  qed
qed

lemma xact_timers_live:
  assumes "xinv N nx m w" "k \<in> live (xpool w)" "i < 3" shows "timers_of (xacts w k) ! i \<in> live (m_pool m)"
proof -
  have "length (timers_of (xacts w k)) = 3" by (simp add: timers_of_def)
  then show ?thesis using xact_timers(4) [OF assms(1,2)] nth_mem [of i "timers_of (xacts w k)"] assms(3) by auto
qed

lemma xact_delete_ok:
  assumes inv: "xinv N nx m w" and k: "k \<in> live (xpool w)"
  shows "\<exists>m' w'. ogs_pfcp_xact_delete k (m, w) = Some (m', w') \<and> xinv N nx m' w' \<and> keeps_due (m, w) (m', w')
    \<and> live (xpool w') = live (xpool w) - {k} \<and> live (m_pool m') = live (m_pool m) - set (timers_of (xacts w k))
    \<and> xacts w' = xacts w \<and> xouts w' = xouts w \<and> g_xact_id w' = g_xact_id w \<and> id (xpool w') = id (xpool w)
    \<and> (\<forall>nd. pnodes w' nd = (pnodes w nd)\<lparr>local_list := remove1 k (local_list (pnodes w nd)), remote_list := remove1 k (remote_list (pnodes w nd))\<rparr>)"
proof -
  let ?x = "xacts w k"
  obtain xs fs where xs: "timer_inv m xs" and fs: "pool_repr (xpool w) fs" using xinvD [OF inv] by auto
  note ts = xact_timers [OF inv k]
  obtain m' xs' where m': "foldM ogs_timer_delete (timers_of ?x) m = Some m'" "timer_inv m' xs'"
    "live (m_pool m') = live (m_pool m) - set (timers_of ?x)" "m_lnodes m' = m_lnodes m"
    "\<forall>t. t_cb (m_timers m' t) = t_cb (m_timers m t) \<and> t_manager (m_timers m' t) = t_manager (m_timers m t)"
    "\<forall>t. t \<notin> set (timers_of ?x) \<longrightarrow> m_timers m' t = m_timers m t" "\<forall>t \<in> set (timers_of ?x). \<not> t_running (m_timers m' t)"
    using delete_timers [OF xs ts(4,5)] by blast
  obtain p where p: "ogs_pool_id_free k (xpool w) = Some p" "id_inv p" "pool_repr p (fs @ [k])" "live p = live (xpool w) - {k}"
    "ids p = ids (xpool w)" "id p = id (xpool w)" "size p = size (xpool w)" using id_free_correct [OF xinvD(2) [OF inv] fs k] by blast
  have lo: "set (local_list (pnodes w nd)) = {k \<in> live (xpool w). x_org (xacts w k) = OGS_PFCP_LOCAL_ORIGINATOR \<and> x_node (xacts w k) = nd}"
    "set (remote_list (pnodes w nd)) = {k \<in> live (xpool w). x_org (xacts w k) \<noteq> OGS_PFCP_LOCAL_ORIGINATOR \<and> x_node (xacts w k) = nd}"
    "distinct (local_list (pnodes w nd))" "distinct (remote_list (pnodes w nd))" for nd
    using xinvD(5) [OF inv] by (simp_all add: lists_ok_def)
  define w' where "w' = w\<lparr>xpool := p, pnodes := \<lambda>nd. (pnodes w nd)\<lparr>local_list := remove1 k (local_list (pnodes w nd)),
    remote_list := remove1 k (remote_list (pnodes w nd))\<rparr>\<rparr>"
  have "(pnodes w nd)\<lparr>local_list := remove1 k (local_list (pnodes w nd)), remote_list := remove1 k (remote_list (pnodes w nd))\<rparr>
      = (if nd = x_node ?x then if x_org ?x = OGS_PFCP_LOCAL_ORIGINATOR then (pnodes w nd)\<lparr>local_list := remove1 k (local_list (pnodes w nd))\<rparr>
           else (pnodes w nd)\<lparr>remote_list := remove1 k (remote_list (pnodes w nd))\<rparr> else pnodes w nd)" for nd
    using k lo(1,2) by (auto simp: remove1_idem)
  then have "w' = (if x_org ?x = OGS_PFCP_LOCAL_ORIGINATOR then upd_pnode (x_node ?x) (\<lambda>p. p\<lparr>local_list := remove1 k (local_list p)\<rparr>) w
      else upd_pnode (x_node ?x) (\<lambda>p. p\<lparr>remote_list := remove1 k (remote_list p)\<rparr>) w)\<lparr>xpool := p\<rparr>"
    unfolding w'_def upd_pnode_def by (simp add: fun_eq_iff)
  moreover obtain r h d where rhd: "timers_of ?x = [r, h, d]" by (simp add: timers_of_def)
  moreover have "x_tm_response ?x = Some r" "x_tm_holding ?x = Some h" "x_tm_delayed_commit ?x = Some d" using ts(1-3) rhd by simp_all
  ultimately have del: "ogs_pfcp_xact_delete k (m, w) = Some (m', w')"
    using m'(1) p(1) by (auto simp: ogs_pfcp_xact_delete_def tm_delete_def bind_eq_Some_conv)
  have "xact_ok m' (ids (xpool w) ! l) (xacts w l)" if l: "l \<in> live (xpool w)" "l \<noteq> k" for l
    unfolding xact_ok_def
  proof (intro conjI allI impI)
    show "xshape (xacts w l)" by (rule xinvD(7) [OF inv l(1)])
    fix d assume d: "id_of d = ids (xpool w) ! l"
    obtain t where t: "t \<in> live (m_pool m)" "tm_of d (xacts w l) = Some t" "t_cb (m_timers m t) = Some d"
      "t_running (m_timers m t) \<Longrightarrow> may_fire d (xacts w l)" by (rule xact_timer [OF inv l(1) d]) (rule that)
    have "t \<notin> set (timers_of ?x)" using ts(6) [of t] timer_owner_unique [OF inv l(1) k d _ t(2)] l(2) by blast
    then show "\<exists>t \<in> live (m_pool m'). tm_of d (xacts w l) = Some t \<and> t_cb (m_timers m' t) = Some d
        \<and> (t_running (m_timers m' t) \<longrightarrow> may_fire d (xacts w l))" using t m'(3,6) by auto
  qed
  moreover have "\<exists>l \<in> live (xpool w) - {k}. \<exists>d. id_of d = ids (xpool w) ! l \<and> tm_of d (xacts w l) = Some t" if "t \<in> live (m_pool m')" for t
    using that inv m'(3) ts(6) [of t] unfolding xinv_def by blast
  moreover have "lists_ok w'" unfolding lists_ok_def using lo p(4) by (auto simp: w'_def)
  moreover have "run_inv nx (unat (id p)) p" using inv p by (auto simp: xinv_def run_inv_def)
  moreover have "\<forall>nd \<in> N. node_ok (pnodes w' nd)" using xinvD(4) [OF inv] by (simp add: node_ok_def w'_def)
  ultimately have "xinv N nx m' w'" using m'(2) p xinvD(8,9) [OF inv] unfolding xinv_def by (auto simp: w'_def)
  moreover have "keeps_due (m, w) (m', w')" using m' p(4,5) by (auto simp: keeps_due_def w'_def)
  ultimately show ?thesis using del m'(3) p by (auto simp: w'_def)
qed

text \<open>Creation takes three timers and a transaction, or aborts.\<close>

lemma add_timers_ok:
  assumes "timer_inv m xs" "pool_repr (m_pool m) (r # h # d # fs)"
  shows "\<exists>m'. add_xact_timers i m = Some ((r, h, d), m') \<and> timer_inv m' xs \<and> pool_repr (m_pool m') fs
    \<and> live (m_pool m') = insert r (insert h (insert d (live (m_pool m)))) \<and> r \<notin> live (m_pool m) \<and> h \<notin> live (m_pool m) \<and> d \<notin> live (m_pool m)
    \<and> t_cb (m_timers m' r) = Some (ResponseTimeout i) \<and> t_cb (m_timers m' h) = Some (HoldingTimeout i)
    \<and> t_cb (m_timers m' d) = Some (DelayedCommitTimeout i)
    \<and> \<not> t_running (m_timers m' r) \<and> \<not> t_running (m_timers m' h) \<and> \<not> t_running (m_timers m' d)
    \<and> (\<forall>j \<in> live (m_pool m). m_timers m' j = m_timers m j)"
proof -
  have dis: "distinct (r # h # d # fs)" using assms(2) by (simp only: pool_repr_def)
  obtain m1 where m1: "ogs_timer_add (Some (ResponseTimeout i)) m = Some (Some r, m1)" "timer_inv m1 xs" "pool_repr (m_pool m1) (h # d # fs)"
    "live (m_pool m1) = insert r (live (m_pool m))" "r \<notin> live (m_pool m)" "t_cb (m_timers m1 r) = Some (ResponseTimeout i)"
    "\<not> t_running (m_timers m1 r)" "\<forall>j. j \<noteq> r \<longrightarrow> m_timers m1 j = m_timers m j" using timer_add_ok [OF assms] by blast
  obtain m2 where m2: "ogs_timer_add (Some (HoldingTimeout i)) m1 = Some (Some h, m2)" "timer_inv m2 xs" "pool_repr (m_pool m2) (d # fs)"
    "live (m_pool m2) = insert h (live (m_pool m1))" "h \<notin> live (m_pool m1)" "t_cb (m_timers m2 h) = Some (HoldingTimeout i)"
    "\<not> t_running (m_timers m2 h)" "\<forall>j. j \<noteq> h \<longrightarrow> m_timers m2 j = m_timers m1 j" using timer_add_ok [OF m1(2,3)] by blast
  obtain m3 where m3: "ogs_timer_add (Some (DelayedCommitTimeout i)) m2 = Some (Some d, m3)" "timer_inv m3 xs" "pool_repr (m_pool m3) fs"
    "live (m_pool m3) = insert d (live (m_pool m2))" "d \<notin> live (m_pool m2)" "t_cb (m_timers m3 d) = Some (DelayedCommitTimeout i)"
    "\<not> t_running (m_timers m3 d)" "\<forall>j. j \<noteq> d \<longrightarrow> m_timers m3 j = m_timers m2 j" using timer_add_ok [OF m2(2,3)] by blast
  have "m_timers m3 j = m_timers m j" if "j \<in> live (m_pool m)" for j using that m1(4,5,8) m2(4,5,8) m3(4,5,8) by (metis insertCI)
  then show ?thesis using m1 m2 m3 dis by (intro exI [of _ m3]) (auto simp: add_xact_timers_def)
qed

lemma add_timers_room:
  assumes "timer_inv m xs" "add_xact_timers i m = Some ((r, h, d), m')"
  obtains fs where "pool_repr (m_pool m) (r # h # d # fs)"
proof -
  have step: "\<exists>fs. pool_repr (m_pool m) (t # fs) \<and> timer_inv m1 xs \<and> pool_repr (m_pool m1) fs"
    if a: "timer_inv m xs" "ogs_timer_add cb m = Some (Some t, m1)" for m m1 :: "tm_data ogs_timer_mgr" and cb t
  proof -
    obtain fs where fs: "pool_repr (m_pool m) fs" using a(1) by (auto simp: timer_inv_def)
    show ?thesis
    proof (cases fs)
      case Nil then show ?thesis using timer_add_full [of m cb] fs a(2) by simp
    next
      case (Cons u us) then show ?thesis using timer_add_ok [OF a(1), of u us cb] fs a(2) by auto
    qed
  qed
  obtain m1 m2 where a: "ogs_timer_add (Some (ResponseTimeout i)) m = Some (Some r, m1)" "ogs_timer_add (Some (HoldingTimeout i)) m1 = Some (Some h, m2)"
    "ogs_timer_add (Some (DelayedCommitTimeout i)) m2 = Some (Some d, m')"
    using assms(2) by (auto simp: add_xact_timers_def bind_eq_Some_conv split: prod.splits)
  obtain fs1 where 1: "pool_repr (m_pool m) (r # fs1)" "timer_inv m1 xs" "pool_repr (m_pool m1) fs1" using step [OF assms(1) a(1)] by blast
  obtain fs2 where 2: "pool_repr (m_pool m1) (h # fs2)" "timer_inv m2 xs" "pool_repr (m_pool m2) fs2" using step [OF 1(2) a(2)] by blast
  obtain fs3 where 3: "pool_repr (m_pool m2) (d # fs3)" using step [OF 2(2) a(3)] by blast
  have "fs = fs'" if "pool_repr p fs" "pool_repr p fs'" for p fs fs'
    using that unfolding pool_repr_def by (metis map_injective inj_Some)
  then have "fs1 = h # fs2" "fs2 = d # fs3" using 1(3) 2(1,3) 3 by blast+
  then show ?thesis using 1(1) that by blast
qed

lemma xinv_create:
  assumes inv: "xinv N nx m w" and lt: "id (xpool w) < OGS_MAX_POOL_ID" and p: "ogs_pool_id_calloc (xpool w) = Some (Some k, p)"
    and tm: "add_xact_timers (ids p ! k) m = Some ((r, h, d), m')"
    and x: "x_org x = OGS_PFCP_LOCAL_ORIGINATOR \<or> x_org x = OGS_PFCP_REMOTE_ORIGINATOR" "x_node x = nd" "x_step x = 0"
      "x_seq x = replicate 3 (0, None)" "x_tm_response x = Some r" "x_tm_holding x = Some h" "x_tm_delayed_commit x = Some d" "x_xid x < 2 ^ 24"
    and w': "xpool w' = p" "g_xact_id w' \<le> PFCP_MAX_XACT_ID" "xacts w' = (xacts w)(k := x)"
      "pnodes w' = (pnodes w)(nd := (if x_org x = OGS_PFCP_LOCAL_ORIGINATOR then (pnodes w nd)\<lparr>local_list := local_list (pnodes w nd) @ [k]\<rparr>
         else (pnodes w nd)\<lparr>remote_list := remote_list (pnodes w nd) @ [k]\<rparr>))"
    and nd: "nd \<in> N"
  shows "xinv N nx m' w' \<and> k \<notin> live (xpool w) \<and> live p = insert k (live (xpool w))"
proof -
  have ri: "run_inv nx (unat (id (xpool w))) (xpool w)" using inv by (simp add: xinv_def)
  have lt': "unat (id (xpool w)) < 2 ^ 31 - 1" using lt by (simp add: word_less_nat_alt OGS_MAX_POOL_ID_def)
  obtain ks where "pool_repr (xpool w) ks" using xinvD(3) [OF inv] by blast
  then have ks: "pool_repr (xpool w) (k # tl ks)"
    using p pool_alloc_repr [of "xpool w" "hd ks" "tl ks"] pool_alloc_empty [of "xpool w"]
    by (cases ks) (auto simp: ogs_pool_id_calloc_def Let_def bind_eq_Some_conv)
  note nxt = run_inv_next_id [OF ri lt']
  have lv: "live p = insert k (live (xpool w))" "k \<notin> live (xpool w)" "ids p = (ids (xpool w))[k := OGS_NEXT_ID (id (xpool w)) 1 OGS_MAX_POOL_ID]"
    "id p = OGS_NEXT_ID (id (xpool w)) 1 OGS_MAX_POOL_ID"
    using id_calloc_correct [OF xinvD(2) [OF inv] ks] nxt(2) p by (fastforce dest: order.strict_implies_not_eq)+
  have rp: "run_inv nx (unat (id p)) p" using run_inv_calloc [OF ri lt' ks] p lv(4) nxt(1) by auto
  have kl: "k < length (ids (xpool w))" using xinvD(2) [OF inv] ks by (auto simp: id_inv_def pool_repr_def)
  have idk: "ids p ! l = ids (xpool w) ! l" if "l \<in> live (xpool w)" for l using that lv(2,3) by (cases "l = k") auto
  obtain xs fs where xs: "timer_inv m xs" "pool_repr (m_pool m) (r # h # d # fs)"
    using xinvD(1) [OF inv] add_timers_room tm by metis
  have t: "timer_inv m' xs" "live (m_pool m') = insert r (insert h (insert d (live (m_pool m))))" "r \<notin> live (m_pool m)" "h \<notin> live (m_pool m)" "d \<notin> live (m_pool m)"
    "t_cb (m_timers m' r) = Some (ResponseTimeout (ids p ! k))" "t_cb (m_timers m' h) = Some (HoldingTimeout (ids p ! k))"
    "t_cb (m_timers m' d) = Some (DelayedCommitTimeout (ids p ! k))"
    "\<not> t_running (m_timers m' r)" "\<not> t_running (m_timers m' h)" "\<not> t_running (m_timers m' d)" "\<forall>j \<in> live (m_pool m). m_timers m' j = m_timers m j"
    using add_timers_ok [OF xs, of "ids p ! k"] tm by auto
  have "xact_ok m' (ids p ! k) x"
    unfolding xact_ok_def
  proof (intro conjI allI impI)
    show "xshape x" using x by (auto simp: xshape_def pfcp_const_defs)
    fix e assume "id_of e = ids p ! k"
    then show "\<exists>t \<in> live (m_pool m'). tm_of e x = Some t \<and> t_cb (m_timers m' t) = Some e \<and> (t_running (m_timers m' t) \<longrightarrow> may_fire e x)"
      using t x by (cases e) auto
  qed
  moreover have "xact_ok m' (ids p ! l) (xacts w l)" if l: "l \<in> live (xpool w)" for l
    using xinvD(6) [OF inv l] t(2,12) idk [OF l] unfolding xact_ok_def by (metis insertCI)
  moreover have "\<exists>l \<in> live p. \<exists>e. id_of e = ids p ! l \<and> tm_of e (xacts w' l) = Some j" if j: "j \<in> live (m_pool m')" for j
  proof (cases "j \<in> live (m_pool m)")
    case True
    then obtain l e where l: "l \<in> live (xpool w)" "id_of e = ids (xpool w) ! l" "tm_of e (xacts w l) = Some j" using inv unfolding xinv_def by blast
    moreover have "l \<noteq> k" using l(1) lv(2) by auto
    ultimately show ?thesis using idk [OF l(1)] lv(1) w'(3) by (intro bexI [of _ l] exI [of _ e]) auto
  next
    case False
    then have "tm_of (ResponseTimeout (ids p ! k)) x = Some j \<or> tm_of (HoldingTimeout (ids p ! k)) x = Some j
      \<or> tm_of (DelayedCommitTimeout (ids p ! k)) x = Some j" using j t(2) x by auto
    then show ?thesis using lv(1) w'(3) by (intro bexI [of _ k]) (auto simp del: tm_of.simps intro: id_of.simps)
  qed
  moreover have "lists_ok w'"
    using xinvD(5) [OF inv] x(1,2) lv(1,2) w' unfolding lists_ok_def by (auto simp: pfcp_const_defs)
  moreover have "\<forall>nd \<in> N. node_ok (pnodes w' nd)" using xinvD(4) [OF inv] w'(4) by (simp add: node_ok_def)
  ultimately show ?thesis using t(1) rp lv(1,2) w'(1-3) nd x(2) xinvD(9) [OF inv] unfolding xinv_def by auto
qed

lemma create_room:
  assumes "xinv N nx m w" "id (xpool w) < OGS_MAX_POOL_ID" "pool_repr (xpool w) (k # ks)" "pool_repr (m_pool m) (r # h # d # fs)"
  obtains p m' where "ogs_pool_id_calloc (xpool w) = Some (Some k, p)" "add_xact_timers (ids p ! k) m = Some ((r, h, d), m')"
proof -
  have "run_inv nx (unat (id (xpool w))) (xpool w)" "unat (id (xpool w)) < 2 ^ 31 - 1"
    using assms(1,2) by (simp_all add: xinv_def word_less_nat_alt OGS_MAX_POOL_ID_def)
  then obtain p where "ogs_pool_id_calloc (xpool w) = Some (Some k, p)" using run_inv_calloc assms(3) by blast
  moreover obtain xs where "timer_inv m xs" using xinvD(1) [OF assms(1)] by blast
  ultimately show ?thesis using add_timers_ok [OF _ assms(4)] that by blast
qed

text \<open>Transaction numbers stay within the 24 bits of the sequence number field.\<close>

lemma next_xid:
  assumes "i \<le> PFCP_MAX_XACT_ID"
  shows "OGS_NEXT_ID i PFCP_MIN_XACT_ID PFCP_MAX_XACT_ID \<le> PFCP_MAX_XACT_ID" "OGS_NEXT_ID i PFCP_MIN_XACT_ID PFCP_MAX_XACT_ID < 2 ^ 24"
proof -
  have i: "unat i \<le> 0x800000" using assms by (simp add: word_le_nat_alt PFCP_MAX_XACT_ID_def)
  then have s: "unat (i + 1) = Suc (unat i)" by (simp add: unat_word_ariths)
  show "OGS_NEXT_ID i PFCP_MIN_XACT_ID PFCP_MAX_XACT_ID < 2 ^ 24"
    using i s by (simp add: OGS_NEXT_ID_def PFCP_MIN_XACT_ID_def word_less_nat_alt)
  have "i \<noteq> PFCP_MAX_XACT_ID \<Longrightarrow> unat i < 0x800000" using i by (simp add: PFCP_MAX_XACT_ID_def word_unat_eq_iff)
  then show "OGS_NEXT_ID i PFCP_MIN_XACT_ID PFCP_MAX_XACT_ID \<le> PFCP_MAX_XACT_ID"
    using s by (cases "i = PFCP_MAX_XACT_ID") (simp_all add: OGS_NEXT_ID_def PFCP_MIN_XACT_ID_def PFCP_MAX_XACT_ID_def word_le_nat_alt)
qed

lemma sqn_bound: "OGS_PFCP_SQN_TO_XID sqn < 2 ^ 24"
proof (cases sqn rule: OGS_PFCP_SQN_TO_XID.cases)
  case (1 a b c d)
  have "unat (drop_bit 8 (rd32 a b c d)) < 2 ^ 24"
    using unsigned_less [of "rd32 a b c d", where ?'a = nat] by (simp add: drop_bit_eq_div unat_div)
  then show ?thesis by (simp add: 1 word_less_nat_alt)
qed simp_all

lemma local_create_ok:
  assumes "xinv N nx m w" "id (xpool w) < OGS_MAX_POOL_ID" "ogs_pfcp_xact_local_create c nd cb (m, w) = Some (k, (m', w'))" "nd \<in> N"
  shows "xinv N nx m' w'" "k \<notin> live (xpool w)" "live (xpool w') = insert k (live (xpool w))"
    "x_org (xacts w' k) = OGS_PFCP_LOCAL_ORIGINATOR" "x_step (xacts w' k) = 0" "x_node (xacts w' k) = nd" "x_cb (xacts w' k) = cb"
    "x_seq (xacts w' k) = replicate 3 (0, None)" "x_xid (xacts w' k) = OGS_NEXT_ID (g_xact_id w) PFCP_MIN_XACT_ID PFCP_MAX_XACT_ID"
    "x_response_rcount (xacts w' k) = word_of_int (n1_response_rcount c)" "xouts w' = xouts w" "\<forall>l. l \<noteq> k \<longrightarrow> xacts w' l = xacts w l"
    "addr_list (pnodes w' n) = addr_list (pnodes w n)" "local_list (pnodes w' nd) = local_list (pnodes w nd) @ [k]"
proof -
  obtain p r h d where *: "ogs_pool_id_calloc (xpool w) = Some (Some k, p)" "add_xact_timers (ids p ! k) m = Some ((r, h, d), m')"
    "w' = upd_pnode nd (\<lambda>p. p\<lparr>local_list := local_list p @ [k]\<rparr>) (upd_xact k (\<lambda>_. \<lparr>x_index = ogs_pool_index k, x_org = OGS_PFCP_LOCAL_ORIGINATOR,
       x_xid = OGS_NEXT_ID (g_xact_id w) PFCP_MIN_XACT_ID PFCP_MAX_XACT_ID, x_node = nd, x_cb = cb, x_step = 0, x_seq = replicate 3 (0, None),
       x_tm_response = Some r, x_response_rcount = word_of_int (n1_response_rcount c), x_tm_holding = Some h,
       x_holding_rcount = word_of_int (n1_holding_rcount c), x_tm_delayed_commit = Some d\<rparr>)
       (w\<lparr>xpool := p, g_xact_id := OGS_NEXT_ID (g_xact_id w) PFCP_MIN_XACT_ID PFCP_MAX_XACT_ID\<rparr>))"
    using assms(3) by (auto simp: ogs_pfcp_xact_local_create_def Let_def bind_eq_Some_conv split: prod.splits)
  have "xinv N nx m' w' \<and> k \<notin> live (xpool w) \<and> live p = insert k (live (xpool w))"
    by (rule xinv_create [OF assms(1,2) *(1,2), of "xacts w' k" nd]) (simp_all add: *(3) assms(4) upd_pnode_def upd_xact_def next_xid [OF xinvD(8) [OF assms(1)], simplified])
  then show "xinv N nx m' w'" "k \<notin> live (xpool w)" "live (xpool w') = insert k (live (xpool w))" by (simp_all add: *(3))
qed (use assms(3) in \<open>auto simp: ogs_pfcp_xact_local_create_def Let_def bind_eq_Some_conv split: prod.splits\<close>)

lemma remote_create_ok:
  assumes "xinv N nx m w" "id (xpool w) < OGS_MAX_POOL_ID" "ogs_pfcp_xact_remote_create c nd sqn (m, w) = Some (k, (m', w'))" "nd \<in> N"
  shows "xinv N nx m' w'" "k \<notin> live (xpool w)" "live (xpool w') = insert k (live (xpool w))"
    "x_org (xacts w' k) = OGS_PFCP_REMOTE_ORIGINATOR" "x_step (xacts w' k) = 0" "x_node (xacts w' k) = nd"
    "x_seq (xacts w' k) = replicate 3 (0, None)" "x_xid (xacts w' k) = OGS_PFCP_SQN_TO_XID sqn" "xouts w' = xouts w" "\<forall>l. l \<noteq> k \<longrightarrow> xacts w' l = xacts w l"
    "pnodes w' = (pnodes w)(nd := (pnodes w nd)\<lparr>remote_list := remote_list (pnodes w nd) @ [k]\<rparr>)" "g_xact_id w' = g_xact_id w"
proof -
  obtain p r h d where *: "ogs_pool_id_calloc (xpool w) = Some (Some k, p)" "add_xact_timers (ids p ! k) m = Some ((r, h, d), m')"
    "w' = upd_pnode nd (\<lambda>p. p\<lparr>remote_list := remote_list p @ [k]\<rparr>) (upd_xact k (\<lambda>_. \<lparr>x_index = ogs_pool_index k, x_org = OGS_PFCP_REMOTE_ORIGINATOR,
       x_xid = OGS_PFCP_SQN_TO_XID sqn, x_node = nd, x_cb = None, x_step = 0, x_seq = replicate 3 (0, None),
       x_tm_response = Some r, x_response_rcount = word_of_int (n1_response_rcount c), x_tm_holding = Some h,
       x_holding_rcount = word_of_int (n1_holding_rcount c), x_tm_delayed_commit = Some d\<rparr>) (w\<lparr>xpool := p\<rparr>))"
    using assms(3) by (auto simp: ogs_pfcp_xact_remote_create_def Let_def bind_eq_Some_conv split: prod.splits)
  have "xinv N nx m' w' \<and> k \<notin> live (xpool w) \<and> live p = insert k (live (xpool w))"
    by (rule xinv_create [OF assms(1,2) *(1,2), of "xacts w' k" nd]) (simp_all add: *(3) assms(4) upd_pnode_def upd_xact_def sqn_bound [simplified] xinvD(8) [OF assms(1)] OGS_PFCP_REMOTE_ORIGINATOR_def OGS_PFCP_LOCAL_ORIGINATOR_def)
  then show "xinv N nx m' w'" "k \<notin> live (xpool w)" "live (xpool w') = insert k (live (xpool w))" by (simp_all add: *(3))
qed (use assms(3) in \<open>auto simp: ogs_pfcp_xact_remote_create_def Let_def bind_eq_Some_conv upd_pnode_def upd_xact_def split: prod.splits\<close>)

lemma create_returns:
  assumes "xinv N nx m w" "id (xpool w) < OGS_MAX_POOL_ID" "pool_repr (xpool w) (k # ks)" "pool_repr (m_pool m) (r # h # d # fs)"
  shows "\<exists>m' w'. ogs_pfcp_xact_local_create c nd cb (m, w) = Some (k, (m', w'))"
    "\<exists>m' w'. ogs_pfcp_xact_remote_create c nd sqn (m, w) = Some (k, (m', w'))"
  by (rule create_room [OF assms]; simp add: ogs_pfcp_xact_local_create_def ogs_pfcp_xact_remote_create_def)+

subsection \<open>Steps\<close>

text \<open>Durations that start a timer without overflow.\<close>

definition clock_ok :: "pfcp_conf \<Rightarrow> int \<Rightarrow> bool" where
  "clock_ok c now \<longleftrightarrow> t1_response_duration c \<noteq> 0 \<and> t1_holding_duration c \<noteq> 0
     \<and> ogs_time (now + t1_response_duration c) \<noteq> None \<and> ogs_time (now + t1_holding_duration c) \<noteq> None"

lemma xinv_touch:
  assumes inv: "xinv N nx m w" and k: "k \<in> live (xpool w)" and d: "id_of d = ids (xpool w) ! k" "tm_of d (xacts w k) = Some t"
    and tm: "timer_inv m' xs" "m_pool m' = m_pool m" "only_timer t m m'"
    and w: "same_lists w w'" "same_slots (xacts w k) (xacts w' k)" "\<forall>l. l \<noteq> k \<longrightarrow> xacts w' l = xacts w l"
    and shape: "xshape (xacts w' k)"
    and fire: "t_running (m_timers m' t) \<Longrightarrow> may_fire d (xacts w' k)"
      "\<And>e. e \<noteq> d \<Longrightarrow> id_of e = id_of d \<Longrightarrow> may_fire e (xacts w k) \<Longrightarrow> may_fire e (xacts w' k)"
  shows "xinv N nx m' w'"
proof (rule xinv_update [OF inv k tm(1,2) _ _ w shape])
  show "\<forall>s. t_cb (m_timers m' s) = t_cb (m_timers m s)" using tm(3) by (metis only_timer_def)
  show "\<forall>s. (\<forall>d. tm_of d (xacts w k) \<noteq> Some s) \<longrightarrow> m_timers m' s = m_timers m s" using tm(3) d(2) by (metis only_timer_def)
  show "\<forall>e s. id_of e = ids (xpool w) ! k \<longrightarrow> tm_of e (xacts w k) = Some s \<longrightarrow> t_running (m_timers m' s) \<longrightarrow> may_fire e (xacts w' k)"
  proof (intro allI impI)
    fix e s assume e: "id_of e = ids (xpool w) ! k" "tm_of e (xacts w k) = Some s" "t_running (m_timers m' s)"
    show "may_fire e (xacts w' k)"
    proof (cases "e = d")
      case True then show ?thesis using e d fire(1) by simp
    next
      case False
      then have "s \<noteq> t" using timer_owner_unique [OF inv k k e(1) d(1) e(2)] d(2) by blast
      then have "t_running (m_timers m s)" using e(3) tm(3) by (simp add: only_timer_def)
      then show ?thesis using fire(2) [OF False] e(1,2) d(1) xact_timer [OF inv k e(1)] by (metis option.inject)
    qed
  qed
qed

lemma xact_start:
  assumes "xinv N nx m w" "k \<in> live (xpool w)" "tm_of d (xacts w k) = Some t" "id_of d = ids (xpool w) ! k" "dur \<noteq> 0" "ogs_time (now + dur) \<noteq> None"
  shows "\<exists>m' xs. ogs_timer_start t dur now m = Some m' \<and> timer_inv m' xs \<and> m_pool m' = m_pool m \<and> only_timer t m m' \<and> t \<in> live (m_pool m)"
proof -
  obtain xs where "timer_inv m xs" using xinvD(1) [OF assms(1)] by blast
  moreover have t: "t \<in> live (m_pool m)" using xact_timer [OF assms(1,2,4)] assms(3) by (metis option.inject)
  ultimately show ?thesis using timer_start_ok [of m xs t dur now] timer_start_only assms(5,6) by blast
qed

text \<open>Sending a packet and, before it, starting one of the timers of the transaction.\<close>

lemma xact_send_ok:
  assumes inv: "xinv N nx m w" and k: "k \<in> live (xpool w)"
    and x: "same_slots (xacts w k) x" "xshape x" "x_step x = x_step (xacts w k)" and f: "may_fire d x"
    and d: "id_of d = ids (xpool w) ! k" "dur \<noteq> 0" "ogs_time (now + dur) \<noteq> None" and nd: "nd \<in> N"
  shows "\<exists>m' rv w'. tm_start (tm_of d (xacts w k)) dur now m = Some m' \<and> ogs_pfcp_sendto c nd pk (upd_xact k (\<lambda>_. x) w) = Some (rv, w')
    \<and> xinv N nx m' w' \<and> xinv N nx m' (upd_xact k (\<lambda>_. x) w) \<and> keeps_due (m, w) (m', w') \<and> same_lists w w' \<and> xacts w' = (xacts w)(k := x)
    \<and> keeps_due (m, w) (m', upd_xact k (\<lambda>_. x) w)
    \<and> xouts w' = xouts w @ (if has_sock c (next_addr (pnodes w nd)) then [SentTo nd (next_addr (pnodes w nd)) (contents pk)] else [])"
proof -
  obtain t where t: "tm_of d (xacts w k) = Some t" using xact_timer [OF inv k d(1)] by blast
  obtain m' xs where m': "ogs_timer_start t dur now m = Some m'" "timer_inv m' xs" "m_pool m' = m_pool m" "only_timer t m m'" "t \<in> live (m_pool m)"
    using xact_start [OF inv k t d] by blast
  let ?w = "upd_xact k (\<lambda>_. x) w"
  obtain rv w' where w': "ogs_pfcp_sendto c nd pk ?w = Some (rv, w')" "same_lists w w'" "xacts w' = xacts ?w"
    "xouts w' = xouts w @ (if has_sock c (next_addr (pnodes w nd)) then [SentTo nd (next_addr (pnodes w nd)) (contents pk)] else [])"
    using sendto_ok [of ?w nd c pk] xinvD(4) [OF inv nd] by auto
  have mono: "may_fire e (xacts w k) \<Longrightarrow> may_fire e x" for e using x by (cases e) (auto simp: same_slots_def)
  have "xinv N nx m' w'" if "same_lists w w'" "xacts w' = xacts ?w" for w'
    by (rule xinv_touch [OF inv k d(1) t m'(2,3,4)]) (use that x f mono in simp_all)
  moreover have "keeps_due (m, w) (m', w')" if "same_lists w w'" "xacts w' = xacts ?w" for w'
    by (rule only_timer_keeps [OF m'(4,3,5)]) (use that x in \<open>auto simp: same_slots_def\<close>)
  moreover have "same_lists w ?w" by simp
  ultimately show ?thesis using m' w' t by (auto simp: tm_start_def fun_eq_iff)
qed

lemma upd_xact_same [simp]: "upd_xact k (\<lambda>_. xacts w k) w = w"
  by (simp add: upd_xact_def)

lemma xinv_frame:
  assumes "xinv N nx m w" "same_lists w w'" "xacts w' = xacts w"
  shows "xinv N nx m w'" "keeps_due (m, w) (m, w')"
proof -
  have "lists_ok w'" using lists_ok_same [OF xinvD(5) [OF assms(1)] assms(2)] assms(3) by simp
  then show "xinv N nx m w'" using assms unfolding xinv_def same_lists_def by simp
  show "keeps_due (m, w) (m, w')" using assms(2,3) by (simp add: keeps_due_def same_lists_def)
qed

lemma seq_at_simps [simp]: "seq_at x 0 = Some (x_seq x ! 0)" "seq_at x 1 = Some (x_seq x ! 1)" "seq_at x 2 = Some (x_seq x ! 2)"
  by (simp_all add: seq_at_def)

lemma org_neq [simp]: "OGS_PFCP_REMOTE_ORIGINATOR \<noteq> OGS_PFCP_LOCAL_ORIGINATOR" "OGS_PFCP_LOCAL_ORIGINATOR \<noteq> OGS_PFCP_REMOTE_ORIGINATOR"
  by (simp_all add: pfcp_const_defs)

lemma xshape_cases:
  assumes "xshape x" "x_step x \<ge> 1"
  obtains (request) pk where "x_org x = OGS_PFCP_LOCAL_ORIGINATOR" "x_step x = 1"
      "ogs_pfcp_xact_get_stage (fst (x_seq x ! 0)) = PFCP_XACT_INITIAL_STAGE" "snd (x_seq x ! 0) = Some pk"
    | (answered) "x_org x = OGS_PFCP_LOCAL_ORIGINATOR" "x_step x = 2" "ogs_pfcp_xact_get_stage (fst (x_seq x ! 1)) = PFCP_XACT_FINAL_STAGE"
    | (reply) pk where "x_org x = OGS_PFCP_LOCAL_ORIGINATOR" "x_step x = 3" "ogs_pfcp_xact_get_stage (fst (x_seq x ! 2)) = PFCP_XACT_FINAL_STAGE"
      "snd (x_seq x ! 2) = Some pk"
    | (received) "x_org x = OGS_PFCP_REMOTE_ORIGINATOR" "x_step x = 1" "ogs_pfcp_xact_get_stage (fst (x_seq x ! 0)) = PFCP_XACT_INITIAL_STAGE"
      "snd (x_seq x ! 1) = None"
    | (response) pk where "x_org x = OGS_PFCP_REMOTE_ORIGINATOR" "x_step x = 2" "ogs_pfcp_xact_get_stage (fst (x_seq x ! 1)) = PFCP_XACT_FINAL_STAGE"
      "snd (x_seq x ! 1) = Some pk" "ogs_pfcp_xact_get_stage (fst (x_seq x ! 0)) = PFCP_XACT_INITIAL_STAGE"
  using assms unfolding xshape_def by (auto split: if_splits)

lemma commit_send_ok:
  assumes inv: "xinv N nx m w" and k: "k \<in> live (xpool w)" and x: "commit_action_of (xacts w k) type = SendOnly" "seq_at (xacts w k) (x_step (xacts w k) - 1) = Some (type, Some pk)"
  shows "\<exists>w'. ogs_pfcp_xact_commit c now k (m, w) = Some (OGS_OK, (m, w')) \<and> xinv N nx m w' \<and> keeps_due (m, w) (m, w') \<and> same_lists w w' \<and> xacts w' = xacts w
    \<and> xouts w' = xouts w @ (let nd = x_node (xacts w k) in if has_sock c (next_addr (pnodes w nd)) then [SentTo nd (next_addr (pnodes w nd)) (contents pk)] else [])"
proof -
  obtain rv w' where w': "ogs_pfcp_sendto c (x_node (xacts w k)) pk w = Some (rv, w')" "same_lists w w'" "xacts w' = xacts w"
    "xouts w' = xouts w @ (let nd = x_node (xacts w k) in if has_sock c (next_addr (pnodes w nd)) then [SentTo nd (next_addr (pnodes w nd)) (contents pk)] else [])"
    using sendto_ok [of w "x_node (xacts w k)" c pk] xinvD(4) [OF inv xinvD(9) [OF inv k]] by (auto simp: Let_def)
  then show ?thesis using x xinv_frame [OF inv w'(2,3)] by (simp add: ogs_pfcp_xact_commit_def)
qed

lemma commit_request_ok:
  assumes inv: "xinv N nx m w" and k: "k \<in> live (xpool w)" and x: "x_org (xacts w k) = OGS_PFCP_LOCAL_ORIGINATOR" "x_step (xacts w k) = 1" "clock_ok c now"
  shows "\<exists>pk m' w'. snd (x_seq (xacts w k) ! 0) = Some pk \<and> ogs_pfcp_xact_commit c now k (m, w) = Some (OGS_OK, (m', w')) \<and> xinv N nx m' w'
    \<and> keeps_due (m, w) (m', w') \<and> same_lists w w' \<and> xacts w' = xacts w
    \<and> xouts w' = xouts w @ (let nd = x_node (xacts w k) in if has_sock c (next_addr (pnodes w nd)) then [SentTo nd (next_addr (pnodes w nd)) (contents pk)] else [])"
proof -
  obtain pk where pk: "ogs_pfcp_xact_get_stage (fst (x_seq (xacts w k) ! 0)) = PFCP_XACT_INITIAL_STAGE" "snd (x_seq (xacts w k) ! 0) = Some pk"
    using xshape_cases [OF xinvD(7) [OF inv k]] x by auto
  have c: "t1_response_duration c \<noteq> 0" "ogs_time (now + t1_response_duration c) \<noteq> None" using x(3) by (auto simp: clock_ok_def)
  let ?d = "ResponseTimeout (ids (xpool w) ! k)"
  have f: "may_fire ?d (xacts w k)" "id_of ?d = ids (xpool w) ! k" using x by simp_all
  from xact_send_ok [OF inv k same_slots_refl xinvD(7) [OF inv k] refl f c xinvD(9) [OF inv k], of c pk]
  obtain m' rv w' where "tm_start (x_tm_response (xacts w k)) (t1_response_duration c) now m = Some m'"
    "ogs_pfcp_sendto c (x_node (xacts w k)) pk w = Some (rv, w')" "xinv N nx m' w'" "keeps_due (m, w) (m', w')" "same_lists w w'" "xacts w' = xacts w"
    "xouts w' = xouts w @ (let nd = x_node (xacts w k) in if has_sock c (next_addr (pnodes w nd)) then [SentTo nd (next_addr (pnodes w nd)) (contents pk)] else [])"
    by (auto simp: Let_def)
  then show ?thesis using pk x by (cases "x_seq (xacts w k) ! 0") (auto simp: ogs_pfcp_xact_commit_def commit_action_of_def Let_def)
qed

lemma commit_delete:
  assumes inv: "xinv N nx m w" and k: "k \<in> live (xpool w)" and x: "seq_at (xacts w k) (x_step (xacts w k) - 1) = Some v"
    "commit_action_of (xacts w k) (fst v) = DeleteOk \<and> rv = OGS_OK \<or> commit_action_of (xacts w k) (fst v) = DeleteError \<and> rv = OGS_ERROR"
  shows "ogs_pfcp_xact_commit c now k (m, w) = map_option (Pair rv) (ogs_pfcp_xact_delete k (m, w))"
  using x by (cases v) (auto simp: ogs_pfcp_xact_commit_def)

lemma commit_ok:
  assumes inv: "xinv N nx m w" and k: "k \<in> live (xpool w)" and s: "x_step (xacts w k) \<ge> 1" and c: "clock_ok c now"
  shows "\<exists>rv m' w'. ogs_pfcp_xact_commit c now k (m, w) = Some (rv, (m', w')) \<and> xinv N nx m' w' \<and> keeps_due (m, w) (m', w')"
proof -
  obtain md wd where del: "ogs_pfcp_xact_delete k (m, w) = Some (md, wd)" "xinv N nx md wd" "keeps_due (m, w) (md, wd)" using xact_delete_ok [OF inv k] by blast
  show ?thesis
  proof (cases rule: xshape_cases [OF xinvD(7) [OF inv k] s])
    case (1 pk) then show ?thesis using commit_request_ok [OF inv k _ _ c] by blast
  next
    case 2
    then have "ogs_pfcp_xact_commit c now k (m, w) = map_option (Pair OGS_OK) (ogs_pfcp_xact_delete k (m, w))"
      by (intro commit_delete [OF inv k]) (auto simp: commit_action_of_def)
    then show ?thesis using del by simp
  next
    case (3 pk)
    then have "commit_action_of (xacts w k) (fst (x_seq (xacts w k) ! 2)) = SendOnly" by (simp add: commit_action_of_def)
    from commit_send_ok [OF inv k this, of pk c now] show ?thesis using 3 by (cases "x_seq (xacts w k) ! 2") fastforce
  next
    case 4
    then have "ogs_pfcp_xact_commit c now k (m, w) = map_option (Pair OGS_ERROR) (ogs_pfcp_xact_delete k (m, w))"
      by (intro commit_delete [OF inv k]) (auto simp: commit_action_of_def)
    then show ?thesis using del by simp
  next
    case (5 pk)
    then have "commit_action_of (xacts w k) (fst (x_seq (xacts w k) ! 1)) = SendOnly" by (simp add: commit_action_of_def)
    from commit_send_ok [OF inv k this, of pk c now] show ?thesis using 5 by (cases "x_seq (xacts w k) ! 1") fastforce
  qed
qed

subsection \<open>Timeouts\<close>

lemma with_xact_eq:
  assumes inv: "xinv N nx m w" and i: "1 \<le> i" "i \<le> OGS_MAX_POOL_ID"
  shows "k \<in> live (xpool w) \<Longrightarrow> ids (xpool w) ! k = i \<Longrightarrow> x_step (xacts w k) \<ge> 1 \<Longrightarrow> with_xact i f (m, w) = f k"
    "\<forall>k \<in> live (xpool w). ids (xpool w) ! k \<noteq> i \<Longrightarrow> with_xact i f (m, w) = Some (m, w)"
proof -
  have r: "OGS_MIN_POOL_ID \<le> i \<and> i \<le> OGS_MAX_POOL_ID" using i by (simp add: OGS_MIN_POOL_ID_def)
  note fb = find_by_id_correct [OF xinvD(2) [OF inv], of i] and lk = id_lookup [OF xinvD(2) [OF inv], of i]
  show "with_xact i f (m, w) = f k" if k: "k \<in> live (xpool w)" "ids (xpool w) ! k = i" "x_step (xacts w k) \<ge> 1"
  proof -
    have "x_step (xacts w k) \<le> 3" using xinvD(7) [OF inv k(1)] by (auto simp: xshape_def split: if_splits)
    then show ?thesis using k r fb lk [of k] by (simp add: with_xact_def ogs_pfcp_xact_find_by_id_def seq_at_def)
  qed
  show "with_xact i f (m, w) = Some (m, w)" if "\<forall>k \<in> live (xpool w). ids (xpool w) ! k \<noteq> i"
  proof -
    have "hash_map (pool_mem (ids (xpool w))) (id_hash (xpool w)) (id_bytes i) = None" using lk that by (metis option.exhaust)
    then show ?thesis using r fb by (simp add: with_xact_def ogs_pfcp_xact_find_by_id_def)
  qed
qed

lemma xshape_rcount [simp]:
  "xshape (x\<lparr>x_response_rcount := r\<rparr>) = xshape x" "xshape (x\<lparr>x_holding_rcount := r\<rparr>) = xshape x"
  "same_slots x (x\<lparr>x_response_rcount := r\<rparr>)" "same_slots x (x\<lparr>x_holding_rcount := r\<rparr>)"
  by (simp_all add: xshape_def same_slots_def)

lemma upd_xact_const: "upd_xact k f w = upd_xact k (\<lambda>_. f (xacts w k)) w"
  by (simp add: upd_xact_def)

text \<open>A change of the counters does not matter to the invariant.\<close>

lemma xinv_counters:
  assumes inv: "xinv N nx m w" and k: "k \<in> live (xpool w)" and f: "same_slots (xacts w k) (f (xacts w k))" "xshape (f (xacts w k))"
    "x_step (f (xacts w k)) = x_step (xacts w k)"
  shows "xinv N nx m (upd_xact k f w)" "keeps_due (m, w) (m, upd_xact k f w)"
proof -
  obtain xs where "timer_inv m xs" using xinvD(1) [OF inv] by blast
  moreover have "may_fire d (f (xacts w k)) = may_fire d (xacts w k)" for d using f by (cases d) (auto simp: same_slots_def)
  then have "\<forall>d t. id_of d = ids (xpool w) ! k \<longrightarrow> tm_of d (xacts w k) = Some t \<longrightarrow> t_running (m_timers m t) \<longrightarrow> may_fire d (f (xacts w k))"
    using xact_timer [OF inv k] by (metis option.inject)
  ultimately show "xinv N nx m (upd_xact k f w)" using f by (intro xinv_update [OF inv k]) simp_all
  show "keeps_due (m, w) (m, upd_xact k f w)" using f by (simp add: keeps_due_def same_slots_def)
qed

text \<open>The response timer fires: another transmission while the count lasts, then the application's handler and the end.\<close>

lemma response_timeout_again:
  assumes inv: "xinv N nx m w" and k: "k \<in> live (xpool w)" and x: "x_org (xacts w k) = OGS_PFCP_LOCAL_ORIGINATOR" "x_step (xacts w k) = 1"
    and c: "clock_ok c now" and r: "x_response_rcount (xacts w k) - 1 > 0"
  shows "\<exists>pk m' w'. snd (x_seq (xacts w k) ! 0) = Some pk \<and> response_timeout c now (ids (xpool w) ! k) (m, w) = Some (m', w') \<and> xinv N nx m' w' \<and> keeps_due (m, w) (m', w')
    \<and> same_lists w w' \<and> xacts w' = (xacts w)(k := (xacts w k)\<lparr>x_response_rcount := x_response_rcount (xacts w k) - 1\<rparr>)
    \<and> xouts w' = xouts w @ (let nd = x_node (xacts w k) in if has_sock c (next_addr (pnodes w nd)) then [SentTo nd (next_addr (pnodes w nd)) (contents pk)] else [])"
proof -
  let ?x = "(xacts w k)\<lparr>x_response_rcount := x_response_rcount (xacts w k) - 1\<rparr>" and ?d = "ResponseTimeout (ids (xpool w) ! k)"
  obtain pk where pk: "snd (x_seq (xacts w k) ! 0) = Some pk" using xshape_cases [OF xinvD(7) [OF inv k]] x by auto
  have cc: "t1_response_duration c \<noteq> 0" "ogs_time (now + t1_response_duration c) \<noteq> None" using c by (auto simp: clock_ok_def)
  have f: "same_slots (xacts w k) ?x" "xshape ?x" "x_step ?x = x_step (xacts w k)" "may_fire ?d ?x" "id_of ?d = ids (xpool w) ! k" using x xinvD(7) [OF inv k] by simp_all
  from xact_send_ok [OF inv k f cc xinvD(9) [OF inv k], of c pk]
  obtain m' rv w' where s: "tm_start (x_tm_response (xacts w k)) (t1_response_duration c) now m = Some m'"
    "ogs_pfcp_sendto c (x_node (xacts w k)) pk (upd_xact k (\<lambda>_. ?x) w) = Some (rv, w')" "xinv N nx m' w'" "keeps_due (m, w) (m', w')" "same_lists w w'"
    "xacts w' = (xacts w)(k := ?x)"
    "xouts w' = xouts w @ (let nd = x_node (xacts w k) in if has_sock c (next_addr (pnodes w nd)) then [SentTo nd (next_addr (pnodes w nd)) (contents pk)] else [])"
    by (auto simp: Let_def)
  have "1 \<le> ids (xpool w) ! k" "ids (xpool w) ! k \<le> OGS_MAX_POOL_ID" using xinvD(2) [OF inv] k by (auto simp: id_inv_def)
  from with_xact_eq(1) [OF inv this k refl] show ?thesis
    using s pk x r by (cases "x_seq (xacts w k) ! 0") (simp add: response_timeout_def upd_xact_const [of k "\<lambda>x. x\<lparr>x_response_rcount := x_response_rcount x - 1\<rparr>"])
qed

lemma response_timeout_last:
  assumes inv: "xinv N nx m w" and k: "k \<in> live (xpool w)" and x: "x_step (xacts w k) \<ge> 1" and r: "x_response_rcount (xacts w k) = 1"
  shows "\<exists>m' w'. response_timeout c now (ids (xpool w) ! k) (m, w) = Some (m', w') \<and> xinv N nx m' w' \<and> keeps_due (m, w) (m', w')
    \<and> live (xpool w') = live (xpool w) - {k} \<and> live (m_pool m') = live (m_pool m) - set (timers_of (xacts w k))
    \<and> xouts w' = xouts w @ (case x_cb (xacts w k) of Some f \<Rightarrow> [TimeoutHandler f k] | None \<Rightarrow> [])"
proof -
  define w1 where "w1 = upd_xact k (\<lambda>x. x\<lparr>x_response_rcount := x_response_rcount x - 1\<rparr>) w"
  define w2 where "w2 = (case x_cb (xacts w k) of Some f \<Rightarrow> w1\<lparr>xouts := xouts w1 @ [TimeoutHandler f k]\<rparr> | None \<Rightarrow> w1)"
  have 1: "xinv N nx m w1" "keeps_due (m, w) (m, w1)" unfolding w1_def by (intro xinv_counters [OF inv k]; simp add: xinvD(7) [OF inv k])+
  have sl: "same_lists w1 w2" "xacts w2 = xacts w1" by (simp_all add: w2_def split: option.splits)
  note 2 = xinv_frame [OF 1(1) sl]
  have p: "xpool w2 = xpool w" using sl(1) by (simp add: same_lists_def w1_def)
  have t: "timers_of (xacts w2 k) = timers_of (xacts w k)" by (simp add: sl(2) w1_def timers_of_def)
  obtain m' w' where d: "ogs_pfcp_xact_delete k (m, w2) = Some (m', w')" "xinv N nx m' w'" "keeps_due (m, w2) (m', w')"
    "live (xpool w') = live (xpool w) - {k}" "live (m_pool m') = live (m_pool m) - set (timers_of (xacts w k))" "xouts w' = xouts w2"
    using xact_delete_ok [OF 2(1), of k] k p t by auto
  have i: "1 \<le> ids (xpool w) ! k" "ids (xpool w) ! k \<le> OGS_MAX_POOL_ID" using xinvD(2) [OF inv] k by (auto simp: id_inv_def)
  have "response_timeout c now (ids (xpool w) ! k) (m, w) = Some (m', w')"
    using with_xact_eq(1) [OF inv i k refl x] d(1) [unfolded w2_def w1_def] r by (simp add: response_timeout_def Let_def)
  moreover have "keeps_due (m, w) (m', w')" using keeps_due_trans 1(2) 2(2) d(3) by blast
  moreover have "xouts w2 = xouts w @ (case x_cb (xacts w k) of Some f \<Rightarrow> [TimeoutHandler f k] | None \<Rightarrow> [])"
    by (simp add: w2_def w1_def split: option.splits)
  ultimately show ?thesis using d by auto
qed

lemma holding_timeout_ok:
  assumes inv: "xinv N nx m w" and k: "k \<in> live (xpool w)" and x: "x_step (xacts w k) \<ge> 1" and c: "clock_ok c now"
  shows "\<exists>m' w'. holding_timeout c now (ids (xpool w) ! k) (m, w) = Some (m', w') \<and> xinv N nx m' w' \<and> keeps_due (m, w) (m', w')"
proof -
  define w1 where "w1 = upd_xact k (\<lambda>x. x\<lparr>x_holding_rcount := x_holding_rcount x - 1\<rparr>) w"
  have i: "1 \<le> ids (xpool w) ! k" "ids (xpool w) ! k \<le> OGS_MAX_POOL_ID" using xinvD(2) [OF inv] k by (auto simp: id_inv_def)
  note eq = with_xact_eq(1) [OF inv i k refl x]
  show ?thesis
  proof (cases "x_holding_rcount (xacts w k) - 1 > 0")
    case True
    let ?x = "(xacts w k)\<lparr>x_holding_rcount := x_holding_rcount (xacts w k) - 1\<rparr>" and ?d = "HoldingTimeout (ids (xpool w) ! k)"
    have f: "same_slots (xacts w k) ?x" "xshape ?x" "x_step ?x = x_step (xacts w k)" "may_fire ?d ?x" "id_of ?d = ids (xpool w) ! k" using x xinvD(7) [OF inv k] by simp_all
    have cc: "t1_holding_duration c \<noteq> 0" "ogs_time (now + t1_holding_duration c) \<noteq> None" using c by (auto simp: clock_ok_def)
    obtain m' where "tm_start (x_tm_holding (xacts w k)) (t1_holding_duration c) now m = Some m'" "xinv N nx m' w1" "keeps_due (m, w) (m', w1)"
      using xact_send_ok [OF inv k f cc xinvD(9) [OF inv k], of c] by (auto simp: w1_def upd_xact_const [of k "\<lambda>x. x\<lparr>x_holding_rcount := x_holding_rcount x - 1\<rparr>"])
    then show ?thesis using eq True by (auto simp: holding_timeout_def Let_def w1_def)
  next
    case False
    have 1: "xinv N nx m w1" "keeps_due (m, w) (m, w1)" unfolding w1_def by (intro xinv_counters [OF inv k]; simp add: xinvD(7) [OF inv k])+
    obtain m' w' where "ogs_pfcp_xact_delete k (m, w1) = Some (m', w')" "xinv N nx m' w'" "keeps_due (m, w1) (m', w')"
      using xact_delete_ok [OF 1(1), of k] k by (auto simp: w1_def)
    then show ?thesis using eq False keeps_due_trans [OF 1(2)] by (auto simp: holding_timeout_def Let_def w1_def)
  qed
qed

text \<open>Every callback returns and keeps the invariant, for a transaction that is there as for one that is gone.\<close>

lemma xact_timeout_ok:
  assumes inv: "xinv N nx m w" and i: "1 \<le> id_of d" "id_of d \<le> OGS_MAX_POOL_ID" and c: "clock_ok c now"
    and f: "\<forall>k \<in> live (xpool w). ids (xpool w) ! k = id_of d \<longrightarrow> may_fire d (xacts w k)"
  shows "\<exists>m' w'. xact_timeout c now d (m, w) = Some (m', w') \<and> xinv N nx m' w' \<and> keeps_due (m, w) (m', w')"
proof (cases "\<exists>k \<in> live (xpool w). ids (xpool w) ! k = id_of d")
  case True
  then obtain k where k: "k \<in> live (xpool w)" "ids (xpool w) ! k = id_of d" "may_fire d (xacts w k)" using f by blast
  then have x: "x_step (xacts w k) \<ge> 1" by (cases d) auto
  show ?thesis
  proof (cases d)
    case (ResponseTimeout i)
    then have l: "x_org (xacts w k) = OGS_PFCP_LOCAL_ORIGINATOR" "x_step (xacts w k) = 1" "ids (xpool w) ! k = i" using k by auto
    show ?thesis
    proof (cases "x_response_rcount (xacts w k) - 1 > 0")
      case True then show ?thesis using response_timeout_again [OF inv k(1) l(1,2) c] l(3) ResponseTimeout by auto
    next
      case False
      then have "x_response_rcount (xacts w k) = 1" by (simp add: word_gt_0)
      then show ?thesis using response_timeout_last [OF inv k(1) x, of c now] l(3) ResponseTimeout by auto
    qed
  next
    case (HoldingTimeout i) then show ?thesis using holding_timeout_ok [OF inv k(1) x c] k(2) by auto
  next
    case (DelayedCommitTimeout i)
    then have "xact_timeout c now d (m, w) = map_option snd (ogs_pfcp_xact_commit c now k (m, w))"
      using with_xact_eq(1) [OF inv i k(1,2) x] by (simp add: delayed_commit_timeout_def)
    then show ?thesis using commit_ok [OF inv k(1) x c] by auto
  qed
next
  case False
  then have "with_xact (id_of d) g (m, w) = Some (m, w)" for g using with_xact_eq(2) [OF inv i] by blast
  then have "xact_timeout c now d (m, w) = Some (m, w)"
    by (cases d) (simp_all add: response_timeout_def holding_timeout_def delayed_commit_timeout_def)
  then show ?thesis using inv by simp
qed

text \<open>
  Timers \<open>S\<close> that the loop of \<open>ogs_timer_mgr_expire\<close> may still call back, some of them deleted in the meantime: the callback is in their memory, and a transaction
  with its identifier is in a state in which it may fire.
\<close>

definition due_ok :: "nat set \<Rightarrow> 'c xstate \<Rightarrow> bool" where
  "due_ok S mw \<longleftrightarrow> (\<forall>t \<in> S. t_manager (m_timers (fst mw) t) \<and> (t \<notin> live (m_pool (fst mw)) \<longrightarrow> \<not> t_running (m_timers (fst mw) t))
     \<and> (\<exists>d. t_cb (m_timers (fst mw) t) = Some d \<and> 1 \<le> id_of d \<and> id_of d \<le> OGS_MAX_POOL_ID
           \<and> (\<forall>k \<in> live (xpool (snd mw)). ids (xpool (snd mw)) ! k = id_of d \<longrightarrow> may_fire d (xacts (snd mw) k))))"

lemma may_fire_cong: "x_org y = x_org x \<Longrightarrow> x_step y = x_step x \<Longrightarrow> may_fire d y = may_fire d x"
  by (cases d) auto

lemma due_ok_keeps:
  assumes "due_ok S mw" "keeps_due mw mw'" shows "due_ok S mw'"
  unfolding due_ok_def
proof
  fix t assume t: "t \<in> S"
  then obtain d where d: "t_cb (m_timers (fst mw) t) = Some d" "1 \<le> id_of d" "id_of d \<le> OGS_MAX_POOL_ID"
    "\<forall>k \<in> live (xpool (snd mw)). ids (xpool (snd mw)) ! k = id_of d \<longrightarrow> may_fire d (xacts (snd mw) k)"
    using assms(1) unfolding due_ok_def by blast
  have cb: "t_cb (m_timers (fst mw') t) = Some d" using d(1) assms(2) by (simp add: keeps_due_def)
  have lv: "live (xpool (snd mw')) \<subseteq> live (xpool (snd mw))" "ids (xpool (snd mw')) = ids (xpool (snd mw))" using assms(2) by (auto simp: keeps_due_def)
  have "may_fire d (xacts (snd mw') k) = may_fire d (xacts (snd mw) k)" if "k \<in> live (xpool (snd mw'))" for k
    using assms(2) that by (intro may_fire_cong) (auto simp: keeps_due_def)
  then have "\<forall>k \<in> live (xpool (snd mw')). ids (xpool (snd mw')) ! k = id_of d \<longrightarrow> may_fire d (xacts (snd mw') k)"
    using d(4) lv by auto
  moreover have "t \<notin> live (m_pool (fst mw')) \<longrightarrow> \<not> t_running (m_timers (fst mw') t)" "t_manager (m_timers (fst mw') t)"
    using assms t unfolding due_ok_def keeps_due_def by blast+
  ultimately show "t_manager (m_timers (fst mw') t) \<and> (t \<notin> live (m_pool (fst mw')) \<longrightarrow> \<not> t_running (m_timers (fst mw') t))
     \<and> (\<exists>d. t_cb (m_timers (fst mw') t) = Some d \<and> 1 \<le> id_of d \<and> id_of d \<le> OGS_MAX_POOL_ID
           \<and> (\<forall>k \<in> live (xpool (snd mw')). ids (xpool (snd mw')) ! k = id_of d \<longrightarrow> may_fire d (xacts (snd mw') k)))"
    using cb d(2,3) by blast
qed

definition xloop_ok :: "pfcp_conf \<Rightarrow> int \<Rightarrow> nat set \<Rightarrow> 'c xstate \<Rightarrow> bool" where
  "xloop_ok c now S mw \<longleftrightarrow> clock_ok c now \<and> due_ok S mw \<and> (\<exists>N nx. xinv N nx (fst mw) (snd mw))"

lemma call_back_ok:
  assumes "xinv N nx m w" "due_ok S (m, w)" "clock_ok c now" "t \<in> S"
  shows "\<exists>m' w'. call_back (xact_timeout c now) t (m, w) = Some (m', w') \<and> xinv N nx m' w' \<and> due_ok S (m', w') \<and> m_lnodes m' = m_lnodes m"
proof -
  obtain xs where xs: "timer_inv m xs" using xinvD(1) [OF assms(1)] by blast
  have t: "t_manager (m_timers m t)" "t \<notin> live (m_pool m) \<longrightarrow> \<not> t_running (m_timers m t)" using assms(2,4) by (auto simp: due_ok_def)
  obtain m1 where m1: "ogs_timer_stop t m = Some m1" "xinv N nx m1 w" "keeps_due (m, w) (m1, w)"
  proof (cases "t \<in> live (m_pool m)")
    case True
    obtain m1 where s: "ogs_timer_stop t m = Some m1" "timer_inv m1 (remove1 t xs)" using timer_stop_ok [OF xs True] by blast
    note o = timer_stop_only [OF s(1)]
    have "xinv N nx m1 w"
    proof (rule xinv_calmer [OF assms(1) s(2)])
      show "\<forall>j. t_cb (m_timers m1 j) = t_cb (m_timers m j)" using o by (metis only_timer_def)
      show "\<forall>j. t_running (m_timers m1 j) \<longrightarrow> t_running (m_timers m j)" using o by (metis only_timer_def)
    qed (use o in simp)
    then show ?thesis using that s(1) only_timer_keeps [of t m m1 w w] o True by simp
  next
    case False then show ?thesis using that t assms(1) by (simp add: ogs_timer_stop_def)
  qed
  have due: "due_ok S (m1, w)" using due_ok_keeps [OF assms(2) m1(3)] .
  then obtain d where d: "t_cb (m_timers m1 t) = Some d" "1 \<le> id_of d" "id_of d \<le> OGS_MAX_POOL_ID"
    "\<forall>k \<in> live (xpool w). ids (xpool w) ! k = id_of d \<longrightarrow> may_fire d (xacts w k)" using assms(4) by (auto simp: due_ok_def)
  obtain m' w' where r: "xact_timeout c now d (m1, w) = Some (m', w')" "xinv N nx m' w'" "keeps_due (m1, w) (m', w')"
    using xact_timeout_ok [OF m1(2) d(2,3) assms(3) d(4)] by blast
  have "m_lnodes m' = m_lnodes m" using r(3) m1(3) by (simp add: keeps_due_def)
  then show ?thesis using m1(1) d(1) r due_ok_keeps [OF due r(3)] by (simp add: call_back_def)
qed

interpretation xl: timer_loop "xact_timeout c now" "xloop_ok c now" for c now
proof unfold_locales
  fix S and mw :: "'a xstate" and i mw' assume "xloop_ok c now S mw" "i \<in> S" "call_back (xact_timeout c now) i mw = Some mw'"
  then show "xloop_ok c now S mw' \<and> m_lnodes (fst mw') = m_lnodes (fst mw)"
    using call_back_ok [of _ _ "fst mw" "snd mw" S c now i] by (fastforce simp: xloop_ok_def)
next
  fix S m and w :: "'a pfcp_xacts" and h assume "xloop_ok c now S (m, w)"
  then show "xloop_ok c now S (m\<lparr>m_lnodes := h\<rparr>, w)" by (simp add: xloop_ok_def due_ok_def xinv_def xact_ok_def)
qed

lemma xact_expire_ok:
  assumes inv: "xinv N nx m w" and c: "clock_ok c now"
  shows "\<exists>m' w'. ogs_timer_mgr_expire (xact_timeout c now) now (m, w) = Some (m', w') \<and> xinv N nx m' w'"
proof -
  obtain xs where xs: "timer_inv m xs" using xinvD(1) [OF inv] by blast
  have rn: "t \<in> live (m_pool m) \<and> t_manager (m_timers m t) \<and> t_running (m_timers m t)" if "t \<in> set xs" for t
    using xs that by (auto simp: timer_inv_def)
  have due: "due_ok (set xs) (m, w)"
    unfolding due_ok_def
  proof
    fix t assume t: "t \<in> set xs"
    then obtain k d where k: "k \<in> live (xpool w)" "id_of d = ids (xpool w) ! k" "tm_of d (xacts w k) = Some t" using inv rn [OF t] unfolding xinv_def by blast
    have d: "t_cb (m_timers m t) = Some d" "may_fire d (xacts w k)" using xact_timer [OF inv k(1,2)] k(3) rn [OF t] by (metis option.inject)+
    have "1 \<le> id_of d" "id_of d \<le> OGS_MAX_POOL_ID" using xinvD(2) [OF inv] k(1,2) by (auto simp: id_inv_def)
    moreover have "\<forall>l \<in> live (xpool w). ids (xpool w) ! l = id_of d \<longrightarrow> may_fire d (xacts w l)"
      using live_ids_distinct [OF xinvD(2) [OF inv] k(1)] k(2) d(2) by metis
    ultimately show "t_manager (m_timers (fst (m, w)) t) \<and> (t \<notin> live (m_pool (fst (m, w))) \<longrightarrow> \<not> t_running (m_timers (fst (m, w)) t))
        \<and> (\<exists>d. t_cb (m_timers (fst (m, w)) t) = Some d \<and> 1 \<le> id_of d \<and> id_of d \<le> OGS_MAX_POOL_ID
           \<and> (\<forall>k \<in> live (xpool (snd (m, w))). ids (xpool (snd (m, w))) ! k = id_of d \<longrightarrow> may_fire d (xacts (snd (m, w)) k)))"
      using rn [OF t] d(1) by auto
  qed
  let ?us = "takeWhile (\<lambda>i. timeout m i \<le> now) xs"
  have us: "set ?us \<subseteq> set xs" by (auto dest: set_takeWhileD)
  have "xloop_ok c now (set xs) (m, w)" using inv c due by (auto simp: xloop_ok_def)
  then obtain h where h: "ogs_timer_mgr_expire (xact_timeout c now) now (m, w) = foldM (call_back (xact_timeout c now)) ?us (m\<lparr>m_lnodes := h\<rparr>, w)"
    using xl.loop_eq [OF xs _ us] by blast
  let ?P = "\<lambda>mw. xinv N nx (fst mw) (snd mw) \<and> due_ok (set xs) mw"
  have "?P (m\<lparr>m_lnodes := h\<rparr>, w)" using inv due by (simp add: due_ok_def xinv_def xact_ok_def)
  moreover have "\<exists>mw'. call_back (xact_timeout c now) t mw = Some mw' \<and> ?P mw'" if "t \<in> set ?us" "?P mw" for t mw
    using call_back_ok [of N nx "fst mw" "snd mw" "set xs" c now t] that c us by fastforce
  ultimately have "\<exists>mw'. foldM (call_back (xact_timeout c now)) ?us (m\<lparr>m_lnodes := h\<rparr>, w) = Some mw' \<and> ?P mw'" by (rule foldM_invariant)
  then show ?thesis using h by auto
qed

subsection \<open>Messages in both directions\<close>

lemma length_header [simp]: "length (pfcp_header type seid xid len) = pfcp_hlen type"
  by (simp add: pfcp_header_def pfcp_hlen_def OGS_PFCP_XID_TO_SQN_def be64_def OGS_PFCP_HEADER_LEN_def OGS_PFCP_SEID_LEN_def)

definition tx_step :: "u8 \<Rightarrow> ogs_pkbuf \<Rightarrow> 'c ogs_pfcp_xact \<Rightarrow> 'c ogs_pfcp_xact" where
  "tx_step type pk x = x\<lparr>x_seq := (x_seq x)[nat (x_step x) := (type, Some pk)], x_step := x_step x + 1\<rparr>"

lemma tx_allowed_cases:
  assumes "tx_allowed x type = Some True" "xshape x"
  shows "x_org x = OGS_PFCP_LOCAL_ORIGINATOR \<and> (x_step x = 0 \<and> ogs_pfcp_xact_get_stage type = PFCP_XACT_INITIAL_STAGE
       \<or> x_step x = 2 \<and> ogs_pfcp_xact_get_stage type = PFCP_XACT_FINAL_STAGE)
    \<or> x_org x = OGS_PFCP_REMOTE_ORIGINATOR \<and> x_step x = 1 \<and> ogs_pfcp_xact_get_stage type = PFCP_XACT_FINAL_STAGE"
proof -
  have "ogs_pfcp_xact_get_stage type \<noteq> PFCP_XACT_INTERMEDIATE_STAGE" by (simp add: ogs_pfcp_xact_get_stage_def)
  then show ?thesis using assms by (auto simp: tx_allowed_def Let_def split: if_splits xact_stage.splits)
qed

lemma tx_step_ok:
  assumes "tx_allowed x type = Some True" "xshape x"
  shows "xshape (tx_step type pk x)" "same_slots x (tx_step type pk x)" "\<not> may_fire (ResponseTimeout i) x"
    "may_fire d x \<Longrightarrow> may_fire d (tx_step type pk x)"
proof -
  note c = tx_allowed_cases [OF assms]
  show n: "\<not> may_fire (ResponseTimeout i) x" for i using c by auto
  show "same_slots x (tx_step type pk x)" by (simp add: same_slots_def tx_step_def)
  show "xshape (tx_step type pk x)" using c assms(2) by (auto simp: tx_step_def xshape_def nth_list_update)
  show "may_fire d x \<Longrightarrow> may_fire d (tx_step type pk x)" using n by (cases d) (auto simp: tx_step_def)
qed

lemma xinv_tx_step:
  assumes inv: "xinv N nx m w" and k: "k \<in> live (xpool w)" and a: "tx_allowed (xacts w k) type = Some True"
  shows "xinv N nx m (upd_xact k (tx_step type pk) w)"
proof -
  obtain xs where "timer_inv m xs" using xinvD(1) [OF inv] by blast
  moreover note s = tx_step_ok [OF a xinvD(7) [OF inv k]]
  moreover have "\<forall>d t. id_of d = ids (xpool w) ! k \<longrightarrow> tm_of d (xacts w k) = Some t \<longrightarrow> t_running (m_timers m t) \<longrightarrow> may_fire d (tx_step type pk (xacts w k))"
    using s(4) xact_timer [OF inv k] by (metis option.inject)
  ultimately show ?thesis by (intro xinv_update [OF inv k]) simp_all
qed

lemma update_tx_eq:
  assumes "ogs_pfcp_xact_update_tx k type seid pk (m, w) = Some (rv, mw')"
  shows "rv = OGS_ERROR \<and> mw' = (m, w) \<or> rv = OGS_OK \<and> tx_allowed (xacts w k) type = Some True \<and> (\<exists>pk'. mw' = (m, upd_xact k (tx_step type pk') w))"
proof -
  obtain b where b: "tx_allowed (xacts w k) type = Some b" using assms by (auto simp: ogs_pfcp_xact_update_tx_def Let_def bind_eq_Some_conv)
  show ?thesis
  proof (cases b)
    case True
    with assms b obtain pk' x where "set_seq (x_step (xacts w k)) (type, Some pk') (xacts w k) = Some x"
      "rv = OGS_OK" "mw' = (m, upd_xact k (\<lambda>_. x\<lparr>x_step := x_step x + 1\<rparr>) w)"
      by (auto simp: ogs_pfcp_xact_update_tx_def bind_eq_Some_conv Let_def)
    then show ?thesis using b True by (auto simp: set_seq_def tx_step_def upd_xact_def split: if_splits)
  qed (use assms b in \<open>simp add: ogs_pfcp_xact_update_tx_def Let_def\<close>)
qed

lemma update_tx_ok:
  assumes inv: "xinv N nx m w" and k: "k \<in> live (xpool w)" and a: "tx_allowed (xacts w k) type = Some True"
    and pk: "pkbuf_ok pk" "pfcp_hlen type \<le> ogs_pkbuf_headroom pk"
  shows "\<exists>pk'. ogs_pfcp_xact_update_tx k type seid pk (m, w) = Some (OGS_OK, (m, upd_xact k (tx_step type pk') w))
    \<and> contents pk' = pfcp_header type seid (x_xid (xacts w k)) (of_nat (pfcp_hlen type + pk_len pk - 4)) @ contents pk"
proof -
  let ?h = "pfcp_header type seid (x_xid (xacts w k)) (of_nat (pfcp_hlen type + pk_len pk - 4))"
  obtain p1 p2 where p: "ogs_pkbuf_push (pfcp_hlen type) pk = Some p1" "write_at (pk_data p1) ?h p1 = Some p2" "contents p2 = ?h @ contents pk"
    using push_write_correct [of pk ?h] pk by auto
  have l: "pk_len p1 = pfcp_hlen type + pk_len pk" using p(1) by (auto simp: ogs_pkbuf_push_def)
  have "x_step (xacts w k) = 0 \<or> x_step (xacts w k) = 1 \<or> x_step (xacts w k) = 2" using tx_allowed_cases [OF a xinvD(7) [OF inv k]] by auto
  then have "ogs_pfcp_xact_update_tx k type seid pk (m, w) = Some (OGS_OK, (m, upd_xact k (tx_step type p2) w))"
    using a p(1,2) l by (auto simp: ogs_pfcp_xact_update_tx_def Let_def set_seq_def tx_step_def upd_xact_def)
  then show ?thesis using p(3) by blast
qed

text \<open>Receiving: the message is accepted, answered from what is stored, or refused.\<close>

definition rx_step :: "u8 \<Rightarrow> 'c ogs_pfcp_xact \<Rightarrow> 'c ogs_pfcp_xact" where
  "rx_step type x = x\<lparr>x_seq := (x_seq x)[nat (x_step x) := (type, snd (x_seq x ! nat (x_step x)))], x_step := x_step x + 1\<rparr>"

lemma rx_accept_ok:
  assumes inv: "xinv N nx m w" and k: "k \<in> live (xpool w)"
    and s: "x_org (xacts w k) = OGS_PFCP_LOCAL_ORIGINATOR \<and> x_step (xacts w k) = 1 \<and> ogs_pfcp_xact_get_stage type = PFCP_XACT_FINAL_STAGE
      \<or> x_org (xacts w k) = OGS_PFCP_REMOTE_ORIGINATOR \<and> x_step (xacts w k) = 0 \<and> ogs_pfcp_xact_get_stage type = PFCP_XACT_INITIAL_STAGE"
  shows "\<exists>m'. rx_accept k type (m, w) = Some (OGS_OK, (m', upd_xact k (rx_step type) w)) \<and> xinv N nx m' (upd_xact k (rx_step type) w)
    \<and> m_pool m' = m_pool m \<and> \<not> t_running (m_timers m' (timers_of (xacts w k) ! 0))"
proof -
  obtain xs where xs: "timer_inv m xs" using xinvD(1) [OF inv] by blast
  let ?t = "timers_of (xacts w k) ! 0" and ?d = "ResponseTimeout (ids (xpool w) ! k)"
  have t: "x_tm_response (xacts w k) = Some ?t" "?t \<in> live (m_pool m)" using xact_timers(1) [OF inv k] xact_timers_live [OF inv k, of 0] by simp_all
  obtain m' where m': "ogs_timer_stop ?t m = Some m'" "timer_inv m' (remove1 ?t xs)" using timer_stop_ok [OF xs t(2)] by blast
  note o = timer_stop_only [OF m'(1)]
  have "xinv N nx m' (upd_xact k (rx_step type) w)"
  proof (rule xinv_touch [OF inv k _ _ m'(2), where d = ?d and t = ?t])
    show "xshape (xacts (upd_xact k (rx_step type) w) k)"
      using s xinvD(7) [OF inv k] by (auto simp: rx_step_def xshape_def nth_list_update)
    show "may_fire e (xacts (upd_xact k (rx_step type) w) k)" if "e \<noteq> ?d" "id_of e = id_of ?d" "may_fire e (xacts w k)" for e
      using that by (cases e) (auto simp: rx_step_def)
  qed (use o t in \<open>simp_all add: same_slots_def rx_step_def\<close>)
  moreover have "rx_accept k type (m, w) = Some (OGS_OK, (m', upd_xact k (rx_step type) w))"
    using s m'(1) t(1) by (auto simp: rx_accept_def Let_def tm_stop_def seq_at_def set_seq_def rx_step_def upd_xact_def)
  ultimately show ?thesis using o by blast
qed

lemma retransmit_ok:
  assumes inv: "xinv N nx m w" and k: "k \<in> live (xpool w)" and s: "x_step (xacts w k) \<ge> 1" and c: "clock_ok c now"
  shows "\<exists>m' w'. retransmit c now k i (m, w) = Some (OGS_RETRY, (m', w')) \<and> xinv N nx m' w' \<and> same_lists w w' \<and> xacts w' = xacts w
    \<and> xouts w' = xouts w @ (case snd (x_seq (xacts w k) ! i) of None \<Rightarrow> [] | Some pk \<Rightarrow>
        let nd = x_node (xacts w k) in if has_sock c (next_addr (pnodes w nd)) then [SentTo nd (next_addr (pnodes w nd)) (contents pk)] else [])"
proof (cases "snd (x_seq (xacts w k) ! i)")
  case None then show ?thesis using inv by (simp add: retransmit_def)
next
  case (Some pk)
  let ?d = "HoldingTimeout (ids (xpool w) ! k)"
  have f: "may_fire ?d (xacts w k)" "id_of ?d = ids (xpool w) ! k" using s by simp_all
  have cc: "t1_holding_duration c \<noteq> 0" "ogs_time (now + t1_holding_duration c) \<noteq> None" using c by (auto simp: clock_ok_def)
  from xact_send_ok [OF inv k same_slots_refl xinvD(7) [OF inv k] refl f cc xinvD(9) [OF inv k], of c pk] Some
  show ?thesis by (auto simp: retransmit_def Let_def)
qed

lemma stage_nonzero: "ogs_pfcp_xact_get_stage type \<noteq> PFCP_XACT_UNKNOWN_STAGE \<Longrightarrow> type \<noteq> 0"
  "ogs_pfcp_xact_get_stage type \<noteq> PFCP_XACT_INTERMEDIATE_STAGE"
  by (auto simp: ogs_pfcp_xact_get_stage_def)

text \<open>A new request starts the holding timer before it is stored.\<close>

lemma update_rx_request:
  assumes inv: "xinv N nx m w" and k: "k \<in> live (xpool w)" and c: "clock_ok c now"
    and x: "x_org (xacts w k) = OGS_PFCP_REMOTE_ORIGINATOR" "x_step (xacts w k) = 0" "ogs_pfcp_xact_get_stage type = PFCP_XACT_INITIAL_STAGE"
  shows "\<exists>m'. ogs_pfcp_xact_update_rx c now k type (m, w) = Some (OGS_OK, (m', upd_xact k (rx_step type) w)) \<and> xinv N nx m' (upd_xact k (rx_step type) w)"
proof -
  have n: "fst (x_seq (xacts w k) ! 0) \<noteq> type" using xinvD(7) [OF inv k] x stage_nonzero(1) [of type] by (auto simp: xshape_def)
  obtain xs where xs: "timer_inv m xs" using xinvD(1) [OF inv] by blast
  let ?r = "timers_of (xacts w k) ! 0" and ?h = "timers_of (xacts w k) ! 1" and ?i = "ids (xpool w) ! k" and ?w = "upd_xact k (rx_step type) w"
  have t: "x_tm_response (xacts w k) = Some ?r" "x_tm_holding (xacts w k) = Some ?h" "?r \<in> live (m_pool m)" "?h \<in> live (m_pool m)"
    using xact_timers(1,2) [OF inv k] xact_timers_live [OF inv k] by simp_all
  have ts: "tm_of (HoldingTimeout ?i) (xacts w k) = Some ?h" "id_of (HoldingTimeout ?i) = ?i" using t(2) by simp_all
  have cc: "t1_holding_duration c \<noteq> 0" "ogs_time (now + t1_holding_duration c) \<noteq> None" using c by (auto simp: clock_ok_def)
  obtain m1 xs1 where m1: "ogs_timer_start ?h (t1_holding_duration c) now m = Some m1" "timer_inv m1 xs1" "m_pool m1 = m_pool m" "only_timer ?h m m1"
    using xact_start [OF inv k ts cc] by blast
  obtain m2 where m2: "ogs_timer_stop ?r m1 = Some m2" "timer_inv m2 (remove1 ?r xs1)" using timer_stop_ok [OF m1(2), of ?r] t(3) m1(3) by auto
  note o = timer_stop_only [OF m2(1)]
  have "xinv N nx m2 ?w"
  proof (rule xinv_update [OF inv k m2(2)])
    show "m_pool m2 = m_pool m" using o m1(3) by simp
    show "\<forall>t. t_cb (m_timers m2 t) = t_cb (m_timers m t)" using o m1(4) by (metis only_timer_def)
    show "\<forall>t. (\<forall>d. tm_of d (xacts w k) \<noteq> Some t) \<longrightarrow> m_timers m2 t = m_timers m t"
      using o m1(4) t(1) ts(1) unfolding only_timer_def by (metis tm_of.simps(1))
    show "xshape (xacts ?w k)" using x xinvD(7) [OF inv k] by (auto simp: rx_step_def xshape_def nth_list_update)
    show "\<forall>d u. id_of d = ?i \<longrightarrow> tm_of d (xacts w k) = Some u \<longrightarrow> t_running (m_timers m2 u) \<longrightarrow> may_fire d (xacts ?w k)"
    proof (intro allI impI)
      fix d u assume d: "id_of d = ?i" "tm_of d (xacts w k) = Some u" "t_running (m_timers m2 u)"
      show "may_fire d (xacts ?w k)" using d o t(1) x(2) by (cases d) (auto simp: rx_step_def)
    qed
  qed (simp_all add: same_slots_def rx_step_def)
  moreover have "ogs_pfcp_xact_update_rx c now k type (m, w) = Some (OGS_OK, (m2, ?w))"
    using x n m1(1) m2(1) t(1,2)
    by (auto simp: ogs_pfcp_xact_update_rx_def rx_accept_def Let_def tm_start_def tm_stop_def seq_at_def set_seq_def rx_step_def upd_xact_def)
  ultimately show ?thesis by blast
qed

lemma update_rx_ok:
  assumes inv: "xinv N nx m w" and k: "k \<in> live (xpool w)" and c: "clock_ok c now"
    and r: "x_org (xacts w k) = OGS_PFCP_REMOTE_ORIGINATOR \<Longrightarrow> x_step (xacts w k) = 2 \<Longrightarrow> ogs_pfcp_xact_get_stage type \<noteq> PFCP_XACT_FINAL_STAGE"
  shows "\<exists>rv m' w'. ogs_pfcp_xact_update_rx c now k type (m, w) = Some (rv, (m', w')) \<and> xinv N nx m' w' \<and> live (xpool w') = live (xpool w)"
proof (cases "x_org (xacts w k) = OGS_PFCP_LOCAL_ORIGINATOR")
  case True
  show ?thesis
  proof (cases "ogs_pfcp_xact_get_stage type = PFCP_XACT_FINAL_STAGE \<and> x_step (xacts w k) = 1")
    case True
    obtain m' where "rx_accept k type (m, w) = Some (OGS_OK, (m', upd_xact k (rx_step type) w))" "xinv N nx m' (upd_xact k (rx_step type) w)"
      using rx_accept_ok [OF inv k] True \<open>x_org (xacts w k) = OGS_PFCP_LOCAL_ORIGINATOR\<close> by blast
    then show ?thesis using True \<open>x_org (xacts w k) = OGS_PFCP_LOCAL_ORIGINATOR\<close> by (simp add: ogs_pfcp_xact_update_rx_def)
  next
    case False
    then have "ogs_pfcp_xact_update_rx c now k type (m, w) = Some (OGS_ERROR, (m, w))"
      using True stage_nonzero(2) [of type] by (auto simp: ogs_pfcp_xact_update_rx_def Let_def split: xact_stage.splits)
    then show ?thesis using inv by simp
  qed
next
  case False
  then have o: "x_org (xacts w k) = OGS_PFCP_REMOTE_ORIGINATOR" using xinvD(7) [OF inv k] by (simp add: xshape_def)
  consider (new) "ogs_pfcp_xact_get_stage type = PFCP_XACT_INITIAL_STAGE" "x_step (xacts w k) = 0"
    | (dup) "ogs_pfcp_xact_get_stage type = PFCP_XACT_INITIAL_STAGE" "x_step (xacts w k) \<noteq> 0" "fst (x_seq (xacts w k) ! 0) = type"
    | (other) "ogs_pfcp_xact_get_stage type = PFCP_XACT_INITIAL_STAGE" "x_step (xacts w k) \<noteq> 0" "fst (x_seq (xacts w k) ! 0) \<noteq> type"
    | (bad) "ogs_pfcp_xact_get_stage type \<noteq> PFCP_XACT_INITIAL_STAGE" by blast
  then show ?thesis
  proof cases
    case new then show ?thesis using update_rx_request [OF inv k c o new(2,1)] by fastforce
  next
    case dup
    have s: "x_step (xacts w k) \<ge> 1" "x_step (xacts w k) = 1 \<or> x_step (xacts w k) = 2" using dup(2) xinvD(7) [OF inv k] o by (auto simp: xshape_def)
    have "ogs_pfcp_xact_update_rx c now k type (m, w) = retransmit c now k 1 (m, w)" using dup o s(2) by (auto simp: ogs_pfcp_xact_update_rx_def)
    then show ?thesis using retransmit_ok [OF inv k s(1) c, of 1] by (fastforce simp: same_lists_def)
  next
    case other then show ?thesis using inv o by (simp add: ogs_pfcp_xact_update_rx_def)
  next
    case bad
    then have "ogs_pfcp_xact_update_rx c now k type (m, w) = Some (OGS_ERROR, (m, w))"
      using o r xinvD(7) [OF inv k] stage_nonzero(2) [of type] by (auto simp: ogs_pfcp_xact_update_rx_def Let_def xshape_def split: xact_stage.splits)
    then show ?thesis using inv by simp
  qed
qed

lemma lists_okD:
  assumes "xinv N nx m w"
  shows "k \<in> set (local_list (pnodes w nd)) \<longleftrightarrow> k \<in> live (xpool w) \<and> x_org (xacts w k) = OGS_PFCP_LOCAL_ORIGINATOR \<and> x_node (xacts w k) = nd"
    "k \<in> set (remote_list (pnodes w nd)) \<longleftrightarrow> k \<in> live (xpool w) \<and> x_org (xacts w k) \<noteq> OGS_PFCP_LOCAL_ORIGINATOR \<and> x_node (xacts w k) = nd"
    "distinct (local_list (pnodes w nd))" "distinct (remote_list (pnodes w nd))"
  using xinvD(5) [OF assms] by (auto simp: lists_ok_def)

text \<open>The second half of \<open>ogs_pfcp_xact_receive\<close>, for the transaction found or created.\<close>

definition receive_on :: "pfcp_conf \<Rightarrow> int \<Rightarrow> u8 \<Rightarrow> nat \<Rightarrow> 'c xstate \<Rightarrow> (status \<times> nat option \<times> 'c xstate) option" where
  "receive_on c now type new mw =
     do { (rv, mw) \<leftarrow> ogs_pfcp_xact_update_rx c now new type mw;
          if rv = OGS_ERROR then do { mw \<leftarrow> ogs_pfcp_xact_delete new mw; Some (rv, None, mw) }
          else if rv = OGS_RETRY then Some (rv, None, mw)
          else Some (rv, Some new, mw) }"

lemma receive_eq:
  assumes "ogs_pfcp_xact_get_stage type \<noteq> PFCP_XACT_UNKNOWN_STAGE"
  shows "ogs_pfcp_xact_receive c now nd type sqn mw =
    (case find (\<lambda>n. x_xid (xacts (snd mw) n) = OGS_PFCP_SQN_TO_XID sqn)
       (if ogs_pfcp_xact_get_stage type = PFCP_XACT_INITIAL_STAGE then remote_list (pnodes (snd mw) nd) else local_list (pnodes (snd mw) nd)) of
       Some n \<Rightarrow> receive_on c now type n mw
     | None \<Rightarrow> ogs_pfcp_xact_remote_create c nd sqn mw \<bind> (\<lambda>(n, mw). receive_on c now type n mw))"
  using assms by (simp add: ogs_pfcp_xact_receive_def receive_on_def [abs_def] Let_def split: option.split)

lemma receive_on_ok:
  assumes "xinv N nx m w" "k \<in> live (xpool w)" "clock_ok c now"
    "x_org (xacts w k) = OGS_PFCP_REMOTE_ORIGINATOR \<Longrightarrow> x_step (xacts w k) = 2 \<Longrightarrow> ogs_pfcp_xact_get_stage type \<noteq> PFCP_XACT_FINAL_STAGE"
  shows "\<exists>rv x m' w'. receive_on c now type k (m, w) = Some (rv, x, (m', w')) \<and> xinv N nx m' w'"
proof -
  obtain rv m1 w1 where u: "ogs_pfcp_xact_update_rx c now k type (m, w) = Some (rv, (m1, w1))" "xinv N nx m1 w1" "k \<in> live (xpool w1)"
    using update_rx_ok [OF assms(1-3), of type] assms(2,4) by auto
  then show ?thesis using xact_delete_ok [OF u(2,3)] by (fastforce simp: receive_on_def)
qed

lemma find_in: "find P xs = Some k \<Longrightarrow> k \<in> set xs \<and> P k"
  by (auto simp: find_Some_iff)

lemma receive_found:
  assumes inv: "xinv N nx m w" and c: "clock_ok c now"
    and f: "find (\<lambda>n. x_xid (xacts w n) = OGS_PFCP_SQN_TO_XID sqn)
      (if ogs_pfcp_xact_get_stage type = PFCP_XACT_INITIAL_STAGE then remote_list (pnodes w nd) else local_list (pnodes w nd)) = Some k"
  shows "k \<in> live (xpool w)" "\<exists>rv x m' w'. receive_on c now type k (m, w) = Some (rv, x, (m', w')) \<and> xinv N nx m' w'"
proof -
  show k: "k \<in> live (xpool w)" using find_in [OF f] lists_okD(1,2) [OF inv] by (auto split: if_splits)
  have "x_org (xacts w k) = OGS_PFCP_REMOTE_ORIGINATOR \<Longrightarrow> ogs_pfcp_xact_get_stage type \<noteq> PFCP_XACT_FINAL_STAGE"
    using find_in [OF f] lists_okD(1) [OF inv] by (auto split: if_splits)
  then show "\<exists>rv x m' w'. receive_on c now type k (m, w) = Some (rv, x, (m', w')) \<and> xinv N nx m' w'" using receive_on_ok [OF inv k c] by blast
qed

lemma receive_new:
  assumes "xinv N nx m w" "clock_ok c now" "id (xpool w) < OGS_MAX_POOL_ID" "ogs_pfcp_xact_remote_create c nd sqn (m, w) = Some (k, (m1, w1))" "nd \<in> N"
  shows "\<exists>rv x m' w'. receive_on c now type k (m1, w1) = Some (rv, x, (m', w')) \<and> xinv N nx m' w'"
  using remote_create_ok [OF assms(1,3,4,5)] by (intro receive_on_ok [OF _ _ assms(2)]) auto

lemma receive_inv:
  assumes inv: "xinv N nx m w" and c: "clock_ok c now" and i: "id (xpool w) < OGS_MAX_POOL_ID"
    and r: "ogs_pfcp_xact_receive c now nd type sqn (m, w) = Some (rv, x, (m', w'))" and nd: "nd \<in> N"
  shows "xinv N nx m' w'"
proof (cases "ogs_pfcp_xact_get_stage type = PFCP_XACT_UNKNOWN_STAGE")
  case True then show ?thesis using r inv by (simp add: ogs_pfcp_xact_receive_def)
next
  case False
  note eq = receive_eq [OF False, of c now nd sqn "(m, w)", unfolded r snd_conv]
  show ?thesis
  proof (cases "find (\<lambda>n. x_xid (xacts w n) = OGS_PFCP_SQN_TO_XID sqn)
      (if ogs_pfcp_xact_get_stage type = PFCP_XACT_INITIAL_STAGE then remote_list (pnodes w nd) else local_list (pnodes w nd))")
    case None
    then obtain k m1 w1 where "ogs_pfcp_xact_remote_create c nd sqn (m, w) = Some (k, (m1, w1))" "receive_on c now type k (m1, w1) = Some (rv, x, (m', w'))"
      using eq by (cases "ogs_pfcp_xact_remote_create c nd sqn (m, w)") auto
    then show ?thesis using receive_new [OF inv c i _ nd, of sqn k m1 w1 type] by auto
  next
    case (Some k) then show ?thesis using eq receive_found(2) [OF inv c Some] by force
  qed
qed

lemma delayed_commit_ok:
  assumes inv: "xinv N nx m w" and k: "k \<in> live (xpool w)" and s: "x_step (xacts w k) \<ge> 1" and d: "dur \<noteq> 0" "ogs_time (now + dur) \<noteq> None"
  shows "\<exists>m'. ogs_pfcp_xact_delayed_commit k dur now (m, w) = Some (m', w) \<and> xinv N nx m' w"
proof -
  let ?d = "DelayedCommitTimeout (ids (xpool w) ! k)" and ?t = "timers_of (xacts w k) ! 2"
  have t: "tm_of ?d (xacts w k) = Some ?t" "id_of ?d = ids (xpool w) ! k" using xact_timers(3) [OF inv k] by simp_all
  obtain m' xs where m': "ogs_timer_start ?t dur now m = Some m'" "timer_inv m' xs" "m_pool m' = m_pool m" "only_timer ?t m m'"
    using xact_start [OF inv k t d] by blast
  have "xinv N nx m' w" using s xinvD(7) [OF inv k] by (intro xinv_touch [OF inv k t(2,1) m'(2-4)]) simp_all
  then show ?thesis using m'(1) t(1) d(1) by (simp add: ogs_pfcp_xact_delayed_commit_def)
qed

lemma delayed_commit_inv:
  assumes "xinv N nx m w" "k \<in> live (xpool w)" "x_step (xacts w k) \<ge> 1" "ogs_pfcp_xact_delayed_commit k dur now (m, w) = Some mw'"
  shows "xinv N nx (fst mw') (snd mw')"
proof -
  obtain t m' where "dur \<noteq> 0" "ogs_timer_start t dur now m = Some m'" using assms(4) by (auto simp: ogs_pfcp_xact_delayed_commit_def bind_eq_Some_conv)
  then have "dur \<noteq> 0" "ogs_time (now + dur) \<noteq> None" using timer_start_cases by blast+
  then show ?thesis using delayed_commit_ok [OF assms(1-3), of dur now] assms(4) by auto
qed

lemma delete_list_ok:
  assumes "xinv N nx m w" "set ks \<subseteq> live (xpool w)" "distinct ks"
  shows "\<exists>m' w'. foldM ogs_pfcp_xact_delete ks (m, w) = Some (m', w') \<and> xinv N nx m' w' \<and> live (xpool w') = live (xpool w) - set ks \<and> xacts w' = xacts w
    \<and> xouts w' = xouts w"
  using assms
proof (induction ks arbitrary: m w)
  case (Cons k ks)
  then obtain m1 w1 where 1: "ogs_pfcp_xact_delete k (m, w) = Some (m1, w1)" "xinv N nx m1 w1" "live (xpool w1) = live (xpool w) - {k}" "xacts w1 = xacts w"
    "xouts w1 = xouts w" using xact_delete_ok [OF Cons.prems(1), of k] by auto
  have "set ks \<subseteq> live (xpool w1)" "distinct ks" using Cons.prems(2,3) 1(3) by auto
  moreover have "live (xpool w) - {k} - set ks = live (xpool w) - set (k # ks)" by auto
  ultimately show ?case using Cons.IH [OF 1(2)] 1 by (simp del: Diff_insert)
qed auto

lemma delete_all_ok:
  assumes inv: "xinv N nx m w"
  shows "\<exists>m' w'. ogs_pfcp_xact_delete_all nd (m, w) = Some (m', w') \<and> xinv N nx m' w' \<and> xacts w' = xacts w \<and> xouts w' = xouts w
    \<and> live (xpool w') = {k \<in> live (xpool w). x_node (xacts w k) \<noteq> nd}"
proof -
  obtain m1 w1 where 1: "foldM ogs_pfcp_xact_delete (local_list (pnodes w nd)) (m, w) = Some (m1, w1)" "xinv N nx m1 w1" "xacts w1 = xacts w" "xouts w1 = xouts w"
    "live (xpool w1) = live (xpool w) - set (local_list (pnodes w nd))"
    using delete_list_ok [OF inv, of "local_list (pnodes w nd)"] lists_okD [OF inv] by auto
  have s: "set (remote_list (pnodes w1 nd)) \<subseteq> live (xpool w1)" "distinct (remote_list (pnodes w1 nd))" using lists_okD(2,4) [OF 1(2)] by auto
  obtain m2 w2 where 2: "foldM ogs_pfcp_xact_delete (remote_list (pnodes w1 nd)) (m1, w1) = Some (m2, w2)" "xinv N nx m2 w2" "xacts w2 = xacts w" "xouts w2 = xouts w"
    "live (xpool w2) = live (xpool w1) - set (remote_list (pnodes w1 nd))"
    using delete_list_ok [OF 1(2) s] unfolding 1(3,4) by blast
  have "live (xpool w2) = {k \<in> live (xpool w). x_node (xacts w k) \<noteq> nd}"
    using 1(3,5) 2(5) lists_okD(1,2) [OF inv, of _ nd] lists_okD(2) [OF 1(2), of _ nd] by auto
  then show ?thesis using 1(1) 2 by (simp add: ogs_pfcp_xact_delete_all_def)
qed

subsection \<open>Every history\<close>

text \<open>
  The states the transaction layer can reach: calls of its functions on transactions that exist, in any order, with arbitrary messages
  and with expiries of timers in between. The callers ask for a delayed commit only after they have stored a message. The pool has
  identifiers for \<open>2 ^ 31 - 1\<close> transactions before the counter wraps, and the clock does not overflow.
\<close>

inductive xact_run :: "pfcp_conf \<Rightarrow> nat \<Rightarrow> 'c xstate \<Rightarrow> bool" for c :: pfcp_conf and nx :: nat where
  init: "ogs_timer_mgr_create True nt tmem tsd rb ts ln = Some m \<Longrightarrow> 0 < nt \<Longrightarrow> 0 < nx \<Longrightarrow> nx \<le> 2 ^ 30 \<Longrightarrow> length mem = nx \<Longrightarrow>
    \<forall>nd. local_list (nds nd) = [] \<and> remote_list (nds nd) = [] \<and> node_ok (nds nd) \<Longrightarrow> xact_run c nx (m, ogs_pfcp_xact_init nx mem sd xs nds)"
| local_create: "xact_run c nx mw \<Longrightarrow> id (xpool (snd mw)) < OGS_MAX_POOL_ID \<Longrightarrow> ogs_pfcp_xact_local_create c nd cb mw = Some (k, mw') \<Longrightarrow> xact_run c nx mw'"
| update_tx: "xact_run c nx mw \<Longrightarrow> k \<in> live (xpool (snd mw)) \<Longrightarrow> ogs_pfcp_xact_update_tx k type seid pk mw = Some (rv, mw') \<Longrightarrow> xact_run c nx mw'"
| commit: "xact_run c nx mw \<Longrightarrow> k \<in> live (xpool (snd mw)) \<Longrightarrow> clock_ok c now \<Longrightarrow> ogs_pfcp_xact_commit c now k mw = Some (rv, mw') \<Longrightarrow> xact_run c nx mw'"
| delayed_commit: "xact_run c nx mw \<Longrightarrow> k \<in> live (xpool (snd mw)) \<Longrightarrow> x_step (xacts (snd mw) k) \<ge> 1 \<Longrightarrow>
    ogs_pfcp_xact_delayed_commit k dur now mw = Some mw' \<Longrightarrow> xact_run c nx mw'"
| receive: "xact_run c nx mw \<Longrightarrow> id (xpool (snd mw)) < OGS_MAX_POOL_ID \<Longrightarrow> clock_ok c now \<Longrightarrow>
    ogs_pfcp_xact_receive c now nd type sqn mw = Some (rv, x, mw') \<Longrightarrow> xact_run c nx mw'"
| delete: "xact_run c nx mw \<Longrightarrow> k \<in> live (xpool (snd mw)) \<Longrightarrow> ogs_pfcp_xact_delete k mw = Some mw' \<Longrightarrow> xact_run c nx mw'"
| delete_all: "xact_run c nx mw \<Longrightarrow> ogs_pfcp_xact_delete_all nd mw = Some mw' \<Longrightarrow> xact_run c nx mw'"
| expire: "xact_run c nx mw \<Longrightarrow> clock_ok c now \<Longrightarrow> ogs_timer_mgr_expire (xact_timeout c now) now mw = Some mw' \<Longrightarrow> xact_run c nx mw'"

lemma xinv_init:
  assumes "timer_inv m []" "live (m_pool m) = {}" "0 < nx" "nx \<le> 2 ^ 30" "length mem = nx"
    "\<forall>nd. local_list (nds nd) = [] \<and> remote_list (nds nd) = [] \<and> node_ok (nds nd)"
  shows "xinv UNIV nx m (ogs_pfcp_xact_init nx mem sd xs nds)"
proof -
  have "id_pool_run nx 0 (ogs_pool_init nx mem 0 sd)" using assms(5) by (rule run_init)
  then have r: "run_inv nx 0 (ogs_pool_init nx mem 0 sd)" using id_pool_run_inv assms(3,4) by simp
  moreover have "live (ogs_pool_init nx mem 0 sd) = {}" by (auto simp: live_def ogs_pool_init_def)
  moreover have "id (ogs_pool_init nx mem 0 sd) = 0" by (simp add: ogs_pool_init_def)
  ultimately show ?thesis using assms by (auto simp: xinv_def ogs_pfcp_xact_init_def lists_ok_def)
qed

lemma xact_run_inv: "xact_run c nx mw \<Longrightarrow> xinv UNIV nx (fst mw) (snd mw)"
proof (induction rule: xact_run.induct)
  case (init nt tmem tsd rb ts ln m mem nds sd xs)
  have "live (m_pool m) = {}" "timer_inv m []"
    using init(1) timer_inv_create [OF init(2), of tmem tsd rb ts ln] by (auto simp: ogs_timer_mgr_create_def live_def ogs_pool_init_def)
  then show ?case using xinv_init [OF _ _ init(3-6), of m sd xs] by simp
next
  case (local_create mw nd cb k mw') then show ?case using local_create_ok(1) [of UNIV nx "fst mw" "snd mw" c nd cb k "fst mw'" "snd mw'"] by simp
next
  case (update_tx mw k type seid pk rv mw')
  then show ?case using update_tx_eq [of k type seid pk "fst mw" "snd mw" rv mw'] xinv_tx_step [of UNIV nx "fst mw" "snd mw" k type] by auto
next
  case (commit mw k now rv mw')
  have "x_step (xacts (snd mw) k) \<ge> 1" using commit.hyps(4) by (auto simp: ogs_pfcp_xact_commit_def Let_def seq_at_def bind_eq_Some_conv split: if_splits)
  then show ?case using commit_ok [of UNIV nx "fst mw" "snd mw" k c now] commit by auto
next
  case (delayed_commit mw k dur now mw') then show ?case using delayed_commit_inv [of UNIV nx "fst mw" "snd mw"] by simp
next
  case (receive mw now nd type sqn rv x mw') then show ?case using receive_inv [of UNIV nx "fst mw" "snd mw" c now nd type sqn rv x "fst mw'" "snd mw'"] by simp
next
  case (delete mw k mw') then show ?case using xact_delete_ok [of UNIV nx "fst mw" "snd mw" k] by auto
next
  case (delete_all mw nd mw') then show ?case using delete_all_ok [of UNIV nx "fst mw" "snd mw" nd] by auto
next
  case (expire mw now mw') then show ?case using xact_expire_ok [of UNIV nx "fst mw" "snd mw" c now] by auto
qed

subsection \<open>Properties\<close>

lemma run_timers:
  assumes inv: "xinv N nx m w"
  shows "live (m_pool m) = (\<Union>k \<in> live (xpool w). set (timers_of (xacts w k)))" "card (live (m_pool m)) = 3 * card (live (xpool w))"
proof -
  have t: "t \<in> set (timers_of (xacts w k)) \<longleftrightarrow> (\<exists>d. id_of d = ids (xpool w) ! k \<and> tm_of d (xacts w k) = Some t)" if "k \<in> live (xpool w)" for k t
    using xact_timers(6) [OF inv that] .
  show u: "live (m_pool m) = (\<Union>k \<in> live (xpool w). set (timers_of (xacts w k)))"
  proof -
    have "\<exists>k \<in> live (xpool w). t \<in> set (timers_of (xacts w k))" if "t \<in> live (m_pool m)" for t using inv that t unfolding xinv_def by meson
    then show ?thesis using xact_timers(4) [OF inv] by blast
  qed
  have "set (timers_of (xacts w k)) \<inter> set (timers_of (xacts w l)) = {}" if "k \<in> live (xpool w)" "l \<in> live (xpool w)" "k \<noteq> l" for k l
    using that t timer_owner_unique [OF inv] by (metis disjoint_iff)
  moreover have "card (set (timers_of (xacts w k))) = 3" if "k \<in> live (xpool w)" for k
    using distinct_card [OF xact_timers(5) [OF inv that]] by (simp add: timers_of_def)
  moreover have "finite (live (xpool w))" by (simp add: live_def)
  ultimately show "card (live (m_pool m)) = 3 * card (live (xpool w))" unfolding u by (subst card_UN_disjoint) auto
qed

text \<open>C9. In every state the transaction layer can reach, each transaction is on the list of its originator in its PFCP node and on no other,
  its stored messages fit its step, and the timers in use are exactly the three timers of each transaction, so none is
  leaked or shared; each has the identifier of its transaction as argument.\<close>

theorem xact_lists_and_timers:
  assumes "xact_run c nx (m, w)"
  shows "(\<forall>nd k. k \<in> set (local_list (pnodes w nd)) \<longleftrightarrow> k \<in> live (xpool w) \<and> x_org (xacts w k) = OGS_PFCP_LOCAL_ORIGINATOR \<and> x_node (xacts w k) = nd)
    \<and> (\<forall>nd k. k \<in> set (remote_list (pnodes w nd)) \<longleftrightarrow> k \<in> live (xpool w) \<and> x_org (xacts w k) = OGS_PFCP_REMOTE_ORIGINATOR \<and> x_node (xacts w k) = nd)
    \<and> (\<forall>k \<in> live (xpool w). xshape (xacts w k) \<and> (\<forall>t \<in> set (timers_of (xacts w k)). \<exists>d. t_cb (m_timers m t) = Some d \<and> id_of d = ids (xpool w) ! k))
    \<and> live (m_pool m) = (\<Union>k \<in> live (xpool w). set (timers_of (xacts w k))) \<and> card (live (m_pool m)) = 3 * card (live (xpool w))"
proof -
  have inv: "xinv UNIV nx m w" using xact_run_inv [OF assms] by simp
  have "x_org (xacts w k) \<noteq> OGS_PFCP_LOCAL_ORIGINATOR \<longleftrightarrow> x_org (xacts w k) = OGS_PFCP_REMOTE_ORIGINATOR" if "k \<in> live (xpool w)" for k
    using xinvD(7) [OF inv that] by (auto simp: xshape_def)
  moreover have "\<exists>d. t_cb (m_timers m t) = Some d \<and> id_of d = ids (xpool w) ! k" if "k \<in> live (xpool w)" "t \<in> set (timers_of (xacts w k))" for k t
    using xact_timers(6) [OF inv that(1)] that(2) xact_timer [OF inv that(1)] by (metis option.inject)
  ultimately show ?thesis using lists_okD(1,2) [OF inv] run_timers [OF inv] xinvD(7) [OF inv] by (auto simp del: card_UN_disjoint)
qed

text \<open>A configuration as the program makes it for a message duration of ten seconds, and a first state.\<close>

definition sample_conf :: pfcp_conf where
  "sample_conf = the (regenerate_pfcp_durations 10000000 \<lparr>n1_response_rcount = 0, t1_response_duration = 0, n1_holding_rcount = 0, t1_holding_duration = 0,
     pfcp_sock = True, pfcp_sock6 = True, tx_ok = \<lambda>_. True\<rparr>)"

definition sample_tmgr :: "tm_data ogs_timer_mgr" where
  "sample_tmgr = the (ogs_timer_mgr_create True 6 [0, 0, 0, 0, 0, 0] 5 (\<lambda>_. \<lparr>rb_parent = None, rb_left = None, rb_right = None, rb_color = BLACK\<rparr>)
     (\<lambda>_. \<lparr>t_cb = None, t_manager = False, t_running = False, t_timeout = 0\<rparr>) (\<lambda>_. \<lparr>prev = None, next = None\<rparr>))"

definition sample_xacts :: "string pfcp_xacts" where
  "sample_xacts = ogs_pfcp_xact_init 2 [0, 0] 5 (\<lambda>_. \<lparr>x_index = 0, x_org = 0, x_xid = 0, x_node = 0, x_cb = None, x_step = 0, x_seq = [],
     x_tm_response = None, x_response_rcount = 0, x_tm_holding = None, x_holding_rcount = 0, x_tm_delayed_commit = None\<rparr>)
     (\<lambda>_. \<lparr>local_list = [], remote_list = [], addr_list = [SockAddr4 0x7F000001 8805, SockAddr4 0x7F000002 8805], current_addr = None\<rparr>)"

lemma sample_conf_simps: "n1_response_rcount sample_conf = 3" "t1_response_duration sample_conf = 2500000" "n1_holding_rcount sample_conf = 1"
  "t1_holding_duration sample_conf = 7500000" "has_sock sample_conf a" "tx_ok sample_conf i"
  by (simp_all add: sample_conf_def regenerate_pfcp_durations_def PFCP_N1_RESPONSE_RETRY_COUNT_def PFCP_N1_HOLDING_RETRY_COUNT_def Let_def has_sock_def
      split: ogs_sockaddr.split)

lemma sample_clock: "0 \<le> now \<Longrightarrow> now < 2 ^ 62 \<Longrightarrow> clock_ok sample_conf now"
  by (simp add: clock_ok_def sample_conf_simps ogs_time_def)

lemma sample_run: "xact_run sample_conf 2 (sample_tmgr, sample_xacts)"
  unfolding sample_xacts_def
  by (rule xact_run.init [where nt = 6 and tmem = "[0, 0, 0, 0, 0, 0]" and tsd = 5
        and rb = "\<lambda>_. \<lparr>rb_parent = None, rb_left = None, rb_right = None, rb_color = BLACK\<rparr>"
        and ts = "\<lambda>_. \<lparr>t_cb = None, t_manager = False, t_running = False, t_timeout = 0\<rparr>" and ln = "\<lambda>_. \<lparr>prev = None, next = None\<rparr>"])
    (simp_all add: sample_tmgr_def ogs_timer_mgr_create_def node_ok_def)

lemma sample_room: "pool_repr (xpool sample_xacts) [0, 1]" "pool_repr (m_pool sample_tmgr) [0, 1, 2, 3, 4, 5]" "id (xpool sample_xacts) = 0"
  "0 < OGS_MAX_POOL_ID" "1 < OGS_MAX_POOL_ID"
proof -
  have u: "[0..<2] = [0, 1 :: nat]" "[0..<6] = [0, 1, 2, 3, 4, 5 :: nat]" by code_simp+
  show "pool_repr (xpool sample_xacts) [0, 1]" "pool_repr (m_pool sample_tmgr) [0, 1, 2, 3, 4, 5]"
    using pool_repr_init [of 2 "[0, 0]" 0 5] pool_repr_init [of 6 "[0, 0, 0, 0, 0, 0]" 0 5] unfolding u
    by (simp_all add: sample_xacts_def ogs_pfcp_xact_init_def sample_tmgr_def ogs_timer_mgr_create_def)
qed (simp_all add: sample_xacts_def ogs_pfcp_xact_init_def ogs_pool_init_def OGS_MAX_POOL_ID_def)

text \<open>The state after the creation of a transaction for a request.\<close>

lemma sample_created:
  "\<exists>m w. ogs_pfcp_xact_local_create sample_conf 0 (Some ''node'') (sample_tmgr, sample_xacts) = Some (0, (m, w)) \<and> xact_run sample_conf 2 (m, w)"
proof -
  have inv: "xinv UNIV 2 sample_tmgr sample_xacts" using xact_run_inv [OF sample_run] by simp
  obtain m w where "ogs_pfcp_xact_local_create sample_conf 0 (Some ''node'') (sample_tmgr, sample_xacts) = Some (0, (m, w))"
    using create_returns(1) [OF inv _ sample_room(1,2), of sample_conf 0 "Some ''node''"] sample_room(3,4) by auto
  moreover from xact_run.local_create [OF sample_run _ this] have "xact_run sample_conf 2 (m, w)" using sample_room(3,4) by simp
  ultimately show ?thesis by blast
qed

theorem xact_lists_and_timers_witness:
  "\<exists>m (w :: string pfcp_xacts). xact_run sample_conf 2 (m, w) \<and> live (xpool w) = {0} \<and> card (live (m_pool m)) = 3"
proof -
  obtain m w where r: "ogs_pfcp_xact_local_create sample_conf 0 (Some ''node'') (sample_tmgr, sample_xacts) = Some (0, (m, w))" "xact_run sample_conf 2 (m, w)"
    using sample_created by blast
  have inv: "xinv UNIV 2 sample_tmgr sample_xacts" using xact_run_inv [OF sample_run] by simp
  have "live (xpool w) = insert 0 (live (xpool sample_xacts))" using local_create_ok(3) [OF inv _ r(1) UNIV_I] sample_room(3,4) by simp
  moreover have "live (xpool sample_xacts) = {}" by (auto simp: live_def sample_xacts_def ogs_pfcp_xact_init_def ogs_pool_init_def)
  moreover have "card (live (m_pool m)) = 3 * card (live (xpool w))" using xact_lists_and_timers [OF r(2)] by (elim conjE)
  ultimately show ?thesis using r(2) by auto
qed

lemma pools_room:
  assumes "xinv N nx m w" "1 \<le> avail (xpool w)" "3 \<le> avail (m_pool m)"
  obtains k ks r h d fs where "pool_repr (xpool w) (k # ks)" "pool_repr (m_pool m) (r # h # d # fs)"
proof -
  obtain ks fs where p: "pool_repr (xpool w) ks" "pool_repr (m_pool m) fs" using xinvD(1,3) [OF assms(1)] by (auto simp: timer_inv_def)
  then have "1 \<le> length ks" "3 \<le> length fs" using assms(2,3) by (simp_all add: pool_repr_def)
  then show ?thesis using p that by (auto simp: Suc_le_length_iff numeral_3_eq_3)
qed

lemma receive_progress:
  assumes inv: "xinv N nx m w" and c: "clock_ok c now" and i: "id (xpool w) < OGS_MAX_POOL_ID" and room: "1 \<le> avail (xpool w)" "3 \<le> avail (m_pool m)"
    and nd: "nd \<in> N"
  shows "\<exists>rv x mw'. ogs_pfcp_xact_receive c now nd type sqn (m, w) = Some (rv, x, mw')"
proof (cases "ogs_pfcp_xact_get_stage type = PFCP_XACT_UNKNOWN_STAGE")
  case True then show ?thesis by (simp add: ogs_pfcp_xact_receive_def)
next
  case False
  obtain k m1 w1 where n: "ogs_pfcp_xact_remote_create c nd sqn (m, w) = Some (k, (m1, w1))"
    using pools_room [OF inv room] create_returns(2) [OF inv i] by metis
  show ?thesis
  proof (cases "find (\<lambda>n. x_xid (xacts w n) = OGS_PFCP_SQN_TO_XID sqn)
      (if ogs_pfcp_xact_get_stage type = PFCP_XACT_INITIAL_STAGE then remote_list (pnodes w nd) else local_list (pnodes w nd))")
    case None then show ?thesis using receive_eq [OF False, of c now nd sqn "(m, w)"] n receive_new [OF inv c i n nd, of type] by fastforce
  next
    case (Some l) then show ?thesis using receive_eq [OF False, of c now nd sqn "(m, w)"] receive_found(2) [OF inv c Some] by fastforce
  qed
qed

text \<open>C10. No reachable state is stuck: the expiry of any timers returns, although the callbacks delete timers that the expiry may still have on its
  list; committing a stored message and deleting return for every transaction; and a message from the peer is dealt with
  whenever a transaction for it exists or there is room for one. None of the assertions in these paths can fail.\<close>

theorem xact_never_stuck:
  assumes "xact_run c nx (m, w)" "clock_ok c now"
  shows "(\<exists>mw'. ogs_timer_mgr_expire (xact_timeout c now) now (m, w) = Some mw' \<and> xact_run c nx mw')
    \<and> (\<forall>k \<in> live (xpool w). (\<exists>mw'. ogs_pfcp_xact_delete k (m, w) = Some mw' \<and> k \<notin> live (xpool (snd mw')))
         \<and> (1 \<le> x_step (xacts w k) \<longrightarrow> (\<exists>rv mw'. ogs_pfcp_xact_commit c now k (m, w) = Some (rv, mw'))))
    \<and> (id (xpool w) < OGS_MAX_POOL_ID \<and> 1 \<le> avail (xpool w) \<and> 3 \<le> avail (m_pool m)
         \<longrightarrow> (\<forall>nd type sqn. \<exists>rv x mw'. ogs_pfcp_xact_receive c now nd type sqn (m, w) = Some (rv, x, mw')))"
proof (intro conjI ballI impI allI)
  have inv: "xinv UNIV nx m w" using xact_run_inv [OF assms(1)] by simp
  obtain mw' where e: "ogs_timer_mgr_expire (xact_timeout c now) now (m, w) = Some mw'" using xact_expire_ok [OF inv assms(2)] by blast
  then show "\<exists>mw'. ogs_timer_mgr_expire (xact_timeout c now) now (m, w) = Some mw' \<and> xact_run c nx mw'"
    using xact_run.expire [OF assms e] by blast
  fix k assume k: "k \<in> live (xpool w)"
  show "\<exists>mw'. ogs_pfcp_xact_delete k (m, w) = Some mw' \<and> k \<notin> live (xpool (snd mw'))" using xact_delete_ok [OF inv k] by fastforce
  show "\<exists>rv mw'. ogs_pfcp_xact_commit c now k (m, w) = Some (rv, mw')" if "1 \<le> x_step (xacts w k)"
    using commit_ok [OF inv k that assms(2)] by blast
next
  fix nd type sqn assume "id (xpool w) < OGS_MAX_POOL_ID \<and> 1 \<le> avail (xpool w) \<and> 3 \<le> avail (m_pool m)"
  then show "\<exists>rv x mw'. ogs_pfcp_xact_receive c now nd type sqn (m, w) = Some (rv, x, mw')"
    using receive_progress xact_run_inv [OF assms(1)] assms(2) by fastforce
qed

theorem xact_never_stuck_witness:
  "\<exists>mw'. ogs_timer_mgr_expire (xact_timeout sample_conf 7) 7 (sample_tmgr, sample_xacts) = Some mw' \<and> xact_run sample_conf 2 mw'"
  using xact_never_stuck [OF sample_run sample_clock, of 7] by simp

end
