(* ===== verification/Pfcp_Path.thy ===== *)
theory Pfcp_Path
  imports Pfcp_Xact
begin

unbundle bit_operations_syntax

section \<open>PFCP requests and responses (lib/pfcp/path.c)\<close>

text \<open>
  The node-level messages of path.c on top of the transactions, and what the transaction layer promises its users: a
  request is repeated until its count is used up, a repeated request is answered from the stored response,
  a response ends its request, and a response that nobody waits for leaves no trace.
\<close>

subsection \<open>Requests and responses of the node level (path.c)\<close>

text \<open>The message a builder returns, or NULL, is a parameter. All functions for requests have this body, and those for responses the next.\<close>

definition send_node_request :: "u8 \<Rightarrow> pfcp_conf \<Rightarrow> int \<Rightarrow> nat \<Rightarrow> 'c option \<Rightarrow> ogs_pkbuf option \<Rightarrow> 'c xstate \<Rightarrow> (status \<times> 'c xstate) option" where
  "send_node_request type c now nd cb built mw =
     do { (n, mw) \<leftarrow> ogs_pfcp_xact_local_create c nd cb mw;
          case built of
            None \<Rightarrow> Some (OGS_ERROR, mw)
          | Some pkbuf \<Rightarrow>
              do { (rv, mw) \<leftarrow> ogs_pfcp_xact_update_tx n type 0 pkbuf mw;
                   if rv \<noteq> OGS_OK then Some (OGS_ERROR, mw) else ogs_pfcp_xact_commit c now n mw } }"

definition send_node_response :: "u8 \<Rightarrow> pfcp_conf \<Rightarrow> int \<Rightarrow> nat \<Rightarrow> ogs_pkbuf option \<Rightarrow> 'c xstate \<Rightarrow> (status \<times> 'c xstate) option" where
  "send_node_response type c now n built mw =
     (case built of
        None \<Rightarrow> Some (OGS_ERROR, mw)
      | Some pkbuf \<Rightarrow>
          do { (rv, mw) \<leftarrow> ogs_pfcp_xact_update_tx n type 0 pkbuf mw;
               if rv \<noteq> OGS_OK then Some (OGS_ERROR, mw) else ogs_pfcp_xact_commit c now n mw })"

definition ogs_pfcp_send_heartbeat_request :: "pfcp_conf \<Rightarrow> int \<Rightarrow> nat \<Rightarrow> 'c option \<Rightarrow> ogs_pkbuf option \<Rightarrow> 'c xstate \<Rightarrow> (status \<times> 'c xstate) option" where
  "ogs_pfcp_send_heartbeat_request = send_node_request OGS_PFCP_HEARTBEAT_REQUEST_TYPE"

definition ogs_pfcp_send_heartbeat_response :: "pfcp_conf \<Rightarrow> int \<Rightarrow> nat \<Rightarrow> ogs_pkbuf option \<Rightarrow> 'c xstate \<Rightarrow> (status \<times> 'c xstate) option" where
  "ogs_pfcp_send_heartbeat_response c now n built mw =
     (case built of
        None \<Rightarrow> Some (OGS_ERROR, mw)
      | Some pkbuf \<Rightarrow>
          do { (rv, mw) \<leftarrow> ogs_pfcp_xact_update_tx n OGS_PFCP_HEARTBEAT_RESPONSE_TYPE 0 pkbuf mw;
               if rv \<noteq> OGS_OK then Some (OGS_ERROR, mw)
               else do { (rv, mw) \<leftarrow> ogs_pfcp_xact_commit c now n mw;
                         mw \<leftarrow> ogs_pfcp_xact_delete n mw;
                         Some (rv, mw) } })"

definition ogs_pfcp_cp_send_association_setup_request :: "pfcp_conf \<Rightarrow> int \<Rightarrow> nat \<Rightarrow> 'c option \<Rightarrow> ogs_pkbuf option \<Rightarrow> 'c xstate \<Rightarrow> (status \<times> 'c xstate) option" where
  "ogs_pfcp_cp_send_association_setup_request = send_node_request OGS_PFCP_ASSOCIATION_SETUP_REQUEST_TYPE"

definition ogs_pfcp_cp_send_association_setup_response :: "pfcp_conf \<Rightarrow> int \<Rightarrow> nat \<Rightarrow> ogs_pkbuf option \<Rightarrow> 'c xstate \<Rightarrow> (status \<times> 'c xstate) option" where
  "ogs_pfcp_cp_send_association_setup_response = send_node_response OGS_PFCP_ASSOCIATION_SETUP_RESPONSE_TYPE"

definition ogs_pfcp_up_send_association_setup_request :: "pfcp_conf \<Rightarrow> int \<Rightarrow> nat \<Rightarrow> 'c option \<Rightarrow> ogs_pkbuf option \<Rightarrow> 'c xstate \<Rightarrow> (status \<times> 'c xstate) option" where
  "ogs_pfcp_up_send_association_setup_request = send_node_request OGS_PFCP_ASSOCIATION_SETUP_REQUEST_TYPE"

definition ogs_pfcp_up_send_association_setup_response :: "pfcp_conf \<Rightarrow> int \<Rightarrow> nat \<Rightarrow> ogs_pkbuf option \<Rightarrow> 'c xstate \<Rightarrow> (status \<times> 'c xstate) option" where
  "ogs_pfcp_up_send_association_setup_response = send_node_response OGS_PFCP_ASSOCIATION_SETUP_RESPONSE_TYPE"

subsection \<open>Sequence numbers and headers\<close>

lemma unat_pred: "unat (r :: u8) = Suc n \<Longrightarrow> unat (r - 1) = n"
  by (simp add: unat_sub_if')

lemma sqn_round_trip: "OGS_PFCP_XID_TO_SQN (OGS_PFCP_SQN_TO_XID [a, b, c, 0]) = [a, b, c, 0]"
proof -
  have "push_bit 8 (drop_bit 8 (rd32 a b c 0)) = rd32 a b c 0"
  proof (rule bit_word_eqI)
    fix n assume "n < LENGTH(32)"
    show "bit (push_bit 8 (drop_bit 8 (rd32 a b c 0))) n = bit (rd32 a b c 0) n"
      by (cases "n < 8") (auto simp: rd32_def bit_simps)
  qed
  then show ?thesis by (simp add: OGS_PFCP_XID_TO_SQN_def)
qed

lemma sqn_be32: "OGS_PFCP_SQN_TO_XID (be32 y) = drop_bit 8 y"
  by (simp add: be32_def)

lemma xid_round_trip:
  assumes "x < 2 ^ 24" shows "OGS_PFCP_SQN_TO_XID (OGS_PFCP_XID_TO_SQN x) = x"
proof -
  have "unat x < 2 ^ 24" using assms by (simp add: word_less_nat_alt)
  then have "drop_bit 8 (push_bit 8 x) = x" using bit_small [of x 24] by (intro bit_word_eqI) (auto simp: bit_simps)
  then show ?thesis by (simp add: OGS_PFCP_XID_TO_SQN_def sqn_be32)
qed

subsection \<open>Effect of the node-level functions\<close>

lemma find_append_None: "find P xs = None \<Longrightarrow> P y \<Longrightarrow> find P (xs @ [y]) = Some y"
  by (induction xs) (auto split: if_splits)

lemma next_addr_in: "node_ok p \<Longrightarrow> next_addr p \<in> set (addr_list p)"
  by (auto simp: node_ok_def next_addr_def split: option.splits)

text \<open>A transaction that has just been created runs no timer.\<close>

lemma step0_calm:
  assumes "xinv N nx m w" "k \<in> live (xpool w)" "x_step (xacts w k) = 0" "t \<in> set (timers_of (xacts w k))"
  shows "\<not> t_running (m_timers m t)"
proof -
  obtain d where d: "id_of d = ids (xpool w) ! k" "tm_of d (xacts w k) = Some t" using xact_timers(6) [OF assms(1,2)] assms(4) by blast
  moreover have "\<not> may_fire d (xacts w k)" using assms(3) by (cases d) auto
  ultimately show ?thesis using xact_timer [OF assms(1,2) d(1)] by (metis option.inject)
qed

text \<open>The response timer until the end: one more transmission for each timeout, then the handler.\<close>

lemma response_retries:
  assumes "xinv N nx m w" "k \<in> live (xpool w)" "x_org (xacts w k) = OGS_PFCP_LOCAL_ORIGINATOR" "x_step (xacts w k) = 1"
    "unat (x_response_rcount (xacts w k)) = Suc n" "length nows = Suc n" "\<forall>now \<in> set nows. clock_ok c now" "\<forall>a. has_sock c a"
    "snd (x_seq (xacts w k) ! 0) = Some pk"
  shows "\<exists>m' w' as. foldM (\<lambda>now. response_timeout c now (ids (xpool w) ! k)) nows (m, w) = Some (m', w') \<and> xinv N nx m' w'
    \<and> live (xpool w') = live (xpool w) - {k} \<and> live (m_pool m') = live (m_pool m) - set (timers_of (xacts w k))
    \<and> length as = n \<and> set as \<subseteq> set (addr_list (pnodes w (x_node (xacts w k))))
    \<and> xouts w' = xouts w @ map (\<lambda>a. SentTo (x_node (xacts w k)) a (contents pk)) as
        @ (case x_cb (xacts w k) of Some f \<Rightarrow> [TimeoutHandler f k] | None \<Rightarrow> [])"
  using assms
proof (induction n arbitrary: m w nows)
  case 0
  obtain now where nows: "nows = [now]" using "0.prems"(6) by (auto simp: length_Suc_conv)
  have "x_response_rcount (xacts w k) = 1" using "0.prems"(5) by (simp add: word_unat_eq_iff)
  then obtain m' w' where "response_timeout c now (ids (xpool w) ! k) (m, w) = Some (m', w')" "xinv N nx m' w'"
    "live (xpool w') = live (xpool w) - {k}" "live (m_pool m') = live (m_pool m) - set (timers_of (xacts w k))"
    "xouts w' = xouts w @ (case x_cb (xacts w k) of Some f \<Rightarrow> [TimeoutHandler f k] | None \<Rightarrow> [])"
    using response_timeout_last [OF "0.prems"(1,2), of c now] "0.prems"(4) by auto
  then show ?case using nows by (intro exI [of _ m'] exI [of _ w'] exI [of _ "[]"]) simp
next
  case (Suc n)
  obtain now nows' where nows: "nows = now # nows'" "length nows' = Suc n" using Suc.prems(6) by (auto simp: length_Suc_conv)
  let ?x = "xacts w k" and ?nd = "x_node (xacts w k)"
  have u: "unat (x_response_rcount ?x - 1) = Suc n" using unat_pred [OF Suc.prems(5)] .
  then have r: "x_response_rcount ?x - 1 > 0" by (simp add: word_less_nat_alt)
  have c: "clock_ok c now" using Suc.prems(7) nows(1) by simp
  obtain m1 w1 where 1: "response_timeout c now (ids (xpool w) ! k) (m, w) = Some (m1, w1)" "xinv N nx m1 w1" "same_lists w w1"
    "xacts w1 = (xacts w)(k := ?x\<lparr>x_response_rcount := x_response_rcount ?x - 1\<rparr>)" "keeps_due (m, w) (m1, w1)"
    "xouts w1 = xouts w @ [SentTo ?nd (next_addr (pnodes w ?nd)) (contents pk)]"
    using response_timeout_again [OF Suc.prems(1-4) c r] Suc.prems(8,9) by (auto simp: Let_def)
  have p: "xpool w1 = xpool w" "addr_list (pnodes w1 ?nd) = addr_list (pnodes w ?nd)" using 1(3) by (simp_all add: same_lists_def)
  have tl: "timers_of (xacts w1 k) = timers_of ?x" by (simp add: 1(4) timers_of_def)
  have lm: "live (m_pool m1) = live (m_pool m)"
    unfolding run_timers(1) [OF 1(2)] run_timers(1) [OF Suc.prems(1)] p(1) by (rule SUP_cong) (simp_all add: 1(4) timers_of_def)
  have prem: "k \<in> live (xpool w1)" "x_org (xacts w1 k) = OGS_PFCP_LOCAL_ORIGINATOR" "x_step (xacts w1 k) = 1" "unat (x_response_rcount (xacts w1 k)) = Suc n"
    "\<forall>now \<in> set nows'. clock_ok c now" "snd (x_seq (xacts w1 k) ! 0) = Some pk" "x_node (xacts w1 k) = ?nd" "x_cb (xacts w1 k) = x_cb ?x"
    using Suc.prems u p(1) nows(1) by (simp_all add: 1(4))
  from Suc.IH [OF 1(2) prem(1-4) nows(2) prem(5) Suc.prems(8) prem(6)]
  obtain m' w' as where ih: "foldM (\<lambda>now. response_timeout c now (ids (xpool w) ! k)) nows' (m1, w1) = Some (m', w')" "xinv N nx m' w'"
    "live (xpool w') = live (xpool w) - {k}" "live (m_pool m') = live (m_pool m) - set (timers_of ?x)" "length as = n"
    "set as \<subseteq> set (addr_list (pnodes w ?nd))" "xouts w' = xouts w1 @ map (\<lambda>a. SentTo ?nd a (contents pk)) as
        @ (case x_cb ?x of Some f \<Rightarrow> [TimeoutHandler f k] | None \<Rightarrow> [])"
    unfolding p tl lm prem(7,8) by blast
  then show ?case using nows(1) 1(1,6) next_addr_in [OF xinvD(4) [OF Suc.prems(1) xinvD(9) [OF Suc.prems(1,2)]]]
    by (intro exI [of _ m'] exI [of _ w'] exI [of _ "next_addr (pnodes w ?nd) # as"]) simp
qed

text \<open>What a request function sends, and what it leaves behind when the message cannot be built.\<close>

lemma send_request_ok:
  assumes inv: "xinv N nx m w" and i: "id (xpool w) < OGS_MAX_POOL_ID" and room: "pool_repr (xpool w) (k # ks)" "pool_repr (m_pool m) (r # h # d # fs)"
    and t: "ogs_pfcp_xact_get_stage type = PFCP_XACT_INITIAL_STAGE" and pk: "pkbuf_ok pk" "pfcp_hlen type \<le> ogs_pkbuf_headroom pk"
    and c: "clock_ok c now" "\<forall>a. has_sock c a" and nd: "nd \<in> N"
  shows "\<exists>m' w' a. send_node_request type c now nd cb (Some pk) (m, w) = Some (OGS_OK, (m', w')) \<and> xinv N nx m' w'
    \<and> live (xpool w') = insert k (live (xpool w)) \<and> k \<notin> live (xpool w) \<and> x_step (xacts w' k) = 1 \<and> x_cb (xacts w' k) = cb \<and> x_node (xacts w' k) = nd
    \<and> x_org (xacts w' k) = OGS_PFCP_LOCAL_ORIGINATOR \<and> x_xid (xacts w' k) = OGS_NEXT_ID (g_xact_id w) PFCP_MIN_XACT_ID PFCP_MAX_XACT_ID
    \<and> local_list (pnodes w' nd) = local_list (pnodes w nd) @ [k] \<and> (\<forall>l. l \<noteq> k \<longrightarrow> xacts w' l = xacts w l)
    \<and> xouts w' = xouts w @ [SentTo nd a (pfcp_header type 0 (OGS_NEXT_ID (g_xact_id w) PFCP_MIN_XACT_ID PFCP_MAX_XACT_ID)
        (of_nat (pfcp_hlen type + pk_len pk - 4)) @ contents pk)]"
proof -
  obtain m1 w1 where cr: "ogs_pfcp_xact_local_create c nd cb (m, w) = Some (k, (m1, w1))" using create_returns(1) [OF inv i room] by blast
  note l = local_create_ok [OF inv i cr nd]
  have k: "k \<in> live (xpool w1)" using l(3) by simp
  have a: "tx_allowed (xacts w1 k) type = Some True" using l(4,5) t by (simp add: tx_allowed_def)
  obtain pk' where u: "ogs_pfcp_xact_update_tx k type 0 pk (m1, w1) = Some (OGS_OK, (m1, upd_xact k (tx_step type pk') w1))"
    "contents pk' = pfcp_header type 0 (x_xid (xacts w1 k)) (of_nat (pfcp_hlen type + pk_len pk - 4)) @ contents pk"
    using update_tx_ok [OF l(1) k a pk] by blast
  let ?w = "upd_xact k (tx_step type pk') w1"
  have x: "x_org (xacts ?w k) = OGS_PFCP_LOCAL_ORIGINATOR" "x_step (xacts ?w k) = 1" "x_seq (xacts ?w k) ! 0 = (type, Some pk')" "x_node (xacts ?w k) = nd"
    using l(4-8) by (simp_all add: tx_step_def)
  obtain m' w' where cm: "ogs_pfcp_xact_commit c now k (m1, ?w) = Some (OGS_OK, (m', w'))" "xinv N nx m' w'" "same_lists ?w w'" "xacts w' = xacts ?w"
    "xouts w' = xouts w @ [SentTo nd (next_addr (pnodes w1 nd)) (contents pk')]"
    using commit_request_ok [OF xinv_tx_step [OF l(1) k a] _ x(1,2) c(1)] k x(3,4) l(11) c(2) by (auto simp: Let_def)
  have "send_node_request type c now nd cb (Some pk) (m, w) = Some (OGS_OK, (m', w'))" using cr u(1) cm(1) by (simp add: send_node_request_def)
  then show ?thesis using cm l(2,3,7,9,12,14) u(2) x
    by (intro exI [of _ m'] exI [of _ w'] exI [of _ "next_addr (pnodes w1 nd)"]) (simp add: same_lists_def tx_step_def)
qed

text \<open>A new request of the peer gets a transaction, which the application gets.\<close>

lemma receive_request_ok:
  assumes inv: "xinv N nx m w" and c: "clock_ok c now" and st: "ogs_pfcp_xact_get_stage type = PFCP_XACT_INITIAL_STAGE"
    and new: "\<forall>k \<in> set (remote_list (pnodes w nd)). x_xid (xacts w k) \<noteq> OGS_PFCP_SQN_TO_XID sqn"
    and i: "id (xpool w) < OGS_MAX_POOL_ID" and room: "1 \<le> avail (xpool w)" "3 \<le> avail (m_pool m)" and nd: "nd \<in> N"
  shows "\<exists>k m' w'. ogs_pfcp_xact_receive c now nd type sqn (m, w) = Some (OGS_OK, Some k, (m', w')) \<and> xinv N nx m' w'
    \<and> live (xpool w') = insert k (live (xpool w)) \<and> k \<notin> live (xpool w) \<and> x_org (xacts w' k) = OGS_PFCP_REMOTE_ORIGINATOR \<and> x_step (xacts w' k) = 1
    \<and> x_seq (xacts w' k) = [(type, None), (0, None), (0, None)] \<and> x_xid (xacts w' k) = OGS_PFCP_SQN_TO_XID sqn \<and> x_node (xacts w' k) = nd
    \<and> xouts w' = xouts w \<and> (\<forall>l \<in> live (xpool w). xacts w' l = xacts w l)
    \<and> pnodes w' = (pnodes w)(nd := (pnodes w nd)\<lparr>remote_list := remote_list (pnodes w nd) @ [k]\<rparr>)"
proof -
  have "find (\<lambda>n. x_xid (xacts w n) = OGS_PFCP_SQN_TO_XID sqn) (remote_list (pnodes w nd)) = None" using new by (simp add: find_None_iff)
  then have eq: "ogs_pfcp_xact_receive c now nd type sqn (m, w) = ogs_pfcp_xact_remote_create c nd sqn (m, w) \<bind> (\<lambda>(n, mw). receive_on c now type n mw)"
    using receive_eq [of type c now nd sqn "(m, w)"] st by simp
  obtain k m1 w1 where cr: "ogs_pfcp_xact_remote_create c nd sqn (m, w) = Some (k, (m1, w1))"
    using receive_progress [OF inv c i room nd, of type sqn] eq by (cases "ogs_pfcp_xact_remote_create c nd sqn (m, w)") auto
  note l = remote_create_ok [OF inv i cr nd]
  obtain m' where u: "ogs_pfcp_xact_update_rx c now k type (m1, w1) = Some (OGS_OK, (m', upd_xact k (rx_step type) w1))" "xinv N nx m' (upd_xact k (rx_step type) w1)"
    using update_rx_request [OF l(1) _ c l(4,5) st] l(3) by auto
  have "rx_step type (xacts w1 k) = (xacts w1 k)\<lparr>x_seq := [(type, None), (0, None), (0, None)], x_step := 1\<rparr>"
    using l(5,7) by (simp add: rx_step_def numeral_3_eq_3)
  then show ?thesis using eq cr u l by (auto simp: receive_on_def)
qed

text \<open>The second step of a transaction of the peer: the response is stored and sent.\<close>

lemma respond_ok:
  assumes inv: "xinv N nx m w" and k: "k \<in> live (xpool w)" and x: "x_org (xacts w k) = OGS_PFCP_REMOTE_ORIGINATOR" "x_step (xacts w k) = 1"
    and t: "ogs_pfcp_xact_get_stage type = PFCP_XACT_FINAL_STAGE" and pk: "pkbuf_ok pk" "pfcp_hlen type \<le> ogs_pkbuf_headroom pk" and s: "\<forall>a. has_sock c a"
  shows "\<exists>w1 w2 a. ogs_pfcp_xact_update_tx k type seid pk (m, w) = Some (OGS_OK, (m, w1)) \<and> ogs_pfcp_xact_commit c now k (m, w1) = Some (OGS_OK, (m, w2))
    \<and> xinv N nx m w2 \<and> same_lists w w2 \<and> x_step (xacts w2 k) = 2 \<and> (\<forall>l. l \<noteq> k \<longrightarrow> xacts w2 l = xacts w l) \<and> same_slots (xacts w k) (xacts w2 k)
    \<and> x_xid (xacts w2 k) = x_xid (xacts w k) \<and> x_seq (xacts w2 k) ! 0 = x_seq (xacts w k) ! 0
    \<and> xouts w2 = xouts w @ [SentTo (x_node (xacts w k)) a (pfcp_header type seid (x_xid (xacts w k)) (of_nat (pfcp_hlen type + pk_len pk - 4)) @ contents pk)]"
proof -
  have a: "tx_allowed (xacts w k) type = Some True" using x t by (simp add: tx_allowed_def)
  obtain pk' where u: "ogs_pfcp_xact_update_tx k type seid pk (m, w) = Some (OGS_OK, (m, upd_xact k (tx_step type pk') w))"
    "contents pk' = pfcp_header type seid (x_xid (xacts w k)) (of_nat (pfcp_hlen type + pk_len pk - 4)) @ contents pk"
    using update_tx_ok [OF inv k a pk] by blast
  let ?w = "upd_xact k (tx_step type pk') w"
  have sq: "length (x_seq (xacts w k)) = 3" using xinvD(7) [OF inv k] by (simp add: xshape_def)
  have y: "x_step (xacts ?w k) = 2" "x_org (xacts ?w k) = OGS_PFCP_REMOTE_ORIGINATOR" "x_node (xacts ?w k) = x_node (xacts w k)"
    "x_seq (xacts ?w k) ! 1 = (type, Some pk')" "x_seq (xacts ?w k) ! 0 = x_seq (xacts w k) ! 0" "x_xid (xacts ?w k) = x_xid (xacts w k)"
    using x sq by (simp_all add: tx_step_def)
  have "commit_action_of (xacts ?w k) type = SendOnly" "seq_at (xacts ?w k) (x_step (xacts ?w k) - 1) = Some (type, Some pk')"
    using y t by (simp_all add: commit_action_of_def)
  from commit_send_ok [OF xinv_tx_step [OF inv k a] _ this, of c now] k
  obtain w2 where "ogs_pfcp_xact_commit c now k (m, ?w) = Some (OGS_OK, (m, w2))" "xinv N nx m w2" "same_lists ?w w2" "xacts w2 = xacts ?w"
    "xouts w2 = xouts w @ [SentTo (x_node (xacts w k)) (next_addr (pnodes w (x_node (xacts w k)))) (contents pk')]"
    using s y(3) by (auto simp: Let_def)
  then show ?thesis using u y tx_step_ok(2) [OF a xinvD(7) [OF inv k]]
    by (intro exI [of _ ?w] exI [of _ w2] exI [of _ "next_addr (pnodes w (x_node (xacts w k)))"]) auto
qed

text \<open>A heartbeat request of the peer and its answer, and the end of a request.\<close>

lemma heartbeat_answer_ok:
  assumes inv: "xinv N nx m w" and a: "clock_ok c now" "clock_ok c now'" "\<forall>a. has_sock c a"
    "\<forall>k \<in> set (remote_list (pnodes w nd)). x_xid (xacts w k) \<noteq> OGS_PFCP_SQN_TO_XID [s1, s2, s3, 0]"
    "id (xpool w) < OGS_MAX_POOL_ID" "1 \<le> avail (xpool w)" "3 \<le> avail (m_pool m)" "pkbuf_ok pk" "8 \<le> ogs_pkbuf_headroom pk" "nd \<in> N"
  shows "\<exists>k mw1 m2 w2 a. ogs_pfcp_xact_receive c now nd OGS_PFCP_HEARTBEAT_REQUEST_TYPE [s1, s2, s3, 0] (m, w) = Some (OGS_OK, Some k, mw1)
    \<and> ogs_pfcp_send_heartbeat_response c now' k (Some pk) mw1 = Some (OGS_OK, (m2, w2))
    \<and> xouts w2 = xouts w @ [SentTo nd a ([0x20, 2] @ be16 (of_nat (4 + pk_len pk)) @ [s1, s2, s3, 0] @ contents pk)]
    \<and> live (xpool w2) = live (xpool w) \<and> live (m_pool m2) = live (m_pool m) \<and> xinv N nx m2 w2"
proof -
  have st: "ogs_pfcp_xact_get_stage OGS_PFCP_HEARTBEAT_REQUEST_TYPE = PFCP_XACT_INITIAL_STAGE" "ogs_pfcp_xact_get_stage OGS_PFCP_HEARTBEAT_RESPONSE_TYPE = PFCP_XACT_FINAL_STAGE"
    by (simp_all add: ogs_pfcp_xact_get_stage_def pfcp_const_defs)
  obtain k m1 w1 where 1: "ogs_pfcp_xact_receive c now nd OGS_PFCP_HEARTBEAT_REQUEST_TYPE [s1, s2, s3, 0] (m, w) = Some (OGS_OK, Some k, (m1, w1))" "xinv N nx m1 w1"
    "live (xpool w1) = insert k (live (xpool w))" "k \<notin> live (xpool w)" "x_org (xacts w1 k) = OGS_PFCP_REMOTE_ORIGINATOR" "x_step (xacts w1 k) = 1"
    "x_xid (xacts w1 k) = OGS_PFCP_SQN_TO_XID [s1, s2, s3, 0]" "x_node (xacts w1 k) = nd" "xouts w1 = xouts w" "\<forall>l \<in> live (xpool w). xacts w1 l = xacts w l"
    using receive_request_ok [OF inv a(1) st(1) a(4-7,10)] by blast
  have k: "k \<in> live (xpool w1)" using 1(3) by simp
  have hl: "pfcp_hlen OGS_PFCP_HEARTBEAT_RESPONSE_TYPE = 8" by (simp add: pfcp_hlen_def pfcp_const_defs)
  have hd: "pfcp_header OGS_PFCP_HEARTBEAT_RESPONSE_TYPE 0 (OGS_PFCP_SQN_TO_XID [s1, s2, s3, 0]) len = [0x20, 2] @ be16 len @ [s1, s2, s3, 0]" for len
    by (simp only: pfcp_header_def sqn_round_trip) (simp add: pfcp_const_defs)
  obtain w2 w3 ad where 2: "ogs_pfcp_xact_update_tx k OGS_PFCP_HEARTBEAT_RESPONSE_TYPE 0 pk (m1, w1) = Some (OGS_OK, (m1, w2))"
    "ogs_pfcp_xact_commit c now' k (m1, w2) = Some (OGS_OK, (m1, w3))" "xinv N nx m1 w3" "same_lists w1 w3" "\<forall>l. l \<noteq> k \<longrightarrow> xacts w3 l = xacts w1 l"
    "xouts w3 = xouts w @ [SentTo nd ad ([0x20, 2] @ be16 (of_nat (4 + pk_len pk)) @ [s1, s2, s3, 0] @ contents pk)]"
    using respond_ok [OF 1(2) k 1(5,6) st(2) a(8), of c 0 now'] a(3,9) hl by (auto simp: 1(7,8,9) hd simp del: OGS_PFCP_SQN_TO_XID.simps)
  have p: "xpool w3 = xpool w1" using 2(4) by (simp add: same_lists_def)
  obtain m4 w4 where 4: "ogs_pfcp_xact_delete k (m1, w3) = Some (m4, w4)" "xinv N nx m4 w4" "live (xpool w4) = live (xpool w3) - {k}" "xacts w4 = xacts w3" "xouts w4 = xouts w3"
    using xact_delete_ok [OF 2(3), of k] k p by auto
  have lv: "live (xpool w4) = live (xpool w)" using 4(3) p 1(3,4) by auto
  have "xacts w4 l = xacts w l" if "l \<in> live (xpool w)" for l using that 4(4) 2(5) 1(4,10) by (cases "l = k") auto
  then have "live (m_pool m4) = live (m_pool m)" unfolding run_timers(1) [OF inv] run_timers(1) [OF 4(2)] lv by (intro SUP_cong) simp_all
  then show ?thesis using 1(1) 2(1,2,6) 4(1,2,5) lv
    by (intro exI [of _ k] exI [of _ "(m1, w1)"] exI [of _ m4] exI [of _ w4] exI [of _ ad]) (simp add: ogs_pfcp_send_heartbeat_response_def)
qed

lemma response_complete_ok:
  assumes inv: "xinv N nx m w" and a: "ogs_pfcp_xact_get_stage type = PFCP_XACT_FINAL_STAGE"
    "find (\<lambda>n. x_xid (xacts w n) = OGS_PFCP_SQN_TO_XID sqn) (local_list (pnodes w nd)) = Some k" "x_step (xacts w k) = 1"
  shows "\<exists>m1 w1 m2 w2. ogs_pfcp_xact_receive c now nd type sqn (m, w) = Some (OGS_OK, Some k, (m1, w1))
    \<and> (\<forall>t. x_tm_response (xacts w1 k) = Some t \<longrightarrow> \<not> t_running (m_timers m1 t)) \<and> xouts w1 = xouts w
    \<and> ogs_pfcp_xact_commit c now' k (m1, w1) = Some (OGS_OK, (m2, w2)) \<and> xouts w2 = xouts w
    \<and> live (xpool w2) = live (xpool w) - {k} \<and> live (m_pool m2) = live (m_pool m) - set (timers_of (xacts w k))"
proof -
  have k: "k \<in> live (xpool w)" "x_org (xacts w k) = OGS_PFCP_LOCAL_ORIGINATOR" using find_in [OF a(2)] lists_okD(1) [OF inv] by auto
  let ?w = "upd_xact k (rx_step type) w"
  obtain m1 where 1: "rx_accept k type (m, w) = Some (OGS_OK, (m1, ?w))" "xinv N nx m1 ?w" "m_pool m1 = m_pool m" "\<not> t_running (m_timers m1 (timers_of (xacts w k) ! 0))"
    using rx_accept_ok [OF inv k(1)] k(2) a(1,3) by blast
  have rv: "ogs_pfcp_xact_receive c now nd type sqn (m, w) = Some (OGS_OK, Some k, (m1, ?w))"
    using receive_eq [of type c now nd sqn "(m, w)"] a k(2) 1(1) by (simp add: receive_on_def ogs_pfcp_xact_update_rx_def)
  have sq: "length (x_seq (xacts w k)) = 3" using xinvD(7) [OF inv k(1)] by (simp add: xshape_def)
  have tl: "timers_of (xacts ?w k) = timers_of (xacts w k)" by (simp add: timers_of_def rx_step_def)
  have cm: "ogs_pfcp_xact_commit c now' k (m1, ?w) = map_option (Pair OGS_OK) (ogs_pfcp_xact_delete k (m1, ?w))"
    by (rule commit_delete [OF 1(2), where v = "(type, snd (x_seq (xacts w k) ! 1))"]) (use k a(1,3) sq in \<open>simp_all add: rx_step_def commit_action_of_def\<close>)
  obtain m2 w2 where 2: "ogs_pfcp_xact_delete k (m1, ?w) = Some (m2, w2)" "live (xpool w2) = live (xpool w) - {k}" "xouts w2 = xouts w"
    "live (m_pool m2) = live (m_pool m) - set (timers_of (xacts w k))"
    using xact_delete_ok [OF 1(2), of k] k(1) 1(3) tl by auto
  have "x_tm_response (xacts ?w k) = Some (timers_of (xacts w k) ! 0)" using xact_timers(1) [OF inv k(1)] by (simp add: rx_step_def)
  then show ?thesis using rv 1(4) cm 2 by auto
qed

subsection \<open>Properties\<close>


definition sample_pk :: ogs_pkbuf where
  "sample_pk = \<lparr>buf = replicate 16 0 @ [0, 96, 0, 4, 1, 2, 3, 4], pk_data = 16, pk_tail = 24, pk_len = 8\<rparr>"

lemma sample_pk_ok: "pkbuf_ok sample_pk" "pfcp_hlen type \<le> ogs_pkbuf_headroom sample_pk" "contents sample_pk = [0, 96, 0, 4, 1, 2, 3, 4]" "pk_len sample_pk = 8"
  by (simp_all add: sample_pk_def pkbuf_ok_def ogs_pkbuf_headroom_def pfcp_hlen_def contents_def OGS_PFCP_HEADER_LEN_def)

text \<open>A heartbeat request that has been stored, but not yet committed.\<close>

lemma sample_request:
  "\<exists>m w. xact_run sample_conf 2 (m, w) \<and> 0 \<in> live (xpool w) \<and> x_org (xacts w 0) = OGS_PFCP_LOCAL_ORIGINATOR \<and> x_step (xacts w 0) = 1
     \<and> unat (x_response_rcount (xacts w 0)) = 3 \<and> x_cb (xacts w 0) = Some ''node'' \<and> x_node (xacts w 0) = 0 \<and> xouts w = [] \<and> x_xid (xacts w 0) = 1
     \<and> local_list (pnodes w 0) = [0]"
proof -
  obtain m w where r: "ogs_pfcp_xact_local_create sample_conf 0 (Some ''node'') (sample_tmgr, sample_xacts) = Some (0, (m, w))" "xact_run sample_conf 2 (m, w)"
    using sample_created by blast
  have inv: "xinv UNIV 2 sample_tmgr sample_xacts" "xinv UNIV 2 m w" using xact_run_inv [OF sample_run] xact_run_inv [OF r(2)] by simp_all
  have lt: "id (xpool sample_xacts) < OGS_MAX_POOL_ID" using sample_room(3,4) by simp
  note l = local_create_ok [OF inv(1) lt r(1) UNIV_I]
  have k: "0 \<in> live (xpool w)" using l(3) by simp
  have a: "tx_allowed (xacts w 0) OGS_PFCP_HEARTBEAT_REQUEST_TYPE = Some True" using l(4,5) by (simp add: tx_allowed_def ogs_pfcp_xact_get_stage_def pfcp_const_defs)
  obtain pk where u: "ogs_pfcp_xact_update_tx 0 OGS_PFCP_HEARTBEAT_REQUEST_TYPE 0 sample_pk (m, w)
      = Some (OGS_OK, (m, upd_xact 0 (tx_step OGS_PFCP_HEARTBEAT_REQUEST_TYPE pk) w))"
    using update_tx_ok [OF inv(2) k a sample_pk_ok(1,2)] by blast
  have "xact_run sample_conf 2 (m, upd_xact 0 (tx_step OGS_PFCP_HEARTBEAT_REQUEST_TYPE pk) w)"
    using xact_run.update_tx [OF r(2) _ u] k by simp
  then show ?thesis using l k
    by (intro exI [of _ m] exI [of _ "upd_xact 0 (tx_step OGS_PFCP_HEARTBEAT_REQUEST_TYPE pk) w"])
      (simp add: tx_step_def sample_conf_simps sample_xacts_def ogs_pfcp_xact_init_def OGS_NEXT_ID_def pfcp_const_defs)
qed


text \<open>C27. A request of the peer that is received again while its transaction exists is not given to the application a second time: the stored response is sent
  again if there is one, and nothing is sent if there is none yet. No transaction changes.\<close>

theorem pfcp_duplicate_request:
  assumes "xact_run c nx (m, w)" "clock_ok c now" "ogs_pfcp_xact_get_stage type = PFCP_XACT_INITIAL_STAGE" "\<forall>a. has_sock c a"
    "find (\<lambda>n. x_xid (xacts w n) = OGS_PFCP_SQN_TO_XID sqn) (remote_list (pnodes w nd)) = Some k" "fst (x_seq (xacts w k) ! 0) = type"
  shows "\<exists>m' w'. ogs_pfcp_xact_receive c now nd type sqn (m, w) = Some (OGS_RETRY, None, (m', w')) \<and> xacts w' = xacts w \<and> live (xpool w') = live (xpool w)
    \<and> (x_step (xacts w k) = 1 \<and> xouts w' = xouts w
       \<or> x_step (xacts w k) = 2 \<and> (\<exists>pk a. snd (x_seq (xacts w k) ! 1) = Some pk \<and> xouts w' = xouts w @ [SentTo nd a (contents pk)]))"
proof -
  have inv: "xinv UNIV nx m w" using xact_run_inv [OF assms(1)] by simp
  have k: "k \<in> live (xpool w)" "x_org (xacts w k) \<noteq> OGS_PFCP_LOCAL_ORIGINATOR" "x_node (xacts w k) = nd"
    using find_in [OF assms(5)] lists_okD(2) [OF inv] by auto
  have n: "type \<noteq> 0" using stage_nonzero(1) assms(3) by simp
  have x: "x_org (xacts w k) = OGS_PFCP_REMOTE_ORIGINATOR" "x_step (xacts w k) = 1 \<and> snd (x_seq (xacts w k) ! 1) = None
      \<or> x_step (xacts w k) = 2 \<and> snd (x_seq (xacts w k) ! 1) \<noteq> None"
    using xinvD(7) [OF inv k(1)] k(2) assms(6) n by (auto simp: xshape_def)
  have s: "x_step (xacts w k) \<ge> 1" using x(2) by auto
  obtain m' w' where r: "retransmit c now k 1 (m, w) = Some (OGS_RETRY, (m', w'))" "same_lists w w'" "xacts w' = xacts w"
    "xouts w' = xouts w @ (case snd (x_seq (xacts w k) ! 1) of None \<Rightarrow> [] | Some pk \<Rightarrow> [SentTo nd (next_addr (pnodes w nd)) (contents pk)])"
    using retransmit_ok [OF inv k(1) s assms(2), of 1] assms(4) k(3) by (auto simp: Let_def cong: option.case_cong)
  have "ogs_pfcp_xact_update_rx c now k type (m, w) = Some (OGS_RETRY, (m', w'))"
    using r(1) x assms(3,6) by (auto simp: ogs_pfcp_xact_update_rx_def)
  then have "ogs_pfcp_xact_receive c now nd type sqn (m, w) = Some (OGS_RETRY, None, (m', w'))"
    using receive_eq [of type c now nd sqn "(m, w)"] assms(3,5) by (simp add: receive_on_def)
  then show ?thesis using r x(2) by (auto simp: same_lists_def)
qed

text \<open>A response that no pending request has the sequence number of, such as one that comes after the request was given up, is refused, and
  afterwards everything is as before: the same transactions on the same lists, the same timers in use, nothing sent.\<close>

theorem pfcp_unexpected_response:
  assumes "xact_run c nx (m, w)" "clock_ok c now" "ogs_pfcp_xact_get_stage type = PFCP_XACT_FINAL_STAGE"
    "\<forall>k \<in> set (local_list (pnodes w nd)). x_xid (xacts w k) \<noteq> OGS_PFCP_SQN_TO_XID sqn"
    "id (xpool w) < OGS_MAX_POOL_ID" "1 \<le> avail (xpool w)" "3 \<le> avail (m_pool m)"
  shows "\<exists>m' w'. ogs_pfcp_xact_receive c now nd type sqn (m, w) = Some (OGS_ERROR, None, (m', w')) \<and> live (xpool w') = live (xpool w)
    \<and> (\<forall>k \<in> live (xpool w). xacts w' k = xacts w k) \<and> pnodes w' = pnodes w \<and> live (m_pool m') = live (m_pool m) \<and> xouts w' = xouts w"
proof -
  have inv: "xinv UNIV nx m w" using xact_run_inv [OF assms(1)] by simp
  have st: "ogs_pfcp_xact_get_stage type \<noteq> PFCP_XACT_UNKNOWN_STAGE" using assms(3) by simp
  have "find (\<lambda>n. x_xid (xacts w n) = OGS_PFCP_SQN_TO_XID sqn) (local_list (pnodes w nd)) = None" using assms(4) by (simp add: find_None_iff)
  then have eq: "ogs_pfcp_xact_receive c now nd type sqn (m, w) = ogs_pfcp_xact_remote_create c nd sqn (m, w) \<bind> (\<lambda>(n, mw). receive_on c now type n mw)"
    using receive_eq [OF st, of c now nd sqn "(m, w)"] assms(3) by simp
  obtain k m1 w1 where cr: "ogs_pfcp_xact_remote_create c nd sqn (m, w) = Some (k, (m1, w1))"
    using receive_progress [OF inv assms(2,5-7) UNIV_I, where nd = nd and type = type and sqn = sqn] eq by (cases "ogs_pfcp_xact_remote_create c nd sqn (m, w)") auto
  note l = remote_create_ok [OF inv assms(5) cr UNIV_I]
  have rx: "ogs_pfcp_xact_update_rx c now k type (m1, w1) = Some (OGS_ERROR, (m1, w1))" using l(4,5) assms(3) by (simp add: ogs_pfcp_xact_update_rx_def)
  obtain m' w' where d: "ogs_pfcp_xact_delete k (m1, w1) = Some (m', w')" "xinv UNIV nx m' w'" "live (xpool w') = live (xpool w1) - {k}" "xacts w' = xacts w1"
    "xouts w' = xouts w1" "\<forall>nd. pnodes w' nd = (pnodes w1 nd)\<lparr>local_list := remove1 k (local_list (pnodes w1 nd)), remote_list := remove1 k (remote_list (pnodes w1 nd))\<rparr>"
    using xact_delete_ok [OF l(1), of k] l(3) by blast
  have lv: "live (xpool w') = live (xpool w)" using d(3) l(2,3) by auto
  have xs: "xacts w' j = xacts w j" if "j \<in> live (xpool w)" for j using that l(2,10) d(4) by (cases "j = k") auto
  have "k \<notin> set (local_list (pnodes w n)) \<and> k \<notin> set (remote_list (pnodes w n))" for n using l(2) lists_okD(1,2) [OF inv] by blast
  then have "pnodes w' n = pnodes w n" for n using d(6) l(11) by (simp add: remove1_idem remove1_append)
  moreover have "live (m_pool m') = live (m_pool m)" unfolding run_timers(1) [OF inv] run_timers(1) [OF d(2)] lv by (rule SUP_cong) (simp_all add: xs)
  ultimately show ?thesis using eq cr rx d(1,5) lv xs l(9) by (auto simp: receive_on_def)
qed

text \<open>A heartbeat request of the peer is answered: the application gets a new transaction for it, \<open>ogs_pfcp_send_heartbeat_response\<close> sends one datagram to the
  peer's node, a heartbeat response with the sequence number of the request and the built message behind the header, and no transaction remains.\<close>

theorem pfcp_heartbeat_answered:
  assumes "xact_run c nx (m, w)" "clock_ok c now" "clock_ok c now'" "\<forall>a. has_sock c a"
    "\<forall>k \<in> set (remote_list (pnodes w nd)). x_xid (xacts w k) \<noteq> OGS_PFCP_SQN_TO_XID [s1, s2, s3, 0]"
    "id (xpool w) < OGS_MAX_POOL_ID" "1 \<le> avail (xpool w)" "3 \<le> avail (m_pool m)" "pkbuf_ok pk" "8 \<le> ogs_pkbuf_headroom pk"
  shows "\<exists>k mw1 m2 w2 a. ogs_pfcp_xact_receive c now nd OGS_PFCP_HEARTBEAT_REQUEST_TYPE [s1, s2, s3, 0] (m, w) = Some (OGS_OK, Some k, mw1)
    \<and> ogs_pfcp_send_heartbeat_response c now' k (Some pk) mw1 = Some (OGS_OK, (m2, w2))
    \<and> xouts w2 = xouts w @ [SentTo nd a ([0x20, 2] @ be16 (of_nat (4 + pk_len pk)) @ [s1, s2, s3, 0] @ contents pk)]
    \<and> live (xpool w2) = live (xpool w) \<and> live (m_pool m2) = live (m_pool m)"
  using heartbeat_answer_ok [OF _ assms(2-10) UNIV_I] xact_run_inv [OF assms(1)] by fastforce

lemma sample_empty: "set (remote_list (pnodes sample_xacts n)) = {}" "set (local_list (pnodes sample_xacts n)) = {}" "1 \<le> avail (xpool sample_xacts)" "3 \<le> avail (m_pool sample_tmgr)"
  "xouts sample_xacts = []"
  using sample_room(1,2) by (simp_all add: pool_repr_def sample_xacts_def ogs_pfcp_xact_init_def)

theorem pfcp_heartbeat_answered_witness:
  "\<exists>k mw1 m2 w2 a. ogs_pfcp_xact_receive sample_conf 0 0 OGS_PFCP_HEARTBEAT_REQUEST_TYPE [0, 0, 9, 0] (sample_tmgr, sample_xacts) = Some (OGS_OK, Some k, mw1)
    \<and> ogs_pfcp_send_heartbeat_response sample_conf 1 k (Some sample_pk) mw1 = Some (OGS_OK, (m2, w2))
    \<and> xouts w2 = [SentTo 0 a [0x20, 2, 0, 12, 0, 0, 9, 0, 0, 96, 0, 4, 1, 2, 3, 4]]"
proof -
  have p: "\<forall>k \<in> set (remote_list (pnodes sample_xacts 0)). x_xid (xacts sample_xacts k) \<noteq> OGS_PFCP_SQN_TO_XID [0, 0, 9, 0]" "id (xpool sample_xacts) < OGS_MAX_POOL_ID"
    "8 \<le> ogs_pkbuf_headroom sample_pk" "\<forall>a. has_sock sample_conf a"
    using sample_room(3,4) by (simp_all add: sample_empty sample_conf_simps sample_pk_def ogs_pkbuf_headroom_def)
  have c: "clock_ok sample_conf 0" "clock_ok sample_conf 1" by (simp_all add: sample_clock)
  from pfcp_heartbeat_answered [OF sample_run c p(4,1,2) sample_empty(3,4) sample_pk_ok(1) p(3)] show ?thesis
    by (simp add: sample_empty(5) sample_pk_ok be16_def) blast
qed

text \<open>C28. A response ends its request: the application gets the transaction of the request with that sequence number, whose response timer no longer runs; committing it
  sends nothing, and releases the transaction with its timers.\<close>

theorem pfcp_response_completes:
  assumes "xact_run c nx (m, w)" "clock_ok c now" "ogs_pfcp_xact_get_stage type = PFCP_XACT_FINAL_STAGE"
    "find (\<lambda>n. x_xid (xacts w n) = OGS_PFCP_SQN_TO_XID sqn) (local_list (pnodes w nd)) = Some k" "x_step (xacts w k) = 1"
  shows "\<exists>m1 w1 m2 w2. ogs_pfcp_xact_receive c now nd type sqn (m, w) = Some (OGS_OK, Some k, (m1, w1))
    \<and> (\<forall>t. x_tm_response (xacts w1 k) = Some t \<longrightarrow> \<not> t_running (m_timers m1 t)) \<and> xouts w1 = xouts w
    \<and> ogs_pfcp_xact_commit c now' k (m1, w1) = Some (OGS_OK, (m2, w2)) \<and> xouts w2 = xouts w
    \<and> live (xpool w2) = live (xpool w) - {k} \<and> live (m_pool m2) = live (m_pool m) - set (timers_of (xacts w k))"
  using response_complete_ok [OF _ assms(3-5)] xact_run_inv [OF assms(1)] by fastforce

theorem pfcp_response_completes_witness:
  "\<exists>(m :: tm_data ogs_timer_mgr) w m1 w1 m2 w2. xact_run sample_conf 2 (m, w) \<and> x_cb (xacts w 0) = Some ''node''
     \<and> ogs_pfcp_xact_receive sample_conf 5 0 OGS_PFCP_HEARTBEAT_RESPONSE_TYPE [0, 0, 1, 0] (m, w) = Some (OGS_OK, Some 0, (m1, w1))
     \<and> ogs_pfcp_xact_commit sample_conf 6 0 (m1, w1) = Some (OGS_OK, (m2, w2)) \<and> 0 \<notin> live (xpool w2)"
proof -
  obtain m w where s: "xact_run sample_conf 2 (m, w)" "x_step (xacts w 0) = 1" "x_cb (xacts w 0) = Some ''node''" "x_xid (xacts w 0) = 1" "local_list (pnodes w 0) = [0]"
    using sample_request by blast
  have "OGS_PFCP_SQN_TO_XID [0, 0, 1, 0] = 1" by (simp add: rd32_def push_bit_eq_mult drop_bit_eq_div)
  then have f: "find (\<lambda>n. x_xid (xacts w n) = OGS_PFCP_SQN_TO_XID [0, 0, 1, 0]) (local_list (pnodes w 0)) = Some 0" using s(4,5) by simp
  have "ogs_pfcp_xact_get_stage OGS_PFCP_HEARTBEAT_RESPONSE_TYPE = PFCP_XACT_FINAL_STAGE" by (simp add: ogs_pfcp_xact_get_stage_def pfcp_const_defs)
  moreover have "clock_ok sample_conf 5" by (simp add: sample_clock)
  ultimately obtain m1 w1 m2 w2 where
    "ogs_pfcp_xact_receive sample_conf 5 0 OGS_PFCP_HEARTBEAT_RESPONSE_TYPE [0, 0, 1, 0] (m, w) = Some (OGS_OK, Some 0, (m1, w1))"
    "ogs_pfcp_xact_commit sample_conf 6 0 (m1, w1) = Some (OGS_OK, (m2, w2))" "live (xpool w2) = live (xpool w) - {0}"
    using pfcp_response_completes [OF s(1) _ _ f s(2)] by blast
  then show ?thesis using s(1,3) by blast
qed

theorem pfcp_unexpected_response_witness:
  "\<exists>m' w'. ogs_pfcp_xact_receive sample_conf 0 0 OGS_PFCP_HEARTBEAT_RESPONSE_TYPE [0, 0, 1, 0] (sample_tmgr, sample_xacts) = Some (OGS_ERROR, None, (m', w')) \<and> xouts w' = []"
proof -
  have p: "\<forall>k \<in> set (local_list (pnodes sample_xacts 0)). x_xid (xacts sample_xacts k) \<noteq> OGS_PFCP_SQN_TO_XID [0, 0, 1, 0]" "id (xpool sample_xacts) < OGS_MAX_POOL_ID"
    using sample_room(3,4) by (simp_all add: sample_empty)
  have "ogs_pfcp_xact_get_stage OGS_PFCP_HEARTBEAT_RESPONSE_TYPE = PFCP_XACT_FINAL_STAGE" by (simp add: ogs_pfcp_xact_get_stage_def pfcp_const_defs)
  from pfcp_unexpected_response [OF sample_run sample_clock this p sample_empty(3,4), of 0] show ?thesis using sample_empty(5) by auto
qed

text \<open>A request received and then received again.\<close>

theorem pfcp_duplicate_request_witness:
  "\<exists>(m :: tm_data ogs_timer_mgr) (w :: string pfcp_xacts) m' w'. xact_run sample_conf 2 (m, w)
     \<and> ogs_pfcp_xact_receive sample_conf 5 0 OGS_PFCP_HEARTBEAT_REQUEST_TYPE [0, 0, 9, 0] (m, w) = Some (OGS_RETRY, None, (m', w')) \<and> xacts w' = xacts w"
proof -
  have inv: "xinv UNIV 2 sample_tmgr sample_xacts" using xact_run_inv [OF sample_run] by simp
  have i: "id (xpool sample_xacts) < OGS_MAX_POOL_ID" using sample_room(3,4) by simp
  have st: "ogs_pfcp_xact_get_stage OGS_PFCP_HEARTBEAT_REQUEST_TYPE = PFCP_XACT_INITIAL_STAGE" by (simp add: ogs_pfcp_xact_get_stage_def pfcp_const_defs)
  have c: "clock_ok sample_conf 0" "clock_ok sample_conf 5" "\<forall>a. has_sock sample_conf a" by (simp_all add: sample_clock sample_conf_simps)
  have nw: "\<forall>k \<in> set (remote_list (pnodes sample_xacts 0)). x_xid (xacts sample_xacts k) \<noteq> OGS_PFCP_SQN_TO_XID [0, 0, 9, 0]" by (simp add: sample_empty)
  obtain k m w where r: "ogs_pfcp_xact_receive sample_conf 0 0 OGS_PFCP_HEARTBEAT_REQUEST_TYPE [0, 0, 9, 0] (sample_tmgr, sample_xacts) = Some (OGS_OK, Some k, (m, w))"
    "x_seq (xacts w k) = [(OGS_PFCP_HEARTBEAT_REQUEST_TYPE, None), (0, None), (0, None)]" "x_xid (xacts w k) = OGS_PFCP_SQN_TO_XID [0, 0, 9, 0]"
    "pnodes w = (pnodes sample_xacts)(0 := (pnodes sample_xacts 0)\<lparr>remote_list := remote_list (pnodes sample_xacts 0) @ [k]\<rparr>)"
    using receive_request_ok [OF inv c(1) st nw i sample_empty(3,4) UNIV_I] by blast
  have run: "xact_run sample_conf 2 (m, w)" using xact_run.receive [OF sample_run _ c(1) r(1)] i by simp
  have "remote_list (pnodes w 0) = [k]" using r(4) sample_empty(1) by simp
  then have f: "find (\<lambda>n. x_xid (xacts w n) = OGS_PFCP_SQN_TO_XID [0, 0, 9, 0]) (remote_list (pnodes w 0)) = Some k" using r(3) by simp
  have "fst (x_seq (xacts w k) ! 0) = OGS_PFCP_HEARTBEAT_REQUEST_TYPE" using r(2) by simp
  from pfcp_duplicate_request [OF run c(2) st c(3) f this] show ?thesis using run by blast
qed

text \<open>C29. The header of every stored message identifies its transaction: from the bytes of the packet the peer reads back the type, the number of bytes that follow, the
  SEID of a session message, and a sequence number that gives the number of the transaction, which fits the field in every reachable state; the
  message itself is behind the header.\<close>

theorem pfcp_header_round_trip:
  assumes "xact_run c nx (m, w)" "k \<in> live (xpool w)" "tx_allowed (xacts w k) type = Some True" "pkbuf_ok pk" "pfcp_hlen type \<le> ogs_pkbuf_headroom pk" "pk_len pk < 65000"
  shows "\<exists>pk' w'. ogs_pfcp_xact_update_tx k type seid pk (m, w) = Some (OGS_OK, (m, w'))
    \<and> (let b = contents pk'; n = pfcp_hlen type in x_seq (xacts w' k) ! nat (x_step (xacts w k)) = (type, Some pk')
       \<and> b ! 1 = type \<and> unat (rd16 (b ! 2) (b ! 3)) = length b - 4 \<and> (b ! 0 AND 1 = 1 \<longleftrightarrow> n = 16) \<and> (n = 16 \<longrightarrow> take 8 (drop 4 b) = be64 seid)
       \<and> OGS_PFCP_SQN_TO_XID (take 4 (drop (n - 4) b)) = x_xid (xacts w k) \<and> drop n b = contents pk)"
proof -
  have inv: "xinv UNIV nx m w" using xact_run_inv [OF assms(1)] by simp
  note sh = xinvD(7) [OF inv assms(2)]
  let ?n = "pfcp_hlen type"
  obtain pk' where u: "ogs_pfcp_xact_update_tx k type seid pk (m, w) = Some (OGS_OK, (m, upd_xact k (tx_step type pk') w))"
    "contents pk' = pfcp_header type seid (x_xid (xacts w k)) (of_nat (?n + pk_len pk - 4)) @ contents pk"
    using update_tx_ok [OF inv assms(2-5)] by blast
  have "length (x_seq (xacts w k)) = 3" "x_step (xacts w k) \<in> {0, 1, 2}" using sh tx_allowed_cases [OF assms(3) sh] by (auto simp: xshape_def)
  then have st: "x_seq (xacts (upd_xact k (tx_step type pk') w) k) ! nat (x_step (xacts w k)) = (type, Some pk')" by (auto simp: tx_step_def)
  have x: "x_xid (xacts w k) < 2 ^ 24" using sh by (simp add: xshape_def)
  have l: "length (contents pk') = ?n + pk_len pk" using u(2) length_contents [OF assms(4)] by simp
  define len :: u16 where "len = of_nat (?n + pk_len pk - 4)"
  have n: "?n = 16 \<and> type \<ge> OGS_PFCP_SESSION_ESTABLISHMENT_REQUEST_TYPE \<or> ?n = 8 \<and> \<not> type \<ge> OGS_PFCP_SESSION_ESTABLISHMENT_REQUEST_TYPE"
    by (simp add: pfcp_hlen_def OGS_PFCP_HEADER_LEN_def OGS_PFCP_SEID_LEN_def)
  then have "?n + pk_len pk - 4 < 2 ^ 16" using assms(6) by auto
  then have len: "unat len = length (contents pk') - 4" unfolding len_def l using unat_of_nat_small [of "?n + pk_len pk - 4", where ?'a = 16] by simp
  have sq: "length (OGS_PFCP_XID_TO_SQN x) = 4" for x by (simp add: OGS_PFCP_XID_TO_SQN_def)
  have b: "contents pk' = (if ?n = 16 then [0x21, type] @ be16 len @ be64 seid @ OGS_PFCP_XID_TO_SQN (x_xid (xacts w k)) @ contents pk
      else [0x20, type] @ be16 len @ OGS_PFCP_XID_TO_SQN (x_xid (xacts w k)) @ contents pk)"
    using u(2) n unfolding len_def [symmetric] by (auto simp: pfcp_header_def OGS_PFCP_VERSION_def push_bit_eq_mult)
  have e: "length (be64 seid) = 8" "OGS_PFCP_SQN_TO_XID (OGS_PFCP_XID_TO_SQN (x_xid (xacts w k))) = x_xid (xacts w k)"
    using xid_round_trip [OF x] by (simp_all add: be64_def)
  have "contents pk' ! 1 = type" "rd16 (contents pk' ! 2) (contents pk' ! 3) = len" using b by (simp_all add: be16_def numeral_2_eq_2 numeral_3_eq_3)
  moreover have "contents pk' ! 0 AND 1 = 1 \<longleftrightarrow> ?n = 16" "?n = 16 \<longrightarrow> take 8 (drop 4 (contents pk')) = be64 seid" using b e(1) by (simp_all add: be16_def)
  moreover have "take 4 (drop (?n - 4) (contents pk')) = OGS_PFCP_XID_TO_SQN (x_xid (xacts w k))" "drop ?n (contents pk') = contents pk"
    using b n e(1) sq by (auto simp: be16_def)
  ultimately show ?thesis using u(1) st len e(2) by (auto simp: Let_def)
qed

theorem pfcp_header_round_trip_witness:
  "\<exists>m w pk' w'. ogs_pfcp_xact_local_create sample_conf 0 (Some ''node'') (sample_tmgr, sample_xacts) = Some (0, (m, w))
     \<and> ogs_pfcp_xact_update_tx 0 OGS_PFCP_SESSION_ESTABLISHMENT_REQUEST_TYPE 7 sample_pk (m, w) = Some (OGS_OK, (m, w'))
     \<and> OGS_PFCP_SQN_TO_XID (take 4 (drop 12 (contents pk'))) = 1 \<and> drop 16 (contents pk') = contents sample_pk"
proof -
  obtain m w where r: "ogs_pfcp_xact_local_create sample_conf 0 (Some ''node'') (sample_tmgr, sample_xacts) = Some (0, (m, w))" "xact_run sample_conf 2 (m, w)"
    using sample_created by blast
  have inv: "xinv UNIV 2 sample_tmgr sample_xacts" using xact_run_inv [OF sample_run] by simp
  have lt: "id (xpool sample_xacts) < OGS_MAX_POOL_ID" using sample_room(3,4) by simp
  note l = local_create_ok [OF inv lt r(1) UNIV_I]
  have h: "pfcp_hlen OGS_PFCP_SESSION_ESTABLISHMENT_REQUEST_TYPE = 16" by (simp add: pfcp_hlen_def pfcp_const_defs)
  have a: "0 \<in> live (xpool w)" "tx_allowed (xacts w 0) OGS_PFCP_SESSION_ESTABLISHMENT_REQUEST_TYPE = Some True" "x_xid (xacts w 0) = 1" "pk_len sample_pk < 65000"
    using l(3,4,5,9) sample_pk_ok(4) by (simp_all add: tx_allowed_def ogs_pfcp_xact_get_stage_def pfcp_const_defs OGS_NEXT_ID_def sample_xacts_def ogs_pfcp_xact_init_def)
  from pfcp_header_round_trip [OF r(2) a(1,2) sample_pk_ok(1,2) a(4), of 7] show ?thesis using r(1) a(3) unfolding h Let_def by auto
qed

text \<open>When the message of a request cannot be built, the request functions return \<open>OGS_ERROR\<close> and leave the transaction they have created behind: it is on the list of its node
  and keeps its three timers, none of which runs, so no timeout will ever remove it.\<close>

theorem pfcp_request_failure_leaks:
  assumes "xact_run c nx (m, w)" "id (xpool w) < OGS_MAX_POOL_ID" "1 \<le> avail (xpool w)" "3 \<le> avail (m_pool m)"
  shows "\<exists>k m' w'. ogs_pfcp_send_heartbeat_request c now nd cb None (m, w) = Some (OGS_ERROR, (m', w')) \<and> k \<notin> live (xpool w) \<and> live (xpool w') = insert k (live (xpool w))
    \<and> k \<in> set (local_list (pnodes w' nd)) \<and> (\<forall>t \<in> set (timers_of (xacts w' k)). t \<in> live (m_pool m') \<and> \<not> t_running (m_timers m' t)) \<and> card (live (m_pool m')) = card (live (m_pool m)) + 3"
proof -
  have inv: "xinv UNIV nx m w" using xact_run_inv [OF assms(1)] by simp
  obtain k m' w' where cr: "ogs_pfcp_xact_local_create c nd cb (m, w) = Some (k, (m', w'))"
    using pools_room [OF inv assms(3,4)] create_returns(1) [OF inv assms(2)] by metis
  note l = local_create_ok [OF inv assms(2) cr UNIV_I]
  have k: "k \<in> live (xpool w')" using l(3) by simp
  have "finite (live (xpool w))" by (simp add: live_def)
  then have "card (live (xpool w')) = Suc (card (live (xpool w)))" using l(2,3) by simp
  then have "card (live (m_pool m')) = card (live (m_pool m)) + 3" using run_timers(2) [OF inv] run_timers(2) [OF l(1)] by simp
  moreover have "k \<in> set (local_list (pnodes w' nd))" using l(14) by simp
  moreover have "t \<in> live (m_pool m') \<and> \<not> t_running (m_timers m' t)" if "t \<in> set (timers_of (xacts w' k))" for t
    using that xact_timers(4) [OF l(1) k] step0_calm [OF l(1) k l(5)] by blast
  ultimately show ?thesis using cr l(2,3) by (auto simp: ogs_pfcp_send_heartbeat_request_def send_node_request_def)
qed

theorem pfcp_request_failure_leaks_witness:
  "\<exists>k m' w'. ogs_pfcp_send_heartbeat_request sample_conf 0 0 None None (sample_tmgr, sample_xacts) = Some (OGS_ERROR, (m', w')) \<and> k \<in> set (local_list (pnodes w' 0))"
  using pfcp_request_failure_leaks [OF sample_run _ sample_empty(3,4), of 0 0 None] sample_room(3,4) by auto

text \<open>Datagrams to a PFCP node go to its addresses in turn: with sockets that take them, the \<open>i\<close>-th of a series goes to the \<open>i\<close>-th address from the current
  one on, starting again at the first after the last.\<close>

theorem pfcp_sendto_round_robin:
  assumes "node_ok (pnodes w nd)" "\<forall>a. has_sock c a" "\<forall>i. tx_ok c i"
  shows "\<exists>w'. foldM (\<lambda>pk w. map_option snd (ogs_pfcp_sendto c nd pk w)) pks w = Some w'
    \<and> xouts w' = xouts w @ map (\<lambda>i. SentTo nd (addr_list (pnodes w nd) ! (((case current_addr (pnodes w nd) of None \<Rightarrow> 0 | Some s \<Rightarrow> s) + i) mod length (addr_list (pnodes w nd))))
        (contents (pks ! i))) [0..<length pks]"
  using assms(1)
proof (induction pks arbitrary: w)
  case (Cons pk pks)
  let ?as = "addr_list (pnodes w nd)"
  define s where "s = (case current_addr (pnodes w nd) of None \<Rightarrow> 0 | Some s \<Rightarrow> s)"
  have s: "s < length ?as" using Cons.prems by (auto simp: s_def node_ok_def split: option.splits)
  then have ne: "?as \<noteq> []" by auto
  have wrap: "(if s + 1 < length ?as then s + 1 else 0) = Suc s mod length ?as" using s by (cases "Suc s = length ?as") auto
  obtain w1 where 1: "ogs_pfcp_sendto c nd pk w = Some (OGS_OK, w1)" "xouts w1 = xouts w @ [SentTo nd (?as ! s) (contents pk)]"
    "addr_list (pnodes w1 nd) = ?as" "current_addr (pnodes w1 nd) = Some (Suc s mod length ?as)"
    using s ne assms(2,3) by (auto simp: ogs_pfcp_sendto_def s_def [symmetric] wrap [symmetric] Let_def)
  have "node_ok (pnodes w1 nd)" using 1(3,4) ne by (auto simp: node_ok_def intro!: mod_less_divisor)
  from Cons.IH [OF this] obtain w' where w': "foldM (\<lambda>pk w. map_option snd (ogs_pfcp_sendto c nd pk w)) pks w1 = Some w'"
    "xouts w' = xouts w1 @ map (\<lambda>i. SentTo nd (?as ! ((Suc s mod length ?as + i) mod length ?as)) (contents (pks ! i))) [0..<length pks]"
    unfolding 1(3,4) by auto
  have "xouts w' = xouts w @ map (\<lambda>i. SentTo nd (?as ! ((s + i) mod length ?as)) (contents ((pk # pks) ! i))) [0..<length (pk # pks)]"
    using s w'(2) 1(2) by (simp add: upt_conv_Cons map_Suc_upt [symmetric] mod_simps del: upt_Suc)
  then show ?case using 1(1) w'(1) unfolding s_def [symmetric] by (simp del: upt_Suc)
qed simp

theorem pfcp_sendto_round_robin_witness:
  "\<exists>w'. foldM (\<lambda>pk w. map_option snd (ogs_pfcp_sendto sample_conf 0 pk w)) [sample_pk, sample_pk, sample_pk] sample_xacts = Some w'
     \<and> xouts w' = [SentTo 0 (SockAddr4 0x7F000001 8805) (contents sample_pk), SentTo 0 (SockAddr4 0x7F000002 8805) (contents sample_pk), SentTo 0 (SockAddr4 0x7F000001 8805) (contents sample_pk)]"
proof -
  have "node_ok (pnodes sample_xacts 0)" "pnodes sample_xacts 0 = \<lparr>local_list = [], remote_list = [],
      addr_list = [SockAddr4 0x7F000001 8805, SockAddr4 0x7F000002 8805], current_addr = None\<rparr>"
    by (simp_all add: sample_xacts_def ogs_pfcp_xact_init_def node_ok_def)
  moreover have "[0..<length [sample_pk, sample_pk, sample_pk]] = [0, 1, 2]" by (simp add: upt_rec)
  ultimately show ?thesis
    using pfcp_sendto_round_robin [of sample_xacts 0 sample_conf "[sample_pk, sample_pk, sample_pk]"] sample_empty(5) sample_conf_simps(5,6) by simp
qed

text \<open>Removing a PFCP node's transactions removes all of them and no others.\<close>

theorem pfcp_delete_all_clears:
  assumes "xact_run c nx (m, w)"
  shows "\<exists>m' w'. ogs_pfcp_xact_delete_all nd (m, w) = Some (m', w') \<and> local_list (pnodes w' nd) = [] \<and> remote_list (pnodes w' nd) = []
    \<and> live (xpool w') = {k \<in> live (xpool w). x_node (xacts w k) \<noteq> nd} \<and> xouts w' = xouts w"
proof -
  have inv: "xinv UNIV nx m w" using xact_run_inv [OF assms] by simp
  obtain m' w' where d: "ogs_pfcp_xact_delete_all nd (m, w) = Some (m', w')" "xinv UNIV nx m' w'" "xacts w' = xacts w" "xouts w' = xouts w"
    "live (xpool w') = {k \<in> live (xpool w). x_node (xacts w k) \<noteq> nd}" using delete_all_ok [OF inv, of nd] by blast
  have "k \<notin> set (local_list (pnodes w' nd)) \<and> k \<notin> set (remote_list (pnodes w' nd))" for k using lists_okD(1,2) [OF d(2), of k nd] d(3,5) by auto
  then have "local_list (pnodes w' nd) = []" "remote_list (pnodes w' nd) = []" by (meson last_in_set)+
  then show ?thesis using d by simp
qed

theorem pfcp_delete_all_clears_witness:
  "\<exists>m w m' w'. ogs_pfcp_xact_local_create sample_conf 0 (Some ''node'') (sample_tmgr, sample_xacts) = Some (0, (m, w))
     \<and> ogs_pfcp_xact_delete_all 0 (m, w) = Some (m', w') \<and> local_list (pnodes w' 0) = []"
proof -
  obtain m w where r: "ogs_pfcp_xact_local_create sample_conf 0 (Some ''node'') (sample_tmgr, sample_xacts) = Some (0, (m, w))" "xact_run sample_conf 2 (m, w)"
    using sample_created by blast
  then show ?thesis using pfcp_delete_all_clears [OF r(2), of 0] by auto
qed

text \<open>C14. A heartbeat between two network functions, each with its own transactions, of which the new number is unused: the one sends a request; the other, given type and
  sequence number at their places in the bytes of the datagram, gets a new transaction and sends a response; the first, given type and sequence
  number of that, gets its transaction back. At the end both have the transactions they had before, and have sent one datagram each.\<close>

theorem pfcp_heartbeat_exchange:
  fixes wa :: "'a pfcp_xacts" and wb :: "'b pfcp_xacts"
  assumes run: "xact_run ca na (ma, wa)" "xact_run cb nb (mb, wb)"
    and room_a: "id (xpool wa) < OGS_MAX_POOL_ID" "1 \<le> avail (xpool wa)" "3 \<le> avail (m_pool ma)"
    and room_b: "id (xpool wb) < OGS_MAX_POOL_ID" "1 \<le> avail (xpool wb)" "3 \<le> avail (m_pool mb)"
    and clock: "clock_ok ca t1" "clock_ok cb t2" "clock_ok cb t3" and sock: "\<forall>a. has_sock ca a" "\<forall>a. has_sock cb a"
    and pk: "pkbuf_ok pka" "8 \<le> ogs_pkbuf_headroom pka" "pkbuf_ok pkb" "8 \<le> ogs_pkbuf_headroom pkb"
    and unused: "\<forall>k \<in> set (local_list (pnodes wa na')). x_xid (xacts wa k) \<noteq> OGS_NEXT_ID (g_xact_id wa) PFCP_MIN_XACT_ID PFCP_MAX_XACT_ID"
      "\<forall>k \<in> set (remote_list (pnodes wb nb')). x_xid (xacts wb k) \<noteq> OGS_NEXT_ID (g_xact_id wa) PFCP_MIN_XACT_ID PFCP_MAX_XACT_ID"
  shows "\<exists>mwa1 mwb1 mwb2 mwa2 mwa3 ka kb q r aa ab.
      ogs_pfcp_send_heartbeat_request ca t1 na' f (Some pka) (ma, wa) = Some (OGS_OK, mwa1) \<and> xouts (snd mwa1) = xouts wa @ [SentTo na' aa q]
    \<and> ogs_pfcp_xact_receive cb t2 nb' (q ! 1) (take 4 (drop 4 q)) (mb, wb) = Some (OGS_OK, Some kb, mwb1)
    \<and> ogs_pfcp_send_heartbeat_response cb t3 kb (Some pkb) mwb1 = Some (OGS_OK, mwb2) \<and> xouts (snd mwb2) = xouts wb @ [SentTo nb' ab r]
    \<and> ogs_pfcp_xact_receive ca t4 na' (r ! 1) (take 4 (drop 4 r)) mwa1 = Some (OGS_OK, Some ka, mwa2)
    \<and> ogs_pfcp_xact_commit ca t5 ka mwa2 = Some (OGS_OK, mwa3)
    \<and> live (xpool (snd mwa3)) = live (xpool wa) \<and> live (xpool (snd mwb2)) = live (xpool wb) \<and> xouts (snd mwa3) = xouts (snd mwa1)"
proof -
  have inv: "xinv UNIV na ma wa" "xinv UNIV nb mb wb" using xact_run_inv [OF run(1)] xact_run_inv [OF run(2)] by simp_all
  let ?xid = "OGS_NEXT_ID (g_xact_id wa) PFCP_MIN_XACT_ID PFCP_MAX_XACT_ID"
  obtain s1 s2 s3 where sq: "OGS_PFCP_XID_TO_SQN ?xid = [s1, s2, s3, 0]"
  proof -
    have "ucast (push_bit 8 ?xid) = (0 :: u8)" by (rule bit_word_eqI) (simp add: bit_simps)
    then show ?thesis using that by (simp add: OGS_PFCP_XID_TO_SQN_def be32_def)
  qed
  have xid: "OGS_PFCP_SQN_TO_XID [s1, s2, s3, 0] = ?xid" using xid_round_trip [OF next_xid(2) [OF xinvD(8) [OF inv(1)]]] unfolding sq .
  have st: "ogs_pfcp_xact_get_stage OGS_PFCP_HEARTBEAT_REQUEST_TYPE = PFCP_XACT_INITIAL_STAGE" "ogs_pfcp_xact_get_stage 2 = PFCP_XACT_FINAL_STAGE"
    "pfcp_hlen OGS_PFCP_HEARTBEAT_REQUEST_TYPE = 8" by (simp_all add: ogs_pfcp_xact_get_stage_def pfcp_const_defs pfcp_hlen_def word_le_nat_alt)
  obtain ka ks r h d fs where p: "pool_repr (xpool wa) (ka # ks)" "pool_repr (m_pool ma) (r # h # d # fs)" using pools_room [OF inv(1) room_a(2,3)] .
  have hl: "pfcp_hlen OGS_PFCP_HEARTBEAT_REQUEST_TYPE \<le> ogs_pkbuf_headroom pka" using pk(2) st(3) by simp
  obtain ma1 wa1 aa where a1: "send_node_request OGS_PFCP_HEARTBEAT_REQUEST_TYPE ca t1 na' f (Some pka) (ma, wa) = Some (OGS_OK, (ma1, wa1))" "xinv UNIV na ma1 wa1"
    "live (xpool wa1) = insert ka (live (xpool wa))" "ka \<notin> live (xpool wa)" "x_step (xacts wa1 ka) = 1" "x_xid (xacts wa1 ka) = ?xid"
    "local_list (pnodes wa1 na') = local_list (pnodes wa na') @ [ka]" "\<forall>l. l \<noteq> ka \<longrightarrow> xacts wa1 l = xacts wa l"
    "xouts wa1 = xouts wa @ [SentTo na' aa (pfcp_header OGS_PFCP_HEARTBEAT_REQUEST_TYPE 0 ?xid (of_nat (pfcp_hlen OGS_PFCP_HEARTBEAT_REQUEST_TYPE + pk_len pka - 4)) @ contents pka)]"
    using send_request_ok [OF inv(1) room_a(1) p st(1) pk(1) hl clock(1) sock(1) UNIV_I, of na' f] by blast
  define q where "q = pfcp_header OGS_PFCP_HEARTBEAT_REQUEST_TYPE 0 ?xid (of_nat (pfcp_hlen OGS_PFCP_HEARTBEAT_REQUEST_TYPE + pk_len pka - 4)) @ contents pka"
  have q: "q ! 1 = OGS_PFCP_HEARTBEAT_REQUEST_TYPE" "take 4 (drop 4 q) = [s1, s2, s3, 0]"
    unfolding q_def pfcp_header_def sq by (simp_all add: pfcp_const_defs be16_def word_le_nat_alt)
  have "\<forall>k \<in> set (remote_list (pnodes wb nb')). x_xid (xacts wb k) \<noteq> OGS_PFCP_SQN_TO_XID [s1, s2, s3, 0]" using unused(2) xid by simp
  from heartbeat_answer_ok [OF inv(2) clock(2,3) sock(2) this room_b pk(3,4) UNIV_I]
  obtain kb mwb1 mb2 wb2 ab where b: "ogs_pfcp_xact_receive cb t2 nb' OGS_PFCP_HEARTBEAT_REQUEST_TYPE [s1, s2, s3, 0] (mb, wb) = Some (OGS_OK, Some kb, mwb1)"
    "ogs_pfcp_send_heartbeat_response cb t3 kb (Some pkb) mwb1 = Some (OGS_OK, (mb2, wb2))" "live (xpool wb2) = live (xpool wb)"
    "xouts wb2 = xouts wb @ [SentTo nb' ab ([0x20, 2] @ be16 (of_nat (4 + pk_len pkb)) @ [s1, s2, s3, 0] @ contents pkb)]" by blast
  define rs where "rs = [0x20, 2 :: u8] @ be16 (of_nat (4 + pk_len pkb)) @ [s1, s2, s3, 0] @ contents pkb"
  have rs: "rs ! 1 = 2" "take 4 (drop 4 rs) = [s1, s2, s3, 0]" by (simp_all add: rs_def be16_def)
  have "ka \<notin> set (local_list (pnodes wa na'))" using a1(4) lists_okD(1) [OF inv(1)] by blast
  then have "find (\<lambda>n. x_xid (xacts wa1 n) = ?xid) (local_list (pnodes wa na')) = None" using unused(1) a1(8) unfolding find_None_iff by metis
  then have f: "find (\<lambda>n. x_xid (xacts wa1 n) = OGS_PFCP_SQN_TO_XID [s1, s2, s3, 0]) (local_list (pnodes wa1 na')) = Some ka"
    unfolding a1(7) xid using a1(6) find_append_None by metis
  obtain ma2 wa2 ma3 wa3 where a2: "ogs_pfcp_xact_receive ca t4 na' 2 [s1, s2, s3, 0] (ma1, wa1) = Some (OGS_OK, Some ka, (ma2, wa2))"
    "ogs_pfcp_xact_commit ca t5 ka (ma2, wa2) = Some (OGS_OK, (ma3, wa3))" "xouts wa3 = xouts wa1" "live (xpool wa3) = live (xpool wa1) - {ka}"
    using response_complete_ok [OF a1(2) st(2) f a1(5), where c = ca and now = t4 and now' = t5] by blast
  have "live (xpool wa3) = live (xpool wa)" using a2(4) a1(3,4) by auto
  then show ?thesis
    using a1(1,9) b a2 q rs unfolding q_def [symmetric] rs_def [symmetric]
    by (intro exI [of _ "(ma1, wa1)"] exI [of _ mwb1] exI [of _ "(mb2, wb2)"] exI [of _ "(ma2, wa2)"] exI [of _ "(ma3, wa3)"] exI [of _ ka] exI [of _ kb]
        exI [of _ q] exI [of _ rs] exI [of _ aa] exI [of _ ab]) (simp only: ogs_pfcp_send_heartbeat_request_def snd_conv simp_thms)
qed

theorem pfcp_heartbeat_exchange_witness:
  "\<exists>mwa1 mwb1 mwb2 mwa2 mwa3 ka kb q r aa ab.
      ogs_pfcp_send_heartbeat_request sample_conf 0 0 (Some ''node'') (Some sample_pk) (sample_tmgr, sample_xacts) = Some (OGS_OK, mwa1) \<and> xouts (snd mwa1) = [SentTo 0 aa q]
    \<and> ogs_pfcp_xact_receive sample_conf 1 0 (q ! 1) (take 4 (drop 4 q)) (sample_tmgr, sample_xacts) = Some (OGS_OK, Some kb, mwb1)
    \<and> ogs_pfcp_send_heartbeat_response sample_conf 2 kb (Some sample_pk) mwb1 = Some (OGS_OK, mwb2) \<and> xouts (snd mwb2) = [SentTo 0 ab r]
    \<and> ogs_pfcp_xact_receive sample_conf 3 0 (r ! 1) (take 4 (drop 4 r)) mwa1 = Some (OGS_OK, Some ka, mwa2)
    \<and> ogs_pfcp_xact_commit sample_conf 4 ka mwa2 = Some (OGS_OK, mwa3)"
proof -
  have c: "clock_ok sample_conf 0" "clock_ok sample_conf 1" "clock_ok sample_conf 2" "\<forall>a. has_sock sample_conf a" "8 \<le> ogs_pkbuf_headroom sample_pk"
    "id (xpool sample_xacts) < OGS_MAX_POOL_ID"
    using sample_room(3,4) by (simp_all add: sample_clock sample_conf_simps sample_pk_def ogs_pkbuf_headroom_def)
  have u: "\<forall>k \<in> set (local_list (pnodes sample_xacts 0)). x_xid (xacts sample_xacts k) \<noteq> OGS_NEXT_ID (g_xact_id sample_xacts) PFCP_MIN_XACT_ID PFCP_MAX_XACT_ID"
    "\<forall>k \<in> set (remote_list (pnodes sample_xacts 0)). x_xid (xacts sample_xacts k) \<noteq> OGS_NEXT_ID (g_xact_id sample_xacts) PFCP_MIN_XACT_ID PFCP_MAX_XACT_ID"
    by (simp_all add: sample_empty)
  from pfcp_heartbeat_exchange [OF sample_run sample_run c(6) sample_empty(3,4) c(6) sample_empty(3,4) c(1,2,3,4,4) sample_pk_ok(1) c(5) sample_pk_ok(1) c(5) u, of "Some ''node''" 3 4]
  show ?thesis unfolding sample_empty(5) append_Nil by blast
qed

end
