(* ===== verification/Dnf.thy ===== *)
theory Dnf
  imports Ogs_Gtpu Ogs_Fsm
begin

section \<open>The DNF: forwarding data to the DOMF (src/dnf)\<close>

text \<open>
  The DNF keeps a list of sessions, one per tunnel, and forwards what arrives on its
  GTP-U socket to the DOMF under the session's TEID. \<open>dnf_self\<close> is the global context; the
  session list is an \<open>ogs_list_t\<close>, here the sequence it represents
  (\<open>Ogs_List\<close>). A pointer to a session is the session's \<open>id\<close>; one that is no longer in the list is
  dangling, and using it is \<open>None\<close>. The environment gives the time and the
  result of \<open>sendto\<close>; datagrams sent are returned.
\<close>

record dnf_sess =
  sess_id :: u64
  sess_index :: u32
  sess_teid :: u32
  ran_addr :: sockaddr
  domf_addr :: sockaddr
  rx_packets :: u64
  tx_packets :: u64
  rx_bytes :: u64
  tx_bytes :: u64
  active :: bool
  created :: int
  last_activity :: int

record dnf_self =
  sess_list :: "dnf_sess list"
  next_sess_id :: u64
  gtpu_port :: u16
  domf_port :: u16

record dnf_env =
  time_now :: int
  sendto :: "u8 list \<Rightarrow> sockaddr \<Rightarrow> int"

type_synonym datagram = "sockaddr \<times> u8 list"

definition OGS_MAX_PKT_LEN :: nat where "OGS_MAX_PKT_LEN = 2048"

subsection \<open>Sessions (context.c)\<close>

definition dnf_context_init :: "dnf_self \<Rightarrow> dnf_self" where
  "dnf_context_init self = self\<lparr>sess_list := [], next_sess_id := 0\<rparr>"

definition dnf_sess_add :: "dnf_env \<Rightarrow> u32 \<Rightarrow> sockaddr option \<Rightarrow> dnf_self
    \<Rightarrow> (dnf_sess \<times> dnf_self) option" where
  "dnf_sess_add env teid raddr self =
     do { r \<leftarrow> raddr;
          let i = next_sess_id self + 1;
          let sess = \<lparr>sess_id = i, sess_index = ucast i, sess_teid = teid, ran_addr = r,
                      domf_addr = \<lparr>sin_port = domf_port self, sin_addr = 0x7f000019\<rparr>,
                      rx_packets = 0, tx_packets = 0, rx_bytes = 0, tx_bytes = 0,
                      active = True, created = time_now env, last_activity = time_now env\<rparr>;
          Some (sess, self\<lparr>next_sess_id := i, sess_list := sess_list self @ [sess]\<rparr>) }"

definition dnf_sess_find_by_teid :: "u32 \<Rightarrow> dnf_self \<Rightarrow> dnf_sess option" where
  "dnf_sess_find_by_teid teid self = find (\<lambda>s. sess_teid s = teid) (sess_list self)"

definition dnf_sess_find_by_id :: "u64 \<Rightarrow> dnf_self \<Rightarrow> dnf_sess option" where
  "dnf_sess_find_by_id i self = find (\<lambda>s. sess_id s = i) (sess_list self)"

definition dnf_sess_remove :: "u64 \<Rightarrow> dnf_self \<Rightarrow> dnf_self option" where
  "dnf_sess_remove i self =
     do { s \<leftarrow> dnf_sess_find_by_id i self;
          Some (self\<lparr>sess_list := remove1 s (sess_list self)\<rparr>) }"

definition dnf_context_final :: "dnf_self \<Rightarrow> dnf_self option" where
  "dnf_context_final self = foldM (\<lambda>s. dnf_sess_remove (sess_id s)) (sess_list self) self"

definition update_sess :: "u64 \<Rightarrow> (dnf_sess \<Rightarrow> dnf_sess) \<Rightarrow> dnf_self \<Rightarrow> dnf_self" where
  "update_sess i f self =
     self\<lparr>sess_list := map (\<lambda>s. if sess_id s = i then f s else s) (sess_list self)\<rparr>"

subsection \<open>Forwarding (context.c, gtpu-path.c)\<close>

text \<open>\<open>dnf_gtpu_send\<close>: the datagram handed to \<open>sendto\<close>, and whether all of it was accepted.\<close>

definition dnf_gtpu_send :: "dnf_env \<Rightarrow> sockaddr \<Rightarrow> ogs_pkbuf \<Rightarrow> status \<times> datagram" where
  "dnf_gtpu_send env addr p =
     (let n = sendto env (contents p) addr
      in (if n < 0 \<or> n \<noteq> int (pk_len p) then OGS_ERROR else OGS_OK, (addr, contents p)))"

definition dnf_forward_data :: "dnf_env \<Rightarrow> u64 \<Rightarrow> ogs_pkbuf \<Rightarrow> dnf_self
    \<Rightarrow> (status \<times> datagram list \<times> dnf_self) option" where
  "dnf_forward_data env i pkbuf self =
     do { sess \<leftarrow> dnf_sess_find_by_id i self;
          let self = update_sess i (\<lambda>s. s\<lparr>rx_packets := rx_packets s + 1,
                       rx_bytes := rx_bytes s + of_nat (pk_len pkbuf),
                       last_activity := time_now env\<rparr>) self;
          let h = \<lparr>flags = 0, gtype = OGS_GTPU_MSGTYPE_GPDU, glength = of_nat (pk_len pkbuf),
                   gteid = sess_teid sess, sqn = 0\<rparr>;
          sendbuf \<leftarrow> ogs_pkbuf_copy pkbuf;
          sendbuf \<leftarrow> ogs_pkbuf_push OGS_GTPV2C_HEADER_LEN sendbuf;
          sendbuf \<leftarrow> write_at (pk_data sendbuf) (put_gtp2_header h) sendbuf;
          let (rv, dg) = dnf_gtpu_send env (domf_addr sess) sendbuf;
          let self = (if rv = OGS_OK then
                        update_sess i (\<lambda>s. s\<lparr>tx_packets := tx_packets s + 1,
                          tx_bytes := tx_bytes s + of_nat (pk_len pkbuf)\<rparr>) self
                      else self);
          Some (rv, [dg], self) }"

text \<open>
  \<open>dnf_gtpu_recv_cb\<close>: \<open>rcv\<close> is what \<open>recvfrom\<close> returns, a datagram of at most
  \<open>OGS_MAX_PKT_LEN\<close> bytes and its sender, or \<open>None\<close> on error.
\<close>

definition dnf_gtpu_recv_cb :: "dnf_env \<Rightarrow> (u8 list \<times> sockaddr) option \<Rightarrow> dnf_self
    \<Rightarrow> (datagram list \<times> dnf_self) option" where
  "dnf_gtpu_recv_cb env rcv self =
     (case rcv of
        None \<Rightarrow> Some ([], self)
      | Some (d, from) \<Rightarrow>
          if d = [] then Some ([], self)
          else do {
            pkbuf \<leftarrow> received OGS_MAX_PKT_LEN d;
            if pk_len pkbuf < OGS_GTPV2C_HEADER_LEN then Some ([], self)
            else do {
              h \<leftarrow> get_gtp2_header (contents pkbuf);
              let pkbuf = snd (ogs_pkbuf_pull OGS_GTPV2C_HEADER_LEN pkbuf);
              case dnf_sess_find_by_teid (gteid h) self of
                None \<Rightarrow> Some ([], self)
              | Some sess \<Rightarrow>
                  if gtype h = OGS_GTPU_MSGTYPE_GPDU then
                    do { (_, dgs, self) \<leftarrow> dnf_forward_data env (sess_id sess) pkbuf self;
                         Some (dgs, self) }
                  else if gtype h = OGS_GTPU_MSGTYPE_ECHO_REQ then
                    do { rsp \<leftarrow> ogs_gtp2_handle_echo_req pkbuf;
                         Some (case rsp of None \<Rightarrow> [] | Some r \<Rightarrow> [(from, r)], self) }
                  else Some ([], self) } })"

subsection \<open>State machine (dnf-sm.c)\<close>

definition DNF_EVT_NRF_REGISTER :: int where "DNF_EVT_NRF_REGISTER = OGS_MAX_NUM_OF_PROTO_EVENT + 1"
definition DNF_EVT_NRF_DEREGISTER :: int where "DNF_EVT_NRF_DEREGISTER = OGS_MAX_NUM_OF_PROTO_EVENT + 2"
definition DNF_EVT_DATA_FORWARD :: int where "DNF_EVT_DATA_FORWARD = OGS_MAX_NUM_OF_PROTO_EVENT + 3"
definition DNF_EVT_SESSION_CREATE :: int where "DNF_EVT_SESSION_CREATE = OGS_MAX_NUM_OF_PROTO_EVENT + 4"
definition DNF_EVT_SESSION_REMOVE :: int where "DNF_EVT_SESSION_REMOVE = OGS_MAX_NUM_OF_PROTO_EVENT + 5"

lemmas dnf_event_defs = proto_event_defs DNF_EVT_NRF_REGISTER_def DNF_EVT_NRF_DEREGISTER_def
  DNF_EVT_DATA_FORWARD_def DNF_EVT_SESSION_CREATE_def DNF_EVT_SESSION_REMOVE_def
  OGS_FSM_ENTRY_SIG_def OGS_FSM_EXIT_SIG_def OGS_FSM_USER_SIG_def

text \<open>The union of \<open>dnf_event_t\<close>; an event made without a payload is zeroed.\<close>

record dnf_event =
  df_sess :: "u64 option"
  df_pkbuf :: "ogs_pkbuf option"
  sc_teid :: u32
  sc_ran_addr :: "sockaddr option"
  sr_teid :: u32

text \<open>What the handlers ask of the SBI library, which is not modelled.\<close>

datatype sbi_action = NrfRegister | NrfDeregister | NrfFsmDispatch

datatype dnf_state = Initial | Operational | Final

record dnf_world =
  ctx :: dnf_self
  sent :: "datagram list"
  sbi :: "sbi_action list"

type_synonym dnf_result = "(dnf_state ogs_fsm \<times> dnf_world \<times> dnf_event fsm_event option) option"

text \<open>Both branches of \<open>dnf_nrf_register\<close> return \<open>OGS_OK\<close>.\<close>

definition dnf_nrf_register :: "dnf_world \<Rightarrow> status \<times> dnf_world" where
  "dnf_nrf_register w = (OGS_OK, w\<lparr>sbi := sbi w @ [NrfRegister]\<rparr>)"

definition dnf_nrf_deregister :: "dnf_world \<Rightarrow> dnf_world" where
  "dnf_nrf_deregister w = w\<lparr>sbi := sbi w @ [NrfDeregister]\<rparr>"

definition dnf_state_initial :: "dnf_state ogs_fsm \<Rightarrow> dnf_world \<Rightarrow> dnf_event fsm_event option \<Rightarrow> dnf_result" where
  "dnf_state_initial s w e =
     do { ev \<leftarrow> e;
          if ev_id ev = OGS_FSM_ENTRY_SIG \<or> ev_id ev = OGS_FSM_EXIT_SIG then Some (s, w, e)
          else if ev_id ev = DNF_EVT_NRF_REGISTER then
            (case dnf_nrf_register w of (rv, w) \<Rightarrow>
               if rv = OGS_OK then Some (OGS_FSM_TRAN Operational s, w, e) else Some (s, w, e))
          else if ev_id ev = OGS_EVENT_SBI_TIMER then Some (s, w\<lparr>sbi := sbi w @ [NrfFsmDispatch]\<rparr>, e)
          else Some (s, w, e) }"

definition dnf_state_final :: "dnf_state ogs_fsm \<Rightarrow> dnf_world \<Rightarrow> dnf_event fsm_event option \<Rightarrow> dnf_result" where
  "dnf_state_final s w e = do { ev \<leftarrow> e; Some (s, w, e) }"

definition dnf_state_operational :: "dnf_env \<Rightarrow> dnf_state ogs_fsm \<Rightarrow> dnf_world \<Rightarrow> dnf_event fsm_event option
    \<Rightarrow> dnf_result" where
  "dnf_state_operational env s w e =
     do { ev \<leftarrow> e;
          if ev_id ev = OGS_FSM_ENTRY_SIG \<or> ev_id ev = OGS_FSM_EXIT_SIG then Some (s, w, e)
          else if ev_id ev = DNF_EVT_NRF_DEREGISTER then
            Some (OGS_FSM_TRAN Final s, dnf_nrf_deregister w, e)
          else if ev_id ev = DNF_EVT_SESSION_CREATE then
            do { d \<leftarrow> ev_data ev;
                 (_, self') \<leftarrow> dnf_sess_add env (sc_teid d) (sc_ran_addr d) (ctx w);
                 Some (s, w\<lparr>ctx := self'\<rparr>, e) }
          else if ev_id ev = DNF_EVT_SESSION_REMOVE then
            do { d \<leftarrow> ev_data ev;
                 case dnf_sess_find_by_teid (sr_teid d) (ctx w) of
                   Some sess \<Rightarrow> do { self' \<leftarrow> dnf_sess_remove (sess_id sess) (ctx w);
                                      Some (s, w\<lparr>ctx := self'\<rparr>, e) }
                 | None \<Rightarrow> Some (s, w, e) }
          else if ev_id ev = DNF_EVT_DATA_FORWARD then
            do { d \<leftarrow> ev_data ev;
                 case (df_sess d, df_pkbuf d) of
                   (Some i, Some pkbuf) \<Rightarrow>
                     do { (_, dgs, self') \<leftarrow> dnf_forward_data env i pkbuf (ctx w);
                          Some (s, w\<lparr>ctx := self', sent := sent w @ dgs\<rparr>, e) }
                 | _ \<Rightarrow> Some (s, w, e) }
          else if ev_id ev = OGS_EVENT_SBI_TIMER then Some (s, w\<lparr>sbi := sbi w @ [NrfFsmDispatch]\<rparr>, e)
          else Some (s, w, e) }"

fun dnf_sem :: "dnf_env \<Rightarrow> (dnf_state, dnf_world, dnf_event) handlers" where
  "dnf_sem env Initial = dnf_state_initial"
| "dnf_sem env Operational = dnf_state_operational env"
| "dnf_sem env Final = dnf_state_final"

subsection \<open>Invariant\<close>

definition dnf_ok :: "dnf_self \<Rightarrow> bool" where
  "dnf_ok c \<longleftrightarrow> distinct (map sess_id (sess_list c))
     \<and> (\<forall>s \<in> set (sess_list c). 1 \<le> sess_id s \<and> sess_id s \<le> next_sess_id c)"

lemma dnf_ok_init [simp]: "dnf_ok (dnf_context_init c)"
  by (simp add: dnf_ok_def dnf_context_init_def)

lemma find_distinct:
  assumes "distinct (map f xs)" "x \<in> set xs"
  shows "find (\<lambda>y. f y = f x) xs = Some x"
  using assms by (induction xs) (auto simp: image_iff)

lemma find_append: "find P (xs @ ys) = (case find P xs of None \<Rightarrow> find P ys | Some x \<Rightarrow> Some x)"
  by (induction xs) auto

lemma find_mem: "find P xs = Some x \<Longrightarrow> x \<in> set xs \<and> P x"
  by (induction xs) (auto split: if_splits)

lemma dnf_find_by_id_mem:
  "dnf_ok c \<Longrightarrow> s \<in> set (sess_list c) \<Longrightarrow> dnf_sess_find_by_id (sess_id s) c = Some s"
  by (simp add: dnf_sess_find_by_id_def dnf_ok_def find_distinct)

lemma update_sess_ok:
  assumes "dnf_ok c" "\<And>s. sess_id (f s) = sess_id s"
  shows "dnf_ok (update_sess i f c)"
proof -
  have "map sess_id (sess_list (update_sess i f c)) = map sess_id (sess_list c)"
    using assms(2) by (simp add: update_sess_def)
  then show ?thesis
    using assms by (auto simp: dnf_ok_def update_sess_def simp del: map_map)
qed

lemma find_update_sess:
  assumes "\<And>s. sess_id (f s) = sess_id s" "dnf_sess_find_by_id i c = Some s"
  shows "dnf_sess_find_by_id i (update_sess i f c) = Some (f s)"
proof -
  have "find (\<lambda>s. sess_id s = i) (map (\<lambda>s. if sess_id s = i then f s else s) xs)
      = map_option f (find (\<lambda>s. sess_id s = i) xs)" for xs
    using assms(1) by (induction xs) auto
  then show ?thesis using assms(2) by (simp add: dnf_sess_find_by_id_def update_sess_def)
qed

lemma dnf_sess_add_correct:
  assumes "dnf_ok c" "next_sess_id c \<noteq> - 1"
  shows "\<exists>s c'. dnf_sess_add env t (Some a) c = Some (s, c') \<and> dnf_ok c' \<and> sess_teid s = t
    \<and> ran_addr s = a \<and> sess_list c' = sess_list c @ [s] \<and> sess_id s = next_sess_id c + 1
    \<and> next_sess_id c' = next_sess_id c + 1"
proof -
  have u: "unat (next_sess_id c + 1) = Suc (unat (next_sess_id c))"
    using assms(2) by (rule unat_Suc_no_wrap)
  have "\<forall>s \<in> set (sess_list c). sess_id s < next_sess_id c + 1"
    using assms(1) u by (auto simp: dnf_ok_def word_less_nat_alt word_le_nat_alt)
  moreover have "1 \<le> next_sess_id c + 1" using u by (simp add: word_le_nat_alt)
  ultimately show ?thesis
    using assms(1) by (fastforce simp: dnf_sess_add_def dnf_ok_def Let_def)
qed

subsection \<open>Forwarding\<close>

lemma dnf_forward_correct:
  assumes "dnf_ok c" "dnf_sess_find_by_id i c = Some s" "pkbuf_ok p" "12 \<le> ogs_pkbuf_headroom p"
  shows "\<exists>rv c' s'. dnf_forward_data env i p c = Some (rv, [(domf_addr s,
        [0, 255] @ be16 (of_nat (pk_len p)) @ be32 (sess_teid s) @ [0, 0, 0, 0] @ contents p)], c')
    \<and> dnf_ok c' \<and> dnf_sess_find_by_id i c' = Some s'
    \<and> rx_packets s' = rx_packets s + 1 \<and> rx_bytes s' = rx_bytes s + of_nat (pk_len p)
    \<and> sess_teid s' = sess_teid s \<and> domf_addr s' = domf_addr s
    \<and> (rv = OGS_OK \<longleftrightarrow> sendto env ([0, 255] @ be16 (of_nat (pk_len p)) @ be32 (sess_teid s) @ [0, 0, 0, 0]
         @ contents p) (domf_addr s) = int (12 + pk_len p))
    \<and> tx_packets s' = tx_packets s + (if rv = OGS_OK then 1 else 0)"
proof -
  let ?h = "\<lparr>flags = 0, gtype = OGS_GTPU_MSGTYPE_GPDU, glength = of_nat (pk_len p),
    gteid = sess_teid s, sqn = 0\<rparr>"
  have hdr: "put_gtp2_header ?h
      = [0, 255] @ be16 (of_nat (pk_len p)) @ be32 (sess_teid s) @ [0, 0, 0, 0]"
    by (simp add: put_gtp2_header_def OGS_GTPU_MSGTYPE_GPDU_def be32_def [of 0])
  have "buf p \<noteq> []" using assms(3,4) by (auto simp: pkbuf_ok_def ogs_pkbuf_headroom_def)
  then have cp: "ogs_pkbuf_copy p = Some p" by (rule copy_correct)
  obtain p1 p2 where p: "ogs_pkbuf_push 12 p = Some p1" "write_at (pk_data p1) (put_gtp2_header ?h) p1 = Some p2"
    "contents p2 = put_gtp2_header ?h @ contents p" "pk_len p2 = 12 + pk_len p"
    using push_write_correct [OF assms(3), of "put_gtp2_header ?h"] assms(4) by auto
  define g where "g = (\<lambda>s. s\<lparr>rx_packets := rx_packets s + 1, rx_bytes := rx_bytes s + of_nat (pk_len p),
    last_activity := time_now env\<rparr> :: dnf_sess)"
  define k where "k = (\<lambda>s. s\<lparr>tx_packets := tx_packets s + 1, tx_bytes := tx_bytes s + of_nat (pk_len p)\<rparr> :: dnf_sess)"
  have ids: "\<And>s. sess_id (g s) = sess_id s" "\<And>s. sess_id (k s) = sess_id s" by (simp_all add: g_def k_def)
  let ?c1 = "update_sess i g c" and ?c2 = "update_sess i k (update_sess i g c)"
  have ok: "dnf_ok ?c1" "dnf_ok ?c2" using update_sess_ok [OF _ ids(1)] update_sess_ok [OF _ ids(2)] assms(1) by auto
  have f1: "dnf_sess_find_by_id i ?c1 = Some (g s)" by (rule find_update_sess [OF ids(1) assms(2)])
  have f2: "dnf_sess_find_by_id i ?c2 = Some (k (g s))" by (rule find_update_sess [OF ids(2) f1])
  define r where "r = (if sendto env (contents p2) (domf_addr s) = int (12 + pk_len p) then OGS_OK else OGS_ERROR)"
  have r: "r = OGS_OK \<longleftrightarrow> sendto env (contents p2) (domf_addr s) = int (12 + pk_len p)"
    by (simp add: r_def)
  have send: "dnf_gtpu_send env (domf_addr s) p2 = (r, (domf_addr s, contents p2))"
    using p(4) by (auto simp: dnf_gtpu_send_def r_def Let_def)
  have "dnf_forward_data env i p c = Some (r, [(domf_addr s, contents p2)], if r = OGS_OK then ?c2 else ?c1)"
    using assms(2) cp p(1,2) send
    by (simp add: dnf_forward_data_def OGS_GTPV2C_HEADER_LEN_def g_def [symmetric] k_def [symmetric] Let_def)
  then show ?thesis
    using ok f1 f2 p(3) hdr r by (cases "r = OGS_OK") (simp_all add: g_def k_def)
qed

text \<open>What the receive callback does with a datagram that carries a full header.\<close>

lemma dnf_recv_header:
  assumes "12 \<le> length d" "length d \<le> OGS_MAX_PKT_LEN" "get_gtp2_header d = Some h"
  shows "\<exists>p. pkbuf_ok p \<and> ogs_pkbuf_headroom p = 12 \<and> contents p = drop 12 d \<and> pk_len p = length d - 12
    \<and> buf p = d @ replicate (OGS_MAX_PKT_LEN - length d) 0 \<and> pk_data p = 12
    \<and> dnf_gtpu_recv_cb env (Some (d, from)) c =
      (case dnf_sess_find_by_teid (gteid h) c of
         None \<Rightarrow> Some ([], c)
       | Some sess \<Rightarrow>
           if gtype h = OGS_GTPU_MSGTYPE_GPDU then
             do { (_, dgs, c) \<leftarrow> dnf_forward_data env (sess_id sess) p c; Some (dgs, c) }
           else if gtype h = OGS_GTPU_MSGTYPE_ECHO_REQ then
             do { rsp \<leftarrow> ogs_gtp2_handle_echo_req p;
                  Some (case rsp of None \<Rightarrow> [] | Some r \<Rightarrow> [(from, r)], c) }
           else Some ([], c))"
proof -
  let ?q = "\<lparr>buf = d @ replicate (OGS_MAX_PKT_LEN - length d) 0, pk_data = 0,
      pk_tail = length d, pk_len = length d\<rparr>"
  let ?p = "\<lparr>buf = d @ replicate (OGS_MAX_PKT_LEN - length d) 0, pk_data = 12,
      pk_tail = length d, pk_len = length d - 12\<rparr>"
  have "d \<noteq> []" using assms(1) by auto
  moreover have "contents ?q = d" by (simp add: contents_def)
  moreover have "ogs_pkbuf_pull 12 ?q = (True, ?p)" using assms(1) by (simp add: ogs_pkbuf_pull_def)
  moreover have "pkbuf_ok ?p \<and> ogs_pkbuf_headroom ?p = 12 \<and> contents ?p = drop 12 d"
    using assms(1,2) by (simp add: pkbuf_ok_def ogs_pkbuf_headroom_def contents_def)
  ultimately show ?thesis
    using received_correct [OF assms(2)] assms(1,3)
    by (intro exI [of _ ?p]) (simp add: dnf_gtpu_recv_cb_def OGS_GTPV2C_HEADER_LEN_def Let_def cong: option.case_cong)
qed

lemma dnf_recv_gpdu:
  assumes "dnf_ok c" "12 \<le> length d" "length d \<le> OGS_MAX_PKT_LEN" "get_gtp2_header d = Some h"
    and "gtype h = OGS_GTPU_MSGTYPE_GPDU" "dnf_sess_find_by_teid (gteid h) c = Some s"
  defines "out \<equiv> [0, 255] @ be16 (of_nat (length d - 12)) @ be32 (gteid h) @ [0, 0, 0, 0] @ drop 12 d"
  shows "\<exists>c' s'. dnf_gtpu_recv_cb env (Some (d, from)) c = Some ([(domf_addr s, out)], c')
    \<and> dnf_ok c' \<and> dnf_sess_find_by_id (sess_id s) c' = Some s'
    \<and> rx_packets s' = rx_packets s + 1 \<and> rx_bytes s' = rx_bytes s + of_nat (length d - 12)
    \<and> tx_packets s' = tx_packets s + (if sendto env out (domf_addr s) = int (length d) then 1 else 0)"
proof -
  have s: "s \<in> set (sess_list c)" "sess_teid s = gteid h"
    using assms(6) by (auto simp: dnf_sess_find_by_teid_def dest!: find_mem)
  have fi: "dnf_sess_find_by_id (sess_id s) c = Some s" using dnf_find_by_id_mem [OF assms(1) s(1)] .
  obtain p where p: "pkbuf_ok p" "ogs_pkbuf_headroom p = 12" "contents p = drop 12 d" "pk_len p = length d - 12"
    "dnf_gtpu_recv_cb env (Some (d, from)) c
       = do { (_, dgs, c) \<leftarrow> dnf_forward_data env (sess_id s) p c; Some (dgs, c) }"
    using dnf_recv_header [OF assms(2-4), of env "from" c] assms(5,6) by auto
  have "int (12 + (length d - 12)) = int (length d)" using assms(2) by simp
  then show ?thesis
    using dnf_forward_correct [OF assms(1) fi p(1), of env] p(2-5) s(2) by (auto simp: out_def)
qed

subsection \<open>Properties\<close>

text \<open>C33. A G-PDU that the DNF receives for a known tunnel is sent to that session's DOMF address as one
  datagram: a fresh 12-byte header with the session's TEID and the length of the rest, followed by
  the received bytes after the first twelve. The session's receive counters grow by one packet and
  that length, and its transmit counter exactly when \<open>sendto\<close> took the whole datagram.\<close>

theorem dnf_relays_gpdu:
  assumes "dnf_ok c" "12 \<le> length d" "length d \<le> OGS_MAX_PKT_LEN" "get_gtp2_header d = Some h"
    and "gtype h = OGS_GTPU_MSGTYPE_GPDU" "dnf_sess_find_by_teid (gteid h) c = Some s"
  defines "out \<equiv> [0, 255] @ be16 (of_nat (length d - 12)) @ be32 (gteid h) @ [0, 0, 0, 0] @ drop 12 d"
  shows "\<exists>c' s'. dnf_gtpu_recv_cb env (Some (d, from)) c = Some ([(domf_addr s, out)], c')
    \<and> dnf_ok c' \<and> dnf_sess_find_by_id (sess_id s) c' = Some s'
    \<and> rx_packets s' = rx_packets s + 1 \<and> rx_bytes s' = rx_bytes s + of_nat (length d - 12)
    \<and> tx_packets s' = tx_packets s + (if sendto env out (domf_addr s) = int (length d) then 1 else 0)"
  using dnf_recv_gpdu [OF assms(1-6)] by (simp add: out_def)

definition sample_env :: dnf_env where
  "sample_env = \<lparr>time_now = 5, sendto = \<lambda>bs a. int (length bs)\<rparr>"

definition sample_dnf :: dnf_self where
  "sample_dnf = snd (the (dnf_sess_add sample_env 7 (Some \<lparr>sin_port = 1, sin_addr = 2\<rparr>)
     \<lparr>sess_list = [], next_sess_id = 0, gtpu_port = 2152, domf_port = 2155\<rparr>))"

lemma sample_dnf_ok: "dnf_ok sample_dnf"
  by (simp add: sample_dnf_def dnf_sess_add_def dnf_ok_def Let_def)

theorem dnf_relays_gpdu_witness:
  "\<exists>c'. dnf_gtpu_recv_cb sample_env (Some ([0x30, 255, 0, 5, 0, 0, 0, 7, 1, 2, 3, 4, 5], \<lparr>sin_port = 1, sin_addr = 2\<rparr>))
      sample_dnf
    = Some ([(\<lparr>sin_port = 2155, sin_addr = 0x7f000019\<rparr>, [0, 255, 0, 1, 0, 0, 0, 7, 0, 0, 0, 0, 5])], c')"
proof -
  let ?d = "[0x30, 255, 0, 5, 0, 0, 0, 7, 1, 2, 3, 4, 5] :: u8 list"
  obtain h where h: "get_gtp2_header ?d = Some h" "gtype h = OGS_GTPU_MSGTYPE_GPDU" "gteid h = 7"
    by (auto simp: OGS_GTPU_MSGTYPE_GPDU_def rd32_def)
  obtain s where s: "dnf_sess_find_by_teid 7 sample_dnf = Some s"
    "domf_addr s = \<lparr>sin_port = 2155, sin_addr = 0x7f000019\<rparr>"
    by (auto simp: dnf_sess_find_by_teid_def sample_dnf_def dnf_sess_add_def Let_def)
  show ?thesis
    using dnf_relays_gpdu [OF sample_dnf_ok _ _ h(1,2), of s sample_env] h(3) s
    by (fastforce simp: OGS_MAX_PKT_LEN_def be16_def be32_def)
qed

text \<open>C40. The DNF takes a 12-byte GTPv2 header off GTP-U packets, whose header has 8 bytes. A
  G-PDU in the form that TS 29.281 gives, version 1 with an 8-byte header and a payload, therefore leaves
  the DNF with version 0 in its flags and with the first four bytes of the payload replaced
  by zeros.\<close>

theorem dnf_corrupts_standard_gpdu:
  assumes "dnf_ok c" "dnf_sess_find_by_teid t c = Some s" "4 \<le> length payload"
    and "length payload \<le> OGS_MAX_PKT_LEN - 8"
  shows "\<exists>c'. dnf_gtpu_recv_cb env
      (Some ([0x30, 255] @ be16 (of_nat (length payload)) @ be32 t @ payload, from)) c
    = Some ([(domf_addr s, [0, 255] @ be16 (of_nat (length payload - 4)) @ be32 t
               @ [0, 0, 0, 0] @ drop 4 payload)], c')"
proof -
  let ?d = "[0x30, 255] @ be16 (of_nat (length payload)) @ be32 t @ payload"
  obtain a b e f r where pl: "payload = a # b # e # f # r"
    using assms(3) by (auto simp: numeral_eq_Suc Suc_le_length_iff)
  have h: "get_gtp2_header ?d = Some \<lparr>flags = 0x30, gtype = 255, glength = of_nat (length payload),
      gteid = t, sqn = rd32 a b e f\<rparr>"
    by (simp add: pl be16_def be32_def)
  have len: "length ?d = 8 + length payload" by simp
  have "drop 12 ?d = drop 4 payload" by simp
  then show ?thesis
    using dnf_recv_gpdu [OF assms(1) _ _ h, of s env "from"] assms(2-4) len
    by (auto simp: OGS_GTPU_MSGTYPE_GPDU_def OGS_MAX_PKT_LEN_def)
qed

theorem dnf_corrupts_standard_gpdu_witness:
  "\<exists>c'. dnf_gtpu_recv_cb sample_env
      (Some ([0x30, 255] @ be16 (of_nat (length [1, 2, 3, 4, 5 :: u8])) @ be32 7 @ [1, 2, 3, 4, 5],
         \<lparr>sin_port = 9, sin_addr = 9\<rparr>)) sample_dnf
    = Some ([(\<lparr>sin_port = 2155, sin_addr = 0x7f000019\<rparr>, [0, 255] @ be16 (of_nat (length [1, 2, 3, 4, 5 :: u8] - 4))
        @ be32 7 @ [0, 0, 0, 0] @ drop 4 [1, 2, 3, 4, 5])], c')"
proof -
  obtain s where s: "dnf_sess_find_by_teid 7 sample_dnf = Some s"
    "domf_addr s = \<lparr>sin_port = 2155, sin_addr = 0x7f000019\<rparr>"
    by (auto simp: dnf_sess_find_by_teid_def sample_dnf_def dnf_sess_add_def Let_def)
  show ?thesis
    using dnf_corrupts_standard_gpdu [OF sample_dnf_ok s(1), of "[1, 2, 3, 4, 5]" sample_env] s(2)
    unfolding OGS_MAX_PKT_LEN_def by simp
qed

text \<open>The DNF hands an echo request to \<open>ogs_gtp2_handle_echo_req\<close> after pulling the header off,
  so the header that function looks for is gone: whenever the bytes after the first twelve do not
  happen to form another echo request, no reply is sent. In particular a plain 12-byte echo request
  is never answered.\<close>

theorem dnf_echo_unanswered:
  assumes "12 \<le> length d" "length d < OGS_MAX_PKT_LEN" "d ! 1 = OGS_GTPU_MSGTYPE_ECHO_REQ"
    and "length d = 12 \<or> drop_bit 5 (d ! 12) \<noteq> 1"
  shows "dnf_gtpu_recv_cb env (Some (d, from)) c = Some ([], c)"
proof -
  obtain h where h: "get_gtp2_header d = Some h" using get_gtp2_header_long [OF assms(1)] by blast
  have "put_gtp2_header h = take 12 d" by (rule put_get_gtp2_header [OF h])
  then have "take 12 d ! 1 = gtype h" by (simp add: put_gtp2_header_def flip: \<open>put_gtp2_header h = take 12 d\<close>)
  then have t: "gtype h = OGS_GTPU_MSGTYPE_ECHO_REQ" using assms(3) by simp
  obtain p where p: "buf p = d @ replicate (OGS_MAX_PKT_LEN - length d) 0" "pk_data p = 12"
    "dnf_gtpu_recv_cb env (Some (d, from)) c =
      (case dnf_sess_find_by_teid (gteid h) c of
         None \<Rightarrow> Some ([], c)
       | Some sess \<Rightarrow>
           if gtype h = OGS_GTPU_MSGTYPE_GPDU then
             do { (_, dgs, c) \<leftarrow> dnf_forward_data env (sess_id sess) p c; Some (dgs, c) }
           else if gtype h = OGS_GTPU_MSGTYPE_ECHO_REQ then
             do { rsp \<leftarrow> ogs_gtp2_handle_echo_req p;
                  Some (case rsp of None \<Rightarrow> [] | Some r \<Rightarrow> [(from, r)], c) }
           else Some ([], c))"
    using dnf_recv_header [OF assms(1) _ h, of env "from" c] assms(2) by auto
  obtain f where "byte_at p 0 = Some f" "drop_bit 5 f \<noteq> 1"
    using assms p(1,2) by (auto simp: byte_at_def nth_append split: if_splits)
  then have "ogs_gtp2_handle_echo_req p = Some None" by (simp add: ogs_gtp2_handle_echo_req_def)
  then show ?thesis
    using p(3) t by (simp add: OGS_GTPU_MSGTYPE_GPDU_def OGS_GTPU_MSGTYPE_ECHO_REQ_def split: option.splits)
qed

theorem dnf_echo_unanswered_witness:
  "dnf_gtpu_recv_cb sample_env (Some ([0x32, 1, 0, 4, 0, 0, 0, 7, 0, 1, 0, 0], \<lparr>sin_port = 1, sin_addr = 1\<rparr>)) sample_dnf
    = Some ([], sample_dnf)"
  by (rule dnf_echo_unanswered) (simp_all add: OGS_MAX_PKT_LEN_def OGS_GTPU_MSGTYPE_ECHO_REQ_def)

text \<open>Adding a session keeps the invariant; the new session is found by its identifier and,
  unless an older session has the same TEID, by its TEID, in which case the older one keeps being found;
  removing it gives the previous list back.\<close>

theorem dnf_session_lookup:
  assumes "dnf_ok c" "next_sess_id c \<noteq> - 1"
  shows "\<exists>s c'. dnf_sess_add env t (Some a) c = Some (s, c') \<and> dnf_ok c'
    \<and> dnf_sess_find_by_id (sess_id s) c' = Some s
    \<and> dnf_sess_find_by_teid t c' = (case dnf_sess_find_by_teid t c of None \<Rightarrow> Some s | Some old \<Rightarrow> Some old)
    \<and> dnf_sess_remove (sess_id s) c' = Some (c'\<lparr>sess_list := sess_list c\<rparr>)"
proof -
  obtain s c' where s: "dnf_sess_add env t (Some a) c = Some (s, c')" "dnf_ok c'" "sess_teid s = t"
    "sess_list c' = sess_list c @ [s]"
    using dnf_sess_add_correct [OF assms] by blast
  then have f: "dnf_sess_find_by_id (sess_id s) c' = Some s" using dnf_find_by_id_mem by simp
  have "s \<notin> set (sess_list c)" using s(2,4) by (auto simp: dnf_ok_def)
  then have "remove1 s (sess_list c') = sess_list c" using s(4) by (simp add: remove1_append)
  then show ?thesis
    using s f by (auto simp: dnf_sess_remove_def dnf_sess_find_by_teid_def find_append split: option.splits)
qed

theorem dnf_session_lookup_witness:
  "\<exists>s c'. dnf_sess_add sample_env 8 (Some \<lparr>sin_port = 1, sin_addr = 2\<rparr>) sample_dnf = Some (s, c')
    \<and> dnf_sess_find_by_id (sess_id s) c' = Some s"
  using dnf_session_lookup [OF sample_dnf_ok, of sample_env 8 "\<lparr>sin_port = 1, sin_addr = 2\<rparr>"]
  by (fastforce simp: sample_dnf_def dnf_sess_add_def Let_def)

text \<open>\<open>dnf_context_final\<close> releases every session.\<close>

theorem dnf_final_releases_all:
  assumes "dnf_ok c"
  shows "\<exists>c'. dnf_context_final c = Some c' \<and> sess_list c' = []"
proof -
  have "\<exists>c'. foldM (\<lambda>s. dnf_sess_remove (sess_id s)) xs c = Some c' \<and> sess_list c' = []"
    if "dnf_ok c" "sess_list c = xs" for xs c
    using that
  proof (induction xs arbitrary: c)
    case (Cons x xs)
    then have "dnf_sess_remove (sess_id x) c = Some (c\<lparr>sess_list := xs\<rparr>)"
      using dnf_find_by_id_mem [of c x] by (simp add: dnf_sess_remove_def)
    moreover have "dnf_ok (c\<lparr>sess_list := xs\<rparr>)" using Cons.prems by (simp add: dnf_ok_def)
    ultimately show ?case using Cons.IH [of "c\<lparr>sess_list := xs\<rparr>"] by simp
  qed simp
  then show ?thesis using assms by (simp add: dnf_context_final_def)
qed

theorem dnf_final_releases_all_witness:
  "\<exists>c'. dnf_context_final sample_dnf = Some c' \<and> sess_list c' = []"
  using dnf_final_releases_all [OF sample_dnf_ok] .

text \<open>No code of the DNF makes a \<open>DNF_EVT_NRF_REGISTER\<close> event; what reaches its queue are SBI events and
  the timers' \<open>DNF_EVT_DATA_FORWARD\<close> without payload. Over any such sequence the DNF stays in its
  initial state without any session, so it relays nothing: every datagram is dropped.\<close>

theorem dnf_never_operational:
  assumes "\<forall>e \<in> set es. ev_id e \<in> {OGS_EVENT_SBI_SERVER, OGS_EVENT_SBI_CLIENT, OGS_EVENT_SBI_TIMER, DNF_EVT_DATA_FORWARD}"
    and "state sm = Some Initial" "sess_list (ctx w) = []"
  shows "\<exists>w'. dispatch_all (dnf_sem env) es (sm, w) = Some (sm, w') \<and> ctx w' = ctx w
    \<and> (\<forall>d from. length d \<le> OGS_MAX_PKT_LEN \<longrightarrow> dnf_gtpu_recv_cb env (Some (d, from)) (ctx w') = Some ([], ctx w))"
proof -
  have "\<exists>w'. dispatch_all (dnf_sem env) es (sm, w) = Some (sm, w') \<and> ctx w' = ctx w"
    using assms(1)
  proof (induction es arbitrary: w)
    case (Cons e es)
    then have "\<exists>w1. ogs_fsm_dispatch (dnf_sem env) sm w (Some e) = Some (sm, w1, Some e) \<and> ctx w1 = ctx w"
      using assms(2) by (auto simp: ogs_fsm_dispatch_def dnf_state_initial_def dnf_event_defs)
    then obtain w1 where "ogs_fsm_dispatch (dnf_sem env) sm w (Some e) = Some (sm, w1, Some e)" "ctx w1 = ctx w"
      by blast
    then show ?case using Cons.IH [of w1] Cons.prems by (auto simp: dispatch_all_def)
  qed (simp add: dispatch_all_def)
  moreover have "dnf_gtpu_recv_cb env (Some (d, from)) (ctx w) = Some ([], ctx w)"
    if len: "length d \<le> OGS_MAX_PKT_LEN" for d "from"
  proof (cases "12 \<le> length d")
    case True
    then show ?thesis
      using get_gtp2_header_long [OF True] dnf_recv_header [OF True len, of _ env "from" "ctx w"] assms(3)
      by (auto simp: dnf_sess_find_by_teid_def)
  next
    case False
    then show ?thesis
      using received_correct [OF len] by (simp add: dnf_gtpu_recv_cb_def OGS_GTPV2C_HEADER_LEN_def)
  qed
  ultimately show ?thesis by metis
qed

theorem dnf_never_operational_witness:
  "\<exists>w'. dispatch_all (dnf_sem sample_env) [\<lparr>ev_id = OGS_EVENT_SBI_TIMER, ev_data = None\<rparr>]
      (\<lparr>init = None, fini = None, state = Some Initial\<rparr>,
       \<lparr>ctx = dnf_context_init sample_dnf, sent = [], sbi = []\<rparr>)
    = Some (\<lparr>init = None, fini = None, state = Some Initial\<rparr>, w') \<and> sess_list (ctx w') = []"
  using dnf_never_operational [of "[\<lparr>ev_id = OGS_EVENT_SBI_TIMER, ev_data = None\<rparr>]"
      "\<lparr>init = None, fini = None, state = Some Initial\<rparr>"
      "\<lparr>ctx = dnf_context_init sample_dnf, sent = [], sbi = []\<rparr>" sample_env]
  by (auto simp: dnf_context_init_def)

end
