(* ===== verification/Ogs_Cstr.thy ===== *)
theory Ogs_Cstr
  imports Ogs_Prelude
begin

section \<open>C strings and the text bodies of the gNB synchronisation\<close>

text \<open>
  The AMF, the DMF and the DSMF pass gNB data in small JSON texts that they print
  with \<open>printf\<close> formats and take apart with \<open>strstr\<close>, \<open>strchr\<close> and \<open>atoi\<close>. A C string is
  the list of its characters before the terminating NUL. A returned pointer into a
  string is the suffix it points to. \<open>atoi\<close> of a number outside the range of \<open>int\<close> has no
  defined result in ISO C: \<open>None\<close>.
\<close>

fun is_prefix :: "string \<Rightarrow> string \<Rightarrow> bool" where
  "is_prefix [] s = True"
| "is_prefix (a # as) [] = False"
| "is_prefix (a # as) (b # bs) = (a = b \<and> is_prefix as bs)"

fun strstr :: "string \<Rightarrow> string \<Rightarrow> string option" where
  "strstr [] needle = (if needle = [] then Some [] else None)"
| "strstr (c # cs) needle = (if is_prefix needle (c # cs) then Some (c # cs) else strstr cs needle)"

fun strchr :: "string \<Rightarrow> char \<Rightarrow> string option" where
  "strchr [] c = None"
| "strchr (a # s) c = (if a = c then Some (a # s) else strchr s c)"

definition is_digit :: "char \<Rightarrow> bool" where
  "is_digit c \<longleftrightarrow> 48 \<le> (of_char c :: nat) \<and> (of_char c :: nat) \<le> 57"

definition is_space :: "char \<Rightarrow> bool" where
  "is_space c \<longleftrightarrow> c = CHR '' '' \<or> (9 \<le> (of_char c :: nat) \<and> (of_char c :: nat) \<le> 13)"

definition digits_val :: "string \<Rightarrow> nat" where
  "digits_val s = foldl (\<lambda>a c. a * 10 + (of_char c - 48)) 0 (takeWhile is_digit s)"

definition atoi :: "string \<Rightarrow> int option" where
  "atoi s =
     (let s = dropWhile is_space s;
          v = (case s of
                 c # r \<Rightarrow> if c = CHR ''-'' then - int (digits_val r)
                          else if c = CHR ''+'' then int (digits_val r) else int (digits_val s)
               | [] \<Rightarrow> 0)
      in if - (2 ^ 31) \<le> v \<and> v < 2 ^ 31 then Some v else None)"

text \<open>The conversions \<open>%u\<close> and \<open>%d\<close> of a non-negative number.\<close>

definition digit :: "nat \<Rightarrow> char" where
  "digit n = char_of (48 + n)"

fun dec :: "nat \<Rightarrow> string" where
  "dec n = (if n < 10 then [digit n] else dec (n div 10) @ [digit (n mod 10)])"

declare dec.simps [simp del]

text \<open>\<open>strncpy\<close> of at most \<open>n\<close> characters into a zeroed buffer that is longer than \<open>n\<close>.\<close>

definition strncpy :: "nat \<Rightarrow> string \<Rightarrow> string" where
  "strncpy n s = take n s"

text \<open>\<open>snprintf\<close> into a buffer of \<open>n\<close> bytes.\<close>

definition snprintf :: "nat \<Rightarrow> string \<Rightarrow> string" where
  "snprintf n s = take (n - 1) s"

text \<open>
  The string behind a pattern such as \<open>"gnb_id":"\<close>, up to the next quote; the
  number behind a pattern such as \<open>"teid":\<close>.
\<close>

definition json_str :: "string \<Rightarrow> string \<Rightarrow> string option" where
  "json_str key body =
     (case strstr body key of
        None \<Rightarrow> None
      | Some t \<Rightarrow> let v = drop (length key) t
                   in case strchr v CHR 0x22 of None \<Rightarrow> None | Some e \<Rightarrow> Some (take (length v - length e) v))"

definition json_num :: "string \<Rightarrow> string \<Rightarrow> int option option" where
  "json_num key body =
     (case strstr body key of
        None \<Rightarrow> Some None
      | Some t \<Rightarrow> (case strchr t CHR '':'' of
                      None \<Rightarrow> None
                    | Some u \<Rightarrow> (case atoi (drop 1 u) of None \<Rightarrow> None | Some v \<Rightarrow> Some (Some v))))"

text \<open>\<open>inet_pton\<close> for IPv4: four decimal octets without leading zeros, separated by dots.\<close>

fun split_dots :: "string \<Rightarrow> string list" where
  "split_dots [] = [[]]"
| "split_dots (c # s) =
     (if c = CHR ''.'' then [] # split_dots s
      else (case split_dots s of [] \<Rightarrow> [[c]] | w # ws \<Rightarrow> (c # w) # ws))"

definition octet :: "string \<Rightarrow> nat option" where
  "octet w = (if w \<noteq> [] \<and> list_all is_digit w \<and> length w \<le> 3 \<and> (hd w \<noteq> CHR ''0'' \<or> length w = 1)
      \<and> digits_val w \<le> 255 then Some (digits_val w) else None)"

definition inet_pton :: "string \<Rightarrow> u32 option" where
  "inet_pton s =
     (case split_dots s of
        [a, b, c, d] \<Rightarrow>
          do { a \<leftarrow> octet a; b \<leftarrow> octet b; c \<leftarrow> octet c; d \<leftarrow> octet d;
               Some (of_nat (((a * 256 + b) * 256 + c) * 256 + d)) }
      | _ \<Rightarrow> None)"

subsection \<open>Numbers\<close>

lemma of_char_digit [simp]: "n < 10 \<Longrightarrow> of_char (digit n) = 48 + n"
  by (simp add: digit_def)

lemma is_digit_digit [simp]: "n < 10 \<Longrightarrow> is_digit (digit n)"
  by (simp add: is_digit_def)

lemma dec_digits: "list_all is_digit (dec n)"
  by (induction n rule: dec.induct) (subst dec.simps, auto)

lemma dec_val_aux: "foldl (\<lambda>a c. a * 10 + (of_char c - 48)) 0 (dec n) = n"
proof (induction n rule: dec.induct)
  case (1 n)
  then show ?case by (subst dec.simps) auto
qed

lemma takeWhile_all_stop:
  assumes "list_all P xs" "r = [] \<or> \<not> P (hd r)"
  shows "takeWhile P (xs @ r) = xs"
  using assms by (induction xs) (auto simp: takeWhile_eq_Nil_iff)

lemma digits_val_dec: "r = [] \<or> \<not> is_digit (hd r) \<Longrightarrow> digits_val (dec n @ r) = n"
  by (simp add: digits_val_def takeWhile_all_stop [OF dec_digits] dec_val_aux)

lemma dec_Cons: "\<exists>c cs. dec n = c # cs \<and> is_digit c"
proof -
  have "dec n \<noteq> []" by (subst dec.simps) auto
  then show ?thesis using dec_digits [of n] by (cases "dec n") auto
qed

lemma digit_not_special: "is_digit c \<Longrightarrow> \<not> is_space c \<and> c \<noteq> CHR ''-'' \<and> c \<noteq> CHR ''+'' \<and> c \<noteq> CHR 0x22"
  by (auto simp: is_digit_def is_space_def)

lemma atoi_dec:
  assumes "n < 2 ^ 31" "r = [] \<or> \<not> is_digit (hd r)"
  shows "atoi (dec n @ r) = Some (int n)"
proof -
  obtain c cs where c: "dec n = c # cs" "is_digit c" using dec_Cons by blast
  have "dropWhile is_space (dec n @ r) = dec n @ r" using c digit_not_special by simp
  moreover have "digits_val (c # cs @ r) = n" using digits_val_dec [OF assms(2), of n] c(1) by simp
  ultimately show ?thesis
    using c digit_not_special [OF c(2)] assms(1) by (simp add: atoi_def Let_def)
qed

lemma atoi_dec_overflow:
  assumes "2 ^ 31 \<le> n" "r = [] \<or> \<not> is_digit (hd r)"
  shows "atoi (dec n @ r) = None"
proof -
  obtain c cs where c: "dec n = c # cs" "is_digit c" using dec_Cons by blast
  have "dropWhile is_space (dec n @ r) = dec n @ r" using c digit_not_special by simp
  moreover have "digits_val (c # cs @ r) = n" using digits_val_dec [OF assms(2), of n] c(1) by simp
  ultimately show ?thesis
    using c digit_not_special [OF c(2)] assms(1) by (simp add: atoi_def Let_def)
qed

subsection \<open>Searching a body\<close>

text \<open>A pattern that starts with a quote is not found inside a value without quotes.\<close>

lemma strstr_skip:
  assumes "CHR 0x22 \<notin> set v" "needle = CHR 0x22 # n"
  shows "strstr (v @ s) needle = strstr s needle"
  using assms(1)
proof (induction v)
  case (Cons a v)
  then show ?case by (simp add: assms(2))
qed simp

lemma strchr_skip: "c \<notin> set v \<Longrightarrow> strchr (v @ s) c = strchr s c"
  by (induction v) auto

text \<open>
  A pattern that starts at the quote in front of a value can only match if the
  value is the name in the pattern and the text behind the value continues it.
\<close>

lemma is_prefix_value:
  assumes "CHR 0x22 \<notin> set v" "CHR 0x22 \<notin> set name"
  shows "is_prefix (name @ CHR 0x22 # k) (v @ CHR 0x22 # s) \<longleftrightarrow> v = name \<and> is_prefix k s"
  using assms
proof (induction name arbitrary: v)
  case Nil
  then show ?case by (cases v) auto
next
  case (Cons a name)
  then show ?case by (cases v) auto
qed

lemma json_str_here:
  assumes "CHR 0x22 \<notin> set v" "strstr body key = Some (key @ v @ CHR 0x22 # s)"
  shows "json_str key body = Some v"
  using assms by (simp add: json_str_def strchr_skip)

end
