(* ===== verification/Ogs_Conv.thy ===== *)
theory Ogs_Conv
  imports Ogs_Cstr
begin

unbundle bit_operations_syntax

section \<open>Conversions between bytes, digits and numbers (lib/core/ogs-conv.c)\<close>

text \<open>
  Hexadecimal and BCD texts, numbers in buffers, and numbers as hexadecimal texts. A character is a \<open>char\<close> of HOL, a byte an
  8-bit word; \<open>ctype.h\<close> is that of the C locale. Where the code writes through a pointer into a buffer of the caller, the buffer is a list of
  its characters and a write behind its end is \<open>None\<close>.
\<close>

subsection \<open>Hexadecimal texts\<close>

definition is_lower :: "char \<Rightarrow> bool" where
  "is_lower c \<longleftrightarrow> 97 \<le> (of_char c :: nat) \<and> (of_char c :: nat) \<le> 122"

definition hex_val :: "char \<Rightarrow> u8" where
  "hex_val c = (if is_digit c then of_char c - 48 else if is_lower c then of_char c - 97 + 10 else of_char c - 65 + 10)"

text \<open>The loop of \<open>ogs_ascii_to_hex\<close>: \<open>h\<close> is the byte with its first half when \<open>k\<close> is odd, \<open>out\<close> the bytes before it.\<close>

fun ascii_to_hex :: "string \<Rightarrow> nat \<Rightarrow> u8 option \<Rightarrow> u8 list \<Rightarrow> u8 list" where
  "ascii_to_hex [] out_len h out = out"
| "ascii_to_hex (c # cs) out_len h out =
     (if length out < out_len
      then if is_space c then ascii_to_hex cs out_len h out
           else (case h of
                   None \<Rightarrow> ascii_to_hex cs out_len (Some (push_bit 4 (hex_val c))) out
                 | Some x \<Rightarrow> ascii_to_hex cs out_len None (out @ [x OR hex_val c]))
      else out)"

definition ogs_ascii_to_hex :: "string \<Rightarrow> nat \<Rightarrow> u8 list" where
  "ogs_ascii_to_hex s out_len = ascii_to_hex s out_len None []"

text \<open>The conversion \<open>%x\<close>, and \<open>%02x\<close> of a byte.\<close>

definition hex_digit :: "nat \<Rightarrow> char" where
  "hex_digit n = (if n < 10 then digit n else char_of (87 + n))"

fun hexs :: "nat \<Rightarrow> string" where
  "hexs n = (if n < 16 then [hex_digit n] else hexs (n div 16) @ [hex_digit (n mod 16)])"

declare hexs.simps [simp del]

definition printf_0x :: "nat \<Rightarrow> nat \<Rightarrow> string" where
  "printf_0x width n = replicate (width - length (hexs n)) (CHR ''0'') @ hexs n"

text \<open>
  \<open>ogs_slprintf(p, last, ...)\<close> of a text: \<open>vsnprintf\<close> into the rest of the buffer, which counts what it would have written. At or behind the end
  nothing is written and the returned pointer moves back by one.
\<close>

definition ogs_slprintf :: "string \<Rightarrow> int \<times> string \<Rightarrow> int \<times> string" where
  "ogs_slprintf s po =
     (let (p, out) = po; n = length out
      in if p < int n
         then let bs = take (n - nat p - 1) s @ [CHR 0x00]
              in (p + int (length s), take (nat p) out @ bs @ drop (nat p + length bs) out)
         else (p - 1, out))"

definition ogs_hex_to_ascii :: "u8 list \<Rightarrow> string \<Rightarrow> string option" where
  "ogs_hex_to_ascii bs out =
     do { ogs_assert (out \<noteq> []);
          let out = out[0 := CHR 0x00];
          let l = (if length bs > length out then length out else length bs);
          Some (snd (fold (\<lambda>b. ogs_slprintf (printf_0x 2 (unat b))) (take l bs) (0, out))) }"

definition cstr :: "string \<Rightarrow> string" where
  "cstr out = takeWhile (\<lambda>c. c \<noteq> CHR 0x00) out"

definition ogs_from_hex :: "char \<Rightarrow> u8" where
  "ogs_from_hex c = (if is_digit c then of_char c - 48
     else (if 65 \<le> (of_char c :: nat) \<and> (of_char c :: nat) \<le> 90 then of_char c + 32 else of_char c) - 97 + 10)"

definition ogs_to_hex :: "u8 \<Rightarrow> char" where
  "ogs_to_hex c = ''0123456789ABCDEF'' ! unat (c AND 15)"

subsection \<open>Numbers in buffers\<close>

text \<open>A shift by 64 bits or more has no defined result.\<close>

definition ogs_uint64_to_buffer :: "u64 \<Rightarrow> nat \<Rightarrow> u8 list option" where
  "ogs_uint64_to_buffer num sz =
     do { ogs_assert (sz \<le> 8);
          Some (map (\<lambda>i. ucast (drop_bit ((sz - 1 - i) * 8) num AND 0xff)) [0..<sz]) }"

definition ogs_buffer_to_uint64 :: "u8 list \<Rightarrow> nat \<Rightarrow> u64 option" where
  "ogs_buffer_to_uint64 buffer sz =
     do { ogs_assert (sz \<le> 8 \<and> sz \<le> length buffer);
          Some (fold (\<lambda>i num. num OR push_bit ((sz - 1 - i) * 8) (ucast (buffer ! i))) [0..<sz] 0) }"

subsection \<open>BCD\<close>

text \<open>One character of \<open>ogs_bcd_to_buffer\<close>: the lower half of a new byte, or the upper half of the last one.\<close>

definition bcd_step :: "nat \<times> char \<Rightarrow> u8 list \<Rightarrow> u8 list" where
  "bcd_step ic out =
     (let (i, c) = ic
      in if odd i then out[i div 2 := out ! (i div 2) OR (push_bit 4 (of_char c - 0x30) AND 0xF0)]
         else out @ [(of_char c - 0x30) AND 0x0F])"

definition ogs_bcd_to_buffer :: "string \<Rightarrow> u8 list" where
  "ogs_bcd_to_buffer s =
     (let out = fold bcd_step (enumerate 0 s) []; out_len = (length s + 1) div 2
      in if odd (length s) then out[out_len - 1 := out ! (out_len - 1) OR 0xF0] else out)"

definition bcd_step_reverse_order :: "nat \<times> char \<Rightarrow> u8 list \<Rightarrow> u8 list" where
  "bcd_step_reverse_order ic out =
     (let (i, c) = ic
      in if odd i then out[i div 2 := out ! (i div 2) OR ((of_char c - 0x30) AND 0x0F)]
         else out @ [push_bit 4 (of_char c - 0x30) AND 0xF0])"

definition ogs_bcd_to_buffer_reverse_order :: "string \<Rightarrow> u8 list" where
  "ogs_bcd_to_buffer_reverse_order s =
     (let out = fold bcd_step_reverse_order (enumerate 0 s) []; out_len = (length s + 1) div 2
      in if odd (length s) then out[out_len - 1 := out ! (out_len - 1) OR 0xF0] else out)"

definition low_digit :: "u8 \<Rightarrow> char" where
  "low_digit b = char_of (unat (0x30 + (b AND 0x0F)))"

definition high_digit :: "u8 \<Rightarrow> char" where
  "high_digit b = char_of (unat (0x30 + drop_bit 4 (b AND 0xF0)))"

text \<open>An empty buffer is read behind its end.\<close>

fun ogs_buffer_to_bcd :: "u8 list \<Rightarrow> string option" where
  "ogs_buffer_to_bcd [] = None"
| "ogs_buffer_to_bcd [b] = Some (if b AND 0xF0 = 0xF0 then [low_digit b] else [low_digit b, high_digit b])"
| "ogs_buffer_to_bcd (b # bs) = map_option (\<lambda>s. low_digit b # high_digit b # s) (ogs_buffer_to_bcd bs)"

subsection \<open>Numbers as texts\<close>

definition ogs_uint24_to_0string :: "u32 \<Rightarrow> string" where "ogs_uint24_to_0string x = printf_0x 6 (unat x)"
definition ogs_uint28_to_0string :: "u32 \<Rightarrow> string" where "ogs_uint28_to_0string x = printf_0x 7 (unat x)"
definition ogs_uint32_to_0string :: "u32 \<Rightarrow> string" where "ogs_uint32_to_0string x = printf_0x 8 (unat x)"
definition ogs_uint36_to_0string :: "u64 \<Rightarrow> string" where "ogs_uint36_to_0string x = printf_0x 9 (unat x)"
definition ogs_uint64_to_0string :: "u64 \<Rightarrow> string" where "ogs_uint64_to_0string x = printf_0x 16 (unat x)"

definition ogs_left_trimcharacter :: "string \<Rightarrow> char \<Rightarrow> string" where
  "ogs_left_trimcharacter s to_remove = dropWhile (\<lambda>c. c = to_remove) s"

definition ogs_uint64_to_string :: "u64 \<Rightarrow> string" where
  "ogs_uint64_to_string x = ogs_left_trimcharacter (ogs_uint64_to_0string x) (CHR ''0'')"

text \<open>The value of a digit in bases up to 36, and \<open>strtoll\<close> for the bases 10 and 16 as an unbounded number.\<close>

definition digit_val :: "nat \<Rightarrow> char \<Rightarrow> nat option" where
  "digit_val base c =
     (let n = of_char c :: nat;
          v = (if is_digit c then n - 48 else if is_lower c then n - 87 else if 65 \<le> n \<and> n \<le> 90 then n - 55 else 36)
      in if v < base then Some v else None)"

fun digits_in :: "nat \<Rightarrow> nat \<Rightarrow> string \<Rightarrow> nat" where
  "digits_in base acc [] = acc"
| "digits_in base acc (c # cs) = (case digit_val base c of Some v \<Rightarrow> digits_in base (acc * base + v) cs | None \<Rightarrow> acc)"

definition skip_0x :: "nat \<Rightarrow> string \<Rightarrow> string" where
  "skip_0x base s =
     (case s of
        z # x # d # _ \<Rightarrow> if base = 16 \<and> z = CHR ''0'' \<and> (x = CHR ''x'' \<or> x = CHR ''X'') \<and> digit_val 16 d \<noteq> None then drop 2 s else s
      | _ \<Rightarrow> s)"

definition strtoll :: "nat \<Rightarrow> string \<Rightarrow> int" where
  "strtoll base s =
     (let s = dropWhile is_space s
      in case s of
           [] \<Rightarrow> 0
         | c # r \<Rightarrow> if c = CHR ''-'' then - int (digits_in base 0 (skip_0x base r))
                    else if c = CHR ''+'' then int (digits_in base 0 (skip_0x base r))
                    else int (digits_in base 0 (skip_0x base s)))"

text \<open>A number outside the range of \<open>long long\<close> ends in \<open>ogs_assert_if_reached\<close>.\<close>

definition ogs_uint64_from_string :: "string \<Rightarrow> nat \<Rightarrow> u64 option" where
  "ogs_uint64_from_string s base =
     (if s = [] then Some 0
      else let x = strtoll base s in if - (2 ^ 63) \<le> x \<and> x < 2 ^ 63 then Some (word_of_int x) else None)"

definition ogs_uint24_from_string :: "string \<Rightarrow> nat \<Rightarrow> u32 option" where
  "ogs_uint24_from_string s base = map_option (\<lambda>x. ucast (take_bit 24 x)) (ogs_uint64_from_string s base)"

subsection \<open>Properties\<close>

lemma of_char_hex_digit: "n < 16 \<Longrightarrow> of_char (hex_digit n) = (if n < 10 then 48 + n else 87 + n)"
  by (simp add: hex_digit_def)

lemma hex_digit_range: "n < 16 \<Longrightarrow> (48 \<le> (of_char (hex_digit n) :: nat) \<and> (of_char (hex_digit n) :: nat) \<le> 57) \<or> (97 \<le> (of_char (hex_digit n) :: nat) \<and> (of_char (hex_digit n) :: nat) \<le> 102)"
  by (simp add: of_char_hex_digit)

lemma hex_digit_not_special:
  assumes "n < 16"
  shows "\<not> is_space (hex_digit n)" "hex_digit n \<notin> {CHR ''-'', CHR ''+'', CHR ''x'', CHR ''X'', CHR 0x00}"
  using hex_digit_range [OF assms] by (auto simp: is_space_def)

lemma digit_val_hex: "n < 16 \<Longrightarrow> digit_val 16 (hex_digit n) = Some n"
  using of_char_hex_digit [of n] by (auto simp: digit_val_def is_digit_def is_lower_def Let_def)

lemma hexs_all: "\<forall>c \<in> set (hexs n). \<exists>k < 16. c = hex_digit k"
proof (induction n rule: hexs.induct)
  case (1 n)
  have "\<exists>k < 16. hex_digit (n mod 16) = hex_digit k" by (rule exI [of _ "n mod 16"]) simp
  then show ?case using 1 by (subst hexs.simps) auto
qed

lemma digits_in_append:
  "\<forall>c \<in> set xs. digit_val base c \<noteq> None \<Longrightarrow> digits_in base acc (xs @ ys) = digits_in base (digits_in base acc xs) ys"
  by (induction xs arbitrary: acc) (auto split: option.splits)

lemma digits_in_hexs: "digits_in 16 0 (hexs n) = n"
proof (induction n rule: hexs.induct)
  case (1 n)
  have "\<forall>c \<in> set (hexs k). digit_val 16 c \<noteq> None" for k using hexs_all digit_val_hex by fastforce
  then show ?case using 1 by (subst hexs.simps) (simp add: digits_in_append digit_val_hex)
qed

lemma digits_in_zeros: "digits_in 16 0 (replicate k (CHR ''0'') @ s) = digits_in 16 0 s"
proof (induction k)
  case (Suc k)
  moreover have "digit_val 16 CHR ''0'' = Some 0" by (simp add: digit_val_def is_digit_def)
  ultimately show ?case by simp
qed simp

lemma hexs_length: "length (hexs n) \<le> 16" if "n < 2 ^ 64"
proof -
  have "n < 16 ^ Suc k \<Longrightarrow> length (hexs n) \<le> Suc k" for k
  proof (induction k arbitrary: n)
    case 0 then show ?case by (simp add: hexs.simps)
  next
    case (Suc k) then show ?case using Suc.IH [of "n div 16"] by (subst hexs.simps) (auto simp: less_mult_imp_div_less)
  qed
  from this [of 15] show ?thesis using that by simp
qed

lemma strtoll_hex:
  assumes "s \<noteq> []" "\<forall>c \<in> set s. \<exists>k < 16. c = hex_digit k"
  shows "strtoll 16 s = int (digits_in 16 0 s)"
proof -
  obtain c r where s: "s = c # r" using assms(1) by (cases s) auto
  have h: "hex_digit k \<notin> {CHR ''-'', CHR ''+'', CHR ''x'', CHR ''X''}" "\<not> is_space (hex_digit k)" if "k < 16" for k
    using hex_digit_not_special [OF that] by auto
  have x: "x \<noteq> CHR ''x'' \<and> x \<noteq> CHR ''X''" if xs: "x \<in> set s" for x
  proof -
    obtain k where "k < 16" "x = hex_digit k" using assms(2) xs by auto
    then show ?thesis using h(1) [of k] by auto
  qed
  have "skip_0x 16 s = s"
  proof (cases r)
    case (Cons y ys)
    then have "y \<noteq> CHR ''x''" "y \<noteq> CHR ''X''" using x [of y] s by simp_all
    then show ?thesis unfolding s Cons by (simp add: skip_0x_def split: list.split)
  qed (simp add: skip_0x_def s)
  moreover obtain k where "k < 16" "c = hex_digit k" using assms(2) s by auto
  ultimately show ?thesis using h [of k] unfolding s by (simp add: strtoll_def)
qed

lemma printf_0x_hex: "\<forall>c \<in> set (printf_0x w n). \<exists>k < 16. c = hex_digit k"
proof -
  have "CHR ''0'' = hex_digit 0" by code_simp
  then have "\<exists>k < 16. CHR ''0'' = hex_digit k" by (intro exI [of _ 0]) simp
  then show ?thesis using hexs_all [of n] by (auto simp: printf_0x_def)
qed

lemma printf_0x_val: "digits_in 16 0 (printf_0x w n) = n"
  by (simp add: printf_0x_def digits_in_zeros digits_in_hexs)

text \<open>Reading back what was printed, with or without the leading zeros, gives the number, up to \<open>2 ^ 63\<close>; a larger one aborts, as \<open>strtoll\<close> reads
  signed numbers.\<close>

lemma trim_zeros: "\<exists>k. printf_0x w n = replicate k (CHR ''0'') @ ogs_left_trimcharacter (printf_0x w n) (CHR ''0'')"
proof -
  have "takeWhile (\<lambda>c. c = CHR ''0'') s = replicate (length (takeWhile (\<lambda>c. c = CHR ''0'') s)) (CHR ''0'')" for s
    by (induction s) auto
  then show ?thesis using takeWhile_dropWhile_id [of "\<lambda>c. c = CHR ''0''" "printf_0x w n"] unfolding ogs_left_trimcharacter_def
    by (intro exI [of _ "length (takeWhile (\<lambda>c. c = CHR ''0'') (printf_0x w n))"]) simp
qed

lemma from_string_hex:
  assumes "\<forall>c \<in> set s. \<exists>k < 16. c = hex_digit k" "digits_in 16 0 s = unat (x :: u64)"
  shows "ogs_uint64_from_string s 16 = (if x < 2 ^ 63 then Some x else None)"
proof (cases "s = []")
  case True then have "x = 0" using assms(2) by (simp add: unat_eq_0)
  then show ?thesis using True by (simp add: ogs_uint64_from_string_def)
next
  case False
  have "x < 2 ^ 63 \<longleftrightarrow> uint x < 2 ^ 63" by (simp add: word_less_def)
  then show ?thesis using strtoll_hex [OF False assms(1)] assms(2) False order.trans [OF _ uint_ge_0 [of x], of "- (2 ^ 63)"] by (simp add: ogs_uint64_from_string_def Let_def)
qed

theorem uint64_string_round_trip:
  "ogs_uint64_from_string (ogs_uint64_to_string x) 16 = (if x < 2 ^ 63 then Some x else None)
   \<and> ogs_uint64_from_string (ogs_uint64_to_0string x) 16 = (if x < 2 ^ 63 then Some x else None)"
proof -
  obtain k where "printf_0x 16 (unat x) = replicate k (CHR ''0'') @ ogs_uint64_to_string x"
    using trim_zeros [of 16 "unat x"] by (auto simp: ogs_uint64_to_string_def ogs_uint64_to_0string_def)
  then have "digits_in 16 0 (ogs_uint64_to_string x) = unat x"
    using printf_0x_val [of 16 "unat x"] by (simp add: digits_in_zeros)
  moreover have "\<forall>c \<in> set (ogs_uint64_to_string x). \<exists>k < 16. c = hex_digit k"
    using printf_0x_hex [of 16 "unat x"] by (auto simp: ogs_uint64_to_string_def ogs_uint64_to_0string_def ogs_left_trimcharacter_def dest: set_dropWhileD)
  ultimately show ?thesis using from_string_hex printf_0x_hex [of 16 "unat x"] printf_0x_val [of 16] by (simp add: ogs_uint64_to_0string_def)
qed

text \<open>Numbers in buffers.\<close>

lemma bit_fold_or: "bit (fold (\<lambda>i num. num OR f i) xs a) k \<longleftrightarrow> bit a k \<or> (\<exists>i \<in> set xs. bit (f i) k)" for a :: u64
  by (induction xs arbitrary: a) (auto simp: bit_simps)

lemma uint64_buffer_round_trip:
  assumes "n \<le> 8"
  shows "ogs_uint64_to_buffer x n \<bind> (\<lambda>b. ogs_buffer_to_uint64 b n) = Some (take_bit (8 * n) x)"
proof -
  have "fold (\<lambda>i num. num OR push_bit ((n - 1 - i) * 8) (ucast (map (\<lambda>i. ucast (drop_bit ((n - 1 - i) * 8) x AND 0xff) :: u8) [0..<n] ! i))) [0..<n] 0 = take_bit (8 * n) x"
    (is "?f = _")
  proof (rule bit_word_eqI)
    fix k assume k: "k < LENGTH(64)"
    have m: "y AND 0xff = take_bit 8 y" for y :: u64 by (simp add: take_bit_eq_mask mask_eq_exp_minus_1)
    have "bit ?f k \<longleftrightarrow> (\<exists>i < n. (n - 1 - i) * 8 \<le> k \<and> k - (n - 1 - i) * 8 < 8 \<and> bit x k)"
      using k unfolding bit_fold_or m by (auto simp: bit_simps)
    also have "\<dots> \<longleftrightarrow> k < 8 * n \<and> bit x k"
    proof
      assume h: "k < 8 * n \<and> bit x k"
      define j where "j = k div 8"
      have j: "j < n" "j * 8 \<le> k" "k - j * 8 < 8" using h unfolding j_def by (simp_all add: less_mult_imp_div_less mult.commute)
      then have "n - 1 - (n - 1 - j) = j" by linarith
      then show "\<exists>i < n. (n - 1 - i) * 8 \<le> k \<and> k - (n - 1 - i) * 8 < 8 \<and> bit x k"
        using j h by (intro exI [of _ "n - 1 - j"]) simp
    qed auto
    finally show "bit ?f k \<longleftrightarrow> bit (take_bit (8 * n) x) k" by (simp add: bit_simps conj_commute)
  qed
  then show ?thesis using assms by (simp add: ogs_uint64_to_buffer_def ogs_buffer_to_uint64_def)
qed

lemma uint64_to_buffer_length: "ogs_uint64_to_buffer x n = Some b \<Longrightarrow> length b = n"
  by (auto simp: ogs_uint64_to_buffer_def)

text \<open>BCD: two digits to a byte, the first in the lower half, and a filler when their number is odd.\<close>

definition bcd_digits :: "string \<Rightarrow> nat list" where
  "bcd_digits s = map (\<lambda>c. of_char c - 48) s"

lemma length_bcd_digits [simp]: "length (bcd_digits s) = length s"
  by (simp add: bcd_digits_def)

fun bcd_bytes :: "nat list \<Rightarrow> u8 list" where
  "bcd_bytes (a # b # r) = of_nat (a + 16 * b) # bcd_bytes r"
| "bcd_bytes r = map of_nat r"

lemma nibbles:
  assumes "a < 16" "b < 16"
  shows "(of_nat a :: u8) AND 0x0F = of_nat a" "push_bit 4 (of_nat b :: u8) AND 0xF0 = push_bit 4 (of_nat b)"
    "of_nat a OR push_bit 4 (of_nat b :: u8) = of_nat (a + 16 * b)" "(of_nat (a + 16 * b) :: u8) AND 0x0F = of_nat a"
    "drop_bit 4 ((of_nat (a + 16 * b) :: u8) AND 0xF0) = of_nat b" "(of_nat (a + 16 * b) :: u8) AND 0xF0 = 0xF0 \<longleftrightarrow> b = 15"
    "of_nat a OR (0xF0 :: u8) = of_nat (a + 240)"
proof -
  have all: "\<forall>a \<in> set [0..<16]. \<forall>b \<in> set [0..<16]. (of_nat a :: u8) AND 0x0F = of_nat a \<and> push_bit 4 (of_nat b :: u8) AND 0xF0 = push_bit 4 (of_nat b)
    \<and> of_nat a OR push_bit 4 (of_nat b :: u8) = of_nat (a + 16 * b) \<and> (of_nat (a + 16 * b) :: u8) AND 0x0F = of_nat a
    \<and> drop_bit 4 ((of_nat (a + 16 * b) :: u8) AND 0xF0) = of_nat b \<and> ((of_nat (a + 16 * b) :: u8) AND 0xF0 = 0xF0 \<longleftrightarrow> b = 15)
    \<and> of_nat a OR (0xF0 :: u8) = of_nat (a + 240)" by code_simp
  then show "(of_nat a :: u8) AND 0x0F = of_nat a" "push_bit 4 (of_nat b :: u8) AND 0xF0 = push_bit 4 (of_nat b)"
    "of_nat a OR push_bit 4 (of_nat b :: u8) = of_nat (a + 16 * b)" "(of_nat (a + 16 * b) :: u8) AND 0x0F = of_nat a"
    "drop_bit 4 ((of_nat (a + 16 * b) :: u8) AND 0xF0) = of_nat b" "(of_nat (a + 16 * b) :: u8) AND 0xF0 = 0xF0 \<longleftrightarrow> b = 15"
    "of_nat a OR (0xF0 :: u8) = of_nat (a + 240)" using assms by auto
qed

lemma of_char_digit_nat: "is_digit c \<Longrightarrow> of_char c - 48 = (of_nat (of_char c - 48) :: u8)" "is_digit c \<Longrightarrow> of_char c - 48 < (10 :: nat)"
  "is_digit c \<Longrightarrow> digit (of_char c - 48) = c"
  by (auto simp: is_digit_def of_nat_diff digit_def of_nat_of_char)

lemma fold_bcd:
  assumes "list_all is_digit s" "even i" "length out = i div 2"
  shows "fold bcd_step (enumerate i s) out = out @ bcd_bytes (bcd_digits s)"
  using assms
proof (induction s arbitrary: i out rule: induct_list012)
  case 1 then show ?case by (simp add: bcd_digits_def)
next
  case (2 a)
  then show ?case using of_char_digit_nat(1,2) [of a] nibbles(1) [of "of_char a - 48" 0] by (simp add: bcd_digits_def bcd_step_def)
next
  case (3 a b s)
  let ?a = "of_char a - 48 :: nat" and ?b = "of_char b - 48 :: nat"
  have d: "?a < 16" "?b < 16" using of_char_digit_nat(2) [of a] of_char_digit_nat(2) [of b] 3(3) by simp_all
  have "fold bcd_step (enumerate i (a # b # s)) out = fold bcd_step (enumerate (Suc (Suc i)) s) (out @ [of_nat (?a + 16 * ?b)])"
    using of_char_digit_nat(1) [of a] of_char_digit_nat(1) [of b] 3(3-5) nibbles [OF d] by (simp add: bcd_step_def nth_append list_update_append)
  then show ?case using 3(1) [of "Suc (Suc i)" "out @ [of_nat (?a + 16 * ?b)]"] 3(3-5) by (simp add: bcd_digits_def)
qed

fun bcd_pack :: "nat list \<Rightarrow> u8 list" where
  "bcd_pack (a # b # r) = of_nat (a + 16 * b) # bcd_pack r"
| "bcd_pack [a] = [of_nat (a + 240)]"
| "bcd_pack [] = []"

lemma bcd_pack_eq:
  assumes "\<forall>d \<in> set ds. d < 10"
  shows "(if odd (length ds) then (bcd_bytes ds)[(length ds + 1) div 2 - 1 := bcd_bytes ds ! ((length ds + 1) div 2 - 1) OR 0xF0] else bcd_bytes ds) = bcd_pack ds"
  using assms
proof (induction ds rule: induct_list012)
  case (2 a) then show ?case using nibbles(7) [of a 0] by simp
next
  case (3 a b ds)
  then have "(if odd (length ds) then (bcd_bytes ds)[(length ds + 1) div 2 - 1 := bcd_bytes ds ! ((length ds + 1) div 2 - 1) OR 0xF0] else bcd_bytes ds) = bcd_pack ds" by simp
  then show ?case by (cases "(length ds + 1) div 2") (auto split: if_splits)
qed simp

lemma bcd_to_buffer_eq:
  assumes "list_all is_digit s"
  shows "ogs_bcd_to_buffer s = bcd_pack (bcd_digits s)"
proof -
  have "\<forall>d \<in> set (bcd_digits s). d < 10" using assms of_char_digit_nat(2) by (auto simp: bcd_digits_def list_all_iff)
  from bcd_pack_eq [OF this] show ?thesis using fold_bcd [OF assms, of 0 "[]"] by (cases "odd (length s)") (simp_all add: ogs_bcd_to_buffer_def Let_def)
qed

lemma digit_chars:
  assumes "a < 10" "b < 16"
  shows "low_digit (of_nat (a + 16 * b)) = digit a" "b < 10 \<Longrightarrow> high_digit (of_nat (a + 16 * b)) = digit b"
proof -
  have "unat (0x30 + of_nat n :: u8) = 48 + n" if "n < 10" for n
    using that by (simp add: unat_word_ariths unat_of_nat_small)
  then show "low_digit (of_nat (a + 16 * b)) = digit a" "b < 10 \<Longrightarrow> high_digit (of_nat (a + 16 * b)) = digit b"
    using nibbles [of a b] assms by (simp_all add: low_digit_def high_digit_def digit_def)
qed

lemma buffer_to_bcd_pack:
  assumes "\<forall>d \<in> set ds. d < 10" "ds \<noteq> []"
  shows "ogs_buffer_to_bcd (bcd_pack ds) = Some (map digit ds)"
  using assms
proof (induction ds rule: induct_list012)
  case (2 a) then show ?case using nibbles(6) [of a 15] digit_chars [of a 15] by simp
next
  case (3 a b ds)
  have c: "low_digit (of_nat (a + 16 * b)) = digit a" "high_digit (of_nat (a + 16 * b)) = digit b" "(of_nat (a + 16 * b) :: u8) AND 0xF0 \<noteq> 0xF0"
    using digit_chars [of a b] nibbles(6) [of a b] 3(3) by auto
  show ?case
  proof (cases "ds = []")
    case True then show ?thesis using c by simp
  next
    case False
    then obtain x xs where "bcd_pack ds = x # xs" by (cases ds rule: bcd_pack.cases) auto
    then show ?thesis using c 3(1) 3(3) False by simp
  qed
qed simp

theorem bcd_round_trip:
  assumes "list_all is_digit s" "s \<noteq> []"
  shows "ogs_buffer_to_bcd (ogs_bcd_to_buffer s) = Some s"
proof -
  have d: "\<forall>d \<in> set (bcd_digits s). d < 10" using assms(1) of_char_digit_nat(2) by (auto simp: bcd_digits_def list_all_iff)
  moreover have "map digit (bcd_digits s) = s" using assms(1) of_char_digit_nat(3) by (auto simp: bcd_digits_def list_all_iff intro: map_idI)
  ultimately show ?thesis using bcd_to_buffer_eq [OF assms(1)] buffer_to_bcd_pack [of "bcd_digits s"] assms(2) by (simp add: bcd_digits_def)
qed

text \<open>Hexadecimal texts: as much of the text as the buffer holds, also when the code has walked past its end and back.\<close>

lemma hex2: "printf_0x 2 (unat (b :: u8)) = [hex_digit (unat b div 16), hex_digit (unat b mod 16)]" "unat b div 16 < 16"
proof -
  have b: "unat b < 256" using unsigned_less [of b, where ?'a = nat] by simp
  then have d: "unat b div 16 < 16" by linarith
  have "CHR ''0'' = hex_digit 0" by code_simp
  then show "printf_0x 2 (unat b) = [hex_digit (unat b div 16), hex_digit (unat b mod 16)]" "unat b div 16 < 16"
    using d by (simp_all add: printf_0x_def hexs.simps [of "unat b"] hexs.simps [of "unat b div 16"])
qed

definition hex_text :: "u8 list \<Rightarrow> string" where
  "hex_text bs = concat (map (\<lambda>b. printf_0x 2 (unat b)) bs)"

definition printed :: "nat \<Rightarrow> string \<Rightarrow> int \<times> string \<Rightarrow> bool" where
  "printed n s po \<longleftrightarrow> length (snd po) = n
     \<and> (if length s < n then fst po = int (length s) \<and> take (length s) (snd po) = s \<and> snd po ! length s = CHR 0x00
        else int n - 1 \<le> fst po \<and> take (n - 1) (snd po) = take (n - 1) s \<and> snd po ! (n - 1) = CHR 0x00)"

lemma printed_slprintf:
  assumes "printed n s po" "0 < n" "0 < length t"
  shows "printed n (s @ t) (ogs_slprintf t po)"
proof -
  obtain p out where po: "po = (p, out)" by (cases po)
  have n: "length out = n" using assms(1) by (simp add: printed_def po)
  show ?thesis
  proof (cases "length s < n")
    case True
    then have p: "p = int (length s)" "take (length s) out = s" using assms(1) by (auto simp: printed_def po)
    then have "ogs_slprintf t po = (int (length (s @ t)), s @ (take (n - length s - 1) t @ [CHR 0x00]) @ drop (length s + length (take (n - length s - 1) t @ [CHR 0x00])) out)"
      using True n by (simp add: ogs_slprintf_def po Let_def)
    then show ?thesis using True n by (auto simp: printed_def nth_append min_def)
  next
    case False
    then have p: "int n - 1 \<le> p" "take (n - 1) out = take (n - 1) s" "out ! (n - 1) = CHR 0x00" using assms(1) by (auto simp: printed_def po)
    show ?thesis
    proof (cases "p < int n")
      case True
      then have "p = int n - 1" "nat p = n - 1" using p by simp_all
      then have "ogs_slprintf t po = (int n - 1 + int (length t), take (n - 1) out @ [CHR 0x00])"
        using n assms(2) by (simp add: ogs_slprintf_def po Let_def)
      then show ?thesis using False p n assms(2) by (auto simp: printed_def nth_append)
    next
      case False2: False
      then have "ogs_slprintf t po = (p - 1, out)" using n by (simp add: ogs_slprintf_def po Let_def)
      then show ?thesis using False False2 p n by (auto simp: printed_def)
    qed
  qed
qed

lemma printed_fold:
  assumes "printed n s po" "0 < n"
  shows "printed n (s @ hex_text bs) (fold (\<lambda>b. ogs_slprintf (printf_0x 2 (unat b))) bs po)"
  using assms(1)
proof (induction bs arbitrary: s po)
  case (Cons b bs)
  have "printed n (s @ printf_0x 2 (unat b)) (ogs_slprintf (printf_0x 2 (unat b)) po)" using printed_slprintf [OF Cons.prems assms(2)] hex2(1) [of b] by simp
  from Cons.IH [OF this] show ?case by (simp add: hex_text_def)
qed (simp add: hex_text_def)

lemma hex_text_facts: "length (hex_text bs) = 2 * length bs" "CHR 0x00 \<notin> set (hex_text bs)"
proof (induction bs)
  case (Cons b bs)
  have "unat b mod 16 < 16" by simp
  then have "hex_digit (unat b div 16) \<noteq> CHR 0x00" "hex_digit (unat b mod 16) \<noteq> CHR 0x00"
    using hex_digit_not_special(2) [OF hex2(2) [of b]] hex_digit_not_special(2) [of "unat b mod 16"] by simp_all
  then show "length (hex_text (b # bs)) = 2 * length (b # bs)" "CHR 0x00 \<notin> set (hex_text (b # bs))" using Cons hex2(1) [of b] by (auto simp: hex_text_def)
qed (simp_all add: hex_text_def)

lemma cstr_append: "CHR 0x00 \<notin> set s \<Longrightarrow> cstr (s @ CHR 0x00 # t) = s"
  by (induction s) (auto simp: cstr_def)

theorem hex_to_ascii_prints:
  assumes "out \<noteq> []"
  shows "\<exists>r. ogs_hex_to_ascii bs out = Some r \<and> length r = length out \<and> cstr r = take (length out - 1) (hex_text bs)"
proof -
  let ?n = "length out" and ?l = "min (length bs) (length out)"
  let ?r = "fold (\<lambda>b. ogs_slprintf (printf_0x 2 (unat b))) (take ?l bs) (0, out[0 := CHR 0x00])"
  have "printed ?n [] (0, out[0 := CHR 0x00])" using assms by (simp add: printed_def)
  then have "printed ?n ([] @ hex_text (take ?l bs)) ?r" using assms by (intro printed_fold) simp_all
  then have r: "printed ?n (hex_text (take ?l bs)) ?r" by simp
  have t: "take (?n - 1) (hex_text (take ?l bs)) = take (?n - 1) (hex_text bs)"
  proof (cases "length bs \<le> ?n")
    case False
    have "hex_text bs = hex_text (take ?n bs) @ hex_text (drop ?n bs)" by (simp add: hex_text_def flip: concat_append map_append)
    then show ?thesis using False hex_text_facts(1) [of "take ?n bs"] by (simp add: min_def)
  qed (simp add: min_def)
  have "cstr (snd ?r) = take (?n - 1) (hex_text (take ?l bs))"
  proof (cases "length (hex_text (take ?l bs)) < ?n")
    case True
    let ?k = "length (hex_text (take ?l bs))"
    obtain t where "snd ?r = hex_text (take ?l bs) @ CHR 0x00 # t" using r True id_take_nth_drop [of ?k "snd ?r"] by (simp add: printed_def)
    then show ?thesis using True cstr_append [OF hex_text_facts(2)] by simp
  next
    case False
    have "snd ?r = take (?n - 1) (hex_text (take ?l bs)) @ CHR 0x00 # []" using r False id_take_nth_drop [of "?n - 1" "snd ?r"] assms by (simp add: printed_def)
    moreover have "CHR 0x00 \<notin> set (take (?n - 1) (hex_text (take ?l bs)))" using hex_text_facts(2) [of "take ?l bs"] by (auto dest: in_set_takeD)
    ultimately show ?thesis using cstr_append by metis
  qed
  then show ?thesis using r t assms by (auto simp: ogs_hex_to_ascii_def Let_def printed_def min_def)
qed

lemma hex_val_digit: "n < 16 \<Longrightarrow> hex_val (hex_digit n) = of_nat n"
proof -
  assume n: "n < 16"
  then have "of_char (hex_digit n) = (of_nat (if n < 10 then 48 + n else 87 + n) :: u8)" using of_char_hex_digit [OF n] of_nat_of_char by metis
  then show ?thesis using n of_char_hex_digit [OF n] by (auto simp: hex_val_def is_digit_def is_lower_def)
qed

lemma byte_halves: "push_bit 4 (of_nat (unat b div 16)) OR of_nat (unat b mod 16) = (b :: u8)"
proof -
  have "unat b mod 16 < 16" "unat b div 16 < 16" using hex2(2) [of b] by simp_all
  from nibbles(3) [OF this] show ?thesis by (simp add: or.commute)
qed

lemma ascii_to_hex_text:
  "length out + length bs \<le> n \<Longrightarrow> ascii_to_hex (hex_text bs) n None out = out @ bs"
proof (induction bs arbitrary: out)
  case (Cons b bs)
  have d: "unat b mod 16 < 16" "unat b div 16 < 16" using hex2(2) [of b] by simp_all
  have "hex_text (b # bs) = hex_digit (unat b div 16) # hex_digit (unat b mod 16) # hex_text bs" using hex2(1) [of b] by (simp add: hex_text_def)
  then show ?case using Cons hex_digit_not_special(1) [OF d(1)] hex_digit_not_special(1) [OF d(2)] hex_val_digit [OF d(1)] hex_val_digit [OF d(2)] byte_halves [of b]
    by simp
qed (simp add: hex_text_def)

theorem hex_round_trip:
  assumes "2 * length bs < length out" "length bs \<le> n"
  shows "map_option (\<lambda>r. ogs_ascii_to_hex (cstr r) n) (ogs_hex_to_ascii bs out) = Some bs"
proof -
  have "out \<noteq> []" using assms(1) by auto
  then obtain r where r: "ogs_hex_to_ascii bs out = Some r" "cstr r = take (length out - 1) (hex_text bs)" using hex_to_ascii_prints by blast
  moreover have "take (length out - 1) (hex_text bs) = hex_text bs" using hex_text_facts(1) [of bs] assms(1) by simp
  ultimately show ?thesis using ascii_to_hex_text [of "[]" bs n] assms(2) by (simp add: ogs_ascii_to_hex_def)
qed

end
