(* ===== verification/Pfcp_Types.thy ===== *)
theory Pfcp_Types
  imports Pfcp_Xact Ogs_Conv
begin

unbundle bit_operations_syntax

section \<open>Information elements of PFCP (lib/pfcp/types.c) and domain names (lib/proto/types.c)\<close>

text \<open>
  Elements with optional fields are built into a buffer and parsed from the value of a TLV. A builder here returns the bytes it writes: a failed
  assertion on the length of the buffer and a write behind its end are \<open>None\<close>. A parser gets the memory from
  \<open>octet->data\<close> on, of which the first \<open>octet->len\<close> bytes are the value; reading behind that memory is \<open>None\<close>. It returns the number of
  bytes it decoded, zero for an error, and the structure as far as it is filled in. Flags are the bits of
  the first byte, as the bit fields of the structures have them; numbers in network byte order are written and read with \<open>be16\<close>, \<open>be32\<close>, \<open>be64\<close>.
  Sizes are natural numbers. The code has them as \<open>int16_t\<close>, which is the same for elements below \<open>2 ^ 15\<close> bytes; the buffers of its callers and the datagrams
  it receives are shorter. The size of an SDF filter is given before it is converted to \<open>int16_t\<close>.
\<close>

definition bytes_at :: "u8 list \<Rightarrow> nat \<Rightarrow> nat \<Rightarrow> u8 list option" where
  "bytes_at m i n = (if i + n \<le> length m then Some (take n (drop i m)) else None)"

text \<open>One write of a builder, one optional field of a parser with the check of its length, and one without.\<close>

definition put :: "nat \<Rightarrow> u8 list \<Rightarrow> u8 list \<Rightarrow> u8 list option" where
  "put data_len bs out = (if length out + length bs \<le> data_len then Some (out @ bs) else None)"

definition put_if :: "bool \<Rightarrow> nat \<Rightarrow> u8 list \<Rightarrow> u8 list \<Rightarrow> u8 list option" where
  "put_if p data_len bs out = (if p then put data_len bs out else Some out)"

type_synonym 'a decoding = "((nat \<times> 'a) + (nat \<times> 'a)) option"

text \<open>\<open>Inl\<close> is a result that is returned, \<open>Inr\<close> the state in which parsing goes on.\<close>

definition parse_then :: "'a decoding \<Rightarrow> (nat \<times> 'a \<Rightarrow> 'a decoding) \<Rightarrow> 'a decoding" where
  "parse_then d f = (case d of None \<Rightarrow> None | Some (Inl r) \<Rightarrow> Some (Inl r) | Some (Inr s) \<Rightarrow> f s)"

definition field :: "('a \<Rightarrow> bool) \<Rightarrow> nat \<Rightarrow> (u8 list \<Rightarrow> 'a \<Rightarrow> 'a) \<Rightarrow> u8 list \<Rightarrow> nat \<Rightarrow> nat \<times> 'a \<Rightarrow> 'a decoding" where
  "field present n store m len sx =
     (let (sz, x) = sx
      in if \<not> present x then Some (Inr (sz, x))
         else if sz + n > len then Some (Inl (0, x))
         else map_option (\<lambda>bs. Inr (sz + n, store bs x)) (bytes_at m sz n))"

definition unchecked_field :: "('a \<Rightarrow> bool) \<Rightarrow> nat \<Rightarrow> (u8 list \<Rightarrow> 'a \<Rightarrow> 'a) \<Rightarrow> u8 list \<Rightarrow> nat \<times> 'a \<Rightarrow> (nat \<times> 'a) option" where
  "unchecked_field present n store m sx =
     (let (sz, x) = sx
      in if \<not> present x then Some (sz, x) else map_option (\<lambda>bs. (sz + n, store bs x)) (bytes_at m sz n))"

definition decoded :: "'a decoding \<Rightarrow> (nat \<times> 'a) option" where
  "decoded d = map_option (\<lambda>r. case r of Inl x \<Rightarrow> x | Inr x \<Rightarrow> x) d"

text \<open>Reading numbers: \<open>be32toh\<close> is the change of byte order on a little-endian machine.\<close>

fun be16_at :: "u8 list \<Rightarrow> u16" where
  "be16_at [a, b] = rd16 a b"
| "be16_at _ = 0"

fun be32_at :: "u8 list \<Rightarrow> u32" where
  "be32_at [a, b, c, d] = rd32 a b c d"
| "be32_at _ = 0"

fun be64_at :: "u8 list \<Rightarrow> u64" where
  "be64_at [a, b, c, d, e, f, g, h] = push_bit 32 (ucast (rd32 a b c d)) OR ucast (rd32 e f g h)"
| "be64_at _ = 0"

fun le16_at :: "u8 list \<Rightarrow> u16" where
  "le16_at [a, b] = rd16 b a"
| "le16_at _ = 0"

definition be32toh :: "u32 \<Rightarrow> u32" where
  "be32toh x = be32_at (le32 x)"

subsection \<open>Domain names\<close>

text \<open>\<open>ogs_fqdn_build\<close>: \<open>i\<close> is the position in the name, \<open>j\<close> the length of the current label so far.\<close>

fun fqdn_build_loop :: "u8 list \<Rightarrow> nat \<Rightarrow> nat \<Rightarrow> u8 list \<Rightarrow> u8 list" where
  "fqdn_build_loop [] i j dst = dst[i - j := of_nat j]"
| "fqdn_build_loop (c # src) i j dst =
     (if c = 46 then fqdn_build_loop src (i + 1) 0 (dst[i - j := of_nat j])
      else fqdn_build_loop src (i + 1) (j + 1) (dst[i + 1 := c]))"

definition ogs_fqdn_build :: "u8 list \<Rightarrow> u8 list \<Rightarrow> (nat \<times> u8 list) option" where
  "ogs_fqdn_build dst src = (if length src < length dst then Some (length src + 1, fqdn_build_loop src 0 0 dst) else None)"

text \<open>\<open>ogs_fqdn_parse\<close>: \<open>out\<close> are the \<open>j\<close> characters written so far; \<open>Some None\<close> is \<open>-EINVAL\<close>.\<close>

function fqdn_parse_loop :: "u8 list \<Rightarrow> nat \<Rightarrow> nat \<Rightarrow> u8 list \<Rightarrow> u8 list option option" where
  "fqdn_parse_loop m len i out =
     (if i + 1 \<le> len
      then if i \<ge> length m then None
           else if length out + unat (m ! i) + 1 > len then Some None
           else (case bytes_at m (i + 1) (unat (m ! i)) of
                   None \<Rightarrow> None
                 | Some label \<Rightarrow>
                     fqdn_parse_loop m len (i + 1 + unat (m ! i))
                       (if i + 1 + unat (m ! i) + 1 < len then out @ label @ [46] else out @ label))
      else Some (Some out))"
  by pat_completeness auto
termination by (relation "measure (\<lambda>(m, len, i, out). len - i)") auto

declare fqdn_parse_loop.simps [simp del]

definition ogs_fqdn_parse :: "u8 list \<Rightarrow> nat \<Rightarrow> u8 list option option" where
  "ogs_fqdn_parse src len = fqdn_parse_loop src len 0 []"

subsection \<open>User plane IP resource information\<close>

definition OGS_MAX_APN_LEN :: nat where "OGS_MAX_APN_LEN = 100"

record up_ip_resource_info =
  ui_flags :: u8
  ui_teid_range :: u8
  ui_addr :: u32
  ui_addr6 :: "u8 list"
  ui_network_instance :: "u8 list"
  ui_source_interface :: u8

definition zero_info :: up_ip_resource_info where
  "zero_info = \<lparr>ui_flags = 0, ui_teid_range = 0, ui_addr = 0, ui_addr6 = replicate 16 0, ui_network_instance = [], ui_source_interface = 0\<rparr>"

definition ui_v4 :: "up_ip_resource_info \<Rightarrow> bool" where "ui_v4 x = bit (ui_flags x) 0"
definition ui_v6 :: "up_ip_resource_info \<Rightarrow> bool" where "ui_v6 x = bit (ui_flags x) 1"
definition ui_teidri :: "up_ip_resource_info \<Rightarrow> bool" where "ui_teidri x = (bit (ui_flags x) 2 \<or> bit (ui_flags x) 3 \<or> bit (ui_flags x) 4)"
definition ui_assoni :: "up_ip_resource_info \<Rightarrow> bool" where "ui_assoni x = bit (ui_flags x) 5"
definition ui_assosi :: "up_ip_resource_info \<Rightarrow> bool" where "ui_assosi x = bit (ui_flags x) 6"

text \<open>The network instance is a C string; building it is not guarded by an assertion.\<close>

definition ogs_pfcp_build_user_plane_ip_resource_info :: "up_ip_resource_info \<Rightarrow> nat \<Rightarrow> u8 list option" where
  "ogs_pfcp_build_user_plane_ip_resource_info info data_len =
     do { ogs_assert (data_len \<noteq> 0);
          out \<leftarrow> put data_len [ui_flags info] [];
          out \<leftarrow> put_if (ui_teidri info) data_len [ui_teid_range info] out;
          out \<leftarrow> put_if (ui_v4 info) data_len (be32 (ui_addr info)) out;
          out \<leftarrow> put_if (ui_v6 info) data_len (ui_addr6 info) out;
          out \<leftarrow> (if ui_assoni info
                   then do { (n, bs) \<leftarrow> ogs_fqdn_build (replicate (length (ui_network_instance info) + 1) 0) (ui_network_instance info);
                             put data_len (take n bs) out }
                   else Some out);
          put_if (ui_assosi info) data_len [ui_source_interface info] out }"

definition parse_network_instance :: "u8 list \<Rightarrow> nat \<Rightarrow> nat \<times> up_ip_resource_info \<Rightarrow> up_ip_resource_info decoding" where
  "parse_network_instance m len sx =
     (let (sz, x) = sx; n = int len - int sz
      in if \<not> ui_assoni x then Some (Inr (sz, x))
         else if n \<le> 0 then Some (Inl (0, x))
         else let n = (if ui_assosi x then n - 1 else n)
              in if n \<le> 0 then Some (Inl (0, x))
                 else map_option (\<lambda>r. Inr (sz + nat n, x\<lparr>ui_network_instance := (case r of None \<Rightarrow> [] | Some s \<Rightarrow> s)\<rparr>))
                        (ogs_fqdn_parse (drop sz m) (min (nat n) OGS_MAX_APN_LEN)))"

definition ogs_pfcp_parse_user_plane_ip_resource_info :: "u8 list \<Rightarrow> nat \<Rightarrow> (nat \<times> up_ip_resource_info) option" where
  "ogs_pfcp_parse_user_plane_ip_resource_info m len =
     do { bs \<leftarrow> bytes_at m 0 1;
          let x = zero_info\<lparr>ui_flags := hd bs\<rparr>;
          decoded
            (parse_then (parse_then (parse_then (parse_then
              (field ui_teidri 1 (\<lambda>bs x. x\<lparr>ui_teid_range := hd bs\<rparr>) m len (1, x))
              (field ui_v4 4 (\<lambda>bs x. x\<lparr>ui_addr := be32_at bs\<rparr>) m len))
              (field ui_v6 16 (\<lambda>bs x. x\<lparr>ui_addr6 := bs\<rparr>) m len))
              (parse_network_instance m len))
              (field ui_assosi 1 (\<lambda>bs x. x\<lparr>ui_source_interface := hd bs\<rparr>) m len)) }"

subsection \<open>SDF filters\<close>

text \<open>The flow description is a pointer with a length; \<open>None\<close> when it does not lie within the memory.\<close>

record sdf_filter =
  sf_flags :: u8
  sf_spare2 :: u8
  sf_flow_description_len :: u16
  sf_flow_description :: "u8 list option"
  sf_tos_traffic_class :: u16
  sf_security_parameter_index :: u32
  sf_flow_label :: u32
  sf_sdf_filter_id :: u32

definition zero_filter :: sdf_filter where
  "zero_filter = \<lparr>sf_flags = 0, sf_spare2 = 0, sf_flow_description_len = 0, sf_flow_description = None, sf_tos_traffic_class = 0,
     sf_security_parameter_index = 0, sf_flow_label = 0, sf_sdf_filter_id = 0\<rparr>"

definition sf_fd :: "sdf_filter \<Rightarrow> bool" where "sf_fd x = bit (sf_flags x) 0"
definition sf_ttc :: "sdf_filter \<Rightarrow> bool" where "sf_ttc x = bit (sf_flags x) 1"
definition sf_spi :: "sdf_filter \<Rightarrow> bool" where "sf_spi x = bit (sf_flags x) 2"
definition sf_fl :: "sdf_filter \<Rightarrow> bool" where "sf_fl x = bit (sf_flags x) 3"
definition sf_bid :: "sdf_filter \<Rightarrow> bool" where "sf_bid x = bit (sf_flags x) 4"

definition ogs_pfcp_build_sdf_filter :: "sdf_filter \<Rightarrow> nat \<Rightarrow> u8 list option" where
  "ogs_pfcp_build_sdf_filter x data_len =
     do { ogs_assert (data_len \<noteq> 0);
          out \<leftarrow> put data_len [sf_flags x] [];
          out \<leftarrow> put data_len [sf_spare2 x] out;
          out \<leftarrow> (if sf_fd x
                   then do { out \<leftarrow> put data_len (be16 (sf_flow_description_len x)) out;
                             fd \<leftarrow> sf_flow_description x;
                             bs \<leftarrow> bytes_at fd 0 (unat (sf_flow_description_len x));
                             put data_len bs out }
                   else Some out);
          out \<leftarrow> put_if (sf_ttc x) data_len (be16 (sf_tos_traffic_class x)) out;
          out \<leftarrow> put_if (sf_spi x) data_len (be32 (sf_security_parameter_index x)) out;
          out \<leftarrow> put_if (sf_fl x) data_len (take 3 (be32 (sf_flow_label x))) out;
          put_if (sf_bid x) data_len (be32 (sf_sdf_filter_id x)) out }"

text \<open>The length of the flow description is not compared with the length of the element.\<close>

definition parse_flow_description :: "u8 list \<Rightarrow> nat \<Rightarrow> nat \<times> sdf_filter \<Rightarrow> sdf_filter decoding" where
  "parse_flow_description m len sx =
     parse_then (field sf_fd 2 (\<lambda>bs x. x\<lparr>sf_flow_description_len := be16_at bs\<rparr>) m len sx)
       (\<lambda>(sz, x). if sf_fd x then Some (Inr (sz + unat (sf_flow_description_len x),
                      x\<lparr>sf_flow_description := bytes_at m sz (unat (sf_flow_description_len x))\<rparr>))
                    else Some (Inr (sz, x)))"

definition ogs_pfcp_parse_sdf_filter :: "u8 list \<Rightarrow> nat \<Rightarrow> (nat \<times> sdf_filter) option" where
  "ogs_pfcp_parse_sdf_filter m len =
     decoded
       (parse_then (parse_then (parse_then (parse_then (parse_then (parse_then
         (field (\<lambda>_. True) 1 (\<lambda>bs x. x\<lparr>sf_flags := hd bs\<rparr>) m len (0, zero_filter))
         (field (\<lambda>_. True) 1 (\<lambda>bs x. x\<lparr>sf_spare2 := hd bs\<rparr>) m len))
         (parse_flow_description m len))
         (field sf_ttc 2 (\<lambda>bs x. x\<lparr>sf_tos_traffic_class := ucast (be32toh (ucast (le16_at bs)))\<rparr>) m len))
         (field sf_spi 4 (\<lambda>bs x. x\<lparr>sf_security_parameter_index := be32_at bs\<rparr>) m len))
         (field sf_fl 3 (\<lambda>bs x. x\<lparr>sf_flow_label := be32_at (bs @ [0])\<rparr>) m len))
         (field sf_bid 4 (\<lambda>bs x. x\<lparr>sf_sdf_filter_id := be32_at bs\<rparr>) m len))"

subsection \<open>Bit rates\<close>

definition OGS_PFCP_BITRATE_LEN :: nat where "OGS_PFCP_BITRATE_LEN = 10"

record pfcp_bitrate =
  br_uplink :: u64
  br_downlink :: u64

definition to_kbps :: "u64 \<Rightarrow> u64" where
  "to_kbps x = x div 1000 + (if x mod 1000 \<noteq> 0 then 1 else 0)"

definition ogs_pfcp_build_bitrate :: "pfcp_bitrate \<Rightarrow> nat \<Rightarrow> u8 list option" where
  "ogs_pfcp_build_bitrate b data_len =
     do { ogs_assert (data_len \<ge> OGS_PFCP_BITRATE_LEN);
          u \<leftarrow> ogs_uint64_to_buffer (to_kbps (br_uplink b)) 5;
          d \<leftarrow> ogs_uint64_to_buffer (to_kbps (br_downlink b)) 5;
          Some (u @ d) }"

definition ogs_pfcp_parse_bitrate :: "u8 list \<Rightarrow> nat \<Rightarrow> (nat \<times> pfcp_bitrate) option" where
  "ogs_pfcp_parse_bitrate m len =
     do { ogs_assert (len = OGS_PFCP_BITRATE_LEN);
          u \<leftarrow> ogs_buffer_to_uint64 m 5;
          d \<leftarrow> ogs_buffer_to_uint64 (drop 5 m) 5;
          Some (10, \<lparr>br_uplink = u * 1000, br_downlink = d * 1000\<rparr>) }"

subsection \<open>Volumes\<close>

record volume_threshold =
  vt_flags :: u8
  vt_total_volume :: u64
  vt_uplink_volume :: u64
  vt_downlink_volume :: u64

definition vt_tovol :: "('a volume_threshold_scheme) \<Rightarrow> bool" where "vt_tovol x = bit (vt_flags x) 0"
definition vt_ulvol :: "('a volume_threshold_scheme) \<Rightarrow> bool" where "vt_ulvol x = bit (vt_flags x) 1"
definition vt_dlvol :: "('a volume_threshold_scheme) \<Rightarrow> bool" where "vt_dlvol x = bit (vt_flags x) 2"

definition ogs_pfcp_build_volume :: "volume_threshold \<Rightarrow> nat \<Rightarrow> u8 list option" where
  "ogs_pfcp_build_volume x data_len =
     do { ogs_assert (data_len \<ge> 25);
          ogs_assert (vt_flags x \<noteq> 0);
          out \<leftarrow> put data_len [vt_flags x] [];
          out \<leftarrow> put_if (vt_tovol x) data_len (be64 (vt_total_volume x)) out;
          out \<leftarrow> put_if (vt_ulvol x) data_len (be64 (vt_uplink_volume x)) out;
          put_if (vt_dlvol x) data_len (be64 (vt_downlink_volume x)) out }"

definition ogs_pfcp_parse_volume :: "u8 list \<Rightarrow> nat \<Rightarrow> (nat \<times> volume_threshold) option" where
  "ogs_pfcp_parse_volume m len =
     do { bs \<leftarrow> bytes_at m 0 1;
          decoded
            (parse_then (parse_then
              (field vt_tovol 8 (\<lambda>bs x. x\<lparr>vt_total_volume := be64_at bs\<rparr>) m len
                (1, \<lparr>vt_flags = hd bs, vt_total_volume = 0, vt_uplink_volume = 0, vt_downlink_volume = 0\<rparr>))
              (field vt_ulvol 8 (\<lambda>bs x. x\<lparr>vt_uplink_volume := be64_at bs\<rparr>) m len))
              (field vt_dlvol 8 (\<lambda>bs x. x\<lparr>vt_downlink_volume := be64_at bs\<rparr>) m len)) }"

record dropped_dl_traffic_threshold =
  dt_flags :: u8
  dt_downlink_packets :: u64
  dt_bytes_of_downlink_data :: u64

definition dt_dlpa :: "dropped_dl_traffic_threshold \<Rightarrow> bool" where "dt_dlpa x = bit (dt_flags x) 0"
definition dt_dlby :: "dropped_dl_traffic_threshold \<Rightarrow> bool" where "dt_dlby x = bit (dt_flags x) 1"

definition ogs_pfcp_build_dropped_dl_traffic_threshold :: "dropped_dl_traffic_threshold \<Rightarrow> nat \<Rightarrow> u8 list option" where
  "ogs_pfcp_build_dropped_dl_traffic_threshold x data_len =
     do { ogs_assert (data_len \<ge> 17);
          ogs_assert (dt_flags x \<noteq> 0);
          out \<leftarrow> put data_len [dt_flags x] [];
          out \<leftarrow> put_if (dt_dlpa x) data_len (be64 (dt_downlink_packets x)) out;
          put_if (dt_dlby x) data_len (be64 (dt_bytes_of_downlink_data x)) out }"

definition ogs_pfcp_parse_dropped_dl_traffic_threshold :: "u8 list \<Rightarrow> nat \<Rightarrow> (nat \<times> dropped_dl_traffic_threshold) option" where
  "ogs_pfcp_parse_dropped_dl_traffic_threshold m len =
     do { bs \<leftarrow> bytes_at m 0 1;
          s \<leftarrow> unchecked_field dt_dlpa 8 (\<lambda>bs x. x\<lparr>dt_downlink_packets := be64_at bs\<rparr>) m
                 (1, \<lparr>dt_flags = hd bs, dt_downlink_packets = 0, dt_bytes_of_downlink_data = 0\<rparr>);
          (sz, x) \<leftarrow> unchecked_field dt_dlby 8 (\<lambda>bs x. x\<lparr>dt_bytes_of_downlink_data := be64_at bs\<rparr>) m s;
          ogs_assert (sz = len);
          Some (sz, x) }"

record volume_measurement = volume_threshold +
  vm_total_n_packets :: u64
  vm_uplink_n_packets :: u64
  vm_downlink_n_packets :: u64

definition vm_tonop :: "volume_measurement \<Rightarrow> bool" where "vm_tonop x = bit (vt_flags x) 3"
definition vm_ulnop :: "volume_measurement \<Rightarrow> bool" where "vm_ulnop x = bit (vt_flags x) 4"
definition vm_dlnop :: "volume_measurement \<Rightarrow> bool" where "vm_dlnop x = bit (vt_flags x) 5"

definition ogs_pfcp_build_volume_measurement :: "volume_measurement \<Rightarrow> nat \<Rightarrow> u8 list option" where
  "ogs_pfcp_build_volume_measurement x data_len =
     do { ogs_assert (data_len \<ge> 49);
          ogs_assert (vt_flags x \<noteq> 0);
          out \<leftarrow> put data_len [vt_flags x] [];
          out \<leftarrow> put_if (vt_tovol x) data_len (be64 (vt_total_volume x)) out;
          out \<leftarrow> put_if (vt_ulvol x) data_len (be64 (vt_uplink_volume x)) out;
          out \<leftarrow> put_if (vt_dlvol x) data_len (be64 (vt_downlink_volume x)) out;
          out \<leftarrow> put_if (vm_tonop x) data_len (be64 (vm_total_n_packets x)) out;
          out \<leftarrow> put_if (vm_ulnop x) data_len (be64 (vm_uplink_n_packets x)) out;
          put_if (vm_dlnop x) data_len (be64 (vm_downlink_n_packets x)) out }"

definition zero_measurement :: "u8 \<Rightarrow> volume_measurement" where
  "zero_measurement f = \<lparr>vt_flags = f, vt_total_volume = 0, vt_uplink_volume = 0, vt_downlink_volume = 0,
     vm_total_n_packets = 0, vm_uplink_n_packets = 0, vm_downlink_n_packets = 0\<rparr>"

definition ogs_pfcp_parse_volume_measurement :: "u8 list \<Rightarrow> nat \<Rightarrow> (nat \<times> volume_measurement) option" where
  "ogs_pfcp_parse_volume_measurement m len =
     do { bs \<leftarrow> bytes_at m 0 1;
          s \<leftarrow> unchecked_field vt_tovol 8 (\<lambda>bs x. x\<lparr>vt_total_volume := be64_at bs\<rparr>) m (1, zero_measurement (hd bs));
          s \<leftarrow> unchecked_field vt_ulvol 8 (\<lambda>bs x. x\<lparr>vt_uplink_volume := be64_at bs\<rparr>) m s;
          s \<leftarrow> unchecked_field vt_dlvol 8 (\<lambda>bs x. x\<lparr>vt_downlink_volume := be64_at bs\<rparr>) m s;
          s \<leftarrow> unchecked_field vm_tonop 8 (\<lambda>bs x. x\<lparr>vm_total_n_packets := be64_at bs\<rparr>) m s;
          s \<leftarrow> unchecked_field vm_ulnop 8 (\<lambda>bs x. x\<lparr>vm_uplink_n_packets := be64_at bs\<rparr>) m s;
          (sz, x) \<leftarrow> unchecked_field vm_dlnop 8 (\<lambda>bs x. x\<lparr>vm_downlink_n_packets := be64_at bs\<rparr>) m s;
          ogs_assert (sz = len);
          Some (sz, x) }"

definition ogs_pfcp_parse_usage_report_trigger :: "u32 \<Rightarrow> u8 \<times> u8 \<times> u8" where
  "ogs_pfcp_parse_usage_report_trigger u24 =
     (ucast (drop_bit 16 u24 AND 0xff), ucast (drop_bit 8 u24 AND 0xff), ucast (u24 AND 0xff))"

subsection \<open>User identifiers\<close>

text \<open>The three identifiers have arrays of fixed size in the structure; a length beyond the array is \<open>None\<close>.\<close>

record pfcp_user_id =
  uid_flags :: u8
  uid_imsi_len :: u8
  uid_imsi :: "u8 list"
  uid_imeisv_len :: u8
  uid_imeisv :: "u8 list"
  uid_msisdn_len :: u8
  uid_msisdn :: "u8 list"

definition put_id :: "bool \<Rightarrow> nat \<Rightarrow> u8 \<Rightarrow> u8 list \<Rightarrow> u8 list \<Rightarrow> u8 list option" where
  "put_id p data_len n arr out =
     (if p then do { out \<leftarrow> put data_len [n] out; bs \<leftarrow> bytes_at arr 0 (unat n); put data_len bs out } else Some out)"

definition ogs_pfcp_build_user_id :: "pfcp_user_id \<Rightarrow> nat \<Rightarrow> u8 list option" where
  "ogs_pfcp_build_user_id x data_len =
     do { ogs_assert (data_len \<noteq> 0);
          out \<leftarrow> put data_len [uid_flags x] [];
          out \<leftarrow> put_id (bit (uid_flags x) 0) data_len (uid_imsi_len x) (uid_imsi x) out;
          out \<leftarrow> put_id (bit (uid_flags x) 1) data_len (uid_imeisv_len x) (uid_imeisv x) out;
          put_id (bit (uid_flags x) 2) data_len (uid_msisdn_len x) (uid_msisdn x) out }"

subsection \<open>Numbers\<close>

lemma length_be64 [simp]: "length (be64 x) = 8"
  by (simp add: be64_def)

lemma be_at_be [simp]: "be16_at (be16 h) = h" "be32_at (be32 w) = w"
  by (simp_all add: be16_def be32_def)

lemma be64_at_be64 [simp]: "be64_at (be64 x) = x"
proof -
  have b: "be64_at (be64 x) = push_bit 32 (ucast (rd32 (ucast (drop_bit 56 x)) (ucast (drop_bit 48 x)) (ucast (drop_bit 40 x)) (ucast (drop_bit 32 x))))
      OR ucast (rd32 (ucast (drop_bit 24 x)) (ucast (drop_bit 16 x)) (ucast (drop_bit 8 x)) (ucast x))"
  proof -
    have "[0..<8] = [0, 1, 2, 3, 4, 5, 6, 7 :: nat]" by code_simp
    then show ?thesis by (simp add: be64_def le64_def)
  qed
  have r: "rd32 (ucast (drop_bit 24 y)) (ucast (drop_bit 16 y)) (ucast (drop_bit 8 y)) (ucast y) = ucast y" for y :: u64
  proof (rule bit_word_eqI)
    fix n assume "n < LENGTH(32)"
    then consider "n < 8" | "8 \<le> n" "n < 16" | "16 \<le> n" "n < 24" | "24 \<le> n" "n < 32" by force
    then show "bit (rd32 (ucast (drop_bit 24 y)) (ucast (drop_bit 16 y)) (ucast (drop_bit 8 y)) (ucast y)) n = bit (ucast y :: u32) n"
      by cases (auto simp: rd32_def bit_simps)
  qed
  from r [of "drop_bit 32 x"] r [of x] show ?thesis unfolding b by (intro bit_word_eqI) (auto simp: bit_simps)
qed

subsection \<open>Fields\<close>

lemma bytes_at_app [simp]: "length bs = n \<Longrightarrow> bytes_at (pre @ bs @ rs) (length pre) n = Some bs"
  by (simp add: bytes_at_def)

lemma put_eq: "put data_len bs out = Some r \<longleftrightarrow> r = out @ bs \<and> length out + length bs \<le> data_len"
  by (auto simp: put_def)

lemma put_if_eq: "put_if p data_len bs out = Some r \<longleftrightarrow> r = out @ (if p then bs else []) \<and> (p \<longrightarrow> length out + length bs \<le> data_len)"
  by (auto simp: put_if_def put_eq)

text \<open>A field that was written where the parser looks for it.\<close>

lemma field_at:
  assumes "m = pre @ (if present x then bs else []) @ rs" "present x \<Longrightarrow> length bs = n" "sz = length pre" "length (pre @ (if present x then bs else [])) \<le> len"
  shows "field present n store m len (sz, x) = Some (Inr (length (pre @ (if present x then bs else [])), if present x then store bs x else x))"
  using assms by (auto simp: field_def)

lemma unchecked_field_at:
  assumes "m = pre @ (if present x then bs else []) @ rs" "present x \<Longrightarrow> length bs = n" "sz = length pre"
  shows "unchecked_field present n store m (sz, x) = Some (length (pre @ (if present x then bs else [])), if present x then store bs x else x)"
  using assms by (auto simp: unchecked_field_def)

lemma parse_then_simps [simp]: "parse_then (Some (Inr s)) f = f s" "parse_then (Some (Inl r)) f = Some (Inl r)" "parse_then None f = None"
  "decoded (Some (Inr s)) = Some s" "decoded (Some (Inl s)) = Some s" "decoded None = None"
  by (simp_all add: parse_then_def decoded_def)

definition chunk :: "bool \<Rightarrow> u64 \<Rightarrow> u8 list" where
  "chunk p v = (if p then be64 v else [])"

lemma chunk_field:
  assumes "m = pre @ chunk p v @ rs" "present x = p" "p \<or> setv v x = x"
  shows "unchecked_field present 8 (\<lambda>bs. setv (be64_at bs)) m (length pre, x) = Some (length (pre @ chunk p v), setv v x)"
    "length (pre @ chunk p v) \<le> len \<Longrightarrow> field present 8 (\<lambda>bs. setv (be64_at bs)) m len (length pre, x) = Some (Inr (length (pre @ chunk p v), setv v x))"
  using assms by (auto simp: unchecked_field_def field_def chunk_def)

text \<open>Fields that are absent are zero.\<close>

definition volume_wf :: "'a volume_threshold_scheme \<Rightarrow> bool" where
  "volume_wf x \<longleftrightarrow> (vt_tovol x \<or> vt_total_volume x = 0) \<and> (vt_ulvol x \<or> vt_uplink_volume x = 0) \<and> (vt_dlvol x \<or> vt_downlink_volume x = 0)"

definition measurement_wf :: "volume_measurement \<Rightarrow> bool" where
  "measurement_wf x \<longleftrightarrow> volume_wf x \<and> (vm_tonop x \<or> vm_total_n_packets x = 0) \<and> (vm_ulnop x \<or> vm_uplink_n_packets x = 0)
     \<and> (vm_dlnop x \<or> vm_downlink_n_packets x = 0)"

lemmas volume_flags = vt_tovol_def vt_ulvol_def vt_dlvol_def vm_tonop_def vm_ulnop_def vm_dlnop_def

lemma volume_ok:
  assumes "ogs_pfcp_build_volume x data_len = Some bs" "volume_wf x"
  shows "ogs_pfcp_parse_volume (bs @ rs) (length bs) = Some (length bs, x)"
proof -
  define c1 c2 c3 where c: "c1 = chunk (vt_tovol x) (vt_total_volume x)" "c2 = chunk (vt_ulvol x) (vt_uplink_volume x)" "c3 = chunk (vt_dlvol x) (vt_downlink_volume x)"
  have b: "bs = [vt_flags x] @ c1 @ c2 @ c3" using assms(1) by (auto simp: ogs_pfcp_build_volume_def put_eq put_if_eq bind_eq_Some_conv c chunk_def)
  define x0 where "x0 = \<lparr>vt_flags = vt_flags x, vt_total_volume = 0, vt_uplink_volume = 0, vt_downlink_volume = 0\<rparr>"
  define x1 where "x1 = x0\<lparr>vt_total_volume := vt_total_volume x\<rparr>"
  define x2 where "x2 = x1\<lparr>vt_uplink_volume := vt_uplink_volume x\<rparr>"
  note xs = x0_def x1_def x2_def volume_flags
  let ?m = "bs @ rs" and ?l = "length bs"
  have 1: "field vt_tovol 8 (\<lambda>bs x. x\<lparr>vt_total_volume := be64_at bs\<rparr>) ?m ?l (length [vt_flags x], x0) = Some (Inr (length ([vt_flags x] @ c1), x1))"
    unfolding c x1_def by (rule chunk_field(2) [where setv = "\<lambda>v x. x\<lparr>vt_total_volume := v\<rparr>"]) (use assms(2) in \<open>auto simp: b c xs volume_wf_def\<close>)
  have 2: "field vt_ulvol 8 (\<lambda>bs x. x\<lparr>vt_uplink_volume := be64_at bs\<rparr>) ?m ?l (length ([vt_flags x] @ c1), x1) = Some (Inr (length (([vt_flags x] @ c1) @ c2), x2))"
    unfolding c(2) x2_def by (rule chunk_field(2) [where setv = "\<lambda>v x. x\<lparr>vt_uplink_volume := v\<rparr>"]) (use assms(2) in \<open>auto simp: b c xs volume_wf_def\<close>)
  have 3: "field vt_dlvol 8 (\<lambda>bs x. x\<lparr>vt_downlink_volume := be64_at bs\<rparr>) ?m ?l (length (([vt_flags x] @ c1) @ c2), x2) = Some (Inr (length ((([vt_flags x] @ c1) @ c2) @ c3), x))"
  proof -
    have "x = x2\<lparr>vt_downlink_volume := vt_downlink_volume x\<rparr>" by (simp add: xs)
    then show ?thesis using chunk_field(2) [where setv = "\<lambda>v x. x\<lparr>vt_downlink_volume := v\<rparr>" and m = ?m and pre = "([vt_flags x] @ c1) @ c2" and p = "vt_dlvol x" and v = "vt_downlink_volume x"
        and rs = rs and present = vt_dlvol and x = x2 and len = ?l] assms(2) by (auto simp: b c(3) xs volume_wf_def)
  qed
  show ?thesis using 1 2 3 unfolding ogs_pfcp_parse_volume_def by (simp add: b bytes_at_def x0_def)
qed

lemma volume_measurement_ok:
  assumes "ogs_pfcp_build_volume_measurement x data_len = Some bs" "measurement_wf x"
  shows "ogs_pfcp_parse_volume_measurement (bs @ rs) (length bs) = Some (length bs, x)"
proof -
  define c1 c2 c3 c4 c5 c6 where c: "c1 = chunk (vt_tovol x) (vt_total_volume x)" "c2 = chunk (vt_ulvol x) (vt_uplink_volume x)" "c3 = chunk (vt_dlvol x) (vt_downlink_volume x)" "c4 = chunk (vm_tonop x) (vm_total_n_packets x)" "c5 = chunk (vm_ulnop x) (vm_uplink_n_packets x)" "c6 = chunk (vm_dlnop x) (vm_downlink_n_packets x)"
  have b: "bs = [vt_flags x] @ c1 @ c2 @ c3 @ c4 @ c5 @ c6"
    using assms(1) by (auto simp: ogs_pfcp_build_volume_measurement_def put_eq put_if_eq bind_eq_Some_conv c chunk_def)
  define x0 where "x0 = zero_measurement (vt_flags x)"
  define x1 where "x1 = x0\<lparr>vt_total_volume := vt_total_volume x\<rparr>"
  define x2 where "x2 = x1\<lparr>vt_uplink_volume := vt_uplink_volume x\<rparr>"
  define x3 where "x3 = x2\<lparr>vt_downlink_volume := vt_downlink_volume x\<rparr>"
  define x4 where "x4 = x3\<lparr>vm_total_n_packets := vm_total_n_packets x\<rparr>"
  define x5 where "x5 = x4\<lparr>vm_uplink_n_packets := vm_uplink_n_packets x\<rparr>"
  have x6: "x = x5\<lparr>vm_downlink_n_packets := vm_downlink_n_packets x\<rparr>" by (simp add: x0_def x1_def x2_def x3_def x4_def x5_def zero_measurement_def)
  note xs = x0_def x1_def x2_def x3_def x4_def x5_def volume_flags zero_measurement_def measurement_wf_def volume_wf_def
  let ?m = "bs @ rs"
  have 1: "unchecked_field vt_tovol 8 (\<lambda>bs x. x\<lparr>vt_total_volume := be64_at bs\<rparr>) ?m (length ([vt_flags x]), x0) = Some (length (([vt_flags x]) @ c1), x1)"
    unfolding c(1) x1_def by (rule chunk_field(1) [where setv = "\<lambda>v x. x\<lparr>vt_total_volume := v\<rparr>"]) (use assms(2) in \<open>auto simp: b c xs\<close>)
  have 2: "unchecked_field vt_ulvol 8 (\<lambda>bs x. x\<lparr>vt_uplink_volume := be64_at bs\<rparr>) ?m (length (([vt_flags x]) @ c1), x1) = Some (length ((([vt_flags x]) @ c1) @ c2), x2)"
    unfolding c(2) x2_def by (rule chunk_field(1) [where setv = "\<lambda>v x. x\<lparr>vt_uplink_volume := v\<rparr>"]) (use assms(2) in \<open>auto simp: b c xs\<close>)
  have 3: "unchecked_field vt_dlvol 8 (\<lambda>bs x. x\<lparr>vt_downlink_volume := be64_at bs\<rparr>) ?m (length ((([vt_flags x]) @ c1) @ c2), x2) = Some (length (((([vt_flags x]) @ c1) @ c2) @ c3), x3)"
    unfolding c(3) x3_def by (rule chunk_field(1) [where setv = "\<lambda>v x. x\<lparr>vt_downlink_volume := v\<rparr>"]) (use assms(2) in \<open>auto simp: b c xs\<close>)
  have 4: "unchecked_field vm_tonop 8 (\<lambda>bs x. x\<lparr>vm_total_n_packets := be64_at bs\<rparr>) ?m (length (((([vt_flags x]) @ c1) @ c2) @ c3), x3) = Some (length ((((([vt_flags x]) @ c1) @ c2) @ c3) @ c4), x4)"
    unfolding c(4) x4_def by (rule chunk_field(1) [where setv = "\<lambda>v x. x\<lparr>vm_total_n_packets := v\<rparr>"]) (use assms(2) in \<open>auto simp: b c xs\<close>)
  have 5: "unchecked_field vm_ulnop 8 (\<lambda>bs x. x\<lparr>vm_uplink_n_packets := be64_at bs\<rparr>) ?m (length ((((([vt_flags x]) @ c1) @ c2) @ c3) @ c4), x4) = Some (length (((((([vt_flags x]) @ c1) @ c2) @ c3) @ c4) @ c5), x5)"
    unfolding c(5) x5_def by (rule chunk_field(1) [where setv = "\<lambda>v x. x\<lparr>vm_uplink_n_packets := v\<rparr>"]) (use assms(2) in \<open>auto simp: b c xs\<close>)
  have 6: "unchecked_field vm_dlnop 8 (\<lambda>bs x. x\<lparr>vm_downlink_n_packets := be64_at bs\<rparr>) ?m (length (((((([vt_flags x]) @ c1) @ c2) @ c3) @ c4) @ c5), x5) = Some (length ((((((([vt_flags x]) @ c1) @ c2) @ c3) @ c4) @ c5) @ c6), x5\<lparr>vm_downlink_n_packets := vm_downlink_n_packets x\<rparr>)"
    unfolding c(6) by (rule chunk_field(1) [where setv = "\<lambda>v x. x\<lparr>vm_downlink_n_packets := v\<rparr>"]) (use assms(2) in \<open>auto simp: b c xs\<close>)
  show ?thesis using 1 2 3 4 5 6 x6 unfolding ogs_pfcp_parse_volume_measurement_def by (simp add: b bytes_at_def x0_def)
qed

lemma dropped_threshold_ok:
  assumes "ogs_pfcp_build_dropped_dl_traffic_threshold x data_len = Some bs" "dt_dlpa x \<or> dt_downlink_packets x = 0" "dt_dlby x \<or> dt_bytes_of_downlink_data x = 0"
  shows "ogs_pfcp_parse_dropped_dl_traffic_threshold (bs @ rs) (length bs) = Some (length bs, x)"
  using assms
  by (cases x) (auto simp: ogs_pfcp_build_dropped_dl_traffic_threshold_def ogs_pfcp_parse_dropped_dl_traffic_threshold_def put_eq put_if_eq
     bind_eq_Some_conv unchecked_field_def bytes_at_def dt_dlpa_def dt_dlby_def)

text \<open>The parsers of measurements and thresholds end in an assertion, so a value with a length that does not fit its flags aborts the receiver.\<close>

definition measured_len :: "u8 \<Rightarrow> nat" where
  "measured_len f = 1 + 8 * length (filter (bit f) [0..<6])"

lemma unchecked_field_sz:
  assumes "unchecked_field present n store m s = Some s'" "\<And>bs x. vt_flags (store bs x) = vt_flags x"
  shows "fst s' = fst s + (if present (snd s) then n else 0)" "vt_flags (snd s') = vt_flags (snd s)"
  using assms by (auto simp: unchecked_field_def split: if_splits prod.splits)

lemma measurement_len:
  assumes "ogs_pfcp_parse_volume_measurement m len = Some r"
  shows "len = measured_len (hd m)"
proof -
  have u: "[0..<6] = [0, 1, 2, 3, 4, 5 :: nat]" by code_simp
  obtain bs s1 s2 s3 s4 s5 s6 where s: "bytes_at m 0 1 = Some bs"
    "unchecked_field vt_tovol 8 (\<lambda>bs x. x\<lparr>vt_total_volume := be64_at bs\<rparr>) m (1, zero_measurement (hd bs)) = Some s1"
    "unchecked_field vt_ulvol 8 (\<lambda>bs x. x\<lparr>vt_uplink_volume := be64_at bs\<rparr>) m s1 = Some s2"
    "unchecked_field vt_dlvol 8 (\<lambda>bs x. x\<lparr>vt_downlink_volume := be64_at bs\<rparr>) m s2 = Some s3"
    "unchecked_field vm_tonop 8 (\<lambda>bs x. x\<lparr>vm_total_n_packets := be64_at bs\<rparr>) m s3 = Some s4"
    "unchecked_field vm_ulnop 8 (\<lambda>bs x. x\<lparr>vm_uplink_n_packets := be64_at bs\<rparr>) m s4 = Some s5"
    "unchecked_field vm_dlnop 8 (\<lambda>bs x. x\<lparr>vm_downlink_n_packets := be64_at bs\<rparr>) m s5 = Some s6" "len = fst s6"
    using assms by (auto simp: ogs_pfcp_parse_volume_measurement_def bind_eq_Some_conv)
  have h: "hd bs = hd m" using s(1) by (cases m) (auto simp: bytes_at_def split: if_splits)
  note f = unchecked_field_sz [OF s(2)] unchecked_field_sz [OF s(3)] unchecked_field_sz [OF s(4)] unchecked_field_sz [OF s(5)] unchecked_field_sz [OF s(6)] unchecked_field_sz [OF s(7)]
  show ?thesis unfolding s(8) measured_len_def u using h by (simp add: f volume_flags zero_measurement_def)
qed

subsection \<open>Bit rates and filters\<close>

lemma bitrate_ok:
  assumes "ogs_pfcp_build_bitrate b data_len = Some bs"
  shows "length bs = 10" "ogs_pfcp_parse_bitrate (bs @ rs) 10
    = Some (10, \<lparr>br_uplink = take_bit 40 (to_kbps (br_uplink b)) * 1000, br_downlink = take_bit 40 (to_kbps (br_downlink b)) * 1000\<rparr>)"
proof -
  obtain u d where b: "ogs_uint64_to_buffer (to_kbps (br_uplink b)) 5 = Some u" "ogs_uint64_to_buffer (to_kbps (br_downlink b)) 5 = Some d" "bs = u @ d"
    using assms by (auto simp: ogs_pfcp_build_bitrate_def bind_eq_Some_conv)
  have l: "length u = 5" "length d = 5" using b(1,2) uint64_to_buffer_length by blast+
  have app: "ogs_buffer_to_uint64 (v @ w) 5 = ogs_buffer_to_uint64 v 5" if "length v = 5" for v w
  proof -
    have "fold (\<lambda>i num. num OR push_bit ((5 - 1 - i) * 8) (ucast ((v @ w) ! i))) [0..<5] (0 :: u64) = fold (\<lambda>i num. num OR push_bit ((5 - 1 - i) * 8) (ucast (v ! i))) [0..<5] 0"
      by (rule fold_cong) (use that in \<open>auto simp: nth_append\<close>)
    then show ?thesis using that by (simp add: ogs_buffer_to_uint64_def)
  qed
  have r: "ogs_buffer_to_uint64 u 5 = Some (take_bit 40 (to_kbps (br_uplink b)))" "ogs_buffer_to_uint64 d 5 = Some (take_bit 40 (to_kbps (br_downlink b)))"
    using uint64_buffer_round_trip [of 5 "to_kbps (br_uplink b)"] uint64_buffer_round_trip [of 5 "to_kbps (br_downlink b)"] b(1,2) by simp_all
  show "length bs = 10" using l b(3) by simp
  show "ogs_pfcp_parse_bitrate (bs @ rs) 10
    = Some (10, \<lparr>br_uplink = take_bit 40 (to_kbps (br_uplink b)) * 1000, br_downlink = take_bit 40 (to_kbps (br_downlink b)) * 1000\<rparr>)"
    using r app [of u "d @ rs"] app [of d rs] l by (simp add: ogs_pfcp_parse_bitrate_def OGS_PFCP_BITRATE_LEN_def b(3))
qed

lemma kbps_round:
  assumes "unat x < 1000 * (2 ^ 40 - 1)"
  shows "unat x \<le> unat (take_bit 40 (to_kbps x) * 1000)" "unat (take_bit 40 (to_kbps x) * 1000) < unat x + 1000"
proof -
  have d: "unat (x div 1000) = unat x div 1000" "unat (x mod 1000) = unat x mod 1000" by (simp_all add: unat_div unat_mod)
  have lt: "unat x div 1000 < 2 ^ 40 - 1" using assms by (simp add: less_mult_imp_div_less mult.commute)
  have k: "unat (to_kbps x) = unat x div 1000 + (if unat x mod 1000 \<noteq> 0 then 1 else 0)"
    using lt d by (auto simp: to_kbps_def unat_word_ariths word_unat_eq_iff)
  then have kb: "unat (to_kbps x) < 2 ^ 40" using lt by auto
  then have t: "take_bit 40 (to_kbps x) = to_kbps x" by (rule small_take_bit)
  have m: "unat (to_kbps x * 1000) = unat (to_kbps x) * 1000" using kb by (simp add: unat_word_ariths)
  define a r where "a = unat x div 1000" "r = unat x mod 1000"
  then have "unat x = a * 1000 + r" "r < 1000" by simp_all
  then show "unat x \<le> unat (take_bit 40 (to_kbps x) * 1000)" "unat (take_bit 40 (to_kbps x) * 1000) < unat x + 1000"
    unfolding t m k by auto
qed

lemma tos_lost: "(ucast (be32toh (ucast (h :: u16))) :: u16) = 0"
  by (rule bit_word_eqI) (auto simp: be32toh_def le32_def be32_def rd32_def bit_simps dest: bit_imp_le_length)

lemma flow_label_bytes: "be32_at (take 3 (be32 w) @ [0]) = push_bit 8 (drop_bit 8 w)"
proof (rule bit_word_eqI)
  fix n assume "n < LENGTH(32)"
  then consider "n < 8" | "8 \<le> n" "n < 16" | "16 \<le> n" "n < 24" | "24 \<le> n" "n < 32" by force
  then show "bit (be32_at (take 3 (be32 w) @ [0])) n = bit (push_bit 8 (drop_bit 8 w)) n"
    by cases (auto simp: be32_def rd32_def bit_simps)
qed

text \<open>A filter whose absent fields are zero and whose flow description has the stated length.\<close>

definition filter_wf :: "sdf_filter \<Rightarrow> bool" where
  "filter_wf x \<longleftrightarrow> (if sf_fd x then \<exists>fd. sf_flow_description x = Some fd \<and> length fd = unat (sf_flow_description_len x)
       else sf_flow_description x = None \<and> sf_flow_description_len x = 0)
     \<and> (sf_ttc x \<or> sf_tos_traffic_class x = 0) \<and> (sf_spi x \<or> sf_security_parameter_index x = 0) \<and> (sf_fl x \<or> sf_flow_label x = 0)
     \<and> (sf_bid x \<or> sf_sdf_filter_id x = 0)"

lemmas filter_flags = sf_fd_def sf_ttc_def sf_spi_def sf_fl_def sf_bid_def

definition opt :: "bool \<Rightarrow> u8 list \<Rightarrow> u8 list" where
  "opt p bs = (if p then bs else [])"

lemma opt_field:
  assumes "m = pre @ opt p bs @ rs" "present x = p" "length bs = n" "length (pre @ opt p bs) \<le> len" "y = (if p then store bs x else x)"
  shows "field present n store m len (length pre, x) = Some (Inr (length (pre @ opt p bs), y))"
  using assms by (auto simp: field_def opt_def)

lemma sdf_filter_ok:
  assumes "ogs_pfcp_build_sdf_filter x data_len = Some bs" "filter_wf x"
  shows "ogs_pfcp_parse_sdf_filter (bs @ rs) (length bs)
    = Some (length bs, x\<lparr>sf_tos_traffic_class := 0, sf_flow_label := push_bit 8 (drop_bit 8 (sf_flow_label x))\<rparr>)"
proof -
  define fd where "fd = (case sf_flow_description x of Some fd \<Rightarrow> fd | None \<Rightarrow> [])"
  define c0 c1 c2 c3 c4 where c: "c0 = opt (sf_fd x) (be16 (sf_flow_description_len x) @ fd)" "c1 = opt (sf_ttc x) (be16 (sf_tos_traffic_class x))"
    "c2 = opt (sf_spi x) (be32 (sf_security_parameter_index x))" "c3 = opt (sf_fl x) (take 3 (be32 (sf_flow_label x)))" "c4 = opt (sf_bid x) (be32 (sf_sdf_filter_id x))"
  have fd: "sf_fd x \<Longrightarrow> sf_flow_description x = Some fd \<and> length fd = unat (sf_flow_description_len x)" using assms(2) by (auto simp: filter_wf_def fd_def)
  have b: "bs = [sf_flags x, sf_spare2 x] @ c0 @ c1 @ c2 @ c3 @ c4"
    using assms(1) fd by (auto simp: ogs_pfcp_build_sdf_filter_def put_eq put_if_eq bind_eq_Some_conv bytes_at_def c opt_def split: if_splits)
  let ?p0 = "[sf_flags x, sf_spare2 x]" and ?m = "bs @ rs" and ?l = "length bs"
  define x0 where "x0 = zero_filter\<lparr>sf_flags := sf_flags x, sf_spare2 := sf_spare2 x\<rparr>"
  define x1 where "x1 = x0\<lparr>sf_flow_description_len := sf_flow_description_len x, sf_flow_description := sf_flow_description x\<rparr>"
  define x3 where "x3 = x1\<lparr>sf_security_parameter_index := sf_security_parameter_index x\<rparr>"
  define x4 where "x4 = x3\<lparr>sf_flow_label := push_bit 8 (drop_bit 8 (sf_flow_label x))\<rparr>"
  note xs = x0_def x1_def x3_def x4_def zero_filter_def filter_flags filter_wf_def
  have h: "field (\<lambda>_. True) 1 (\<lambda>bs x. x\<lparr>sf_flags := hd bs\<rparr>) ?m ?l (0, zero_filter) = Some (Inr (1, zero_filter\<lparr>sf_flags := sf_flags x\<rparr>))"
    "field (\<lambda>_. True) 1 (\<lambda>bs x. x\<lparr>sf_spare2 := hd bs\<rparr>) ?m ?l (1, zero_filter\<lparr>sf_flags := sf_flags x\<rparr>) = Some (Inr (length ?p0, x0))"
    by (simp_all add: b field_def bytes_at_def x0_def)
  have f: "parse_flow_description ?m ?l (length ?p0, x0) = Some (Inr (length (?p0 @ c0), x1))"
    using fd assms(2) by (auto simp: parse_flow_description_def field_def bytes_at_def b c opt_def xs)
  have 1: "field sf_ttc 2 (\<lambda>bs x. x\<lparr>sf_tos_traffic_class := ucast (be32toh (ucast (le16_at bs)))\<rparr>) ?m ?l (length (?p0 @ c0), x1) = Some (Inr (length ((?p0 @ c0) @ c1), x1))"
    unfolding c(2) by (rule opt_field) (auto simp: b c tos_lost xs)
  have 2: "field sf_spi 4 (\<lambda>bs x. x\<lparr>sf_security_parameter_index := be32_at bs\<rparr>) ?m ?l (length ((?p0 @ c0) @ c1), x1) = Some (Inr (length (((?p0 @ c0) @ c1) @ c2), x3))"
    unfolding c(3) by (rule opt_field) (use assms(2) in \<open>auto simp: b c xs\<close>)
  have 3: "field sf_fl 3 (\<lambda>bs x. x\<lparr>sf_flow_label := be32_at (bs @ [0])\<rparr>) ?m ?l (length (((?p0 @ c0) @ c1) @ c2), x3) = Some (Inr (length ((((?p0 @ c0) @ c1) @ c2) @ c3), x4))"
    unfolding c(4) by (rule opt_field) (use assms(2) flow_label_bytes in \<open>auto simp: b c xs\<close>)
  have 4: "field sf_bid 4 (\<lambda>bs x. x\<lparr>sf_sdf_filter_id := be32_at bs\<rparr>) ?m ?l (length ((((?p0 @ c0) @ c1) @ c2) @ c3), x4)
      = Some (Inr (length (((((?p0 @ c0) @ c1) @ c2) @ c3) @ c4), x\<lparr>sf_tos_traffic_class := 0, sf_flow_label := push_bit 8 (drop_bit 8 (sf_flow_label x))\<rparr>))"
    unfolding c(5) by (rule opt_field) (use assms(2) in \<open>auto simp: b c xs\<close>)
  show ?thesis using h f 1 2 3 4 unfolding ogs_pfcp_parse_sdf_filter_def by (simp add: b)
qed

subsection \<open>Labels\<close>

text \<open>A name as its labels, and the encoding of labels: each behind its length.\<close>

fun labels :: "u8 list \<Rightarrow> u8 list list" where
  "labels [] = [[]]"
| "labels (c # s) = (if c = 46 then [] # labels s else (c # hd (labels s)) # tl (labels s))"

definition encode_labels :: "u8 list list \<Rightarrow> u8 list" where
  "encode_labels ls = concat (map (\<lambda>l. of_nat (length l) # l) ls)"

fun join_labels :: "u8 list list \<Rightarrow> u8 list" where
  "join_labels [] = []"
| "join_labels [l] = l"
| "join_labels (l # ls) = l @ 46 # join_labels ls"

lemma labels_neq [simp]: "labels s \<noteq> []" by (induction s) auto

lemma join_Cons: "ls \<noteq> [] \<Longrightarrow> join_labels (l # ls) = l @ 46 # join_labels ls" by (cases ls) auto

lemma join_cons_hd: "ls \<noteq> [] \<Longrightarrow> join_labels ((c # hd ls) # tl ls) = c # join_labels ls"
  by (cases ls; cases "tl ls") auto

lemma join_labels_labels [simp]: "join_labels (labels s) = s"
proof (induction s)
  case (Cons c s) then show ?case using join_cons_hd [of "labels s" c] by (simp add: join_Cons)
qed simp

lemma encode_simps [simp]: "encode_labels [] = []" "encode_labels (l # ls) = of_nat (length l) # l @ encode_labels ls"
  by (simp_all add: encode_labels_def)

lemma encode_length: "length (encode_labels (labels s)) = length s + 1"
proof (induction s)
  case (Cons c s) then show ?case by (cases "labels s") auto
qed simp

lemma fqdn_build_loop_eq:
  assumes "length pre + j = i" "length lab = j" "length suf = length src"
  shows "fqdn_build_loop src i j (pre @ g # lab @ suf) = pre @ encode_labels ((lab @ hd (labels src)) # tl (labels src))"
  using assms
proof (induction src arbitrary: i j pre g lab suf)
  case Nil then show ?case by (auto simp: list_update_append)
next
  case (Cons c src)
  then obtain d suf' where suf: "suf = d # suf'" by (cases suf) auto
  show ?case
  proof (cases "c = 46")
    case True
    have "(pre @ g # lab @ suf)[i - j := of_nat j] = (pre @ of_nat j # lab) @ d # [] @ suf'" using Cons.prems suf by (auto simp: list_update_append)
    moreover have "fqdn_build_loop src (i + 1) 0 ((pre @ of_nat j # lab) @ d # [] @ suf') = (pre @ of_nat j # lab) @ encode_labels (([] @ hd (labels src)) # tl (labels src))"
      by (rule Cons.IH) (use Cons.prems suf in auto)
    moreover have "hd (labels src) # tl (labels src) = labels src" by simp
    ultimately show ?thesis using True Cons.prems by simp
  next
    case False
    have "(pre @ g # lab @ suf)[i + 1 := c] = pre @ g # (lab @ [c]) @ suf'" using Cons.prems suf by (auto simp: list_update_append split: nat.splits)
    moreover have "fqdn_build_loop src (i + 1) (j + 1) (pre @ g # (lab @ [c]) @ suf') = pre @ encode_labels (((lab @ [c]) @ hd (labels src)) # tl (labels src))"
      by (rule Cons.IH) (use Cons.prems suf in auto)
    ultimately show ?thesis using False by simp
  qed
qed

lemma fqdn_build_eq:
  assumes "length src < length dst"
  shows "ogs_fqdn_build dst src = Some (length src + 1, encode_labels (labels src) @ drop (length src + 1) dst)"
proof -
  obtain g suf where d: "dst = [] @ g # [] @ suf @ drop (length src + 1) dst" "length suf = length src"
  proof
    show "dst = [] @ hd dst # [] @ take (length src) (tl dst) @ drop (length src + 1) dst" using assms by (cases dst) auto
  qed (use assms in \<open>cases dst; auto\<close>)
  have app: "fqdn_build_loop src i j (dst' @ t) = fqdn_build_loop src i j dst' @ t" if "i + length src < length dst'" "j \<le> i" for i j dst' t
    using that by (induction src arbitrary: i j dst') (auto simp: list_update_append)
  have "fqdn_build_loop src 0 0 (([] @ g # [] @ suf) @ drop (length src + 1) dst) = ([] @ encode_labels (([] @ hd (labels src)) # tl (labels src))) @ drop (length src + 1) dst"
    using fqdn_build_loop_eq [of "[]" 0 0 "[]" suf src g] app [of 0 "[] @ g # [] @ suf" 0] d(2) by simp
  then show ?thesis using assms d(1) by (simp add: ogs_fqdn_build_def del: encode_simps)
qed

lemma fqdn_parse_loop_eq:
  assumes "ls \<noteq> []" "last ls \<noteq> []" "\<forall>l \<in> set ls. length l < 256" "length pre = length out"
  shows "fqdn_parse_loop (pre @ encode_labels ls @ rs) (length (pre @ encode_labels ls)) (length pre) out = Some (Some (out @ join_labels ls))"
  using assms
proof (induction ls arbitrary: pre out)
  case (Cons l ls)
  let ?m = "pre @ encode_labels (l # ls) @ rs" and ?n = "length (pre @ encode_labels (l # ls))"
  have u: "unat (of_nat (length l) :: u8) = length l" using Cons.prems(3) by (simp add: unat_of_nat_small)
  have nth: "?m ! length pre = of_nat (length l)" by simp
  have lb: "bytes_at ?m (length pre + 1) (length l) = Some l" by (simp add: bytes_at_def)
  show ?case
  proof (cases "ls = []")
    case True
    have e: "fqdn_parse_loop ?m ?n ?n (out @ l) = Some (Some (out @ l))" by (subst fqdn_parse_loop.simps) simp
    show ?thesis using True Cons.prems(4) lb u e by (subst fqdn_parse_loop.simps) (simp add: nth_append)
  next
    case False
    have ne: "2 \<le> length (encode_labels ls)" using False Cons.prems(2) by (induction ls) (auto simp: Suc_le_eq split: if_splits)
    have ih: "fqdn_parse_loop ((pre @ of_nat (length l) # l) @ encode_labels ls @ rs) (length ((pre @ of_nat (length l) # l) @ encode_labels ls)) (length (pre @ of_nat (length l) # l)) (out @ l @ [46])
        = Some (Some ((out @ l @ [46]) @ join_labels ls))"
      by (rule Cons.IH) (use False Cons.prems in auto)
    show ?thesis using False Cons.prems(4) lb u ih ne by (subst fqdn_parse_loop.simps) (simp add: nth_append join_Cons)
  qed
qed simp

definition fqdn_ok :: "u8 list \<Rightarrow> bool" where
  "fqdn_ok s \<longleftrightarrow> last (labels s) \<noteq> [] \<and> (\<forall>l \<in> set (labels s). length l < 256)"

lemma fqdn_parse_encoded: "fqdn_ok s \<Longrightarrow> ogs_fqdn_parse (encode_labels (labels s) @ rs) (length s + 1) = Some (Some s)"
  using fqdn_parse_loop_eq [of "labels s" "[]" "[]" rs] encode_length [of s] by (simp add: ogs_fqdn_parse_def fqdn_ok_def)

text \<open>At the start of each round the positions in the two buffers agree, unless a single byte is left.\<close>

lemma fqdn_parse_loop_total:
  assumes "len < length m" "i = length out \<or> i = length out + 1 \<and> len \<le> i + 1 \<or> len \<le> i"
  shows "\<exists>r. fqdn_parse_loop m len i out = Some r"
  using assms
proof (induction m len i out rule: fqdn_parse_loop.induct)
  case (1 m len i out)
  show ?case
  proof (cases "i + 1 \<le> len \<and> length out + unat (m ! i) + 1 \<le> len")
    case True
    then have b: "bytes_at m (i + 1) (unat (m ! i)) = Some (take (unat (m ! i)) (drop (i + 1) m))" using 1(2,3) by (auto simp: bytes_at_def)
    let ?l = "take (unat (m ! i)) (drop (i + 1) m)" and ?i = "i + 1 + unat (m ! i)"
    have l: "length ?l = unat (m ! i)" using b by (auto simp: bytes_at_def split: if_splits)
    have "\<exists>r. fqdn_parse_loop m len ?i (if ?i + 1 < len then out @ ?l @ [46] else out @ ?l) = Some r"
      by (rule 1(1)) (use True b 1(2,3) l in \<open>auto\<close>)
    then show ?thesis using True b 1(2) by (cases "?i + 1 < len"; subst fqdn_parse_loop.simps; simp)
  next
    case False then show ?thesis using 1(2) by (subst fqdn_parse_loop.simps) auto
  qed
qed

text \<open>Resource information whose absent fields are zero.\<close>

definition info_wf :: "up_ip_resource_info \<Rightarrow> bool" where
  "info_wf x \<longleftrightarrow> (ui_teidri x \<or> ui_teid_range x = 0) \<and> (ui_v4 x \<or> ui_addr x = 0) \<and> length (ui_addr6 x) = 16 \<and> (ui_v6 x \<or> ui_addr6 x = replicate 16 0)
     \<and> (if ui_assoni x then fqdn_ok (ui_network_instance x) \<and> length (ui_network_instance x) < OGS_MAX_APN_LEN else ui_network_instance x = [])
     \<and> (ui_assosi x \<or> ui_source_interface x = 0)"

lemmas info_flags = ui_v4_def ui_v6_def ui_teidri_def ui_assoni_def ui_assosi_def

lemma resource_info_ok:
  assumes "ogs_pfcp_build_user_plane_ip_resource_info x data_len = Some bs" "info_wf x"
  shows "ogs_pfcp_parse_user_plane_ip_resource_info (bs @ rs) (length bs) = Some (length bs, x)"
proof -
  let ?ni = "encode_labels (labels (ui_network_instance x))"
  define c1 c2 c3 c4 c5 where c: "c1 = opt (ui_teidri x) [ui_teid_range x]" "c2 = opt (ui_v4 x) (be32 (ui_addr x))" "c3 = opt (ui_v6 x) (ui_addr6 x)"
    "c4 = opt (ui_assoni x) ?ni" "c5 = opt (ui_assosi x) [ui_source_interface x]"
  have "take (length s + 1) (encode_labels (labels s) @ drop (length s + 1) (replicate (length s + 1) 0)) = encode_labels (labels s)" for s
    using encode_length [of s] by simp
  then have b: "bs = [ui_flags x] @ c1 @ c2 @ c3 @ c4 @ c5"
    using assms(1) by (auto simp: ogs_pfcp_build_user_plane_ip_resource_info_def put_eq put_if_eq bind_eq_Some_conv fqdn_build_eq c opt_def split: if_splits)
  let ?p0 = "[ui_flags x]" and ?m = "bs @ rs" and ?l = "length bs"
  define x0 where "x0 = zero_info\<lparr>ui_flags := ui_flags x\<rparr>"
  define x1 where "x1 = x0\<lparr>ui_teid_range := ui_teid_range x\<rparr>"
  define x2 where "x2 = x1\<lparr>ui_addr := ui_addr x\<rparr>"
  define x3 where "x3 = x2\<lparr>ui_addr6 := ui_addr6 x\<rparr>"
  define x4 where "x4 = x3\<lparr>ui_network_instance := ui_network_instance x\<rparr>"
  note xs = x0_def x1_def x2_def x3_def x4_def zero_info_def info_flags info_wf_def
  have 1: "field ui_teidri 1 (\<lambda>bs x. x\<lparr>ui_teid_range := hd bs\<rparr>) ?m ?l (length ?p0, x0) = Some (Inr (length (?p0 @ c1), x1))"
    unfolding c(1) by (rule opt_field) (use assms(2) in \<open>auto simp: b c xs\<close>)
  have 2: "field ui_v4 4 (\<lambda>bs x. x\<lparr>ui_addr := be32_at bs\<rparr>) ?m ?l (length (?p0 @ c1), x1) = Some (Inr (length ((?p0 @ c1) @ c2), x2))"
    unfolding c(2) by (rule opt_field) (use assms(2) in \<open>auto simp: b c xs\<close>)
  have 3: "field ui_v6 16 (\<lambda>bs x. x\<lparr>ui_addr6 := bs\<rparr>) ?m ?l (length ((?p0 @ c1) @ c2), x2) = Some (Inr (length (((?p0 @ c1) @ c2) @ c3), x3))"
    unfolding c(3) by (rule opt_field) (use assms(2) in \<open>auto simp: b c xs\<close>)
  have 4: "parse_network_instance ?m ?l (length (((?p0 @ c1) @ c2) @ c3), x3) = Some (Inr (length ((((?p0 @ c1) @ c2) @ c3) @ c4), x4))"
  proof (cases "ui_assoni x")
    case True
    have ni: "fqdn_ok (ui_network_instance x)" "length (ui_network_instance x) < OGS_MAX_APN_LEN" using assms(2) True by (auto simp: info_wf_def)
    have d: "drop (length (((?p0 @ c1) @ c2) @ c3)) ?m = ?ni @ (c5 @ rs)" by (simp add: b c(4) opt_def True)
    have f: "ui_assoni x3 = ui_assoni x" "ui_assosi x3 = ui_assosi x" by (simp_all add: xs)
    have l: "int ?l - int (length (((?p0 @ c1) @ c2) @ c3)) = int (length (ui_network_instance x) + 1) + (if ui_assosi x then 1 else 0)"
      by (simp add: b c(4,5) opt_def True encode_length)
    show ?thesis using True ni(2) fqdn_parse_encoded [OF ni(1), of "c5 @ rs"] encode_length [of "ui_network_instance x"]
      unfolding parse_network_instance_def prod.case Let_def f l d by (auto simp: c(4) opt_def x4_def nat_add_distrib min_def)
  next
    case False then show ?thesis using assms(2) by (simp add: parse_network_instance_def c(4) opt_def xs)
  qed
  have 5: "field ui_assosi 1 (\<lambda>bs x. x\<lparr>ui_source_interface := hd bs\<rparr>) ?m ?l (length ((((?p0 @ c1) @ c2) @ c3) @ c4), x4) = Some (Inr (length (((((?p0 @ c1) @ c2) @ c3) @ c4) @ c5), x))"
    unfolding c(5) by (rule opt_field) (use assms(2) in \<open>auto simp: b c xs\<close>)
  show ?thesis using 1 2 3 4 5 unfolding ogs_pfcp_parse_user_plane_ip_resource_info_def by (simp add: b bytes_at_def x0_def)
qed

subsection \<open>Properties\<close>

text \<open>A domain name without an empty last label comes back from its encoding as labels behind their lengths, whatever follows it in memory, and the
  encoding is one byte longer than the name.\<close>

theorem fqdn_round_trip:
  assumes "fqdn_ok s" "length s < length dst"
  shows "\<exists>bs. ogs_fqdn_build dst s = Some (length s + 1, bs) \<and> length bs = length dst \<and> ogs_fqdn_parse bs (length s + 1) = Some (Some s)"
  using fqdn_build_eq [OF assms(2)] fqdn_parse_encoded [OF assms(1)] encode_length [of s] assms(2) by simp

theorem fqdn_round_trip_witness:
  "\<exists>bs. ogs_fqdn_build (replicate 6 0) [97, 98, 46, 99] = Some (5, bs) \<and> ogs_fqdn_parse bs 5 = Some (Some [97, 98, 46, 99])"
proof -
  have "fqdn_ok [97, 98, 46, 99]" by (simp add: fqdn_ok_def)
  from fqdn_round_trip [OF this, of "replicate 6 0"] show ?thesis by (auto simp: eval_nat_numeral)
qed

text \<open>\<open>ogs_fqdn_parse\<close> reads at most one byte behind the bytes it is given, but that one byte it may read: a label that ends one byte before
  the end, followed by the length one, makes it copy the byte behind the end.\<close>

theorem fqdn_parse_overreads:
  "(\<forall>m len. len < length m \<longrightarrow> (\<exists>r. ogs_fqdn_parse m len = Some r))
   \<and> (\<forall>l :: u8 list. l \<noteq> [] \<and> length l < 256 \<longrightarrow> ogs_fqdn_parse (of_nat (length l) # l @ [1]) (length l + 2) = None)"
proof (intro conjI allI impI)
  fix m :: "u8 list" and len assume "len < length m" then show "\<exists>r. ogs_fqdn_parse m len = Some r"
    using fqdn_parse_loop_total [of len m 0 "[]"] by (simp add: ogs_fqdn_parse_def)
next
  fix l :: "u8 list" assume l: "l \<noteq> [] \<and> length l < 256"
  let ?m = "of_nat (length l) # l @ [1 :: u8]"
  have u: "unat (of_nat (length l) :: u8) = length l" using l by (simp add: unat_of_nat_small)
  have "fqdn_parse_loop ?m (length l + 2) (length l + 1) l = None" by (subst fqdn_parse_loop.simps) (simp add: bytes_at_def nth_append)
  then show "ogs_fqdn_parse ?m (length l + 2) = None"
    unfolding ogs_fqdn_parse_def using u by (subst fqdn_parse_loop.simps) (simp add: bytes_at_def)
qed

theorem fqdn_parse_overreads_witness:
  "ogs_fqdn_parse [1, 97, 1] 3 = None \<and> (\<exists>r. ogs_fqdn_parse [1, 97, 1, 98] 3 = Some r)"
  using fqdn_parse_overreads [THEN conjunct1, rule_format, of 3 "[1, 97, 1, 98]"] fqdn_parse_overreads [THEN conjunct2, rule_format, of "[97]"]
  by (simp add: numeral_3_eq_3)

text \<open>C30. Elements come back from their encoding, with any bytes behind them: user plane IP resource information, volume thresholds and quotas, dropped traffic
  thresholds and volume measurements.\<close>

theorem pfcp_ie_round_trips:
  "(\<forall>x n bs rs. ogs_pfcp_build_user_plane_ip_resource_info x n = Some bs \<and> info_wf x \<longrightarrow> ogs_pfcp_parse_user_plane_ip_resource_info (bs @ rs) (length bs) = Some (length bs, x))
   \<and> (\<forall>x n bs rs. ogs_pfcp_build_volume x n = Some bs \<and> volume_wf x \<longrightarrow> ogs_pfcp_parse_volume (bs @ rs) (length bs) = Some (length bs, x))
   \<and> (\<forall>x n bs rs. ogs_pfcp_build_dropped_dl_traffic_threshold x n = Some bs \<and> (dt_dlpa x \<or> dt_downlink_packets x = 0) \<and> (dt_dlby x \<or> dt_bytes_of_downlink_data x = 0)
        \<longrightarrow> ogs_pfcp_parse_dropped_dl_traffic_threshold (bs @ rs) (length bs) = Some (length bs, x))
   \<and> (\<forall>x n bs rs. ogs_pfcp_build_volume_measurement x n = Some bs \<and> measurement_wf x \<longrightarrow> ogs_pfcp_parse_volume_measurement (bs @ rs) (length bs) = Some (length bs, x))"
  using resource_info_ok volume_ok dropped_threshold_ok volume_measurement_ok by blast

theorem pfcp_ie_round_trips_witness:
  "ogs_pfcp_parse_volume ([2, 0, 0, 0, 0, 0, 0, 1, 2] @ [7]) 9 = Some (9, \<lparr>vt_flags = 2, vt_total_volume = 0, vt_uplink_volume = 258, vt_downlink_volume = 0\<rparr>)"
proof -
  let ?x = "\<lparr>vt_flags = 2, vt_total_volume = 0, vt_uplink_volume = 258, vt_downlink_volume = 0\<rparr> :: volume_threshold"
  have b: "ogs_pfcp_build_volume ?x 25 = Some [2, 0, 0, 0, 0, 0, 0, 1, 2]" by code_simp
  have w: "volume_wf ?x" by (simp add: volume_wf_def vt_ulvol_def)
  have "length [2, 0, 0, 0, 0, 0, 0, 1, 2 :: u8] = 9" by simp
  with pfcp_ie_round_trips [THEN conjunct2, THEN conjunct1, rule_format, OF conjI [OF b w], of "[7]"] show ?thesis by (simp only:)
qed

text \<open>An SDF filter comes back from its encoding without its type of service, which the parser always reads as zero, and without the lower eight bits of its flow
  label, which are not sent.\<close>

theorem sdf_filter_loses_fields:
  assumes "ogs_pfcp_build_sdf_filter x data_len = Some bs" "filter_wf x"
  shows "ogs_pfcp_parse_sdf_filter (bs @ rs) (length bs)
    = Some (length bs, x\<lparr>sf_tos_traffic_class := 0, sf_flow_label := push_bit 8 (drop_bit 8 (sf_flow_label x))\<rparr>)"
  using sdf_filter_ok [OF assms] .

theorem sdf_filter_loses_fields_witness:
  "ogs_pfcp_parse_sdf_filter ([10, 0, 1, 2, 0, 0x12, 0x34] @ []) 7
    = Some (7, zero_filter\<lparr>sf_flags := 10, sf_flow_label := 0x123400\<rparr>)"
proof -
  let ?x = "zero_filter\<lparr>sf_flags := 10, sf_tos_traffic_class := 258, sf_flow_label := 0x123456\<rparr>"
  have b: "ogs_pfcp_build_sdf_filter ?x 100 = Some [10, 0, 1, 2, 0, 0x12, 0x34]" by code_simp
  have w: "filter_wf ?x" by (simp add: filter_wf_def filter_flags zero_filter_def)
  have "push_bit 8 (drop_bit 8 (0x123456 :: u32)) = 0x123400" by code_simp
  moreover have "length [10, 0, 1, 2, 0, 0x12, 0x34 :: u8] = 7" by simp
  moreover have "?x\<lparr>sf_tos_traffic_class := 0, sf_flow_label := 0x123400\<rparr> = zero_filter\<lparr>sf_flags := 10, sf_flow_label := 0x123400\<rparr>" by (simp add: zero_filter_def)
  moreover have "sf_flow_label ?x = 0x123456" by simp
  ultimately show ?thesis using sdf_filter_loses_fields [OF b w, of "[]"] by (simp only:)
qed

text \<open>A bit rate below \<open>10 ^ 3 * (2 ^ 40 - 1)\<close> bits per second comes back rounded up to the next kilobit per second.\<close>

theorem bitrate_rounds_up:
  assumes "ogs_pfcp_build_bitrate b data_len = Some bs" "unat (br_uplink b) < 1000 * (2 ^ 40 - 1)" "unat (br_downlink b) < 1000 * (2 ^ 40 - 1)"
  shows "\<exists>r. ogs_pfcp_parse_bitrate (bs @ rs) (length bs) = Some (length bs, r)
    \<and> unat (br_uplink b) \<le> unat (br_uplink r) \<and> unat (br_uplink r) < unat (br_uplink b) + 1000
    \<and> unat (br_downlink b) \<le> unat (br_downlink r) \<and> unat (br_downlink r) < unat (br_downlink b) + 1000"
  using bitrate_ok [OF assms(1)] kbps_round [OF assms(2)] kbps_round [OF assms(3)] by simp

theorem bitrate_rounds_up_witness:
  "\<exists>r. ogs_pfcp_parse_bitrate ([0, 0, 0, 0, 2, 0, 0, 0, 3, 232] @ []) 10 = Some (10, r) \<and> 1500 \<le> unat (br_uplink r) \<and> unat (br_uplink r) < 2500"
proof -
  have "ogs_pfcp_build_bitrate \<lparr>br_uplink = 1500, br_downlink = 1000000\<rparr> 10 = Some [0, 0, 0, 0, 2, 0, 0, 0, 3, 232]" by code_simp
  note r = bitrate_rounds_up [OF this, of "[]"]
  have l: "length [0, 0, 0, 0, 2, 0, 0, 0, 3, 232 :: u8] = 10" by simp
  obtain b where "ogs_pfcp_parse_bitrate ([0, 0, 0, 0, 2, 0, 0, 0, 3, 232] @ []) 10 = Some (10, b)" "1500 \<le> unat (br_uplink b)" "unat (br_uplink b) < 2500"
    using r unfolding l by auto
  then show ?thesis by blast
qed

text \<open>Values from the peer abort the receiver: a bit rate of a length other than ten and a volume measurement whose length does not fit its flags fail an assertion.\<close>

theorem malformed_ie_aborts:
  "(\<forall>m len. len \<noteq> OGS_PFCP_BITRATE_LEN \<longrightarrow> ogs_pfcp_parse_bitrate m len = None)
   \<and> (\<forall>m len. len \<noteq> measured_len (hd m) \<longrightarrow> ogs_pfcp_parse_volume_measurement m len = None)"
proof (intro conjI allI impI)
  fix m :: "u8 list" and len assume "len \<noteq> measured_len (hd m)"
  then show "ogs_pfcp_parse_volume_measurement m len = None" using measurement_len [of m len] by (cases "ogs_pfcp_parse_volume_measurement m len") auto
qed (simp add: ogs_pfcp_parse_bitrate_def)

theorem malformed_ie_aborts_witness:
  "ogs_pfcp_parse_bitrate [0, 0, 0] 3 = None \<and> ogs_pfcp_parse_volume_measurement [1, 0, 0] 3 = None"
proof -
  have "measured_len 1 = 9" by code_simp
  then show ?thesis using malformed_ie_aborts [THEN conjunct1, rule_format, of 3 "[0, 0, 0]"] malformed_ie_aborts [THEN conjunct2, rule_format, of 3 "[1, 0, 0]"]
    by (simp add: OGS_PFCP_BITRATE_LEN_def)
qed

end
