(* ===== verification/Pfcp_Node.thy ===== *)
theory Pfcp_Node
  imports Pfcp_Path Pfcp_Types Ogs_Fsm
begin

section \<open>PFCP nodes and their association (lib/pfcp/context.c, util.c, handler.c)\<close>

text \<open>
  The peers of a PFCP entity: nodes of a pool on the list \<open>pfcp_peer_list\<close>, found by node identifier and address, with
  the addresses that configuration, DNS and received datagrams give them. Their transactions are those of \<open>Pfcp_Xact\<close>: the lists and addresses of
  node \<open>n\<close> are \<open>pnodes\<close> at \<open>n\<close> there, the other fields are here. The resources that a
  peer announces come from a pool that aborts when it is empty, of which only the number of free nodes matters. What the
  message parser fills in and what the builders return are arguments; so are the resolver and the time.
\<close>

subsection \<open>Node identifiers (util.c)\<close>

text \<open>The type, in the lower half of the first byte, and the 256 bytes of the union.\<close>

record pfcp_node_id =
  ni_type :: u8
  ni_bytes :: "u8 list"

definition OGS_PFCP_NODE_ID_IPV4 :: u8 where "OGS_PFCP_NODE_ID_IPV4 = 0"
definition OGS_PFCP_NODE_ID_IPV6 :: u8 where "OGS_PFCP_NODE_ID_IPV6 = 1"
definition OGS_PFCP_NODE_ID_FQDN :: u8 where "OGS_PFCP_NODE_ID_FQDN = 2"
definition OGS_PFCP_NODE_ID_UNKNOWN :: u8 where "OGS_PFCP_NODE_ID_UNKNOWN = 0xf"
definition OGS_MAX_FQDN_LEN :: nat where "OGS_MAX_FQDN_LEN = 256"

lemmas node_id_defs = OGS_PFCP_NODE_ID_IPV4_def OGS_PFCP_NODE_ID_IPV6_def OGS_PFCP_NODE_ID_FQDN_def OGS_PFCP_NODE_ID_UNKNOWN_def

definition ni_addr :: "pfcp_node_id \<Rightarrow> u32" where "ni_addr i = be32_at (take 4 (ni_bytes i))"
definition ni_addr6 :: "pfcp_node_id \<Rightarrow> u8 list" where "ni_addr6 i = take 16 (ni_bytes i)"
definition ni_fqdn :: "pfcp_node_id \<Rightarrow> u8 list" where "ni_fqdn i = takeWhile (\<lambda>b. b \<noteq> 0) (ni_bytes i)"

definition ni_known :: "pfcp_node_id \<Rightarrow> bool" where
  "ni_known i \<longleftrightarrow> ni_type i = OGS_PFCP_NODE_ID_IPV4 \<or> ni_type i = OGS_PFCP_NODE_ID_IPV6 \<or> ni_type i = OGS_PFCP_NODE_ID_FQDN"

definition zero_node_id :: pfcp_node_id where
  "zero_node_id = \<lparr>ni_type = 0, ni_bytes = replicate OGS_MAX_FQDN_LEN 0\<rparr>"

datatype pfcp_status =
    OGS_PFCP_STATUS_SUCCESS | OGS_PFCP_STATUS_NODE_ID_NONE | OGS_PFCP_STATUS_NODE_ID_OPTIONAL_ABSENT
  | OGS_PFCP_ERROR_SEMANTIC_INCORRECT_MESSAGE | OGS_PFCP_ERROR_NODE_ID_NOT_PRESENT | OGS_PFCP_ERROR_NODE_ID_NOT_FOUND
  | OGS_PFCP_ERROR_UNKNOWN_MESSAGE

datatype node_id_requirement = NodeIdForbidden | NodeIdOptional | NodeIdMandatory

definition node_id_requirement :: "u8 \<Rightarrow> node_id_requirement option" where
  "node_id_requirement type =
     (if type \<in> {3, 4, 52} then Some NodeIdOptional
      else if type \<in> {5, 6, 7, 8, 9, 10, 12, 13, 14, 15, 16, 17, 50, 51} then Some NodeIdMandatory
      else if type \<in> {1, 2, 11, 53, 54, 55, 56, 57} then Some NodeIdForbidden
      else None)"

text \<open>The copy of the value of the element into the structure; the last byte of the name is zero.\<close>

definition copy_node_id :: "u8 list \<Rightarrow> pfcp_node_id" where
  "copy_node_id v =
     (let m = take 257 (v @ replicate 257 0)
      in \<lparr>ni_type = hd m AND 0x0F, ni_bytes = (tl m)[OGS_MAX_FQDN_LEN - 1 := 0]\<rparr>)"

text \<open>\<open>tlv\<close> is the value of the element where the message of that type has one, \<open>None\<close> when it is not present.\<close>

definition ogs_pfcp_extract_node_id :: "u8 \<Rightarrow> u8 list option \<Rightarrow> pfcp_status \<times> pfcp_node_id" where
  "ogs_pfcp_extract_node_id type tlv =
     (case node_id_requirement type of
        None \<Rightarrow> (OGS_PFCP_ERROR_UNKNOWN_MESSAGE, zero_node_id)
      | Some NodeIdForbidden \<Rightarrow> (OGS_PFCP_STATUS_NODE_ID_NONE, zero_node_id)
      | Some r \<Rightarrow>
          (case tlv of
             None \<Rightarrow> (if r = NodeIdMandatory then OGS_PFCP_ERROR_NODE_ID_NOT_PRESENT else OGS_PFCP_STATUS_NODE_ID_OPTIONAL_ABSENT, zero_node_id)
           | Some v \<Rightarrow> let i = copy_node_id v
                        in (if ni_known i then OGS_PFCP_STATUS_SUCCESS else OGS_PFCP_ERROR_SEMANTIC_INCORRECT_MESSAGE, i)))"

definition ogs_pfcp_node_id_compare :: "pfcp_node_id \<Rightarrow> pfcp_node_id \<Rightarrow> bool option" where
  "ogs_pfcp_node_id_compare id1 id2 =
     (if ni_type id1 \<noteq> ni_type id2 then Some False
      else if ni_type id1 = OGS_PFCP_NODE_ID_IPV4 then Some (ni_addr id1 = ni_addr id2)
      else if ni_type id1 = OGS_PFCP_NODE_ID_IPV6 then Some (ni_addr6 id1 = ni_addr6 id2)
      else if ni_type id1 = OGS_PFCP_NODE_ID_FQDN then Some (ni_fqdn id1 = ni_fqdn id2)
      else None)"

text \<open>The port of the entity and the resolver, which gives a list of addresses or fails.\<close>

record pfcp_dns =
  pfcp_port :: u16
  getaddrinfo :: "u8 list \<Rightarrow> u16 \<Rightarrow> ogs_sockaddr list option"

definition ogs_pfcp_node_id_to_addrinfo :: "pfcp_dns \<Rightarrow> pfcp_node_id \<Rightarrow> ogs_sockaddr list option option" where
  "ogs_pfcp_node_id_to_addrinfo d i =
     (if ni_type i = OGS_PFCP_NODE_ID_IPV4 then Some (Some [SockAddr4 (ni_addr i) (pfcp_port d)])
      else if ni_type i = OGS_PFCP_NODE_ID_IPV6 then Some (Some [SockAddr6 (ni_addr6 i) (pfcp_port d)])
      else if ni_type i = OGS_PFCP_NODE_ID_FQDN then
        do { r \<leftarrow> ogs_fqdn_parse (ni_bytes i) (length (ni_fqdn i));
             case r of
               None \<Rightarrow> Some None
             | Some name \<Rightarrow> Some (if name = [] then None else getaddrinfo d name (pfcp_port d)) }
      else Some None)"

subsection \<open>Nodes (context.c)\<close>

text \<open>
  The fields of a node besides its lists and addresses. The machine has states of type \<open>'s\<close>. The timer for associations, which only the application adds and
  starts, is whether it runs, when it exists; it takes no place of the timer pool here.
\<close>

record 's node_info =
  n_config_addr :: "ogs_sockaddr list"
  n_node_id :: pfcp_node_id
  n_last_dns_refresh :: int
  n_sm :: "'s ogs_fsm"
  n_t_association :: "bool option"
  n_t_no_heartbeat :: "nat option"
  n_remote_recovery :: u32
  n_restoration_required :: bool
  n_gtpu_resource_list :: "up_ip_resource_info list"
  n_up_function_features :: "u8 list"
  n_up_function_features_len :: nat

record ('s, 'c) pfcp_ctx =
  c_node_pool :: ogs_pool
  c_peer_list :: "nat list"
  c_info :: "nat \<Rightarrow> 's node_info"
  c_gtpu_free :: nat
  c_cp_function_features :: u8
  c_xact :: "'c xstate"

definition zero_node_info :: "'s node_info" where
  "zero_node_info = \<lparr>n_config_addr = [], n_node_id = zero_node_id\<lparr>ni_type := OGS_PFCP_NODE_ID_UNKNOWN\<rparr>, n_last_dns_refresh = 0,
     n_sm = \<lparr>init = None, fini = None, state = None\<rparr>, n_t_association = None, n_t_no_heartbeat = None, n_remote_recovery = 0,
     n_restoration_required = False, n_gtpu_resource_list = [], n_up_function_features = replicate 7 0, n_up_function_features_len = 0\<rparr>"

definition upd_info :: "nat \<Rightarrow> ('s node_info \<Rightarrow> 's node_info) \<Rightarrow> ('s, 'c) pfcp_ctx \<Rightarrow> ('s, 'c) pfcp_ctx" where
  "upd_info n f s = s\<lparr>c_info := (c_info s)(n := f (c_info s n))\<rparr>"

definition upd_node :: "nat \<Rightarrow> (pfcp_node \<Rightarrow> pfcp_node) \<Rightarrow> ('s, 'c) pfcp_ctx \<Rightarrow> ('s, 'c) pfcp_ctx" where
  "upd_node n f s = s\<lparr>c_xact := (fst (c_xact s), upd_pnode n f (snd (c_xact s)))\<rparr>"

abbreviation node_of :: "('s, 'c) pfcp_ctx \<Rightarrow> nat \<Rightarrow> pfcp_node" where
  "node_of s n \<equiv> pnodes (snd (c_xact s)) n"

definition ogs_pfcp_node_new :: "ogs_sockaddr list \<Rightarrow> ('s, 'c) pfcp_ctx \<Rightarrow> (nat option \<times> ('s, 'c) pfcp_ctx) option" where
  "ogs_pfcp_node_new config_addr s =
     do { (x, p) \<leftarrow> ogs_pool_alloc (c_node_pool s);
          let s = s\<lparr>c_node_pool := p\<rparr>;
          case x of
            None \<Rightarrow> Some (None, s)
          | Some n \<Rightarrow>
              let s = upd_info n (\<lambda>_. zero_node_info\<lparr>n_config_addr := config_addr\<rparr>) s;
                  s = upd_node n (\<lambda>_. \<lparr>local_list = [], remote_list = [], addr_list = ogs_copyaddrinfo config_addr, current_addr = None\<rparr>) s
              in Some (Some n, s) }"

definition ogs_gtpu_resource_remove_all :: "nat \<Rightarrow> ('s, 'c) pfcp_ctx \<Rightarrow> ('s, 'c) pfcp_ctx" where
  "ogs_gtpu_resource_remove_all n s =
     upd_info n (\<lambda>i. i\<lparr>n_gtpu_resource_list := []\<rparr>) (s\<lparr>c_gtpu_free := c_gtpu_free s + length (n_gtpu_resource_list (c_info s n))\<rparr>)"

definition ogs_gtpu_resource_add :: "nat \<Rightarrow> up_ip_resource_info \<Rightarrow> ('s, 'c) pfcp_ctx \<Rightarrow> ('s, 'c) pfcp_ctx option" where
  "ogs_gtpu_resource_add n info s =
     do { ogs_assert (c_gtpu_free s > 0);
          Some (upd_info n (\<lambda>i. i\<lparr>n_gtpu_resource_list := n_gtpu_resource_list i @ [info]\<rparr>) (s\<lparr>c_gtpu_free := c_gtpu_free s - 1\<rparr>)) }"

definition ogs_pfcp_node_free :: "nat \<Rightarrow> ('s, 'c) pfcp_ctx \<Rightarrow> ('s, 'c) pfcp_ctx option" where
  "ogs_pfcp_node_free n s =
     do { let s = ogs_gtpu_resource_remove_all n s;
          mw \<leftarrow> ogs_pfcp_xact_delete_all n (c_xact s);
          Some (s\<lparr>c_xact := mw, c_node_pool := ogs_pool_free n (c_node_pool s)\<rparr>) }"

text \<open>300 seconds in microseconds.\<close>

definition OGS_PFCP_NODE_DNS_REFRESH_INTERVAL :: int where "OGS_PFCP_NODE_DNS_REFRESH_INTERVAL = 300 * 1000000"

text \<open>The part of \<open>ogs_pfcp_node_merge\<close> for a node identifier.\<close>

definition merge_node_id :: "pfcp_dns \<Rightarrow> int \<Rightarrow> nat \<Rightarrow> pfcp_node_id \<Rightarrow> ('s, 'c) pfcp_ctx \<Rightarrow> (status \<times> ('s, 'c) pfcp_ctx) option" where
  "merge_node_id d now n i s =
     (if \<not> ni_known i then Some (OGS_ERROR, s)
      else do { same \<leftarrow> ogs_pfcp_node_id_compare (n_node_id (c_info s n)) i;
                let s = (if same then s else upd_info n (\<lambda>x. x\<lparr>n_node_id := i, n_last_dns_refresh := 0\<rparr>) s);
                let x = c_info s n;
                if ni_type (n_node_id x) = OGS_PFCP_NODE_ID_FQDN then
                  if n_last_dns_refresh x = 0 \<or> now - n_last_dns_refresh x \<ge> OGS_PFCP_NODE_DNS_REFRESH_INTERVAL then
                    do { r \<leftarrow> ogs_pfcp_node_id_to_addrinfo d (n_node_id x);
                         case r of
                           None \<Rightarrow> Some (OGS_ERROR, s)
                         | Some as \<Rightarrow> Some (OGS_OK, upd_info n (\<lambda>x. x\<lparr>n_last_dns_refresh := now\<rparr>)
                                             (upd_node n (\<lambda>p. p\<lparr>addr_list := as, current_addr := None\<rparr>) s)) }
                  else Some (OGS_OK, s)
                else if ni_type (n_node_id x) = OGS_PFCP_NODE_ID_IPV4 \<or> ni_type (n_node_id x) = OGS_PFCP_NODE_ID_IPV6 then
                  do { r \<leftarrow> ogs_pfcp_node_id_to_addrinfo d (n_node_id x);
                       case r of
                         None \<Rightarrow> Some (OGS_ERROR, s)
                       | Some as \<Rightarrow> Some (OGS_OK, upd_node n (\<lambda>p. p\<lparr>addr_list := ogs_merge_addrinfo (addr_list p) as\<rparr>) s) }
                else Some (OGS_ERROR, s) })"

definition ogs_pfcp_node_merge :: "pfcp_dns \<Rightarrow> int \<Rightarrow> nat \<Rightarrow> pfcp_node_id option \<Rightarrow> ogs_sockaddr option \<Rightarrow> ('s, 'c) pfcp_ctx \<Rightarrow> (status \<times> ('s, 'c) pfcp_ctx) option" where
  "ogs_pfcp_node_merge d now n i from s =
     do { ogs_assert (i \<noteq> None \<or> from \<noteq> None);
          (rv, s) \<leftarrow> (case i of None \<Rightarrow> Some (OGS_OK, s) | Some i \<Rightarrow> merge_node_id d now n i s);
          if rv \<noteq> OGS_OK then Some (rv, s)
          else Some (OGS_OK, case from of
                                None \<Rightarrow> s
                              | Some a \<Rightarrow> upd_node n (\<lambda>p. p\<lparr>addr_list := ogs_merge_addrinfo (addr_list p) [a]\<rparr>) s) }"

definition ogs_pfcp_node_add :: "pfcp_dns \<Rightarrow> int \<Rightarrow> pfcp_node_id \<Rightarrow> ogs_sockaddr \<Rightarrow> ('s, 'c) pfcp_ctx \<Rightarrow> (nat option \<times> ('s, 'c) pfcp_ctx) option" where
  "ogs_pfcp_node_add d now i from s =
     (if \<not> ni_known i then Some (None, s)
      else do { (x, s) \<leftarrow> ogs_pfcp_node_new [] s;
                case x of
                  None \<Rightarrow> Some (None, s)
                | Some n \<Rightarrow>
                    do { (rv, s) \<leftarrow> ogs_pfcp_node_merge d now n (Some i) (Some from)
                                       (upd_info n (\<lambda>x. x\<lparr>n_node_id := i, n_last_dns_refresh := 0\<rparr>) s);
                         if rv \<noteq> OGS_OK then Some (None, s\<lparr>c_node_pool := ogs_pool_free n (c_node_pool s)\<rparr>)
                         else Some (Some n, s\<lparr>c_peer_list := c_peer_list s @ [n]\<rparr>) } })"

definition id_differs :: "pfcp_node_id option \<Rightarrow> pfcp_node_id \<Rightarrow> bool option" where
  "id_differs i j =
     (case i of
        Some i \<Rightarrow> if ni_type j \<noteq> OGS_PFCP_NODE_ID_UNKNOWN then map_option Not (ogs_pfcp_node_id_compare j i) else Some False
      | None \<Rightarrow> Some False)"

fun node_find :: "pfcp_node_id option \<Rightarrow> ogs_sockaddr option \<Rightarrow> ('s, 'c) pfcp_ctx \<Rightarrow> nat list \<Rightarrow> nat option option" where
  "node_find i from s [] = Some None"
| "node_find i from s (n # ns) =
     do { skip \<leftarrow> id_differs i (n_node_id (c_info s n));
          if skip then node_find i from s ns
          else if from = None then Some (Some n)
          else if ogs_sockaddr_check_any_match (addr_list (node_of s n)) [] from True then Some (Some n)
          else node_find i from s ns }"

definition ogs_pfcp_node_find :: "pfcp_node_id option \<Rightarrow> ogs_sockaddr option \<Rightarrow> ('s, 'c) pfcp_ctx \<Rightarrow> nat option option" where
  "ogs_pfcp_node_find i from s = do { ogs_assert (i \<noteq> None \<or> from \<noteq> None); node_find i from s (c_peer_list s) }"

definition ogs_pfcp_node_remove :: "nat \<Rightarrow> ('s, 'c) pfcp_ctx \<Rightarrow> ('s, 'c) pfcp_ctx option" where
  "ogs_pfcp_node_remove n s = ogs_pfcp_node_free n (s\<lparr>c_peer_list := remove1 n (c_peer_list s)\<rparr>)"

definition ogs_pfcp_node_remove_all :: "('s, 'c) pfcp_ctx \<Rightarrow> ('s, 'c) pfcp_ctx option" where
  "ogs_pfcp_node_remove_all s = foldM ogs_pfcp_node_remove (c_peer_list s) s"

text \<open>A peer of the configuration file: the addresses of its host names, as the resolver gave them, and the preferences for the two families.\<close>

definition config_peer :: "ogs_sockaddr list \<Rightarrow> bool \<Rightarrow> bool \<Rightarrow> bool \<Rightarrow> ('s, 'c) pfcp_ctx \<Rightarrow> ('s, 'c) pfcp_ctx option" where
  "config_peer addr no_ipv4 no_ipv6 prefer_ipv4 s =
     do { let addr = ogs_filter_ip_version addr no_ipv4 no_ipv6 prefer_ipv4;
          if addr = [] then Some s
          else do { (x, s) \<leftarrow> ogs_pfcp_node_new addr s;
                    n \<leftarrow> x;
                    Some (s\<lparr>c_peer_list := c_peer_list s @ [n]\<rparr>) } }"

subsection \<open>Handlers of the node level (handler.c)\<close>

definition lift_xact :: "('c xstate \<Rightarrow> (status \<times> 'c xstate) option) \<Rightarrow> ('s, 'c) pfcp_ctx \<Rightarrow> (status \<times> ('s, 'c) pfcp_ctx) option" where
  "lift_xact f s = map_option (\<lambda>(rv, mw). (rv, s\<lparr>c_xact := mw\<rparr>)) (f (c_xact s))"

definition note_recovery :: "nat \<Rightarrow> u32 \<Rightarrow> ('s, 'c) pfcp_ctx \<Rightarrow> ('s, 'c) pfcp_ctx" where
  "note_recovery n ts s =
     upd_info n (\<lambda>i. (if n_remote_recovery i \<noteq> 0 \<and> n_remote_recovery i < ts then i\<lparr>n_restoration_required := True\<rparr> else i)\<lparr>n_remote_recovery := ts\<rparr>) s"

text \<open>\<open>ts\<close> is the recovery time stamp of the message, if present; \<open>built\<close> what the builder of the response returns.\<close>

definition ogs_pfcp_handle_heartbeat_request ::
  "pfcp_conf \<Rightarrow> int \<Rightarrow> nat \<Rightarrow> nat \<Rightarrow> u32 option \<Rightarrow> ogs_pkbuf option \<Rightarrow> ('s, 'c) pfcp_ctx \<Rightarrow> (bool \<times> ('s, 'c) pfcp_ctx) option" where
  "ogs_pfcp_handle_heartbeat_request c now n x ts built s =
     (case ts of
        None \<Rightarrow> Some (False, s)
      | Some ts \<Rightarrow>
          do { (rv, s) \<leftarrow> lift_xact (ogs_pfcp_send_heartbeat_response c now x built) (note_recovery n ts s);
               Some (rv = OGS_OK, s) })"

definition ogs_pfcp_handle_heartbeat_response ::
  "pfcp_conf \<Rightarrow> int \<Rightarrow> int \<Rightarrow> nat \<Rightarrow> nat \<Rightarrow> u32 option \<Rightarrow> ('s, 'c) pfcp_ctx \<Rightarrow> (bool \<times> ('s, 'c) pfcp_ctx) option" where
  "ogs_pfcp_handle_heartbeat_response c no_heartbeat_duration now n x ts s =
     do { (_, s) \<leftarrow> lift_xact (ogs_pfcp_xact_commit c now x) s;
          case ts of
            None \<Rightarrow> Some (False, s)
          | Some ts \<Rightarrow>
              do { let s = note_recovery n ts s;
                   t \<leftarrow> n_t_no_heartbeat (c_info s n);
                   m \<leftarrow> ogs_timer_start t no_heartbeat_duration now (fst (c_xact s));
                   Some (True, s\<lparr>c_xact := (m, snd (c_xact s))\<rparr>) } }"

text \<open>The elements of an association message: resources, as memory and length, up to the first that is absent, and features.\<close>

definition OGS_MAX_NUM_OF_GTPU_RESOURCE :: nat where "OGS_MAX_NUM_OF_GTPU_RESOURCE = 4"

definition store_resource :: "nat \<Rightarrow> u8 list \<times> nat \<Rightarrow> ('s, 'c) pfcp_ctx \<Rightarrow> ('s, 'c) pfcp_ctx option" where
  "store_resource n ml s =
     do { (sz, info) \<leftarrow> ogs_pfcp_parse_user_plane_ip_resource_info (fst ml) (snd ml);
          if snd ml = sz then ogs_gtpu_resource_add n info s else Some s }"

text \<open>The features fill the first bytes of the structure, which has seven.\<close>

definition store_features :: "nat \<Rightarrow> u8 list option \<Rightarrow> ('s, 'c) pfcp_ctx \<Rightarrow> ('s, 'c) pfcp_ctx" where
  "store_features n f s =
     (case f of
        Some bs \<Rightarrow>
          if bs = [] then s
          else upd_info n (\<lambda>i. i\<lparr>n_up_function_features := take 7 bs @ drop (length (take 7 bs)) (n_up_function_features i),
                                   n_up_function_features_len := length (take 7 bs)\<rparr>) s
      | None \<Rightarrow> s)"

definition store_association :: "nat \<Rightarrow> (u8 list \<times> nat) list \<Rightarrow> u8 list option \<Rightarrow> ('s, 'c) pfcp_ctx \<Rightarrow> ('s, 'c) pfcp_ctx option" where
  "store_association n rs f s =
     do { s \<leftarrow> foldM (store_resource n) (take OGS_MAX_NUM_OF_GTPU_RESOURCE rs) (ogs_gtpu_resource_remove_all n s);
          Some (store_features n f s) }"

definition ogs_pfcp_cp_handle_association_setup_request ::
  "pfcp_conf \<Rightarrow> int \<Rightarrow> nat \<Rightarrow> nat \<Rightarrow> (u8 list \<times> nat) list \<Rightarrow> u8 list option \<Rightarrow> ogs_pkbuf option \<Rightarrow> ('s, 'c) pfcp_ctx \<Rightarrow> (bool \<times> ('s, 'c) pfcp_ctx) option" where
  "ogs_pfcp_cp_handle_association_setup_request c now n x rs f built s =
     do { (_, s) \<leftarrow> lift_xact (ogs_pfcp_cp_send_association_setup_response c now x built) s;
          s \<leftarrow> store_association n rs f s;
          Some (True, s) }"

definition ogs_pfcp_cp_handle_association_setup_response ::
  "pfcp_conf \<Rightarrow> int \<Rightarrow> nat \<Rightarrow> nat \<Rightarrow> (u8 list \<times> nat) list \<Rightarrow> u8 list option \<Rightarrow> ('s, 'c) pfcp_ctx \<Rightarrow> (bool \<times> ('s, 'c) pfcp_ctx) option" where
  "ogs_pfcp_cp_handle_association_setup_response c now n x rs f s =
     do { (_, s) \<leftarrow> lift_xact (ogs_pfcp_xact_commit c now x) s;
          s \<leftarrow> store_association n rs f s;
          Some (True, s) }"

definition ogs_pfcp_up_handle_association_setup_request ::
  "pfcp_conf \<Rightarrow> int \<Rightarrow> nat \<Rightarrow> u8 option \<Rightarrow> ogs_pkbuf option \<Rightarrow> ('s, 'c) pfcp_ctx \<Rightarrow> (bool \<times> ('s, 'c) pfcp_ctx) option" where
  "ogs_pfcp_up_handle_association_setup_request c now x f built s =
     do { (_, s) \<leftarrow> lift_xact (ogs_pfcp_up_send_association_setup_response c now x built) s;
          Some (True, case f of Some u \<Rightarrow> s\<lparr>c_cp_function_features := u\<rparr> | None \<Rightarrow> s) }"

definition ogs_pfcp_up_handle_association_setup_response ::
  "pfcp_conf \<Rightarrow> int \<Rightarrow> nat \<Rightarrow> u8 option \<Rightarrow> ('s, 'c) pfcp_ctx \<Rightarrow> (bool \<times> ('s, 'c) pfcp_ctx) option" where
  "ogs_pfcp_up_handle_association_setup_response c now x f s =
     do { (_, s) \<leftarrow> lift_xact (ogs_pfcp_xact_commit c now x) s;
          Some (True, case f of Some u \<Rightarrow> s\<lparr>c_cp_function_features := u\<rparr> | None \<Rightarrow> s) }"

subsection \<open>Node identifiers\<close>

text \<open>A stored identifier has its 256 bytes, the last of them zero.\<close>

definition id_wf :: "pfcp_node_id \<Rightarrow> bool" where
  "id_wf i \<longleftrightarrow> length (ni_bytes i) = OGS_MAX_FQDN_LEN \<and> ni_bytes i ! (OGS_MAX_FQDN_LEN - 1) = 0"

lemma copy_node_id_wf [simp]: "id_wf (copy_node_id v)"
  by (simp add: id_wf_def copy_node_id_def Let_def OGS_MAX_FQDN_LEN_def)

lemma zero_node_id_wf [simp]: "id_wf (zero_node_id\<lparr>ni_type := t\<rparr>)" "id_wf zero_node_id"
  by (simp_all add: id_wf_def zero_node_id_def OGS_MAX_FQDN_LEN_def)

lemma compare_known: "ni_known i \<Longrightarrow> \<exists>b. ogs_pfcp_node_id_compare j i = Some b"
  by (auto simp: ogs_pfcp_node_id_compare_def ni_known_def)

lemma compare_refl: "ni_known i \<Longrightarrow> ogs_pfcp_node_id_compare i i = Some True"
  by (auto simp: ogs_pfcp_node_id_compare_def ni_known_def node_id_defs)

lemma compare_type: "ogs_pfcp_node_id_compare j i = Some True \<Longrightarrow> ni_type j = ni_type i"
  by (simp add: ogs_pfcp_node_id_compare_def split: if_splits)

text \<open>What the code relies on of the resolver: a successful answer is not empty.\<close>

definition dns_ok :: "pfcp_dns \<Rightarrow> bool" where
  "dns_ok d \<longleftrightarrow> (\<forall>n p as. getaddrinfo d n p = Some as \<longrightarrow> as \<noteq> [])"

lemma to_addrinfo_ok:
  assumes "id_wf i"
  shows "\<exists>r. ogs_pfcp_node_id_to_addrinfo d i = Some r" "dns_ok d \<Longrightarrow> ogs_pfcp_node_id_to_addrinfo d i = Some (Some as) \<Longrightarrow> as \<noteq> []"
proof -
  have "ni_bytes i ! 255 = 0" "255 < length (ni_bytes i)" using assms by (simp_all add: id_wf_def OGS_MAX_FQDN_LEN_def)
  then have "0 \<in> set (ni_bytes i)" using nth_mem [of 255 "ni_bytes i"] by simp
  then have "length (ni_fqdn i) < length (ni_bytes i)" unfolding ni_fqdn_def by (intro length_takeWhile_less) auto
  then have "\<exists>r. ogs_fqdn_parse (ni_bytes i) (length (ni_fqdn i)) = Some r"
    using fqdn_parse_loop_total [of "length (ni_fqdn i)" "ni_bytes i" 0 "[]"] by (simp add: ogs_fqdn_parse_def)
  then show "\<exists>r. ogs_pfcp_node_id_to_addrinfo d i = Some r" by (auto simp: ogs_pfcp_node_id_to_addrinfo_def split: option.split)
  show "dns_ok d \<Longrightarrow> ogs_pfcp_node_id_to_addrinfo d i = Some (Some as) \<Longrightarrow> as \<noteq> []"
    by (auto simp: ogs_pfcp_node_id_to_addrinfo_def dns_ok_def bind_eq_Some_conv split: if_splits option.splits)
qed

subsection \<open>The transactions under a change of a node\<close>

lemma xinv_node:
  assumes "xinv N nx m w" "local_list p = local_list (pnodes w n)" "remote_list p = remote_list (pnodes w n)" "n \<in> N \<Longrightarrow> node_ok p"
  shows "xinv N nx m (upd_pnode n (\<lambda>_. p) w)"
proof -
  have "lists_ok (upd_pnode n (\<lambda>_. p) w)" using xinvD(5) [OF assms(1)] assms(2,3) by (simp add: lists_ok_def upd_pnode_def)
  moreover have "\<forall>nd \<in> N. node_ok (pnodes (upd_pnode n (\<lambda>_. p) w) nd)" using xinvD(4) [OF assms(1)] assms(4) by (simp add: upd_pnode_def)
  ultimately show ?thesis using assms(1) unfolding xinv_def by (simp add: upd_pnode_def)
qed

lemma xinv_insert: "xinv N nx m w \<Longrightarrow> node_ok (pnodes w n) \<Longrightarrow> xinv (insert n N) nx m w"
  unfolding xinv_def by simp

lemma xinv_subset: "xinv N nx m w \<Longrightarrow> M \<subseteq> N \<Longrightarrow> \<forall>k \<in> live (xpool w). x_node (xacts w k) \<in> M \<Longrightarrow> xinv M nx m w"
  unfolding xinv_def by blast

lemma fresh_lists:
  assumes "xinv N nx m w" "n \<notin> N"
  shows "local_list (pnodes w n) = []" "remote_list (pnodes w n) = []"
proof -
  have "k \<notin> set (local_list (pnodes w n))" "k \<notin> set (remote_list (pnodes w n))" for k
    using lists_okD(1,2) [OF assms(1), of k n] xinvD(9) [OF assms(1), of k] assms(2) by auto
  then show "local_list (pnodes w n) = []" "remote_list (pnodes w n) = []" by (metis list.set_intros(1) neq_Nil_conv)+
qed

subsection \<open>Merging\<close>

text \<open>Merging changes the identifier and the addresses of one node; its current address stays one of its addresses.\<close>

definition cur_ok :: "pfcp_node \<Rightarrow> bool" where
  "cur_ok p \<longleftrightarrow> (\<forall>k. current_addr p = Some k \<longrightarrow> k < length (addr_list p))"

lemma node_ok_cur: "node_ok p \<longleftrightarrow> addr_list p \<noteq> [] \<and> cur_ok p"
  by (simp add: node_ok_def cur_ok_def)

lemma cur_ok_merge: "cur_ok p \<Longrightarrow> cur_ok (p\<lparr>addr_list := ogs_merge_addrinfo (addr_list p) as\<rparr>)"
  using merge_prefix [of "addr_list p" as] by (auto simp: cur_ok_def prefix_def)

lemma merge_Nil: "ogs_merge_addrinfo d s = [] \<longleftrightarrow> d = [] \<and> s = []"
  using merge_set [of d s] by (metis set_empty sup_eq_bot_iff)

definition set_node :: "nat \<Rightarrow> 's node_info \<Rightarrow> pfcp_node \<Rightarrow> ('s, 'c) pfcp_ctx \<Rightarrow> ('s, 'c) pfcp_ctx" where
  "set_node n x p s = upd_info n (\<lambda>_. x) (upd_node n (\<lambda>_. p) s)"

lemma upd_simps [simp]:
  "c_info (upd_info n f s) = (c_info s)(n := f (c_info s n))" "c_xact (upd_info n f s) = c_xact s" "c_peer_list (upd_info n f s) = c_peer_list s"
  "c_node_pool (upd_info n f s) = c_node_pool s" "c_gtpu_free (upd_info n f s) = c_gtpu_free s" "c_cp_function_features (upd_info n f s) = c_cp_function_features s"
  "c_info (upd_node n g s) = c_info s" "fst (c_xact (upd_node n g s)) = fst (c_xact s)" "snd (c_xact (upd_node n g s)) = upd_pnode n g (snd (c_xact s))"
  "c_peer_list (upd_node n g s) = c_peer_list s" "c_node_pool (upd_node n g s) = c_node_pool s" "c_gtpu_free (upd_node n g s) = c_gtpu_free s"
  "c_cp_function_features (upd_node n g s) = c_cp_function_features s"
  by (simp_all add: upd_info_def upd_node_def)

lemma upd_node_eq: "upd_node n g (upd_info n f s) = set_node n (f (c_info s n)) (g (node_of s n)) s"
  "upd_info n f (upd_node n g s) = set_node n (f (c_info s n)) (g (node_of s n)) s"
  by (simp_all add: set_node_def upd_info_def upd_node_def upd_pnode_def)

lemma set_node_same: "set_node n (c_info s n) (node_of s n) s = s"
  by (simp add: set_node_def upd_info_def upd_node_def upd_pnode_def)

lemma set_node_parts:
  "upd_info n f s = set_node n (f (c_info s n)) (node_of s n) s" "upd_node n g s = set_node n (c_info s n) (g (node_of s n)) s"
  "set_node n x p (set_node n x' p' s) = set_node n x p s"
  by (simp_all add: set_node_def upd_info_def upd_node_def upd_pnode_def)

lemma set_node_simps [simp]:
  "c_info (set_node n x p s) n = x" "k \<noteq> n \<Longrightarrow> c_info (set_node n x p s) k = c_info s k" "fst (c_xact (set_node n x p s)) = fst (c_xact s)"
  "snd (c_xact (set_node n x p s)) = upd_pnode n (\<lambda>_. p) (snd (c_xact s))" "c_peer_list (set_node n x p s) = c_peer_list s"
  "c_node_pool (set_node n x p s) = c_node_pool s" "c_gtpu_free (set_node n x p s) = c_gtpu_free s"
  "c_cp_function_features (set_node n x p s) = c_cp_function_features s" "node_of (set_node n x p s) n = p"
  by (simp_all add: set_node_def)

text \<open>The result of a merge: \<open>j\<close> and \<open>t\<close> are the new identifier and time of the last resolution, \<open>as\<close> and \<open>c\<close> the new addresses.\<close>

lemma merge_node_id_ok:
  assumes "id_wf (n_node_id (c_info s n))" "id_wf i" "ni_known i" "dns_ok d"
  shows "\<exists>rv j t as c. merge_node_id d now n i s = Some (rv, set_node n ((c_info s n)\<lparr>n_node_id := j, n_last_dns_refresh := t\<rparr>)
      ((node_of s n)\<lparr>addr_list := as, current_addr := c\<rparr>) s)
    \<and> id_wf j \<and> ogs_pfcp_node_id_compare j i = Some True \<and> (cur_ok (node_of s n) \<longrightarrow> cur_ok ((node_of s n)\<lparr>addr_list := as, current_addr := c\<rparr>))
    \<and> (addr_list (node_of s n) \<noteq> [] \<longrightarrow> as \<noteq> []) \<and> (rv \<noteq> OGS_OK \<longrightarrow> as = addr_list (node_of s n) \<and> c = current_addr (node_of s n))"
proof -
  obtain same where same: "ogs_pfcp_node_id_compare (n_node_id (c_info s n)) i = Some same" using compare_known [OF assms(3)] by blast
  define x where "x = (if same then c_info s n else (c_info s n)\<lparr>n_node_id := i, n_last_dns_refresh := 0\<rparr>)"
  define p where "p = node_of s n"
  have sx: "(if same then s else upd_info n (\<lambda>x. x\<lparr>n_node_id := i, n_last_dns_refresh := 0\<rparr>) s) = set_node n x p s"
    by (simp add: x_def p_def set_node_same set_node_parts)
  have j: "id_wf (n_node_id x)" "ogs_pfcp_node_id_compare (n_node_id x) i = Some True"
    using assms(1-3) same compare_refl by (auto simp: x_def)
  then have known: "ni_known (n_node_id x)" using compare_type [of "n_node_id x" i] assms(3) by (simp add: ni_known_def)
  have xe: "x = (c_info s n)\<lparr>n_node_id := n_node_id x, n_last_dns_refresh := n_last_dns_refresh x\<rparr>" by (simp add: x_def)
  obtain r where r: "ogs_pfcp_node_id_to_addrinfo d (n_node_id x) = Some r" using to_addrinfo_ok(1) [OF j(1)] by blast
  have ne: "r = Some as \<Longrightarrow> as \<noteq> []" for as using to_addrinfo_ok(2) [OF j(1) assms(4)] r by simp
  let ?goal = "\<lambda>rv x' p'. merge_node_id d now n i s = Some (rv, set_node n x' p' s)"
  consider (keep) rv where "?goal rv x p"
    | (new) as where "?goal OGS_OK (x\<lparr>n_last_dns_refresh := now\<rparr>) (p\<lparr>addr_list := as, current_addr := None\<rparr>)" "as \<noteq> []"
    | (merged) as where "?goal OGS_OK x (p\<lparr>addr_list := ogs_merge_addrinfo (addr_list p) as\<rparr>)" "as \<noteq> []"
  proof (cases r)
    case None
    then have "\<exists>rv. ?goal rv x p" using assms(3) known r by (auto simp: merge_node_id_def same sx ni_known_def Let_def)
    then show ?thesis using keep by blast
  next
    case (Some as)
    show ?thesis
    proof (cases "ni_type (n_node_id x) = OGS_PFCP_NODE_ID_FQDN")
      case True
      show ?thesis
      proof (cases "n_last_dns_refresh x = 0 \<or> now - n_last_dns_refresh x \<ge> OGS_PFCP_NODE_DNS_REFRESH_INTERVAL")
        case refresh: True
        have "?goal OGS_OK (x\<lparr>n_last_dns_refresh := now\<rparr>) (p\<lparr>addr_list := as, current_addr := None\<rparr>)"
          using True refresh Some r assms(3) by (simp add: merge_node_id_def same sx upd_node_eq set_node_parts Let_def)
        then show ?thesis using new ne Some by blast
      next
        case False
        then have "?goal OGS_OK x p" using True assms(3) by (simp add: merge_node_id_def same sx Let_def)
        then show ?thesis using keep by blast
      qed
    next
      case False
      then have "?goal OGS_OK x (p\<lparr>addr_list := ogs_merge_addrinfo (addr_list p) as\<rparr>)"
        using known Some r assms(3) by (auto simp: merge_node_id_def same sx upd_node_eq set_node_parts Let_def ni_known_def)
      then show ?thesis using merged ne Some by blast
    qed
  qed
  then show ?thesis
  proof cases
    case keep
    then show ?thesis
      by (intro exI [of _ rv] exI [of _ "n_node_id x"] exI [of _ "n_last_dns_refresh x"] exI [of _ "addr_list p"] exI [of _ "current_addr p"])
        (simp add: xe [symmetric] j p_def)
  next
    case new
    then show ?thesis
      by (intro exI [of _ OGS_OK] exI [of _ "n_node_id x"] exI [of _ now] exI [of _ as] exI [of _ None])
        (simp add: x_def j [unfolded x_def] p_def cur_ok_def)
  next
    case merged
    then show ?thesis using cur_ok_merge [of p as] merge_Nil [of "addr_list p" as]
      by (intro exI [of _ OGS_OK] exI [of _ "n_node_id x"] exI [of _ "n_last_dns_refresh x"] exI [of _ "ogs_merge_addrinfo (addr_list p) as"] exI [of _ "current_addr p"])
        (simp add: xe [symmetric] j p_def)
  qed
qed

lemma node_merge_ok:
  assumes "id_wf (n_node_id (c_info s n))" "\<forall>j. i = Some j \<longrightarrow> id_wf j \<and> ni_known j" "dns_ok d"
  shows "\<exists>rv j t as c. ogs_pfcp_node_merge d now n i (Some a) s = Some (rv, set_node n ((c_info s n)\<lparr>n_node_id := j, n_last_dns_refresh := t\<rparr>)
      ((node_of s n)\<lparr>addr_list := as, current_addr := c\<rparr>) s)
    \<and> id_wf j \<and> (case i of None \<Rightarrow> j = n_node_id (c_info s n) | Some i \<Rightarrow> ogs_pfcp_node_id_compare j i = Some True)
    \<and> (cur_ok (node_of s n) \<longrightarrow> cur_ok ((node_of s n)\<lparr>addr_list := as, current_addr := c\<rparr>))
    \<and> (addr_list (node_of s n) \<noteq> [] \<longrightarrow> as \<noteq> []) \<and> (rv = OGS_OK \<longrightarrow> a \<in> set as)"
proof -
  obtain rv j t as c where 1: "(case i of None \<Rightarrow> Some (OGS_OK, s) | Some i \<Rightarrow> merge_node_id d now n i s)
      = Some (rv, set_node n ((c_info s n)\<lparr>n_node_id := j, n_last_dns_refresh := t\<rparr>) ((node_of s n)\<lparr>addr_list := as, current_addr := c\<rparr>) s)"
    "id_wf j" "case i of None \<Rightarrow> j = n_node_id (c_info s n) | Some i \<Rightarrow> ogs_pfcp_node_id_compare j i = Some True"
    "cur_ok (node_of s n) \<longrightarrow> cur_ok ((node_of s n)\<lparr>addr_list := as, current_addr := c\<rparr>)" "addr_list (node_of s n) \<noteq> [] \<longrightarrow> as \<noteq> []"
  proof (cases i)
    case None
    then show ?thesis using assms(1) set_node_same [of n s]
      by (intro that [where rv = OGS_OK and j = "n_node_id (c_info s n)" and t = "n_last_dns_refresh (c_info s n)" and as = "addr_list (node_of s n)" and c = "current_addr (node_of s n)"]) simp_all
  next
    case (Some i')
    have i': "id_wf i'" "ni_known i'" using Some assms(2) by simp_all
    show ?thesis using merge_node_id_ok [OF assms(1) i' assms(3), of now] that unfolding Some option.case by blast
  qed
  let ?p = "(node_of s n)\<lparr>addr_list := as, current_addr := c\<rparr>" and ?x = "(c_info s n)\<lparr>n_node_id := j, n_last_dns_refresh := t\<rparr>"
  show ?thesis
  proof (cases "rv = OGS_OK")
    case True
    have e: "?p\<lparr>addr_list := ogs_merge_addrinfo as [a]\<rparr> = (node_of s n)\<lparr>addr_list := ogs_merge_addrinfo as [a], current_addr := c\<rparr>"
      by (cases "node_of s n") simp
    have "ogs_pfcp_node_merge d now n i (Some a) s = Some (OGS_OK, set_node n ?x (?p\<lparr>addr_list := ogs_merge_addrinfo as [a]\<rparr>) s)"
      using True by (simp add: ogs_pfcp_node_merge_def 1(1) set_node_parts)
    note m = this [unfolded e]
    have "cur_ok ?p \<Longrightarrow> cur_ok ((node_of s n)\<lparr>addr_list := ogs_merge_addrinfo as [a], current_addr := c\<rparr>)" using cur_ok_merge [of ?p "[a]"] by (simp add: cur_ok_def)
    then show ?thesis using m 1(2-5) merge_set [of as "[a]"]
      by (intro exI [of _ OGS_OK] exI [of _ j] exI [of _ t] exI [of _ "ogs_merge_addrinfo as [a]"] exI [of _ c])
        (simp add: merge_Nil del: ogs_merge_addrinfo.simps)
  next
    case False
    then have "ogs_pfcp_node_merge d now n i (Some a) s = Some (rv, set_node n ?x ?p s)" by (simp add: ogs_pfcp_node_merge_def 1(1))
    then show ?thesis using 1(2-5) False by blast
  qed
qed

subsection \<open>The nodes and their transactions\<close>

text \<open>The peers are exactly the nodes in use, each with an address and an identifier that is unknown or of a known type.\<close>

definition peers_inv :: "nat \<Rightarrow> ('s, 'c) pfcp_ctx \<Rightarrow> bool" where
  "peers_inv nx s \<longleftrightarrow> distinct (c_peer_list s) \<and> (\<exists>fs. pool_repr (c_node_pool s) fs) \<and> live (c_node_pool s) = set (c_peer_list s)
     \<and> (\<forall>n \<in> set (c_peer_list s). id_wf (n_node_id (c_info s n)))
     \<and> xinv (set (c_peer_list s)) nx (fst (c_xact s)) (snd (c_xact s))"

lemma peers_invD:
  assumes "peers_inv nx s"
  shows "distinct (c_peer_list s)" "\<exists>fs. pool_repr (c_node_pool s) fs" "live (c_node_pool s) = set (c_peer_list s)"
    "n \<in> set (c_peer_list s) \<Longrightarrow> id_wf (n_node_id (c_info s n))" "xinv (set (c_peer_list s)) nx (fst (c_xact s)) (snd (c_xact s))"
    "n \<in> set (c_peer_list s) \<Longrightarrow> node_ok (node_of s n)"
  using assms xinvD(4) unfolding peers_inv_def by blast+

lemma peers_inv_xact:
  assumes "peers_inv nx s" "xinv (set (c_peer_list s)) nx m w"
  shows "peers_inv nx (s\<lparr>c_xact := (m, w)\<rparr>)"
  using assms unfolding peers_inv_def by simp

lemma peers_inv_set_node:
  assumes "peers_inv nx s" "n \<in> set (c_peer_list s)" "id_wf (n_node_id x)" "node_ok p"
    "local_list p = local_list (node_of s n)" "remote_list p = remote_list (node_of s n)"
  shows "peers_inv nx (set_node n x p s)"
proof -
  have "id_wf (n_node_id (c_info (set_node n x p s) k))" if "k \<in> set (c_peer_list s)" for k
    using that assms(3) peers_invD(4) [OF assms(1)] by (cases "k = n") simp_all
  then show ?thesis using assms(1) xinv_node [OF peers_invD(5) [OF assms(1)] assms(5,6,4)] unfolding peers_inv_def by simp
qed

lemma merge_peer_ok:
  assumes inv: "peers_inv nx s" and n: "n \<in> set (c_peer_list s)" and i: "\<forall>j. i = Some j \<longrightarrow> id_wf j \<and> ni_known j" "dns_ok d"
  shows "\<exists>rv x p. ogs_pfcp_node_merge d now n i (Some a) s = Some (rv, set_node n x p s) \<and> peers_inv nx (set_node n x p s)
    \<and> local_list p = local_list (node_of s n) \<and> remote_list p = remote_list (node_of s n) \<and> n_sm x = n_sm (c_info s n)
    \<and> n_t_no_heartbeat x = n_t_no_heartbeat (c_info s n) \<and> n_t_association x = n_t_association (c_info s n) \<and> n_gtpu_resource_list x = n_gtpu_resource_list (c_info s n)"
proof -
  obtain rv j t as c where m: "ogs_pfcp_node_merge d now n i (Some a) s = Some (rv, set_node n ((c_info s n)\<lparr>n_node_id := j, n_last_dns_refresh := t\<rparr>)
      ((node_of s n)\<lparr>addr_list := as, current_addr := c\<rparr>) s)" "id_wf j"
    "cur_ok (node_of s n) \<longrightarrow> cur_ok ((node_of s n)\<lparr>addr_list := as, current_addr := c\<rparr>)" "addr_list (node_of s n) \<noteq> [] \<longrightarrow> as \<noteq> []"
    using node_merge_ok [OF peers_invD(4) [OF inv n] i, of now a] by blast
  let ?x = "(c_info s n)\<lparr>n_node_id := j, n_last_dns_refresh := t\<rparr>" and ?p = "(node_of s n)\<lparr>addr_list := as, current_addr := c\<rparr>"
  have "node_ok ?p" using m(3,4) peers_invD(6) [OF inv n] by (simp add: node_ok_cur)
  then have "peers_inv nx (set_node n ?x ?p s)" using m(2) by (intro peers_inv_set_node [OF inv n]) simp_all
  then show ?thesis using m(1) by (intro exI [of _ rv] exI [of _ ?x] exI [of _ ?p]) simp
qed

lemma pool_alloc_peer:
  assumes "peers_inv nx s"
  obtains "ogs_pool_alloc (c_node_pool s) = Some (None, c_node_pool s)" "avail (c_node_pool s) = 0"
    | n p fs where "ogs_pool_alloc (c_node_pool s) = Some (Some n, p)" "pool_repr p fs" "live p = insert n (live (c_node_pool s))" "n \<notin> set (c_peer_list s)"
proof -
  obtain fs where fs: "pool_repr (c_node_pool s) fs" using peers_invD(2) [OF assms] by blast
  show ?thesis
  proof (cases fs)
    case Nil then show ?thesis using that(1) pool_alloc_empty fs by (simp add: pool_repr_def)
  next
    case (Cons n gs) then show ?thesis using that(2) pool_alloc_repr [of "c_node_pool s" n gs] fs peers_invD(3) [OF assms] by blast
  qed
qed

text \<open>A new node is a peer behind the others, with the identifier and the address that it was added for; nothing else of the state changes.\<close>

lemma node_add_ok:
  assumes inv: "peers_inv nx s" and i: "id_wf i" "ni_known i" and d: "dns_ok d"
  shows "\<exists>r s'. ogs_pfcp_node_add d now i a s = Some (r, s') \<and> peers_inv nx s' \<and> c_gtpu_free s' = c_gtpu_free s \<and> fst (c_xact s') = fst (c_xact s)
    \<and> xouts (snd (c_xact s')) = xouts (snd (c_xact s)) \<and> xpool (snd (c_xact s')) = xpool (snd (c_xact s))
    \<and> g_xact_id (snd (c_xact s')) = g_xact_id (snd (c_xact s)) \<and> (\<forall>k \<in> set (c_peer_list s). c_info s' k = c_info s k \<and> node_of s' k = node_of s k)
    \<and> (case r of
         None \<Rightarrow> c_peer_list s' = c_peer_list s
       | Some n \<Rightarrow> n \<notin> set (c_peer_list s) \<and> c_peer_list s' = c_peer_list s @ [n] \<and> a \<in> set (addr_list (node_of s' n))
           \<and> local_list (node_of s' n) = [] \<and> remote_list (node_of s' n) = []
           \<and> ogs_pfcp_node_id_compare (n_node_id (c_info s' n)) i = Some True \<and> n_t_no_heartbeat (c_info s' n) = None \<and> n_t_association (c_info s' n) = None
           \<and> n_gtpu_resource_list (c_info s' n) = [] \<and> n_sm (c_info s' n) = \<lparr>init = None, fini = None, state = None\<rparr>)"
proof -
  consider (full) "ogs_pool_alloc (c_node_pool s) = Some (None, c_node_pool s)"
    | (room) n p fs where "ogs_pool_alloc (c_node_pool s) = Some (Some n, p)" "pool_repr p fs" "live p = insert n (live (c_node_pool s))" "n \<notin> set (c_peer_list s)"
    using pool_alloc_peer [OF inv] by metis
  then show ?thesis
  proof cases
    case full
    have "s\<lparr>c_node_pool := c_node_pool s\<rparr> = s" by simp
    then show ?thesis using full inv i(2) by (simp add: ogs_pfcp_node_add_def ogs_pfcp_node_new_def)
  next
    case room
    let ?x = "zero_node_info\<lparr>n_node_id := i\<rparr>" and ?p = "\<lparr>local_list = [], remote_list = [], addr_list = [], current_addr = None\<rparr>"
    let ?s = "set_node n ?x ?p (s\<lparr>c_node_pool := p\<rparr>)"
    have new: "ogs_pfcp_node_new [] s = Some (Some n, set_node n zero_node_info ?p (s\<lparr>c_node_pool := p\<rparr>))"
      using room(1) by (simp add: ogs_pfcp_node_new_def upd_node_eq zero_node_info_def)
    have z: "zero_node_info\<lparr>n_node_id := i, n_last_dns_refresh := 0\<rparr> = ?x" by (simp add: zero_node_info_def)
    have "id_wf (n_node_id (c_info ?s n))" using i(1) by simp
    then obtain rv j t as c where m: "ogs_pfcp_node_merge d now n (Some i) (Some a) ?s = Some (rv, set_node n ((c_info ?s n)\<lparr>n_node_id := j, n_last_dns_refresh := t\<rparr>)
        ((node_of ?s n)\<lparr>addr_list := as, current_addr := c\<rparr>) ?s)" "id_wf j" "ogs_pfcp_node_id_compare j i = Some True"
      "cur_ok ((node_of ?s n)\<lparr>addr_list := as, current_addr := c\<rparr>)" "rv = OGS_OK \<longrightarrow> a \<in> set as"
      using node_merge_ok [of ?s n "Some i" d now a] i d by (auto simp: cur_ok_def)
    let ?x' = "?x\<lparr>n_node_id := j, n_last_dns_refresh := t\<rparr>" and ?p' = "?p\<lparr>addr_list := as, current_addr := c\<rparr>"
    define t' where "t' = set_node n ?x' ?p' (s\<lparr>c_node_pool := p\<rparr>)"
    have add: "ogs_pfcp_node_add d now i a s = Some (if rv = OGS_OK then (Some n, t'\<lparr>c_peer_list := c_peer_list s @ [n]\<rparr>) else (None, t'\<lparr>c_node_pool := ogs_pool_free n p\<rparr>))"
      using i(2) m(1) by (simp add: ogs_pfcp_node_add_def new set_node_parts z t'_def)
    have fresh: "local_list (node_of s n) = []" "remote_list (node_of s n) = []" using fresh_lists [OF peers_invD(5) [OF inv] room(4)] by simp_all
    have x: "xinv (set (c_peer_list s)) nx (fst (c_xact t')) (snd (c_xact t'))"
      using xinv_node [OF peers_invD(5) [OF inv], of ?p' n] fresh room(4) by (simp add: t'_def)
    have ids: "id_wf (n_node_id (c_info t' k))" if "k \<in> insert n (set (c_peer_list s))" for k
      using that m(2) peers_invD(4) [OF inv] by (cases "k = n") (simp_all add: t'_def)
    have same: "\<forall>k \<in> set (c_peer_list s). c_info t' k = c_info s k \<and> node_of t' k = node_of s k"
    proof
      fix k assume "k \<in> set (c_peer_list s)" then have "k \<noteq> n" using room(4) by blast
      then show "c_info t' k = c_info s k \<and> node_of t' k = node_of s k" by (simp add: t'_def)
    qed
    show ?thesis
    proof (cases "rv = OGS_OK")
      case True
      then have "node_ok (node_of t' n)" using m(4,5) by (auto simp: t'_def node_ok_cur)
      note x' = xinv_insert [OF x this]
      have "peers_inv nx (t'\<lparr>c_peer_list := c_peer_list s @ [n]\<rparr>)" unfolding peers_inv_def
        using peers_invD(1,3) [OF inv] room(2-4) x' ids by (auto simp: t'_def)
      then show ?thesis using add True same room(4) m(3,5) by (simp add: t'_def zero_node_info_def)
    next
      case False
      have "n \<in> live p" using room(3) by simp
      note f = pool_free_repr(1,2) [OF room(2) this]
      have "live (ogs_pool_free n p) = set (c_peer_list s)" using f(2) room(3,4) peers_invD(3) [OF inv] by auto
      then have "peers_inv nx (t'\<lparr>c_node_pool := ogs_pool_free n p\<rparr>)" unfolding peers_inv_def
        using peers_invD(1) [OF inv] f(1) x ids by (auto simp: t'_def)
      then show ?thesis using add False same by (simp add: t'_def)
    qed
  qed
qed

subsection \<open>Finding and removing\<close>

lemma node_find_append:
  "node_find i a s (xs @ ys) = do { r \<leftarrow> node_find i a s xs; case r of None \<Rightarrow> node_find i a s ys | Some n \<Rightarrow> Some (Some n) }"
proof (induction xs)
  case (Cons n xs) then show ?case by (cases "id_differs i (n_node_id (c_info s n))") auto
qed simp

lemma node_find_cong:
  assumes "\<forall>n \<in> set ns. n_node_id (c_info s' n) = n_node_id (c_info s n) \<and> addr_list (node_of s' n) = addr_list (node_of s n)"
  shows "node_find i a s' ns = node_find i a s ns"
  using assms
proof (induction ns)
  case (Cons n ns) then show ?case by (cases "id_differs i (n_node_id (c_info s n))") auto
qed simp

lemma id_differs_known: "\<forall>j. i = Some j \<longrightarrow> ni_known j \<Longrightarrow> \<exists>b. id_differs i j' = Some b"
  using compare_known [of _ j'] by (cases i) (auto simp: id_differs_def)

lemma node_find_ok:
  assumes "\<forall>j. i = Some j \<longrightarrow> ni_known j"
  shows "\<exists>r. node_find i (Some a) s ns = Some r \<and> (\<forall>n. r = Some n \<longrightarrow> n \<in> set ns \<and> a \<in> set (addr_list (node_of s n)))"
proof (induction ns)
  case (Cons n ns)
  obtain b where b: "id_differs i (n_node_id (c_info s n)) = Some b" using id_differs_known assms by blast
  show ?case using Cons.IH by (auto simp: b)
qed simp

text \<open>Removing a node ends its transactions with their timers and leaves those of the others.\<close>

lemma node_remove_ok:
  assumes inv: "peers_inv nx s" and n: "n \<in> set (c_peer_list s)"
  shows "\<exists>s'. ogs_pfcp_node_remove n s = Some s' \<and> peers_inv nx s' \<and> c_peer_list s' = remove1 n (c_peer_list s)
    \<and> live (xpool (snd (c_xact s'))) = {k \<in> live (xpool (snd (c_xact s))). x_node (xacts (snd (c_xact s)) k) \<noteq> n}"
proof -
  let ?s = "ogs_gtpu_resource_remove_all n (s\<lparr>c_peer_list := remove1 n (c_peer_list s)\<rparr>)"
  obtain m' w' where x: "ogs_pfcp_xact_delete_all n (c_xact s) = Some (m', w')" "xinv (set (c_peer_list s)) nx m' w'" "xacts w' = xacts (snd (c_xact s))"
    "live (xpool w') = {k \<in> live (xpool (snd (c_xact s))). x_node (xacts (snd (c_xact s)) k) \<noteq> n}"
    using delete_all_ok [OF peers_invD(5) [OF inv], of n] by auto
  define s' where "s' = ?s\<lparr>c_xact := (m', w'), c_node_pool := ogs_pool_free n (c_node_pool s)\<rparr>"
  have r: "ogs_pfcp_node_remove n s = Some s'" using x(1) by (simp add: ogs_pfcp_node_remove_def ogs_pfcp_node_free_def ogs_gtpu_resource_remove_all_def s'_def)
  have d: "set (remove1 n (c_peer_list s)) = set (c_peer_list s) - {n}" "distinct (remove1 n (c_peer_list s))" using peers_invD(1) [OF inv] by simp_all
  obtain fs where fs: "pool_repr (c_node_pool s) fs" using peers_invD(2) [OF inv] by blast
  note f = pool_free_repr(1,2) [OF fs, of n, unfolded peers_invD(3) [OF inv], OF n]
  have "xinv (set (c_peer_list s) - {n}) nx m' w'"
    using x(3,4) xinvD(9) [OF x(2)] by (intro xinv_subset [OF x(2)]) auto
  moreover have "\<forall>k \<in> set (remove1 n (c_peer_list s)). id_wf (n_node_id (c_info s' k))"
    using peers_invD(4) [OF inv] d(1) by (auto simp: s'_def ogs_gtpu_resource_remove_all_def)
  ultimately have "peers_inv nx s'" unfolding peers_inv_def using d f by (auto simp: s'_def ogs_gtpu_resource_remove_all_def)
  then show ?thesis using r x(4) by (simp add: s'_def ogs_gtpu_resource_remove_all_def)
qed

lemma remove_peers_ok:
  assumes "peers_inv nx s" "set ns \<subseteq> set (c_peer_list s)" "distinct ns"
  shows "\<exists>s'. foldM ogs_pfcp_node_remove ns s = Some s' \<and> peers_inv nx s' \<and> set (c_peer_list s') = set (c_peer_list s) - set ns"
  using assms
proof (induction ns arbitrary: s)
  case (Cons n ns)
  obtain s1 where 1: "ogs_pfcp_node_remove n s = Some s1" "peers_inv nx s1" "c_peer_list s1 = remove1 n (c_peer_list s)"
    using node_remove_ok [OF Cons.prems(1), of n] Cons.prems(2) by auto
  have s: "set (c_peer_list s1) = set (c_peer_list s) - {n}" using 1(3) peers_invD(1) [OF Cons.prems(1)] by simp
  then have "set ns \<subseteq> set (c_peer_list s1)" "distinct ns" using Cons.prems(2,3) by auto
  with Cons.IH [OF 1(2)] obtain s2 where "foldM ogs_pfcp_node_remove ns s1 = Some s2" "peers_inv nx s2" "set (c_peer_list s2) = set (c_peer_list s1) - set ns" by blast
  then show ?case using 1(1) s by auto
qed auto

lemma config_peer_ok:
  assumes inv: "peers_inv nx s" and r: "config_peer addr no4 no6 prefer s = Some s'"
  shows "peers_inv nx s'" "c_gtpu_free s' = c_gtpu_free s" "fst (c_xact s') = fst (c_xact s)" "xouts (snd (c_xact s')) = xouts (snd (c_xact s))"
    "\<forall>k \<in> set (c_peer_list s). c_info s' k = c_info s k" "id (xpool (snd (c_xact s'))) = id (xpool (snd (c_xact s)))"
    "\<forall>k \<in> set (c_peer_list s'). k \<in> set (c_peer_list s) \<or> c_info s' k = zero_node_info\<lparr>n_config_addr := ogs_filter_ip_version addr no4 no6 prefer\<rparr>"
proof -
  define as where "as = ogs_filter_ip_version addr no4 no6 prefer"
  have "peers_inv nx s' \<and> c_gtpu_free s' = c_gtpu_free s \<and> fst (c_xact s') = fst (c_xact s) \<and> xouts (snd (c_xact s')) = xouts (snd (c_xact s))
    \<and> (\<forall>k \<in> set (c_peer_list s). c_info s' k = c_info s k) \<and> id (xpool (snd (c_xact s'))) = id (xpool (snd (c_xact s)))
    \<and> (\<forall>k \<in> set (c_peer_list s'). k \<in> set (c_peer_list s) \<or> c_info s' k = zero_node_info\<lparr>n_config_addr := as\<rparr>)"
  proof (cases "as = []")
    case True then show ?thesis using r inv by (simp add: config_peer_def as_def)
  next
    case False
    obtain n p fs where n: "ogs_pool_alloc (c_node_pool s) = Some (Some n, p)" "pool_repr p fs" "live p = insert n (live (c_node_pool s))" "n \<notin> set (c_peer_list s)"
    proof -
      have "ogs_pool_alloc (c_node_pool s) \<noteq> Some (None, c_node_pool s)" using r False by (auto simp: config_peer_def ogs_pfcp_node_new_def as_def [symmetric])
      then show ?thesis using pool_alloc_peer [OF inv] that by metis
    qed
    let ?x = "zero_node_info\<lparr>n_config_addr := as\<rparr>" and ?p = "\<lparr>local_list = [], remote_list = [], addr_list = as, current_addr = None\<rparr>"
    define t where "t = set_node n ?x ?p (s\<lparr>c_node_pool := p\<rparr>)"
    have s': "s' = t\<lparr>c_peer_list := c_peer_list s @ [n]\<rparr>"
      using r n(1) False by (simp add: config_peer_def ogs_pfcp_node_new_def as_def [symmetric] upd_node_eq t_def)
    have fresh: "local_list (node_of s n) = []" "remote_list (node_of s n) = []" using fresh_lists [OF peers_invD(5) [OF inv] n(4)] by simp_all
    have x: "xinv (set (c_peer_list s)) nx (fst (c_xact t)) (snd (c_xact t))"
      using xinv_node [OF peers_invD(5) [OF inv], of ?p n] fresh n(4) by (simp add: t_def)
    have "node_ok (node_of t n)" using False by (simp add: t_def node_ok_def)
    note x' = xinv_insert [OF x this]
    have ids: "id_wf (n_node_id (c_info t k))" if "k \<in> insert n (set (c_peer_list s))" for k
      using that peers_invD(4) [OF inv] by (cases "k = n") (simp_all add: t_def zero_node_info_def)
    have "peers_inv nx s'" unfolding peers_inv_def s' using peers_invD(1,3) [OF inv] n(2-4) x' ids by (auto simp: t_def)
    moreover have "\<forall>k \<in> set (c_peer_list s). c_info s' k = c_info s k" using n(4) by (auto simp: s' t_def set_node_def)
    ultimately show ?thesis by (simp add: s' t_def)
  qed
  then show "peers_inv nx s'" "c_gtpu_free s' = c_gtpu_free s" "fst (c_xact s') = fst (c_xact s)" "xouts (snd (c_xact s')) = xouts (snd (c_xact s))"
    "\<forall>k \<in> set (c_peer_list s). c_info s' k = c_info s k" "id (xpool (snd (c_xact s'))) = id (xpool (snd (c_xact s)))"
    "\<forall>k \<in> set (c_peer_list s'). k \<in> set (c_peer_list s) \<or> c_info s' k = zero_node_info\<lparr>n_config_addr := ogs_filter_ip_version addr no4 no6 prefer\<rparr>"
    by (simp_all add: as_def)
qed

subsection \<open>The handlers keep the invariant\<close>

lemma commit_inv:
  assumes "xinv N nx (fst mw) (snd mw)" "k \<in> live (xpool (snd mw))" "clock_ok c now" "ogs_pfcp_xact_commit c now k mw = Some (rv, mw')"
  shows "xinv N nx (fst mw') (snd mw')"
proof -
  have "x_step (xacts (snd mw) k) \<ge> 1" using assms(4) by (auto simp: ogs_pfcp_xact_commit_def Let_def seq_at_def bind_eq_Some_conv split: if_splits)
  then show ?thesis using commit_ok [OF assms(1,2) _ assms(3)] assms(4) by auto
qed

lemma update_tx_inv:
  assumes "xinv N nx (fst mw) (snd mw)" "k \<in> live (xpool (snd mw))" "ogs_pfcp_xact_update_tx k type seid pk mw = Some (rv, mw')"
  shows "xinv N nx (fst mw') (snd mw')" "live (xpool (snd mw')) = live (xpool (snd mw))"
  using update_tx_eq [of k type seid pk "fst mw" "snd mw" rv mw'] xinv_tx_step [OF assms(1,2)] assms by auto

lemma stored_commit_ok:
  assumes inv: "xinv N nx m w" and k: "k \<in> live (xpool w)" and a: "tx_allowed (xacts w k) type = Some True" and c: "clock_ok c now"
  shows "\<exists>m' w'. ogs_pfcp_xact_commit c now k (m, upd_xact k (tx_step type pk) w) = Some (OGS_OK, (m', w')) \<and> xinv N nx m' w' \<and> xpool w' = xpool w"
proof -
  let ?w = "upd_xact k (tx_step type pk) w"
  note i = xinv_tx_step [OF inv k a, of pk]
  have k': "k \<in> live (xpool ?w)" using k by simp
  have l: "length (x_seq (xacts w k)) = 3" using xinvD(7) [OF inv k] by (simp add: xshape_def)
  from tx_allowed_cases [OF a xinvD(7) [OF inv k]] consider "x_org (xacts ?w k) = OGS_PFCP_LOCAL_ORIGINATOR" "x_step (xacts ?w k) = 1"
    | "x_step (xacts ?w k) = 3" "x_org (xacts ?w k) = OGS_PFCP_LOCAL_ORIGINATOR" "seq_at (xacts ?w k) 2 = Some (type, Some pk)" "ogs_pfcp_xact_get_stage type = PFCP_XACT_FINAL_STAGE"
    | "x_step (xacts ?w k) = 2" "x_org (xacts ?w k) = OGS_PFCP_REMOTE_ORIGINATOR" "seq_at (xacts ?w k) 1 = Some (type, Some pk)" "ogs_pfcp_xact_get_stage type = PFCP_XACT_FINAL_STAGE"
    using l by (auto simp: tx_step_def)
  then show ?thesis
  proof cases
    case 1 then show ?thesis using commit_request_ok [OF i k' _ _ c] by (fastforce simp: same_lists_def)
  next
    case 2 then show ?thesis using commit_send_ok [OF i k', of type pk c now] by (fastforce simp: same_lists_def commit_action_of_def)
  next
    case 3 then show ?thesis using commit_send_ok [OF i k', of type pk c now] by (fastforce simp: same_lists_def commit_action_of_def)
  qed
qed

text \<open>Storing a message and committing it, as all functions of path.c do.\<close>

lemma store_commit_inv:
  assumes "xinv N nx (fst mw) (snd mw)" "k \<in> live (xpool (snd mw))" "clock_ok c now" "ogs_pfcp_xact_update_tx k type seid pk mw = Some (OGS_OK, mw1)"
  obtains mw2 where "ogs_pfcp_xact_commit c now k mw1 = Some (OGS_OK, mw2)" "xinv N nx (fst mw2) (snd mw2)" "xpool (snd mw2) = xpool (snd mw)"
proof -
  obtain pk' where "tx_allowed (xacts (snd mw) k) type = Some True" "mw1 = (fst mw, upd_xact k (tx_step type pk') (snd mw))"
    using update_tx_eq [of k type seid pk "fst mw" "snd mw" OGS_OK mw1] assms(4) by auto
  then show ?thesis using stored_commit_ok [OF assms(1,2) _ assms(3)] that by fastforce
qed

lemma status_cases: "rv \<noteq> OGS_OK \<Longrightarrow> ogs_pfcp_xact_update_tx k type seid pk mw = Some (rv, mw1) \<Longrightarrow> mw1 = mw"
  using update_tx_eq [of k type seid pk "fst mw" "snd mw" rv mw1] by auto

lemma send_response_inv:
  assumes "xinv N nx (fst mw) (snd mw)" "k \<in> live (xpool (snd mw))" "clock_ok c now"
  shows "send_node_response type c now k built mw = Some (rv, mw') \<Longrightarrow> xinv N nx (fst mw') (snd mw')"
    "ogs_pfcp_send_heartbeat_response c now k built mw = Some (rv, mw') \<Longrightarrow> xinv N nx (fst mw') (snd mw')"
proof -
  have 1: "xinv N nx (fst mw') (snd mw')" if s: "send_node_response type c now k built mw = Some (rv, mw')"
  proof (cases built)
    case None then show ?thesis using s assms(1) by (simp add: send_node_response_def)
  next
    case (Some pk)
    then obtain r1 mw1 where u: "ogs_pfcp_xact_update_tx k type 0 pk mw = Some (r1, mw1)" using s by (auto simp: send_node_response_def bind_eq_Some_conv)
    show ?thesis
    proof (cases "r1 = OGS_OK")
      case False then show ?thesis using s Some u status_cases [OF False u] assms(1) by (simp add: send_node_response_def)
    next
      case True
      from store_commit_inv [OF assms u [unfolded True]] show ?thesis using s Some u True by (fastforce simp: send_node_response_def)
    qed
  qed
  have 2: "xinv N nx (fst mw') (snd mw')" if s: "ogs_pfcp_send_heartbeat_response c now k built mw = Some (rv, mw')"
  proof (cases built)
    case None then show ?thesis using s assms(1) by (simp add: ogs_pfcp_send_heartbeat_response_def)
  next
    case (Some pk)
    then obtain r1 mw1 where u: "ogs_pfcp_xact_update_tx k OGS_PFCP_HEARTBEAT_RESPONSE_TYPE 0 pk mw = Some (r1, mw1)"
      using s by (auto simp: ogs_pfcp_send_heartbeat_response_def bind_eq_Some_conv)
    show ?thesis
    proof (cases "r1 = OGS_OK")
      case False then show ?thesis using s Some u status_cases [OF False u] assms(1) by (simp add: ogs_pfcp_send_heartbeat_response_def)
    next
      case True
      obtain mw2 where 2: "ogs_pfcp_xact_commit c now k mw1 = Some (OGS_OK, mw2)" "xinv N nx (fst mw2) (snd mw2)" "xpool (snd mw2) = xpool (snd mw)"
        using store_commit_inv [OF assms u [unfolded True]] by blast
      then show ?thesis using s Some u True xact_delete_ok [OF 2(2), of k] assms(2) by (auto simp: ogs_pfcp_send_heartbeat_response_def)
    qed
  qed
  show "send_node_response type c now k built mw = Some (rv, mw') \<Longrightarrow> xinv N nx (fst mw') (snd mw')"
    "ogs_pfcp_send_heartbeat_response c now k built mw = Some (rv, mw') \<Longrightarrow> xinv N nx (fst mw') (snd mw')" using 1 2 by blast+
qed

lemma local_create_id:
  assumes "ogs_pfcp_xact_local_create c nd cb mw = Some (k, mw')"
  shows "id (xpool (snd mw')) = OGS_NEXT_ID (id (xpool (snd mw))) 1 OGS_MAX_POOL_ID"
proof -
  obtain p where p: "ogs_pool_id_calloc (xpool (snd mw)) = Some (Some k, p)" "xpool (snd mw') = p"
    using assms by (auto simp: ogs_pfcp_xact_local_create_def bind_eq_Some_conv Let_def)
  obtain p' where a: "ogs_pool_alloc (xpool (snd mw)) = Some (Some k, p')" "id p = OGS_NEXT_ID (id p') 1 OGS_MAX_POOL_ID"
    using p(1) by (auto simp: ogs_pool_id_calloc_def bind_eq_Some_conv Let_def split: option.splits)
  have "id p' = id (xpool (snd mw))" using a(1) by (auto simp: ogs_pool_alloc_def bind_eq_Some_conv split: if_splits)
  then show ?thesis using a(2) p(2) by simp
qed

lemma next_id_bound: "unat (OGS_NEXT_ID i 1 OGS_MAX_POOL_ID) \<le> unat i + 1"
  by (simp add: OGS_NEXT_ID_def unat_word_ariths) 

lemma send_request_inv:
  assumes "xinv N nx (fst mw) (snd mw)" "id (xpool (snd mw)) < OGS_MAX_POOL_ID" "clock_ok c now" "nd \<in> N" "send_node_request type c now nd cb built mw = Some (rv, mw')"
  shows "xinv N nx (fst mw') (snd mw')" "unat (id (xpool (snd mw'))) \<le> unat (id (xpool (snd mw))) + 1"
proof -
  obtain k mw0 where k: "ogs_pfcp_xact_local_create c nd cb mw = Some (k, mw0)" using assms(5) by (auto simp: send_node_request_def bind_eq_Some_conv)
  then have c: "ogs_pfcp_xact_local_create c nd cb (fst mw, snd mw) = Some (k, (fst mw0, snd mw0))" by simp
  note i = local_create_ok(1,3) [OF assms(1,2) c assms(4)]
  have k': "k \<in> live (xpool (snd mw0))" using i(2) by simp
  have "xinv N nx (fst mw') (snd mw') \<and> xpool (snd mw') = xpool (snd mw0)"
  proof (cases built)
    case None then show ?thesis using assms(5) k i(1) by (simp add: send_node_request_def)
  next
    case (Some pk)
    then obtain r1 mw1 where u: "ogs_pfcp_xact_update_tx k type 0 pk mw0 = Some (r1, mw1)" using assms(5) k by (auto simp: send_node_request_def bind_eq_Some_conv)
    show ?thesis
    proof (cases "r1 = OGS_OK")
      case False then show ?thesis using assms(5) k Some u status_cases [OF False u] i(1) by (simp add: send_node_request_def)
    next
      case True
      from store_commit_inv [OF i(1) k' assms(3) u [unfolded True]] show ?thesis using assms(5) k Some u True by (fastforce simp: send_node_request_def)
    qed
  qed
  then show "xinv N nx (fst mw') (snd mw')" "unat (id (xpool (snd mw'))) \<le> unat (id (xpool (snd mw))) + 1"
    using local_create_id [OF k] next_id_bound [of "id (xpool (snd mw))"] by simp_all
qed

text \<open>A received message that is passed on has a transaction in use.\<close>

lemma receive_passed:
  assumes inv: "xinv N nx (fst mw) (snd mw)" and c: "clock_ok c now" and i: "id (xpool (snd mw)) < OGS_MAX_POOL_ID" and nd: "nd \<in> N"
    and r: "ogs_pfcp_xact_receive c now nd type sqn mw = Some (OGS_OK, x, mw')"
  obtains k where "x = Some k" "k \<in> live (xpool (snd mw'))"
proof -
  have st: "ogs_pfcp_xact_get_stage type \<noteq> PFCP_XACT_UNKNOWN_STAGE" using r by (auto simp: ogs_pfcp_xact_receive_def)
  have on: thesis if h: "receive_on c now type k mw0 = Some (OGS_OK, x, mw')" "xinv N nx (fst mw0) (snd mw0)" "k \<in> live (xpool (snd mw0))"
    "x_org (xacts (snd mw0) k) = OGS_PFCP_REMOTE_ORIGINATOR \<Longrightarrow> x_step (xacts (snd mw0) k) = 2 \<Longrightarrow> ogs_pfcp_xact_get_stage type \<noteq> PFCP_XACT_FINAL_STAGE" for k mw0
  proof -
    obtain rv m1 w1 where u: "ogs_pfcp_xact_update_rx c now k type mw0 = Some (rv, (m1, w1))" "live (xpool w1) = live (xpool (snd mw0))"
      using update_rx_ok [OF h(2,3) c, of type] h(4) by auto
    then have "x = Some k" "mw' = (m1, w1)" using h(1) by (auto simp: receive_on_def bind_eq_Some_conv split: if_splits)
    then show thesis using \<open>\<And>k. x = Some k \<Longrightarrow> k \<in> live (xpool (snd mw')) \<Longrightarrow> thesis\<close> u(2) h(3) by simp
  qed
  show thesis
  proof (cases "find (\<lambda>n. x_xid (xacts (snd mw) n) = OGS_PFCP_SQN_TO_XID sqn)
       (if ogs_pfcp_xact_get_stage type = PFCP_XACT_INITIAL_STAGE then remote_list (pnodes (snd mw) nd) else local_list (pnodes (snd mw) nd))")
    case None
    then obtain k mw0 where k: "ogs_pfcp_xact_remote_create c nd sqn mw = Some (k, mw0)" "receive_on c now type k mw0 = Some (OGS_OK, x, mw')"
      using r receive_eq [OF st, of c now nd sqn mw] by (auto simp: bind_eq_Some_conv)
    from k(1) have "ogs_pfcp_xact_remote_create c nd sqn (fst mw, snd mw) = Some (k, (fst mw0, snd mw0))" by simp
    note n = remote_create_ok(1,3,5) [OF inv i this nd]
    show thesis by (rule on [OF k(2) n(1)]) (use n in simp_all)
  next
    case (Some k)
    then have ro: "receive_on c now type k mw = Some (OGS_OK, x, mw')" using r receive_eq [OF st, of c now nd sqn mw] by simp
    show thesis
    proof (rule on [OF ro inv])
      show "k \<in> live (xpool (snd mw))" using find_in [OF Some] lists_okD(1,2) [OF inv] by (auto split: if_splits)
      show "x_org (xacts (snd mw) k) = OGS_PFCP_REMOTE_ORIGINATOR \<Longrightarrow> ogs_pfcp_xact_get_stage type \<noteq> PFCP_XACT_FINAL_STAGE"
        using find_in [OF Some] lists_okD(1) [OF inv] by (auto split: if_splits)
    qed
  qed
qed

lemma peers_inv_info:
  assumes "peers_inv nx s" "id_wf (n_node_id (f (c_info s n)))"
  shows "peers_inv nx (upd_info n f s)"
  using assms unfolding peers_inv_def by simp

subsection \<open>The sizes of the pools\<close>

text \<open>The pools keep their size, so that what is available follows from what is in use.\<close>

lemma alloc_size: "ogs_pool_alloc p = Some (x, p') \<Longrightarrow> size p' = size p"
  by (auto simp: ogs_pool_alloc_def bind_eq_Some_conv split: if_splits)

lemma free_size: "size (ogs_pool_free n p) = size p"
  by (simp add: ogs_pool_free_def)

lemma id_pool_size:
  "ogs_pool_id_calloc p = Some (x, p') \<Longrightarrow> size p' = size p"
  "ogs_pool_id_free n p = Some p' \<Longrightarrow> size p' = size p"
  using alloc_size [of p] by (auto simp: ogs_pool_id_calloc_def ogs_pool_id_free_def free_size bind_eq_Some_conv Let_def split: option.splits)

lemma timer_size:
  "ogs_timer_add cb m = Some (t, m') \<Longrightarrow> size (m_pool m') = size (m_pool m)"
  "ogs_timer_delete k m = Some m' \<Longrightarrow> size (m_pool m') = size (m_pool m)"
  "tm_delete tm m = Some m' \<Longrightarrow> size (m_pool m') = size (m_pool m)"
  "tm_start tm d now m = Some m' \<Longrightarrow> size (m_pool m') = size (m_pool m)"
proof -
  show "ogs_timer_add cb m = Some (t, m') \<Longrightarrow> size (m_pool m') = size (m_pool m)"
    using alloc_size [of "m_pool m"] by (auto simp: ogs_timer_add_def bind_eq_Some_conv Let_def upd_timer_def split: option.splits)
  have d: "size (m_pool m') = size (m_pool m)" if "ogs_timer_delete k m = Some m'" for k
    using that by (auto simp: ogs_timer_delete_def ogs_timer_stop_def bind_eq_Some_conv free_size Let_def upd_timer_def split: if_splits)
  show "ogs_timer_delete k m = Some m' \<Longrightarrow> size (m_pool m') = size (m_pool m)" using d .
  show "tm_delete tm m = Some m' \<Longrightarrow> size (m_pool m') = size (m_pool m)" using d by (auto simp: tm_delete_def split: option.splits)
  show "tm_start tm d now m = Some m' \<Longrightarrow> size (m_pool m') = size (m_pool m)"
    by (auto simp: tm_start_def ogs_timer_start_def add_timer_node_def upd_timer_def bind_eq_Some_conv Let_def split: option.splits if_splits)
qed

definition pool_sizes :: "'c xstate \<Rightarrow> nat \<times> nat" where
  "pool_sizes mw = (size (xpool (snd mw)), size (m_pool (fst mw)))"

lemma create_sizes: "ogs_pfcp_xact_local_create c nd cb mw = Some (k, mw') \<Longrightarrow> pool_sizes mw' = pool_sizes mw"
  by (auto simp: ogs_pfcp_xact_local_create_def add_xact_timers_def pool_sizes_def upd_pnode_def upd_xact_def bind_eq_Some_conv Let_def dest!: timer_size(1) id_pool_size(1))

lemma delete_sizes: "ogs_pfcp_xact_delete k mw = Some mw' \<Longrightarrow> pool_sizes mw' = pool_sizes mw"
  by (auto simp: ogs_pfcp_xact_delete_def pool_sizes_def upd_pnode_def bind_eq_Some_conv Let_def dest!: timer_size(3) id_pool_size(2) split: if_splits)

lemma sendto_pool: "ogs_pfcp_sendto c nd pk w = Some (rv, w') \<Longrightarrow> xpool w' = xpool w"
  by (auto simp: ogs_pfcp_sendto_def upd_pnode_def bind_eq_Some_conv Let_def split: if_splits option.splits)

lemma commit_sizes: "ogs_pfcp_xact_commit c now k mw = Some (rv, mw') \<Longrightarrow> pool_sizes mw' = pool_sizes mw"
  unfolding ogs_pfcp_xact_commit_def
  by (auto simp: bind_eq_Some_conv Let_def delete_sizes dest!: timer_size(4) sendto_pool split: if_splits) (auto simp: pool_sizes_def)

lemma send_request_sizes:
  assumes "send_node_request type c now nd cb built mw = Some (rv, mw')"
  shows "pool_sizes mw' = pool_sizes mw"
proof -
  obtain k mw0 where k: "ogs_pfcp_xact_local_create c nd cb mw = Some (k, mw0)" using assms by (auto simp: send_node_request_def bind_eq_Some_conv)
  have "pool_sizes mw' = pool_sizes mw0"
  proof (cases built)
    case None then show ?thesis using assms k by (simp add: send_node_request_def)
  next
    case (Some pk)
    then obtain r1 mw1 where u: "ogs_pfcp_xact_update_tx k type 0 pk mw0 = Some (r1, mw1)" using assms k by (auto simp: send_node_request_def bind_eq_Some_conv)
    have "pool_sizes mw1 = pool_sizes mw0" using u by (auto simp: ogs_pfcp_xact_update_tx_def pool_sizes_def upd_xact_def bind_eq_Some_conv Let_def split: if_splits)
    then show ?thesis using assms k Some u commit_sizes [of c now k mw1 rv mw'] by (auto simp: send_node_request_def split: if_splits)
  qed
  then show ?thesis using create_sizes [OF k] by simp
qed

subsection \<open>Properties\<close>

text \<open>C16. A node that is added for an identifier and an address is afterwards found by them, unless another peer was found before, which then still is; a node that is not added
  leaves what is found as it was.\<close>

theorem pfcp_node_add_find:
  assumes "peers_inv nx s" "id_wf i" "ni_known i" "dns_ok d"
  shows "\<exists>r s' q. ogs_pfcp_node_add d now i a s = Some (r, s') \<and> peers_inv nx s' \<and> ogs_pfcp_node_find (Some i) (Some a) s = Some q
    \<and> ogs_pfcp_node_find (Some i) (Some a) s' = Some (if q = None then r else q)"
proof -
  obtain r s' where a: "ogs_pfcp_node_add d now i a s = Some (r, s')" "peers_inv nx s'"
    "\<forall>k \<in> set (c_peer_list s). c_info s' k = c_info s k \<and> node_of s' k = node_of s k"
    "case r of None \<Rightarrow> c_peer_list s' = c_peer_list s
       | Some n \<Rightarrow> c_peer_list s' = c_peer_list s @ [n] \<and> a \<in> set (addr_list (node_of s' n)) \<and> ogs_pfcp_node_id_compare (n_node_id (c_info s' n)) i = Some True"
    using node_add_ok [OF assms, of now a] by (fastforce split: option.splits)
  obtain q where q: "node_find (Some i) (Some a) s (c_peer_list s) = Some q" using node_find_ok [of "Some i" a s] assms(3) by blast
  have q': "node_find (Some i) (Some a) s' (c_peer_list s) = Some q" using node_find_cong [of "c_peer_list s" s' s] a(3) q by simp
  have "ogs_pfcp_node_find (Some i) (Some a) s' = Some (if q = None then r else q)"
  proof (cases r)
    case None then show ?thesis using a(4) q' by (simp add: ogs_pfcp_node_find_def)
  next
    case (Some n)
    then have n: "c_peer_list s' = c_peer_list s @ [n]" "a \<in> set (addr_list (node_of s' n))" "ogs_pfcp_node_id_compare (n_node_id (c_info s' n)) i = Some True"
      using a(4) by simp_all
    have "node_find (Some i) (Some a) s' [n] = Some (Some n)" using n(2,3) by (simp add: id_differs_def)
    then show ?thesis using q' Some by (auto simp: ogs_pfcp_node_find_def n(1) node_find_append split: option.split)
  qed
  then show ?thesis using a(1,2) q by (intro exI [of _ r] exI [of _ s'] exI [of _ q]) (simp add: ogs_pfcp_node_find_def)
qed

definition sample_ctx :: "(nat, string) pfcp_ctx" where
  "sample_ctx = \<lparr>c_node_pool = ogs_pool_init 2 [0, 0] 0 5, c_peer_list = [], c_info = (\<lambda>_. zero_node_info), c_gtpu_free = 4, c_cp_function_features = 0,
     c_xact = (sample_tmgr, sample_xacts)\<rparr>"

definition sample_dns :: pfcp_dns where
  "sample_dns = \<lparr>pfcp_port = 8805, getaddrinfo = (\<lambda>_ _. None)\<rparr>"

definition sample_node_id :: pfcp_node_id where
  "sample_node_id = copy_node_id [0, 127, 0, 0, 4]"

lemma sample_node_id_ok: "id_wf sample_node_id" "ni_known sample_node_id" "dns_ok sample_dns"
proof -
  show "id_wf sample_node_id" by (simp add: sample_node_id_def)
  show "ni_known sample_node_id" by (simp add: sample_node_id_def ni_known_def copy_node_id_def Let_def node_id_defs)
  show "dns_ok sample_dns" by (simp add: sample_dns_def dns_ok_def)
qed

lemma sample_live: "live (xpool sample_xacts) = {}"
  by (auto simp: live_def sample_xacts_def ogs_pfcp_xact_init_def ogs_pool_init_def)

lemma sample_ctx_inv: "peers_inv 2 sample_ctx"
proof -
  have x: "xinv UNIV 2 sample_tmgr sample_xacts" using xact_run_inv [OF sample_run] by simp
  have "xinv {} 2 sample_tmgr sample_xacts" by (rule xinv_subset [OF x]) (simp_all add: sample_live)
  moreover have "pool_repr (ogs_pool_init 2 [0, 0] 0 5) [0..<2]" by (rule pool_repr_init) simp
  moreover have "live (ogs_pool_init 2 [0, 0] 0 5) = {}" by (auto simp: live_def ogs_pool_init_def)
  ultimately show ?thesis unfolding peers_inv_def sample_ctx_def by (simp del: upt_rec_numeral) blast
qed

theorem pfcp_node_add_find_witness:
  "\<exists>r s' q. ogs_pfcp_node_add sample_dns 5 sample_node_id (SockAddr4 0x7f000004 8805) sample_ctx = Some (r, s') \<and> peers_inv 2 s'
    \<and> ogs_pfcp_node_find (Some sample_node_id) (Some (SockAddr4 0x7f000004 8805)) s' = Some (if q = None then r else q)"
  using pfcp_node_add_find [OF sample_ctx_inv sample_node_id_ok, of 5 "SockAddr4 0x7f000004 8805"] by blast

text \<open>Removing all peers returns from every state of the invariant: no peer, no transaction, no timer of a transaction is left, and every node is free.\<close>

theorem pfcp_node_remove_all_clears:
  assumes "peers_inv nx s"
  shows "\<exists>s'. ogs_pfcp_node_remove_all s = Some s' \<and> peers_inv nx s' \<and> c_peer_list s' = [] \<and> live (xpool (snd (c_xact s'))) = {}
    \<and> live (m_pool (fst (c_xact s'))) = {} \<and> live (c_node_pool s') = {}"
proof -
  obtain s' where s': "ogs_pfcp_node_remove_all s = Some s'" "peers_inv nx s'" "set (c_peer_list s') = {}"
    using remove_peers_ok [OF assms, of "c_peer_list s"] peers_invD(1) [OF assms] by (auto simp: ogs_pfcp_node_remove_all_def)
  have "live (xpool (snd (c_xact s'))) = {}" using xinvD(9) [OF peers_invD(5) [OF s'(2)]] s'(3) by auto
  moreover from this have "live (m_pool (fst (c_xact s'))) = {}" using peers_invD(5) [OF s'(2)] unfolding xinv_def by blast
  ultimately show ?thesis using s' peers_invD(3) [OF s'(2)] by auto
qed

theorem pfcp_node_remove_all_clears_witness:
  "\<exists>s'. ogs_pfcp_node_remove_all sample_ctx = Some s' \<and> live (c_node_pool s') = {}"
  using pfcp_node_remove_all_clears [OF sample_ctx_inv] by blast

end
