(* ===== verification/Gnb_Sync.thy ===== *)
theory Gnb_Sync
  imports Ogs_Cstr
begin

section \<open>The gNB synchronisation messages (amf/sbi-path.c, amf/context.c)\<close>

text \<open>
  The AMF tells the DMF about a gNB with a short body when the gNB connects or leaves, and
  with a long body when a PDU session resource has been set up. The DMF sends the long body
  on to the DSMF. This theory holds the bodies, the AMF's senders and what the readers in the
  DMF and the DSMF find in a body. The calls into the SBI library are parameters:
  whether an instance of the DMF is known, a request can be built, a client exists and the
  request can be handed to it.
\<close>

definition quote :: string where "quote = [CHR 0x22]"

text \<open>The patterns of the printers and of the readers.\<close>

definition key_gnb_id :: string where "key_gnb_id = quote @ ''gnb_id'' @ quote @ '':'' @ quote"
definition key_action :: string where "key_action = quote @ ''action'' @ quote @ '':'' @ quote"
definition key_session_id :: string where "key_session_id = quote @ ''session_id'' @ quote @ '':'' @ quote"
definition key_ran_addr :: string where "key_ran_addr = quote @ ''ran_addr'' @ quote @ '':'' @ quote"
definition key_ran_port :: string where "key_ran_port = quote @ ''ran_port'' @ quote @ '':''"
definition key_teid :: string where "key_teid = quote @ ''teid'' @ quote @ '':''"

definition sync_body :: "string \<Rightarrow> string \<Rightarrow> string" where
  "sync_body gnb act = ''{'' @ key_gnb_id @ gnb @ quote @ '','' @ key_action @ act @ quote @ ''}''"

definition ran_body :: "string \<Rightarrow> string \<Rightarrow> string \<Rightarrow> u16 \<Rightarrow> u32 \<Rightarrow> string" where
  "ran_body gnb sess addr port tid =
     ''{'' @ key_gnb_id @ gnb @ quote @ '','' @ key_action @ ''register'' @ quote @ '',''
     @ key_session_id @ sess @ quote @ '','' @ key_ran_addr @ addr @ quote @ '',''
     @ key_ran_port @ dec (unat port) @ '','' @ key_teid @ dec (unat tid) @ ''}''"

record sync_env =
  dmf_found :: bool
  request_built :: bool
  client_found :: bool
  request_sent :: bool

text \<open>The common end of both senders: the body that leaves the AMF, if one does.\<close>

definition send_to_dmf :: "sync_env \<Rightarrow> string \<Rightarrow> status \<times> string option" where
  "send_to_dmf env body =
     (if \<not> request_built env then (OGS_ERROR, None)
      else if \<not> client_found env then (OGS_ERROR, None)
      else if \<not> request_sent env then (OGS_ERROR, None)
      else (OGS_OK, Some body))"

definition amf_sbi_send_gnb_sync_to_dmf :: "sync_env \<Rightarrow> string \<Rightarrow> bool \<Rightarrow> status \<times> string option" where
  "amf_sbi_send_gnb_sync_to_dmf env gnb is_register =
     (if \<not> dmf_found env then (OGS_ERROR, None)
      else send_to_dmf env (snprintf 256 (sync_body gnb (if is_register then ''register'' else ''deregister''))))"

definition amf_sbi_send_gnb_sync_with_ran_info_to_dmf ::
  "sync_env \<Rightarrow> string \<Rightarrow> string \<Rightarrow> string \<Rightarrow> u16 \<Rightarrow> u32 \<Rightarrow> status \<times> string option" where
  "amf_sbi_send_gnb_sync_with_ran_info_to_dmf env gnb sess addr port tid =
     (if \<not> dmf_found env then (OGS_ERROR, None)
      else send_to_dmf env (ran_body gnb sess addr port tid))"

text \<open>
  The notifications in \<open>amf_gnb_add\<close> and \<open>amf_gnb_remove\<close>. The new gNB comes zeroed from
  \<open>ogs_pool_id_calloc\<close>, and its \<open>gnb_id\<close> is assigned only when its NG Setup Request is handled.
\<close>

definition amf_gnb_add_notify :: "sync_env \<Rightarrow> status \<times> string option" where
  "amf_gnb_add_notify env =
     (let gnb_id = (0 :: u32) in amf_sbi_send_gnb_sync_to_dmf env (snprintf 64 (dec (unat gnb_id))) True)"

definition amf_gnb_remove_notify :: "sync_env \<Rightarrow> u32 \<Rightarrow> status \<times> string option" where
  "amf_gnb_remove_notify env gnb_id = amf_sbi_send_gnb_sync_to_dmf env (snprintf 64 (dec (unat gnb_id))) False"

subsection \<open>What a reader finds in a body\<close>

text \<open>
  The fields a receiver extracts (dmf-sm.c, dsmf-sm.c): absent strings are \<open>None\<close>, absent numbers are
  zero, and the whole is \<open>None\<close> when \<open>atoi\<close> has no defined result.
\<close>

record sync_fields =
  f_gnb_id :: "string option"
  f_action :: "string option"
  f_session_id :: "string option"
  f_ran_addr :: "string option"
  f_ran_port :: u16
  f_teid :: u32

definition num_field :: "string \<Rightarrow> string \<Rightarrow> int option" where
  "num_field key body = map_option (\<lambda>v. case v of None \<Rightarrow> 0 | Some i \<Rightarrow> i) (json_num key body)"

definition sync_parse :: "string \<Rightarrow> sync_fields option" where
  "sync_parse body =
     do { port \<leftarrow> num_field key_ran_port body;
          tid \<leftarrow> num_field key_teid body;
          Some \<lparr>f_gnb_id = json_str key_gnb_id body, f_action = json_str key_action body,
                f_session_id = json_str key_session_id body, f_ran_addr = json_str key_ran_addr body,
                f_ran_port = word_of_int port, f_teid = word_of_int tid\<rparr> }"

lemmas key_defs = quote_def key_gnb_id_def key_action_def key_session_id_def key_ran_addr_def
  key_ran_port_def key_teid_def

lemma strstr_at: "strstr (k @ s) k = Some (k @ s)"
proof -
  have "is_prefix k (k @ s)" by (induction k) auto
  then show ?thesis by (cases "k @ s") auto
qed

text \<open>
  No pattern is found in a quoted value: it would have to start at the value's first quote, and
  then the quote that ends it is followed by a colon in the pattern but not in the body.
\<close>

lemma value_no_match:
  assumes "CHR 0x22 \<notin> set v" "c \<noteq> CHR '':''"
    and "take 2 (dropWhile (\<lambda>x. x \<noteq> CHR 0x22) pat) = [CHR 0x22, CHR '':'']"
  shows "\<not> is_prefix pat (v @ CHR 0x22 # c # s)"
  using assms
proof (induction v arbitrary: pat)
  case Nil
  then show ?case
    by (cases pat; cases "tl pat") (auto split: if_splits)
next
  case (Cons a v)
  then show ?case by (cases pat) (auto split: if_splits)
qed

lemma value_skip:
  assumes "CHR 0x22 \<notin> set v"
  shows "strstr (v @ s) (CHR 0x22 # n) = strstr s (CHR 0x22 # n)"
  by (rule strstr_skip [OF assms refl])

lemma dec_no_quote [simp]: "CHR 0x22 \<notin> set (dec n)"
  using dec_digits [of n] digit_not_special by (auto simp: list_all_iff)

lemmas body_simps = key_defs value_no_match value_skip

lemma sync_body_fields:
  assumes "CHR 0x22 \<notin> set g" "CHR 0x22 \<notin> set a"
  shows "strstr (sync_body g a) key_gnb_id = Some (key_gnb_id @ g @ quote @ '','' @ key_action @ a @ quote @ ''}'')"
    "strstr (sync_body g a) key_action = Some (key_action @ a @ quote @ ''}'')"
    "strstr (sync_body g a) key_session_id = None" "strstr (sync_body g a) key_ran_addr = None"
    "strstr (sync_body g a) key_ran_port = None" "strstr (sync_body g a) key_teid = None"
  using assms by (simp_all add: sync_body_def body_simps)

lemma sync_parse_sync_body:
  assumes "CHR 0x22 \<notin> set g" "CHR 0x22 \<notin> set a"
  shows "sync_parse (sync_body g a) = Some \<lparr>f_gnb_id = Some g, f_action = Some a, f_session_id = None,
    f_ran_addr = None, f_ran_port = 0, f_teid = 0\<rparr>"
  using json_str_here [OF assms(1), of "sync_body g a" key_gnb_id]
    json_str_here [OF assms(2), of "sync_body g a" key_action] sync_body_fields [OF assms]
  by (simp add: sync_parse_def num_field_def json_num_def json_str_def [of key_session_id]
      json_str_def [of key_ran_addr] quote_def)

lemma ran_body_strings:
  assumes "CHR 0x22 \<notin> set g" "CHR 0x22 \<notin> set ss" "CHR 0x22 \<notin> set a"
  shows "json_str key_gnb_id (ran_body g ss a p t) = Some g"
    "json_str key_action (ran_body g ss a p t) = Some ''register''"
    "json_str key_session_id (ran_body g ss a p t) = Some ss"
    "json_str key_ran_addr (ran_body g ss a p t) = Some a"
proof -
  let ?b = "ran_body g ss a p t"
  let ?r4 = "quote @ '','' @ key_ran_port @ dec (unat p) @ '','' @ key_teid @ dec (unat t) @ ''}''"
  let ?r3 = "quote @ '','' @ key_ran_addr @ a @ ?r4"
  let ?r2 = "quote @ '','' @ key_session_id @ ss @ ?r3"
  let ?r1 = "quote @ '','' @ key_action @ ''register'' @ ?r2"
  have f: "strstr ?b key_gnb_id = Some (key_gnb_id @ g @ ?r1)"
    "strstr ?b key_action = Some (key_action @ ''register'' @ ?r2)"
    "strstr ?b key_session_id = Some (key_session_id @ ss @ ?r3)"
    "strstr ?b key_ran_addr = Some (key_ran_addr @ a @ ?r4)"
    using assms by (simp_all add: ran_body_def body_simps)
  show "json_str key_gnb_id ?b = Some g" "json_str key_session_id ?b = Some ss" "json_str key_ran_addr ?b = Some a"
    using f assms by (auto intro!: json_str_here simp: quote_def)
  show "json_str key_action ?b = Some ''register''"
    using f(2) by (auto intro!: json_str_here simp: quote_def)
qed

lemma ran_body_numbers:
  assumes "CHR 0x22 \<notin> set g" "CHR 0x22 \<notin> set ss" "CHR 0x22 \<notin> set a"
  shows "strstr (ran_body g ss a p t) key_ran_port
      = Some (key_ran_port @ dec (unat p) @ '','' @ key_teid @ dec (unat t) @ ''}'')"
    "strstr (ran_body g ss a p t) key_teid = Some (key_teid @ dec (unat t) @ ''}'')"
  using assms by (simp_all add: ran_body_def body_simps)

lemma json_num_here:
  assumes "strstr body key = Some (key @ rest)" "strchr (key @ rest) CHR '':'' = Some (CHR '':'' # rest)"
  shows "json_num key body = map_option Some (atoi rest)"
  using assms by (simp add: json_num_def split: option.split)

lemma ran_body_port:
  assumes "CHR 0x22 \<notin> set g" "CHR 0x22 \<notin> set ss" "CHR 0x22 \<notin> set a"
  shows "num_field key_ran_port (ran_body g ss a p t) = Some (int (unat p))"
proof -
  have "unat p < 2 ^ 16" using unsigned_less [where 'b = 16 and 'a = nat, of p] by simp
  then have "unat p < 2 ^ 31" by simp
  then have "atoi (dec (unat p) @ '','' @ key_teid @ dec (unat t) @ ''}'') = Some (int (unat p))"
    by (rule atoi_dec) (simp add: is_digit_def)
  then show ?thesis
    using json_num_here [OF ran_body_numbers(1) [OF assms]]
    by (simp add: num_field_def key_ran_port_def quote_def)
qed

lemma ran_body_teid:
  assumes "CHR 0x22 \<notin> set g" "CHR 0x22 \<notin> set ss" "CHR 0x22 \<notin> set a"
  shows "num_field key_teid (ran_body g ss a p t) = (if unat t < 2 ^ 31 then Some (int (unat t)) else None)"
proof -
  have "atoi (dec (unat t) @ ''}'') = (if unat t < 2 ^ 31 then Some (int (unat t)) else None)"
    using atoi_dec [of "unat t" "''}''"] atoi_dec_overflow [of "unat t" "''}''"] by (auto simp: is_digit_def)
  then show ?thesis
    using json_num_here [OF ran_body_numbers(2) [OF assms]]
    by (simp add: num_field_def key_teid_def quote_def)
qed

lemma sync_parse_ran_body:
  assumes "CHR 0x22 \<notin> set g" "CHR 0x22 \<notin> set ss" "CHR 0x22 \<notin> set a"
  shows "sync_parse (ran_body g ss a p t) =
    (if unat t < 2 ^ 31 then
       Some \<lparr>f_gnb_id = Some g, f_action = Some ''register'', f_session_id = Some ss, f_ran_addr = Some a,
         f_ran_port = p, f_teid = t\<rparr>
     else None)"
  using ran_body_strings [OF assms] ran_body_port [OF assms] ran_body_teid [OF assms]
  by (simp add: sync_parse_def)

end
