(* ===== verification/Dsmf.thy ===== *)
theory Dsmf
  imports Gnb_Sync Ogs_Pool Ogs_Fsm
begin

section \<open>The DSMF: sessions and their PFCP life cycle (src/dsmf)\<close>

text \<open>
  The DSMF turns each synchronisation with RAN data into a session: an object of the pool
  \<open>dsmf_sess_pool\<close> with its own state machine, registered in several hash tables, which asks
  the DF by PFCP to set up a tunnel. Pools and tables are those of \<open>Ogs_Pool\<close> and \<open>Ogs_Hash\<close>; a
  pointer to a session is its node in the pool. The tables store pointers to their keys, so a key that lies in the
  local buffer of a function that has returned is unreadable. The PFCP and SBI libraries, timers
  and name resolution are parameters; what is handed to them is recorded in order.
\<close>

datatype sess_state =
    SessInitial | SessFinal | WaitRanSync | WaitPfcpEstablishment | SessOperational
  | WaitPfcpDeletion | SessException

record dsmf_sess =
  s_id :: u32
  s_index :: nat
  s_seid_node :: nat
  s_sm :: "sess_state ogs_fsm"
  s_dsmf_seid :: u64
  s_f_seid :: u64
  s_f_addr :: u32
  s_pfcp_node :: "nat option"
  s_gnb_id :: "string option"
  s_session_id :: "string option"
  s_ran_addr :: "sockaddr option"
  s_ran_teid :: u32
  s_ran_sync_completed :: bool
  s_pfcp_established :: bool
  s_session_ref :: "string option"
  s_t_establishment :: bool
  s_t_deletion :: bool

definition zero_sess :: dsmf_sess where
  "zero_sess = \<lparr>s_id = 0, s_index = 0, s_seid_node = 0, s_sm = \<lparr>init = None, fini = None, state = None\<rparr>,
     s_dsmf_seid = 0, s_f_seid = 0, s_f_addr = 0, s_pfcp_node = None, s_gnb_id = None, s_session_id = None,
     s_ran_addr = None, s_ran_teid = 0, s_ran_sync_completed = False, s_pfcp_established = False,
     s_session_ref = None, s_t_establishment = False, s_t_deletion = False\<rparr>"

text \<open>
  Where the keys of the tables lie: fields of a session, a string that it owns, the local buffer of the call that
  created a session, or a variable of a running lookup.
\<close>

datatype dsmf_ptr = SeidOf nat | FSeidOf nat | RefOf nat | StackKey nat | Local "u8 list"

type_synonym sess_table = "(dsmf_ptr, nat) ogs_hash"

text \<open>
  The PFCP requests of dn4-build.c with the information elements they carry. An establishment request has one PDR for the uplink, which
  matches the RAN's F-TEID on the access side, and one FAR, which forwards to the core.
\<close>

record est_request =
  cp_f_seid :: u64
  pdr_src_if :: u8
  pdr_src_if_type :: u8
  pdr_outer_header_removal :: u8
  pdr_f_teid_addr :: u32
  pdr_f_teid_teid :: u32
  far_dst_if :: u8
  far_apply_action :: u16
  pdn_type :: u8

definition OGS_PFCP_INTERFACE_ACCESS :: u8 where "OGS_PFCP_INTERFACE_ACCESS = 0"
definition OGS_PFCP_INTERFACE_CORE :: u8 where "OGS_PFCP_INTERFACE_CORE = 1"
definition OGS_PFCP_3GPP_INTERFACE_TYPE_N3_3GPP_ACCESS :: u8 where "OGS_PFCP_3GPP_INTERFACE_TYPE_N3_3GPP_ACCESS = 11"
definition OGS_PFCP_OUTER_HEADER_REMOVAL_GTPU_UDP_IPV4 :: u8 where "OGS_PFCP_OUTER_HEADER_REMOVAL_GTPU_UDP_IPV4 = 0"
definition OGS_PFCP_APPLY_ACTION_FORW :: u16 where "OGS_PFCP_APPLY_ACTION_FORW = 0x200"
definition OGS_PDU_SESSION_TYPE_IPV4 :: u8 where "OGS_PDU_SESSION_TYPE_IPV4 = 1"

definition uplink_request :: "u64 \<Rightarrow> u32 \<Rightarrow> u32 \<Rightarrow> est_request" where
  "uplink_request seid addr tid =
     \<lparr>cp_f_seid = seid, pdr_src_if = OGS_PFCP_INTERFACE_ACCESS,
      pdr_src_if_type = OGS_PFCP_3GPP_INTERFACE_TYPE_N3_3GPP_ACCESS,
      pdr_outer_header_removal = OGS_PFCP_OUTER_HEADER_REMOVAL_GTPU_UDP_IPV4,
      pdr_f_teid_addr = addr, pdr_f_teid_teid = tid, far_dst_if = OGS_PFCP_INTERFACE_CORE,
      far_apply_action = OGS_PFCP_APPLY_ACTION_FORW, pdn_type = OGS_PDU_SESSION_TYPE_IPV4\<rparr>"

datatype pfcp_request =
    EstablishmentRequest est_request
  | ModificationRequest u64
  | DeletionRequest

datatype dsmf_action =
    PfcpSend nat u64 u64 pfcp_request
  | XactCommit u32
  | SbiRespond u32 nat string
  | SbiError u32 nat string
  | NrfFsm

record dsmf_world =
  w_sess_pool :: ogs_pool
  w_seid_pool :: ogs_pool
  w_mem :: "dsmf_sess list"
  w_list :: "nat list"
  w_seid_hash :: sess_table
  w_df_seid_hash :: sess_table
  w_f_seid_hash :: sess_table
  w_ref_hash :: sess_table
  w_gnb_hash :: sess_table
  w_peers :: "sockaddr option list"
  w_actions :: "dsmf_action list"

record dsmf_env =
  pfcp_addr :: "u32 option"
  getaddrinfo :: "string \<Rightarrow> u32 option"
  node_addable :: bool
  xact_creatable :: bool
  msg_buildable :: bool
  tx_updated :: bool
  pfcp_xact_found :: "u32 \<Rightarrow> bool"
  timer_available :: bool
  sbi_stream_found :: "u32 \<Rightarrow> bool"
  sbi_parse_request :: "string option \<Rightarrow> string option option"
  sbi_error_sent :: bool
  sbi_parse_response :: "string \<Rightarrow> (string option \<times> string option) option"
  nrf_known :: bool

definition act :: "dsmf_action \<Rightarrow> dsmf_world \<Rightarrow> dsmf_world" where
  "act a w = w\<lparr>w_actions := w_actions w @ [a]\<rparr>"

definition upd_sess :: "nat \<Rightarrow> (dsmf_sess \<Rightarrow> dsmf_sess) \<Rightarrow> dsmf_world \<Rightarrow> dsmf_world" where
  "upd_sess n f w = w\<lparr>w_mem := (w_mem w)[n := f (w_mem w ! n)]\<rparr>"

subsection \<open>Keys\<close>

definition c_bytes :: "string \<Rightarrow> u8 list" where
  "c_bytes s = map of_char s"

text \<open>
  \<open>df_dn4_f_seid\<close> in memory: the SEID, then \<open>ogs_ip_t\<close> with its length set to 4 and everything
  else zero, padded to 40 bytes.
\<close>

definition f_seid_bytes :: "dsmf_sess \<Rightarrow> u8 list" where
  "f_seid_bytes s = le64 (s_f_seid s) @ le32 (s_f_addr s) @ replicate 16 0 @ le32 4 @ replicate 8 0"

text \<open>\<open>frame\<close> is the local buffer of the running call, if it has one: the node it belongs to and its contents.\<close>

fun dsmf_mem :: "(nat \<times> u8 list) option \<Rightarrow> dsmf_sess list \<Rightarrow> dsmf_ptr \<Rightarrow> u8 list" where
  "dsmf_mem frame ss (SeidOf n) = le64 (s_dsmf_seid (ss ! n))"
| "dsmf_mem frame ss (FSeidOf n) = f_seid_bytes (ss ! n)"
| "dsmf_mem frame ss (RefOf n) = (case s_session_ref (ss ! n) of None \<Rightarrow> [] | Some r \<Rightarrow> c_bytes r)"
| "dsmf_mem frame ss (StackKey n) = (case frame of Some (k, bs) \<Rightarrow> if k = n then bs else [] | None \<Rightarrow> [])"
| "dsmf_mem frame ss (Local bs) = bs"

definition gnb_session_key :: "string \<Rightarrow> string \<Rightarrow> u8 list" where
  "gnb_session_key g ss = c_bytes (snprintf 256 (g @ ''-'' @ ss))"

definition session_ref :: "string \<Rightarrow> string \<Rightarrow> string" where
  "session_ref g ss = ''dsmf-'' @ g @ ''-'' @ ss"

subsection \<open>Lookups (context.c)\<close>

definition dsmf_sess_find_by_id :: "u32 \<Rightarrow> dsmf_world \<Rightarrow> nat option" where
  "dsmf_sess_find_by_id i w = ogs_pool_find (w_sess_pool w) (sint i)"

definition hash_lookup :: "sess_table \<Rightarrow> u8 list \<Rightarrow> dsmf_world \<Rightarrow> nat option option" where
  "hash_lookup ht bs w = ogs_hash_get (dsmf_mem None (w_mem w)) ht (Local bs) (int (length bs))"

definition dsmf_sess_find_by_dsmf_dn4_seid :: "u64 \<Rightarrow> dsmf_world \<Rightarrow> nat option option" where
  "dsmf_sess_find_by_dsmf_dn4_seid x w = hash_lookup (w_seid_hash w) (le64 x) w"

definition dsmf_sess_find_by_df_dn4_seid :: "u64 \<Rightarrow> dsmf_world \<Rightarrow> nat option option" where
  "dsmf_sess_find_by_df_dn4_seid x w = hash_lookup (w_df_seid_hash w) (le64 x) w"

definition dsmf_sess_find_by_session_ref :: "string \<Rightarrow> dsmf_world \<Rightarrow> nat option option" where
  "dsmf_sess_find_by_session_ref r w = hash_lookup (w_ref_hash w) (c_bytes r) w"

definition dsmf_sess_find_by_gnb_session :: "string \<Rightarrow> string \<Rightarrow> dsmf_world \<Rightarrow> nat option option" where
  "dsmf_sess_find_by_gnb_session g ss w = hash_lookup (w_gnb_hash w) (gnb_session_key g ss) w"

text \<open>
  \<open>dsmf_context_init\<close> for \<open>pool.sess\<close> sessions. \<open>seids\<close> is what \<open>malloc\<close> left in the array of the SEID
  pool, which no code fills.
\<close>

definition dsmf_context_init :: "nat \<Rightarrow> u32 list \<Rightarrow> dsmf_sess list \<Rightarrow> u32 \<Rightarrow> sockaddr option list \<Rightarrow> dsmf_world" where
  "dsmf_context_init n seids garbage sd peers =
     \<lparr>w_sess_pool = ogs_pool_init n (replicate n 0) 0 sd, w_seid_pool = ogs_pool_init n seids 0 sd,
      w_mem = garbage, w_list = [],
      w_seid_hash = ogs_hash_make sd, w_df_seid_hash = ogs_hash_make sd, w_f_seid_hash = ogs_hash_make sd,
      w_ref_hash = ogs_hash_make sd, w_gnb_hash = ogs_hash_make sd, w_peers = peers, w_actions = []\<rparr>"

subsection \<open>Removing a session (context.c)\<close>

definition hash_drop :: "sess_table \<Rightarrow> dsmf_ptr \<Rightarrow> int \<Rightarrow> dsmf_world \<Rightarrow> sess_table option" where
  "hash_drop ht p len w = ogs_hash_set (dsmf_mem None (w_mem w)) ht p len None"

definition dsmf_sess_remove :: "nat \<Rightarrow> dsmf_world \<Rightarrow> dsmf_world option" where
  "dsmf_sess_remove n w =
     do { let w = upd_sess n (\<lambda>s. s\<lparr>s_t_establishment := False, s_t_deletion := False\<rparr>) w;
          let w = w\<lparr>w_list := remove1 n (w_list w)\<rparr>;
          h \<leftarrow> hash_drop (w_seid_hash w) (SeidOf n) 8 w;
          let w = w\<lparr>w_seid_hash := h\<rparr>;
          h \<leftarrow> hash_drop (w_f_seid_hash w) (FSeidOf n) 40 w;
          let w = w\<lparr>w_f_seid_hash := h\<rparr>;
          let s = w_mem w ! n;
          w \<leftarrow> (case s_session_ref s of
                   None \<Rightarrow> Some w
                 | Some r \<Rightarrow> do { h \<leftarrow> hash_drop (w_ref_hash w) (RefOf n) (int (length r)) w;
                                   Some (w\<lparr>w_ref_hash := h\<rparr>) });
          w \<leftarrow> (case (s_gnb_id s, s_session_id s) of
                   (Some g, Some ss) \<Rightarrow>
                     (let key = gnb_session_key g ss in
                      do { h \<leftarrow> hash_drop (w_gnb_hash w) (Local key) (int (length key)) w;
                           Some (w\<lparr>w_gnb_hash := h\<rparr>) })
                 | _ \<Rightarrow> Some w);
          let w = w\<lparr>w_seid_pool := ogs_pool_free (s_seid_node s) (w_seid_pool w)\<rparr>;
          p \<leftarrow> ogs_pool_id_free n (w_sess_pool w);
          Some (w\<lparr>w_sess_pool := p\<rparr>) }"

subsection \<open>PFCP requests (dn4-build.c, dn4-handler.c)\<close>

definition OGS_PFCP_SESSION_ESTABLISHMENT_REQUEST_TYPE :: nat where "OGS_PFCP_SESSION_ESTABLISHMENT_REQUEST_TYPE = 50"
definition OGS_PFCP_SESSION_ESTABLISHMENT_RESPONSE_TYPE :: nat where "OGS_PFCP_SESSION_ESTABLISHMENT_RESPONSE_TYPE = 51"
definition OGS_PFCP_SESSION_DELETION_REQUEST_TYPE :: nat where "OGS_PFCP_SESSION_DELETION_REQUEST_TYPE = 54"
definition OGS_PFCP_SESSION_DELETION_RESPONSE_TYPE :: nat where "OGS_PFCP_SESSION_DELETION_RESPONSE_TYPE = 55"

text \<open>\<open>ogs_pfcp_build_msg\<close> encodes the message types of TS 29.244 and returns NULL for any other.\<close>

definition ogs_pfcp_build_msg :: "nat \<Rightarrow> 'm \<Rightarrow> 'm option" where
  "ogs_pfcp_build_msg t m = (if 1 \<le> t \<and> t \<le> 17 \<or> 50 \<le> t \<and> t \<le> 57 then Some m else None)"

text \<open>The F-TEID needs an address; \<open>msg_buildable\<close> stands for the other library calls of a builder.\<close>

definition dsmf_dn4_build_session_establishment_request :: "dsmf_env \<Rightarrow> dsmf_sess \<Rightarrow> pfcp_request option" where
  "dsmf_dn4_build_session_establishment_request env sess =
     (if \<not> msg_buildable env then None
      else do { a \<leftarrow> s_ran_addr sess;
                ogs_pfcp_build_msg OGS_PFCP_SESSION_ESTABLISHMENT_REQUEST_TYPE
                  (EstablishmentRequest (uplink_request (s_dsmf_seid sess) (sin_addr a) (s_ran_teid sess))) })"

text \<open>This builder leaves the type of the zeroed message unset.\<close>

definition dsmf_dn4_build_session_modification_request :: "dsmf_env \<Rightarrow> dsmf_sess \<Rightarrow> pfcp_request option" where
  "dsmf_dn4_build_session_modification_request env sess =
     (if \<not> msg_buildable env then None else ogs_pfcp_build_msg 0 (ModificationRequest (s_dsmf_seid sess)))"

definition dsmf_dn4_build_session_deletion_request :: "dsmf_env \<Rightarrow> dsmf_sess \<Rightarrow> pfcp_request option" where
  "dsmf_dn4_build_session_deletion_request env sess =
     (if \<not> msg_buildable env then None else ogs_pfcp_build_msg OGS_PFCP_SESSION_DELETION_REQUEST_TYPE DeletionRequest)"

fun first_match :: "('a \<Rightarrow> bool) \<Rightarrow> 'a list \<Rightarrow> nat option" where
  "first_match P [] = None"
| "first_match P (x # xs) = (if P x then Some 0 else map_option Suc (first_match P xs))"

definition df_address :: sockaddr where
  "df_address = \<lparr>sin_port = 8805, sin_addr = 0x7f000016\<rparr>"

definition dsmf_discover_df_node :: "dsmf_env \<Rightarrow> dsmf_world \<Rightarrow> nat option \<times> dsmf_world" where
  "dsmf_discover_df_node env w =
     (case first_match (\<lambda>p. p = Some df_address) (w_peers w) of
        Some n \<Rightarrow> (Some n, w)
      | None \<Rightarrow>
          if node_addable env then (Some (length (w_peers w)), w\<lparr>w_peers := w_peers w @ [Some df_address]\<rparr>)
          else (None, w))"

text \<open>The common end of the three senders: transaction, message, header, commit.\<close>

definition send_request :: "dsmf_env \<Rightarrow> nat \<Rightarrow> u64 \<Rightarrow> u64 \<Rightarrow> pfcp_request option \<Rightarrow> dsmf_world \<Rightarrow> dsmf_world" where
  "send_request env node local_seid hseid req w =
     (if \<not> xact_creatable env then w
      else case req of
             None \<Rightarrow> w
           | Some r \<Rightarrow> if \<not> tx_updated env then w else act (PfcpSend node local_seid hseid r) w)"

definition dsmf_dn4_handle_session_establishment :: "dsmf_env \<Rightarrow> nat \<Rightarrow> dsmf_world \<Rightarrow> dsmf_world" where
  "dsmf_dn4_handle_session_establishment env n w =
     (case dsmf_discover_df_node env w of
        (None, w) \<Rightarrow> w
      | (Some node, w) \<Rightarrow>
          let w = upd_sess n (\<lambda>s. s\<lparr>s_pfcp_node := Some node\<rparr>) w;
              sess = w_mem w ! n
          in send_request env node (s_dsmf_seid sess) 0 (dsmf_dn4_build_session_establishment_request env sess) w)"

definition dsmf_dn4_handle_session_modification :: "dsmf_env \<Rightarrow> nat \<Rightarrow> dsmf_world \<Rightarrow> dsmf_world option" where
  "dsmf_dn4_handle_session_modification env n w =
     do { let sess = w_mem w ! n;
          node \<leftarrow> s_pfcp_node sess;
          Some (send_request env node (s_dsmf_seid sess) (s_dsmf_seid sess)
                  (dsmf_dn4_build_session_modification_request env sess) w) }"

definition dsmf_dn4_handle_session_deletion :: "dsmf_env \<Rightarrow> nat \<Rightarrow> dsmf_world \<Rightarrow> dsmf_world option" where
  "dsmf_dn4_handle_session_deletion env n w =
     do { let sess = w_mem w ! n;
          node \<leftarrow> s_pfcp_node sess;
          Some (send_request env node (s_dsmf_seid sess) (s_dsmf_seid sess)
                  (dsmf_dn4_build_session_deletion_request env sess) w) }"

text \<open>Every message type is only logged; the transaction is committed.\<close>

definition dsmf_dn4_handle_message :: "dsmf_env \<Rightarrow> u32 \<Rightarrow> dsmf_world \<Rightarrow> dsmf_world" where
  "dsmf_dn4_handle_message env xact_id w =
     (if xact_id = 0 then w
      else if pfcp_xact_found env xact_id then act (XactCommit xact_id) w else w)"

subsection \<open>Events and the session state machine (event.h, dsmf-sm.c)\<close>

definition DSMF_EVT_DN4_MESSAGE :: int where "DSMF_EVT_DN4_MESSAGE = OGS_MAX_NUM_OF_PROTO_EVENT + 1"
definition DSMF_EVT_DN4_TIMER :: int where "DSMF_EVT_DN4_TIMER = OGS_MAX_NUM_OF_PROTO_EVENT + 2"
definition DSMF_EVT_SBI_MESSAGE :: int where "DSMF_EVT_SBI_MESSAGE = OGS_MAX_NUM_OF_PROTO_EVENT + 4"
definition DSMF_EVT_SBI_TIMER :: int where "DSMF_EVT_SBI_TIMER = OGS_MAX_NUM_OF_PROTO_EVENT + 5"
definition DSMF_EVT_SESSION_ESTABLISHMENT_REQUEST :: int where
  "DSMF_EVT_SESSION_ESTABLISHMENT_REQUEST = OGS_MAX_NUM_OF_PROTO_EVENT + 6"
definition DSMF_EVT_SESSION_MODIFICATION_REQUEST :: int where
  "DSMF_EVT_SESSION_MODIFICATION_REQUEST = OGS_MAX_NUM_OF_PROTO_EVENT + 7"
definition DSMF_EVT_SESSION_DELETION_REQUEST :: int where
  "DSMF_EVT_SESSION_DELETION_REQUEST = OGS_MAX_NUM_OF_PROTO_EVENT + 8"
definition DSMF_EVT_RAN_SYNC_REQUEST :: int where "DSMF_EVT_RAN_SYNC_REQUEST = OGS_MAX_NUM_OF_PROTO_EVENT + 10"

definition DSMF_TIMER_SESSION_ESTABLISHMENT :: int where "DSMF_TIMER_SESSION_ESTABLISHMENT = 13"
definition DSMF_TIMER_SESSION_DELETION :: int where "DSMF_TIMER_SESSION_DELETION = 15"

lemmas dsmf_event_defs = proto_event_defs DSMF_EVT_DN4_MESSAGE_def DSMF_EVT_DN4_TIMER_def
  DSMF_EVT_SBI_MESSAGE_def DSMF_EVT_SBI_TIMER_def DSMF_EVT_SESSION_ESTABLISHMENT_REQUEST_def
  DSMF_EVT_SESSION_MODIFICATION_REQUEST_def DSMF_EVT_SESSION_DELETION_REQUEST_def
  DSMF_EVT_RAN_SYNC_REQUEST_def OGS_FSM_ENTRY_SIG_def OGS_FSM_EXIT_SIG_def OGS_FSM_USER_SIG_def

record dsmf_event =
  e_sess_id :: u32
  e_timer_id :: int
  e_pfcp_type :: "nat option"
  e_pfcp_xact_id :: u32
  e_gnb_id :: "string option"
  e_session_id :: "string option"
  e_ran_addr_str :: "string option"
  e_ran_port :: u16
  e_teid :: u32
  e_response :: "string option"

definition zero_event :: dsmf_event where
  "zero_event = \<lparr>e_sess_id = 0, e_timer_id = 0, e_pfcp_type = None, e_pfcp_xact_id = 0, e_gnb_id = None,
     e_session_id = None, e_ran_addr_str = None, e_ran_port = 0, e_teid = 0, e_response = None\<rparr>"

type_synonym sess_result = "(sess_state ogs_fsm \<times> dsmf_world \<times> dsmf_event fsm_event option) option"

text \<open>The session that every handler looks up first, and asserts.\<close>

definition event_sess :: "dsmf_world \<Rightarrow> dsmf_event fsm_event option \<Rightarrow> (int \<times> dsmf_event \<times> nat) option" where
  "event_sess w e = do { ev \<leftarrow> e; d \<leftarrow> ev_data ev; n \<leftarrow> dsmf_sess_find_by_id (e_sess_id d) w; Some (ev_id ev, d, n) }"

definition dsmf_session_state_initial :: "sess_state ogs_fsm \<Rightarrow> dsmf_world \<Rightarrow> dsmf_event fsm_event option \<Rightarrow> sess_result" where
  "dsmf_session_state_initial s w e = do { _ \<leftarrow> event_sess w e; Some (OGS_FSM_TRAN WaitRanSync s, w, e) }"

definition dsmf_session_state_final :: "sess_state ogs_fsm \<Rightarrow> dsmf_world \<Rightarrow> dsmf_event fsm_event option \<Rightarrow> sess_result" where
  "dsmf_session_state_final s w e = do { _ \<leftarrow> event_sess w e; Some (s, w, e) }"

definition dsmf_session_state_wait_ran_sync :: "sess_state ogs_fsm \<Rightarrow> dsmf_world \<Rightarrow> dsmf_event fsm_event option \<Rightarrow> sess_result" where
  "dsmf_session_state_wait_ran_sync s w e =
     do { (i, d, n) \<leftarrow> event_sess w e;
          if i = DSMF_EVT_RAN_SYNC_REQUEST then Some (OGS_FSM_TRAN WaitPfcpEstablishment s, w, e)
          else if i = DSMF_EVT_SESSION_DELETION_REQUEST then
            do { w \<leftarrow> dsmf_sess_remove n w; Some (OGS_FSM_TRAN SessFinal s, w, e) }
          else Some (s, w, e) }"

definition dsmf_session_state_wait_pfcp_establishment ::
  "dsmf_env \<Rightarrow> sess_state ogs_fsm \<Rightarrow> dsmf_world \<Rightarrow> dsmf_event fsm_event option \<Rightarrow> sess_result" where
  "dsmf_session_state_wait_pfcp_establishment env s w e =
     do { (i, d, n) \<leftarrow> event_sess w e;
          if i = OGS_FSM_ENTRY_SIG then
            do { ogs_assert (timer_available env);
                 let w = upd_sess n (\<lambda>x. x\<lparr>s_t_establishment := True\<rparr>) w;
                 Some (s, dsmf_dn4_handle_session_establishment env n w, e) }
          else if i = OGS_FSM_EXIT_SIG then
            Some (s, upd_sess n (\<lambda>x. x\<lparr>s_t_establishment := False\<rparr>) w, e)
          else if i = DSMF_EVT_DN4_MESSAGE then
            (if e_pfcp_type d = Some OGS_PFCP_SESSION_ESTABLISHMENT_RESPONSE_TYPE then
               Some (OGS_FSM_TRAN SessOperational s, upd_sess n (\<lambda>x. x\<lparr>s_pfcp_established := True\<rparr>) w, e)
             else Some (s, w, e))
          else if i = DSMF_EVT_SBI_TIMER then
            (if e_timer_id d = DSMF_TIMER_SESSION_ESTABLISHMENT then Some (OGS_FSM_TRAN SessException s, w, e)
             else Some (s, w, e))
          else if i = DSMF_EVT_SESSION_DELETION_REQUEST then
            do { w \<leftarrow> dsmf_sess_remove n w; Some (OGS_FSM_TRAN SessFinal s, w, e) }
          else Some (s, w, e) }"

definition dsmf_session_state_operational ::
  "dsmf_env \<Rightarrow> sess_state ogs_fsm \<Rightarrow> dsmf_world \<Rightarrow> dsmf_event fsm_event option \<Rightarrow> sess_result" where
  "dsmf_session_state_operational env s w e =
     do { (i, d, n) \<leftarrow> event_sess w e;
          if i = DSMF_EVT_DN4_MESSAGE then Some (s, dsmf_dn4_handle_message env (e_pfcp_xact_id d) w, e)
          else if i = DSMF_EVT_SESSION_MODIFICATION_REQUEST then
            do { w \<leftarrow> dsmf_dn4_handle_session_modification env n w; Some (s, w, e) }
          else if i = DSMF_EVT_SESSION_DELETION_REQUEST then Some (OGS_FSM_TRAN WaitPfcpDeletion s, w, e)
          else Some (s, w, e) }"

definition dsmf_session_state_wait_pfcp_deletion ::
  "dsmf_env \<Rightarrow> sess_state ogs_fsm \<Rightarrow> dsmf_world \<Rightarrow> dsmf_event fsm_event option \<Rightarrow> sess_result" where
  "dsmf_session_state_wait_pfcp_deletion env s w e =
     do { (i, d, n) \<leftarrow> event_sess w e;
          if i = OGS_FSM_ENTRY_SIG then
            do { ogs_assert (timer_available env);
                 let w = upd_sess n (\<lambda>x. x\<lparr>s_t_deletion := True\<rparr>) w;
                 w \<leftarrow> dsmf_dn4_handle_session_deletion env n w;
                 Some (s, w, e) }
          else if i = OGS_FSM_EXIT_SIG then Some (s, upd_sess n (\<lambda>x. x\<lparr>s_t_deletion := False\<rparr>) w, e)
          else if i = DSMF_EVT_DN4_MESSAGE then
            (if e_pfcp_type d = Some OGS_PFCP_SESSION_DELETION_RESPONSE_TYPE then
               do { w \<leftarrow> dsmf_sess_remove n w; Some (OGS_FSM_TRAN SessFinal s, w, e) }
             else Some (s, w, e))
          else if i = DSMF_EVT_SBI_TIMER then
            (if e_timer_id d = DSMF_TIMER_SESSION_DELETION then
               do { w \<leftarrow> dsmf_sess_remove n w; Some (OGS_FSM_TRAN SessFinal s, w, e) }
             else Some (s, w, e))
          else Some (s, w, e) }"

definition dsmf_session_state_exception :: "sess_state ogs_fsm \<Rightarrow> dsmf_world \<Rightarrow> dsmf_event fsm_event option \<Rightarrow> sess_result" where
  "dsmf_session_state_exception s w e =
     do { (i, d, n) \<leftarrow> event_sess w e;
          if i = DSMF_EVT_SESSION_DELETION_REQUEST then
            do { w \<leftarrow> dsmf_sess_remove n w; Some (OGS_FSM_TRAN SessFinal s, w, e) }
          else Some (s, w, e) }"

fun sess_sem :: "dsmf_env \<Rightarrow> (sess_state, dsmf_world, dsmf_event) handlers" where
  "sess_sem env SessInitial = dsmf_session_state_initial"
| "sess_sem env SessFinal = dsmf_session_state_final"
| "sess_sem env WaitRanSync = dsmf_session_state_wait_ran_sync"
| "sess_sem env WaitPfcpEstablishment = dsmf_session_state_wait_pfcp_establishment env"
| "sess_sem env SessOperational = dsmf_session_state_operational env"
| "sess_sem env WaitPfcpDeletion = dsmf_session_state_wait_pfcp_deletion env"
| "sess_sem env SessException = dsmf_session_state_exception"

text \<open>\<open>ogs_fsm_dispatch\<close> on the machine inside a session; pool memory is never unmapped, so the machine of a freed session can
  still be written.\<close>

definition dispatch_sess :: "dsmf_env \<Rightarrow> nat \<Rightarrow> dsmf_event fsm_event \<Rightarrow> dsmf_world \<Rightarrow> dsmf_world option" where
  "dispatch_sess env n e w =
     do { (sm, w, _) \<leftarrow> ogs_fsm_dispatch (sess_sem env) (s_sm (w_mem w ! n)) w (Some e);
          Some (upd_sess n (\<lambda>x. x\<lparr>s_sm := sm\<rparr>) w) }"

subsection \<open>Creating sessions (context.c)\<close>

text \<open>
  \<open>cp_f_seid\<close> is given by its \<open>seid\<close> and by its field \<open>ipv4\<close>, which is a flag of one bit: of an address assigned
  to it, it keeps the lowest bit in host order, that is of the first octet.
\<close>

definition ipv4_flag :: "u32 \<Rightarrow> u32" where
  "ipv4_flag a = drop_bit 24 a AND 1"

definition store_key :: "(nat \<times> u8 list) option \<Rightarrow> sess_table \<Rightarrow> dsmf_ptr \<Rightarrow> int \<Rightarrow> nat \<Rightarrow> dsmf_world \<Rightarrow> sess_table option" where
  "store_key frame ht p len n w = ogs_hash_set (dsmf_mem frame (w_mem w)) ht p len (Some n)"

definition dsmf_sess_add :: "dsmf_env \<Rightarrow> u64 \<Rightarrow> u32 \<Rightarrow> dsmf_world \<Rightarrow> (nat \<times> dsmf_world) option" where
  "dsmf_sess_add env seid ipv4 w =
     do { (sess, p) \<leftarrow> ogs_pool_id_calloc (w_sess_pool w);
          n \<leftarrow> sess;
          let w = w\<lparr>w_sess_pool := p, w_mem := (w_mem w)[n := zero_sess\<lparr>s_id := ids p ! n\<rparr>]\<rparr>;
          let idx = ogs_pool_index n;
          ogs_assert (0 < idx \<and> idx \<le> size p);
          (node, q) \<leftarrow> ogs_pool_alloc (w_seid_pool w);
          k \<leftarrow> node;
          let w = w\<lparr>w_seid_pool := q\<rparr>;
          let w = upd_sess n (\<lambda>s. s\<lparr>s_index := idx, s_seid_node := k, s_dsmf_seid := scast (ids q ! k)\<rparr>) w;
          h \<leftarrow> store_key None (w_seid_hash w) (SeidOf n) 8 n w;
          let w = w\<lparr>w_seid_hash := h\<rparr>;
          let w = upd_sess n (\<lambda>s. s\<lparr>s_f_seid := seid, s_f_addr := ipv4\<rparr>) w;
          h \<leftarrow> store_key None (w_f_seid_hash w) (FSeidOf n) 40 n w;
          let w = w\<lparr>w_f_seid_hash := h\<rparr>;
          let w = w\<lparr>w_list := w_list w @ [n]\<rparr>;
          let e = \<lparr>ev_id = OGS_FSM_ENTRY_SIG, ev_data = Some (zero_event\<lparr>e_sess_id := s_id (w_mem w ! n)\<rparr>)\<rparr>;
          (sm, w, _) \<leftarrow> ogs_fsm_init (sess_sem env) (Some SessInitial) (Some SessFinal) w (Some e);
          Some (n, upd_sess n (\<lambda>s. s\<lparr>s_sm := sm\<rparr>) w) }"

definition dsmf_sess_add_by_ran_sync ::
  "dsmf_env \<Rightarrow> string \<Rightarrow> string \<Rightarrow> string \<Rightarrow> u16 \<Rightarrow> u32 \<Rightarrow> dsmf_world \<Rightarrow> (nat \<times> dsmf_world) option" where
  "dsmf_sess_add_by_ran_sync env g ss addr port tid w =
     do { let key = gnb_session_key g ss;
          old \<leftarrow> hash_lookup (w_gnb_hash w) key w;
          case old of
            Some n \<Rightarrow> Some (n, w)
          | None \<Rightarrow>
              do { (seid_node, q) \<leftarrow> ogs_pool_alloc (w_seid_pool w);
                   k \<leftarrow> seid_node;
                   let w = w\<lparr>w_seid_pool := q\<rparr>;
                   let own = (case pfcp_addr env of Some a \<Rightarrow> a | None \<Rightarrow> 0x7f000017);
                   (n, w) \<leftarrow> dsmf_sess_add env (scast (ids q ! k)) (ipv4_flag own) w;
                   let w = (if s_pfcp_node (w_mem w ! n) = None \<and> w_peers w \<noteq> []
                            then upd_sess n (\<lambda>s. s\<lparr>s_pfcp_node := Some 0\<rparr>) w else w);
                   let ran = map_option (\<lambda>a. \<lparr>sin_port = port, sin_addr = a\<rparr>) (getaddrinfo env addr);
                   let w = upd_sess n (\<lambda>s. s\<lparr>s_gnb_id := Some g, s_session_id := Some ss, s_ran_teid := tid,
                             s_ran_addr := ran, s_session_ref := Some (session_ref g ss)\<rparr>) w;
                   h \<leftarrow> store_key (Some (n, key)) (w_gnb_hash w) (StackKey n) (int (length key)) n w;
                   let w = w\<lparr>w_gnb_hash := h\<rparr>;
                   h \<leftarrow> store_key None (w_ref_hash w) (RefOf n) (int (length (session_ref g ss))) n w;
                   Some (n, w\<lparr>w_ref_hash := h\<rparr>) } }"

definition ran_sync_event :: "u32 \<Rightarrow> string \<Rightarrow> string \<Rightarrow> string \<Rightarrow> u16 \<Rightarrow> u32 \<Rightarrow> dsmf_event fsm_event" where
  "ran_sync_event i g ss addr port tid = \<lparr>ev_id = DSMF_EVT_RAN_SYNC_REQUEST, ev_data = Some (zero_event\<lparr>
     e_sess_id := i, e_gnb_id := Some g, e_session_id := Some ss, e_ran_addr_str := Some addr,
     e_ran_port := port, e_teid := tid\<rparr>)\<rparr>"

definition dsmf_context_add_gnb_with_ran_info ::
  "dsmf_env \<Rightarrow> string \<Rightarrow> string \<Rightarrow> string \<Rightarrow> u16 \<Rightarrow> u32 \<Rightarrow> dsmf_world \<Rightarrow> dsmf_world option" where
  "dsmf_context_add_gnb_with_ran_info env g ss addr port tid w =
     do { (n, w) \<leftarrow> dsmf_sess_add_by_ran_sync env g ss addr port tid w;
          let w = upd_sess n (\<lambda>s. s\<lparr>s_ran_sync_completed := True\<rparr>) w;
          dispatch_sess env n (ran_sync_event (s_id (w_mem w ! n)) g ss addr port tid) w }"

definition sess_request :: "int \<Rightarrow> dsmf_env \<Rightarrow> nat \<Rightarrow> dsmf_world \<Rightarrow> dsmf_world option" where
  "sess_request i env n w =
     dispatch_sess env n \<lparr>ev_id = i, ev_data = Some (zero_event\<lparr>e_sess_id := s_id (w_mem w ! n)\<rparr>)\<rparr> w"

definition dsmf_sess_establish :: "dsmf_env \<Rightarrow> nat \<Rightarrow> dsmf_world \<Rightarrow> dsmf_world option" where
  "dsmf_sess_establish = sess_request DSMF_EVT_SESSION_ESTABLISHMENT_REQUEST"

definition dsmf_sess_modify :: "dsmf_env \<Rightarrow> nat \<Rightarrow> dsmf_world \<Rightarrow> dsmf_world option" where
  "dsmf_sess_modify = sess_request DSMF_EVT_SESSION_MODIFICATION_REQUEST"

definition dsmf_sess_delete :: "dsmf_env \<Rightarrow> nat \<Rightarrow> dsmf_world \<Rightarrow> dsmf_world option" where
  "dsmf_sess_delete = sess_request DSMF_EVT_SESSION_DELETION_REQUEST"

definition dsmf_context_final :: "dsmf_world \<Rightarrow> dsmf_world option" where
  "dsmf_context_final w = foldM dsmf_sess_remove (w_list w) w"

subsection \<open>Requests from the DMF (sbi-path.c)\<close>

definition dsmf_sbi_handle_gnb_sync_request :: "dsmf_env \<Rightarrow> u32 \<Rightarrow> string option \<Rightarrow> dsmf_world
    \<Rightarrow> (status \<times> dsmf_world) option" where
  "dsmf_sbi_handle_gnb_sync_request env stream content w =
     do { f \<leftarrow> (case content of
                    None \<Rightarrow> Some \<lparr>f_gnb_id = None, f_action = None, f_session_id = None, f_ran_addr = None,
                                   f_ran_port = 0, f_teid = 0\<rparr>
                  | Some body \<Rightarrow> sync_parse body);
          case (f_gnb_id f, f_session_id f, f_ran_addr f) of
            (Some g, Some ss, Some addr) \<Rightarrow>
              if f_ran_port f = 0 \<or> f_teid f = 0 then
                do { ogs_assert (sbi_error_sent env);
                     Some (OGS_ERROR, act (SbiError stream 400 ''Missing required parameters'') w) }
              else
                do { w \<leftarrow> dsmf_context_add_gnb_with_ran_info env g ss addr (f_ran_port f) (f_teid f) w;
                     Some (OGS_OK, act (SbiRespond stream 200 ''{}'') w) }
          | _ \<Rightarrow>
              do { ogs_assert (sbi_error_sent env);
                   Some (OGS_ERROR, act (SbiError stream 400 ''Missing required parameters'') w) } }"

text \<open>\<open>sbi_parse_request\<close> gives the first resource component of a request that can be parsed.\<close>

definition dsmf_sbi_server_handler :: "dsmf_env \<Rightarrow> u32 \<Rightarrow> string option \<Rightarrow> dsmf_world
    \<Rightarrow> (status \<times> dsmf_world) option" where
  "dsmf_sbi_server_handler env stream content w =
     do { ogs_assert (sbi_stream_found env stream);
          case sbi_parse_request env content of
            None \<Rightarrow> do { ogs_assert (sbi_error_sent env);
                          Some (OGS_ERROR, act (SbiError stream 400 ''Cannot parse HTTP request'') w) }
          | Some component \<Rightarrow>
              do { c \<leftarrow> component;
                   if c = ''gnb-sync'' then
                     do { (_, w) \<leftarrow> dsmf_sbi_handle_gnb_sync_request env stream content w; Some (OGS_OK, w) }
                   else
                     do { ogs_assert (sbi_error_sent env);
                          Some (OGS_OK, act (SbiError stream 400 ''Unknown resource'') w) } } }"

subsection \<open>The state machine of the DSMF (dsmf-sm.c)\<close>

datatype dsmf_state = DsmfInitial | DsmfOperational | DsmfFinal

type_synonym dsmf_result = "(dsmf_state ogs_fsm \<times> dsmf_world \<times> dsmf_event fsm_event option) option"

definition dsmf_state_initial :: "dsmf_state ogs_fsm \<Rightarrow> dsmf_world \<Rightarrow> dsmf_event fsm_event option \<Rightarrow> dsmf_result" where
  "dsmf_state_initial s w e = Some (OGS_FSM_TRAN DsmfOperational s, w, e)"

definition dsmf_state_final :: "dsmf_state ogs_fsm \<Rightarrow> dsmf_world \<Rightarrow> dsmf_event fsm_event option \<Rightarrow> dsmf_result" where
  "dsmf_state_final s w e = Some (s, w, e)"

definition dsmf_state_operational :: "dsmf_env \<Rightarrow> dsmf_state ogs_fsm \<Rightarrow> dsmf_world \<Rightarrow> dsmf_event fsm_event option
    \<Rightarrow> dsmf_result" where
  "dsmf_state_operational env s w e =
     do { ev \<leftarrow> e;
          if ev_id ev = OGS_FSM_ENTRY_SIG \<or> ev_id ev = OGS_FSM_EXIT_SIG then Some (s, w, e)
          else if ev_id ev = DSMF_EVT_DN4_MESSAGE \<or> ev_id ev = DSMF_EVT_DN4_TIMER
               \<or> ev_id ev = DSMF_EVT_SBI_MESSAGE \<or> ev_id ev = DSMF_EVT_SBI_TIMER then
            do { d \<leftarrow> ev_data ev;
                 case dsmf_sess_find_by_id (e_sess_id d) w of
                   None \<Rightarrow> Some (s, w, e)
                 | Some n \<Rightarrow> do { w \<leftarrow> dispatch_sess env n ev w; Some (s, w, e) } }
          else if ev_id ev = DSMF_EVT_RAN_SYNC_REQUEST then
            do { d \<leftarrow> ev_data ev;
                 g \<leftarrow> e_gnb_id d; ss \<leftarrow> e_session_id d; addr \<leftarrow> e_ran_addr_str d;
                 (n, w) \<leftarrow> dsmf_sess_add_by_ran_sync env g ss addr (e_ran_port d) (e_teid d) w;
                 let w = (if s_pfcp_node (w_mem w ! n) = None \<and> w_peers w \<noteq> []
                          then upd_sess n (\<lambda>s. s\<lparr>s_pfcp_node := Some 0\<rparr>) w else w);
                 let ev = ev\<lparr>ev_data := Some (d\<lparr>e_sess_id := s_id (w_mem w ! n)\<rparr>)\<rparr>;
                 w \<leftarrow> dispatch_sess env n ev w;
                 Some (s, w, Some ev) }
          else if ev_id ev = OGS_EVENT_SBI_CLIENT then
            do { d \<leftarrow> ev_data ev;
                 response \<leftarrow> e_response d;
                 case sbi_parse_response env response of
                   None \<Rightarrow> Some (s, w, e)
                 | Some (service, component) \<Rightarrow>
                     do { sv \<leftarrow> service;
                          if sv = ''nnrf-nfm'' then
                            do { c \<leftarrow> component;
                                 if c = ''nf-instances'' then
                                   do { ogs_assert (nrf_known env); Some (s, act NrfFsm w, e) }
                                 else Some (s, w, e) }
                          else Some (s, w, e) } }
          else if ev_id ev = OGS_EVENT_SBI_TIMER then Some (s, if nrf_known env then act NrfFsm w else w, e)
          else Some (s, w, e) }"

fun dsmf_sem :: "dsmf_env \<Rightarrow> (dsmf_state, dsmf_world, dsmf_event) handlers" where
  "dsmf_sem env DsmfInitial = dsmf_state_initial"
| "dsmf_sem env DsmfOperational = dsmf_state_operational env"
| "dsmf_sem env DsmfFinal = dsmf_state_final"

subsection \<open>Where PFCP responses and timers come from (pfcp-path.c, timer.c)\<close>

text \<open>
  The end of \<open>pfcp_recv_cb\<close> for a session-level message that the transaction layer accepted: the event pushed
  to the queue. \<open>xact\<close> is the transaction, its identifier and local SEID.
\<close>

definition pfcp_session_event :: "nat \<Rightarrow> (u32 \<times> u64) option \<Rightarrow> dsmf_world \<Rightarrow> dsmf_event fsm_event option" where
  "pfcp_session_event t xact w =
     (case xact of
        None \<Rightarrow> Some \<lparr>ev_id = DSMF_EVT_DN4_MESSAGE, ev_data = Some (zero_event\<lparr>e_pfcp_type := Some t\<rparr>)\<rparr>
      | Some (i, seid) \<Rightarrow>
          do { sess \<leftarrow> (if seid \<noteq> 0 then dsmf_sess_find_by_dsmf_dn4_seid seid w else Some None);
               Some \<lparr>ev_id = DSMF_EVT_DN4_MESSAGE, ev_data = Some (zero_event\<lparr>e_pfcp_type := Some t,
                 e_pfcp_xact_id := i, e_sess_id := (case sess of None \<Rightarrow> 0 | Some n \<Rightarrow> s_id (w_mem w ! n))\<rparr>)\<rparr> })"

definition session_timer_event :: "int \<Rightarrow> nat \<Rightarrow> dsmf_world \<Rightarrow> dsmf_event fsm_event" where
  "session_timer_event t n w = \<lparr>ev_id = DSMF_EVT_SBI_TIMER,
     ev_data = Some (zero_event\<lparr>e_timer_id := t, e_sess_id := s_id (w_mem w ! n)\<rparr>)\<rparr>"

subsection \<open>A removed session is not found\<close>

lemma remove_pool:
  assumes "dsmf_sess_remove n w = Some w'"
  shows "ogs_pool_id_free n (w_sess_pool w) = Some (w_sess_pool w')"
  using assms
  by (auto simp: dsmf_sess_remove_def upd_sess_def Let_def split: bind_splits option.splits)

lemma id_free_pool:
  assumes "ogs_pool_id_free n p = Some p'"
  shows "\<exists>h. p' = ogs_pool_free n (p\<lparr>id_hash := h\<rparr>)"
  using assms by (auto simp: ogs_pool_id_free_def split: bind_splits)

lemma removed_not_found:
  assumes "pool_repr (w_sess_pool w) fs" "dsmf_sess_find_by_id i w = Some n" "dsmf_sess_remove n w = Some w'"
  shows "dsmf_sess_find_by_id i w' = None"
proof -
  obtain h where p: "w_sess_pool w' = ogs_pool_free n (w_sess_pool w\<lparr>id_hash := h\<rparr>)"
    using id_free_pool [OF remove_pool [OF assms(3)]] by blast
  have r: "pool_repr (w_sess_pool w\<lparr>id_hash := h\<rparr>) fs" using assms(1) by simp
  have n: "n \<in> live (w_sess_pool w\<lparr>id_hash := h\<rparr>)" "sint i = int (ogs_pool_index n)"
    using assms(1,2) pool_find_live by (simp_all add: dsmf_sess_find_by_id_def)
  have "\<not> (\<exists>x. ogs_pool_find (w_sess_pool w') (sint i) = Some x)"
    using pool_find_live [OF pool_free_repr(1) [OF r n(1)]] pool_free_repr(2) [OF r n(1)] n(2)
    by (auto simp: p ogs_pool_index_def)
  then show ?thesis by (simp add: dsmf_sess_find_by_id_def)
qed

text \<open>Every session handler, also for entry and exit, aborts when the session is gone.\<close>

lemma gone_aborts:
  assumes "dsmf_sess_find_by_id (e_sess_id d) w = None"
  shows "sess_sem env st sm w (Some \<lparr>ev_id = i, ev_data = Some d\<rparr>) = None"
  using assms
  by (cases st) (simp_all add: event_sess_def dsmf_session_state_initial_def dsmf_session_state_final_def
      dsmf_session_state_wait_ran_sync_def dsmf_session_state_wait_pfcp_establishment_def
      dsmf_session_state_operational_def dsmf_session_state_wait_pfcp_deletion_def
      dsmf_session_state_exception_def)

lemma change_aborts:
  assumes "dsmf_sess_find_by_id (e_sess_id d) w = None"
  shows "fsm_change (sess_sem env) st (Some st') sm w (Some \<lparr>ev_id = i, ev_data = Some d\<rparr>) = None"
  using gone_aborts [OF assms] by (simp add: fsm_change_def fsm_exit_def)

text \<open>A step that removes the session and moves to the final state aborts on its way out.\<close>

lemma remove_step_aborts:
  assumes "pool_repr (w_sess_pool w) fs" "dsmf_sess_find_by_id (e_sess_id d) w = Some n"
    and "state (s_sm (w_mem w ! k)) = Some st" "st \<noteq> SessFinal"
    and "sess_sem env st (s_sm (w_mem w ! k)) w (Some \<lparr>ev_id = i, ev_data = Some d\<rparr>)
      = do { w \<leftarrow> dsmf_sess_remove n w;
             Some (OGS_FSM_TRAN SessFinal (s_sm (w_mem w0 ! k)), w, Some \<lparr>ev_id = i, ev_data = Some d\<rparr>) }"
  shows "dispatch_sess env k \<lparr>ev_id = i, ev_data = Some d\<rparr> w = None"
proof (cases "dsmf_sess_remove n w")
  case None
  then show ?thesis using assms(3,5) by (simp add: dispatch_sess_def ogs_fsm_dispatch_def)
next
  case (Some w')
  have "dsmf_sess_find_by_id (e_sess_id d) w' = None" by (rule removed_not_found [OF assms(1,2) Some])
  then show ?thesis
    using assms(3-5) Some change_aborts
    by (auto simp: dispatch_sess_def ogs_fsm_dispatch_def OGS_FSM_TRAN_def)
qed

subsection \<open>The first session\<close>

text \<open>Storing into an empty table.\<close>

lemma lookup_fresh: "bs \<noteq> [] \<Longrightarrow> hash_lookup (ogs_hash_make sd) bs w = Some None"
  using ogs_hash_get_correct [OF hash_inv_make, of "dsmf_mem None (w_mem w)" "Local bs" "int (length bs)" bs sd]
  by (simp add: hash_lookup_def read_key_def)

lemma length_key [simp]: "gnb_session_key g ss \<noteq> []"
  by (cases g) (simp_all add: gnb_session_key_def c_bytes_def snprintf_def)

lemma length_f_seid_bytes [simp]: "length (f_seid_bytes s) = 40"
  by (simp add: f_seid_bytes_def)

lemma set_fresh:
  assumes "length (dsmf_mem frame ss p) = l" "0 < l"
  shows "\<exists>h. ogs_hash_set (dsmf_mem frame ss) (ogs_hash_make sd) p (int l) (Some n) = Some h
    \<and> hash_inv (dsmf_mem frame ss) h \<and> hash_map (dsmf_mem frame ss) h = [dsmf_mem frame ss p \<mapsto> n]
    \<and> (\<forall>e \<in> set (entries h). he_key e = p)"
proof -
  have "read_key (dsmf_mem frame ss) p (int l) = Some (dsmf_mem frame ss p)"
    using assms(1) by (simp add: read_key_def)
  then show ?thesis
    using set_new_key [OF hash_inv_make, of "dsmf_mem frame ss" p "int l" "dsmf_mem frame ss p" sd n] assms(2)
    by (auto simp: fun_eq_iff entries_make)
qed

definition new_sess :: "nat \<Rightarrow> u64 \<Rightarrow> u64 \<Rightarrow> u32 \<Rightarrow> dsmf_sess" where
  "new_sess k own x f = zero_sess\<lparr>s_id := 1, s_index := 1, s_seid_node := k, s_dsmf_seid := own, s_f_seid := x, s_f_addr := f\<rparr>"

definition sess_machine :: "sess_state \<Rightarrow> sess_state ogs_fsm" where
  "sess_machine st = \<lparr>init = Some SessInitial, fini = Some SessFinal, state = Some st\<rparr>"

lemma fsm_init_sess:
  assumes "dsmf_sess_find_by_id i w = Some n"
  shows "ogs_fsm_init (sess_sem env) (Some SessInitial) (Some SessFinal) w
      (Some \<lparr>ev_id = OGS_FSM_ENTRY_SIG, ev_data = Some (zero_event\<lparr>e_sess_id := i\<rparr>)\<rparr>)
    = Some (sess_machine WaitRanSync, w, Some \<lparr>ev_id = OGS_FSM_ENTRY_SIG, ev_data = Some (zero_event\<lparr>e_sess_id := i\<rparr>)\<rparr>)"
  using assms
  by (simp add: ogs_fsm_init_def Let_def dsmf_session_state_initial_def event_sess_def OGS_FSM_TRAN_def
      fsm_entry_def dsmf_session_state_wait_ran_sync_def dsmf_event_defs sess_machine_def)

lemma sess_add_first:
  assumes "id_inv (w_sess_pool w)" "pool_repr (w_sess_pool w) (0 # fs)" "live (w_sess_pool w) = {}"
    and "id (w_sess_pool w) = 0" "pool_repr (w_seid_pool w) (k # gs)" "w_mem w \<noteq> []"
    and "w_seid_hash w = ogs_hash_make sd" "w_f_seid_hash w = ogs_hash_make sd"
  shows "\<exists>p q h h'. dsmf_sess_add env x f w =
      Some (0, w\<lparr>w_sess_pool := p, w_seid_pool := q, w_seid_hash := h, w_f_seid_hash := h', w_list := w_list w @ [0],
        w_mem := (w_mem w)[0 := (new_sess k (scast (ids (w_seid_pool w) ! k)) x f)\<lparr>s_sm := sess_machine WaitRanSync\<rparr>]\<rparr>)
    \<and> pool_repr p fs \<and> live p = {0} \<and> pool_repr q gs \<and> size q = size (w_seid_pool w)"
proof -
  have nx: "OGS_NEXT_ID 0 1 OGS_MAX_POOL_ID = 1" by (simp add: OGS_NEXT_ID_def OGS_MAX_POOL_ID_def)
  obtain p where p: "ogs_pool_id_calloc (w_sess_pool w) = Some (Some 0, p)" "pool_repr p fs" "live p = {0}"
    "ids p = (ids (w_sess_pool w))[0 := 1]" "size p = size (w_sess_pool w)"
    using id_calloc_correct [OF assms(1,2)] assms(3,4) nx by auto
  have len: "length (ids (w_sess_pool w)) = size (w_sess_pool w)" "0 < size (w_sess_pool w)"
    using assms(1,2) by (auto simp: id_inv_def pool_repr_def)
  then have i0: "ids p ! 0 = 1" using p(4) by simp
  obtain q where q: "ogs_pool_alloc (w_seid_pool w) = Some (Some k, q)" "pool_repr q gs"
    "ids q = ids (w_seid_pool w)" "size q = size (w_seid_pool w)"
    using pool_alloc_repr [OF assms(5)] by blast
  have find: "ogs_pool_find p (sint (1 :: u32)) = Some 0"
    using pool_find_live [OF p(2), of 1 0] p(3) by (simp add: ogs_pool_index_def)
  let ?own = "scast (ids (w_seid_pool w) ! k) :: u64"
  let ?m1 = "(w_mem w)[0 := zero_sess\<lparr>s_id := 1, s_index := 1, s_seid_node := k, s_dsmf_seid := ?own\<rparr>]"
  let ?m2 = "(w_mem w)[0 := new_sess k ?own x f]"
  have l0: "0 < length (w_mem w)" using assms(6) by simp
  obtain h where h: "ogs_hash_set (dsmf_mem None ?m1) (ogs_hash_make sd) (SeidOf 0) 8 (Some (0 :: nat)) = Some h"
    using set_fresh [of None ?m1 "SeidOf 0" 8 sd "0 :: nat"] by auto
  obtain h' where h': "ogs_hash_set (dsmf_mem None ?m2) (ogs_hash_make sd) (FSeidOf 0) 40 (Some (0 :: nat)) = Some h'"
    using set_fresh [of None ?m2 "FSeidOf 0" 40 sd "0 :: nat"] by auto
  have new: "zero_sess\<lparr>s_id := 1, s_index := 1, s_seid_node := k, s_dsmf_seid := ?own, s_f_seid := x, s_f_addr := f\<rparr>
      = new_sess k ?own x f" by (simp add: new_sess_def)
  let ?w = "w\<lparr>w_sess_pool := p, w_seid_pool := q, w_seid_hash := h, w_mem := ?m2, w_f_seid_hash := h',
      w_list := w_list w @ [0]\<rparr>"
  have fi: "dsmf_sess_find_by_id 1 ?w = Some 0" using find by (simp add: dsmf_sess_find_by_id_def)
  have "s_id (?m2 ! 0) = 1" using l0 by (simp add: new_sess_def)
  then have "dsmf_sess_add env x f w = Some (0, upd_sess 0 (\<lambda>s. s\<lparr>s_sm := sess_machine WaitRanSync\<rparr>) ?w)"
    using p(1,5) q(1,3) i0 len(2) h h' l0 fsm_init_sess [OF fi, of env] assms(7,8) new
    by (simp add: dsmf_sess_add_def upd_sess_def store_key_def ogs_pool_index_def Let_def)
  then show ?thesis using p(2,3) q(2,4) l0 by (auto simp: upd_sess_def)
qed

text \<open>The DSMF after start-up, and the session that the first synchronisation creates.\<close>

definition started :: "nat \<Rightarrow> u32 list \<Rightarrow> dsmf_sess list \<Rightarrow> bool" where
  "started n seids garbage \<longleftrightarrow> 2 \<le> n \<and> n \<le> 2 ^ 30 \<and> length seids = n \<and> length garbage = n"

definition own_addr :: "dsmf_env \<Rightarrow> u32" where
  "own_addr env = (case pfcp_addr env of Some a \<Rightarrow> a | None \<Rightarrow> 0x7f000017)"

definition first_sess :: "dsmf_env \<Rightarrow> string \<Rightarrow> string \<Rightarrow> string \<Rightarrow> u16 \<Rightarrow> u32 \<Rightarrow> u32 list \<Rightarrow> sockaddr option list \<Rightarrow> dsmf_sess" where
  "first_sess env g ss addr port tid seids peers =
     (new_sess 1 (scast (seids ! 1)) (scast (seids ! 0)) (ipv4_flag (own_addr env)))\<lparr>
       s_sm := sess_machine WaitRanSync, s_pfcp_node := (if peers = [] then None else Some 0),
       s_gnb_id := Some g, s_session_id := Some ss, s_ran_teid := tid,
       s_ran_addr := map_option (\<lambda>a. \<lparr>sin_port = port, sin_addr = a\<rparr>) (getaddrinfo env addr),
       s_session_ref := Some (session_ref g ss)\<rparr>"

lemma upt_pair: "2 \<le> n \<Longrightarrow> [0..<n] = 0 # 1 # [2..<n]"
  by (simp add: upt_rec numeral_2_eq_2)

lemma ran_sync_first:
  fixes g ss addr :: string and peers :: "sockaddr option list" and sd tid :: u32 and port :: u16 and env :: dsmf_env
  assumes "started n seids garbage"
  defines "w0 \<equiv> dsmf_context_init n seids garbage sd peers" and "key \<equiv> gnb_session_key g ss"
    and "m1 \<equiv> garbage[0 := first_sess env g ss addr port tid seids peers]"
  shows "\<exists>w1 h. dsmf_sess_add_by_ran_sync env g ss addr port tid w0 = Some (0, w1) \<and> w_mem w1 = m1
    \<and> pool_repr (w_sess_pool w1) [1..<n] \<and> live (w_sess_pool w1) = {0}
    \<and> pool_repr (w_seid_pool w1) [2..<n] \<and> w_list w1 = [0] \<and> w_peers w1 = peers \<and> w_actions w1 = []
    \<and> w_gnb_hash w1 = h \<and> hash_inv (dsmf_mem (Some (0, key)) m1) h
    \<and> hash_map (dsmf_mem (Some (0, key)) m1) h = [key \<mapsto> 0] \<and> (\<forall>e \<in> set (entries h). he_key e = StackKey 0)"
proof -
  have n: "2 \<le> n" "n \<le> 2 ^ 30" "length seids = n" "length garbage = n" using assms(1) by (auto simp: started_def)
  have sp: "id_inv (w_sess_pool w0)" "pool_repr (w_sess_pool w0) (0 # [1..<n])" "live (w_sess_pool w0) = {}" "id (w_sess_pool w0) = 0"
    using id_inv_init [of "replicate n 0" n 0 sd] pool_repr_init [of n "replicate n 0" 0 sd] n
    by (auto simp: w0_def dsmf_context_init_def upt_conv_Cons OGS_MAX_POOL_ID_def ogs_pool_init_def live_def)
  have qp: "pool_repr (w_seid_pool w0) (0 # 1 # [2..<n])"
    using pool_repr_init [of n seids 0 sd] n upt_pair by (simp add: w0_def dsmf_context_init_def)
  obtain q where q: "ogs_pool_alloc (w_seid_pool w0) = Some (Some 0, q)" "pool_repr q (1 # [2..<n])" "ids q = seids"
    using pool_alloc_repr [OF qp] by (auto simp: w0_def dsmf_context_init_def ogs_pool_init_def)
  let ?w = "w0\<lparr>w_seid_pool := q\<rparr>" and ?f = "ipv4_flag (own_addr env)"
  obtain p q' h1 h2 where add: "dsmf_sess_add env (scast (seids ! 0)) ?f ?w =
      Some (0, ?w\<lparr>w_sess_pool := p, w_seid_pool := q', w_seid_hash := h1, w_f_seid_hash := h2, w_list := w_list ?w @ [0],
        w_mem := (w_mem ?w)[0 := (new_sess 1 (scast (ids q ! 1)) (scast (seids ! 0)) ?f)\<lparr>s_sm := sess_machine WaitRanSync\<rparr>]\<rparr>)"
    "pool_repr p [1..<n]" "live p = {0}" "pool_repr q' [2..<n]"
    using sess_add_first [of ?w "[1..<n]" 1 "[2..<n]" sd env "scast (seids ! 0)" ?f] sp q(2) n
    by (fastforce simp: w0_def dsmf_context_init_def)
  have l0: "0 < length garbage" using n by simp
  have g: "hash_lookup (w_gnb_hash w0) key w0 = Some None"
    using lookup_fresh by (simp add: w0_def dsmf_context_init_def key_def)
  obtain h where h: "ogs_hash_set (dsmf_mem (Some (0, key)) m1) (ogs_hash_make sd) (StackKey 0) (int (length key)) (Some (0 :: nat)) = Some h"
    "hash_inv (dsmf_mem (Some (0, key)) m1) h" "hash_map (dsmf_mem (Some (0, key)) m1) h = [key \<mapsto> 0]"
    "\<forall>e \<in> set (entries h). he_key e = StackKey 0"
    using set_fresh [of "Some (0, key)" m1 "StackKey 0" "length key" sd "0 :: nat"] by (auto simp: key_def)
  let ?r = "session_ref g ss"
  have "dsmf_mem None m1 (RefOf 0) = c_bytes ?r" using l0 by (simp add: m1_def first_sess_def)
  then obtain h3 where h3: "ogs_hash_set (dsmf_mem None m1) (ogs_hash_make sd) (RefOf 0) (int (length ?r)) (Some (0 :: nat)) = Some h3"
    using set_fresh [of None m1 "RefOf 0" "length ?r" sd "0 :: nat"] by (auto simp: c_bytes_def session_ref_def)
  define S where "S = (new_sess 1 (scast (seids ! 1)) (scast (seids ! 0)) ?f)\<lparr>s_sm := sess_machine WaitRanSync\<rparr>"
  define T where "T = (if peers = [] then S else S\<lparr>s_pfcp_node := Some 0\<rparr>)"
  have pn: "s_pfcp_node S = None" by (simp add: S_def new_sess_def zero_sess_def)
  then have "T = S\<lparr>s_pfcp_node := (if peers = [] then None else Some 0)\<rparr>" by (simp add: T_def)
  then have first: "T\<lparr>s_gnb_id := Some g, s_session_id := Some ss, s_ran_teid := tid,
      s_ran_addr := map_option (\<lambda>a. \<lparr>sin_port = port, sin_addr = a\<rparr>) (getaddrinfo env addr),
      s_session_ref := Some ?r\<rparr> = first_sess env g ss addr port tid seids peers"
    by (simp add: first_sess_def S_def)
  have w0: "w_peers w0 = peers" "w_mem w0 = garbage" "w_list w0 = []" "w_actions w0 = []"
    "w_gnb_hash w0 = ogs_hash_make sd" "w_ref_hash w0 = ogs_hash_make sd"
    by (simp_all add: w0_def dsmf_context_init_def)
  have add': "dsmf_sess_add env (scast (seids ! 0)) ?f ?w =
      Some (0, ?w\<lparr>w_sess_pool := p, w_seid_pool := q', w_seid_hash := h1, w_f_seid_hash := h2, w_list := [0],
        w_mem := garbage[0 := S]\<rparr>)"
    using add(1) q(3) by (simp add: w0 S_def)
  let ?w1 = "?w\<lparr>w_sess_pool := p, w_seid_pool := q', w_seid_hash := h1, w_f_seid_hash := h2, w_list := [0],
      w_mem := m1, w_gnb_hash := h, w_ref_hash := h3\<rparr>"
  have "dsmf_sess_add_by_ran_sync env g ss addr port tid w0 = Some (0, ?w1)"
    unfolding dsmf_sess_add_by_ran_sync_def Let_def key_def [symmetric] g own_addr_def [symmetric]
    using q(1,3) add' h(1) h3 l0 pn first
    by (cases "peers = []") (simp_all add: w0 upd_sess_def store_key_def m1_def T_def)
  then show ?thesis using add(2-4) h by (intro exI [of _ ?w1] exI [of _ h]) (simp add: w0)
qed

subsection \<open>Keys that have gone\<close>

text \<open>The table of gNB sessions after its first entry, seen from outside the call that made it.\<close>

definition stale :: "u8 list \<Rightarrow> sess_table \<Rightarrow> bool" where
  "stale key ht \<longleftrightarrow> (\<exists>m. hash_inv m ht \<and> hash_map m ht key \<noteq> None) \<and> (\<forall>e \<in> set (entries ht). he_key e = StackKey 0)"

lemma stale_lookup:
  assumes "stale key ht" "key \<noteq> []"
  shows "hash_lookup ht key w = None" "hash_drop ht (Local key) (int (length key)) w = None"
proof -
  have f: "find_entry (dsmf_mem None ss) ht (Local key) (int (length key)) v = None" for ss v
  proof -
    obtain m where m: "hash_inv m ht" "hash_map m ht key \<noteq> None" using assms(1) by (auto simp: stale_def)
    have "read_key (dsmf_mem None ss) (Local key) (int (length key)) = Some key" by (simp add: read_key_def)
    with find_gone [OF m assms(2), of "dsmf_mem None ss"] assms(1) show ?thesis by (auto simp: stale_def)
  qed
  then show "hash_lookup ht key w = None" by (simp add: hash_lookup_def ogs_hash_get_def)
  from f show "hash_drop ht (Local key) (int (length key)) w = None" by (simp add: hash_drop_def ogs_hash_set_def)
qed

lemma stale_remove:
  assumes "stale (gnb_session_key g ss) (w_gnb_hash w)" "n < length (w_mem w)"
    and "s_gnb_id (w_mem w ! n) = Some g" "s_session_id (w_mem w ! n) = Some ss"
  shows "dsmf_sess_remove n w = None"
  using assms stale_lookup(2) [OF assms(1)]
  by (auto simp: dsmf_sess_remove_def upd_sess_def Let_def bind_eq_None_conv split: option.splits)

subsection \<open>A synchronisation starts the establishment\<close>

lemma ran_sync_dispatch:
  assumes "dsmf_sess_find_by_id i w = Some n" "s_sm (w_mem w ! n) = sess_machine WaitRanSync" "timer_available env"
  shows "dispatch_sess env n (ran_sync_event i g ss addr port tid) w =
    Some (upd_sess n (\<lambda>s. s\<lparr>s_sm := sess_machine WaitPfcpEstablishment\<rparr>)
      (dsmf_dn4_handle_session_establishment env n (upd_sess n (\<lambda>s. s\<lparr>s_t_establishment := True\<rparr>) w)))"
  using assms
  by (simp add: dispatch_sess_def ogs_fsm_dispatch_def sess_machine_def ran_sync_event_def event_sess_def
      dsmf_session_state_wait_ran_sync_def OGS_FSM_TRAN_def fsm_change_def fsm_exit_def fsm_entry_def
      dsmf_session_state_wait_pfcp_establishment_def dsmf_event_defs)

text \<open>The libraries do their part.\<close>

definition env_good :: "dsmf_env \<Rightarrow> u32 \<Rightarrow> bool" where
  "env_good env stream \<longleftrightarrow> node_addable env \<and> xact_creatable env \<and> msg_buildable env \<and> tx_updated env
     \<and> timer_available env \<and> sbi_stream_found env stream \<and> (\<forall>c. sbi_parse_request env c = Some (Some ''gnb-sync''))"

lemma first_match_sound: "first_match P xs = Some n \<Longrightarrow> n < length xs \<and> P (xs ! n)"
  by (induction xs arbitrary: n) (auto split: if_splits)

lemma discover_df:
  assumes "node_addable env"
  shows "\<exists>node ps. dsmf_discover_df_node env w = (Some node, w\<lparr>w_peers := ps\<rparr>) \<and> node < length ps \<and> ps ! node = Some df_address"
proof (cases "first_match (\<lambda>p. p = Some df_address) (w_peers w)")
  case None
  then show ?thesis using assms
    by (intro exI [of _ "length (w_peers w)"] exI [of _ "w_peers w @ [Some df_address]"])
      (simp add: dsmf_discover_df_node_def)
next
  case (Some n)
  then show ?thesis using first_match_sound [OF Some]
    by (intro exI [of _ n] exI [of _ "w_peers w"]) (simp add: dsmf_discover_df_node_def)
qed

text \<open>The first synchronisation, up to the state in which the session waits for the DF.\<close>

lemma first_request:
  fixes g ss addr :: string and peers :: "sockaddr option list" and sd :: u32
  assumes "started n seids garbage" "env_good env stream" "getaddrinfo env addr = Some a"
    and "CHR 0x22 \<notin> set g" "CHR 0x22 \<notin> set ss" "CHR 0x22 \<notin> set addr"
    and "port \<noteq> 0" "tid \<noteq> 0" "unat tid < 2 ^ 31"
  defines "w0 \<equiv> dsmf_context_init n seids garbage sd peers"
    and "F \<equiv> first_sess env g ss addr port tid seids peers"
  shows "\<exists>w node. dsmf_sbi_server_handler env stream (Some (ran_body g ss addr port tid)) w0 = Some (OGS_OK, w)
    \<and> w_list w = [0] \<and> node < length (w_peers w) \<and> w_peers w ! node = Some df_address
    \<and> w_mem w = garbage[0 := F\<lparr>s_ran_sync_completed := True, s_t_establishment := True, s_pfcp_node := Some node,
         s_sm := sess_machine WaitPfcpEstablishment\<rparr>]
    \<and> w_actions w = [PfcpSend node (scast (seids ! 1)) 0 (EstablishmentRequest (uplink_request (scast (seids ! 1)) a tid)), SbiRespond stream 200 ''{}'']
    \<and> pool_repr (w_sess_pool w) [1..<n] \<and> live (w_sess_pool w) = {0} \<and> pool_repr (w_seid_pool w) [2..<n]
    \<and> dsmf_sess_find_by_id 1 w = Some 0 \<and> stale (gnb_session_key g ss) (w_gnb_hash w)"
proof -
  let ?key = "gnb_session_key g ss" and ?m = "garbage[0 := F]"
  have l0: "0 < length garbage" using assms(1) by (simp add: started_def)
  obtain w1 where w1: "dsmf_sess_add_by_ran_sync env g ss addr port tid w0 = Some (0, w1)" "w_mem w1 = ?m"
    "pool_repr (w_sess_pool w1) [1..<n]" "live (w_sess_pool w1) = {0}" "pool_repr (w_seid_pool w1) [2..<n]"
    "w_list w1 = [0]" "w_peers w1 = peers" "w_actions w1 = []"
    and st: "hash_inv (dsmf_mem (Some (0, ?key)) ?m) (w_gnb_hash w1)"
    "hash_map (dsmf_mem (Some (0, ?key)) ?m) (w_gnb_hash w1) = [?key \<mapsto> 0]" "\<forall>e \<in> set (entries (w_gnb_hash w1)). he_key e = StackKey 0"
    using ran_sync_first [OF assms(1), of env g ss addr port tid sd peers] unfolding w0_def F_def by blast
  have stale: "stale ?key (w_gnb_hash w1)"
    using st unfolding stale_def by (metis fun_upd_same option.distinct(1))
  have Fs: "s_id F = 1" "s_sm F = sess_machine WaitRanSync" "s_dsmf_seid F = scast (seids ! 1)"
    "s_ran_addr F = Some \<lparr>sin_port = port, sin_addr = a\<rparr>" "s_ran_teid F = tid"
    using assms(3) by (simp_all add: F_def first_sess_def new_sess_def)
  have find1: "ogs_pool_find (w_sess_pool w1) 1 = Some 0"
    using pool_find_live [OF w1(3), of 1 0] w1(4) by (simp add: ogs_pool_index_def)
  let ?w2 = "upd_sess 0 (\<lambda>s. s\<lparr>s_ran_sync_completed := True\<rparr>) w1"
  let ?w3 = "upd_sess 0 (\<lambda>s. s\<lparr>s_t_establishment := True\<rparr>) ?w2"
  have d: "dispatch_sess env 0 (ran_sync_event 1 g ss addr port tid) ?w2 =
      Some (upd_sess 0 (\<lambda>s. s\<lparr>s_sm := sess_machine WaitPfcpEstablishment\<rparr>)
        (dsmf_dn4_handle_session_establishment env 0 ?w3))"
    using find1 assms(2) Fs(2) l0
    by (intro ran_sync_dispatch) (simp_all add: dsmf_sess_find_by_id_def upd_sess_def w1(2) env_good_def)
  obtain node ps where node: "dsmf_discover_df_node env ?w3 = (Some node, ?w3\<lparr>w_peers := ps\<rparr>)"
    "node < length ps" "ps ! node = Some df_address"
    using discover_df [of env ?w3] assms(2) by (auto simp: env_good_def)
  let ?G = "F\<lparr>s_ran_sync_completed := True, s_t_establishment := True, s_pfcp_node := Some node\<rparr>"
  have b: "dsmf_dn4_build_session_establishment_request env ?G = Some (EstablishmentRequest (uplink_request (scast (seids ! 1)) a tid))"
    using Fs assms(2) by (simp add: dsmf_dn4_build_session_establishment_request_def ogs_pfcp_build_msg_def
        OGS_PFCP_SESSION_ESTABLISHMENT_REQUEST_TYPE_def env_good_def)
  have e: "dsmf_dn4_handle_session_establishment env 0 ?w3 =
      act (PfcpSend node (scast (seids ! 1)) 0 (EstablishmentRequest (uplink_request (scast (seids ! 1)) a tid)))
        (w1\<lparr>w_peers := ps, w_mem := garbage[0 := ?G]\<rparr>)"
    using assms(2) l0 b Fs(3) node(1)
    by (simp add: dsmf_dn4_handle_session_establishment_def Let_def upd_sess_def w1(2) send_request_def env_good_def)
  let ?w = "act (SbiRespond stream 200 ''{}'') (upd_sess 0 (\<lambda>s. s\<lparr>s_sm := sess_machine WaitPfcpEstablishment\<rparr>)
      (dsmf_dn4_handle_session_establishment env 0 ?w3))"
  have "dsmf_sbi_server_handler env stream (Some (ran_body g ss addr port tid)) w0 = Some (OGS_OK, ?w)"
    using assms(2,7-9) sync_parse_ran_body [OF assms(4-6), of port tid] w1(1) d Fs(1) l0
    by (simp add: dsmf_sbi_server_handler_def dsmf_sbi_handle_gnb_sync_request_def env_good_def
        dsmf_context_add_gnb_with_ran_info_def upd_sess_def w1(2))
  moreover have "w_mem ?w = garbage[0 := ?G\<lparr>s_sm := sess_machine WaitPfcpEstablishment\<rparr>]"
    unfolding e using l0 by (simp add: act_def upd_sess_def)
  moreover have "w_actions ?w = [PfcpSend node (scast (seids ! 1)) 0 (EstablishmentRequest (uplink_request (scast (seids ! 1)) a tid)), SbiRespond stream 200 ''{}'']"
    unfolding e using w1(8) by (simp add: act_def upd_sess_def)
  moreover have "w_list ?w = [0]" "w_peers ?w = ps" "w_sess_pool ?w = w_sess_pool w1" "w_seid_pool ?w = w_seid_pool w1"
    "w_gnb_hash ?w = w_gnb_hash w1"
    unfolding e using w1(6) by (simp_all add: act_def upd_sess_def)
  ultimately show ?thesis
    using node(2,3) w1(3-5) stale find1 by (intro exI [of _ ?w] exI [of _ node]) (simp add: dsmf_sess_find_by_id_def)
qed

text \<open>The answer of the DF and the timeout, at the session's machine.\<close>

lemma established_dispatch:
  assumes "dsmf_sess_find_by_id (e_sess_id d) w = Some n" "s_sm (w_mem w ! n) = sess_machine WaitPfcpEstablishment"
    and "n < length (w_mem w)" "e_pfcp_type d = Some OGS_PFCP_SESSION_ESTABLISHMENT_RESPONSE_TYPE"
  shows "dispatch_sess env n \<lparr>ev_id = DSMF_EVT_DN4_MESSAGE, ev_data = Some d\<rparr> w =
    Some (upd_sess n (\<lambda>s. s\<lparr>s_pfcp_established := True, s_t_establishment := False, s_sm := sess_machine SessOperational\<rparr>) w)"
  using assms
  by (simp add: dispatch_sess_def ogs_fsm_dispatch_def sess_machine_def event_sess_def OGS_FSM_TRAN_def
      fsm_change_def fsm_exit_def fsm_entry_def dsmf_session_state_wait_pfcp_establishment_def
      dsmf_session_state_operational_def dsmf_event_defs upd_sess_def dsmf_sess_find_by_id_def)

lemma timeout_dispatch:
  assumes "dsmf_sess_find_by_id (s_id (w_mem w ! n)) w = Some n" "s_sm (w_mem w ! n) = sess_machine WaitPfcpEstablishment"
    and "n < length (w_mem w)"
  shows "dispatch_sess env n (session_timer_event DSMF_TIMER_SESSION_ESTABLISHMENT n w) w =
    Some (upd_sess n (\<lambda>s. s\<lparr>s_t_establishment := False, s_sm := sess_machine SessException\<rparr>) w)"
  using assms
  by (simp add: dispatch_sess_def ogs_fsm_dispatch_def sess_machine_def event_sess_def OGS_FSM_TRAN_def
      fsm_change_def fsm_exit_def fsm_entry_def dsmf_session_state_wait_pfcp_establishment_def
      dsmf_session_state_exception_def dsmf_event_defs upd_sess_def dsmf_sess_find_by_id_def
      session_timer_event_def DSMF_TIMER_SESSION_ESTABLISHMENT_def)

lemma main_to_session:
  assumes "state sm = Some DsmfOperational" "ev_id ev \<in> {DSMF_EVT_DN4_MESSAGE, DSMF_EVT_SBI_TIMER}"
    and "ev_data ev = Some d"
  shows "ogs_fsm_dispatch (dsmf_sem env) sm w (Some ev) =
    (case dsmf_sess_find_by_id (e_sess_id d) w of
       None \<Rightarrow> Some (sm, w, Some ev)
     | Some n \<Rightarrow> do { w' \<leftarrow> dispatch_sess env n ev w; Some (sm, w', Some ev) })"
  using assms
  by (cases "dsmf_sess_find_by_id (e_sess_id d) w"; cases "dispatch_sess env (the (dsmf_sess_find_by_id (e_sess_id d) w)) ev w")
    (auto simp: ogs_fsm_dispatch_def dsmf_state_operational_def dsmf_event_defs)

subsection \<open>Properties\<close>

definition sample_dsmf_env :: dsmf_env where
  "sample_dsmf_env = \<lparr>pfcp_addr = None, getaddrinfo = (\<lambda>s. if s = ''10.0.0.1'' then Some 0x0a000001 else None),
     node_addable = True, xact_creatable = True, msg_buildable = True, tx_updated = True,
     pfcp_xact_found = (\<lambda>x. x = 1), timer_available = True, sbi_stream_found = (\<lambda>s. s = 1),
     sbi_parse_request = (\<lambda>c. Some (Some ''gnb-sync'')), sbi_error_sent = True,
     sbi_parse_response = (\<lambda>r. None), nrf_known = False\<rparr>"

lemma sample_env_good: "env_good sample_dsmf_env 1"
  by (simp add: env_good_def sample_dsmf_env_def)

text \<open>The events on which a session's machine removes the session.\<close>

definition ends_session :: "sess_state \<Rightarrow> int \<Rightarrow> dsmf_event \<Rightarrow> bool" where
  "ends_session st i d \<longleftrightarrow>
     st \<in> {WaitRanSync, WaitPfcpEstablishment, SessException} \<and> i = DSMF_EVT_SESSION_DELETION_REQUEST
   \<or> st = WaitPfcpDeletion
     \<and> (i = DSMF_EVT_DN4_MESSAGE \<and> e_pfcp_type d = Some OGS_PFCP_SESSION_DELETION_RESPONSE_TYPE
        \<or> i = DSMF_EVT_SBI_TIMER \<and> e_timer_id d = DSMF_TIMER_SESSION_DELETION)"

text \<open>C38. Ending a session kills the DSMF: on every event at which a session's machine removes its session (a deletion
  request before or instead of PFCP establishment, the DF's deletion response, the deletion
  timeout), the machine then moves to its final state, whose change calls an exit handler that looks the
  removed session up and asserts that it exists.\<close>

theorem dsmf_delete_aborts:
  assumes "pool_repr (w_sess_pool w) fs" "dsmf_sess_find_by_id (e_sess_id d) w = Some n"
    and "state (s_sm (w_mem w ! n)) = Some st" "ends_session st i d"
  shows "dispatch_sess env n \<lparr>ev_id = i, ev_data = Some d\<rparr> w = None"
proof -
  have "sess_sem env st (s_sm (w_mem w ! n)) w (Some \<lparr>ev_id = i, ev_data = Some d\<rparr>)
      = do { w' \<leftarrow> dsmf_sess_remove n w;
             Some (OGS_FSM_TRAN SessFinal (s_sm (w_mem w ! n)), w', Some \<lparr>ev_id = i, ev_data = Some d\<rparr>) }"
    using assms(2,4)
    by (auto simp: ends_session_def event_sess_def dsmf_session_state_wait_ran_sync_def
        dsmf_session_state_wait_pfcp_establishment_def dsmf_session_state_exception_def
        dsmf_session_state_wait_pfcp_deletion_def dsmf_event_defs)
  moreover have "st \<noteq> SessFinal" using assms(4) by (auto simp: ends_session_def)
  ultimately show ?thesis using remove_step_aborts [OF assms(1-3)] by blast
qed

theorem dsmf_delete_aborts_witness:
  "\<exists>w. dsmf_sess_add sample_dsmf_env 9 1 (dsmf_context_init 2 [5, 6] [zero_sess, zero_sess] 3 []) = Some (0, w)
    \<and> dispatch_sess sample_dsmf_env 0 \<lparr>ev_id = DSMF_EVT_SESSION_DELETION_REQUEST, ev_data = Some (zero_event\<lparr>e_sess_id := 1\<rparr>)\<rparr> w = None"
proof -
  let ?w0 = "dsmf_context_init 2 [5, 6] [zero_sess, zero_sess] 3 []"
  have "pool_repr (w_sess_pool ?w0) (0 # [1])" "pool_repr (w_seid_pool ?w0) (0 # [1])" "id_inv (w_sess_pool ?w0)"
    using pool_repr_init [of 2 "replicate 2 0" 0 3] pool_repr_init [of 2 "[5, 6]" 0 3] id_inv_init [of "replicate 2 0" 2 0 3]
      upt_pair [of 2]
    by (simp_all add: dsmf_context_init_def)
  moreover have "live (w_sess_pool ?w0) = {}" "id (w_sess_pool ?w0) = 0" "w_mem ?w0 = [zero_sess, zero_sess]"
    "w_seid_hash ?w0 = ogs_hash_make 3" "w_f_seid_hash ?w0 = ogs_hash_make 3"
    by (auto simp: dsmf_context_init_def live_def ogs_pool_init_def)
  ultimately obtain w p where w: "dsmf_sess_add sample_dsmf_env 9 1 ?w0 = Some (0, w)" "w_sess_pool w = p" "pool_repr p [1]" "live p = {0}"
    "state (s_sm (w_mem w ! 0)) = Some WaitRanSync"
    using sess_add_first [of ?w0 "[1]" 0 "[1]" 3 sample_dsmf_env 9 1] by (auto simp: sess_machine_def)
  then have "dsmf_sess_find_by_id 1 w = Some 0"
    using pool_find_live [OF w(3), of 1 0] by (simp add: dsmf_sess_find_by_id_def ogs_pool_index_def)
  then have "dispatch_sess sample_dsmf_env 0 \<lparr>ev_id = DSMF_EVT_SESSION_DELETION_REQUEST,
      ev_data = Some (zero_event\<lparr>e_sess_id := 1\<rparr>)\<rparr> w = None"
    using w by (intro dsmf_delete_aborts [of w "[1]" _ 0 WaitRanSync]) (simp_all add: ends_session_def)
  then show ?thesis using w(1) by blast
qed

text \<open>C19. From the DMF to the DF: the first synchronisation that a freshly started DSMF receives from the DMF creates
  one session with the gNB, session identifier, RAN address, port and TEID of the body, which waits for the
  DF's answer with its timer running; one PFCP Session Establishment Request with header SEID 0 goes to the DF at
  127.0.0.22:8805 with that address and TEID, and the DMF gets status 200.\<close>

theorem dsmf_creates_session:
  assumes "started n seids garbage" "env_good env stream" "getaddrinfo env addr = Some a"
    and "CHR 0x22 \<notin> set g" "CHR 0x22 \<notin> set ss" "CHR 0x22 \<notin> set addr"
    and "port \<noteq> 0" "tid \<noteq> 0" "unat tid < 2 ^ 31"
  shows "\<exists>w node. dsmf_sbi_server_handler env stream (Some (ran_body g ss addr port tid))
        (dsmf_context_init n seids garbage sd peers) = Some (OGS_OK, w)
    \<and> w_peers w ! node = Some df_address
    \<and> w_actions w = [PfcpSend node (scast (seids ! 1)) 0 (EstablishmentRequest (uplink_request (scast (seids ! 1)) a tid)), SbiRespond stream 200 ''{}'']
    \<and> w_list w = [0] \<and> dsmf_sess_find_by_id 1 w = Some 0
    \<and> (let s = w_mem w ! 0 in state (s_sm s) = Some WaitPfcpEstablishment \<and> s_t_establishment s
         \<and> s_gnb_id s = Some g \<and> s_session_id s = Some ss \<and> s_ran_teid s = tid
         \<and> s_ran_addr s = Some \<lparr>sin_port = port, sin_addr = a\<rparr>)"
proof -
  have l0: "0 < length garbage" using assms(1) by (simp add: started_def)
  obtain w node where w: "dsmf_sbi_server_handler env stream (Some (ran_body g ss addr port tid))
        (dsmf_context_init n seids garbage sd peers) = Some (OGS_OK, w)"
    "w_list w = [0]" "w_peers w ! node = Some df_address"
    "w_mem w = garbage[0 := (first_sess env g ss addr port tid seids peers)\<lparr>s_ran_sync_completed := True,
       s_t_establishment := True, s_pfcp_node := Some node, s_sm := sess_machine WaitPfcpEstablishment\<rparr>]"
    "w_actions w = [PfcpSend node (scast (seids ! 1)) 0 (EstablishmentRequest (uplink_request (scast (seids ! 1)) a tid)), SbiRespond stream 200 ''{}'']"
    "dsmf_sess_find_by_id 1 w = Some 0"
    using first_request [OF assms, of sd peers] by blast
  have "let s = w_mem w ! 0 in state (s_sm s) = Some WaitPfcpEstablishment \<and> s_t_establishment s
      \<and> s_gnb_id s = Some g \<and> s_session_id s = Some ss \<and> s_ran_teid s = tid
      \<and> s_ran_addr s = Some \<lparr>sin_port = port, sin_addr = a\<rparr>"
    using assms(3) l0 by (simp add: w(4) first_sess_def sess_machine_def)
  then show ?thesis using w by blast
qed

theorem dsmf_creates_session_witness:
  "\<exists>w. dsmf_sbi_server_handler sample_dsmf_env 1 (Some (ran_body ''12'' ''imsi-1_5'' ''10.0.0.1'' 2152 77))
        (dsmf_context_init 2 [5, 6] [zero_sess, zero_sess] 3 [Some df_address]) = Some (OGS_OK, w)
    \<and> w_list w = [0]"
  using dsmf_creates_session [of 2 "[5, 6]" "[zero_sess, zero_sess]" sample_dsmf_env 1 "''10.0.0.1''" "0x0a000001"
      "''12''" "''imsi-1_5''" 2152 77 3 "[Some df_address]"] sample_env_good
  by (auto simp: started_def sample_dsmf_env_def)

text \<open>The table of gNB sessions keeps a pointer to a local array of the function that creates a session. After the
  first synchronisation, repeating it, as the AMF does when the session is set up again, and shutting
  the DSMF down both compare keys through that dangling pointer: their behaviour is undefined.\<close>

theorem dsmf_dangling_key:
  assumes "started n seids garbage" "env_good env stream" "getaddrinfo env addr = Some a"
    and "CHR 0x22 \<notin> set g" "CHR 0x22 \<notin> set ss" "CHR 0x22 \<notin> set addr"
    and "port \<noteq> 0" "tid \<noteq> 0" "unat tid < 2 ^ 31"
  shows "\<exists>w. dsmf_sbi_server_handler env stream (Some (ran_body g ss addr port tid))
        (dsmf_context_init n seids garbage sd peers) = Some (OGS_OK, w)
    \<and> dsmf_sbi_server_handler env stream (Some (ran_body g ss addr port tid)) w = None
    \<and> dsmf_context_final w = None"
proof -
  have l0: "0 < length garbage" using assms(1) by (simp add: started_def)
  obtain w node where w: "dsmf_sbi_server_handler env stream (Some (ran_body g ss addr port tid))
        (dsmf_context_init n seids garbage sd peers) = Some (OGS_OK, w)"
    "w_list w = [0]"
    "w_mem w = garbage[0 := (first_sess env g ss addr port tid seids peers)\<lparr>s_ran_sync_completed := True,
       s_t_establishment := True, s_pfcp_node := Some node, s_sm := sess_machine WaitPfcpEstablishment\<rparr>]"
    "stale (gnb_session_key g ss) (w_gnb_hash w)"
    using first_request [OF assms, of sd peers] by blast
  have "dsmf_sbi_server_handler env stream (Some (ran_body g ss addr port tid)) w = None"
    using stale_lookup(1) [OF w(4)] assms(2,7-9) sync_parse_ran_body [OF assms(4-6), of port tid]
    by (simp add: dsmf_sbi_server_handler_def dsmf_sbi_handle_gnb_sync_request_def env_good_def
        dsmf_context_add_gnb_with_ran_info_def dsmf_sess_add_by_ran_sync_def)
  moreover have "dsmf_context_final w = None"
    using stale_remove [OF w(4), of 0] l0 by (simp add: dsmf_context_final_def w(2,3) first_sess_def)
  ultimately show ?thesis using w(1) by blast
qed

theorem dsmf_dangling_key_witness:
  "\<exists>w. dsmf_sbi_server_handler sample_dsmf_env 1 (Some (ran_body ''12'' ''imsi-1_5'' ''10.0.0.1'' 2152 77))
        (dsmf_context_init 2 [5, 6] [zero_sess, zero_sess] 3 []) = Some (OGS_OK, w)
    \<and> dsmf_context_final w = None"
  using dsmf_dangling_key [of 2 "[5, 6]" "[zero_sess, zero_sess]" sample_dsmf_env 1 "''10.0.0.1''" "0x0a000001"
      "''12''" "''imsi-1_5''" 2152 77 3 "[]"] sample_env_good
  by (auto simp: started_def sample_dsmf_env_def)

text \<open>C34. What becomes of a session that waits for the DF. The DF's Session Establishment Response, matched by the local SEID of
  its transaction, makes the session operational and stops its timer, provided that SEID is not zero and is
  registered; the timeout moves the session to the exception state. The SEIDs come from memory that nothing
  initialises: a session whose SEID happens to be zero ignores the response and can only time out.\<close>

theorem dsmf_establishment_outcome:
  assumes "state sm = Some DsmfOperational" "n < length (w_mem w)"
    and "s_sm (w_mem w ! n) = sess_machine WaitPfcpEstablishment"
    and "dsmf_sess_find_by_id (s_id (w_mem w ! n)) w = Some n"
    and "s_dsmf_seid (w_mem w ! n) = 0 \<or> dsmf_sess_find_by_dsmf_dn4_seid (s_dsmf_seid (w_mem w ! n)) w = Some (Some n)"
  shows "(\<exists>ev. pfcp_session_event OGS_PFCP_SESSION_ESTABLISHMENT_RESPONSE_TYPE (Some (x, s_dsmf_seid (w_mem w ! n))) w = Some ev
      \<and> ogs_fsm_dispatch (dsmf_sem env) sm w (Some ev) =
          Some (sm, if s_dsmf_seid (w_mem w ! n) = 0 then w
                    else upd_sess n (\<lambda>s. s\<lparr>s_pfcp_established := True, s_t_establishment := False,
                           s_sm := sess_machine SessOperational\<rparr>) w, Some ev))
    \<and> ogs_fsm_dispatch (dsmf_sem env) sm w (Some (session_timer_event DSMF_TIMER_SESSION_ESTABLISHMENT n w)) =
      Some (sm, upd_sess n (\<lambda>s. s\<lparr>s_t_establishment := False, s_sm := sess_machine SessException\<rparr>) w,
        Some (session_timer_event DSMF_TIMER_SESSION_ESTABLISHMENT n w))"
proof -
  have "ogs_fsm_dispatch (dsmf_sem env) sm w (Some (session_timer_event DSMF_TIMER_SESSION_ESTABLISHMENT n w)) =
      Some (sm, upd_sess n (\<lambda>s. s\<lparr>s_t_establishment := False, s_sm := sess_machine SessException\<rparr>) w,
        Some (session_timer_event DSMF_TIMER_SESSION_ESTABLISHMENT n w))"
    using main_to_session [OF assms(1), of "session_timer_event DSMF_TIMER_SESSION_ESTABLISHMENT n w"]
      timeout_dispatch [OF assms(4,3,2)] assms(4)
    by (simp add: session_timer_event_def)
  moreover have "\<exists>ev. pfcp_session_event OGS_PFCP_SESSION_ESTABLISHMENT_RESPONSE_TYPE (Some (x, s_dsmf_seid (w_mem w ! n))) w = Some ev
      \<and> ogs_fsm_dispatch (dsmf_sem env) sm w (Some ev) =
          Some (sm, if s_dsmf_seid (w_mem w ! n) = 0 then w
                    else upd_sess n (\<lambda>s. s\<lparr>s_pfcp_established := True, s_t_establishment := False,
                           s_sm := sess_machine SessOperational\<rparr>) w, Some ev)"
  proof (cases "s_dsmf_seid (w_mem w ! n) = 0")
    case True
    have "dsmf_sess_find_by_id 0 w = None" by (simp add: dsmf_sess_find_by_id_def ogs_pool_find_def)
    then show ?thesis
      using True main_to_session [OF assms(1)] by (simp add: pfcp_session_event_def zero_event_def)
  next
    case False
    then show ?thesis
      using assms(4,5) main_to_session [OF assms(1)] established_dispatch [OF _ assms(3,2)]
      by (simp add: pfcp_session_event_def zero_event_def)
  qed
  ultimately show ?thesis by blast
qed

theorem dsmf_establishment_outcome_witness:
  "\<exists>w ev. dsmf_sbi_server_handler sample_dsmf_env 1 (Some (ran_body ''12'' ''imsi-1_5'' ''10.0.0.1'' 2152 77))
        (dsmf_context_init 2 [0, 0] [zero_sess, zero_sess] 3 []) = Some (OGS_OK, w)
    \<and> pfcp_session_event OGS_PFCP_SESSION_ESTABLISHMENT_RESPONSE_TYPE (Some (4, 0)) w = Some ev
    \<and> ogs_fsm_dispatch (dsmf_sem sample_dsmf_env) \<lparr>init = None, fini = None, state = Some DsmfOperational\<rparr> w (Some ev)
      = Some (\<lparr>init = None, fini = None, state = Some DsmfOperational\<rparr>, w, Some ev)"
proof -
  let ?sm = "\<lparr>init = None, fini = None, state = Some DsmfOperational\<rparr>"
  let ?F = "first_sess sample_dsmf_env ''12'' ''imsi-1_5'' ''10.0.0.1'' 2152 77 [0, 0] []"
  obtain w node where w: "dsmf_sbi_server_handler sample_dsmf_env 1 (Some (ran_body ''12'' ''imsi-1_5'' ''10.0.0.1'' 2152 77))
        (dsmf_context_init 2 [0, 0] [zero_sess, zero_sess] 3 []) = Some (OGS_OK, w)"
    "w_mem w = [zero_sess, zero_sess][0 := ?F\<lparr>s_ran_sync_completed := True, s_t_establishment := True, s_pfcp_node := Some node,
         s_sm := sess_machine WaitPfcpEstablishment\<rparr>]"
    "dsmf_sess_find_by_id 1 w = Some 0"
    using first_request [of 2 "[0, 0]" "[zero_sess, zero_sess]" sample_dsmf_env 1 "''10.0.0.1''" "0x0a000001"
        "''12''" "''imsi-1_5''" 2152 77 3 "[]"] sample_env_good
    by (auto simp: started_def sample_dsmf_env_def)
  have m: "s_id (w_mem w ! 0) = 1" "s_dsmf_seid (w_mem w ! 0) = 0" "0 < length (w_mem w)"
    "s_sm (w_mem w ! 0) = sess_machine WaitPfcpEstablishment"
    by (simp_all add: w(2) first_sess_def new_sess_def)
  show ?thesis
    using dsmf_establishment_outcome [of ?sm 0 w 4 sample_dsmf_env] m w(1,3) by auto
qed

end
