(* ===== verification/Dsmf_Pfcp.thy ===== *)
theory Dsmf_Pfcp
  imports Pfcp_Node Dsmf
begin

section \<open>The PFCP side of the DSMF (src/dsmf/pfcp-path.c, pfcp-sm.c, dn4-handler.c)\<close>

text \<open>
  The DSMF's use of the transactions and nodes of \<open>lib/pfcp\<close>: the machine of a PFCP node, opening and closing of the interface, the reception of a datagram, and
  the three requests for sessions. The theory \<open>Dsmf\<close> has the sessions and takes what happens here as parameters; \<open>pfcp_session_event\<close> there is the event that the reception
  pushes. What the parser makes of a datagram, the answers of the resolver, the bodies the builders return, and the time are arguments.
\<close>

subsection \<open>Data\<close>

text \<open>The parsed message: the fields of its header and the elements that the node level uses, \<open>None\<close> where one is not present.\<close>

record pfcp_msg =
  pm_type :: u8
  pm_sqn :: "u8 list"
  pm_node_id :: "u8 list option"
  pm_recovery :: "u32 option"
  pm_resources :: "(u8 list \<times> nat) list"
  pm_up_features :: "u8 list option"
  pm_cp_features :: "u8 option"

record pfcp_env =
  pe_conf :: pfcp_conf
  pe_dns :: pfcp_dns
  pe_no_heartbeat_duration :: int
  pe_association_request :: "ogs_pkbuf option"
  pe_association_response :: "ogs_pkbuf option"
  pe_heartbeat_request :: "ogs_pkbuf option"
  pe_heartbeat_response :: "ogs_pkbuf option"

datatype dsmf_pfcp_state = PfcpInitial | PfcpFinal | PfcpWillAssociate | PfcpAssociated | PfcpException

text \<open>The callbacks of requests with their arguments: \<open>node_timeout\<close> with the node and \<open>session_timeout\<close> with the session.\<close>

datatype dsmf_cb = NodeTimeout nat | SessionTimeout u32

type_synonym dsmf_pfcp = "(dsmf_pfcp_state, dsmf_cb) pfcp_ctx"

record node_event =
  ne_node :: "nat option"
  ne_message :: "pfcp_msg option"
  ne_xact_id :: u32
  ne_timer_id :: int

type_synonym node_result = "(dsmf_pfcp_state ogs_fsm \<times> dsmf_pfcp \<times> node_event fsm_event option) option"

definition OGS_PFCP_VERSION_NOT_SUPPORTED_RESPONSE_TYPE :: u8 where "OGS_PFCP_VERSION_NOT_SUPPORTED_RESPONSE_TYPE = 11"
definition DSMF_TIMER_PFCP_ASSOCIATION :: int where "DSMF_TIMER_PFCP_ASSOCIATION = 9"
definition DSMF_TIMER_PFCP_NO_HEARTBEAT :: int where "DSMF_TIMER_PFCP_NO_HEARTBEAT = 10"

subsection \<open>Messages of a session in the transaction layer (dn4-handler.c)\<close>

text \<open>\<open>dsmf_dn4_handle_message\<close> and \<open>dsmf_dn4_handle_timer\<close>: all types are only logged, the transaction is committed.\<close>

definition dn4_commit :: "pfcp_env \<Rightarrow> int \<Rightarrow> u32 \<Rightarrow> dsmf_pfcp \<Rightarrow> dsmf_pfcp option" where
  "dn4_commit env now i s =
     (if i = 0 then Some s
      else do { found \<leftarrow> ogs_pfcp_xact_find_by_id i (snd (c_xact s));
                case found of
                  None \<Rightarrow> Some s
                | Some x \<Rightarrow> do { (_, s) \<leftarrow> lift_xact (ogs_pfcp_xact_commit (pe_conf env) now x) s; Some s } })"

text \<open>
  The common body of \<open>dsmf_dn4_handle_session_establishment\<close>, \<open>_modification\<close> and \<open>_deletion\<close> for a node: \<open>i\<close> is the identifier of the session, \<open>built\<close> the
  body of the request. A request that cannot be built or stored is deleted again, one that cannot be sent stays.
\<close>

definition send_session_request :: "pfcp_env \<Rightarrow> int \<Rightarrow> nat \<Rightarrow> u32 \<Rightarrow> u8 \<Rightarrow> u64 \<Rightarrow> ogs_pkbuf option \<Rightarrow> dsmf_pfcp \<Rightarrow> dsmf_pfcp option" where
  "send_session_request env now n i type seid built s =
     do { (x, mw) \<leftarrow> ogs_pfcp_xact_local_create (pe_conf env) n (Some (SessionTimeout i)) (c_xact s);
          case built of
            None \<Rightarrow> do { mw \<leftarrow> ogs_pfcp_xact_delete x mw; Some (s\<lparr>c_xact := mw\<rparr>) }
          | Some pkbuf \<Rightarrow>
              do { (rv, mw) \<leftarrow> ogs_pfcp_xact_update_tx x type seid pkbuf mw;
                   if rv \<noteq> OGS_OK then do { mw \<leftarrow> ogs_pfcp_xact_delete x mw; Some (s\<lparr>c_xact := mw\<rparr>) }
                   else do { (_, mw) \<leftarrow> ogs_pfcp_xact_commit (pe_conf env) now x mw; Some (s\<lparr>c_xact := mw\<rparr>) } } }"

subsection \<open>The machine of a node (pfcp-sm.c)\<close>

definition dsmf_pfcp_state_initial :: "dsmf_pfcp_state ogs_fsm \<Rightarrow> dsmf_pfcp \<Rightarrow> node_event fsm_event option \<Rightarrow> node_result" where
  "dsmf_pfcp_state_initial sm s e = Some (OGS_FSM_TRAN PfcpWillAssociate sm, s, e)"

definition dsmf_pfcp_state_final :: "dsmf_pfcp_state ogs_fsm \<Rightarrow> dsmf_pfcp \<Rightarrow> node_event fsm_event option \<Rightarrow> node_result" where
  "dsmf_pfcp_state_final sm s e = Some (sm, s, e)"

text \<open>A message of the transaction that the event names, when it exists.\<close>

definition on_xact :: "u32 \<Rightarrow> (nat \<Rightarrow> dsmf_pfcp \<Rightarrow> (bool \<times> dsmf_pfcp) option) \<Rightarrow> dsmf_pfcp \<Rightarrow> dsmf_pfcp option" where
  "on_xact i f s =
     do { found \<leftarrow> ogs_pfcp_xact_find_by_id i (snd (c_xact s));
          case found of None \<Rightarrow> Some s | Some x \<Rightarrow> map_option snd (f x s) }"

definition dsmf_pfcp_state_will_associate :: "pfcp_env \<Rightarrow> int \<Rightarrow> dsmf_pfcp_state ogs_fsm \<Rightarrow> dsmf_pfcp \<Rightarrow> node_event fsm_event option \<Rightarrow> node_result" where
  "dsmf_pfcp_state_will_associate env now sm s e =
     do { ev \<leftarrow> e;
          d \<leftarrow> ev_data ev;
          n \<leftarrow> ne_node d;
          if ev_id ev = OGS_FSM_ENTRY_SIG then
            do { (_, s) \<leftarrow> lift_xact (ogs_pfcp_cp_send_association_setup_request (pe_conf env) now n (Some (NodeTimeout n)) (pe_association_request env)) s;
                 Some (sm, s, e) }
          else if ev_id ev = OGS_FSM_EXIT_SIG then Some (sm, s, e)
          else if ev_id ev = DSMF_EVT_DN4_MESSAGE then
            (case ne_message d of
               None \<Rightarrow> do { s \<leftarrow> dn4_commit env now (ne_xact_id d) s; Some (sm, s, e) }
             | Some m \<Rightarrow>
                 if pm_type m = OGS_PFCP_ASSOCIATION_SETUP_REQUEST_TYPE then
                   do { s \<leftarrow> on_xact (ne_xact_id d) (\<lambda>x. ogs_pfcp_cp_handle_association_setup_request (pe_conf env) now n x (pm_resources m) (pm_up_features m)
                               (pe_association_response env)) s;
                        Some (sm, s, e) }
                 else if pm_type m = OGS_PFCP_ASSOCIATION_SETUP_RESPONSE_TYPE then Some (OGS_FSM_TRAN PfcpAssociated sm, s, e)
                 else if pm_type m = OGS_PFCP_HEARTBEAT_REQUEST_TYPE then
                   do { s \<leftarrow> on_xact (ne_xact_id d) (\<lambda>x. ogs_pfcp_handle_heartbeat_request (pe_conf env) now n x (pm_recovery m) (pe_heartbeat_response env)) s;
                        Some (sm, s, e) }
                 else if pm_type m = OGS_PFCP_HEARTBEAT_RESPONSE_TYPE then
                   do { s \<leftarrow> on_xact (ne_xact_id d) (\<lambda>x. ogs_pfcp_handle_heartbeat_response (pe_conf env) (pe_no_heartbeat_duration env) now n x (pm_recovery m)) s;
                        Some (sm, s, e) }
                 else if pm_type m = OGS_PFCP_VERSION_NOT_SUPPORTED_RESPONSE_TYPE then Some (sm, s, e)
                 else do { s \<leftarrow> dn4_commit env now (ne_xact_id d) s; Some (sm, s, e) })
          else if ev_id ev = DSMF_EVT_DN4_TIMER \<and> ne_timer_id d = DSMF_TIMER_PFCP_ASSOCIATION then
            Some (sm, upd_info n (\<lambda>i. i\<lparr>n_t_association := map_option (\<lambda>_. True) (n_t_association i)\<rparr>) s, e)
          else Some (sm, s, e) }"

definition dsmf_pfcp_state_associated :: "pfcp_env \<Rightarrow> int \<Rightarrow> dsmf_pfcp_state ogs_fsm \<Rightarrow> dsmf_pfcp \<Rightarrow> node_event fsm_event option \<Rightarrow> node_result" where
  "dsmf_pfcp_state_associated env now sm s e =
     do { ev \<leftarrow> e;
          d \<leftarrow> ev_data ev;
          n \<leftarrow> ne_node d;
          if ev_id ev = OGS_FSM_ENTRY_SIG \<or> ev_id ev = OGS_FSM_EXIT_SIG then Some (sm, s, e)
          else if ev_id ev = DSMF_EVT_DN4_MESSAGE then
            (case ne_message d of
               None \<Rightarrow> do { s \<leftarrow> dn4_commit env now (ne_xact_id d) s; Some (sm, s, e) }
             | Some m \<Rightarrow>
                 if pm_type m = OGS_PFCP_HEARTBEAT_REQUEST_TYPE then
                   do { s \<leftarrow> on_xact (ne_xact_id d) (\<lambda>x. ogs_pfcp_handle_heartbeat_request (pe_conf env) now n x (pm_recovery m) (pe_heartbeat_response env)) s;
                        Some (sm, s, e) }
                 else if pm_type m = OGS_PFCP_HEARTBEAT_RESPONSE_TYPE then
                   do { s \<leftarrow> on_xact (ne_xact_id d) (\<lambda>x. ogs_pfcp_handle_heartbeat_response (pe_conf env) (pe_no_heartbeat_duration env) now n x (pm_recovery m)) s;
                        Some (sm, s, e) }
                 else do { s \<leftarrow> dn4_commit env now (ne_xact_id d) s; Some (sm, s, e) })
          else if ev_id ev = DSMF_EVT_DN4_TIMER \<and> ne_timer_id d = DSMF_TIMER_PFCP_NO_HEARTBEAT then
              do { (_, s) \<leftarrow> lift_xact (ogs_pfcp_send_heartbeat_request (pe_conf env) now n (Some (NodeTimeout n)) (pe_heartbeat_request env)) s;
                   Some (sm, s, e) }
          else Some (sm, s, e) }"

fun dsmf_pfcp_sem :: "pfcp_env \<Rightarrow> int \<Rightarrow> (dsmf_pfcp_state, dsmf_pfcp, node_event) handlers" where
  "dsmf_pfcp_sem env now PfcpInitial = dsmf_pfcp_state_initial"
| "dsmf_pfcp_sem env now PfcpFinal = dsmf_pfcp_state_final"
| "dsmf_pfcp_sem env now PfcpWillAssociate = dsmf_pfcp_state_will_associate env now"
| "dsmf_pfcp_sem env now PfcpAssociated = dsmf_pfcp_state_associated env now"
| "dsmf_pfcp_sem env now PfcpException = (\<lambda>sm s e. Some (sm, s, e))"

subsection \<open>Opening, closing and reception (pfcp-path.c)\<close>

definition node_fsm_event :: "nat \<Rightarrow> node_event fsm_event" where
  "node_fsm_event n = \<lparr>ev_id = 0, ev_data = Some \<lparr>ne_node = Some n, ne_message = None, ne_xact_id = 0, ne_timer_id = 0\<rparr>\<rparr>"

definition pfcp_node_fsm_init :: "pfcp_env \<Rightarrow> int \<Rightarrow> bool \<Rightarrow> nat \<Rightarrow> dsmf_pfcp \<Rightarrow> dsmf_pfcp option" where
  "pfcp_node_fsm_init env now try_to_associate n s =
     do { let s = (if try_to_associate then upd_info n (\<lambda>i. i\<lparr>n_t_association := Some False\<rparr>) s else s);
          (sm, s, _) \<leftarrow> ogs_fsm_init (dsmf_pfcp_sem env now) (Some PfcpInitial) (Some PfcpFinal) s (Some (node_fsm_event n));
          Some (upd_info n (\<lambda>i. i\<lparr>n_sm := sm\<rparr>) s) }"

definition pfcp_node_fsm_fini :: "pfcp_env \<Rightarrow> int \<Rightarrow> nat \<Rightarrow> dsmf_pfcp \<Rightarrow> dsmf_pfcp option" where
  "pfcp_node_fsm_fini env now n s =
     do { (sm, s, _) \<leftarrow> ogs_fsm_fini (dsmf_pfcp_sem env now) (n_sm (c_info s n)) s (Some (node_fsm_event n));
          Some (upd_info n (\<lambda>i. i\<lparr>n_sm := sm, n_t_association := None\<rparr>) s) }"

text \<open>Once the sockets are open, \<open>OGS_SETUP_PFCP_SERVER\<close> starts the machines of the configured peers; at least one socket has to exist.\<close>

definition dsmf_pfcp_open :: "pfcp_env \<Rightarrow> int \<Rightarrow> dsmf_pfcp \<Rightarrow> dsmf_pfcp option" where
  "dsmf_pfcp_open env now s =
     do { ogs_assert (pfcp_sock (pe_conf env) \<or> pfcp_sock6 (pe_conf env));
          foldM (pfcp_node_fsm_init env now True) (c_peer_list s) s }"

definition dsmf_pfcp_close :: "pfcp_env \<Rightarrow> int \<Rightarrow> dsmf_pfcp \<Rightarrow> dsmf_pfcp option" where
  "dsmf_pfcp_close env now s = foldM (pfcp_node_fsm_fini env now) (c_peer_list s) s"

text \<open>
  The first part of \<open>pfcp_recv_cb\<close>, the same in the DSMF and the DF: the peer that sent the message, found or added, with the machine of an added one started by
  \<open>start\<close>; \<open>None\<close> when the message is dropped.
\<close>

definition find_peer :: "(nat \<Rightarrow> ('s, 'c) pfcp_ctx \<Rightarrow> ('s, 'c) pfcp_ctx option) \<Rightarrow> pfcp_dns \<Rightarrow> int \<Rightarrow> pfcp_msg \<Rightarrow> ogs_sockaddr \<Rightarrow> ('s, 'c) pfcp_ctx
    \<Rightarrow> (nat option \<times> ('s, 'c) pfcp_ctx) option" where
  "find_peer start d now msg from s =
     do { let (st, i) = ogs_pfcp_extract_node_id (pm_type msg) (pm_node_id msg);
          let id = (if st = OGS_PFCP_STATUS_SUCCESS then Some i else None);
          if st \<noteq> OGS_PFCP_STATUS_SUCCESS \<and> st \<noteq> OGS_PFCP_STATUS_NODE_ID_NONE \<and> st \<noteq> OGS_PFCP_STATUS_NODE_ID_OPTIONAL_ABSENT then Some (None, s)
          else do {
            found \<leftarrow> ogs_pfcp_node_find id (Some from) s;
            case found of
              Some n \<Rightarrow> do { (_, s) \<leftarrow> ogs_pfcp_node_merge d now n id (Some from) s; Some (Some n, s) }
            | None \<Rightarrow>
                if pm_type msg = OGS_PFCP_ASSOCIATION_SETUP_REQUEST_TYPE \<or> pm_type msg = OGS_PFCP_ASSOCIATION_SETUP_RESPONSE_TYPE then
                  do { ogs_assert (st = OGS_PFCP_STATUS_SUCCESS);
                       (x, s) \<leftarrow> ogs_pfcp_node_add d now i from s;
                       case x of
                         None \<Rightarrow> Some (None, s)
                       | Some n \<Rightarrow> do { s \<leftarrow> start n s; Some (Some n, s) } }
                else Some (None, s) } }"

text \<open>What becomes of the message: dropped, handled at once, or pushed as an event with its node and transaction.\<close>

datatype recv_outcome = RecvDropped | RecvHandled | RecvQueued u8 nat "nat option"

definition pfcp_recv_cb :: "pfcp_env \<Rightarrow> int \<Rightarrow> pfcp_msg \<Rightarrow> ogs_sockaddr \<Rightarrow> dsmf_pfcp \<Rightarrow> (recv_outcome \<times> dsmf_pfcp) option" where
  "pfcp_recv_cb env now msg from s =
     do { (peer, s) \<leftarrow> find_peer (pfcp_node_fsm_init env now False) (pe_dns env) now msg from s;
          case peer of
            None \<Rightarrow> Some (RecvDropped, s)
          | Some n \<Rightarrow>
              do { (rv, x, mw) \<leftarrow> ogs_pfcp_xact_receive (pe_conf env) now n (pm_type msg) (pm_sqn msg) (c_xact s);
                   let s = s\<lparr>c_xact := mw\<rparr>;
                   if rv \<noteq> OGS_OK then Some (RecvDropped, s)
                   else if pm_type msg = OGS_PFCP_HEARTBEAT_REQUEST_TYPE then
                     do { x \<leftarrow> x;
                          (_, s) \<leftarrow> ogs_pfcp_handle_heartbeat_request (pe_conf env) now n x (pm_recovery msg) (pe_heartbeat_response env) s;
                          Some (RecvHandled, s) }
                   else if pm_type msg = OGS_PFCP_HEARTBEAT_RESPONSE_TYPE then
                     do { x \<leftarrow> x;
                          (_, s) \<leftarrow> ogs_pfcp_handle_heartbeat_response (pe_conf env) (pe_no_heartbeat_duration env) now n x (pm_recovery msg) s;
                          Some (RecvHandled, s) }
                   else if pm_type msg = OGS_PFCP_ASSOCIATION_SETUP_RESPONSE_TYPE then
                     do { x \<leftarrow> x;
                          (_, s) \<leftarrow> ogs_pfcp_cp_handle_association_setup_response (pe_conf env) now n x (pm_resources msg) (pm_up_features msg) s;
                          Some (RecvHandled, s) }
                   else Some (RecvQueued (pm_type msg) n x, s) } }"

subsection \<open>Every history\<close>

text \<open>
  What all histories of the DSMF keep: the invariant of nodes and transactions, machines that are not started or wait for an association, no timer for heartbeats, and no
  user plane resources, of which the DSMF has none: it does not call \<open>ogs_gtp_context_init\<close>, so their pool is empty.
\<close>

definition will_associate_machine :: "dsmf_pfcp_state ogs_fsm" where
  "will_associate_machine = \<lparr>init = Some PfcpInitial, fini = Some PfcpFinal, state = Some PfcpWillAssociate\<rparr>"

definition quiet :: "dsmf_pfcp_state node_info \<Rightarrow> bool" where
  "quiet i \<longleftrightarrow> n_gtpu_resource_list i = [] \<and> n_t_no_heartbeat i = None \<and> n_sm i \<in> {\<lparr>init = None, fini = None, state = None\<rparr>, will_associate_machine}"

definition dsmf_pfcp_inv :: "nat \<Rightarrow> dsmf_pfcp \<Rightarrow> bool" where
  "dsmf_pfcp_inv nx s \<longleftrightarrow> peers_inv nx s \<and> c_gtpu_free s = 0 \<and> (\<forall>n \<in> set (c_peer_list s). quiet (c_info s n))"

inductive dsmf_pfcp_run :: "pfcp_env \<Rightarrow> nat \<Rightarrow> dsmf_pfcp \<Rightarrow> bool" for env :: pfcp_env and nx :: nat where
  init: "xact_run (pe_conf env) nx mw \<Longrightarrow> live (xpool (snd mw)) = {} \<Longrightarrow> pool_repr p fs \<Longrightarrow> live p = {} \<Longrightarrow>
    dsmf_pfcp_run env nx \<lparr>c_node_pool = p, c_peer_list = [], c_info = infos, c_gtpu_free = 0, c_cp_function_features = 0, c_xact = mw\<rparr>"
| config: "dsmf_pfcp_run env nx s \<Longrightarrow> config_peer addr no4 no6 prefer s = Some s' \<Longrightarrow> dsmf_pfcp_run env nx s'"
| start: "dsmf_pfcp_run env nx s \<Longrightarrow> n \<in> set (c_peer_list s) \<Longrightarrow> clock_ok (pe_conf env) now \<Longrightarrow> id (xpool (snd (c_xact s))) < OGS_MAX_POOL_ID \<Longrightarrow>
    pfcp_node_fsm_init env now True n s = Some s' \<Longrightarrow> dsmf_pfcp_run env nx s'"
| stop: "dsmf_pfcp_run env nx s \<Longrightarrow> n \<in> set (c_peer_list s) \<Longrightarrow> pfcp_node_fsm_fini env now n s = Some s' \<Longrightarrow> dsmf_pfcp_run env nx s'"
| receive: "dsmf_pfcp_run env nx s \<Longrightarrow> clock_ok (pe_conf env) now \<Longrightarrow> unat (id (xpool (snd (c_xact s)))) + 1 < unat OGS_MAX_POOL_ID \<Longrightarrow>
    pfcp_recv_cb env now msg from s = Some (r, s') \<Longrightarrow> dsmf_pfcp_run env nx s'"
| request: "dsmf_pfcp_run env nx s \<Longrightarrow> n \<in> set (c_peer_list s) \<Longrightarrow> clock_ok (pe_conf env) now \<Longrightarrow> id (xpool (snd (c_xact s))) < OGS_MAX_POOL_ID \<Longrightarrow>
    send_session_request env now n i type seid built s = Some s' \<Longrightarrow> dsmf_pfcp_run env nx s'"
| commit: "dsmf_pfcp_run env nx s \<Longrightarrow> clock_ok (pe_conf env) now \<Longrightarrow> dn4_commit env now i s = Some s' \<Longrightarrow> dsmf_pfcp_run env nx s'"
| expire: "dsmf_pfcp_run env nx s \<Longrightarrow> clock_ok (pe_conf env) now \<Longrightarrow> ogs_timer_mgr_expire (xact_timeout (pe_conf env) now) now (c_xact s) = Some mw \<Longrightarrow>
    dsmf_pfcp_run env nx (s\<lparr>c_xact := mw\<rparr>)"

lemma dsmf_invD:
  assumes "dsmf_pfcp_inv nx s"
  shows "peers_inv nx s" "c_gtpu_free s = 0" "n \<in> set (c_peer_list s) \<Longrightarrow> quiet (c_info s n)" "xinv (set (c_peer_list s)) nx (fst (c_xact s)) (snd (c_xact s))"
  using assms peers_invD(5) unfolding dsmf_pfcp_inv_def by blast+

lemma dsmf_inv_xact:
  assumes "dsmf_pfcp_inv nx s" "xinv (set (c_peer_list s)) nx (fst mw) (snd mw)"
  shows "dsmf_pfcp_inv nx (s\<lparr>c_xact := mw\<rparr>)"
  using assms peers_inv_xact [OF dsmf_invD(1) [OF assms(1)], of "fst mw" "snd mw"] unfolding dsmf_pfcp_inv_def by simp

lemma dsmf_inv_info:
  assumes "dsmf_pfcp_inv nx s" "n \<in> set (c_peer_list s)" "n_node_id (f (c_info s n)) = n_node_id (c_info s n)" "quiet (f (c_info s n))"
  shows "dsmf_pfcp_inv nx (upd_info n f s)"
proof -
  have "peers_inv nx (upd_info n f s)"
    using peers_inv_info [OF dsmf_invD(1) [OF assms(1)], of f n] peers_invD(4) [OF dsmf_invD(1) [OF assms(1)] assms(2)] assms(3) by simp
  moreover have "quiet (c_info (upd_info n f s) k)" if "k \<in> set (c_peer_list s)" for k using dsmf_invD(3) [OF assms(1) that] assms(4) by simp
  ultimately show ?thesis using dsmf_invD(2) [OF assms(1)] by (simp add: dsmf_pfcp_inv_def)
qed

lemma lift_xact_eq: "lift_xact f s = Some (rv, s') \<longleftrightarrow> (\<exists>mw. f (c_xact s) = Some (rv, mw) \<and> s' = s\<lparr>c_xact := mw\<rparr>)"
  by (auto simp: lift_xact_def)

text \<open>The association messages: no resource can be stored.\<close>

lemma store_resource_none:
  assumes "c_gtpu_free s = 0" "store_resource n ml s = Some s'"
  shows "s' = s"
  using assms by (auto simp: store_resource_def ogs_gtpu_resource_add_def bind_eq_Some_conv ogs_assert_def split: if_splits)

lemma store_resources_none:
  assumes "c_gtpu_free s = 0" "foldM (store_resource n) rs s = Some s'"
  shows "s' = s"
  using assms(2)
proof (induction rs)
  case (Cons r rs)
  then obtain s1 where 1: "store_resource n r s = Some s1" "foldM (store_resource n) rs s1 = Some s'" by (auto simp: bind_eq_Some_conv)
  then show ?case using store_resource_none [OF assms(1) 1(1)] Cons.IH by simp
qed simp

lemma store_association_inv:
  assumes inv: "dsmf_pfcp_inv nx s" and n: "n \<in> set (c_peer_list s)" and r: "store_association n rs f s = Some s'"
  shows "dsmf_pfcp_inv nx s'" "c_peer_list s' = c_peer_list s" "c_xact s' = c_xact s"
proof -
  let ?s = "ogs_gtpu_resource_remove_all n s"
  have q: "quiet (c_info s n)" using dsmf_invD(3) [OF inv n] .
  then have e: "?s = upd_info n (\<lambda>i. i\<lparr>n_gtpu_resource_list := []\<rparr>) s" by (simp add: ogs_gtpu_resource_remove_all_def quiet_def upd_info_def)
  then have i: "dsmf_pfcp_inv nx ?s" using dsmf_inv_info [OF inv n] q by (simp add: quiet_def)
  have s': "s' = store_features n f ?s"
    using r store_resources_none [OF dsmf_invD(2) [OF i]] by (auto simp: store_association_def bind_eq_Some_conv)
  have "quiet (c_info ?s n)" "n \<in> set (c_peer_list ?s)" using q n by (simp_all add: e quiet_def)
  then have "dsmf_pfcp_inv nx (store_features n f ?s)" using i dsmf_inv_info [OF i] by (auto simp: store_features_def quiet_def split: option.split)
  then show "dsmf_pfcp_inv nx s'" using s' by simp
  show "c_peer_list s' = c_peer_list s" "c_xact s' = c_xact s" unfolding s' by (simp_all add: store_features_def e split: option.split)
qed

text \<open>The machine of a node, started and stopped.\<close>

lemma fsm_init_eq:
  "pfcp_node_fsm_init env now b n s =
     do { let s = (if b then upd_info n (\<lambda>i. i\<lparr>n_t_association := Some False\<rparr>) s else s);
          (_, s) \<leftarrow> lift_xact (ogs_pfcp_cp_send_association_setup_request (pe_conf env) now n (Some (NodeTimeout n)) (pe_association_request env)) s;
          Some (upd_info n (\<lambda>i. i\<lparr>n_sm := will_associate_machine\<rparr>) s) }"
  by (cases b; cases "lift_xact (ogs_pfcp_cp_send_association_setup_request (pe_conf env) now n (Some (NodeTimeout n)) (pe_association_request env))
      (if b then upd_info n (\<lambda>i. i\<lparr>n_t_association := Some False\<rparr>) s else s)")
    (auto simp: pfcp_node_fsm_init_def ogs_fsm_init_def dsmf_pfcp_state_initial_def OGS_FSM_TRAN_def fsm_entry_def dsmf_pfcp_state_will_associate_def
      node_fsm_event_def will_associate_machine_def Let_def)

lemma fsm_init_inv:
  assumes inv: "dsmf_pfcp_inv nx s" and n: "n \<in> set (c_peer_list s)" and i: "id (xpool (snd (c_xact s))) < OGS_MAX_POOL_ID" and c: "clock_ok (pe_conf env) now"
    and r: "pfcp_node_fsm_init env now b n s = Some s'"
  shows "dsmf_pfcp_inv nx s'" "c_peer_list s' = c_peer_list s" "unat (id (xpool (snd (c_xact s')))) \<le> unat (id (xpool (snd (c_xact s)))) + 1"
proof -
  define s0 where "s0 = (if b then upd_info n (\<lambda>i. i\<lparr>n_t_association := Some False\<rparr>) s else s)"
  have 0: "dsmf_pfcp_inv nx s0" "c_peer_list s0 = c_peer_list s" "c_xact s0 = c_xact s"
    using inv dsmf_inv_info [OF inv n] dsmf_invD(3) [OF inv n] by (simp_all add: s0_def quiet_def)
  obtain rv mw where mw: "send_node_request OGS_PFCP_ASSOCIATION_SETUP_REQUEST_TYPE (pe_conf env) now n (Some (NodeTimeout n)) (pe_association_request env) (c_xact s0) = Some (rv, mw)"
    "s' = upd_info n (\<lambda>i. i\<lparr>n_sm := will_associate_machine\<rparr>) (s0\<lparr>c_xact := mw\<rparr>)"
    using r unfolding fsm_init_eq by (auto simp: lift_xact_def s0_def [symmetric] ogs_pfcp_cp_send_association_setup_request_def bind_eq_Some_conv)
  have n0: "n \<in> set (c_peer_list s0)" using n 0(2) by simp
  have "xinv (set (c_peer_list s0)) nx (fst mw) (snd mw)"
    "unat (id (xpool (snd mw))) \<le> unat (id (xpool (snd (c_xact s)))) + 1"
    using send_request_inv [OF dsmf_invD(4) [OF 0(1)] _ c n0 mw(1)] i 0(3) by simp_all
  note 1 = dsmf_inv_xact [OF 0(1) this(1)]
  have "quiet (c_info (s0\<lparr>c_xact := mw\<rparr>) n)" using dsmf_invD(3) [OF 0(1) n0] by simp
  then show "dsmf_pfcp_inv nx s'" unfolding mw(2) using n0 by (intro dsmf_inv_info [OF 1]) (simp_all add: quiet_def)
  show "c_peer_list s' = c_peer_list s" using 0(2) by (simp add: mw(2))
  show "unat (id (xpool (snd (c_xact s')))) \<le> unat (id (xpool (snd (c_xact s)))) + 1"
    using \<open>unat (id (xpool (snd mw))) \<le> unat (id (xpool (snd (c_xact s)))) + 1\<close> by (simp add: mw(2))
qed

lemma fsm_fini_inv:
  assumes inv: "dsmf_pfcp_inv nx s" and n: "n \<in> set (c_peer_list s)"
  shows "pfcp_node_fsm_fini env now n s = Some (upd_info n (\<lambda>i. i\<lparr>n_sm := \<lparr>init = None, fini = None, state = None\<rparr>, n_t_association := None\<rparr>) s)"
    "dsmf_pfcp_inv nx (upd_info n (\<lambda>i. i\<lparr>n_sm := \<lparr>init = None, fini = None, state = None\<rparr>, n_t_association := None\<rparr>) s)"
proof -
  have q: "quiet (c_info s n)" using dsmf_invD(3) [OF inv n] .
  then consider "n_sm (c_info s n) = \<lparr>init = None, fini = None, state = None\<rparr>" | "n_sm (c_info s n) = will_associate_machine" by (auto simp: quiet_def)
  then show "pfcp_node_fsm_fini env now n s = Some (upd_info n (\<lambda>i. i\<lparr>n_sm := \<lparr>init = None, fini = None, state = None\<rparr>, n_t_association := None\<rparr>) s)"
    by cases (simp_all add: pfcp_node_fsm_fini_def ogs_fsm_fini_def will_associate_machine_def fsm_exit_def dsmf_pfcp_state_will_associate_def
        dsmf_pfcp_state_final_def node_fsm_event_def OGS_FSM_ENTRY_SIG_def OGS_FSM_EXIT_SIG_def)
  show "dsmf_pfcp_inv nx (upd_info n (\<lambda>i. i\<lparr>n_sm := \<lparr>init = None, fini = None, state = None\<rparr>, n_t_association := None\<rparr>) s)"
    using q by (intro dsmf_inv_info [OF inv n]) (simp_all add: quiet_def)
qed

text \<open>The peer of a message.\<close>

lemma extract_success:
  assumes "ogs_pfcp_extract_node_id t tlv = (OGS_PFCP_STATUS_SUCCESS, i)"
  shows "id_wf i" "ni_known i"
  using assms by (auto simp: ogs_pfcp_extract_node_id_def Let_def split: option.splits node_id_requirement.splits if_splits)

lemma dsmf_inv_add:
  assumes inv: "dsmf_pfcp_inv nx s" and d: "dns_ok d" and i: "id_wf i" "ni_known i" and r: "ogs_pfcp_node_add d now i a s = Some (x, s')"
  shows "dsmf_pfcp_inv nx s'" "x = Some n \<Longrightarrow> n \<in> set (c_peer_list s')" "xpool (snd (c_xact s')) = xpool (snd (c_xact s))"
proof -
  have a: "peers_inv nx s'" "c_gtpu_free s' = 0" "xpool (snd (c_xact s')) = xpool (snd (c_xact s))" "\<forall>k \<in> set (c_peer_list s). c_info s' k = c_info s k"
    "case x of None \<Rightarrow> c_peer_list s' = c_peer_list s | Some n \<Rightarrow> c_peer_list s' = c_peer_list s @ [n] \<and> quiet (c_info s' n)"
    using node_add_ok [OF dsmf_invD(1) [OF inv] i d, of now a] r dsmf_invD(2) [OF inv] by (auto simp: quiet_def split: option.splits)
  have "quiet (c_info s' k)" if "k \<in> set (c_peer_list s')" for k
    using that a(4,5) dsmf_invD(3) [OF inv] by (auto split: option.splits)
  then show "dsmf_pfcp_inv nx s'" using a(1,2) by (simp add: dsmf_pfcp_inv_def)
  show "x = Some n \<Longrightarrow> n \<in> set (c_peer_list s')" "xpool (snd (c_xact s')) = xpool (snd (c_xact s))" using a(3,5) by simp_all
qed

lemma dsmf_inv_merge:
  assumes inv: "dsmf_pfcp_inv nx s" and n: "n \<in> set (c_peer_list s)" and i: "\<forall>j. i = Some j \<longrightarrow> id_wf j \<and> ni_known j" "dns_ok d"
    and r: "ogs_pfcp_node_merge d now n i (Some a) s = Some (rv, s')"
  shows "dsmf_pfcp_inv nx s'" "c_peer_list s' = c_peer_list s" "xpool (snd (c_xact s')) = xpool (snd (c_xact s))"
proof -
  obtain x p where m: "s' = set_node n x p s" "peers_inv nx s'" "n_sm x = n_sm (c_info s n)" "n_t_no_heartbeat x = n_t_no_heartbeat (c_info s n)"
    "n_gtpu_resource_list x = n_gtpu_resource_list (c_info s n)"
    using merge_peer_ok [OF dsmf_invD(1) [OF inv] n i, of now a] r by auto
  have "quiet (c_info s' k)" if "k \<in> set (c_peer_list s)" for k
    using dsmf_invD(3) [OF inv that] m(3-5) by (cases "k = n") (simp_all add: m(1) quiet_def)
  then show "dsmf_pfcp_inv nx s'" using m(2) dsmf_invD(2) [OF inv] by (simp add: dsmf_pfcp_inv_def m(1))
  show "c_peer_list s' = c_peer_list s" "xpool (snd (c_xact s')) = xpool (snd (c_xact s))" by (simp_all add: m(1))
qed

lemma find_peer_inv:
  assumes inv: "dsmf_pfcp_inv nx s" and d: "dns_ok (pe_dns env)" and c: "clock_ok (pe_conf env) now" and i: "id (xpool (snd (c_xact s))) < OGS_MAX_POOL_ID"
    and r: "find_peer (pfcp_node_fsm_init env now False) (pe_dns env) now msg src s = Some (p, s')"
  shows "dsmf_pfcp_inv nx s'" "p = Some n \<Longrightarrow> n \<in> set (c_peer_list s')" "unat (id (xpool (snd (c_xact s')))) \<le> unat (id (xpool (snd (c_xact s)))) + 1"
proof -
  obtain st j where x: "ogs_pfcp_extract_node_id (pm_type msg) (pm_node_id msg) = (st, j)" by (cases "ogs_pfcp_extract_node_id (pm_type msg) (pm_node_id msg)")
  define wid where "wid = (if st = OGS_PFCP_STATUS_SUCCESS then Some j else None)"
  have wid: "\<forall>j. wid = Some j \<longrightarrow> id_wf j \<and> ni_known j" using extract_success x by (auto simp: wid_def)
  have "dsmf_pfcp_inv nx s' \<and> (p = Some n \<longrightarrow> n \<in> set (c_peer_list s')) \<and> unat (id (xpool (snd (c_xact s')))) \<le> unat (id (xpool (snd (c_xact s)))) + 1"
  proof (cases "st \<noteq> OGS_PFCP_STATUS_SUCCESS \<and> st \<noteq> OGS_PFCP_STATUS_NODE_ID_NONE \<and> st \<noteq> OGS_PFCP_STATUS_NODE_ID_OPTIONAL_ABSENT")
    case True then show ?thesis using r inv by (simp add: find_peer_def x)
  next
    case known: False
    obtain q where q: "ogs_pfcp_node_find wid (Some src) s = Some q" "\<forall>m. q = Some m \<longrightarrow> m \<in> set (c_peer_list s)"
      using node_find_ok [of wid src s "c_peer_list s"] wid by (auto simp: ogs_pfcp_node_find_def)
    have r': "(case q of
        Some n \<Rightarrow> do { (_, s) \<leftarrow> ogs_pfcp_node_merge (pe_dns env) now n wid (Some src) s; Some (Some n, s) }
      | None \<Rightarrow>
          if pm_type msg = OGS_PFCP_ASSOCIATION_SETUP_REQUEST_TYPE \<or> pm_type msg = OGS_PFCP_ASSOCIATION_SETUP_RESPONSE_TYPE then
            do { ogs_assert (st = OGS_PFCP_STATUS_SUCCESS);
                 (y, s) \<leftarrow> ogs_pfcp_node_add (pe_dns env) now j src s;
                 case y of None \<Rightarrow> Some (None, s) | Some n \<Rightarrow> do { s \<leftarrow> pfcp_node_fsm_init env now False n s; Some (Some n, s) } }
          else Some (None, s)) = Some (p, s')"
      using r known q(1) unfolding find_peer_def x wid_def [symmetric] by (simp add: wid_def [symmetric])
    show ?thesis
    proof (cases q)
      case (Some m)
      then have m: "m \<in> set (c_peer_list s)" using q(2) by simp
      obtain rv where "ogs_pfcp_node_merge (pe_dns env) now m wid (Some src) s = Some (rv, s')" "p = Some m"
        using r' Some by (auto simp: bind_eq_Some_conv)
      then show ?thesis using dsmf_inv_merge [OF inv m wid d] m by auto
    next
      case None
      show ?thesis
      proof (cases "p = None \<and> s' = s")
        case True then show ?thesis using inv by simp
      next
        case False
        then obtain y s1 where a: "st = OGS_PFCP_STATUS_SUCCESS" "ogs_pfcp_node_add (pe_dns env) now j src s = Some (y, s1)"
          "(case y of None \<Rightarrow> Some (None, s1) | Some n \<Rightarrow> do { s \<leftarrow> pfcp_node_fsm_init env now False n s1; Some (Some n, s) }) = Some (p, s')"
          using r' None by (auto simp: bind_eq_Some_conv ogs_assert_def split: if_splits)
        have j: "id_wf j" "ni_known j" using wid a(1) by (simp_all add: wid_def)
        note ad = dsmf_inv_add [OF inv d j a(2)]
        show ?thesis
        proof (cases y)
          case None then show ?thesis using a(3) ad by simp
        next
          case (Some k)
          then have k: "k \<in> set (c_peer_list s1)" "pfcp_node_fsm_init env now False k s1 = Some s'" "p = Some k" using a(3) ad(2) by (auto simp: bind_eq_Some_conv)
          show ?thesis using fsm_init_inv [OF ad(1) k(1) _ c k(2)] i ad(3) k(1,3) by auto
        qed
      qed
    qed
  qed
  then show "dsmf_pfcp_inv nx s'" "p = Some n \<Longrightarrow> n \<in> set (c_peer_list s')" "unat (id (xpool (snd (c_xact s')))) \<le> unat (id (xpool (snd (c_xact s)))) + 1" by auto
qed

lemma note_recovery_inv:
  assumes "dsmf_pfcp_inv nx s" "n \<in> set (c_peer_list s)"
  shows "dsmf_pfcp_inv nx (note_recovery n ts s)" "c_peer_list (note_recovery n ts s) = c_peer_list s" "c_xact (note_recovery n ts s) = c_xact s"
proof -
  show "dsmf_pfcp_inv nx (note_recovery n ts s)"
    unfolding note_recovery_def using dsmf_invD(3) [OF assms] by (intro dsmf_inv_info [OF assms]) (simp_all add: quiet_def)
qed (simp_all add: note_recovery_def)

lemma note_recovery_heartbeat [simp]: "n_t_no_heartbeat (c_info (note_recovery n ts s) k) = n_t_no_heartbeat (c_info s k)"
  by (simp add: note_recovery_def)

lemma recv_inv:
  assumes inv: "dsmf_pfcp_inv nx s" and d: "dns_ok (pe_dns env)" and c: "clock_ok (pe_conf env) now"
    and i: "unat (id (xpool (snd (c_xact s)))) + 1 < unat OGS_MAX_POOL_ID" and r: "pfcp_recv_cb env now msg src s = Some (o', s')"
  shows "dsmf_pfcp_inv nx s'"
proof -
  obtain p s1 where p: "find_peer (pfcp_node_fsm_init env now False) (pe_dns env) now msg src s = Some (p, s1)" using r by (auto simp: pfcp_recv_cb_def bind_eq_Some_conv)
  have i0: "id (xpool (snd (c_xact s))) < OGS_MAX_POOL_ID" using i by (simp add: word_less_nat_alt)
  note 1 = find_peer_inv [OF inv d c i0 p]
  show ?thesis
  proof (cases p)
    case None then show ?thesis using r p 1(1) by (simp add: pfcp_recv_cb_def)
  next
    case (Some n)
    then have n: "n \<in> set (c_peer_list s1)" using 1(2) by simp
    have i1: "id (xpool (snd (c_xact s1))) < OGS_MAX_POOL_ID" using i 1(3) by (simp add: word_less_nat_alt)
    obtain rv x mw where x: "ogs_pfcp_xact_receive (pe_conf env) now n (pm_type msg) (pm_sqn msg) (c_xact s1) = Some (rv, x, mw)"
      using r p Some by (auto simp: pfcp_recv_cb_def bind_eq_Some_conv)
    have x': "ogs_pfcp_xact_receive (pe_conf env) now n (pm_type msg) (pm_sqn msg) (fst (c_xact s1), snd (c_xact s1)) = Some (rv, x, (fst mw, snd mw))" using x by simp
    have xi: "xinv (set (c_peer_list s1)) nx (fst mw) (snd mw)" using receive_inv [OF dsmf_invD(4) [OF 1(1)] c i1 x' n] .
    define s2 where "s2 = s1\<lparr>c_xact := mw\<rparr>"
    have 2: "dsmf_pfcp_inv nx s2" "c_peer_list s2 = c_peer_list s1" "c_xact s2 = mw" "n \<in> set (c_peer_list s2)"
      using dsmf_inv_xact [OF 1(1) xi] n by (simp_all add: s2_def)
    note x2 = dsmf_invD(4) [OF 2(1), unfolded 2(3)]
    show ?thesis
    proof (cases "rv = OGS_OK")
      case False then show ?thesis using r p Some x 2(1) by (simp add: pfcp_recv_cb_def s2_def)
    next
      case True
      obtain k where k: "x = Some k" "k \<in> live (xpool (snd mw))" using receive_passed [OF dsmf_invD(4) [OF 1(1)] c i1 n x [unfolded True]] by blast
      consider (hreq) rv' where "ogs_pfcp_handle_heartbeat_request (pe_conf env) now n k (pm_recovery msg) (pe_heartbeat_response env) s2 = Some (rv', s')"
        | (hrsp) rv' where "ogs_pfcp_handle_heartbeat_response (pe_conf env) (pe_no_heartbeat_duration env) now n k (pm_recovery msg) s2 = Some (rv', s')"
        | (ass) rv' where "ogs_pfcp_cp_handle_association_setup_response (pe_conf env) now n k (pm_resources msg) (pm_up_features msg) s2 = Some (rv', s')"
        | (queued) "s' = s2"
        using r p Some x True k(1) by (auto simp: pfcp_recv_cb_def s2_def bind_eq_Some_conv Let_def split: if_splits)
      then show ?thesis
      proof cases
        case hreq
        show ?thesis
        proof (cases "pm_recovery msg")
          case None then show ?thesis using hreq 2(1) by (simp add: ogs_pfcp_handle_heartbeat_request_def)
        next
          case (Some ts)
          then obtain mw' where m: "ogs_pfcp_send_heartbeat_response (pe_conf env) now k (pe_heartbeat_response env) mw = Some mw'" "s' = (note_recovery n ts s2)\<lparr>c_xact := snd mw'\<rparr>"
            using hreq 2(3) note_recovery_inv(3) [OF 2(1,4), of ts] by (auto simp: ogs_pfcp_handle_heartbeat_request_def bind_eq_Some_conv lift_xact_eq)
          have "xinv (set (c_peer_list s2)) nx (fst (snd mw')) (snd (snd mw'))" using send_response_inv(2) [OF x2 k(2) c, of _ "fst mw'" "snd mw'"] m(1) by simp
          then show ?thesis unfolding m(2) using note_recovery_inv [OF 2(1,4)] by (intro dsmf_inv_xact) simp_all
        qed
      next
        case hrsp
        then obtain rv1 mw' where m: "ogs_pfcp_xact_commit (pe_conf env) now k mw = Some (rv1, mw')"
          "(case pm_recovery msg of None \<Rightarrow> Some (False, s2\<lparr>c_xact := mw'\<rparr>)
            | Some ts \<Rightarrow> do { let s = note_recovery n ts (s2\<lparr>c_xact := mw'\<rparr>); t \<leftarrow> n_t_no_heartbeat (c_info s n);
                m \<leftarrow> ogs_timer_start t (pe_no_heartbeat_duration env) now (fst (c_xact s)); Some (True, s\<lparr>c_xact := (m, snd (c_xact s))\<rparr>) }) = Some (rv', s')"
          by (auto simp: ogs_pfcp_handle_heartbeat_response_def bind_eq_Some_conv lift_xact_eq 2(3))
        have i3: "dsmf_pfcp_inv nx (s2\<lparr>c_xact := mw'\<rparr>)" using commit_inv [OF x2 k(2) c m(1)] by (intro dsmf_inv_xact [OF 2(1)])
        have "n_t_no_heartbeat (c_info s2 n) = None" using dsmf_invD(3) [OF 2(1,4)] by (simp add: quiet_def)
        then have "pm_recovery msg = None" using m(2) by (auto simp: Let_def split: option.splits)
        then show ?thesis using m(2) i3 by simp
      next
        case ass
        then obtain rv1 mw' where m: "ogs_pfcp_xact_commit (pe_conf env) now k mw = Some (rv1, mw')"
          "store_association n (pm_resources msg) (pm_up_features msg) (s2\<lparr>c_xact := mw'\<rparr>) = Some s'"
          by (auto simp: ogs_pfcp_cp_handle_association_setup_response_def bind_eq_Some_conv lift_xact_eq 2(3))
        have i3: "dsmf_pfcp_inv nx (s2\<lparr>c_xact := mw'\<rparr>)" using commit_inv [OF x2 k(2) c m(1)] by (intro dsmf_inv_xact [OF 2(1)])
        show ?thesis using store_association_inv(1) [OF i3 _ m(2)] 2(4) by simp
      next
        case queued then show ?thesis using 2(1) by simp
      qed
    qed
  qed
qed

lemma session_request_inv:
  assumes inv: "dsmf_pfcp_inv nx s" and n: "n \<in> set (c_peer_list s)" and c: "clock_ok (pe_conf env) now" and i: "id (xpool (snd (c_xact s))) < OGS_MAX_POOL_ID"
    and r: "send_session_request env now n j type seid built s = Some s'"
  shows "dsmf_pfcp_inv nx s'"
proof -
  obtain k mw0 where k: "ogs_pfcp_xact_local_create (pe_conf env) n (Some (SessionTimeout j)) (c_xact s) = Some (k, mw0)"
    using r by (auto simp: send_session_request_def bind_eq_Some_conv)
  then have k0: "ogs_pfcp_xact_local_create (pe_conf env) n (Some (SessionTimeout j)) (fst (c_xact s), snd (c_xact s)) = Some (k, (fst mw0, snd mw0))" by simp
  note x = local_create_ok(1,3) [OF dsmf_invD(4) [OF inv] i k0 n]
  have k': "k \<in> live (xpool (snd mw0))" using x(2) by simp
  have del: "dsmf_pfcp_inv nx (s\<lparr>c_xact := mw1\<rparr>)" if "ogs_pfcp_xact_delete k mw0 = Some mw1" for mw1
    using xact_delete_ok [OF x(1) k'] that by (intro dsmf_inv_xact [OF inv]) auto
  show ?thesis
  proof (cases built)
    case None then show ?thesis using r k del by (auto simp: send_session_request_def bind_eq_Some_conv)
  next
    case (Some pk)
    then obtain r1 mw1 where u: "ogs_pfcp_xact_update_tx k type seid pk mw0 = Some (r1, mw1)" using r k by (auto simp: send_session_request_def bind_eq_Some_conv)
    show ?thesis
    proof (cases "r1 = OGS_OK")
      case False then show ?thesis using r k Some u status_cases [OF False u] del by (auto simp: send_session_request_def bind_eq_Some_conv)
    next
      case True
      obtain mw2 where 2: "ogs_pfcp_xact_commit (pe_conf env) now k mw1 = Some (OGS_OK, mw2)" "xinv (set (c_peer_list s)) nx (fst mw2) (snd mw2)"
        using store_commit_inv [OF x(1) k' c u [unfolded True]] by blast
      then have "s' = s\<lparr>c_xact := mw2\<rparr>" using r k Some u True by (simp add: send_session_request_def)
      then show ?thesis using dsmf_inv_xact [OF inv 2(2)] by simp
    qed
  qed
qed

lemma dn4_commit_inv:
  assumes inv: "dsmf_pfcp_inv nx s" and c: "clock_ok (pe_conf env) now" and r: "dn4_commit env now i s = Some s'"
  shows "dsmf_pfcp_inv nx s'"
proof (cases "s' = s")
  case False
  then obtain k rv mw where k: "ogs_pfcp_xact_find_by_id i (snd (c_xact s)) = Some (Some k)" "ogs_pfcp_xact_commit (pe_conf env) now k (c_xact s) = Some (rv, mw)" "s' = s\<lparr>c_xact := mw\<rparr>"
    using r by (auto simp: dn4_commit_def bind_eq_Some_conv lift_xact_eq split: if_splits option.splits)
  have "k \<in> live (xpool (snd (c_xact s)))"
    using k(1) find_by_id_correct [OF xinvD(2) [OF dsmf_invD(4) [OF inv]], of i] id_lookup [OF xinvD(2) [OF dsmf_invD(4) [OF inv]], of i k]
    by (simp add: ogs_pfcp_xact_find_by_id_def)
  from commit_inv [OF dsmf_invD(4) [OF inv] this c k(2)] show ?thesis unfolding k(3) by (rule dsmf_inv_xact [OF inv])
qed (use inv in simp)

lemma init_inv:
  assumes "xact_run c nx mw" "live (xpool (snd mw)) = {}" "pool_repr p fs" "live p = {}"
  shows "dsmf_pfcp_inv nx \<lparr>c_node_pool = p, c_peer_list = [], c_info = infos, c_gtpu_free = 0, c_cp_function_features = f, c_xact = mw\<rparr>"
proof -
  have x: "xinv UNIV nx (fst mw) (snd mw)" using xact_run_inv [OF assms(1)] .
  have "xinv {} nx (fst mw) (snd mw)" by (rule xinv_subset [OF x]) (simp_all add: assms(2))
  then show ?thesis using assms(3,4) by (auto simp: dsmf_pfcp_inv_def peers_inv_def)
qed

lemma config_inv:
  assumes "dsmf_pfcp_inv nx s" "config_peer addr no4 no6 prefer s = Some s'"
  shows "dsmf_pfcp_inv nx s'"
proof -
  note k = config_peer_ok [OF dsmf_invD(1) [OF assms(1)] assms(2)]
  have "quiet (c_info s' n)" if "n \<in> set (c_peer_list s')" for n
    using k(5,7) that dsmf_invD(3) [OF assms(1)] by (cases "n \<in> set (c_peer_list s)") (auto simp: quiet_def zero_node_info_def)
  then show ?thesis using k(1,2) dsmf_invD(2) [OF assms(1)] by (simp add: dsmf_pfcp_inv_def)
qed

lemma quiet_state: "quiet i \<Longrightarrow> state (n_sm i) \<in> {None, Some PfcpWillAssociate}"
  by (cases "n_sm i = will_associate_machine") (simp_all add: quiet_def will_associate_machine_def)

lemma dsmf_pfcp_run_inv:
  assumes "dsmf_pfcp_run env nx s" "dns_ok (pe_dns env)"
  shows "dsmf_pfcp_inv nx s"
  using assms(1)
proof (induction rule: dsmf_pfcp_run.induct)
  case (init mw p fs infos) then show ?case by (rule init_inv)
next
  case (config s addr no4 no6 pf s') then show ?case using config_inv by blast
next
  case (start s n now s') then show ?case using fsm_init_inv(1) by blast
next
  case (stop s n now s') then show ?case using fsm_fini_inv(1) [OF stop.IH stop.hyps(2), of env now] fsm_fini_inv(2) [OF stop.IH stop.hyps(2)] by simp
next
  case (receive s now msg src r s') then show ?case using recv_inv [OF _ assms(2)] by blast
next
  case (request s n now i type seid built s') then show ?case using session_request_inv by blast
next
  case (commit s now i s') then show ?case using dn4_commit_inv by blast
next
  case (expire s now mw)
  then obtain m' w' where "mw = (m', w')" "xinv (set (c_peer_list s)) nx m' w'"
    using xact_expire_ok [OF dsmf_invD(4) [OF expire.IH], of "pe_conf env" now] by auto
  then show ?case using dsmf_inv_xact [OF expire.IH] by simp
qed

subsection \<open>Properties\<close>



text \<open>Starting the machines of some peers: each sends one request, which waits for its response.\<close>

definition asked :: "dsmf_pfcp \<Rightarrow> dsmf_pfcp \<Rightarrow> ogs_pkbuf \<Rightarrow> nat \<Rightarrow> dsmf_cb xact_out \<Rightarrow> bool" where
  "asked s s' pk n out \<longleftrightarrow>
     n_sm (c_info s' n) = will_associate_machine
     \<and> (\<exists>k a. k \<in> live (xpool (snd (c_xact s'))) - live (xpool (snd (c_xact s)))
          \<and> (let x = xacts (snd (c_xact s')) k
             in x_org x = OGS_PFCP_LOCAL_ORIGINATOR \<and> x_node x = n \<and> x_step x = 1 \<and> x_cb x = Some (NodeTimeout n)
                \<and> out = SentTo n a (pfcp_header OGS_PFCP_ASSOCIATION_SETUP_REQUEST_TYPE 0 (x_xid x) (of_nat (4 + pk_len pk)) @ contents pk)))"

lemma fsm_start_ok:
  assumes inv: "dsmf_pfcp_inv nx s" and n: "n \<in> set (c_peer_list s)" and i: "id (xpool (snd (c_xact s))) < OGS_MAX_POOL_ID"
    and c: "clock_ok (pe_conf env) now" "\<forall>a. has_sock (pe_conf env) a" and pk: "pe_association_request env = Some pk" "pkbuf_ok pk" "8 \<le> ogs_pkbuf_headroom pk"
    and room: "1 \<le> avail (xpool (snd (c_xact s)))" "3 \<le> avail (m_pool (fst (c_xact s)))"
  shows "\<exists>s' out. pfcp_node_fsm_init env now True n s = Some s' \<and> xouts (snd (c_xact s')) = xouts (snd (c_xact s)) @ [out] \<and> asked s s' pk n out
    \<and> avail (xpool (snd (c_xact s'))) = avail (xpool (snd (c_xact s))) - 1 \<and> avail (m_pool (fst (c_xact s'))) = avail (m_pool (fst (c_xact s))) - 3
    \<and> live (xpool (snd (c_xact s))) \<subseteq> live (xpool (snd (c_xact s'))) \<and> (\<forall>l \<in> live (xpool (snd (c_xact s))). xacts (snd (c_xact s')) l = xacts (snd (c_xact s)) l)
    \<and> (\<forall>l. l \<noteq> n \<longrightarrow> c_info s' l = c_info s l)"
proof -
  obtain m w where mw: "c_xact s = (m, w)" by (cases "c_xact s")
  note x = dsmf_invD(4) [OF inv, unfolded mw fst_conv snd_conv]
  obtain k ks r h d fs where p: "pool_repr (xpool w) (k # ks)" "pool_repr (m_pool m) (r # h # d # fs)" using pools_room [OF x room [unfolded mw fst_conv snd_conv]] by blast
  have t: "ogs_pfcp_xact_get_stage OGS_PFCP_ASSOCIATION_SETUP_REQUEST_TYPE = PFCP_XACT_INITIAL_STAGE" "pfcp_hlen OGS_PFCP_ASSOCIATION_SETUP_REQUEST_TYPE = 8"
    by (simp_all add: ogs_pfcp_xact_get_stage_def pfcp_hlen_def pfcp_const_defs)
  obtain m' w' a where s: "send_node_request OGS_PFCP_ASSOCIATION_SETUP_REQUEST_TYPE (pe_conf env) now n (Some (NodeTimeout n)) (Some pk) (m, w) = Some (OGS_OK, (m', w'))"
    "xinv (set (c_peer_list s)) nx m' w'" "live (xpool w') = insert k (live (xpool w))" "k \<notin> live (xpool w)" "x_step (xacts w' k) = 1" "x_cb (xacts w' k) = Some (NodeTimeout n)"
    "x_node (xacts w' k) = n" "x_org (xacts w' k) = OGS_PFCP_LOCAL_ORIGINATOR" "x_xid (xacts w' k) = OGS_NEXT_ID (g_xact_id w) PFCP_MIN_XACT_ID PFCP_MAX_XACT_ID"
    "\<forall>l. l \<noteq> k \<longrightarrow> xacts w' l = xacts w l"
    "xouts w' = xouts w @ [SentTo n a (pfcp_header OGS_PFCP_ASSOCIATION_SETUP_REQUEST_TYPE 0 (OGS_NEXT_ID (g_xact_id w) PFCP_MIN_XACT_ID PFCP_MAX_XACT_ID)
      (of_nat (4 + pk_len pk)) @ contents pk)]"
    using send_request_ok [OF x _ p t(1) pk(2) _ c n, of "Some (NodeTimeout n)"] i pk(3) unfolding t(2) by (auto simp: mw)
  have sz: "size (xpool w') = size (xpool w)" "size (m_pool m') = size (m_pool m)" using send_request_sizes [OF s(1)] by (simp_all add: pool_sizes_def)
  have fin: "finite (live (xpool w))" "card (live (xpool w')) = card (live (xpool w)) + 1" using s(3,4) by (simp_all add: live_def)
  obtain qs qs' ts ts' where q: "pool_repr (xpool w) qs" "pool_repr (xpool w') qs'" "pool_repr (m_pool m) ts" "pool_repr (m_pool m') ts'"
    using xinvD(1,3) [OF x] xinvD(1,3) [OF s(2)] by (auto simp: timer_inv_def)
  have av: "avail (xpool w') = avail (xpool w) - 1" "avail (m_pool m') = avail (m_pool m) - 3"
    using card_live [OF q(1)] card_live [OF q(2)] card_live [OF q(3)] card_live [OF q(4)] run_timers(2) [OF x] run_timers(2) [OF s(2)] fin(2) sz by simp_all
  define s' where "s' = upd_info n (\<lambda>i. i\<lparr>n_sm := will_associate_machine\<rparr>) (upd_info n (\<lambda>i. i\<lparr>n_t_association := Some False\<rparr>) s\<lparr>c_xact := (m', w')\<rparr>)"
  have "pfcp_node_fsm_init env now True n s = Some s'"
    using s(1) unfolding fsm_init_eq by (simp add: lift_xact_def ogs_pfcp_cp_send_association_setup_request_def pk(1) mw s'_def)
  moreover have "c_xact s' = (m', w')" "n_sm (c_info s' n) = will_associate_machine" "\<forall>l. l \<noteq> n \<longrightarrow> c_info s' l = c_info s l" by (simp_all add: s'_def)
  ultimately show ?thesis using s(3-11) av by (auto simp: mw asked_def Let_def)
qed

lemma asked_mono:
  assumes "asked s0 s pk n out" "live (xpool (snd (c_xact s))) \<subseteq> live (xpool (snd (c_xact s')))"
    "\<forall>l \<in> live (xpool (snd (c_xact s))). xacts (snd (c_xact s')) l = xacts (snd (c_xact s)) l" "c_info s' n = c_info s n"
  shows "asked s0 s' pk n out"
  using assms unfolding asked_def Let_def by fastforce

lemma asked_later:
  assumes "asked s s' pk n out" "live (xpool (snd (c_xact s0))) \<subseteq> live (xpool (snd (c_xact s)))"
  shows "asked s0 s' pk n out"
  using assms unfolding asked_def Let_def by fastforce

lemma open_peers_ok:
  assumes "dsmf_pfcp_inv nx s" "set ns \<subseteq> set (c_peer_list s)" "distinct ns" "unat (id (xpool (snd (c_xact s)))) + length ns \<le> unat OGS_MAX_POOL_ID"
    and c: "clock_ok (pe_conf env) now" "\<forall>a. has_sock (pe_conf env) a" and pk: "pe_association_request env = Some pk" "pkbuf_ok pk" "8 \<le> ogs_pkbuf_headroom pk"
    and "length ns \<le> avail (xpool (snd (c_xact s)))" "3 * length ns \<le> avail (m_pool (fst (c_xact s)))"
  shows "\<exists>s' outs. foldM (pfcp_node_fsm_init env now True) ns s = Some s' \<and> dsmf_pfcp_inv nx s' \<and> xouts (snd (c_xact s')) = xouts (snd (c_xact s)) @ outs
    \<and> list_all2 (asked s s' pk) ns outs \<and> live (xpool (snd (c_xact s))) \<subseteq> live (xpool (snd (c_xact s'))) \<and> c_peer_list s' = c_peer_list s
    \<and> (\<forall>l \<in> live (xpool (snd (c_xact s))). xacts (snd (c_xact s')) l = xacts (snd (c_xact s)) l) \<and> (\<forall>l. l \<notin> set ns \<longrightarrow> c_info s' l = c_info s l)"
  using assms(1-4,10,11)
proof (induction ns arbitrary: s)
  case Nil then show ?case by simp
next
  case (Cons n ns)
  have pre: "n \<in> set (c_peer_list s)" "id (xpool (snd (c_xact s))) < OGS_MAX_POOL_ID" "1 \<le> avail (xpool (snd (c_xact s)))" "3 \<le> avail (m_pool (fst (c_xact s)))"
    using Cons.prems by (simp_all add: word_less_nat_alt)
  obtain s1 out where 1: "pfcp_node_fsm_init env now True n s = Some s1" "xouts (snd (c_xact s1)) = xouts (snd (c_xact s)) @ [out]" "asked s s1 pk n out"
    "avail (xpool (snd (c_xact s1))) = avail (xpool (snd (c_xact s))) - 1" "avail (m_pool (fst (c_xact s1))) = avail (m_pool (fst (c_xact s))) - 3"
    "live (xpool (snd (c_xact s))) \<subseteq> live (xpool (snd (c_xact s1)))" "\<forall>l \<in> live (xpool (snd (c_xact s))). xacts (snd (c_xact s1)) l = xacts (snd (c_xact s)) l"
    "\<forall>l. l \<noteq> n \<longrightarrow> c_info s1 l = c_info s l"
    using fsm_start_ok [OF Cons.prems(1) pre(1,2) c pk pre(3,4)] by blast
  note i = fsm_init_inv [OF Cons.prems(1) pre(1,2) c(1) 1(1)]
  have "set ns \<subseteq> set (c_peer_list s1)" "distinct ns" "unat (id (xpool (snd (c_xact s1)))) + length ns \<le> unat OGS_MAX_POOL_ID"
    "length ns \<le> avail (xpool (snd (c_xact s1)))" "3 * length ns \<le> avail (m_pool (fst (c_xact s1)))"
    using Cons.prems i(2,3) by (simp_all add: 1(4,5))
  then obtain s2 outs where 2: "foldM (pfcp_node_fsm_init env now True) ns s1 = Some s2" "dsmf_pfcp_inv nx s2" "xouts (snd (c_xact s2)) = xouts (snd (c_xact s1)) @ outs"
    "list_all2 (asked s1 s2 pk) ns outs" "live (xpool (snd (c_xact s1))) \<subseteq> live (xpool (snd (c_xact s2)))" "c_peer_list s2 = c_peer_list s1"
    "\<forall>l \<in> live (xpool (snd (c_xact s1))). xacts (snd (c_xact s2)) l = xacts (snd (c_xact s1)) l" "\<forall>l. l \<notin> set ns \<longrightarrow> c_info s2 l = c_info s1 l"
    using Cons.IH [OF i(1)] by blast
  have "asked s s2 pk n out" using asked_mono [OF 1(3) 2(5,7)] 2(8) Cons.prems(3) by simp
  moreover have "list_all2 (asked s s2 pk) ns outs" using 2(4) by (rule list_all2_mono) (rule asked_later [OF _ 1(6)])
  moreover have "\<forall>l \<in> live (xpool (snd (c_xact s))). xacts (snd (c_xact s2)) l = xacts (snd (c_xact s)) l" using 1(6,7) 2(7) by (metis subsetD)
  ultimately show ?case using 1 2 i(2) by (intro exI [of _ s2] exI [of _ "out # outs"]) auto
qed


text \<open>The identifier that a received message gives, if any.\<close>

definition lookup_id :: "pfcp_msg \<Rightarrow> pfcp_node_id option" where
  "lookup_id msg = (case ogs_pfcp_extract_node_id (pm_type msg) (pm_node_id msg) of (st, i) \<Rightarrow> if st = OGS_PFCP_STATUS_SUCCESS then Some i else None)"

lemma find_peer_known:
  assumes inv: "dsmf_pfcp_inv nx s" and d: "dns_ok d"
    and st: "fst (ogs_pfcp_extract_node_id (pm_type msg) (pm_node_id msg)) \<in> {OGS_PFCP_STATUS_SUCCESS, OGS_PFCP_STATUS_NODE_ID_NONE, OGS_PFCP_STATUS_NODE_ID_OPTIONAL_ABSENT}"
    and f: "ogs_pfcp_node_find (lookup_id msg) (Some src) s = Some (Some n)"
  shows "n \<in> set (c_peer_list s)"
    "\<exists>s1. find_peer start d now msg src s = Some (Some n, s1) \<and> dsmf_pfcp_inv nx s1 \<and> c_peer_list s1 = c_peer_list s \<and> fst (c_xact s1) = fst (c_xact s)
       \<and> xacts (snd (c_xact s1)) = xacts (snd (c_xact s)) \<and> xpool (snd (c_xact s1)) = xpool (snd (c_xact s)) \<and> xouts (snd (c_xact s1)) = xouts (snd (c_xact s))
       \<and> local_list (node_of s1 n) = local_list (node_of s n) \<and> remote_list (node_of s1 n) = remote_list (node_of s n) \<and> src \<in> set (addr_list (node_of s n))"
proof -
  obtain st i where e: "ogs_pfcp_extract_node_id (pm_type msg) (pm_node_id msg) = (st, i)" by (cases "ogs_pfcp_extract_node_id (pm_type msg) (pm_node_id msg)")
  define wid where "wid = lookup_id msg"
  have wid: "wid = (if st = OGS_PFCP_STATUS_SUCCESS then Some i else None)" by (simp add: wid_def lookup_id_def e)
  have ok: "\<forall>j. wid = Some j \<longrightarrow> id_wf j \<and> ni_known j" using extract_success e by (auto simp: wid)
  have n: "n \<in> set (c_peer_list s)" "src \<in> set (addr_list (node_of s n))"
    using node_find_ok [of wid src s "c_peer_list s"] ok f by (auto simp: ogs_pfcp_node_find_def wid_def [symmetric])
  then show "n \<in> set (c_peer_list s)" by simp
  obtain rv j t as c where m: "ogs_pfcp_node_merge d now n wid (Some src) s = Some (rv, set_node n ((c_info s n)\<lparr>n_node_id := j, n_last_dns_refresh := t\<rparr>)
      ((node_of s n)\<lparr>addr_list := as, current_addr := c\<rparr>) s)"
    using node_merge_ok [OF peers_invD(4) [OF dsmf_invD(1) [OF inv] n(1)] ok d, of now src] by blast
  let ?s1 = "set_node n ((c_info s n)\<lparr>n_node_id := j, n_last_dns_refresh := t\<rparr>) ((node_of s n)\<lparr>addr_list := as, current_addr := c\<rparr>) s"
  have "find_peer start d now msg src s = Some (Some n, ?s1)"
    using st f m by (auto simp: find_peer_def e wid [symmetric] wid_def [symmetric])
  then show "\<exists>s1. find_peer start d now msg src s = Some (Some n, s1) \<and> dsmf_pfcp_inv nx s1 \<and> c_peer_list s1 = c_peer_list s \<and> fst (c_xact s1) = fst (c_xact s)
       \<and> xacts (snd (c_xact s1)) = xacts (snd (c_xact s)) \<and> xpool (snd (c_xact s1)) = xpool (snd (c_xact s)) \<and> xouts (snd (c_xact s1)) = xouts (snd (c_xact s))
       \<and> local_list (node_of s1 n) = local_list (node_of s n) \<and> remote_list (node_of s1 n) = remote_list (node_of s n) \<and> src \<in> set (addr_list (node_of s n))"
    using dsmf_inv_merge(1) [OF inv n(1) ok d m] n(2) by (intro exI [of _ ?s1]) simp
qed

text \<open>The responses that end the program: a heartbeat response, and an association response with a user plane resource that can be decoded.\<close>

definition fatal_response :: "pfcp_msg \<Rightarrow> bool" where
  "fatal_response msg \<longleftrightarrow>
     pm_type msg = OGS_PFCP_HEARTBEAT_RESPONSE_TYPE \<and> pm_recovery msg \<noteq> None
     \<or> pm_type msg = OGS_PFCP_ASSOCIATION_SETUP_RESPONSE_TYPE \<and> fst (ogs_pfcp_extract_node_id (pm_type msg) (pm_node_id msg)) = OGS_PFCP_STATUS_SUCCESS
       \<and> (\<exists>b n info. (b, n) \<in> set (take 1 (pm_resources msg)) \<and> ogs_pfcp_parse_user_plane_ip_resource_info b n = Some (n, info))"

lemma response_aborts:
  assumes "dsmf_pfcp_inv nx s" "dns_ok (pe_dns env)" "fatal_response msg" "ogs_pfcp_node_find (lookup_id msg) (Some src) s = Some (Some n)"
    "find (\<lambda>k. x_xid (xacts (snd (c_xact s)) k) = OGS_PFCP_SQN_TO_XID (pm_sqn msg)) (local_list (node_of s n)) = Some k" "x_step (xacts (snd (c_xact s)) k) = 1"
  shows "pfcp_recv_cb env now msg src s = None"
proof -
  note inv = assms(1)
  have "fst (ogs_pfcp_extract_node_id (pm_type msg) (pm_node_id msg)) \<in> {OGS_PFCP_STATUS_SUCCESS, OGS_PFCP_STATUS_NODE_ID_NONE, OGS_PFCP_STATUS_NODE_ID_OPTIONAL_ABSENT}"
  proof (cases "pm_type msg = OGS_PFCP_HEARTBEAT_RESPONSE_TYPE")
    case True then show ?thesis by (simp add: ogs_pfcp_extract_node_id_def node_id_requirement_def pfcp_const_defs)
  qed (use assms(3) in \<open>auto simp: fatal_response_def\<close>)
  note p = find_peer_known [OF inv assms(2) this assms(4)]
  then obtain s1 where 1: "find_peer (pfcp_node_fsm_init env now False) (pe_dns env) now msg src s = Some (Some n, s1)" "dsmf_pfcp_inv nx s1" "n \<in> set (c_peer_list s1)"
    "xacts (snd (c_xact s1)) = xacts (snd (c_xact s))" "local_list (node_of s1 n) = local_list (node_of s n)" by metis
  have fin: "ogs_pfcp_xact_get_stage (pm_type msg) = PFCP_XACT_FINAL_STAGE" using assms(3) by (auto simp: fatal_response_def ogs_pfcp_xact_get_stage_def pfcp_const_defs)
  obtain m1 w1 m2 w2 where r: "ogs_pfcp_xact_receive (pe_conf env) now n (pm_type msg) (pm_sqn msg) (c_xact s1) = Some (OGS_OK, Some k, (m1, w1))"
    "ogs_pfcp_xact_commit (pe_conf env) now k (m1, w1) = Some (OGS_OK, (m2, w2))"
    using response_complete_ok [OF dsmf_invD(4) [OF 1(2)] fin, of "pm_sqn msg" n k "pe_conf env" now now] assms(5,6) 1(4,5) by auto
  have q: "quiet (c_info s1 n)" "c_gtpu_free s1 = 0" using dsmf_invD(2,3) [OF 1(2)] 1(3) by simp_all
  define s2 where "s2 = s1\<lparr>c_xact := (m1, w1)\<rparr>"
  have c: "lift_xact (ogs_pfcp_xact_commit (pe_conf env) now k) s2 = Some (OGS_OK, s1\<lparr>c_xact := (m2, w2)\<rparr>)" using r(2) by (simp add: lift_xact_def s2_def)
  consider ts where "pm_type msg = OGS_PFCP_HEARTBEAT_RESPONSE_TYPE" "pm_recovery msg = Some ts"
    | b l info rs where "pm_type msg = OGS_PFCP_ASSOCIATION_SETUP_RESPONSE_TYPE" "pm_resources msg = (b, l) # rs"
        "ogs_pfcp_parse_user_plane_ip_resource_info b l = Some (l, info)"
    using assms(3) by (cases "pm_resources msg") (auto simp: fatal_response_def)
  then show ?thesis
  proof cases
    case 1
    have "ogs_pfcp_handle_heartbeat_response (pe_conf env) (pe_no_heartbeat_duration env) now n k (pm_recovery msg) s2 = None"
      using q(1) by (simp add: ogs_pfcp_handle_heartbeat_response_def c 1(2) quiet_def)
    then show ?thesis using \<open>find_peer _ _ _ _ _ _ = _\<close> r(1) by (simp add: pfcp_recv_cb_def 1(1) s2_def [symmetric] Let_def pfcp_const_defs)
  next
    case 2
    have "store_resource n (b, l) (ogs_gtpu_resource_remove_all n (s1\<lparr>c_xact := (m2, w2)\<rparr>)) = None"
      using q by (simp add: store_resource_def 2(3) ogs_gtpu_resource_add_def ogs_gtpu_resource_remove_all_def quiet_def ogs_assert_def)
    then have "ogs_pfcp_cp_handle_association_setup_response (pe_conf env) now n k (pm_resources msg) (pm_up_features msg) s2 = None"
      by (simp add: ogs_pfcp_cp_handle_association_setup_response_def c 2(2) store_association_def OGS_MAX_NUM_OF_GTPU_RESOURCE_def numeral_eq_Suc)
    then show ?thesis using \<open>find_peer _ _ _ _ _ _ = _\<close> r(1) by (simp add: pfcp_recv_cb_def 2(1) s2_def [symmetric] Let_def pfcp_const_defs)
  qed
qed

text \<open>C31. A response can end the DSMF: in every reachable state in which a request to a peer waits, whatever it asked for, a heartbeat response with that request's sequence
  number from an address of the peer makes the reception abort, as no timer for heartbeats was ever made; so does an association response that
  announces a user plane resource, as the pool for resources was never initialised.\<close>

theorem dsmf_peer_aborts:
  assumes "dsmf_pfcp_run env nx s" "dns_ok (pe_dns env)" "fatal_response msg" "ogs_pfcp_node_find (lookup_id msg) (Some src) s = Some (Some n)"
    "find (\<lambda>k. x_xid (xacts (snd (c_xact s)) k) = OGS_PFCP_SQN_TO_XID (pm_sqn msg)) (local_list (node_of s n)) = Some k" "x_step (xacts (snd (c_xact s)) k) = 1"
  shows "pfcp_recv_cb env now msg src s = None"
  by (rule response_aborts [OF dsmf_pfcp_run_inv [OF assms(1,2)] assms(2-6)])

text \<open>A DSMF with one configured peer, which has asked it for an association.\<close>

definition sample_pfcp_env :: pfcp_env where
  "sample_pfcp_env = \<lparr>pe_conf = sample_conf, pe_dns = sample_dns, pe_no_heartbeat_duration = 40000000, pe_association_request = Some sample_pk,
     pe_association_response = Some sample_pk, pe_heartbeat_request = Some sample_pk, pe_heartbeat_response = Some sample_pk\<rparr>"

definition sample_dsmf_xacts :: "dsmf_cb pfcp_xacts" where
  "sample_dsmf_xacts = ogs_pfcp_xact_init 2 [0, 0] 5 (\<lambda>_. \<lparr>x_index = 0, x_org = 0, x_xid = 0, x_node = 0, x_cb = None, x_step = 0, x_seq = [],
     x_tm_response = None, x_response_rcount = 0, x_tm_holding = None, x_holding_rcount = 0, x_tm_delayed_commit = None\<rparr>)
     (\<lambda>_. \<lparr>local_list = [], remote_list = [], addr_list = [SockAddr4 0 0], current_addr = None\<rparr>)"

definition sample_dsmf :: dsmf_pfcp where
  "sample_dsmf = \<lparr>c_node_pool = ogs_pool_init 2 [0, 0] 0 5, c_peer_list = [], c_info = (\<lambda>_. zero_node_info), c_gtpu_free = 0, c_cp_function_features = 0,
     c_xact = (sample_tmgr, sample_dsmf_xacts)\<rparr>"

definition sample_peer :: ogs_sockaddr where "sample_peer = SockAddr4 0x7f000004 8805"

lemma sample_dsmf_run: "dsmf_pfcp_run sample_pfcp_env 2 sample_dsmf"
proof -
  have "xact_run sample_conf 2 (sample_tmgr, sample_dsmf_xacts)" unfolding sample_dsmf_xacts_def
    by (rule xact_run.init [where nt = 6 and tmem = "[0, 0, 0, 0, 0, 0]" and tsd = 5
          and rb = "\<lambda>_. \<lparr>rb_parent = None, rb_left = None, rb_right = None, rb_color = BLACK\<rparr>"
          and ts = "\<lambda>_. \<lparr>t_cb = None, t_manager = False, t_running = False, t_timeout = 0\<rparr>" and ln = "\<lambda>_. \<lparr>prev = None, next = None\<rparr>"])
      (simp_all add: sample_tmgr_def ogs_timer_mgr_create_def node_ok_def)
  then show ?thesis unfolding sample_dsmf_def
    by (intro dsmf_pfcp_run.init [where fs = "[0..<2]"] pool_repr_init)
      (auto simp: sample_pfcp_env_def live_def sample_dsmf_xacts_def ogs_pfcp_xact_init_def ogs_pool_init_def)
qed

lemma sample_pfcp_env_ok: "dns_ok (pe_dns sample_pfcp_env)" "pe_conf sample_pfcp_env = sample_conf" "pe_association_request sample_pfcp_env = Some sample_pk"
  by (simp_all add: sample_pfcp_env_def sample_dns_def dns_ok_def)

lemma sample_configured:
  "\<exists>s. config_peer [sample_peer] False False True sample_dsmf = Some s \<and> dsmf_pfcp_run sample_pfcp_env 2 s \<and> c_peer_list s = [0] \<and> fst (c_xact s) = sample_tmgr
     \<and> xpool (snd (c_xact s)) = xpool sample_dsmf_xacts \<and> g_xact_id (snd (c_xact s)) = 0 \<and> local_list (node_of s 0) = [] \<and> remote_list (node_of s 0) = []
     \<and> xouts (snd (c_xact s)) = [] \<and> ni_type (n_node_id (c_info s 0)) = OGS_PFCP_NODE_ID_UNKNOWN"
proof -
  have "pool_repr (ogs_pool_init 2 [0, 0] 0 5) [0..<2]" by (rule pool_repr_init) simp
  moreover have "[0..<2] = [0, 1 :: nat]" by code_simp
  ultimately obtain p where a: "ogs_pool_alloc (ogs_pool_init 2 [0, 0] 0 5) = Some (Some 0, p)" using pool_alloc_repr [of "ogs_pool_init 2 [0, 0] 0 5" 0 "[1]"] by auto
  have f: "ogs_filter_ip_version [sample_peer] False False True = [sample_peer]" by code_simp
  obtain s where s: "config_peer [sample_peer] False False True sample_dsmf = Some s" "c_peer_list s = [0]" "fst (c_xact s) = sample_tmgr"
    "xpool (snd (c_xact s)) = xpool sample_dsmf_xacts" "g_xact_id (snd (c_xact s)) = 0" "local_list (node_of s 0) = []" "remote_list (node_of s 0) = []" "xouts (snd (c_xact s)) = []"
    "ni_type (n_node_id (c_info s 0)) = OGS_PFCP_NODE_ID_UNKNOWN"
    by (simp add: Let_def config_peer_def f ogs_pfcp_node_new_def sample_dsmf_def a upd_info_def upd_node_def upd_pnode_def sample_dsmf_xacts_def ogs_pfcp_xact_init_def zero_node_info_def)
  then show ?thesis using dsmf_pfcp_run.config [OF sample_dsmf_run s(1)] by blast
qed

lemma sample_waiting:
  "\<exists>s. dsmf_pfcp_run sample_pfcp_env 2 s \<and> c_peer_list s = [0] \<and> local_list (node_of s 0) = [0] \<and> x_step (xacts (snd (c_xact s)) 0) = 1 \<and> x_xid (xacts (snd (c_xact s)) 0) = 1
     \<and> ni_type (n_node_id (c_info s 0)) = OGS_PFCP_NODE_ID_UNKNOWN"
proof -
  obtain s where s: "dsmf_pfcp_run sample_pfcp_env 2 s" "c_peer_list s = [0]" "fst (c_xact s) = sample_tmgr" "xpool (snd (c_xact s)) = xpool sample_dsmf_xacts"
    "g_xact_id (snd (c_xact s)) = 0" "local_list (node_of s 0) = []" "ni_type (n_node_id (c_info s 0)) = OGS_PFCP_NODE_ID_UNKNOWN"
    using sample_configured by blast
  obtain m w where mw: "c_xact s = (m, w)" by (cases "c_xact s")
  note x = dsmf_invD(4) [OF dsmf_pfcp_run_inv [OF s(1) sample_pfcp_env_ok(1)], unfolded mw fst_conv snd_conv s(2)]
  have e: "xpool w = xpool sample_xacts" "m = sample_tmgr" using s(3,4) by (simp_all add: mw sample_dsmf_xacts_def sample_xacts_def ogs_pfcp_xact_init_def)
  have p: "id (xpool w) < OGS_MAX_POOL_ID" "pool_repr (xpool w) (0 # [1])" "pool_repr (m_pool m) (0 # 1 # 2 # [3, 4, 5])" using sample_room by (simp_all add: e)
  have t: "ogs_pfcp_xact_get_stage OGS_PFCP_ASSOCIATION_SETUP_REQUEST_TYPE = PFCP_XACT_INITIAL_STAGE" by (simp add: ogs_pfcp_xact_get_stage_def pfcp_const_defs)
  obtain m' w' where r: "send_node_request OGS_PFCP_ASSOCIATION_SETUP_REQUEST_TYPE sample_conf 0 0 (Some (NodeTimeout 0)) (Some sample_pk) (m, w) = Some (OGS_OK, (m', w'))"
    "x_step (xacts w' 0) = 1" "x_xid (xacts w' 0) = OGS_NEXT_ID (g_xact_id w) PFCP_MIN_XACT_ID PFCP_MAX_XACT_ID" "local_list (pnodes w' 0) = local_list (pnodes w 0) @ [0]"
    using send_request_ok [OF x p t sample_pk_ok(1,2) sample_clock, of 0 0 "Some (NodeTimeout 0)"] by (auto simp: sample_conf_simps)
  have f: "pfcp_node_fsm_init sample_pfcp_env 0 True 0 s = Some (upd_info 0 (\<lambda>i. i\<lparr>n_sm := will_associate_machine\<rparr>) (upd_info 0 (\<lambda>i. i\<lparr>n_t_association := Some False\<rparr>) s\<lparr>c_xact := (m', w')\<rparr>))"
    using r(1) unfolding fsm_init_eq by (simp add: lift_xact_def ogs_pfcp_cp_send_association_setup_request_def sample_pfcp_env_ok mw)
  have "clock_ok (pe_conf sample_pfcp_env) 0" by (simp add: sample_pfcp_env_ok sample_clock)
  from dsmf_pfcp_run.start [OF s(1) _ this _ f] have "dsmf_pfcp_run sample_pfcp_env 2
      (upd_info 0 (\<lambda>i. i\<lparr>n_sm := will_associate_machine\<rparr>) (upd_info 0 (\<lambda>i. i\<lparr>n_t_association := Some False\<rparr>) s\<lparr>c_xact := (m', w')\<rparr>))"
    using s(2) p(1) by (simp add: mw)
  moreover have "x_xid (xacts w' 0) = 1" "local_list (pnodes w' 0) = [0]" using r(3,4) s(5,6) by (simp_all add: mw OGS_NEXT_ID_def pfcp_const_defs)
  ultimately show ?thesis using r(2) s(2,7) by (intro exI conjI) (assumption, simp_all)
qed



theorem dsmf_peer_aborts_witness:
  "\<exists>s msg src. dsmf_pfcp_run sample_pfcp_env 2 s \<and> pm_type msg = OGS_PFCP_HEARTBEAT_RESPONSE_TYPE \<and> src \<in> set (addr_list (node_of s 0)) \<and> pfcp_recv_cb sample_pfcp_env 5 msg src s = None"
proof -
  obtain s where s: "dsmf_pfcp_run sample_pfcp_env 2 s" "c_peer_list s = [0]" "local_list (node_of s 0) = [0]" "x_step (xacts (snd (c_xact s)) 0) = 1" "x_xid (xacts (snd (c_xact s)) 0) = 1"
    using sample_waiting by blast
  have "node_ok (node_of s 0)" using peers_invD(6) [OF dsmf_invD(1) [OF dsmf_pfcp_run_inv [OF s(1) sample_pfcp_env_ok(1)]]] s(2) by simp
  then obtain src where src: "src \<in> set (addr_list (node_of s 0))" by (cases "addr_list (node_of s 0)") (auto simp: node_ok_def)
  define msg where "msg = \<lparr>pm_type = OGS_PFCP_HEARTBEAT_RESPONSE_TYPE, pm_sqn = [0, 0, 1, 0], pm_node_id = None, pm_recovery = Some 7, pm_resources = [],
    pm_up_features = None, pm_cp_features = None\<rparr>"
  have q: "OGS_PFCP_SQN_TO_XID [0, 0, 1, 0] = 1" by (simp add: rd32_def push_bit_eq_mult drop_bit_eq_div)
  have p: "fatal_response msg" "lookup_id msg = None"
    by (simp_all add: fatal_response_def msg_def lookup_id_def ogs_pfcp_extract_node_id_def node_id_requirement_def pfcp_const_defs)
  have "ogs_pfcp_node_find (lookup_id msg) (Some src) s = Some (Some 0)"
    using src by (auto simp: p(2) ogs_pfcp_node_find_def s(2) id_differs_def)
  moreover have "find (\<lambda>k. x_xid (xacts (snd (c_xact s)) k) = OGS_PFCP_SQN_TO_XID (pm_sqn msg)) (local_list (node_of s 0)) = Some 0"
    unfolding msg_def pfcp_msg.simps q by (simp add: s(3,5))
  ultimately have "pfcp_recv_cb sample_pfcp_env 5 msg src s = None" using dsmf_peer_aborts [OF s(1) sample_pfcp_env_ok(1) p(1) _ _ s(4)] by blast
  then show ?thesis using s(1) src by (intro exI [of _ s] exI [of _ msg] exI [of _ src]) (simp add: msg_def)
qed



end
