(* ===== verification/Df_Pfcp.thy ===== *)
theory Df_Pfcp
  imports Dsmf_Pfcp
begin

section \<open>The PFCP side of the DF, and its association with the DSMF (src/df/pfcp-path.c, pfcp-sm.c)\<close>

text \<open>
  The DF's use of the transactions and nodes of \<open>lib/pfcp\<close>. Unlike the DSMF it queues every message of a peer with the node, and gives it to the transactions
  when the main loop handles it. The theory \<open>Df\<close> has the sessions and takes what happens here as parameters. The last section puts the DSMF and the
  DF together.
\<close>

subsection \<open>Data\<close>

datatype df_pfcp_state = DfPfcpInitial | DfPfcpFinal | DfPfcpWillAssociate | DfPfcpAssociated | DfPfcpException

text \<open>The callback of requests, \<open>sess_timeout\<close> with the identifier of the session.\<close>

datatype df_cb = SessTimeout u32

type_synonym df_pfcp = "(df_pfcp_state, df_cb) pfcp_ctx"

type_synonym df_node_result = "(df_pfcp_state ogs_fsm \<times> df_pfcp \<times> node_event fsm_event option) option"

definition DF_EVT_PFCP_MESSAGE :: int where "DF_EVT_PFCP_MESSAGE = OGS_MAX_NUM_OF_PROTO_EVENT + 1"

subsection \<open>The machine of a node (pfcp-sm.c)\<close>

definition df_pfcp_state_initial :: "df_pfcp_state ogs_fsm \<Rightarrow> df_pfcp \<Rightarrow> node_event fsm_event option \<Rightarrow> df_node_result" where
  "df_pfcp_state_initial sm s e =
     do { ev \<leftarrow> e; d \<leftarrow> ev_data ev; n \<leftarrow> ne_node d;
          ogs_assert (state sm \<noteq> None);
          Some (OGS_FSM_TRAN DfPfcpWillAssociate sm, s, e) }"

text \<open>\<open>df_pfcp_state_final\<close>, and \<open>df_pfcp_state_exception\<close>, which only logs.\<close>

definition df_pfcp_state_idle :: "df_pfcp_state ogs_fsm \<Rightarrow> df_pfcp \<Rightarrow> node_event fsm_event option \<Rightarrow> df_node_result" where
  "df_pfcp_state_idle sm s e =
     do { ev \<leftarrow> e; d \<leftarrow> ev_data ev; n \<leftarrow> ne_node d;
          ogs_assert (state sm \<noteq> None);
          Some (sm, s, e) }"

text \<open>
  \<open>df_pfcp_state_will_associate\<close> and \<open>df_pfcp_state_associated\<close>, which are the same: a message that the transactions accept is dispatched to the machine
  again, by \<open>again\<close>.
\<close>

definition df_pfcp_state_message ::
  "(df_pfcp_state ogs_fsm \<Rightarrow> df_pfcp \<Rightarrow> node_event fsm_event option \<Rightarrow> df_node_result) \<Rightarrow> pfcp_env \<Rightarrow> int \<Rightarrow> df_pfcp_state ogs_fsm \<Rightarrow> df_pfcp \<Rightarrow> node_event fsm_event option
    \<Rightarrow> df_node_result" where
  "df_pfcp_state_message again env now sm s e =
     do { ev \<leftarrow> e; d \<leftarrow> ev_data ev; n \<leftarrow> ne_node d;
          ogs_assert (state sm \<noteq> None);
          if ev_id ev = DF_EVT_PFCP_MESSAGE then
            do { m \<leftarrow> ne_message d;
                 (rv, x, mw) \<leftarrow> ogs_pfcp_xact_receive (pe_conf env) now n (pm_type m) (pm_sqn m) (c_xact s);
                 let s = s\<lparr>c_xact := mw\<rparr>;
                 if rv \<noteq> OGS_OK then Some (sm, s, e)
                 else again sm s (Some (ev\<lparr>ev_data := Some (d\<lparr>ne_xact_id := (case x of Some k \<Rightarrow> ids (xpool (snd mw)) ! k | None \<Rightarrow> 0)\<rparr>)\<rparr>)) }
          else Some (sm, s, e) }"

text \<open>The machine; \<open>d\<close> bounds how often a message is dispatched again.\<close>

fun df_pfcp_sem :: "nat \<Rightarrow> pfcp_env \<Rightarrow> int \<Rightarrow> (df_pfcp_state, df_pfcp, node_event) handlers" where
  "df_pfcp_sem d env now DfPfcpInitial = df_pfcp_state_initial"
| "df_pfcp_sem d env now DfPfcpFinal = df_pfcp_state_idle"
| "df_pfcp_sem d env now DfPfcpException = df_pfcp_state_idle"
| "df_pfcp_sem 0 env now st = (\<lambda>sm s e. None)"
| "df_pfcp_sem (Suc d) env now st = df_pfcp_state_message (\<lambda>sm s e. ogs_fsm_dispatch (df_pfcp_sem d env now) sm s e) env now"

subsection \<open>Opening, closing, reception and messages (pfcp-path.c)\<close>

text \<open>The code that would make the timer for associations is commented out in the DF, so that none is there to be deleted at the end.\<close>

definition df_pfcp_node_fsm_init :: "pfcp_env \<Rightarrow> int \<Rightarrow> nat \<Rightarrow> df_pfcp \<Rightarrow> df_pfcp option" where
  "df_pfcp_node_fsm_init env now n s =
     do { (sm, s, _) \<leftarrow> ogs_fsm_init (df_pfcp_sem 1 env now) (Some DfPfcpInitial) (Some DfPfcpFinal) s (Some (node_fsm_event n));
          Some (upd_info n (\<lambda>i. i\<lparr>n_sm := sm\<rparr>) s) }"

definition df_pfcp_node_fsm_fini :: "pfcp_env \<Rightarrow> int \<Rightarrow> nat \<Rightarrow> df_pfcp \<Rightarrow> df_pfcp option" where
  "df_pfcp_node_fsm_fini env now n s =
     do { (sm, s, _) \<leftarrow> ogs_fsm_fini (df_pfcp_sem 1 env now) (n_sm (c_info s n)) s (Some (node_fsm_event n));
          Some (upd_info n (\<lambda>i. i\<lparr>n_sm := sm\<rparr>) s) }"

definition df_pfcp_open :: "pfcp_env \<Rightarrow> int \<Rightarrow> df_pfcp \<Rightarrow> df_pfcp option" where
  "df_pfcp_open env now s =
     do { ogs_assert (pfcp_sock (pe_conf env) \<or> pfcp_sock6 (pe_conf env));
          foldM (df_pfcp_node_fsm_init env now) (c_peer_list s) s }"

definition df_pfcp_close :: "pfcp_env \<Rightarrow> int \<Rightarrow> df_pfcp \<Rightarrow> df_pfcp option" where
  "df_pfcp_close env now s = foldM (df_pfcp_node_fsm_fini env now) (c_peer_list s) s"

text \<open>The reception: the node that an event is queued with, if any.\<close>

definition df_pfcp_recv :: "pfcp_env \<Rightarrow> int \<Rightarrow> pfcp_msg \<Rightarrow> ogs_sockaddr \<Rightarrow> df_pfcp \<Rightarrow> (nat option \<times> df_pfcp) option" where
  "df_pfcp_recv env now msg src s = find_peer (df_pfcp_node_fsm_init env now) (pe_dns env) now msg src s"

text \<open>
  \<open>df_pfcp_handle_message\<close>: messages of the node level are handled, for the others the result is the transaction, from which the handlers of the sessions answer.
\<close>

definition df_pfcp_message :: "pfcp_env \<Rightarrow> int \<Rightarrow> nat \<Rightarrow> pfcp_msg \<Rightarrow> df_pfcp \<Rightarrow> (nat option \<times> df_pfcp) option" where
  "df_pfcp_message env now n msg s =
     do { (rv, x, mw) \<leftarrow> ogs_pfcp_xact_receive (pe_conf env) now n (pm_type msg) (pm_sqn msg) (c_xact s);
          let s = s\<lparr>c_xact := mw\<rparr>;
          if rv \<noteq> OGS_OK then Some (None, s)
          else if pm_type msg = OGS_PFCP_HEARTBEAT_REQUEST_TYPE then
            do { x \<leftarrow> x;
                 (_, s) \<leftarrow> ogs_pfcp_handle_heartbeat_request (pe_conf env) now n x (pm_recovery msg) (pe_heartbeat_response env) s;
                 Some (None, s) }
          else if pm_type msg = OGS_PFCP_HEARTBEAT_RESPONSE_TYPE then
            do { x \<leftarrow> x;
                 (_, s) \<leftarrow> ogs_pfcp_handle_heartbeat_response (pe_conf env) (pe_no_heartbeat_duration env) now n x (pm_recovery msg) s;
                 Some (None, s) }
          else if pm_type msg = OGS_PFCP_ASSOCIATION_SETUP_REQUEST_TYPE then
            do { x \<leftarrow> x;
                 (_, s) \<leftarrow> ogs_pfcp_up_handle_association_setup_request (pe_conf env) now x (pm_cp_features msg) (pe_association_response env) s;
                 Some (None, s) }
          else if pm_type msg = OGS_PFCP_ASSOCIATION_SETUP_RESPONSE_TYPE then
            do { x \<leftarrow> x;
                 (_, s) \<leftarrow> ogs_pfcp_up_handle_association_setup_response (pe_conf env) now x (pm_cp_features msg) s;
                 Some (None, s) }
          else Some (x, s) }"

text \<open>The responses of the sessions: \<open>df_pfcp_send_session_establishment_response\<close>, \<open>_modification_\<close> and \<open>_deletion_\<close>, which differ in type and body.\<close>

definition df_send_session_response :: "pfcp_env \<Rightarrow> int \<Rightarrow> nat \<Rightarrow> u8 \<Rightarrow> u64 \<Rightarrow> ogs_pkbuf option \<Rightarrow> df_pfcp \<Rightarrow> (status \<times> df_pfcp) option" where
  "df_send_session_response env now x type seid built s =
     (case built of
        None \<Rightarrow> Some (OGS_ERROR, s)
      | Some pkbuf \<Rightarrow>
          do { (rv, mw) \<leftarrow> ogs_pfcp_xact_update_tx x type seid pkbuf (c_xact s);
               if rv \<noteq> OGS_OK then Some (OGS_ERROR, s\<lparr>c_xact := mw\<rparr>)
               else do { (rv, mw) \<leftarrow> ogs_pfcp_xact_commit (pe_conf env) now x mw; Some (rv, s\<lparr>c_xact := mw\<rparr>) } })"

definition OGS_PFCP_SESSION_REPORT_REQUEST_TYPE :: u8 where "OGS_PFCP_SESSION_REPORT_REQUEST_TYPE = 56"

definition df_pfcp_send_session_report_request :: "pfcp_env \<Rightarrow> int \<Rightarrow> nat \<Rightarrow> u32 \<Rightarrow> u64 \<Rightarrow> ogs_pkbuf option \<Rightarrow> df_pfcp \<Rightarrow> (status \<times> df_pfcp) option" where
  "df_pfcp_send_session_report_request env now n i seid built s =
     do { (x, mw) \<leftarrow> ogs_pfcp_xact_local_create (pe_conf env) n (Some (SessTimeout i)) (c_xact s);
          df_send_session_response env now x OGS_PFCP_SESSION_REPORT_REQUEST_TYPE seid built (s\<lparr>c_xact := mw\<rparr>) }"

subsection \<open>Every history\<close>

definition df_will_associate_machine :: "df_pfcp_state ogs_fsm" where
  "df_will_associate_machine = \<lparr>init = Some DfPfcpInitial, fini = Some DfPfcpFinal, state = Some DfPfcpWillAssociate\<rparr>"

definition df_quiet :: "df_pfcp_state node_info \<Rightarrow> bool" where
  "df_quiet i \<longleftrightarrow> n_t_no_heartbeat i = None \<and> n_sm i \<in> {\<lparr>init = None, fini = None, state = None\<rparr>, df_will_associate_machine}"

definition df_pfcp_inv :: "nat \<Rightarrow> df_pfcp \<Rightarrow> bool" where
  "df_pfcp_inv nx s \<longleftrightarrow> peers_inv nx s \<and> (\<forall>n \<in> set (c_peer_list s). df_quiet (c_info s n))"

text \<open>
  A history: messages are received at any time, and handled, each with the node it was queued with, at any later time; nodes stay in the list. A response can only be
  sent on a transaction in use.
\<close>

inductive df_pfcp_run :: "pfcp_env \<Rightarrow> nat \<Rightarrow> df_pfcp \<Rightarrow> bool" for env :: pfcp_env and nx :: nat where
  init: "xact_run (pe_conf env) nx mw \<Longrightarrow> live (xpool (snd mw)) = {} \<Longrightarrow> pool_repr p fs \<Longrightarrow> live p = {} \<Longrightarrow>
    df_pfcp_run env nx \<lparr>c_node_pool = p, c_peer_list = [], c_info = infos, c_gtpu_free = num, c_cp_function_features = 0, c_xact = mw\<rparr>"
| config: "df_pfcp_run env nx s \<Longrightarrow> config_peer addr no4 no6 pf s = Some s' \<Longrightarrow> df_pfcp_run env nx s'"
| start: "df_pfcp_run env nx s \<Longrightarrow> n \<in> set (c_peer_list s) \<Longrightarrow> df_pfcp_node_fsm_init env now n s = Some s' \<Longrightarrow> df_pfcp_run env nx s'"
| stop: "df_pfcp_run env nx s \<Longrightarrow> n \<in> set (c_peer_list s) \<Longrightarrow> df_pfcp_node_fsm_fini env now n s = Some s' \<Longrightarrow> df_pfcp_run env nx s'"
| receive: "df_pfcp_run env nx s \<Longrightarrow> df_pfcp_recv env now msg src s = Some (r, s') \<Longrightarrow> df_pfcp_run env nx s'"
| handle: "df_pfcp_run env nx s \<Longrightarrow> n \<in> set (c_peer_list s) \<Longrightarrow> clock_ok (pe_conf env) now \<Longrightarrow> id (xpool (snd (c_xact s))) < OGS_MAX_POOL_ID \<Longrightarrow>
    df_pfcp_message env now n msg s = Some (r, s') \<Longrightarrow> df_pfcp_run env nx s'"
| respond: "df_pfcp_run env nx s \<Longrightarrow> k \<in> live (xpool (snd (c_xact s))) \<Longrightarrow> clock_ok (pe_conf env) now \<Longrightarrow>
    df_send_session_response env now k type seid built s = Some (rv, s') \<Longrightarrow> df_pfcp_run env nx s'"
| report: "df_pfcp_run env nx s \<Longrightarrow> n \<in> set (c_peer_list s) \<Longrightarrow> clock_ok (pe_conf env) now \<Longrightarrow> id (xpool (snd (c_xact s))) < OGS_MAX_POOL_ID \<Longrightarrow>
    df_pfcp_send_session_report_request env now n i seid built s = Some (rv, s') \<Longrightarrow> df_pfcp_run env nx s'"
| expire: "df_pfcp_run env nx s \<Longrightarrow> clock_ok (pe_conf env) now \<Longrightarrow> ogs_timer_mgr_expire (xact_timeout (pe_conf env) now) now (c_xact s) = Some mw \<Longrightarrow>
    df_pfcp_run env nx (s\<lparr>c_xact := mw\<rparr>)"


lemma df_invD:
  assumes "df_pfcp_inv nx s"
  shows "peers_inv nx s" "n \<in> set (c_peer_list s) \<Longrightarrow> df_quiet (c_info s n)" "xinv (set (c_peer_list s)) nx (fst (c_xact s)) (snd (c_xact s))"
  using assms peers_invD(5) unfolding df_pfcp_inv_def by blast+

lemma df_inv_xact:
  assumes "df_pfcp_inv nx s" "xinv (set (c_peer_list s)) nx (fst mw) (snd mw)"
  shows "df_pfcp_inv nx (s\<lparr>c_xact := mw\<rparr>)"
  using assms peers_inv_xact [OF df_invD(1) [OF assms(1)], of "fst mw" "snd mw"] unfolding df_pfcp_inv_def by simp

lemma df_inv_info:
  assumes "df_pfcp_inv nx s" "n \<in> set (c_peer_list s)" "n_node_id (f (c_info s n)) = n_node_id (c_info s n)" "df_quiet (f (c_info s n))"
  shows "df_pfcp_inv nx (upd_info n f s)"
proof -
  have "peers_inv nx (upd_info n f s)"
    using peers_inv_info [OF df_invD(1) [OF assms(1)], of f n] peers_invD(4) [OF df_invD(1) [OF assms(1)] assms(2)] assms(3) by simp
  moreover have "df_quiet (c_info (upd_info n f s) k)" if "k \<in> set (c_peer_list s)" for k using df_invD(2) [OF assms(1) that] assms(4) by simp
  ultimately show ?thesis by (simp add: df_pfcp_inv_def)
qed

lemma df_inv_features: "df_pfcp_inv nx s \<Longrightarrow> df_pfcp_inv nx (s\<lparr>c_cp_function_features := u\<rparr>)"
  by (simp add: df_pfcp_inv_def peers_inv_def)

lemma df_fsm_init_eq: "df_pfcp_node_fsm_init env now n s = Some (upd_info n (\<lambda>i. i\<lparr>n_sm := df_will_associate_machine\<rparr>) s)"
  by (simp add: df_pfcp_node_fsm_init_def ogs_fsm_init_def df_pfcp_state_initial_def OGS_FSM_TRAN_def fsm_entry_def df_pfcp_state_message_def node_fsm_event_def
      df_will_associate_machine_def DF_EVT_PFCP_MESSAGE_def OGS_FSM_ENTRY_SIG_def OGS_MAX_NUM_OF_PROTO_EVENT_def numeral_eq_Suc)

lemma df_fsm_init_inv:
  assumes "df_pfcp_inv nx s" "n \<in> set (c_peer_list s)"
  shows "df_pfcp_inv nx (upd_info n (\<lambda>i. i\<lparr>n_sm := df_will_associate_machine\<rparr>) s)"
  using df_invD(2) [OF assms] by (intro df_inv_info [OF assms]) (simp_all add: df_quiet_def)


lemma df_fsm_fini_eq:
  assumes "df_quiet (c_info s n)"
  shows "df_pfcp_node_fsm_fini env now n s = Some (upd_info n (\<lambda>i. i\<lparr>n_sm := \<lparr>init = None, fini = None, state = None\<rparr>\<rparr>) s)"
proof -
  consider "n_sm (c_info s n) = \<lparr>init = None, fini = None, state = None\<rparr>" | "n_sm (c_info s n) = df_will_associate_machine" using assms by (auto simp: df_quiet_def)
  then show ?thesis
    by cases (simp_all add: df_pfcp_node_fsm_fini_def ogs_fsm_fini_def df_will_associate_machine_def fsm_exit_def df_pfcp_state_message_def df_pfcp_state_idle_def
        node_fsm_event_def DF_EVT_PFCP_MESSAGE_def OGS_FSM_EXIT_SIG_def OGS_MAX_NUM_OF_PROTO_EVENT_def numeral_eq_Suc)
qed

lemma df_find_peer_inv:
  assumes inv: "df_pfcp_inv nx s" and d: "dns_ok (pe_dns env)"
  shows "\<exists>p s'. df_pfcp_recv env now msg src s = Some (p, s') \<and> df_pfcp_inv nx s' \<and> (\<forall>n. p = Some n \<longrightarrow> n \<in> set (c_peer_list s')) \<and> fst (c_xact s') = fst (c_xact s)
    \<and> xpool (snd (c_xact s')) = xpool (snd (c_xact s)) \<and> xouts (snd (c_xact s')) = xouts (snd (c_xact s)) \<and> set (c_peer_list s) \<subseteq> set (c_peer_list s')"
proof -
  obtain st j where x: "ogs_pfcp_extract_node_id (pm_type msg) (pm_node_id msg) = (st, j)" by (cases "ogs_pfcp_extract_node_id (pm_type msg) (pm_node_id msg)")
  define wid where "wid = (if st = OGS_PFCP_STATUS_SUCCESS then Some j else None)"
  have wid: "\<forall>j. wid = Some j \<longrightarrow> id_wf j \<and> ni_known j" using extract_success x by (auto simp: wid_def)
  show ?thesis
  proof (cases "st \<noteq> OGS_PFCP_STATUS_SUCCESS \<and> st \<noteq> OGS_PFCP_STATUS_NODE_ID_NONE \<and> st \<noteq> OGS_PFCP_STATUS_NODE_ID_OPTIONAL_ABSENT")
    case True then show ?thesis using inv by (simp add: df_pfcp_recv_def find_peer_def x)
  next
    case known: False
    obtain q where q: "ogs_pfcp_node_find wid (Some src) s = Some q" "\<forall>m. q = Some m \<longrightarrow> m \<in> set (c_peer_list s)"
      using node_find_ok [of wid src s "c_peer_list s"] wid by (auto simp: ogs_pfcp_node_find_def)
    have eq: "df_pfcp_recv env now msg src s = (case q of
        Some n \<Rightarrow> do { (_, s) \<leftarrow> ogs_pfcp_node_merge (pe_dns env) now n wid (Some src) s; Some (Some n, s) }
      | None \<Rightarrow>
          if pm_type msg = OGS_PFCP_ASSOCIATION_SETUP_REQUEST_TYPE \<or> pm_type msg = OGS_PFCP_ASSOCIATION_SETUP_RESPONSE_TYPE then
            do { ogs_assert (st = OGS_PFCP_STATUS_SUCCESS);
                 (y, s) \<leftarrow> ogs_pfcp_node_add (pe_dns env) now j src s;
                 case y of None \<Rightarrow> Some (None, s) | Some n \<Rightarrow> do { s \<leftarrow> df_pfcp_node_fsm_init env now n s; Some (Some n, s) } }
          else Some (None, s))"
      using known q(1) by (cases "st = OGS_PFCP_STATUS_SUCCESS") (auto simp: df_pfcp_recv_def find_peer_def x wid_def cong: option.case_cong)
    show ?thesis
    proof (cases q)
      case (Some m)
      then have m: "m \<in> set (c_peer_list s)" using q(2) by simp
      obtain rv x' p where r: "ogs_pfcp_node_merge (pe_dns env) now m wid (Some src) s = Some (rv, set_node m x' p s)" "peers_inv nx (set_node m x' p s)"
        "n_sm x' = n_sm (c_info s m)" "n_t_no_heartbeat x' = n_t_no_heartbeat (c_info s m)"
        using merge_peer_ok [OF df_invD(1) [OF inv] m wid d, of now src] by blast
      have "df_quiet (c_info (set_node m x' p s) k)" if "k \<in> set (c_peer_list s)" for k
        using df_invD(2) [OF inv that] r(3,4) by (cases "k = m") (simp_all add: df_quiet_def)
      then have "df_pfcp_inv nx (set_node m x' p s)" using r(2) by (simp add: df_pfcp_inv_def)
      then show ?thesis using eq Some r(1) m by (intro exI [of _ "Some m"] exI [of _ "set_node m x' p s"]) simp
    next
      case None
      show ?thesis
      proof (cases "pm_type msg = OGS_PFCP_ASSOCIATION_SETUP_REQUEST_TYPE \<or> pm_type msg = OGS_PFCP_ASSOCIATION_SETUP_RESPONSE_TYPE")
        case False then show ?thesis using eq None inv by simp
      next
        case True
        then have "st = OGS_PFCP_STATUS_SUCCESS" using known x by (auto simp: ogs_pfcp_extract_node_id_def node_id_requirement_def pfcp_const_defs Let_def split: option.splits if_splits)
        then have j: "id_wf j" "ni_known j" using wid by (simp_all add: wid_def)
        obtain y s1 where a: "ogs_pfcp_node_add (pe_dns env) now j src s = Some (y, s1)" "peers_inv nx s1" "fst (c_xact s1) = fst (c_xact s)"
          "xouts (snd (c_xact s1)) = xouts (snd (c_xact s))" "xpool (snd (c_xact s1)) = xpool (snd (c_xact s))" "\<forall>k \<in> set (c_peer_list s). c_info s1 k = c_info s k"
          "case y of None \<Rightarrow> c_peer_list s1 = c_peer_list s | Some n \<Rightarrow> c_peer_list s1 = c_peer_list s @ [n] \<and> df_quiet (c_info s1 n)"
          using node_add_ok [OF df_invD(1) [OF inv] j d, of now src] by (fastforce simp: df_quiet_def split: option.splits)
        have "df_quiet (c_info s1 k)" if "k \<in> set (c_peer_list s1)" for k
          using that a(6,7) df_invD(2) [OF inv] by (cases y) auto
        then have i1: "df_pfcp_inv nx s1" using a(2) by (simp add: df_pfcp_inv_def)
        show ?thesis
        proof (cases y)
          case no: None then show ?thesis using eq None True a i1 \<open>st = OGS_PFCP_STATUS_SUCCESS\<close> by (simp add: ogs_assert_def)
        next
          case (Some n)
          then have n: "n \<in> set (c_peer_list s1)" "set (c_peer_list s) \<subseteq> set (c_peer_list s1)" using a(7) by auto
          show ?thesis using eq None True a(1,3-5) df_fsm_init_inv [OF i1 n(1)] n Some \<open>st = OGS_PFCP_STATUS_SUCCESS\<close>
            by (intro exI [of _ "Some n"] exI [of _ "upd_info n (\<lambda>i. i\<lparr>n_sm := df_will_associate_machine\<rparr>) s1"]) (simp add: ogs_assert_def df_fsm_init_eq)
        qed
      qed
    qed
  qed
qed


lemma df_message_inv:
  assumes inv: "df_pfcp_inv nx s" and n: "n \<in> set (c_peer_list s)" and c: "clock_ok (pe_conf env) now" and i: "id (xpool (snd (c_xact s))) < OGS_MAX_POOL_ID"
    and r: "df_pfcp_message env now n msg s = Some (o', s')"
  shows "df_pfcp_inv nx s'"
proof -
  obtain rv x mw where x: "ogs_pfcp_xact_receive (pe_conf env) now n (pm_type msg) (pm_sqn msg) (c_xact s) = Some (rv, x, mw)"
    using r by (auto simp: df_pfcp_message_def bind_eq_Some_conv)
  have x': "ogs_pfcp_xact_receive (pe_conf env) now n (pm_type msg) (pm_sqn msg) (fst (c_xact s), snd (c_xact s)) = Some (rv, x, (fst mw, snd mw))" using x by simp
  have xi: "xinv (set (c_peer_list s)) nx (fst mw) (snd mw)" using receive_inv [OF df_invD(3) [OF inv] c i x' n] .
  define s2 where "s2 = s\<lparr>c_xact := mw\<rparr>"
  have 2: "df_pfcp_inv nx s2" "c_peer_list s2 = c_peer_list s" "c_xact s2 = mw" "n \<in> set (c_peer_list s2)" using df_inv_xact [OF inv xi] n by (simp_all add: s2_def)
  show ?thesis
  proof (cases "rv = OGS_OK")
    case False then show ?thesis using r x 2(1) by (simp add: df_pfcp_message_def s2_def)
  next
    case True
    obtain k where k: "x = Some k" "k \<in> live (xpool (snd mw))" using receive_passed [OF df_invD(3) [OF inv] c i n x [unfolded True]] by blast
    note commit = df_inv_xact [OF 2(1) commit_inv [OF df_invD(3) [OF 2(1), unfolded 2(3)] k(2) c]]
    consider (hreq) rv' where "ogs_pfcp_handle_heartbeat_request (pe_conf env) now n k (pm_recovery msg) (pe_heartbeat_response env) s2 = Some (rv', s')"
      | (hrsp) rv' where "ogs_pfcp_handle_heartbeat_response (pe_conf env) (pe_no_heartbeat_duration env) now n k (pm_recovery msg) s2 = Some (rv', s')"
      | (areq) rv' where "ogs_pfcp_up_handle_association_setup_request (pe_conf env) now k (pm_cp_features msg) (pe_association_response env) s2 = Some (rv', s')"
      | (arsp) rv' where "ogs_pfcp_up_handle_association_setup_response (pe_conf env) now k (pm_cp_features msg) s2 = Some (rv', s')"
      | (other) "s' = s2"
      using r x True k(1) by (auto simp: df_pfcp_message_def s2_def bind_eq_Some_conv Let_def split: if_splits)
    then show ?thesis
    proof cases
      case hreq
      show ?thesis
      proof (cases "pm_recovery msg")
        case None then show ?thesis using hreq 2(1) by (simp add: ogs_pfcp_handle_heartbeat_request_def)
      next
        case (Some ts)
        have q: "df_quiet (c_info s2 n)" using df_invD(2) [OF 2(1,4)] .
        have nr: "df_pfcp_inv nx (note_recovery n ts s2)" unfolding note_recovery_def using q by (intro df_inv_info [OF 2(1,4)]) (simp_all add: df_quiet_def)
        obtain mw' where m: "ogs_pfcp_send_heartbeat_response (pe_conf env) now k (pe_heartbeat_response env) mw = Some mw'" "s' = (note_recovery n ts s2)\<lparr>c_xact := snd mw'\<rparr>"
          using hreq Some 2(3) by (auto simp: ogs_pfcp_handle_heartbeat_request_def bind_eq_Some_conv lift_xact_eq note_recovery_def)
        have "xinv (set (c_peer_list s2)) nx (fst (snd mw')) (snd (snd mw'))"
          using send_response_inv(2) [OF df_invD(3) [OF 2(1), unfolded 2(3)] k(2) c, of _ "fst mw'" "snd mw'"] m(1) by simp
        then show ?thesis unfolding m(2) by (intro df_inv_xact [OF nr]) (simp add: note_recovery_def)
      qed
    next
      case hrsp
      then obtain rv1 mw' where m: "ogs_pfcp_xact_commit (pe_conf env) now k mw = Some (rv1, mw')"
        "(case pm_recovery msg of None \<Rightarrow> Some (False, s2\<lparr>c_xact := mw'\<rparr>)
          | Some ts \<Rightarrow> do { let s = note_recovery n ts (s2\<lparr>c_xact := mw'\<rparr>); t \<leftarrow> n_t_no_heartbeat (c_info s n);
              m \<leftarrow> ogs_timer_start t (pe_no_heartbeat_duration env) now (fst (c_xact s)); Some (True, s\<lparr>c_xact := (m, snd (c_xact s))\<rparr>) }) = Some (rv', s')"
        by (auto simp: ogs_pfcp_handle_heartbeat_response_def bind_eq_Some_conv lift_xact_eq 2(3))
      have "n_t_no_heartbeat (c_info s2 n) = None" using df_invD(2) [OF 2(1,4)] by (simp add: df_quiet_def)
      then have "pm_recovery msg = None" using m(2) by (auto simp: Let_def split: option.splits)
      then show ?thesis using m commit by simp
    next
      case areq
      then obtain rv1 mw' where m: "send_node_response OGS_PFCP_ASSOCIATION_SETUP_RESPONSE_TYPE (pe_conf env) now k (pe_association_response env) mw = Some (rv1, mw')"
        "s' = (case pm_cp_features msg of Some u \<Rightarrow> s2\<lparr>c_xact := mw', c_cp_function_features := u\<rparr> | None \<Rightarrow> s2\<lparr>c_xact := mw'\<rparr>)"
        by (auto simp: ogs_pfcp_up_handle_association_setup_request_def ogs_pfcp_up_send_association_setup_response_def bind_eq_Some_conv lift_xact_eq 2(3) split: option.splits)
      have "df_pfcp_inv nx (s2\<lparr>c_xact := mw'\<rparr>)"
        using send_response_inv(1) [OF df_invD(3) [OF 2(1), unfolded 2(3)] k(2) c m(1)] by (intro df_inv_xact [OF 2(1)])
      then show ?thesis using m(2) df_inv_features [of nx "s2\<lparr>c_xact := mw'\<rparr>"] by (simp split: option.split)
    next
      case arsp
      then obtain rv1 mw' where m: "ogs_pfcp_xact_commit (pe_conf env) now k mw = Some (rv1, mw')"
        "s' = (case pm_cp_features msg of Some u \<Rightarrow> s2\<lparr>c_xact := mw', c_cp_function_features := u\<rparr> | None \<Rightarrow> s2\<lparr>c_xact := mw'\<rparr>)"
        by (auto simp: ogs_pfcp_up_handle_association_setup_response_def bind_eq_Some_conv lift_xact_eq 2(3) split: option.splits)
      show ?thesis using m(2) commit [OF m(1)] df_inv_features [of nx "s2\<lparr>c_xact := mw'\<rparr>"] by (simp split: option.split)
    next
      case other then show ?thesis using 2(1) by simp
    qed
  qed
qed

lemma df_respond_inv:
  assumes inv: "df_pfcp_inv nx s" and k: "k \<in> live (xpool (snd (c_xact s)))" and c: "clock_ok (pe_conf env) now"
    and r: "df_send_session_response env now k type seid built s = Some (rv, s')"
  shows "df_pfcp_inv nx s'"
proof (cases built)
  case None then show ?thesis using r inv by (simp add: df_send_session_response_def)
next
  case (Some pk)
  then obtain r1 mw1 where u: "ogs_pfcp_xact_update_tx k type seid pk (c_xact s) = Some (r1, mw1)" using r by (auto simp: df_send_session_response_def bind_eq_Some_conv)
  show ?thesis
  proof (cases "r1 = OGS_OK")
    case False then show ?thesis using r Some u status_cases [OF False u] inv by (simp add: df_send_session_response_def)
  next
    case True
    obtain rv2 mw2 where 2: "ogs_pfcp_xact_commit (pe_conf env) now k mw1 = Some (rv2, mw2)" "s' = s\<lparr>c_xact := mw2\<rparr>"
      using r Some u True by (auto simp: df_send_session_response_def bind_eq_Some_conv)
    have 1: "xinv (set (c_peer_list s)) nx (fst mw1) (snd mw1)" "k \<in> live (xpool (snd mw1))"
      using update_tx_inv [OF df_invD(3) [OF inv] k u] k u by simp_all
    show ?thesis unfolding 2(2) using commit_inv [OF 1 c 2(1)] by (rule df_inv_xact [OF inv])
  qed
qed


lemma df_report_inv:
  assumes inv: "df_pfcp_inv nx s" and n: "n \<in> set (c_peer_list s)" and c: "clock_ok (pe_conf env) now" and i: "id (xpool (snd (c_xact s))) < OGS_MAX_POOL_ID"
    and r: "df_pfcp_send_session_report_request env now n j seid built s = Some (rv, s')"
  shows "df_pfcp_inv nx s'"
proof -
  obtain k mw where k: "ogs_pfcp_xact_local_create (pe_conf env) n (Some (SessTimeout j)) (fst (c_xact s), snd (c_xact s)) = Some (k, (fst mw, snd mw))"
    "df_send_session_response env now k OGS_PFCP_SESSION_REPORT_REQUEST_TYPE seid built (s\<lparr>c_xact := mw\<rparr>) = Some (rv, s')"
    using r by (auto simp: df_pfcp_send_session_report_request_def bind_eq_Some_conv)
  note l = local_create_ok(1,3) [OF df_invD(3) [OF inv] i k(1) n]
  have "k \<in> live (xpool (snd (c_xact (s\<lparr>c_xact := mw\<rparr>))))" using l(2) by simp
  from df_respond_inv [OF df_inv_xact [OF inv l(1)] this c k(2)] show ?thesis .
qed

lemma df_pfcp_run_inv:
  assumes "df_pfcp_run env nx s" "dns_ok (pe_dns env)"
  shows "df_pfcp_inv nx s"
  using assms(1)
proof (induction rule: df_pfcp_run.induct)
  case (init mw p fs infos num)
  have x: "xinv UNIV nx (fst mw) (snd mw)" using xact_run_inv [OF init(1)] .
  have "xinv {} nx (fst mw) (snd mw)" by (rule xinv_subset [OF x]) (simp_all add: init(2))
  then show ?case using init(3,4) by (auto simp: df_pfcp_inv_def peers_inv_def)
next
  case (config s addr no4 no6 pf s')
  note k = config_peer_ok [OF df_invD(1) [OF config.IH] config.hyps(2)]
  have "df_quiet (c_info s' n)" if "n \<in> set (c_peer_list s')" for n
    using k(5,7) that df_invD(2) [OF config.IH] by (cases "n \<in> set (c_peer_list s)") (auto simp: df_quiet_def zero_node_info_def)
  then show ?case using k(1) by (simp add: df_pfcp_inv_def)
next
  case (start s n now s') then show ?case using df_fsm_init_inv [OF start.IH start.hyps(2)] by (simp add: df_fsm_init_eq)
next
  case (stop s n now s')
  note q = df_invD(2) [OF stop.IH stop.hyps(2)]
  have "df_pfcp_inv nx (upd_info n (\<lambda>i. i\<lparr>n_sm := \<lparr>init = None, fini = None, state = None\<rparr>\<rparr>) s)"
    using q by (intro df_inv_info [OF stop.IH stop.hyps(2)]) (simp_all add: df_quiet_def)
  then show ?case using stop.hyps(3) df_fsm_fini_eq [OF q, of env now] by simp
next
  case (receive s now msg src r s') then show ?case using df_find_peer_inv [OF receive.IH assms(2), of now msg src] by auto
next
  case (handle s n now msg r s') then show ?case using df_message_inv by blast
next
  case (respond s k now type seid built rv s') then show ?case using df_respond_inv by blast
next
  case (report s n now i seid built rv s') then show ?case using df_report_inv by blast
next
  case (expire s now mw)
  then obtain m' w' where "mw = (m', w')" "xinv (set (c_peer_list s)) nx m' w'"
    using xact_expire_ok [OF df_invD(3) [OF expire.IH], of "pe_conf env" now] by auto
  then show ?case using df_inv_xact [OF expire.IH] by simp
qed

subsection \<open>Properties\<close>

text \<open>C12. In every history of the DF, however receptions, handling, answers, reports and timeouts follow each other, the nodes are the peers, each with an
  address, every transaction belongs to a peer and has exactly its three timers, and every datagram that can be parsed is received without an abort; the machine of a node never
  gets beyond waiting.\<close>

theorem df_pfcp_histories:
  assumes "df_pfcp_run env nx s" "dns_ok (pe_dns env)"
  shows "distinct (c_peer_list s) \<and> live (c_node_pool s) = set (c_peer_list s) \<and> (\<forall>n \<in> set (c_peer_list s). addr_list (node_of s n) \<noteq> [])
    \<and> (\<forall>k \<in> live (xpool (snd (c_xact s))). x_node (xacts (snd (c_xact s)) k) \<in> set (c_peer_list s))
    \<and> card (live (m_pool (fst (c_xact s)))) = 3 * card (live (xpool (snd (c_xact s))))
    \<and> (\<forall>n \<in> set (c_peer_list s). df_quiet (c_info s n))
    \<and> (\<forall>now msg src. \<exists>r s'. df_pfcp_recv env now msg src s = Some (r, s') \<and> df_pfcp_run env nx s' \<and> (r = None \<or> the r \<in> set (c_peer_list s')))"
proof -
  note inv = df_pfcp_run_inv [OF assms]
  have "\<exists>r s'. df_pfcp_recv env now msg src s = Some (r, s') \<and> df_pfcp_run env nx s' \<and> (r = None \<or> the r \<in> set (c_peer_list s'))" for now msg src
  proof -
    obtain r s' where r: "df_pfcp_recv env now msg src s = Some (r, s')" "\<forall>n. r = Some n \<longrightarrow> n \<in> set (c_peer_list s')"
      using df_find_peer_inv [OF inv assms(2), of now msg src] by blast
    then show ?thesis using df_pfcp_run.receive [OF assms(1) r(1)] by (cases r) auto
  qed
  moreover have "addr_list (node_of s n) \<noteq> []" if "n \<in> set (c_peer_list s)" for n
    using peers_invD(6) [OF df_invD(1) [OF inv] that] by (simp add: node_ok_def)
  ultimately show ?thesis using peers_invD(1,3) [OF df_invD(1) [OF inv]] xinvD(9) [OF df_invD(3) [OF inv]] run_timers(2) [OF df_invD(3) [OF inv]] df_invD(2) [OF inv]
    by blast
qed


subsection \<open>The association of the DSMF with the DF\<close>

lemma association_stages:
  "ogs_pfcp_xact_get_stage OGS_PFCP_ASSOCIATION_SETUP_REQUEST_TYPE = PFCP_XACT_INITIAL_STAGE"
  "ogs_pfcp_xact_get_stage OGS_PFCP_ASSOCIATION_SETUP_RESPONSE_TYPE = PFCP_XACT_FINAL_STAGE"
  "pfcp_hlen OGS_PFCP_ASSOCIATION_SETUP_RESPONSE_TYPE = 8"
  by (simp_all add: ogs_pfcp_xact_get_stage_def pfcp_hlen_def pfcp_const_defs)

text \<open>The DF answers a new association request of a peer.\<close>

lemma df_answers_association:
  assumes inv: "df_pfcp_inv nx t" and n: "n \<in> set (c_peer_list t)" and ty: "pm_type req = OGS_PFCP_ASSOCIATION_SETUP_REQUEST_TYPE"
    and new: "\<forall>k \<in> set (remote_list (node_of t n)). x_xid (xacts (snd (c_xact t)) k) \<noteq> OGS_PFCP_SQN_TO_XID (pm_sqn req)"
    and i: "id (xpool (snd (c_xact t))) < OGS_MAX_POOL_ID" and room: "1 \<le> avail (xpool (snd (c_xact t)))" "3 \<le> avail (m_pool (fst (c_xact t)))"
    and c: "clock_ok (pe_conf env) now" "\<forall>a. has_sock (pe_conf env) a" and pk: "pe_association_response env = Some pk" "pkbuf_ok pk" "8 \<le> ogs_pkbuf_headroom pk"
  shows "\<exists>t' a. df_pfcp_message env now n req t = Some (None, t') \<and> xouts (snd (c_xact t')) = xouts (snd (c_xact t))
      @ [SentTo n a (pfcp_header OGS_PFCP_ASSOCIATION_SETUP_RESPONSE_TYPE 0 (OGS_PFCP_SQN_TO_XID (pm_sqn req)) (of_nat (4 + pk_len pk)) @ contents pk)]
    \<and> (case pm_cp_features req of Some u \<Rightarrow> c_cp_function_features t' = u | None \<Rightarrow> c_cp_function_features t' = c_cp_function_features t)"
proof -
  obtain m w where mw: "c_xact t = (m, w)" by (cases "c_xact t")
  note x = df_invD(3) [OF inv, unfolded mw fst_conv snd_conv]
  have st: "ogs_pfcp_xact_get_stage (pm_type req) = PFCP_XACT_INITIAL_STAGE" by (simp add: ty association_stages)
  obtain k m1 w1 where 1: "ogs_pfcp_xact_receive (pe_conf env) now n (pm_type req) (pm_sqn req) (m, w) = Some (OGS_OK, Some k, (m1, w1))"
    "xinv (set (c_peer_list t)) nx m1 w1" "live (xpool w1) = insert k (live (xpool w))" "x_org (xacts w1 k) = OGS_PFCP_REMOTE_ORIGINATOR" "x_step (xacts w1 k) = 1"
    "x_xid (xacts w1 k) = OGS_PFCP_SQN_TO_XID (pm_sqn req)" "x_node (xacts w1 k) = n" "xouts w1 = xouts w"
    using receive_request_ok [OF x c(1) st _ _ _ _ n, of "pm_sqn req"] new i room by (auto simp: mw)
  have k: "k \<in> live (xpool w1)" using 1(3) by simp
  obtain w2 w3 a where 2: "ogs_pfcp_xact_update_tx k OGS_PFCP_ASSOCIATION_SETUP_RESPONSE_TYPE 0 pk (m1, w1) = Some (OGS_OK, (m1, w2))"
    "ogs_pfcp_xact_commit (pe_conf env) now k (m1, w2) = Some (OGS_OK, (m1, w3))"
    "xouts w3 = xouts w @ [SentTo n a (pfcp_header OGS_PFCP_ASSOCIATION_SETUP_RESPONSE_TYPE 0 (OGS_PFCP_SQN_TO_XID (pm_sqn req)) (of_nat (4 + pk_len pk)) @ contents pk)]"
    using respond_ok [OF 1(2) k 1(4,5) association_stages(2) pk(2) _ c(2), of 0 now] pk(3) by (auto simp: 1(6-8) association_stages(3))
  have h: "ogs_pfcp_up_handle_association_setup_request (pe_conf env) now k (pm_cp_features req) (pe_association_response env) (t\<lparr>c_xact := (m1, w1)\<rparr>)
      = Some (True, case pm_cp_features req of Some u \<Rightarrow> t\<lparr>c_xact := (m1, w3), c_cp_function_features := u\<rparr> | None \<Rightarrow> t\<lparr>c_xact := (m1, w3)\<rparr>)"
    using 2(1,2) by (simp add: ogs_pfcp_up_handle_association_setup_request_def ogs_pfcp_up_send_association_setup_response_def lift_xact_def send_node_response_def pk(1) split: option.split)
  have "df_pfcp_message env now n req t
      = Some (None, case pm_cp_features req of Some u \<Rightarrow> t\<lparr>c_xact := (m1, w3), c_cp_function_features := u\<rparr> | None \<Rightarrow> t\<lparr>c_xact := (m1, w3)\<rparr>)"
    using 1(1) h by (simp add: df_pfcp_message_def mw ty pfcp_const_defs Let_def)
  then show ?thesis using 2(3) by (simp add: mw split: option.split)
qed

text \<open>The DSMF accepts the answer, when it announces no resource.\<close>

lemma dsmf_completes_association:
  assumes inv: "dsmf_pfcp_inv nx s" and d: "dns_ok (pe_dns env)" and ty: "pm_type msg = OGS_PFCP_ASSOCIATION_SETUP_RESPONSE_TYPE"
    and id: "fst (ogs_pfcp_extract_node_id (pm_type msg) (pm_node_id msg)) = OGS_PFCP_STATUS_SUCCESS" and f: "ogs_pfcp_node_find (lookup_id msg) (Some src) s = Some (Some n)"
    and x: "find (\<lambda>k. x_xid (xacts (snd (c_xact s)) k) = OGS_PFCP_SQN_TO_XID (pm_sqn msg)) (local_list (node_of s n)) = Some k" "x_step (xacts (snd (c_xact s)) k) = 1"
    and rs: "pm_resources msg = []"
  shows "\<exists>s'. pfcp_recv_cb env now msg src s = Some (RecvHandled, s') \<and> live (xpool (snd (c_xact s'))) = live (xpool (snd (c_xact s))) - {k}
    \<and> xouts (snd (c_xact s')) = xouts (snd (c_xact s)) \<and> c_peer_list s' = c_peer_list s"
proof -
  obtain s1 where 1: "find_peer (pfcp_node_fsm_init env now False) (pe_dns env) now msg src s = Some (Some n, s1)" "dsmf_pfcp_inv nx s1" "c_peer_list s1 = c_peer_list s"
    "xacts (snd (c_xact s1)) = xacts (snd (c_xact s))" "local_list (node_of s1 n) = local_list (node_of s n)" "xpool (snd (c_xact s1)) = xpool (snd (c_xact s))"
    "xouts (snd (c_xact s1)) = xouts (snd (c_xact s))"
    using find_peer_known(2) [OF inv d _ f] id by (metis insertI1)
  have st: "ogs_pfcp_xact_get_stage (pm_type msg) = PFCP_XACT_FINAL_STAGE" by (simp add: ty association_stages)
  obtain m1 w1 m2 w2 where r: "ogs_pfcp_xact_receive (pe_conf env) now n (pm_type msg) (pm_sqn msg) (c_xact s1) = Some (OGS_OK, Some k, (m1, w1))"
    "ogs_pfcp_xact_commit (pe_conf env) now k (m1, w1) = Some (OGS_OK, (m2, w2))" "xouts w2 = xouts (snd (c_xact s1))" "live (xpool w2) = live (xpool (snd (c_xact s1))) - {k}"
    using response_complete_ok [OF dsmf_invD(4) [OF 1(2)] st, of "pm_sqn msg" n k "pe_conf env" now now] x 1(4,5) by auto
  let ?s2 = "store_features n (pm_up_features msg) (ogs_gtpu_resource_remove_all n (s1\<lparr>c_xact := (m2, w2)\<rparr>))"
  have "ogs_pfcp_cp_handle_association_setup_response (pe_conf env) now n k (pm_resources msg) (pm_up_features msg) (s1\<lparr>c_xact := (m1, w1)\<rparr>) = Some (True, ?s2)"
    using r(2) by (simp add: ogs_pfcp_cp_handle_association_setup_response_def lift_xact_def store_association_def rs)
  then have "pfcp_recv_cb env now msg src s = Some (RecvHandled, ?s2)" using r(1) by (simp add: pfcp_recv_cb_def 1(1) ty pfcp_const_defs Let_def)
  moreover have "c_xact ?s2 = (m2, w2)" "c_peer_list ?s2 = c_peer_list s"
    by (simp_all add: store_features_def ogs_gtpu_resource_remove_all_def 1(3) split: option.split)
  ultimately show ?thesis using r(3,4) 1(6,7) by simp
qed

text \<open>C4. The association that the DSMF asks the DF for comes about: when the DF handles the request of a waiting transaction, under the sequence number of that request, it sends one
  response to the DSMF, whose header gives the type, and the sequence number of the waiting transaction; as soon as the DSMF receives from the DF's address a message with these two, the
  transaction is released and nothing more is sent. If the message announces a user plane resource that can be decoded, the DSMF aborts instead.\<close>

theorem dsmf_df_association:
  assumes "dsmf_pfcp_run cp nx s" "dns_ok (pe_dns cp)" "df_pfcp_run up ny t" "dns_ok (pe_dns up)"
    and waits: "find (\<lambda>l. x_xid (xacts (snd (c_xact s)) l) = x_xid (xacts (snd (c_xact s)) k)) (local_list (node_of s d)) = Some k" "x_step (xacts (snd (c_xact s)) k) = 1"
    and req: "n \<in> set (c_peer_list t)" "pm_type req = OGS_PFCP_ASSOCIATION_SETUP_REQUEST_TYPE" "pm_sqn req = OGS_PFCP_XID_TO_SQN (x_xid (xacts (snd (c_xact s)) k))"
      "\<forall>l \<in> set (remote_list (node_of t n)). x_xid (xacts (snd (c_xact t)) l) \<noteq> x_xid (xacts (snd (c_xact s)) k)"
    and df: "id (xpool (snd (c_xact t))) < OGS_MAX_POOL_ID" "1 \<le> avail (xpool (snd (c_xact t)))" "3 \<le> avail (m_pool (fst (c_xact t)))"
      "clock_ok (pe_conf up) now" "\<forall>a. has_sock (pe_conf up) a" "pe_association_response up = Some pk" "pkbuf_ok pk" "8 \<le> ogs_pkbuf_headroom pk"
  shows "\<exists>t' a b. df_pfcp_message up now n req t = Some (None, t') \<and> xouts (snd (c_xact t')) = xouts (snd (c_xact t)) @ [SentTo n a b]
    \<and> b ! 1 = OGS_PFCP_ASSOCIATION_SETUP_RESPONSE_TYPE \<and> drop 8 b = contents pk
    \<and> (\<forall>later src rsp. pm_type rsp = b ! 1 \<and> pm_sqn rsp = take 4 (drop 4 b) \<and> ogs_pfcp_node_find (lookup_id rsp) (Some src) s = Some (Some d)
          \<and> fst (ogs_pfcp_extract_node_id (pm_type rsp) (pm_node_id rsp)) = OGS_PFCP_STATUS_SUCCESS \<longrightarrow>
        (pm_resources rsp = [] \<longrightarrow> (\<exists>s'. pfcp_recv_cb cp later rsp src s = Some (RecvHandled, s') \<and> live (xpool (snd (c_xact s'))) = live (xpool (snd (c_xact s))) - {k}
            \<and> xouts (snd (c_xact s')) = xouts (snd (c_xact s))))
        \<and> (fatal_response rsp \<longrightarrow> pfcp_recv_cb cp later rsp src s = None))"
proof -
  note cinv = dsmf_pfcp_run_inv [OF assms(1,2)] and uinv = df_pfcp_run_inv [OF assms(3,4)]
  let ?xid = "x_xid (xacts (snd (c_xact s)) k)" and ?ty = OGS_PFCP_ASSOCIATION_SETUP_RESPONSE_TYPE
  have "k \<in> live (xpool (snd (c_xact s)))" using find_in [OF waits(1)] lists_okD(1) [OF dsmf_invD(4) [OF cinv]] by blast
  then have "?xid < 2 ^ 24" using xinvD(7) [OF dsmf_invD(4) [OF cinv]] by (simp add: xshape_def)
  then have q: "OGS_PFCP_SQN_TO_XID (OGS_PFCP_XID_TO_SQN ?xid) = ?xid" by (rule xid_round_trip)
  obtain t' a where a: "df_pfcp_message up now n req t = Some (None, t')"
    "xouts (snd (c_xact t')) = xouts (snd (c_xact t)) @ [SentTo n a (pfcp_header ?ty 0 ?xid (of_nat (4 + pk_len pk)) @ contents pk)]"
    using df_answers_association [OF uinv req(1,2) _ df] req(3,4) q by auto
  define b where "b = pfcp_header ?ty 0 ?xid (of_nat (4 + pk_len pk)) @ contents pk"
  have l: "length (OGS_PFCP_XID_TO_SQN ?xid) = 4" by (simp add: OGS_PFCP_XID_TO_SQN_def)
  have b: "b ! 1 = ?ty" "take 4 (drop 4 b) = OGS_PFCP_XID_TO_SQN ?xid" "drop 8 b = contents pk"
    using l by (simp_all add: b_def pfcp_header_def pfcp_const_defs be16_def)
  have "(pm_resources rsp = [] \<longrightarrow> (\<exists>s'. pfcp_recv_cb cp later rsp src s = Some (RecvHandled, s') \<and> live (xpool (snd (c_xact s'))) = live (xpool (snd (c_xact s))) - {k}
            \<and> xouts (snd (c_xact s')) = xouts (snd (c_xact s)))) \<and> (fatal_response rsp \<longrightarrow> pfcp_recv_cb cp later rsp src s = None)"
    if h: "pm_type rsp = b ! 1" "pm_sqn rsp = take 4 (drop 4 b)" "ogs_pfcp_node_find (lookup_id rsp) (Some src) s = Some (Some d)"
      "fst (ogs_pfcp_extract_node_id (pm_type rsp) (pm_node_id rsp)) = OGS_PFCP_STATUS_SUCCESS" for later src rsp
  proof -
    have "OGS_PFCP_SQN_TO_XID (pm_sqn rsp) = ?xid" using h(2) b(2) q by simp
    then have f: "find (\<lambda>l. x_xid (xacts (snd (c_xact s)) l) = OGS_PFCP_SQN_TO_XID (pm_sqn rsp)) (local_list (node_of s d)) = Some k" using waits(1) by simp
    have ty: "pm_type rsp = ?ty" using h(1) b(1) by simp
    show ?thesis using dsmf_completes_association [OF cinv assms(2) ty h(4,3) f waits(2)] response_aborts [OF cinv assms(2) _ h(3) f waits(2)] by blast
  qed
  then show ?thesis using a b(1,3) unfolding b_def by blast
qed


text \<open>A DF with one configured peer.\<close>

definition sample_df_xacts :: "df_cb pfcp_xacts" where
  "sample_df_xacts = ogs_pfcp_xact_init 2 [0, 0] 5 (\<lambda>_. \<lparr>x_index = 0, x_org = 0, x_xid = 0, x_node = 0, x_cb = None, x_step = 0, x_seq = [],
     x_tm_response = None, x_response_rcount = 0, x_tm_holding = None, x_holding_rcount = 0, x_tm_delayed_commit = None\<rparr>)
     (\<lambda>_. \<lparr>local_list = [], remote_list = [], addr_list = [SockAddr4 0 0], current_addr = None\<rparr>)"

definition sample_df :: df_pfcp where
  "sample_df = \<lparr>c_node_pool = ogs_pool_init 2 [0, 0] 0 5, c_peer_list = [], c_info = (\<lambda>_. zero_node_info), c_gtpu_free = 4, c_cp_function_features = 0,
     c_xact = (sample_tmgr, sample_df_xacts)\<rparr>"

lemma sample_df_configured:
  "\<exists>t. df_pfcp_run sample_pfcp_env 2 t \<and> c_peer_list t = [0] \<and> fst (c_xact t) = sample_tmgr \<and> xpool (snd (c_xact t)) = xpool sample_xacts
     \<and> remote_list (node_of t 0) = [] \<and> xouts (snd (c_xact t)) = []"
proof -
  have "xact_run sample_conf 2 (sample_tmgr, sample_df_xacts)" unfolding sample_df_xacts_def
    by (rule xact_run.init [where nt = 6 and tmem = "[0, 0, 0, 0, 0, 0]" and tsd = 5
          and rb = "\<lambda>_. \<lparr>rb_parent = None, rb_left = None, rb_right = None, rb_color = BLACK\<rparr>"
          and ts = "\<lambda>_. \<lparr>t_cb = None, t_manager = False, t_running = False, t_timeout = 0\<rparr>" and ln = "\<lambda>_. \<lparr>prev = None, next = None\<rparr>"])
      (simp_all add: sample_tmgr_def ogs_timer_mgr_create_def node_ok_def)
  then have r: "df_pfcp_run sample_pfcp_env 2 sample_df" unfolding sample_df_def
    by (intro df_pfcp_run.init [where fs = "[0..<2]"] pool_repr_init)
      (auto simp: sample_pfcp_env_def live_def sample_df_xacts_def ogs_pfcp_xact_init_def ogs_pool_init_def)
  have "pool_repr (ogs_pool_init 2 [0, 0] 0 5) [0..<2]" by (rule pool_repr_init) simp
  moreover have "[0..<2] = [0, 1 :: nat]" by code_simp
  ultimately obtain p where a: "ogs_pool_alloc (ogs_pool_init 2 [0, 0] 0 5) = Some (Some 0, p)" using pool_alloc_repr [of "ogs_pool_init 2 [0, 0] 0 5" 0 "[1]"] by auto
  have f: "ogs_filter_ip_version [sample_peer] False False True = [sample_peer]" by code_simp
  obtain t where t: "config_peer [sample_peer] False False True sample_df = Some t" "c_peer_list t = [0]" "fst (c_xact t) = sample_tmgr"
    "xpool (snd (c_xact t)) = xpool sample_xacts" "remote_list (node_of t 0) = []" "xouts (snd (c_xact t)) = []"
    by (simp add: Let_def config_peer_def f ogs_pfcp_node_new_def sample_df_def a upd_info_def upd_node_def upd_pnode_def sample_df_xacts_def sample_xacts_def ogs_pfcp_xact_init_def)
  then show ?thesis using df_pfcp_run.config [OF r t(1)] by blast
qed

definition sample_association :: pfcp_msg where
  "sample_association = \<lparr>pm_type = OGS_PFCP_ASSOCIATION_SETUP_REQUEST_TYPE, pm_sqn = [0, 0, 1, 0], pm_node_id = Some [0, 127, 0, 0, 4], pm_recovery = Some 7,
     pm_resources = [], pm_up_features = None, pm_cp_features = Some 1\<rparr>"

theorem df_pfcp_histories_witness:
  "\<exists>t r t'. df_pfcp_run sample_pfcp_env 2 t \<and> c_peer_list t = [0] \<and> df_pfcp_recv sample_pfcp_env 5 sample_association sample_peer t = Some (r, t') \<and> df_pfcp_run sample_pfcp_env 2 t'"
  using sample_df_configured df_pfcp_histories [OF _ sample_pfcp_env_ok(1)] by metis

theorem dsmf_df_association_witness:
  "\<exists>s t req t' a b s' rsp src. dsmf_pfcp_run sample_pfcp_env 2 s \<and> live (xpool (snd (c_xact s))) \<noteq> {} \<and> df_pfcp_run sample_pfcp_env 2 t
     \<and> df_pfcp_message sample_pfcp_env 5 0 req t = Some (None, t') \<and> xouts (snd (c_xact t')) = [SentTo 0 a b] \<and> pm_sqn rsp = take 4 (drop 4 b) \<and> pfcp_recv_cb sample_pfcp_env 9 rsp src s = Some (RecvHandled, s')
     \<and> live (xpool (snd (c_xact s'))) = live (xpool (snd (c_xact s))) - {0}"
proof -
  obtain s where s: "dsmf_pfcp_run sample_pfcp_env 2 s" "c_peer_list s = [0]" "local_list (node_of s 0) = [0]" "x_step (xacts (snd (c_xact s)) 0) = 1"
    "x_xid (xacts (snd (c_xact s)) 0) = 1" "ni_type (n_node_id (c_info s 0)) = OGS_PFCP_NODE_ID_UNKNOWN"
    using sample_waiting by blast
  obtain t where t: "df_pfcp_run sample_pfcp_env 2 t" "c_peer_list t = [0]" "fst (c_xact t) = sample_tmgr" "xpool (snd (c_xact t)) = xpool sample_xacts"
    "remote_list (node_of t 0) = []" "xouts (snd (c_xact t)) = []"
    using sample_df_configured by blast
  note inv = dsmf_pfcp_run_inv [OF s(1) sample_pfcp_env_ok(1)]
  have "node_ok (node_of s 0)" using peers_invD(6) [OF dsmf_invD(1) [OF inv]] s(2) by simp
  then obtain src where src: "src \<in> set (addr_list (node_of s 0))" by (cases "addr_list (node_of s 0)") (auto simp: node_ok_def)
  have lv: "0 \<in> live (xpool (snd (c_xact s)))" using lists_okD(1) [OF dsmf_invD(4) [OF inv], of 0 0] s(3) by simp
  define msg where "msg ty q = \<lparr>pm_type = ty, pm_sqn = q, pm_node_id = Some [0, 127, 0, 0, 4], pm_recovery = Some 7, pm_resources = [],
    pm_up_features = None, pm_cp_features = None\<rparr>" for ty q
  let ?req = "msg OGS_PFCP_ASSOCIATION_SETUP_REQUEST_TYPE (OGS_PFCP_XID_TO_SQN (x_xid (xacts (snd (c_xact s)) 0)))"
  have w: "find (\<lambda>l. x_xid (xacts (snd (c_xact s)) l) = x_xid (xacts (snd (c_xact s)) 0)) (local_list (node_of s 0)) = Some 0" by (simp add: s(3))
  have p: "0 \<in> set (c_peer_list t)" "pm_type ?req = OGS_PFCP_ASSOCIATION_SETUP_REQUEST_TYPE" "pm_sqn ?req = OGS_PFCP_XID_TO_SQN (x_xid (xacts (snd (c_xact s)) 0))"
    "\<forall>l \<in> set (remote_list (node_of t 0)). x_xid (xacts (snd (c_xact t)) l) \<noteq> x_xid (xacts (snd (c_xact s)) 0)" "id (xpool (snd (c_xact t))) < OGS_MAX_POOL_ID"
    "1 \<le> avail (xpool (snd (c_xact t)))" "3 \<le> avail (m_pool (fst (c_xact t)))" "clock_ok (pe_conf sample_pfcp_env) 5" "\<forall>a. has_sock (pe_conf sample_pfcp_env) a"
    "pe_association_response sample_pfcp_env = Some sample_pk" "8 \<le> ogs_pkbuf_headroom sample_pk"
    using sample_room(3,4) sample_empty(3,4)
    by (simp_all add: msg_def t sample_pfcp_env_ok sample_clock sample_conf_simps sample_pk_def ogs_pkbuf_headroom_def) (simp add: sample_pfcp_env_def sample_pk_def)
  obtain t' a b where m: "df_pfcp_message sample_pfcp_env 5 0 ?req t = Some (None, t')" and r: "xouts (snd (c_xact t')) = [SentTo 0 a b]" "b ! 1 = OGS_PFCP_ASSOCIATION_SETUP_RESPONSE_TYPE"
    "\<forall>later src rsp. pm_type rsp = b ! 1 \<and> pm_sqn rsp = take 4 (drop 4 b) \<and> ogs_pfcp_node_find (lookup_id rsp) (Some src) s = Some (Some 0)
        \<and> fst (ogs_pfcp_extract_node_id (pm_type rsp) (pm_node_id rsp)) = OGS_PFCP_STATUS_SUCCESS \<longrightarrow>
      (pm_resources rsp = [] \<longrightarrow> (\<exists>s'. pfcp_recv_cb sample_pfcp_env later rsp src s = Some (RecvHandled, s')
          \<and> live (xpool (snd (c_xact s'))) = live (xpool (snd (c_xact s))) - {0} \<and> xouts (snd (c_xact s')) = xouts (snd (c_xact s))))
      \<and> (fatal_response rsp \<longrightarrow> pfcp_recv_cb sample_pfcp_env later rsp src s = None)"
    using dsmf_df_association [OF s(1) sample_pfcp_env_ok(1) t(1) sample_pfcp_env_ok(1) w s(4) p(1-10) sample_pk_ok(1) p(11)] unfolding t(6) append_Nil by blast
  let ?rsp = "msg (b ! 1) (take 4 (drop 4 b))"
  have x: "ogs_pfcp_extract_node_id (pm_type ?rsp) (pm_node_id ?rsp) = (OGS_PFCP_STATUS_SUCCESS, sample_node_id)"
    using sample_node_id_ok(2) r(2) by (simp add: msg_def ogs_pfcp_extract_node_id_def node_id_requirement_def pfcp_const_defs sample_node_id_def Let_def)
  have f: "ogs_pfcp_node_find (lookup_id ?rsp) (Some src) s = Some (Some 0)"
  proof -
    have "lookup_id ?rsp = Some sample_node_id" unfolding lookup_id_def x by simp
    then show ?thesis using src s(6) unfolding \<open>lookup_id ?rsp = _\<close> by (auto simp: ogs_pfcp_node_find_def s(2) id_differs_def)
  qed
  have "pm_type ?rsp = b ! 1" "pm_sqn ?rsp = take 4 (drop 4 b)" "pm_resources ?rsp = []" by (simp_all add: msg_def)
  then obtain s' where "pfcp_recv_cb sample_pfcp_env 9 ?rsp src s = Some (RecvHandled, s')" "live (xpool (snd (c_xact s'))) = live (xpool (snd (c_xact s))) - {0}"
    using r(3) f x by (metis fst_conv)
  then show ?thesis using s(1) lv t(1) m r(1) \<open>pm_sqn ?rsp = _\<close> by blast
qed

end
