(* ===== verification/Dmf.thy ===== *)
theory Dmf
  imports Gnb_Sync Ogs_Pool Ogs_Fsm
begin

section \<open>The DMF: registering gNBs and passing RAN data on (src/dmf)\<close>

text \<open>
  The DMF keeps a list of the gNBs that the AMF announced, with the RAN address, TEID and session
  of the last synchronisation, and forwards each synchronisation with RAN data to the DSMF. The list is
  an \<open>ogs_list_t\<close> of allocated nodes, here the sequence it represents. The
  SBI library is a parameter, \<open>dmf_env\<close>: the streams and transactions it knows, what it parses
  out of a request or a response and whether its calls succeed. What the handlers hand to it is
  recorded in order.
\<close>

record dmf_gnb =
  gnb_id :: string
  gnb_ran_addr :: "sockaddr option"
  gnb_teid :: u32
  gnb_session_id :: string

type_synonym dmf_context = "dmf_gnb list"

definition new_gnb :: "string \<Rightarrow> dmf_gnb" where
  "new_gnb g = \<lparr>gnb_id = strncpy 63 g, gnb_ran_addr = None, gnb_teid = 0, gnb_session_id = []\<rparr>"

subsection \<open>The gNB list (context.c)\<close>

definition dmf_context_init :: "dmf_context \<Rightarrow> dmf_context" where
  "dmf_context_init self = []"

definition dmf_context_add_gnb :: "string \<Rightarrow> dmf_context \<Rightarrow> dmf_context" where
  "dmf_context_add_gnb g self = (if list_ex (\<lambda>x. gnb_id x = g) self then self else self @ [new_gnb g])"

fun dmf_context_remove_gnb :: "string \<Rightarrow> dmf_context \<Rightarrow> dmf_context" where
  "dmf_context_remove_gnb g [] = []"
| "dmf_context_remove_gnb g (x # xs) = (if gnb_id x = g then xs else x # dmf_context_remove_gnb g xs)"

definition dmf_find_gnb :: "string \<Rightarrow> dmf_context \<Rightarrow> dmf_gnb option" where
  "dmf_find_gnb g self = find (\<lambda>x. gnb_id x = g) self"

text \<open>The node that \<open>dmf_find_gnb\<close> returns, changed in place.\<close>

fun update_found :: "string \<Rightarrow> (dmf_gnb \<Rightarrow> dmf_gnb) \<Rightarrow> dmf_context \<Rightarrow> dmf_context" where
  "update_found g f [] = []"
| "update_found g f (x # xs) = (if gnb_id x = g then f x # xs else x # update_found g f xs)"

definition dmf_update_gnb_ran_info :: "string \<Rightarrow> string \<Rightarrow> string \<Rightarrow> u16 \<Rightarrow> u32 \<Rightarrow> dmf_context \<Rightarrow> dmf_context" where
  "dmf_update_gnb_ran_info g ss addr port tid self =
     (case dmf_find_gnb g self of
        None \<Rightarrow> self
      | Some _ \<Rightarrow>
          (case inet_pton addr of
             None \<Rightarrow> update_found g (\<lambda>x. x\<lparr>gnb_ran_addr := None\<rparr>) self
           | Some a \<Rightarrow> update_found g (\<lambda>x. x\<lparr>gnb_ran_addr := Some \<lparr>sin_port = port, sin_addr = a\<rparr>,
                          gnb_teid := tid, gnb_session_id := strncpy 63 ss\<rparr>) self))"

definition dmf_context_final :: "dmf_context \<Rightarrow> dmf_context" where
  "dmf_context_final self = foldl (\<lambda>c x. remove1 x c) self self"

subsection \<open>The environment\<close>

record sbi_request =
  req_uri :: string
  req_content :: "string option"

record dmf_env =
  stream_found :: "u32 \<Rightarrow> bool"
  parse_request :: "sbi_request \<Rightarrow> (string option \<times> string option) option"
  parse_response :: "string \<Rightarrow> (string option \<times> string option) option"
  send_error_ok :: "u32 \<Rightarrow> bool"
  nrf_instance :: bool
  xact_found :: "u32 \<Rightarrow> bool"
  xact_added :: bool
  discover_ok :: bool

datatype dmf_action =
    SendResponse u32 nat string
  | SendError u32 nat string
  | ToDsmf string
  | NrfDispatch
  | NfDiscovered u32

record dmf_world =
  gnbs :: dmf_context
  actions :: "dmf_action list"

definition act :: "dmf_action \<Rightarrow> dmf_world \<Rightarrow> dmf_world" where
  "act a w = w\<lparr>actions := actions w @ [a]\<rparr>"

text \<open>\<open>dmf_forward_to_dsmf\<close>; the request is built when the transaction is added.\<close>

definition dmf_forward_to_dsmf :: "dmf_env \<Rightarrow> string \<Rightarrow> string \<Rightarrow> string \<Rightarrow> u16 \<Rightarrow> u32 \<Rightarrow> dmf_world \<Rightarrow> dmf_world" where
  "dmf_forward_to_dsmf env g ss addr port tid w =
     (if \<not> xact_added env then w
      else if \<not> discover_ok env then w
      else act (ToDsmf (ran_body g ss addr port tid)) w)"

subsection \<open>State machine (dmf-sm.c)\<close>

definition DMF_EVENT_GNB_SYNC :: int where "DMF_EVENT_GNB_SYNC = OGS_MAX_NUM_OF_PROTO_EVENT + 1"
definition DMF_EVENT_GNB_DEREG :: int where "DMF_EVENT_GNB_DEREG = OGS_MAX_NUM_OF_PROTO_EVENT + 2"
definition DMF_EVENT_PRINT_GNB_LIST :: int where "DMF_EVENT_PRINT_GNB_LIST = OGS_MAX_NUM_OF_PROTO_EVENT + 3"

lemmas dmf_event_defs = proto_event_defs DMF_EVENT_GNB_SYNC_def DMF_EVENT_GNB_DEREG_def
  DMF_EVENT_PRINT_GNB_LIST_def OGS_FSM_ENTRY_SIG_def OGS_FSM_EXIT_SIG_def OGS_FSM_USER_SIG_def

record dmf_event =
  ev_request :: "sbi_request option"
  ev_response :: "string option"
  ev_sbi_data :: u32
  sync_gnb_id :: string
  sync_is_register :: bool
  dereg_gnb_id :: string

definition empty_dmf_event :: dmf_event where
  "empty_dmf_event = \<lparr>ev_request = None, ev_response = None, ev_sbi_data = 0, sync_gnb_id = [],
     sync_is_register = False, dereg_gnb_id = []\<rparr>"

definition dmf_event_gnb_sync_new :: "string \<Rightarrow> bool \<Rightarrow> dmf_event fsm_event" where
  "dmf_event_gnb_sync_new g r = \<lparr>ev_id = DMF_EVENT_GNB_SYNC,
     ev_data = Some (empty_dmf_event\<lparr>sync_gnb_id := strncpy 63 g, sync_is_register := r\<rparr>)\<rparr>"

definition dmf_event_gnb_dereg_new :: "string \<Rightarrow> dmf_event fsm_event" where
  "dmf_event_gnb_dereg_new g = \<lparr>ev_id = DMF_EVENT_GNB_DEREG,
     ev_data = Some (empty_dmf_event\<lparr>dereg_gnb_id := strncpy 63 g\<rparr>)\<rparr>"

definition dmf_event_print_gnb_list_new :: "dmf_event fsm_event" where
  "dmf_event_print_gnb_list_new = \<lparr>ev_id = DMF_EVENT_PRINT_GNB_LIST, ev_data = Some empty_dmf_event\<rparr>"

datatype dmf_state = DmfInitial | DmfOperational | DmfFinal

type_synonym dmf_result = "(dmf_state ogs_fsm \<times> dmf_world \<times> dmf_event fsm_event option) option"

definition service_gnb_sync :: string where "service_gnb_sync = ''ndmf-gnb-sync''"
definition resource_gnb_sync :: string where "resource_gnb_sync = ''gnb-sync''"
definition service_nnrf_nfm :: string where "service_nnrf_nfm = ''nnrf-nfm''"
definition service_nnrf_disc :: string where "service_nnrf_disc = ''nnrf-disc''"
definition resource_nf_instances :: string where "resource_nf_instances = ''nf-instances''"

text \<open>The \<open>gnb-sync\<close> resource of the service \<open>ndmf-gnb-sync\<close>.\<close>

definition gnb_sync_request :: "dmf_env \<Rightarrow> u32 \<Rightarrow> string option \<Rightarrow> dmf_world \<Rightarrow> dmf_world option" where
  "gnb_sync_request env stream content w =
     (case content of
        None \<Rightarrow> Some w
      | Some body \<Rightarrow>
          do { f \<leftarrow> sync_parse body;
               case (f_gnb_id f, f_action f) of
                 (Some g, Some a) \<Rightarrow>
                   if a = ''register'' then
                     (case (f_session_id f, f_ran_addr f) of
                        (Some ss, Some addr) \<Rightarrow>
                          let w = w\<lparr>gnbs := dmf_update_gnb_ran_info g ss addr (f_ran_port f) (f_teid f) (gnbs w)\<rparr>;
                              w = act (SendResponse stream 200 ''{}'') w
                          in Some (dmf_forward_to_dsmf env g ss addr (f_ran_port f) (f_teid f) w)
                      | _ \<Rightarrow>
                          let w = w\<lparr>gnbs := dmf_context_add_gnb g (gnbs w)\<rparr>
                          in Some (act (SendResponse stream 200 ''{}'') w))
                   else if a = ''deregister'' then
                     let w = w\<lparr>gnbs := dmf_context_remove_gnb g (gnbs w)\<rparr>
                     in Some (act (SendResponse stream 200 ''{}'') w)
                   else Some w
               | _ \<Rightarrow> Some w })"

definition send_error :: "dmf_env \<Rightarrow> u32 \<Rightarrow> string \<Rightarrow> dmf_world \<Rightarrow> dmf_world option" where
  "send_error env stream title w =
     do { ogs_assert (send_error_ok env stream); Some (act (SendError stream 400 title) w) }"

text \<open>\<open>OGS_EVENT_SBI_SERVER\<close>. The \<open>SWITCH\<close> macro takes an absent name for one that no case matches.\<close>

definition dmf_sbi_server :: "dmf_env \<Rightarrow> dmf_event \<Rightarrow> dmf_world \<Rightarrow> dmf_world option" where
  "dmf_sbi_server env d w =
     do { request \<leftarrow> ev_request d;
          let stream_id = ev_sbi_data d;
          ogs_assert (OGS_MIN_POOL_ID \<le> stream_id \<and> stream_id \<le> OGS_MAX_POOL_ID);
          if \<not> stream_found env stream_id then Some w
          else (case parse_request env request of
                  None \<Rightarrow> send_error env stream_id ''Cannot parse HTTP request'' w
                | Some (service, component) \<Rightarrow>
                    if service = Some service_gnb_sync then
                      do { c \<leftarrow> component;
                           if c = resource_gnb_sync then gnb_sync_request env stream_id (req_content request) w
                           else send_error env stream_id ''Unknown resource'' w }
                    else send_error env stream_id ''Invalid API name'' w) }"

definition dmf_sbi_client :: "dmf_env \<Rightarrow> dmf_event \<Rightarrow> dmf_world \<Rightarrow> dmf_world option" where
  "dmf_sbi_client env d w =
     do { response \<leftarrow> ev_response d;
          case parse_response env response of
            None \<Rightarrow> Some w
          | Some (service, component) \<Rightarrow>
              do { sv \<leftarrow> service;
                   if sv = service_nnrf_nfm then
                     do { c \<leftarrow> component;
                          if c = resource_nf_instances then
                            do { ogs_assert (nrf_instance env); Some (act NrfDispatch w) }
                          else Some w }
                   else if sv = service_nnrf_disc then
                     do { c \<leftarrow> component;
                          let xact_id = ev_sbi_data d;
                          if c = resource_nf_instances \<and> OGS_MIN_POOL_ID \<le> xact_id \<and> xact_id \<le> OGS_MAX_POOL_ID
                             \<and> xact_found env xact_id
                          then Some (act (NfDiscovered xact_id) w) else Some w }
                   else Some w } }"

definition dmf_state_initial :: "dmf_state ogs_fsm \<Rightarrow> dmf_world \<Rightarrow> dmf_event fsm_event option \<Rightarrow> dmf_result" where
  "dmf_state_initial s w e = Some (OGS_FSM_TRAN DmfOperational s, w, e)"

definition dmf_state_final :: "dmf_state ogs_fsm \<Rightarrow> dmf_world \<Rightarrow> dmf_event fsm_event option \<Rightarrow> dmf_result" where
  "dmf_state_final s w e = Some (s, w, e)"

definition dmf_state_operational :: "dmf_env \<Rightarrow> dmf_state ogs_fsm \<Rightarrow> dmf_world \<Rightarrow> dmf_event fsm_event option
    \<Rightarrow> dmf_result" where
  "dmf_state_operational env s w e =
     do { ev \<leftarrow> e;
          if ev_id ev = OGS_FSM_ENTRY_SIG \<or> ev_id ev = OGS_FSM_EXIT_SIG then Some (s, w, e)
          else if ev_id ev = OGS_EVENT_SBI_SERVER then
            do { d \<leftarrow> ev_data ev; w \<leftarrow> dmf_sbi_server env d w; Some (s, w, e) }
          else if ev_id ev = OGS_EVENT_SBI_CLIENT then
            do { d \<leftarrow> ev_data ev; w \<leftarrow> dmf_sbi_client env d w; Some (s, w, e) }
          else if ev_id ev = OGS_EVENT_SBI_TIMER then
            Some (s, if nrf_instance env then act NrfDispatch w else w, e)
          else if ev_id ev = DMF_EVENT_GNB_SYNC then
            do { d \<leftarrow> ev_data ev;
                 Some (s, w\<lparr>gnbs := (if sync_is_register d then dmf_context_add_gnb (sync_gnb_id d) (gnbs w)
                                     else dmf_context_remove_gnb (sync_gnb_id d) (gnbs w))\<rparr>, e) }
          else if ev_id ev = DMF_EVENT_GNB_DEREG then
            do { d \<leftarrow> ev_data ev;
                 Some (s, w\<lparr>gnbs := dmf_context_remove_gnb (dereg_gnb_id d) (gnbs w)\<rparr>, e) }
          else Some (s, w, e) }"

fun dmf_sem :: "dmf_env \<Rightarrow> (dmf_state, dmf_world, dmf_event) handlers" where
  "dmf_sem env DmfInitial = dmf_state_initial"
| "dmf_sem env DmfOperational = dmf_state_operational env"
| "dmf_sem env DmfFinal = dmf_state_final"

subsection \<open>Invariant of the list\<close>

text \<open>Identifiers are distinct and fit the 64-byte field of a node.\<close>

definition dmf_ok :: "dmf_context \<Rightarrow> bool" where
  "dmf_ok c \<longleftrightarrow> distinct (map gnb_id c) \<and> (\<forall>x \<in> set c. length (gnb_id x) \<le> 63)"

lemma find_gnb_None: "dmf_find_gnb g c = None \<longleftrightarrow> g \<notin> gnb_id ` set c"
  by (auto simp: dmf_find_gnb_def find_None_iff)

lemma add_gnb_ok: "dmf_ok c \<Longrightarrow> length g \<le> 63 \<Longrightarrow> dmf_ok (dmf_context_add_gnb g c)"
  by (auto simp: dmf_ok_def dmf_context_add_gnb_def new_gnb_def strncpy_def list_ex_iff)

lemma find_append_gnb: "dmf_find_gnb g (c @ [x]) =
    (case dmf_find_gnb g c of None \<Rightarrow> (if gnb_id x = g then Some x else None) | Some y \<Rightarrow> Some y)"
  by (induction c) (auto simp: dmf_find_gnb_def)

lemma find_add_gnb:
  assumes "length g \<le> 63"
  shows "dmf_find_gnb h (dmf_context_add_gnb g c) =
    (if h = g \<and> dmf_find_gnb g c = None then Some (new_gnb g) else dmf_find_gnb h c)"
proof -
  have "list_ex (\<lambda>x. gnb_id x = g) c \<longleftrightarrow> dmf_find_gnb g c \<noteq> None"
    by (auto simp: find_gnb_None list_ex_iff)
  then show ?thesis
    using assms by (auto simp: dmf_context_add_gnb_def find_append_gnb new_gnb_def strncpy_def split: option.splits)
qed

lemma remove_gnb_filter: "distinct (map gnb_id c) \<Longrightarrow> dmf_context_remove_gnb g c = filter (\<lambda>x. gnb_id x \<noteq> g) c"
proof (induction c)
  case (Cons x xs)
  have "g \<notin> gnb_id ` set xs \<Longrightarrow> filter (\<lambda>x. gnb_id x \<noteq> g) xs = xs" by (auto simp: filter_id_conv)
  then show ?case using Cons by auto
qed simp

lemma remove_gnb_ok: "dmf_ok c \<Longrightarrow> dmf_ok (dmf_context_remove_gnb g c)"
  by (auto simp: dmf_ok_def remove_gnb_filter distinct_map_filter)

lemma find_remove_gnb:
  assumes "dmf_ok c"
  shows "dmf_find_gnb h (dmf_context_remove_gnb g c) = (if h = g then None else dmf_find_gnb h c)"
proof -
  have "find (\<lambda>x. gnb_id x = h) (filter (\<lambda>x. gnb_id x \<noteq> g) c)
      = (if h = g then None else find (\<lambda>x. gnb_id x = h) c)"
    by (induction c) auto
  then show ?thesis using assms by (simp add: dmf_ok_def remove_gnb_filter dmf_find_gnb_def)
qed

lemma find_update_found:
  assumes "\<And>x. gnb_id (f x) = gnb_id x"
  shows "dmf_find_gnb h (update_found g f c) =
    (if h = g then map_option f (dmf_find_gnb g c) else dmf_find_gnb h c)"
  using assms by (induction c) (auto simp: dmf_find_gnb_def)

lemma update_found_ids:
  assumes "\<And>x. gnb_id (f x) = gnb_id x"
  shows "map gnb_id (update_found g f c) = map gnb_id c"
  using assms by (induction c) auto

lemma dmf_ok_alt: "dmf_ok c \<longleftrightarrow> distinct (map gnb_id c) \<and> (\<forall>i \<in> set (map gnb_id c). length i \<le> 63)"
  by (simp add: dmf_ok_def)

lemma dmf_ok_ids: "map gnb_id c = map gnb_id d \<Longrightarrow> dmf_ok d \<Longrightarrow> dmf_ok c"
  unfolding dmf_ok_alt by metis

lemma update_ran_info_ok: "dmf_ok c \<Longrightarrow> dmf_ok (dmf_update_gnb_ran_info g ss a p t c)"
  by (auto simp: dmf_update_gnb_ran_info_def update_found_ids intro: dmf_ok_ids split: option.split)

lemma find_update_ran_info:
  "dmf_find_gnb h (dmf_update_gnb_ran_info g ss a p t c) =
    (if h = g then
       map_option (\<lambda>x. case inet_pton a of
           None \<Rightarrow> x\<lparr>gnb_ran_addr := None\<rparr>
         | Some ad \<Rightarrow> x\<lparr>gnb_ran_addr := Some \<lparr>sin_port = p, sin_addr = ad\<rparr>, gnb_teid := t,
                        gnb_session_id := strncpy 63 ss\<rparr>) (dmf_find_gnb g c)
     else dmf_find_gnb h c)"
  by (auto simp: dmf_update_gnb_ran_info_def find_update_found split: option.split)

subsection \<open>Dispatching a request\<close>

definition sync_event :: "u32 \<Rightarrow> string \<Rightarrow> dmf_event fsm_event" where
  "sync_event stream body = \<lparr>ev_id = OGS_EVENT_SBI_SERVER, ev_data = Some (empty_dmf_event\<lparr>
     ev_request := Some \<lparr>req_uri = ''/ndmf-gnb-sync/v1/gnb-sync'', req_content = Some body\<rparr>,
     ev_sbi_data := stream\<rparr>)\<rparr>"

text \<open>
  The SBI library does its part: the stream is valid and open, and the request's URI is
  parsed into the service and the resource that it names.
\<close>

definition sbi_good :: "dmf_env \<Rightarrow> u32 \<Rightarrow> bool" where
  "sbi_good env stream \<longleftrightarrow> OGS_MIN_POOL_ID \<le> stream \<and> stream \<le> OGS_MAX_POOL_ID \<and> stream_found env stream
     \<and> (\<forall>c. parse_request env \<lparr>req_uri = ''/ndmf-gnb-sync/v1/gnb-sync'', req_content = c\<rparr>
          = Some (Some service_gnb_sync, Some resource_gnb_sync))"

lemma dispatch_sync:
  assumes "sbi_good env stream" "state sm = Some DmfOperational"
  shows "ogs_fsm_dispatch (dmf_sem env) sm w (Some (sync_event stream body)) =
    do { w' \<leftarrow> gnb_sync_request env stream (Some body) w; Some (sm, w', Some (sync_event stream body)) }"
  using assms
  by (cases "gnb_sync_request env stream (Some body) w")
    (simp_all add: ogs_fsm_dispatch_def dmf_state_operational_def dmf_sbi_server_def sbi_good_def
      sync_event_def dmf_event_defs)

lemma sync_body_fits:
  assumes "length g \<le> 63"
  shows "snprintf 256 (sync_body g (if r then ''register'' else ''deregister'')) = sync_body g (if r then ''register'' else ''deregister'')"
  using assms by (auto simp: snprintf_def sync_body_def key_defs)

lemma amf_sync_sent:
  assumes "amf_sbi_send_gnb_sync_to_dmf aenv g r = (OGS_OK, Some body)" "length g \<le> 63"
  shows "body = sync_body g (if r then ''register'' else ''deregister'')"
  using assms sync_body_fits [of g r]
  by (auto simp: amf_sbi_send_gnb_sync_to_dmf_def send_to_dmf_def split: if_splits)

lemma gnb_sync_short:
  assumes "CHR 0x22 \<notin> set g"
  shows "gnb_sync_request env stream (Some (sync_body g (if r then ''register'' else ''deregister''))) w =
    Some (act (SendResponse stream 200 ''{}'')
      (w\<lparr>gnbs := (if r then dmf_context_add_gnb g (gnbs w) else dmf_context_remove_gnb g (gnbs w))\<rparr>))"
  using assms sync_parse_sync_body [of g "''register''"] sync_parse_sync_body [of g "''deregister''"]
  by (auto simp: gnb_sync_request_def Let_def)

lemma gnb_sync_ran:
  assumes "CHR 0x22 \<notin> set g" "CHR 0x22 \<notin> set ss" "CHR 0x22 \<notin> set a" "unat t < 2 ^ 31"
  shows "gnb_sync_request env stream (Some (ran_body g ss a p t)) w =
    Some (dmf_forward_to_dsmf env g ss a p t (act (SendResponse stream 200 ''{}'')
      (w\<lparr>gnbs := dmf_update_gnb_ran_info g ss a p t (gnbs w)\<rparr>)))"
  using assms(4) sync_parse_ran_body [OF assms(1-3), of p t]
  by (simp add: gnb_sync_request_def Let_def)

subsection \<open>A registry under announcements\<close>

text \<open>
  What the AMF relies on: a registry to which keys are added and from which they are removed.
  \<open>announced\<close> is the specification, whether the last announcement of a key was an addition.
\<close>

definition announced :: "'k \<Rightarrow> ('k \<times> bool) list \<Rightarrow> bool \<Rightarrow> bool" where
  "announced h ops b = foldl (\<lambda>b (k, r). if k = h then r else b) b ops"

locale registry =
  fixes ok :: "'r \<Rightarrow> bool" and fits :: "'k \<Rightarrow> bool"
    and known :: "'k \<Rightarrow> 'r \<Rightarrow> bool"
    and add :: "'k \<Rightarrow> 'r \<Rightarrow> 'r" and remove :: "'k \<Rightarrow> 'r \<Rightarrow> 'r"
  assumes add_ok: "ok r \<Longrightarrow> fits k \<Longrightarrow> ok (add k r)"
    and remove_ok: "ok r \<Longrightarrow> fits k \<Longrightarrow> ok (remove k r)"
    and known_add: "ok r \<Longrightarrow> fits k \<Longrightarrow> known h (add k r) \<longleftrightarrow> h = k \<or> known h r"
    and known_remove: "ok r \<Longrightarrow> fits k \<Longrightarrow> known h (remove k r) \<longleftrightarrow> h \<noteq> k \<and> known h r"
begin

lemma run_announcements:
  assumes "ok r" "\<forall>(k, b) \<in> set ops. fits k"
  shows "ok (foldl (\<lambda>r (k, b). if b then add k r else remove k r) r ops)
    \<and> (\<forall>h. known h (foldl (\<lambda>r (k, b). if b then add k r else remove k r) r ops)
          \<longleftrightarrow> announced h ops (known h r))"
  using assms
proof (induction ops arbitrary: r)
  case (Cons op ops)
  obtain k b where op: "op = (k, b)" by (cases op)
  then have "ok (if b then add k r else remove k r)" using Cons.prems by (auto intro: add_ok remove_ok)
  moreover have "known h (if b then add k r else remove k r) = (if k = h then b else known h r)" for h
    using Cons.prems op by (auto simp: known_add known_remove)
  ultimately show ?case using Cons.IH Cons.prems(2) op by (simp add: announced_def)
qed (simp add: announced_def)

end

interpretation gr: registry dmf_ok "\<lambda>g. length g \<le> 63" "\<lambda>g c. dmf_find_gnb g c \<noteq> None"
  dmf_context_add_gnb dmf_context_remove_gnb
  by unfold_locales (auto simp: add_gnb_ok remove_gnb_ok find_add_gnb find_remove_gnb)

subsection \<open>Properties\<close>

text \<open>The events that carry what the AMF sends for a sequence of announcements.\<close>

definition amf_events :: "sync_env \<Rightarrow> u32 \<Rightarrow> (string \<times> bool) list \<Rightarrow> dmf_event fsm_event list" where
  "amf_events aenv stream ops =
     List.map_filter (\<lambda>(g, r). map_option (sync_event stream) (snd (amf_sbi_send_gnb_sync_to_dmf aenv g r))) ops"

definition online :: sync_env where
  "online = \<lparr>dmf_found = True, request_built = True, client_found = True, request_sent = True\<rparr>"

lemma amf_events_Cons:
  assumes "length g \<le> 63"
  shows "amf_events online stream ((g, r) # ops)
    = sync_event stream (sync_body g (if r then ''register'' else ''deregister'')) # amf_events online stream ops"
  using sync_body_fits [OF assms, of r]
  by (simp add: amf_events_def map_filter_simps amf_sbi_send_gnb_sync_to_dmf_def send_to_dmf_def online_def)

lemma dmf_run_announcements:
  assumes "sbi_good env stream" "state sm = Some DmfOperational"
    and "\<forall>(g, r) \<in> set ops. length g \<le> 63 \<and> CHR 0x22 \<notin> set g"
  shows "dispatch_all (dmf_sem env) (amf_events online stream ops) (sm, w)
    = Some (sm, \<lparr>gnbs = foldl (\<lambda>c (g, r). if r then dmf_context_add_gnb g c else dmf_context_remove_gnb g c) (gnbs w) ops,
                 actions = actions w @ replicate (length ops) (SendResponse stream 200 ''{}'')\<rparr>)"
  using assms(3)
proof (induction ops arbitrary: w)
  case Nil
  then show ?case by (simp add: dispatch_all_def amf_events_def map_filter_simps)
next
  case (Cons op ops)
  obtain g r where op: "op = (g, r)" by (cases op)
  let ?w1 = "act (SendResponse stream 200 ''{}'')
      (w\<lparr>gnbs := (if r then dmf_context_add_gnb g (gnbs w) else dmf_context_remove_gnb g (gnbs w))\<rparr>)"
  have g: "length g \<le> 63" "CHR 0x22 \<notin> set g" using Cons.prems op by auto
  have "dispatch_all (dmf_sem env) (amf_events online stream (op # ops)) (sm, w)
    = dispatch_all (dmf_sem env) (amf_events online stream ops) (sm, ?w1)"
    unfolding op amf_events_Cons [OF g(1)]
    using dispatch_sync [OF assms(1,2)] gnb_sync_short [OF g(2)]
    by (simp add: dispatch_all_def)
  also have "\<dots> = Some (sm, \<lparr>gnbs = foldl (\<lambda>c (g, r). if r then dmf_context_add_gnb g c else dmf_context_remove_gnb g c) (gnbs ?w1) ops,
                 actions = actions ?w1 @ replicate (length ops) (SendResponse stream 200 ''{}'')\<rparr>)"
    using Cons.IH Cons.prems by simp
  finally show ?case by (simp add: op act_def)
qed

text \<open>C17. From the AMF to the DMF: whatever sequence of registrations and deregistrations the AMF sends,
  with identifiers of at most 63 characters and without quotes, the DMF stays operational,
  answers each with status 200, keeps its list free of duplicates, and knows afterwards exactly the
  gNBs whose last announcement was a registration.\<close>

theorem dmf_tracks_announcements:
  assumes "sbi_good env stream" "state sm = Some DmfOperational" "dmf_ok (gnbs w)"
    and "\<forall>(g, r) \<in> set ops. length g \<le> 63 \<and> CHR 0x22 \<notin> set g"
  shows "\<exists>w'. dispatch_all (dmf_sem env) (amf_events online stream ops) (sm, w) = Some (sm, w')
    \<and> actions w' = actions w @ replicate (length ops) (SendResponse stream 200 ''{}'')
    \<and> dmf_ok (gnbs w')
    \<and> (\<forall>g. dmf_find_gnb g (gnbs w') \<noteq> None \<longleftrightarrow> announced g ops (dmf_find_gnb g (gnbs w) \<noteq> None))"
  using dmf_run_announcements [OF assms(1,2,4)] gr.run_announcements [OF assms(3), of ops] assms(4)
  by fastforce

definition sample_dmf_env :: dmf_env where
  "sample_dmf_env = \<lparr>stream_found = (\<lambda>s. s = 1),
     parse_request = (\<lambda>r. Some (Some ''ndmf-gnb-sync'', Some ''gnb-sync'')),
     parse_response = (\<lambda>r. None), send_error_ok = (\<lambda>s. True), nrf_instance = True,
     xact_found = (\<lambda>x. False), xact_added = True, discover_ok = True\<rparr>"

lemma sample_sbi_good: "sbi_good sample_dmf_env 1"
  by (simp add: sbi_good_def sample_dmf_env_def OGS_MIN_POOL_ID_def OGS_MAX_POOL_ID_def
      service_gnb_sync_def resource_gnb_sync_def)

definition sample_sm :: "dmf_state ogs_fsm" where
  "sample_sm = \<lparr>init = Some DmfInitial, fini = Some DmfFinal, state = Some DmfOperational\<rparr>"

theorem dmf_tracks_announcements_witness:
  "\<exists>w'. dispatch_all (dmf_sem sample_dmf_env)
       (amf_events online 1 [(''12'', True), (''7'', True), (''12'', False)]) (sample_sm, \<lparr>gnbs = [], actions = []\<rparr>)
     = Some (sample_sm, w')
    \<and> dmf_find_gnb ''7'' (gnbs w') \<noteq> None \<and> dmf_find_gnb ''12'' (gnbs w') = None"
proof -
  obtain w' where w': "dispatch_all (dmf_sem sample_dmf_env)
       (amf_events online 1 [(''12'', True), (''7'', True), (''12'', False)]) (sample_sm, \<lparr>gnbs = [], actions = []\<rparr>)
     = Some (sample_sm, w')"
    and f: "\<forall>g. dmf_find_gnb g (gnbs w') \<noteq> None \<longleftrightarrow>
      announced g [(''12'', True), (''7'', True), (''12'', False)] (dmf_find_gnb g [] \<noteq> None)"
    using dmf_tracks_announcements [OF sample_sbi_good, of sample_sm "\<lparr>gnbs = [], actions = []\<rparr>"
        "[(''12'', True), (''7'', True), (''12'', False)]"]
    by (auto simp: sample_sm_def dmf_ok_def)
  have "announced ''7'' [(''12'', True), (''7'', True), (''12'', False)] (dmf_find_gnb ''7'' [] \<noteq> None)"
    "\<not> announced ''12'' [(''12'', True), (''7'', True), (''12'', False)] (dmf_find_gnb ''12'' [] \<noteq> None)"
    by (simp_all add: announced_def)
  then show ?thesis using w' f by auto
qed

text \<open>The RAN data that the AMF sends for a session (strings without quotes, a TEID below $2^{31}$)
  arrive unchanged: the DMF answers with status 200, then sends to the DSMF the very
  body it received. A gNB that is registered gets the address, port, TEID and session of the body, or loses its address
  when the address is no dotted IPv4 address; other gNBs stay as they were.\<close>

theorem dmf_relays_ran_info:
  assumes "sbi_good env stream" "state sm = Some DmfOperational" "xact_added env" "discover_ok env"
    and "amf_sbi_send_gnb_sync_with_ran_info_to_dmf aenv g ss a p t = (OGS_OK, Some body)"
    and "CHR 0x22 \<notin> set g" "CHR 0x22 \<notin> set ss" "CHR 0x22 \<notin> set a" "unat t < 2 ^ 31"
  shows "\<exists>w' ev. ogs_fsm_dispatch (dmf_sem env) sm w (Some (sync_event stream body)) = Some (sm, w', ev)
    \<and> actions w' = actions w @ [SendResponse stream 200 ''{}'', ToDsmf body]
    \<and> (\<forall>h. dmf_find_gnb h (gnbs w') =
         (if h = g then
            map_option (\<lambda>x. case inet_pton a of
                None \<Rightarrow> x\<lparr>gnb_ran_addr := None\<rparr>
              | Some ad \<Rightarrow> x\<lparr>gnb_ran_addr := Some \<lparr>sin_port = p, sin_addr = ad\<rparr>, gnb_teid := t,
                             gnb_session_id := strncpy 63 ss\<rparr>) (dmf_find_gnb g (gnbs w))
          else dmf_find_gnb h (gnbs w)))"
proof -
  have "body = ran_body g ss a p t"
    using assms(5) by (auto simp: amf_sbi_send_gnb_sync_with_ran_info_to_dmf_def send_to_dmf_def split: if_splits)
  then show ?thesis
    using dispatch_sync [OF assms(1,2)] gnb_sync_ran [OF assms(6-9)] assms(3,4)
    by (simp add: dmf_forward_to_dsmf_def act_def find_update_ran_info)
qed

theorem dmf_relays_ran_info_witness:
  "\<exists>w' ev. ogs_fsm_dispatch (dmf_sem sample_dmf_env) sample_sm \<lparr>gnbs = [new_gnb ''12''], actions = []\<rparr>
        (Some (sync_event 1 (ran_body ''12'' ''imsi-1_5'' ''10.0.0.1'' 2152 77))) = Some (sample_sm, w', ev)
    \<and> actions w' = [SendResponse 1 200 ''{}'', ToDsmf (ran_body ''12'' ''imsi-1_5'' ''10.0.0.1'' 2152 77)]
    \<and> map_option gnb_ran_addr (dmf_find_gnb ''12'' (gnbs w')) = Some (Some \<lparr>sin_port = 2152, sin_addr = 0x0a000001\<rparr>)"
proof -
  have pton: "inet_pton ''10.0.0.1'' = Some 0x0a000001"
    by (simp add: inet_pton_def octet_def digits_val_def is_digit_def)
  have b: "amf_sbi_send_gnb_sync_with_ran_info_to_dmf online ''12'' ''imsi-1_5'' ''10.0.0.1'' 2152 77
      = (OGS_OK, Some (ran_body ''12'' ''imsi-1_5'' ''10.0.0.1'' 2152 77))"
    by (simp add: amf_sbi_send_gnb_sync_with_ran_info_to_dmf_def send_to_dmf_def online_def)
  have f: "dmf_find_gnb ''12'' [new_gnb ''12''] = Some (new_gnb ''12'')"
    by (simp add: dmf_find_gnb_def new_gnb_def strncpy_def)
  have e: "state sample_sm = Some DmfOperational" "xact_added sample_dmf_env" "discover_ok sample_dmf_env"
    by (simp_all add: sample_sm_def sample_dmf_env_def)
  show ?thesis
    using dmf_relays_ran_info [OF sample_sbi_good e b, of "\<lparr>gnbs = [new_gnb ''12''], actions = []\<rparr>"] f pton
    by (fastforce split: if_splits)
qed

text \<open>A \<open>gnb-sync\<close> request is answered, with exactly one response, if and only if its body has both a
  \<open>gnb_id\<close> and one of the two actions. A request without a body, without one of the fields or
  with another action changes nothing and is never answered, so its client waits for its timeout.\<close>

theorem dmf_answers_valid_only:
  assumes "content = None \<or> (\<exists>body. content = Some body \<and> sync_parse body = Some f)"
  shows "\<exists>w' as. gnb_sync_request env stream content w = Some w' \<and> actions w' = actions w @ as
    \<and> (if content \<noteq> None \<and> f_gnb_id f \<noteq> None \<and> f_action f \<in> {Some ''register'', Some ''deregister''}
       then filter (\<lambda>a. case a of SendResponse _ _ _ \<Rightarrow> True | _ \<Rightarrow> False) as = [SendResponse stream 200 ''{}'']
       else w' = w \<and> as = [])"
proof (cases content)
  case (Some body)
  then have p: "sync_parse body = Some f" using assms by auto
  show ?thesis
  proof (cases "f_gnb_id f = None \<or> f_action f = None")
    case True
    then show ?thesis using p Some by (auto simp: gnb_sync_request_def split: option.split)
  next
    case False
    then obtain g a where "f_gnb_id f = Some g" "f_action f = Some a" by auto
    then show ?thesis
      using p Some
      by (auto simp: gnb_sync_request_def dmf_forward_to_dsmf_def act_def Let_def split: option.split)
  qed
qed (simp add: gnb_sync_request_def)

theorem dmf_answers_valid_only_witness:
  "\<exists>w'. gnb_sync_request sample_dmf_env 1 (Some ''{}'') \<lparr>gnbs = [], actions = []\<rparr> = Some w' \<and> actions w' = []"
proof -
  have "sync_parse ''{}'' = Some \<lparr>f_gnb_id = None, f_action = None, f_session_id = None, f_ran_addr = None,
      f_ran_port = 0, f_teid = 0\<rparr>"
    by (simp add: sync_parse_def num_field_def json_num_def json_str_def key_defs)
  then show ?thesis
    using dmf_answers_valid_only [of "Some ''{}''" "\<lparr>f_gnb_id = None, f_action = None, f_session_id = None,
        f_ran_addr = None, f_ran_port = 0, f_teid = 0\<rparr>" sample_dmf_env 1 "\<lparr>gnbs = [], actions = []\<rparr>"]
    by auto
qed

text \<open>The DMF reads the TEID with \<open>atoi\<close>, whose result is undefined above the range of \<open>int\<close>. TEIDs from $2^{31}$ on, half
  of all TEIDs, are printed by the AMF with \<open>%u\<close> and have no defined effect in the DMF.\<close>

theorem dmf_teid_undefined:
  assumes "CHR 0x22 \<notin> set g" "CHR 0x22 \<notin> set ss" "CHR 0x22 \<notin> set a"
  shows "gnb_sync_request env stream (Some (ran_body g ss a p t)) w = None \<longleftrightarrow> 2 ^ 31 \<le> unat t"
  using sync_parse_ran_body [OF assms, of p t] gnb_sync_ran [OF assms, of t env stream p w]
  by (auto simp: gnb_sync_request_def not_less)

theorem dmf_teid_undefined_witness:
  "gnb_sync_request sample_dmf_env 1 (Some (ran_body ''12'' ''s'' ''10.0.0.1'' 2152 0x80000000)) \<lparr>gnbs = [], actions = []\<rparr> = None"
  using dmf_teid_undefined [of "''12''" "''s''" "''10.0.0.1''" sample_dmf_env 1 2152 "0x80000000"
      "\<lparr>gnbs = [], actions = []\<rparr>"]
  by simp

text \<open>The list stores at most 63 characters of an identifier but compares it in full. A gNB with a
  longer identifier gets one more node with every registration, is never found, and is
  not removed by a deregistration.\<close>

theorem dmf_long_id_leaks:
  fixes n :: nat and c :: dmf_context
  assumes "64 \<le> length g" "\<forall>x \<in> set c. length (gnb_id x) \<le> 63"
  defines "d \<equiv> (dmf_context_add_gnb g ^^ n) c"
  shows "length d = length c + n \<and> dmf_find_gnb g d = None \<and> dmf_context_remove_gnb g d = d"
proof -
  have step: "(\<forall>x \<in> set (dmf_context_add_gnb g e). length (gnb_id x) \<le> 63)
      \<and> length (dmf_context_add_gnb g e) = Suc (length e)"
    if "\<forall>x \<in> set e. length (gnb_id x) \<le> 63" for e
  proof -
    have "\<not> list_ex (\<lambda>x. gnb_id x = g) e" using that assms(1) by (fastforce simp: list_ex_iff)
    then show ?thesis using that by (simp add: dmf_context_add_gnb_def new_gnb_def strncpy_def)
  qed
  have "(\<forall>x \<in> set ((dmf_context_add_gnb g ^^ n) c). length (gnb_id x) \<le> 63)
      \<and> length ((dmf_context_add_gnb g ^^ n) c) = length c + n"
    using assms(2) by (induction n) (use step in auto)
  then have d: "\<forall>x \<in> set d. length (gnb_id x) \<le> 63" "length d = length c + n" by (simp_all add: d_def)
  have "dmf_context_remove_gnb g e = e" if "\<forall>x \<in> set e. length (gnb_id x) \<le> 63" for e
    using that assms(1) by (induction e) auto
  then show ?thesis using d assms(1) by (fastforce simp: find_gnb_None)
qed

theorem dmf_long_id_leaks_witness:
  "length ((dmf_context_add_gnb (replicate 64 CHR ''a'') ^^ 3) []) = 3"
  using dmf_long_id_leaks [of "replicate 64 CHR ''a''" "[]" 3] by simp

end
