(* ===== verification/Df.thy ===== *)
theory Df
  imports Ogs_Gtpu Ogs_Timer Ogs_Main
begin

section \<open>The DF: PFCP sessions and the relay to the DNF (src/df)\<close>

text \<open>
  The DF creates a session for each PFCP Session Establishment Request of the DSMF, registers the
  TEIDs of its PDRs, and relays what arrives for them on DN3 to the DNF on DN4. Sessions are
  nodes of the pool \<open>df_sess_pool\<close>; the tables keep pointers to their keys, which lie in the session, in
  its PDRs or in its UE addresses, so clearing the PFCP state of a session makes the keys in its PDRs unreadable. What
  the PFCP library makes of the rules of a request is a parameter, \<open>est_lib\<close> and \<open>mod_lib\<close>; the
  environment gives the clock and the result of \<open>sendto\<close>.
\<close>

text \<open>A pointer to a UE address: NULL, an allocated one with its 16 bytes, or one that has been freed.\<close>

datatype ue_ptr = NoIp | Ip "u8 list" | FreedIp

datatype ran_address = Ran4 u32 | Ran6 "u8 list"

record df_pdr =
  pdr_teid :: u32
  pdr_ipv4 :: bool
  pdr_ipv6 :: bool
  pdr_addr :: u32
  pdr_addr6 :: "u8 list"
  pdr_f_teid_len :: nat
  pdr_ch :: bool
  pdr_ue_ip_len :: nat
  pdr_ue_ipv4 :: bool
  pdr_ue_ipv6 :: bool
  pdr_dnn :: bool

record df_sess =
  d_seid :: u64
  d_f_seid :: u64
  d_f_addr :: u32
  d_ipv4 :: ue_ptr
  d_ipv6 :: ue_ptr
  d_apn_dnn :: "string option"
  d_ran_addr :: "ran_address option"
  d_ran_teid :: u32
  d_forward :: bool
  d_dn4_teid :: u32
  d_pdrs :: "u32 option list"

definition zero_df_sess :: df_sess where
  "zero_df_sess = \<lparr>d_seid = 0, d_f_seid = 0, d_f_addr = 0, d_ipv4 = NoIp, d_ipv6 = NoIp, d_apn_dnn = None,
     d_ran_addr = None, d_ran_teid = 0, d_forward = False, d_dn4_teid = 0, d_pdrs = []\<rparr>"

datatype df_ptr = DSeid nat | DFSeid nat | DPdr nat nat | DRan nat | DIp4 nat | DIp6 nat | DLocal "u8 list"

type_synonym df_table = "(df_ptr, nat) ogs_hash"

text \<open>What the DF hands to the PFCP and SBI libraries, which are not modelled.\<close>

datatype df_action =
    DfEstablishmentResponse nat u64 u64 "u32 list"
  | DfModificationResponse nat u64 "u32 list"
  | DfErrorResponse nat u64 nat u8 u8
  | DfPfcpLibrary nat nat
  | DfReportCommitted nat
  | DfNrfFsm

record df_world =
  df_pool :: ogs_pool
  df_mem_sess :: "df_sess list"
  df_list :: "nat list"
  df_seid_hash :: df_table
  dsmf_seid_hash :: df_table
  dsmf_f_seid_hash :: df_table
  ipv4_hash :: df_table
  ipv6_hash :: df_table
  teid_hash :: df_table
  dn3_open :: bool
  dn4_addr :: sockaddr
  last_discovery :: int
  df_actions :: "df_action list"

record df_env =
  df_time_now :: int
  df_sendto :: "u8 list \<Rightarrow> sockaddr \<Rightarrow> int"
  ue_ip_alloc :: "nat \<Rightarrow> df_pdr \<Rightarrow> u8 list option \<times> u8"

definition df_act :: "df_action \<Rightarrow> df_world \<Rightarrow> df_world" where
  "df_act a w = w\<lparr>df_actions := df_actions w @ [a]\<rparr>"

definition upd_df :: "nat \<Rightarrow> (df_sess \<Rightarrow> df_sess) \<Rightarrow> df_world \<Rightarrow> df_world" where
  "upd_df n f w = w\<lparr>df_mem_sess := (df_mem_sess w)[n := f (df_mem_sess w ! n)]\<rparr>"

subsection \<open>Keys and lookups (context.c)\<close>

text \<open>
  \<open>dsmf_n4_f_seid\<close> in memory, 40 bytes: the SEID, and an \<open>ogs_ip_t\<close> with its \<open>ipv4\<close> bit set.
\<close>

definition df_f_seid_bytes :: "df_sess \<Rightarrow> u8 list" where
  "df_f_seid_bytes s = le64 (d_f_seid s) @ le32 (d_f_addr s) @ replicate 20 0 @ [0x80] @ replicate 7 0"

fun ue_bytes :: "ue_ptr \<Rightarrow> u8 list" where
  "ue_bytes (Ip a) = a"
| "ue_bytes NoIp = []"
| "ue_bytes FreedIp = []"

fun df_mem :: "df_sess list \<Rightarrow> df_ptr \<Rightarrow> u8 list" where
  "df_mem ss (DSeid n) = le64 (d_seid (ss ! n))"
| "df_mem ss (DFSeid n) = df_f_seid_bytes (ss ! n)"
| "df_mem ss (DPdr n i) = (if i < length (d_pdrs (ss ! n)) then (case d_pdrs (ss ! n) ! i of Some t \<Rightarrow> le32 t | None \<Rightarrow> []) else [])"
| "df_mem ss (DRan n) = le32 (d_ran_teid (ss ! n))"
| "df_mem ss (DIp4 n) = ue_bytes (d_ipv4 (ss ! n))"
| "df_mem ss (DIp6 n) = ue_bytes (d_ipv6 (ss ! n))"
| "df_mem ss (DLocal bs) = bs"

definition df_lookup :: "df_table \<Rightarrow> u8 list \<Rightarrow> df_world \<Rightarrow> nat option option" where
  "df_lookup ht bs w = ogs_hash_get (df_mem (df_mem_sess w)) ht (DLocal bs) (int (length bs))"

definition df_set :: "df_table \<Rightarrow> df_ptr \<Rightarrow> int \<Rightarrow> nat option \<Rightarrow> df_world \<Rightarrow> df_table option" where
  "df_set ht p len v w = ogs_hash_set (df_mem (df_mem_sess w)) ht p len v"

definition df_sess_find_by_dsmf_n4_seid :: "u64 \<Rightarrow> df_world \<Rightarrow> nat option option" where
  "df_sess_find_by_dsmf_n4_seid x w = df_lookup (dsmf_seid_hash w) (le64 x) w"

definition df_sess_find_by_df_n4_seid :: "u64 \<Rightarrow> df_world \<Rightarrow> nat option option" where
  "df_sess_find_by_df_n4_seid x w = df_lookup (df_seid_hash w) (le64 x) w"

definition df_sess_find_by_teid :: "u32 \<Rightarrow> df_world \<Rightarrow> nat option option" where
  "df_sess_find_by_teid t w = df_lookup (teid_hash w) (le32 t) w"

definition df_sess_find_by_ipv4 :: "u32 \<Rightarrow> df_world \<Rightarrow> nat option option" where
  "df_sess_find_by_ipv4 a w = df_lookup (ipv4_hash w) (le32 a) w"

text \<open>\<open>sizeof(addr6)\<close> is the size of the pointer: eight bytes of the address are the key.\<close>

definition df_sess_find_by_ipv6 :: "u8 list \<Rightarrow> df_world \<Rightarrow> nat option option" where
  "df_sess_find_by_ipv6 a w = df_lookup (ipv6_hash w) (take 8 a) w"

definition df_sess_find_by_id :: "int \<Rightarrow> df_world \<Rightarrow> nat option" where
  "df_sess_find_by_id i w = ogs_pool_find (df_pool w) i"

definition df_context_init :: "nat \<Rightarrow> df_sess list \<Rightarrow> u32 \<Rightarrow> df_world" where
  "df_context_init n garbage sd =
     \<lparr>df_pool = ogs_pool_init n (replicate n 0) 0 sd, df_mem_sess = garbage, df_list = [],
      df_seid_hash = ogs_hash_make sd, dsmf_seid_hash = ogs_hash_make sd, dsmf_f_seid_hash = ogs_hash_make sd,
      ipv4_hash = ogs_hash_make sd, ipv6_hash = ogs_hash_make sd, teid_hash = ogs_hash_make sd,
      dn3_open = False, dn4_addr = \<lparr>sin_port = 2154, sin_addr = 0x7f000018\<rparr>, last_discovery = 0, df_actions = []\<rparr>"

subsection \<open>Sessions (context.c)\<close>

text \<open>The CP F-SEID of a request: its \<open>seid\<close> and its two address flags.\<close>

definition df_sess_add :: "u64 \<Rightarrow> bool \<Rightarrow> df_world \<Rightarrow> (nat \<times> df_world) option" where
  "df_sess_add seid ipv4 w =
     do { (sess, p) \<leftarrow> ogs_pool_alloc (df_pool w);
          n \<leftarrow> sess;
          let w = w\<lparr>df_pool := p, df_mem_sess := (df_mem_sess w)[n := zero_df_sess\<lparr>d_seid := seid, d_f_seid := seid,
                     d_f_addr := of_bool ipv4\<rparr>]\<rparr>;
          let w = w\<lparr>df_list := df_list w @ [n]\<rparr>;
          h \<leftarrow> df_set (df_seid_hash w) (DSeid n) 8 (Some n) w;
          let w = w\<lparr>df_seid_hash := h\<rparr>;
          h \<leftarrow> df_set (dsmf_f_seid_hash w) (DFSeid n) 40 (Some n) w;
          let w = w\<lparr>dsmf_f_seid_hash := h\<rparr>;
          Some (n, upd_df n (\<lambda>s. s\<lparr>d_forward := True, d_dn4_teid := ucast (d_seid s)\<rparr>) w) }"

definition df_sess_add_by_message :: "(u64 \<times> bool \<times> bool) option \<Rightarrow> df_world \<Rightarrow> (nat option \<times> df_world) option" where
  "df_sess_add_by_message f_seid w =
     (case f_seid of
        None \<Rightarrow> Some (None, w)
      | Some (seid, v4, v6) \<Rightarrow>
          if \<not> v4 \<and> \<not> v6 then Some (None, w)
          else do { (n, w) \<leftarrow> df_sess_add seid v4 w; Some (Some n, w) })"

definition drop_ue4 :: "nat \<Rightarrow> df_world \<Rightarrow> df_world option" where
  "drop_ue4 n w =
     (if d_ipv4 (df_mem_sess w ! n) = NoIp then Some w
      else do { h \<leftarrow> df_set (ipv4_hash w) (DIp4 n) 16 None w; Some (w\<lparr>ipv4_hash := h\<rparr>) })"

definition drop_ue6 :: "nat \<Rightarrow> df_world \<Rightarrow> df_world option" where
  "drop_ue6 n w =
     (if d_ipv6 (df_mem_sess w ! n) = NoIp then Some w
      else do { h \<leftarrow> df_set (ipv6_hash w) (DIp6 n) 16 None w; Some (w\<lparr>ipv6_hash := h\<rparr>) })"

definition ogs_pfcp_sess_clear :: "nat \<Rightarrow> df_world \<Rightarrow> df_world" where
  "ogs_pfcp_sess_clear n w = upd_df n (\<lambda>s. s\<lparr>d_pdrs := []\<rparr>) w"

definition drop_teid :: "nat \<Rightarrow> df_world \<Rightarrow> df_world option" where
  "drop_teid n w =
     (if d_ran_teid (df_mem_sess w ! n) = 0 then Some w
      else do { h \<leftarrow> df_set (teid_hash w) (DRan n) 4 None w; Some (w\<lparr>teid_hash := h\<rparr>) })"

definition drop_seids :: "nat \<Rightarrow> df_world \<Rightarrow> df_world option" where
  "drop_seids n w =
     do { h \<leftarrow> df_set (df_seid_hash w) (DSeid n) 8 None w;
          let w = w\<lparr>df_seid_hash := h\<rparr>;
          h \<leftarrow> df_set (dsmf_f_seid_hash w) (DFSeid n) 40 None w;
          Some (w\<lparr>dsmf_f_seid_hash := h\<rparr>) }"

definition df_sess_remove :: "nat \<Rightarrow> df_world \<Rightarrow> df_world option" where
  "df_sess_remove n w =
     do { let w = w\<lparr>df_list := remove1 n (df_list w)\<rparr>;
          w \<leftarrow> drop_seids n w;
          w \<leftarrow> drop_ue4 n w;
          w \<leftarrow> drop_ue6 n w;
          w \<leftarrow> drop_teid n w;
          let w = ogs_pfcp_sess_clear n w;
          Some (w\<lparr>df_pool := ogs_pool_free n (df_pool w)\<rparr>) }"

definition df_sess_remove_all :: "df_world \<Rightarrow> df_world option" where
  "df_sess_remove_all w = foldM df_sess_remove (df_list w) w"

text \<open>The same loop ends \<open>df_context_final\<close>, which then destroys the tables.\<close>

definition df_context_final :: "df_world \<Rightarrow> df_world option" where
  "df_context_final w = foldM df_sess_remove (df_list w) w"

definition OGS_PFCP_CAUSE_REQUEST_ACCEPTED :: u8 where "OGS_PFCP_CAUSE_REQUEST_ACCEPTED = 1"
definition OGS_PFCP_CAUSE_MANDATORY_IE_INCORRECT :: u8 where "OGS_PFCP_CAUSE_MANDATORY_IE_INCORRECT = 69"
definition OGS_PFCP_CAUSE_SERVICE_NOT_SUPPORTED :: u8 where "OGS_PFCP_CAUSE_SERVICE_NOT_SUPPORTED = 76"

text \<open>
  \<open>df_sess_set_ue_ip\<close>. An old address is unregistered and freed; its pointer stays in the session unless a new address replaces it.
\<close>

definition free_ue :: "ue_ptr \<Rightarrow> ue_ptr" where
  "free_ue p = (if p = NoIp then NoIp else FreedIp)"

definition add_ue4 :: "df_env \<Rightarrow> nat \<Rightarrow> df_pdr \<Rightarrow> df_world \<Rightarrow> (u8 \<times> df_world) option" where
  "add_ue4 env n pdr w =
     (if pdr_ue_ipv4 pdr \<or> pdr_dnn pdr then
        (case ue_ip_alloc env 4 pdr of
           (None, cause) \<Rightarrow> do { ogs_assert (cause \<noteq> OGS_PFCP_CAUSE_REQUEST_ACCEPTED);
                                 Some (cause, upd_df n (\<lambda>s. s\<lparr>d_ipv4 := NoIp\<rparr>) w) }
         | (Some a, cause) \<Rightarrow>
             do { let w = upd_df n (\<lambda>s. s\<lparr>d_ipv4 := Ip a\<rparr>) w;
                  h \<leftarrow> df_set (ipv4_hash w) (DIp4 n) 16 (Some n) w;
                  Some (OGS_PFCP_CAUSE_REQUEST_ACCEPTED, w\<lparr>ipv4_hash := h\<rparr>) })
      else Some (OGS_PFCP_CAUSE_REQUEST_ACCEPTED, w))"

definition add_ue6 :: "df_env \<Rightarrow> nat \<Rightarrow> df_pdr \<Rightarrow> df_world \<Rightarrow> (u8 \<times> df_world) option" where
  "add_ue6 env n pdr w =
     (if pdr_ue_ipv6 pdr \<or> pdr_dnn pdr then
        (case ue_ip_alloc env 6 pdr of
           (None, cause) \<Rightarrow> do { ogs_assert (cause \<noteq> OGS_PFCP_CAUSE_REQUEST_ACCEPTED);
                                 Some (cause, upd_df n (\<lambda>s. s\<lparr>d_ipv6 := NoIp\<rparr>) w) }
         | (Some a, cause) \<Rightarrow>
             do { let w = upd_df n (\<lambda>s. s\<lparr>d_ipv6 := Ip a\<rparr>) w;
                  h \<leftarrow> df_set (ipv6_hash w) (DIp6 n) 16 (Some n) w;
                  Some (OGS_PFCP_CAUSE_REQUEST_ACCEPTED, w\<lparr>ipv6_hash := h\<rparr>) })
      else Some (OGS_PFCP_CAUSE_REQUEST_ACCEPTED, w))"

definition df_sess_set_ue_ip :: "df_env \<Rightarrow> nat \<Rightarrow> u8 \<Rightarrow> df_pdr \<Rightarrow> df_world \<Rightarrow> (u8 \<times> df_world) option" where
  "df_sess_set_ue_ip env n session_type pdr w =
     do { w \<leftarrow> drop_ue4 n w;
          let w = upd_df n (\<lambda>s. s\<lparr>d_ipv4 := free_ue (d_ipv4 s)\<rparr>) w;
          w \<leftarrow> drop_ue6 n w;
          let w = upd_df n (\<lambda>s. s\<lparr>d_ipv6 := free_ue (d_ipv6 s)\<rparr>) w;
          if session_type = 1 then add_ue4 env n pdr w
          else if session_type = 2 then add_ue6 env n pdr w
          else if session_type = 3 then
            do { (c, w) \<leftarrow> add_ue4 env n pdr w;
                 if c \<noteq> OGS_PFCP_CAUSE_REQUEST_ACCEPTED then Some (c, w)
                 else do { (c, w) \<leftarrow> add_ue6 env n pdr w;
                           if c \<noteq> OGS_PFCP_CAUSE_REQUEST_ACCEPTED then
                             do { w \<leftarrow> drop_ue4 n w; Some (c, upd_df n (\<lambda>s. s\<lparr>d_ipv4 := NoIp\<rparr>) w) }
                           else Some (c, w) } }
          else Some (OGS_PFCP_CAUSE_SERVICE_NOT_SUPPORTED, w) }"

subsection \<open>PFCP requests (ndf-handler.c)\<close>

text \<open>
  The rules of a request are handled by the PFCP library. \<open>est_lib\<close> is what it makes of an establishment request: the PDRs, with distinct identifiers,
  created, of which at most sixteen are handled, the cause and the offending information element after each kind of rule, and what the
  other calls return. \<open>el_apn_dnn\<close> is the presence of the element and the result of \<open>ogs_fqdn_parse\<close>.
\<close>

record est_lib =
  el_pdrs :: "df_pdr list"
  el_pdr_cause :: "u8 \<times> u8"
  el_far_cause :: "u8 \<times> u8"
  el_apn_dnn :: "string option option"
  el_qer_cause :: "u8 \<times> u8"
  el_bar_cause :: "u8 \<times> u8"
  el_gtpu_ok :: bool
  el_restoration :: bool
  el_swap :: "df_pdr \<Rightarrow> u8"
  el_pdn_type :: "u8 option"
  el_response_ok :: bool

definition OGS_MAX_NUM_OF_PDR :: nat where "OGS_MAX_NUM_OF_PDR = 16"
definition OGS_PFCP_CAUSE_MANDATORY_IE_MISSING :: u8 where "OGS_PFCP_CAUSE_MANDATORY_IE_MISSING = 66"
definition OGS_PFCP_CAUSE_SESSION_CONTEXT_NOT_FOUND :: u8 where "OGS_PFCP_CAUSE_SESSION_CONTEXT_NOT_FOUND = 65"

text \<open>The loop over the created PDRs: each TEID is registered, and the last one with an address becomes the RAN's.\<close>

definition ran_of :: "df_pdr \<Rightarrow> ran_address" where
  "ran_of pdr = (if pdr_ipv4 pdr then Ran4 (pdr_addr pdr) else Ran6 (pdr_addr6 pdr))"

definition register_pdr :: "nat \<Rightarrow> df_pdr \<Rightarrow> df_world \<Rightarrow> df_world option" where
  "register_pdr n pdr w =
     do { let i = length (d_pdrs (df_mem_sess w ! n));
          let w = upd_df n (\<lambda>s. s\<lparr>d_pdrs := d_pdrs s @ [Some (pdr_teid pdr)]\<rparr>) w;
          if pdr_teid pdr = 0 then Some w
          else do { h \<leftarrow> df_set (teid_hash w) (DPdr n i) 4 (Some n) w;
                    let w = w\<lparr>teid_hash := h\<rparr>;
                    Some (if pdr_ipv4 pdr \<or> pdr_ipv6 pdr
                          then upd_df n (\<lambda>s. s\<lparr>d_ran_addr := Some (ran_of pdr), d_ran_teid := pdr_teid pdr\<rparr>) w
                          else w) } }"

fun first_failure :: "(u8 \<times> u8) list \<Rightarrow> (u8 \<times> u8) option" where
  "first_failure [] = None"
| "first_failure (c # cs) = (if fst c \<noteq> OGS_PFCP_CAUSE_REQUEST_ACCEPTED then Some c else first_failure cs)"

definition ESTABLISHMENT_RESPONSE :: nat where "ESTABLISHMENT_RESPONSE = 51"
definition MODIFICATION_RESPONSE :: nat where "MODIFICATION_RESPONSE = 53"

definition cleanup :: "nat \<Rightarrow> nat \<Rightarrow> u8 \<times> u8 \<Rightarrow> nat \<Rightarrow> df_world \<Rightarrow> df_world" where
  "cleanup msg xact c n w =
     (let w = ogs_pfcp_sess_clear n w in df_act (DfErrorResponse xact (d_f_seid (df_mem_sess w ! n)) msg (fst c) (snd c)) w)"

text \<open>The UE addresses of the created PDRs: the first failure ends the loop.\<close>

fun set_ue_ips :: "df_env \<Rightarrow> nat \<Rightarrow> u8 option \<Rightarrow> df_pdr list \<Rightarrow> df_world \<Rightarrow> (u8 \<times> df_world) option" where
  "set_ue_ips env n pdn [] w = Some (OGS_PFCP_CAUSE_REQUEST_ACCEPTED, w)"
| "set_ue_ips env n pdn (pdr # pdrs) w =
     (case pdn of
        Some ty \<Rightarrow>
          if pdr_ue_ip_len pdr \<noteq> 0 then
            do { (c, w) \<leftarrow> df_sess_set_ue_ip env n ty pdr w;
                 if c \<noteq> OGS_PFCP_CAUSE_REQUEST_ACCEPTED then Some (c, w) else set_ue_ips env n pdn pdrs w }
          else set_ue_ips env n pdn pdrs w
      | None \<Rightarrow> set_ue_ips env n pdn pdrs w)"

fun swap_teids :: "(df_pdr \<Rightarrow> u8) \<Rightarrow> df_pdr list \<Rightarrow> u8" where
  "swap_teids f [] = OGS_PFCP_CAUSE_REQUEST_ACCEPTED"
| "swap_teids f (pdr # pdrs) =
     (if pdr_f_teid_len pdr > 0 \<and> \<not> pdr_ch pdr \<and> f pdr \<noteq> OGS_PFCP_CAUSE_REQUEST_ACCEPTED then f pdr else swap_teids f pdrs)"

text \<open>\<open>df_pfcp_send_session_establishment_response\<close> and the response it builds: the PDRs are left out after a restoration. \<open>ftup\<close> is set by \<open>df_context_init\<close>.\<close>

definition df_pfcp_send_session_establishment_response :: "est_lib \<Rightarrow> nat \<Rightarrow> nat \<Rightarrow> df_pdr list \<Rightarrow> df_world \<Rightarrow> df_world option" where
  "df_pfcp_send_session_establishment_response lib xact n created w =
     do { ogs_assert (el_response_ok lib);
          let s = df_mem_sess w ! n;
          Some (df_act (DfEstablishmentResponse xact (d_f_seid s) (d_seid s) (map pdr_teid created)) w) }"

definition df_n4_handle_session_establishment_request :: "df_env \<Rightarrow> est_lib \<Rightarrow> nat option \<Rightarrow> nat \<Rightarrow> df_world \<Rightarrow> df_world option" where
  "df_n4_handle_session_establishment_request env lib sess xact w =
     (case sess of
        None \<Rightarrow> Some (df_act (DfErrorResponse xact 0 ESTABLISHMENT_RESPONSE OGS_PFCP_CAUSE_MANDATORY_IE_MISSING 0) w)
      | Some n \<Rightarrow>
          do { let pdrs = take OGS_MAX_NUM_OF_PDR (el_pdrs lib);
               w \<leftarrow> foldM (register_pdr n) pdrs w;
               case first_failure [el_pdr_cause lib, el_far_cause lib] of
                 Some c \<Rightarrow> Some (cleanup ESTABLISHMENT_RESPONSE xact c n w)
               | None \<Rightarrow>
                 if el_apn_dnn lib = Some None
                 then Some (cleanup ESTABLISHMENT_RESPONSE xact (OGS_PFCP_CAUSE_MANDATORY_IE_INCORRECT, snd (el_far_cause lib)) n w)
                 else
                   do { let w = (case el_apn_dnn lib of Some dnn \<Rightarrow> upd_df n (\<lambda>s. s\<lparr>d_apn_dnn := dnn\<rparr>) w | None \<Rightarrow> w);
                        case first_failure [el_qer_cause lib, el_bar_cause lib] of
                          Some c \<Rightarrow> Some (cleanup ESTABLISHMENT_RESPONSE xact c n w)
                        | None \<Rightarrow>
                          if \<not> el_gtpu_ok lib then Some (cleanup ESTABLISHMENT_RESPONSE xact (el_bar_cause lib) n w)
                          else if el_restoration lib \<and> swap_teids (el_swap lib) pdrs \<noteq> OGS_PFCP_CAUSE_REQUEST_ACCEPTED
                          then Some (cleanup ESTABLISHMENT_RESPONSE xact (swap_teids (el_swap lib) pdrs, snd (el_bar_cause lib)) n w)
                          else do { (c, w) \<leftarrow> set_ue_ips env n (el_pdn_type lib) pdrs w;
                                    if c \<noteq> OGS_PFCP_CAUSE_REQUEST_ACCEPTED
                                    then Some (cleanup ESTABLISHMENT_RESPONSE xact (c, snd (el_bar_cause lib)) n w)
                                    else df_pfcp_send_session_establishment_response lib xact n
                                           (if el_restoration lib then [] else pdrs) w } } })"

text \<open>
  A modification: \<open>ml_steps\<close> are the results of the rule operations in the order of the code, of which the first five come before the end markers, \<open>ml_pdrs\<close> is the table of PDRs after them, and
  \<open>ml_created\<close> the TEIDs of the created ones. The tables of the DF are not updated.
\<close>

record mod_lib =
  ml_pdrs :: "u32 option list"
  ml_created :: "u32 list"
  ml_steps :: "(u8 \<times> u8) list"
  ml_end_markers_ok :: bool
  ml_gtpu_ok :: bool
  ml_response_ok :: bool

definition df_pfcp_send_session_modification_response :: "mod_lib \<Rightarrow> nat \<Rightarrow> nat \<Rightarrow> df_world \<Rightarrow> df_world option" where
  "df_pfcp_send_session_modification_response lib xact n w =
     do { ogs_assert (ml_response_ok lib);
          Some (df_act (DfModificationResponse xact (d_f_seid (df_mem_sess w ! n)) (ml_created lib)) w) }"

definition df_n4_handle_session_modification_request :: "mod_lib \<Rightarrow> nat option \<Rightarrow> nat \<Rightarrow> df_world \<Rightarrow> df_world option" where
  "df_n4_handle_session_modification_request lib sess xact w =
     (case sess of
        None \<Rightarrow> Some (df_act (DfErrorResponse xact 0 MODIFICATION_RESPONSE OGS_PFCP_CAUSE_SESSION_CONTEXT_NOT_FOUND 0) w)
      | Some n \<Rightarrow>
          do { let w = upd_df n (\<lambda>s. s\<lparr>d_pdrs := ml_pdrs lib\<rparr>) w;
               ogs_assert (first_failure (take 5 (ml_steps lib)) \<noteq> None \<or> ml_end_markers_ok lib);
               case first_failure (ml_steps lib) of
                 Some c \<Rightarrow> Some (cleanup MODIFICATION_RESPONSE xact c n w)
               | None \<Rightarrow>
                   if \<not> ml_gtpu_ok lib
                   then Some (cleanup MODIFICATION_RESPONSE xact (last ((OGS_PFCP_CAUSE_REQUEST_ACCEPTED, 0) # ml_steps lib)) n w)
                   else df_pfcp_send_session_modification_response lib xact n w })"

definition df_n4_handle_session_deletion_request :: "nat option \<Rightarrow> nat \<Rightarrow> df_world \<Rightarrow> df_world option" where
  "df_n4_handle_session_deletion_request sess xact w =
     do { n \<leftarrow> sess;
          w \<leftarrow> drop_teid n w;
          df_sess_remove n w }"

definition df_n4_handle_session_report_response :: "nat \<Rightarrow> df_world \<Rightarrow> df_world" where
  "df_n4_handle_session_report_response xact w = df_act (DfReportCommitted xact) w"

subsection \<open>Dispatch (pfcp-path.c, df-sm.c)\<close>

text \<open>A PFCP message, with what the library makes of it. \<open>m_seid\<close> is the SEID of the header, when it has one.\<close>

datatype pfcp_body =
    SessionEstablishment "(u64 \<times> bool \<times> bool) option" est_lib
  | SessionModification mod_lib
  | SessionDeletion
  | NodeMessage nat
  | OtherMessage nat

record df_message =
  m_seid :: "u64 option"
  m_body :: pfcp_body
  m_rx :: "status \<times> nat"

definition find_by_header :: "df_message \<Rightarrow> df_world \<Rightarrow> nat option option" where
  "find_by_header msg w =
     (case m_seid msg of Some x \<Rightarrow> if x \<noteq> 0 then df_sess_find_by_df_n4_seid x w else Some None | None \<Rightarrow> Some None)"

text \<open>\<open>m_rx\<close> is the result of \<open>ogs_pfcp_xact_receive\<close> and its transaction; a retransmission is answered by the transaction layer.\<close>

definition df_pfcp_handle_message :: "df_env \<Rightarrow> nat option \<Rightarrow> df_message option \<Rightarrow> df_world \<Rightarrow> df_world option" where
  "df_pfcp_handle_message env node message w =
     do { nd \<leftarrow> node;
          msg \<leftarrow> message;
          if fst (m_rx msg) \<noteq> OGS_OK then Some w
          else case m_body msg of
                 NodeMessage ty \<Rightarrow> Some (df_act (DfPfcpLibrary nd ty) w)
               | SessionEstablishment f_seid lib \<Rightarrow>
                   do { (sess, w) \<leftarrow> df_sess_add_by_message f_seid w;
                        case sess of
                          Some n \<Rightarrow> df_n4_handle_session_establishment_request env lib (Some n) (snd (m_rx msg)) w
                        | None \<Rightarrow> Some w }
               | SessionModification lib \<Rightarrow>
                   do { sess \<leftarrow> find_by_header msg w;
                        case sess of Some n \<Rightarrow> df_n4_handle_session_modification_request lib (Some n) (snd (m_rx msg)) w | None \<Rightarrow> Some w }
               | SessionDeletion \<Rightarrow>
                   do { sess \<leftarrow> find_by_header msg w;
                        case sess of Some n \<Rightarrow> df_n4_handle_session_deletion_request (Some n) (snd (m_rx msg)) w | None \<Rightarrow> Some w }
               | OtherMessage ty \<Rightarrow> Some w }"

subsection \<open>Data (dn3-path.c, context.c)\<close>

type_synonym packet = "sockaddr \<times> u8 list"

definition OGS_MAX_SDU_LEN :: nat where "OGS_MAX_SDU_LEN = 32768"

definition df_dn3_open :: "bool \<Rightarrow> bool \<Rightarrow> df_world \<Rightarrow> (status \<times> df_world) option" where
  "df_dn3_open socket_ok bind_ok w =
     do { ogs_assert (\<not> dn3_open w);
          if \<not> socket_ok \<or> \<not> bind_ok then Some (OGS_ERROR, w)
          else Some (OGS_OK, w\<lparr>dn3_open := True\<rparr>) }"

definition df_dn3_close :: "df_world \<Rightarrow> df_world" where
  "df_dn3_close w = w\<lparr>dn3_open := False\<rparr>"

definition df_dn3_send :: "df_env \<Rightarrow> sockaddr \<Rightarrow> u8 list \<Rightarrow> df_world \<Rightarrow> status \<times> packet list" where
  "df_dn3_send env addr bs w =
     (if bs = [] \<or> \<not> dn3_open w then (OGS_ERROR, [])
      else if df_sendto env bs addr < 0 then (OGS_ERROR, [(addr, bs)])
      else (OGS_OK, [(addr, bs)]))"

text \<open>The time in microseconds is cut to an \<open>int\<close>; the difference of two such times can overflow.\<close>

definition df_rediscover_dnf_if_needed :: "df_env \<Rightarrow> df_world \<Rightarrow> df_world option" where
  "df_rediscover_dnf_if_needed env w =
     (let current = signed_take_bit 31 (df_time_now env); d = current - last_discovery w in
      if d < - (2 ^ 31) \<or> 2 ^ 31 \<le> d then None
      else if d > 30 then Some (w\<lparr>last_discovery := current\<rparr>)
      else Some w)"

definition df_dn4_forward_to_dnf :: "df_env \<Rightarrow> nat \<Rightarrow> ogs_pkbuf \<Rightarrow> df_world \<Rightarrow> (status \<times> packet list \<times> df_world) option" where
  "df_dn4_forward_to_dnf env n pkbuf w =
     (let sess = df_mem_sess w ! n in
      if \<not> d_forward sess then Some (OGS_OK, [], w)
      else do { w \<leftarrow> df_rediscover_dnf_if_needed env w;
                let h = \<lparr>flags = 0, gtype = OGS_GTPU_MSGTYPE_GPDU, glength = of_nat (pk_len pkbuf),
                         gteid = d_dn4_teid sess, sqn = 0\<rparr>;
                sendbuf \<leftarrow> do { b \<leftarrow> ogs_pkbuf_copy pkbuf;
                                b \<leftarrow> ogs_pkbuf_push OGS_GTPV2C_HEADER_LEN b;
                                write_at (pk_data b) (put_gtp2_header h) b };
                let (rv, out) = df_dn3_send env (dn4_addr w) (contents sendbuf) w;
                Some (rv, out, w) })"

definition df_dn3_send_echo_response :: "df_env \<Rightarrow> sockaddr \<Rightarrow> u32 \<Rightarrow> df_world \<Rightarrow> (status \<times> packet list) option" where
  "df_dn3_send_echo_response env addr teid w =
     do { let h = \<lparr>flags = push_bit 5 1, gtype = OGS_GTPU_MSGTYPE_ECHO_RSP, glength = 0, gteid = teid, sqn = 0\<rparr>;
          p \<leftarrow> ogs_pkbuf_put_data (put_gtp2_header h) (ogs_pkbuf_alloc OGS_GTPV2C_HEADER_LEN);
          Some (df_dn3_send env addr (contents p) w) }"

text \<open>\<open>rcv\<close> is what \<open>recvfrom\<close> returns: a datagram of at most \<open>OGS_MAX_SDU_LEN\<close> bytes and its sender, or an error.\<close>

definition df_dn3_recv_cb :: "df_env \<Rightarrow> (u8 list \<times> sockaddr) option \<Rightarrow> df_world \<Rightarrow> (packet list \<times> df_world) option" where
  "df_dn3_recv_cb env rcv w =
     do { ogs_assert (dn3_open w);
          case rcv of
            None \<Rightarrow> Some ([], w)
          | Some (d, from) \<Rightarrow>
              if d = [] then Some ([], w)
              else do {
                pkbuf \<leftarrow> received OGS_MAX_SDU_LEN d;
                if pk_len pkbuf < OGS_GTPV2C_HEADER_LEN then Some ([], w)
                else do {
                  h \<leftarrow> get_gtp2_header (contents pkbuf);
                  let pkbuf = snd (ogs_pkbuf_pull OGS_GTPV2C_HEADER_LEN pkbuf);
                  if drop_bit 5 (flags h) \<noteq> 1 then Some ([], w)
                  else do {
                    sess \<leftarrow> df_sess_find_by_teid (gteid h) w;
                    case sess of
                      None \<Rightarrow> Some ([], w)
                    | Some n \<Rightarrow>
                        if gtype h = OGS_GTPU_MSGTYPE_GPDU then
                          do { (rv, out, w) \<leftarrow> df_dn4_forward_to_dnf env n pkbuf w; Some (out, w) }
                        else if gtype h = OGS_GTPU_MSGTYPE_ECHO_REQ then
                          do { (rv, out) \<leftarrow> df_dn3_send_echo_response env from (gteid h) w; Some (out, w) }
                        else Some ([], w) } } } }"

subsection \<open>State machine and timers (df-sm.c, timer.c)\<close>

definition DF_EVT_PFCP_MESSAGE :: int where "DF_EVT_PFCP_MESSAGE = OGS_MAX_NUM_OF_PROTO_EVENT + 1"

definition DF_TIMER_PFCP_ASSOCIATION :: int where "DF_TIMER_PFCP_ASSOCIATION = 9"
definition DF_TIMER_PFCP_NO_HEARTBEAT :: int where "DF_TIMER_PFCP_NO_HEARTBEAT = 10"
definition DF_TIMER_DATA_FORWARD :: int where "DF_TIMER_DATA_FORWARD = 11"
definition DF_TIMER_DNF_DISCOVERY :: int where "DF_TIMER_DNF_DISCOVERY = 12"

lemmas df_event_defs = proto_event_defs DF_EVT_PFCP_MESSAGE_def OGS_FSM_ENTRY_SIG_def OGS_FSM_EXIT_SIG_def OGS_FSM_USER_SIG_def

record df_event =
  de_slot :: nat
  de_timer_id :: int
  de_node :: "nat option"
  de_message :: "df_message option"

datatype df_state = DfInitial | DfOperational | DfException | DfFinal

type_synonym df_result = "(df_state ogs_fsm \<times> df_world \<times> df_event fsm_event option) option"

definition df_state_initial :: "df_state ogs_fsm \<Rightarrow> df_world \<Rightarrow> df_event fsm_event option \<Rightarrow> df_result" where
  "df_state_initial s w e = Some (OGS_FSM_TRAN DfOperational s, w, e)"

definition df_state_final :: "df_state ogs_fsm \<Rightarrow> df_world \<Rightarrow> df_event fsm_event option \<Rightarrow> df_result" where
  "df_state_final s w e = Some (s, w, e)"

definition df_state_operational :: "df_env \<Rightarrow> df_state ogs_fsm \<Rightarrow> df_world \<Rightarrow> df_event fsm_event option \<Rightarrow> df_result" where
  "df_state_operational env s w e =
     do { ev \<leftarrow> e;
          if ev_id ev = OGS_FSM_ENTRY_SIG \<or> ev_id ev = OGS_FSM_EXIT_SIG then Some (s, w, e)
          else if ev_id ev = DF_EVT_PFCP_MESSAGE then
            do { d \<leftarrow> ev_data ev;
                 w \<leftarrow> df_pfcp_handle_message env (de_node d) (de_message d) w;
                 Some (s, w, e) }
          else if ev_id ev = OGS_EVENT_SBI_TIMER then Some (s, df_act DfNrfFsm w, e)
          else Some (s, w, e) }"

definition df_state_exception :: "df_state ogs_fsm \<Rightarrow> df_world \<Rightarrow> df_event fsm_event option \<Rightarrow> df_result" where
  "df_state_exception s w e = do { ev \<leftarrow> e; Some (s, w, e) }"

fun df_sem :: "df_env \<Rightarrow> (df_state, df_world, df_event) handlers" where
  "df_sem env DfInitial = df_state_initial"
| "df_sem env DfOperational = df_state_operational env"
| "df_sem env DfException = df_state_exception"
| "df_sem env DfFinal = df_state_final"

text \<open>Events come from a pool; a push to a full queue waits, and the only reader of the queue is the waiting thread.\<close>

definition df_event_new :: "ogs_pool \<Rightarrow> (df_event \<times> ogs_pool) option" where
  "df_event_new p =
     do { (e, p) \<leftarrow> ogs_pool_alloc p;
          n \<leftarrow> e;
          Some (\<lparr>de_slot = n, de_timer_id = 0, de_node = None, de_message = None\<rparr>, p) }"

definition df_event_free :: "df_event \<Rightarrow> ogs_pool \<Rightarrow> ogs_pool" where
  "df_event_free e p = ogs_pool_free (de_slot e) p"

definition push_event :: "df_event \<Rightarrow> ogs_pool \<Rightarrow> df_event fsm_event ogs_queue \<Rightarrow> (ogs_pool \<times> df_event fsm_event ogs_queue) option" where
  "push_event e p q =
     (case queue_push_locked q \<lparr>ev_id = DF_EVT_PFCP_MESSAGE, ev_data = Some e\<rparr> OGS_INFINITE_TIME of
        (None, _, _) \<Rightarrow> None
      | (Some rv, q, _) \<Rightarrow> Some (if rv = OGS_OK then p else df_event_free e p, q))"

definition timer_send_event :: "int \<Rightarrow> nat option \<Rightarrow> ogs_pool \<times> df_event fsm_event ogs_queue
    \<Rightarrow> (ogs_pool \<times> df_event fsm_event ogs_queue) option" where
  "timer_send_event timer_id d pq =
     do { node \<leftarrow> d;
          (e, p) \<leftarrow> df_event_new (fst pq);
          e \<leftarrow> (if timer_id = DF_TIMER_PFCP_ASSOCIATION \<or> timer_id = DF_TIMER_PFCP_NO_HEARTBEAT
                then Some (e\<lparr>de_timer_id := timer_id, de_node := Some node\<rparr>)
                else if timer_id = DF_TIMER_DATA_FORWARD \<or> timer_id = DF_TIMER_DNF_DISCOVERY
                then Some (e\<lparr>de_timer_id := timer_id\<rparr>)
                else None);
          push_event e p (snd pq) }"

text \<open>
  \<open>pfcp_recv_cb\<close>: \<open>rcv\<close> is the received datagram, as the message the library parses, its type, the status of its node identifier, and what looking for
  and adding the node give.
\<close>

datatype node_id_status = NodeIdSuccess | NodeIdNone | NodeIdAbsent | NodeIdError

record pfcp_rcv =
  rcv_message :: "df_message option"
  rcv_type :: nat
  rcv_status :: node_id_status
  rcv_find :: "nat option"
  rcv_add :: "nat option"

definition pfcp_recv_cb :: "pfcp_rcv option \<Rightarrow> ogs_pool \<times> df_event fsm_event ogs_queue \<Rightarrow> (ogs_pool \<times> df_event fsm_event ogs_queue) option" where
  "pfcp_recv_cb rcv pq =
     (case rcv of
        None \<Rightarrow> Some pq
      | Some r \<Rightarrow>
          do { (e, p) \<leftarrow> df_event_new (fst pq);
               case rcv_message r of
                 None \<Rightarrow> Some (df_event_free e p, snd pq)
               | Some msg \<Rightarrow>
                   if rcv_status r = NodeIdError then Some (df_event_free e p, snd pq)
                   else do { node \<leftarrow> (case rcv_find r of
                                       Some n \<Rightarrow> Some (Some n)
                                     | None \<Rightarrow> if rcv_type r = 5 \<or> rcv_type r = 6
                                               then do { ogs_assert (rcv_status r = NodeIdSuccess); Some (rcv_add r) }
                                               else Some None);
                             case node of
                               None \<Rightarrow> Some (df_event_free e p, snd pq)
                             | Some n \<Rightarrow> push_event (e\<lparr>de_node := Some n, de_message := Some msg\<rparr>) p (snd pq) } })"

subsection \<open>The tables\<close>

text \<open>
  A table is sound when each entry belongs to the live session that it maps to, which holds the bytes of its key. A change of the sessions
  that keeps what the keys point to, and only adds PDRs behind the others, keeps the tables.
\<close>

fun key_ok :: "df_sess list \<Rightarrow> df_ptr \<Rightarrow> nat \<Rightarrow> bool" where
  "key_ok ss (DSeid k) n = (k = n)"
| "key_ok ss (DFSeid k) n = (k = n)"
| "key_ok ss (DPdr k i) n = (k = n \<and> i < length (d_pdrs (ss ! k)))"
| "key_ok ss (DRan k) n = False"
| "key_ok ss (DIp4 k) n = (k = n)"
| "key_ok ss (DIp6 k) n = (k = n)"
| "key_ok ss (DLocal bs) n = False"

definition keeps_keys :: "df_sess \<Rightarrow> df_sess \<Rightarrow> bool" where
  "keeps_keys s s' \<longleftrightarrow> d_seid s' = d_seid s \<and> d_f_seid s' = d_f_seid s \<and> d_f_addr s' = d_f_addr s
     \<and> d_ipv4 s' = d_ipv4 s \<and> d_ipv6 s' = d_ipv6 s \<and> (\<exists>x. d_pdrs s' = d_pdrs s @ x)"

lemma keeps_keys_refl [simp]: "keeps_keys s s"
  by (simp add: keeps_keys_def)

lemma key_frame:
  assumes "key_ok ss p n" "keeps_keys (ss ! n) (ss' ! n)"
  shows "df_mem ss' p = df_mem ss p" "key_ok ss' p n"
  using assms by (cases p; auto simp: keeps_keys_def df_f_seid_bytes_def nth_append)+

definition table_ok :: "(nat \<Rightarrow> df_ptr \<Rightarrow> bool) \<Rightarrow> nat set \<Rightarrow> df_sess list \<Rightarrow> df_table \<Rightarrow> bool" where
  "table_ok K L ss t \<longleftrightarrow> hash_inv (df_mem ss) t
     \<and> (\<forall>e \<in> set (entries t). he_val e \<in> L \<and> K (he_val e) (he_key e) \<and> key_ok ss (he_key e) (he_val e)
          \<and> df_mem ss (he_key e) \<noteq> [] \<and> he_klen e = int (length (df_mem ss (he_key e))))"

lemma table_key:
  assumes "table_ok K L ss t" "hash_map (df_mem ss) t bs = Some n"
  shows "n \<in> L \<and> (\<exists>p. K n p \<and> key_ok ss p n \<and> df_mem ss p = bs \<and> bs \<noteq> [])"
proof -
  have "hash_inv (df_mem ss) t" using assms(1) by (simp add: table_ok_def)
  then obtain e where e: "e \<in> set (entries t)" "entry_key (df_mem ss) e = Some bs" "he_val e = n"
    using hash_map_Some_iff assms(2) by metis
  have "df_mem ss (he_key e) = bs"
    using e assms(1) by (auto simp: table_ok_def entry_key_def read_key_def OGS_HASH_KEY_STRING_def)
  then show ?thesis using e assms(1) by (auto simp: table_ok_def)
qed

lemma table_frame:
  assumes "table_ok K L ss t" "\<forall>n \<in> L. keeps_keys (ss ! n) (ss' ! n)" "L \<subseteq> L'"
  shows "table_ok K L' ss' t" "hash_map (df_mem ss') t = hash_map (df_mem ss) t"
proof -
  have e: "df_mem ss' (he_key e) = df_mem ss (he_key e)" "key_ok ss' (he_key e) (he_val e)" if "e \<in> set (entries t)" for e
    using assms(1,2) that key_frame unfolding table_ok_def by metis+
  have i: "hash_inv (df_mem ss) t" using assms(1) by (simp add: table_ok_def)
  show "table_ok K L' ss' t"
    using assms(1,3) e hash_frame(1) [OF i e(1)] by (auto simp: table_ok_def)
  show "hash_map (df_mem ss') t = hash_map (df_mem ss) t" using hash_frame(2) [OF i e(1)] .
qed

lemma table_lookup:
  assumes "table_ok K L (df_mem_sess w) t" "bs \<noteq> []"
  shows "df_lookup t bs w = Some (hash_map (df_mem (df_mem_sess w)) t bs)"
  using assms unfolding df_lookup_def table_ok_def by (auto intro!: ogs_hash_get_correct simp: read_key_def)

lemma table_set:
  assumes "table_ok K L (df_mem_sess w) t" "n \<in> L" "K n p" "key_ok (df_mem_sess w) p n"
    and "df_mem (df_mem_sess w) p = bs" "bs \<noteq> []" "unat (count t) < 2 ^ 30"
    and "hash_map (df_mem (df_mem_sess w)) t bs = None"
  shows "\<exists>t'. df_set t p (int (length bs)) (Some n) w = Some t' \<and> table_ok K L (df_mem_sess w) t'
    \<and> hash_map (df_mem (df_mem_sess w)) t' = (hash_map (df_mem (df_mem_sess w)) t)(bs \<mapsto> n)
    \<and> unat (count t') = unat (count t) + 1"
proof -
  have r: "read_key (df_mem (df_mem_sess w)) p (int (length bs)) = Some bs"
    using assms(5) by (simp add: read_key_def)
  have c: "unat (count t + 1) = unat (count t) + 1" using assms(7) by (simp add: unat_word_ariths)
  show ?thesis
    using set_new_key [OF _ r _ assms(7,8), of n] assms(1-6) c unfolding df_set_def table_ok_def by auto
qed

lemma table_drop:
  assumes "table_ok K L (df_mem_sess w) t" "df_mem (df_mem_sess w) p = bs" "bs \<noteq> []"
  shows "\<exists>t'. df_set t p (int (length bs)) None w = Some t' \<and> table_ok K L (df_mem_sess w) t'
    \<and> hash_map (df_mem (df_mem_sess w)) t' = (hash_map (df_mem (df_mem_sess w)) t)(bs := None)
    \<and> unat (count t') \<le> unat (count t)"
proof -
  have r: "read_key (df_mem (df_mem_sess w)) p (int (length bs)) = Some bs" using assms(2) by (simp add: read_key_def)
  show ?thesis using set_delete_key [OF _ r] assms(1,3) unfolding df_set_def table_ok_def by fastforce
qed

text \<open>A session that no key leads to any more can be given up.\<close>

lemma table_release:
  assumes "table_ok K L ss t" "\<forall>bs. hash_map (df_mem ss) t bs \<noteq> Some n"
  shows "table_ok K (L - {n}) ss t"
proof -
  have i: "hash_inv (df_mem ss) t" using assms(1) by (simp add: table_ok_def)
  have "he_val e \<noteq> n" if e: "e \<in> set (entries t)" for e
  proof -
    have "entry_ok (df_mem ss) (hash_key t) e" using e i by (auto simp: hash_inv_def)
    then obtain bs where "entry_key (df_mem ss) e = Some bs" by (auto simp: entry_ok_def split: option.splits)
    then show ?thesis using assms(2) e hash_map_Some_iff [OF i, of bs n] by blast
  qed
  then show ?thesis using assms(1) by (auto simp: table_ok_def)
qed

subsection \<open>Sessions and their keys\<close>

text \<open>
  The invariant of the DF: the tables are sound, every session of the list is registered under its SEID, and under no other.
\<close>

definition seid_map :: "df_world \<Rightarrow> u8 list \<Rightarrow> nat option" where
  "seid_map w = hash_map (df_mem (df_mem_sess w)) (df_seid_hash w)"

definition teid_map :: "df_world \<Rightarrow> u8 list \<Rightarrow> nat option" where
  "teid_map w = hash_map (df_mem (df_mem_sess w)) (teid_hash w)"

definition tables_ok :: "nat set \<Rightarrow> df_sess list \<Rightarrow> df_world \<Rightarrow> bool" where
  "tables_ok L ss w \<longleftrightarrow> table_ok (\<lambda>n p. p = DSeid n) L ss (df_seid_hash w) \<and> table_ok (\<lambda>n p. p = DFSeid n) L ss (dsmf_f_seid_hash w)
     \<and> table_ok (\<lambda>n p. p = DIp4 n) L ss (ipv4_hash w) \<and> table_ok (\<lambda>n p. p = DIp6 n) L ss (ipv6_hash w)
     \<and> table_ok (\<lambda>n p. \<exists>i. p = DPdr n i) L ss (teid_hash w)"

definition df_inv :: "nat list \<Rightarrow> df_world \<Rightarrow> bool" where
  "df_inv fs w \<longleftrightarrow> pool_repr (df_pool w) fs \<and> length (df_mem_sess w) = size (df_pool w)
     \<and> distinct (df_list w) \<and> set (df_list w) = live (df_pool w) \<and> tables_ok (live (df_pool w)) (df_mem_sess w) w
     \<and> (\<forall>n \<in> live (df_pool w). d_f_seid (df_mem_sess w ! n) = d_seid (df_mem_sess w ! n)
          \<and> seid_map w (le64 (d_seid (df_mem_sess w ! n))) = Some n)"

lemma tables_frame:
  assumes "tables_ok L ss w" "\<forall>n \<in> L. keeps_keys (ss ! n) (ss' ! n)" "L \<subseteq> L'"
  shows "tables_ok L' ss' w" "hash_map (df_mem ss') (df_seid_hash w) = hash_map (df_mem ss) (df_seid_hash w)"
    "hash_map (df_mem ss') (dsmf_f_seid_hash w) = hash_map (df_mem ss) (dsmf_f_seid_hash w)"
    "hash_map (df_mem ss') (teid_hash w) = hash_map (df_mem ss) (teid_hash w)"
  using assms(1) table_frame [OF _ assms(2,3)] unfolding tables_ok_def by blast+

lemma df_inv_fields [simp]:
  "df_inv fs (w\<lparr>df_actions := a\<rparr>) = df_inv fs w" "seid_map (w\<lparr>df_actions := a\<rparr>) = seid_map w"
  "teid_map (w\<lparr>df_actions := a\<rparr>) = teid_map w"
  "df_inv fs (w\<lparr>last_discovery := t\<rparr>) = df_inv fs w" "seid_map (w\<lparr>last_discovery := t\<rparr>) = seid_map w"
  "teid_map (w\<lparr>last_discovery := t\<rparr>) = teid_map w"
  "df_inv fs (w\<lparr>dn3_open := b\<rparr>) = df_inv fs w" "seid_map (w\<lparr>dn3_open := b\<rparr>) = seid_map w"
  "teid_map (w\<lparr>dn3_open := b\<rparr>) = teid_map w"
  by (simp_all add: df_inv_def tables_ok_def seid_map_def teid_map_def)

text \<open>A change of a session that keeps what its keys point to.\<close>

lemma df_inv_upd:
  assumes "df_inv fs w" "keeps_keys (df_mem_sess w ! n) (f (df_mem_sess w ! n))"
  shows "df_inv fs (upd_df n f w)" "seid_map (upd_df n f w) = seid_map w" "teid_map (upd_df n f w) = teid_map w"
proof -
  let ?ss' = "(df_mem_sess w)[n := f (df_mem_sess w ! n)]"
  have k: "keeps_keys (df_mem_sess w ! k) (?ss' ! k)" for k
    using assms(2) by (cases "n < length (df_mem_sess w)"; cases "k = n") (simp_all add: list_update_beyond)
  note fr = tables_frame [of "live (df_pool w)" "df_mem_sess w" w ?ss', OF _ _ subset_refl]
  have t: "tables_ok (live (df_pool w)) (df_mem_sess w) w" using assms(1) by (simp add: df_inv_def)
  show sm: "seid_map (upd_df n f w) = seid_map w" "teid_map (upd_df n f w) = teid_map w"
    using fr(2,4) [OF t] k by (simp_all add: seid_map_def teid_map_def upd_df_def)
  have "d_f_seid (?ss' ! k) = d_f_seid (df_mem_sess w ! k)" "d_seid (?ss' ! k) = d_seid (df_mem_sess w ! k)" for k
    using k [of k] by (simp_all add: keeps_keys_def)
  then show "df_inv fs (upd_df n f w)"
    using assms(1) fr(1) [OF t] k unfolding df_inv_def sm(1) by (auto simp: upd_df_def tables_ok_def)
qed

definition seid_room :: "df_world \<Rightarrow> bool" where
  "seid_room w \<longleftrightarrow> unat (count (df_seid_hash w)) < 2 ^ 30 \<and> unat (count (dsmf_f_seid_hash w)) < 2 ^ 30"

definition teid_room :: "nat \<Rightarrow> df_world \<Rightarrow> bool" where
  "teid_room k w \<longleftrightarrow> unat (count (teid_hash w)) + k \<le> 2 ^ 30"

lemma df_inv_find:
  assumes "df_inv fs w"
  shows "df_sess_find_by_df_n4_seid x w = Some (seid_map w (le64 x))" "df_sess_find_by_teid t w = Some (teid_map w (le32 t))"
proof -
  have "le64 x \<noteq> []" "le32 t \<noteq> []" by (simp_all flip: length_greater_0_conv)
  then show "df_sess_find_by_df_n4_seid x w = Some (seid_map w (le64 x))" "df_sess_find_by_teid t w = Some (teid_map w (le32 t))"
    using assms table_lookup unfolding df_inv_def tables_ok_def df_sess_find_by_df_n4_seid_def df_sess_find_by_teid_def seid_map_def teid_map_def
    by blast+
qed

lemma length_f_seid [simp]: "length (df_f_seid_bytes s) = 40"
  by (simp add: df_f_seid_bytes_def)

lemma f_seid_inject: "df_f_seid_bytes s = df_f_seid_bytes s' \<Longrightarrow> d_f_seid s = d_f_seid s'"
  by (simp add: df_f_seid_bytes_def)

lemma f_seid_fresh:
  assumes "df_inv fs w" "seid_map w (le64 (d_f_seid s)) = None"
  shows "hash_map (df_mem (df_mem_sess w)) (dsmf_f_seid_hash w) (df_f_seid_bytes s) = None"
proof (cases "hash_map (df_mem (df_mem_sess w)) (dsmf_f_seid_hash w) (df_f_seid_bytes s)")
  case k: (Some k)
  have "table_ok (\<lambda>n p. p = DFSeid n) (live (df_pool w)) (df_mem_sess w) (dsmf_f_seid_hash w)"
    using assms(1) by (simp add: df_inv_def tables_ok_def)
  from table_key [OF this k] have l: "k \<in> live (df_pool w)" and "df_f_seid_bytes (df_mem_sess w ! k) = df_f_seid_bytes s"
    by (blast, metis df_mem.simps(2))
  then have "d_f_seid (df_mem_sess w ! k) = d_f_seid s" by (intro f_seid_inject)
  then have "seid_map w (le64 (d_f_seid s)) = Some k" using assms(1) l unfolding df_inv_def by metis
  then show ?thesis using assms(2) by simp
qed simp

definition other_fields :: "df_world \<Rightarrow> bool \<times> sockaddr \<times> int \<times> df_action list" where
  "other_fields w = (dn3_open w, dn4_addr w, last_discovery w, df_actions w)"

definition new_df_sess :: "u64 \<Rightarrow> bool \<Rightarrow> df_sess" where
  "new_df_sess seid v4 = zero_df_sess\<lparr>d_seid := seid, d_f_seid := seid, d_f_addr := of_bool v4\<rparr>"

lemma new_df_sess_simps [simp]:
  "d_seid (new_df_sess seid v4) = seid" "d_f_seid (new_df_sess seid v4) = seid" "d_pdrs (new_df_sess seid v4) = []"
  "d_forward (new_df_sess seid v4) = False" "d_ran_teid (new_df_sess seid v4) = 0" "d_ipv4 (new_df_sess seid v4) = NoIp" "d_ipv6 (new_df_sess seid v4) = NoIp"
  by (simp_all add: new_df_sess_def zero_df_sess_def)

lemma register_session:
  assumes inv: "df_inv (n # fs) w" and room: "seid_room w" and new: "seid_map w (le64 (d_seid s)) = None" and eq: "d_f_seid s = d_seid s"
    and p: "pool_repr p fs" "size p = size (df_pool w)" "live p = insert n (live (df_pool w))" "n \<notin> live (df_pool w)" "n < size (df_pool w)"
  defines "w1 \<equiv> w\<lparr>df_pool := p, df_mem_sess := (df_mem_sess w)[n := s], df_list := df_list w @ [n]\<rparr>"
  shows "\<exists>h h'. df_set (df_seid_hash w1) (DSeid n) 8 (Some n) w1 = Some h
    \<and> df_set (dsmf_f_seid_hash w1) (DFSeid n) 40 (Some n) (w1\<lparr>df_seid_hash := h\<rparr>) = Some h'
    \<and> df_inv fs (w1\<lparr>df_seid_hash := h, dsmf_f_seid_hash := h'\<rparr>) \<and> teid_map w1 = teid_map w
    \<and> seid_map (w1\<lparr>df_seid_hash := h, dsmf_f_seid_hash := h'\<rparr>) = (seid_map w)(le64 (d_seid s) \<mapsto> n)"
proof -
  let ?ss = "df_mem_sess w" and ?L = "live (df_pool w)" and ?ss' = "(df_mem_sess w)[n := s]"
  have t: "tables_ok ?L ?ss w" and len: "length ?ss = size (df_pool w)" using inv by (simp_all add: df_inv_def)
  have "\<forall>k \<in> ?L. keeps_keys (?ss ! k) (?ss' ! k)" using p(4) by (metis keeps_keys_refl nth_list_update_neq)
  note fr = tables_frame [OF t this subset_insertI [of ?L n]]
  have w1: "df_mem_sess w1 = ?ss'" "df_seid_hash w1 = df_seid_hash w" "dsmf_f_seid_hash w1 = dsmf_f_seid_hash w" by (simp_all add: w1_def)
  have n: "?ss' ! n = s" using p(5) len by simp
  have "le64 (d_seid s) \<noteq> []" "df_f_seid_bytes s \<noteq> []" by (simp_all flip: length_greater_0_conv)
  note ne = this
  obtain h where h: "df_set (df_seid_hash w1) (DSeid n) 8 (Some n) w1 = Some h"
    "table_ok (\<lambda>n p. p = DSeid n) (insert n ?L) ?ss' h" "hash_map (df_mem ?ss') h = (seid_map w)(le64 (d_seid s) \<mapsto> n)"
    using table_set [of "\<lambda>n p. p = DSeid n" "insert n ?L" w1 "df_seid_hash w" n "DSeid n" "le64 (d_seid s)"] fr(1,2) room new n ne
    by (auto simp: w1 seid_room_def seid_map_def tables_ok_def)
  obtain h' where h': "df_set (dsmf_f_seid_hash w1) (DFSeid n) 40 (Some n) (w1\<lparr>df_seid_hash := h\<rparr>) = Some h'"
    "table_ok (\<lambda>n p. p = DFSeid n) (insert n ?L) ?ss' h'"
    using table_set [of "\<lambda>n p. p = DFSeid n" "insert n ?L" "w1\<lparr>df_seid_hash := h\<rparr>" "dsmf_f_seid_hash w" n "DFSeid n" "df_f_seid_bytes s"]
      fr(1,3) room n f_seid_fresh [OF inv, of s] new eq ne
    by (auto simp: w1 seid_room_def tables_ok_def)
  let ?w2 = "w1\<lparr>df_seid_hash := h, dsmf_f_seid_hash := h'\<rparr>"
  have sm: "seid_map ?w2 = (seid_map w)(le64 (d_seid s) \<mapsto> n)" using h(3) by (simp add: seid_map_def w1)
  have "seid_map w (le64 (d_seid (?ss ! k))) = Some k" "d_f_seid (?ss ! k) = d_seid (?ss ! k)" if "k \<in> ?L" for k
    using inv that by (auto simp: df_inv_def)
  then have "\<forall>k \<in> insert n ?L. d_f_seid (?ss' ! k) = d_seid (?ss' ! k) \<and> seid_map ?w2 (le64 (d_seid (?ss' ! k))) = Some k"
    using p(4,5) len new eq unfolding sm by (auto simp: nth_list_update split: if_splits) (metis option.distinct(1))
  moreover have "distinct (df_list w @ [n]) \<and> set (df_list w @ [n]) = insert n ?L" using inv p(4) by (auto simp: df_inv_def)
  ultimately have "df_inv fs ?w2"
    using p len fr(1) h(2) h'(2) unfolding df_inv_def by (simp add: w1_def tables_ok_def)
  moreover have "teid_map w1 = teid_map w" using fr(4) by (simp add: teid_map_def w1_def)
  ultimately show ?thesis using h(1) h'(1) sm by blast
qed

lemma sess_add_ok:
  assumes "df_inv (n # fs) w" "seid_room w" "seid_map w (le64 seid) = None"
  shows "\<exists>w'. df_sess_add seid v4 w = Some (n, w') \<and> df_inv fs w' \<and> live (df_pool w') = insert n (live (df_pool w))
    \<and> n \<notin> live (df_pool w) \<and> seid_map w' = (seid_map w)(le64 seid \<mapsto> n) \<and> teid_map w' = teid_map w
    \<and> teid_hash w' = teid_hash w \<and> other_fields w' = other_fields w \<and> df_list w' = df_list w @ [n]
    \<and> df_mem_sess w' = (df_mem_sess w)[n := (new_df_sess seid v4)\<lparr>d_forward := True, d_dn4_teid := ucast seid\<rparr>]"
proof -
  let ?s = "new_df_sess seid v4" and ?f = "\<lambda>s. s\<lparr>d_forward := True, d_dn4_teid := ucast (d_seid s)\<rparr>"
  have pr: "pool_repr (df_pool w) (n # fs)" and len: "length (df_mem_sess w) = size (df_pool w)" using assms(1) by (simp_all add: df_inv_def)
  obtain p where p: "ogs_pool_alloc (df_pool w) = Some (Some n, p)" "pool_repr p fs" "size p = size (df_pool w)"
    "live p = insert n (live (df_pool w))" "n \<notin> live (df_pool w)" "n < size (df_pool w)"
    using pool_alloc_repr [OF pr] by blast
  define w1 where "w1 = w\<lparr>df_pool := p, df_mem_sess := (df_mem_sess w)[n := ?s], df_list := df_list w @ [n]\<rparr>"
  obtain h h' where h: "df_set (df_seid_hash w1) (DSeid n) 8 (Some n) w1 = Some h"
    "df_set (dsmf_f_seid_hash w1) (DFSeid n) 40 (Some n) (w1\<lparr>df_seid_hash := h\<rparr>) = Some h'" "teid_map w1 = teid_map w"
    "df_inv fs (w1\<lparr>df_seid_hash := h, dsmf_f_seid_hash := h'\<rparr>)"
    "seid_map (w1\<lparr>df_seid_hash := h, dsmf_f_seid_hash := h'\<rparr>) = (seid_map w)(le64 seid \<mapsto> n)"
    using register_session [OF assms(1,2) _ _ p(2-6), of ?s] assms(3) by (auto simp: w1_def)
  let ?w2 = "w1\<lparr>df_seid_hash := h, dsmf_f_seid_hash := h'\<rparr>"
  have "keeps_keys (df_mem_sess ?w2 ! n) (?f (df_mem_sess ?w2 ! n))" by (simp add: keeps_keys_def)
  note u = df_inv_upd [of fs ?w2 n ?f, OF h(4) this]
  have "df_sess_add seid v4 w = Some (n, upd_df n ?f ?w2)"
    using h(1,2) p(1) by (simp add: df_sess_add_def new_df_sess_def [symmetric] w1_def [symmetric] Let_def)
      (simp add: w1_def)
  moreover have "teid_map ?w2 = teid_map w" using h(3) by (simp add: teid_map_def)
  ultimately show ?thesis
    using u h(5) p(4-6) len by (auto simp: upd_df_def w1_def other_fields_def)
qed

subsection \<open>Registering the PDRs\<close>

definition same_but_pdrs :: "nat \<Rightarrow> df_world \<Rightarrow> df_world \<Rightarrow> bool" where
  "same_but_pdrs n w w' \<longleftrightarrow> df_pool w' = df_pool w \<and> df_list w' = df_list w \<and> other_fields w' = other_fields w
     \<and> seid_map w' = seid_map w \<and> length (df_mem_sess w') = length (df_mem_sess w)
     \<and> (\<forall>k. k \<noteq> n \<longrightarrow> df_mem_sess w' ! k = df_mem_sess w ! k)
     \<and> (let s = df_mem_sess w ! n; s' = df_mem_sess w' ! n in
        d_seid s' = d_seid s \<and> d_f_seid s' = d_f_seid s \<and> d_forward s' = d_forward s \<and> d_dn4_teid s' = d_dn4_teid s
        \<and> d_ipv4 s' = d_ipv4 s \<and> d_ipv6 s' = d_ipv6 s)"

lemma same_but_pdrs_refl [simp]: "same_but_pdrs n w w"
  by (simp add: same_but_pdrs_def)

lemma same_but_pdrs_trans: "same_but_pdrs n w w' \<Longrightarrow> same_but_pdrs n w' w'' \<Longrightarrow> same_but_pdrs n w w''"
  by (simp add: same_but_pdrs_def Let_def)

definition next_ran_teid :: "u32 \<Rightarrow> df_pdr \<Rightarrow> u32" where
  "next_ran_teid t pdr = (if pdr_teid pdr \<noteq> 0 \<and> (pdr_ipv4 pdr \<or> pdr_ipv6 pdr) then pdr_teid pdr else t)"

lemma live_bound: "df_inv fs w \<Longrightarrow> n \<in> live (df_pool w) \<Longrightarrow> n < length (df_mem_sess w)"
  by (simp add: df_inv_def live_def)

lemma register_pdr_ok:
  assumes inv: "df_inv fs w" and n: "n \<in> live (df_pool w)" and room: "teid_room (Suc k) w"
    and new: "pdr_teid pdr \<noteq> 0 \<Longrightarrow> teid_map w (le32 (pdr_teid pdr)) = None"
  shows "\<exists>w'. register_pdr n pdr w = Some w' \<and> df_inv fs w' \<and> teid_room k w' \<and> same_but_pdrs n w w'
    \<and> teid_map w' = (if pdr_teid pdr = 0 then teid_map w else (teid_map w)(le32 (pdr_teid pdr) \<mapsto> n))
    \<and> d_ran_teid (df_mem_sess w' ! n) = next_ran_teid (d_ran_teid (df_mem_sess w ! n)) pdr"
proof -
  let ?f = "\<lambda>s. s\<lparr>d_pdrs := d_pdrs s @ [Some (pdr_teid pdr)]\<rparr>"
  let ?i = "length (d_pdrs (df_mem_sess w ! n))" and ?w1 = "upd_df n ?f w"
  have nl: "n < length (df_mem_sess w)" by (rule live_bound [OF inv n])
  have "keeps_keys (df_mem_sess w ! n) (?f (df_mem_sess w ! n))" by (simp add: keeps_keys_def)
  note u = df_inv_upd [of fs w n ?f, OF inv this]
  have s1: "same_but_pdrs n w ?w1" using nl u(2) by (simp add: same_but_pdrs_def upd_df_def other_fields_def)
  have m1: "df_mem_sess ?w1 ! n = ?f (df_mem_sess w ! n)" "df_pool ?w1 = df_pool w" "teid_hash ?w1 = teid_hash w"
    using nl by (simp_all add: upd_df_def)
  show ?thesis
  proof (cases "pdr_teid pdr = 0")
    case True
    then show ?thesis using u s1 room m1 by (simp add: register_pdr_def Let_def teid_room_def upd_df_def next_ran_teid_def)
  next
    case False
    have "le32 (pdr_teid pdr) \<noteq> []" by (simp flip: length_greater_0_conv)
    then obtain h where h: "df_set (teid_hash ?w1) (DPdr n ?i) 4 (Some n) ?w1 = Some h"
      "table_ok (\<lambda>n p. \<exists>i. p = DPdr n i) (live (df_pool w)) (df_mem_sess ?w1) h"
      "hash_map (df_mem (df_mem_sess ?w1)) h = (teid_map ?w1)(le32 (pdr_teid pdr) \<mapsto> n)" "unat (count h) = unat (count (teid_hash w)) + 1"
      using table_set [of "\<lambda>n p. \<exists>i. p = DPdr n i" "live (df_pool w)" ?w1 "teid_hash w" n "DPdr n ?i" "le32 (pdr_teid pdr)"] u(1,3) n room new [OF False] m1
      by (auto simp: df_inv_def tables_ok_def teid_room_def teid_map_def)
    let ?w2 = "?w1\<lparr>teid_hash := h\<rparr>" and ?g = "\<lambda>s. s\<lparr>d_ran_addr := Some (ran_of pdr), d_ran_teid := pdr_teid pdr\<rparr>"
    have i2: "df_inv fs ?w2" using u(1) h(2) m1(2) by (simp add: df_inv_def tables_ok_def seid_map_def)
    have t2: "teid_map ?w2 = (teid_map w)(le32 (pdr_teid pdr) \<mapsto> n)" using h(3) u(3) by (simp add: teid_map_def)
    have "keeps_keys (df_mem_sess ?w2 ! n) (?g (df_mem_sess ?w2 ! n))" by (simp add: keeps_keys_def)
    note u3 = df_inv_upd [of fs ?w2 n ?g, OF i2 this]
    have s2: "same_but_pdrs n ?w1 ?w2" by (simp add: same_but_pdrs_def other_fields_def seid_map_def)
    have s3: "same_but_pdrs n ?w2 (upd_df n ?g ?w2)" using nl u3(2) by (simp add: same_but_pdrs_def upd_df_def other_fields_def)
    have r: "teid_room k ?w2" "teid_room k (upd_df n ?g ?w2)" using room h(4) by (simp_all add: teid_room_def upd_df_def)
    have d: "d_ran_teid (df_mem_sess ?w2 ! n) = d_ran_teid (df_mem_sess w ! n)" "d_ran_teid (df_mem_sess (upd_df n ?g ?w2) ! n) = pdr_teid pdr"
      using m1(1) nl by (simp_all add: upd_df_def)
    have "register_pdr n pdr w = Some (if pdr_ipv4 pdr \<or> pdr_ipv6 pdr then upd_df n ?g ?w2 else ?w2)"
      using False h(1) by (simp add: register_pdr_def Let_def)
    then show ?thesis
      using False i2 t2 u3 r d same_but_pdrs_trans [OF s1 s2] same_but_pdrs_trans [OF same_but_pdrs_trans [OF s1 s2] s3]
      by (simp add: next_ran_teid_def)
  qed
qed

definition teids_of :: "df_pdr list \<Rightarrow> u32 set" where
  "teids_of pdrs = pdr_teid ` set pdrs - {0}"

lemma register_pdrs_ok:
  assumes "df_inv fs w" "n \<in> live (df_pool w)" "teid_room (length pdrs + k) w"
    and "distinct (filter (\<lambda>t. t \<noteq> 0) (map pdr_teid pdrs))" "\<forall>t \<in> teids_of pdrs. teid_map w (le32 t) = None"
  shows "\<exists>w'. foldM (register_pdr n) pdrs w = Some w' \<and> df_inv fs w' \<and> teid_room k w' \<and> same_but_pdrs n w w'
    \<and> teid_map w' = (\<lambda>bs. if bs \<in> le32 ` teids_of pdrs then Some n else teid_map w bs)
    \<and> d_ran_teid (df_mem_sess w' ! n) = foldl next_ran_teid (d_ran_teid (df_mem_sess w ! n)) pdrs"
  using assms
proof (induction pdrs arbitrary: w)
  case Nil then show ?case by (simp add: teids_of_def)
next
  case (Cons pdr pdrs)
  have "teid_map w (le32 (pdr_teid pdr)) = None" if "pdr_teid pdr \<noteq> 0" using Cons.prems(5) that by (simp add: teids_of_def)
  then obtain w1 where w1: "register_pdr n pdr w = Some w1" "df_inv fs w1" "teid_room (length pdrs + k) w1" "same_but_pdrs n w w1"
    "teid_map w1 = (if pdr_teid pdr = 0 then teid_map w else (teid_map w)(le32 (pdr_teid pdr) \<mapsto> n))"
    "d_ran_teid (df_mem_sess w1 ! n) = next_ran_teid (d_ran_teid (df_mem_sess w ! n)) pdr"
    using register_pdr_ok [OF Cons.prems(1,2), of "length pdrs + k" pdr] Cons.prems(3) by auto
  have sub: "teids_of pdrs \<subseteq> teids_of (pdr # pdrs)" by (auto simp: teids_of_def)
  have "pdr_teid pdr \<noteq> t" if "t \<in> teids_of pdrs" for t using Cons.prems(4) that by (force simp: teids_of_def)
  then have f: "\<forall>t \<in> teids_of pdrs. teid_map w1 (le32 t) = None"
    using Cons.prems(5) sub unfolding w1(5) by auto
  have "n \<in> live (df_pool w1)" "distinct (filter (\<lambda>t. t \<noteq> 0) (map pdr_teid pdrs))"
    using w1(4) Cons.prems(2,4) by (simp_all add: same_but_pdrs_def split: if_splits)
  from Cons.IH [OF w1(2) this(1) w1(3) this(2) f]
  obtain w2 where w2: "foldM (register_pdr n) pdrs w1 = Some w2" "df_inv fs w2" "teid_room k w2" "same_but_pdrs n w1 w2"
    "teid_map w2 = (\<lambda>bs. if bs \<in> le32 ` teids_of pdrs then Some n else teid_map w1 bs)"
    "d_ran_teid (df_mem_sess w2 ! n) = foldl next_ran_teid (d_ran_teid (df_mem_sess w1 ! n)) pdrs"
    by blast
  have "teids_of (pdr # pdrs) = (if pdr_teid pdr = 0 then teids_of pdrs else insert (pdr_teid pdr) (teids_of pdrs))"
    by (auto simp: teids_of_def)
  then have "teid_map w2 = (\<lambda>bs. if bs \<in> le32 ` teids_of (pdr # pdrs) then Some n else teid_map w bs)"
    unfolding w2(5) w1(5) by (auto simp: fun_eq_iff)
  then show ?case using w1 w2 same_but_pdrs_trans [OF w1(4) w2(4)] by simp
qed

subsection \<open>Establishment\<close>

text \<open>A request that the PFCP library accepts, for a new tunnel without UE addresses.\<close>

definition est_accepted :: "est_lib \<Rightarrow> bool" where
  "est_accepted lib \<longleftrightarrow> first_failure [el_pdr_cause lib, el_far_cause lib, el_qer_cause lib, el_bar_cause lib] = None
     \<and> el_apn_dnn lib \<noteq> Some None \<and> el_gtpu_ok lib \<and> \<not> el_restoration lib \<and> el_response_ok lib
     \<and> (el_pdn_type lib = None \<or> (\<forall>p \<in> set (el_pdrs lib). pdr_ue_ip_len p = 0))
     \<and> length (el_pdrs lib) \<le> OGS_MAX_NUM_OF_PDR"

lemma set_ue_ips_none:
  "pdn = None \<or> (\<forall>p \<in> set pdrs. pdr_ue_ip_len p = 0) \<Longrightarrow> set_ue_ips env n pdn pdrs w = Some (OGS_PFCP_CAUSE_REQUEST_ACCEPTED, w)"
  by (induction pdrs) (auto split: option.splits)

definition pfcp_event :: "nat \<Rightarrow> nat \<Rightarrow> df_message \<Rightarrow> df_event fsm_event" where
  "pfcp_event slot node msg = \<lparr>ev_id = DF_EVT_PFCP_MESSAGE,
     ev_data = Some \<lparr>de_slot = slot, de_timer_id = 0, de_node = Some node, de_message = Some msg\<rparr>\<rparr>"

lemma dispatch_pfcp:
  assumes "state sm = Some DfOperational"
  shows "ogs_fsm_dispatch (df_sem env) sm w (Some (pfcp_event slot node msg))
    = map_option (\<lambda>w. (sm, w, Some (pfcp_event slot node msg))) (df_pfcp_handle_message env (Some node) (Some msg) w)"
  using assms
  by (cases "df_pfcp_handle_message env (Some node) (Some msg) w")
    (simp_all add: ogs_fsm_dispatch_def df_state_operational_def pfcp_event_def df_event_defs)

lemma establishment_ok:
  assumes "df_inv (n # fs) w" "seid_room w" "teid_room OGS_MAX_NUM_OF_PDR w" "seid_map w (le64 seid) = None" "v4 \<or> v6" "est_accepted lib"
    and "distinct (filter (\<lambda>t. t \<noteq> 0) (map pdr_teid (el_pdrs lib)))" "\<forall>t \<in> teids_of (el_pdrs lib). teid_map w (le32 t) = None"
  shows "\<exists>w'. df_pfcp_handle_message env (Some node) (Some \<lparr>m_seid = hs, m_body = SessionEstablishment (Some (seid, v4, v6)) lib, m_rx = (OGS_OK, x)\<rparr>) w = Some w'
    \<and> df_inv fs w' \<and> seid_map w' = (seid_map w)(le64 seid \<mapsto> n)
    \<and> teid_map w' = (\<lambda>bs. if bs \<in> le32 ` teids_of (el_pdrs lib) then Some n else teid_map w bs)
    \<and> df_actions w' = df_actions w @ [DfEstablishmentResponse x seid seid (map pdr_teid (el_pdrs lib))]
    \<and> dn3_open w' = dn3_open w \<and> dn4_addr w' = dn4_addr w \<and> last_discovery w' = last_discovery w
    \<and> (let s = df_mem_sess w' ! n in d_seid s = seid \<and> d_forward s \<and> d_dn4_teid s = ucast seid
         \<and> d_ran_teid s = foldl next_ran_teid 0 (el_pdrs lib) \<and> d_ipv4 s = NoIp \<and> d_ipv6 s = NoIp)"
proof -
  let ?pdrs = "el_pdrs lib"
  obtain w1 where w1: "df_sess_add seid v4 w = Some (n, w1)" "df_inv fs w1" "live (df_pool w1) = insert n (live (df_pool w))"
    "seid_map w1 = (seid_map w)(le64 seid \<mapsto> n)" "teid_map w1 = teid_map w" "teid_hash w1 = teid_hash w" "other_fields w1 = other_fields w"
    "df_mem_sess w1 = (df_mem_sess w)[n := (new_df_sess seid v4)\<lparr>d_forward := True, d_dn4_teid := ucast seid\<rparr>]"
    using sess_add_ok [OF assms(1,2,4), of v4] by blast
  have nl: "n < length (df_mem_sess w1)" using live_bound [OF w1(2)] w1(3) by simp
  have take: "take OGS_MAX_NUM_OF_PDR ?pdrs = ?pdrs" using assms(6) by (simp add: est_accepted_def)
  have "teid_room (length ?pdrs + 0) w1" using assms(3,6) w1(6) by (simp add: teid_room_def est_accepted_def)
  moreover have "n \<in> live (df_pool w1)" using w1(3) by simp
  ultimately obtain w2 where w2: "foldM (register_pdr n) ?pdrs w1 = Some w2" "df_inv fs w2" "same_but_pdrs n w1 w2"
    "teid_map w2 = (\<lambda>bs. if bs \<in> le32 ` teids_of ?pdrs then Some n else teid_map w1 bs)"
    "d_ran_teid (df_mem_sess w2 ! n) = foldl next_ran_teid 0 ?pdrs"
    using register_pdrs_ok [OF w1(2) _ _ assms(7), of n 0] assms(8) w1(5,8) nl by auto
  define w3 where "w3 = (case el_apn_dnn lib of Some dnn \<Rightarrow> upd_df n (\<lambda>s. s\<lparr>d_apn_dnn := dnn\<rparr>) w2 | None \<Rightarrow> w2)"
  have "keeps_keys (df_mem_sess w2 ! n) ((df_mem_sess w2 ! n)\<lparr>d_apn_dnn := dnn\<rparr>)" for dnn by (simp add: keeps_keys_def)
  from df_inv_upd [of fs w2 n "\<lambda>s. s\<lparr>d_apn_dnn := dnn\<rparr>" for dnn, OF w2(2) this]
  have w3: "df_inv fs w3" "seid_map w3 = seid_map w2" "teid_map w3 = teid_map w2" using w2(2) by (auto simp: w3_def split: option.splits)
  have l2: "n < length (df_mem_sess w2)" using nl w2(3) by (simp add: same_but_pdrs_def)
  have f3: "d_ran_teid (df_mem_sess w3 ! n) = foldl next_ran_teid 0 ?pdrs" "same_but_pdrs n w2 w3"
    using w2(5) l2 w3(2) by (auto simp: w3_def same_but_pdrs_def upd_df_def other_fields_def split: option.splits)
  have s3: "d_seid (df_mem_sess w3 ! n) = seid" "d_f_seid (df_mem_sess w3 ! n) = seid" "d_forward (df_mem_sess w3 ! n)"
    "d_dn4_teid (df_mem_sess w3 ! n) = ucast seid" "d_ipv4 (df_mem_sess w3 ! n) = NoIp" "d_ipv6 (df_mem_sess w3 ! n) = NoIp" "other_fields w3 = other_fields w" "seid_map w3 = (seid_map w)(le64 seid \<mapsto> n)"
    using same_but_pdrs_trans [OF w2(3) f3(2)] w1(4,7,8) nl by (simp_all add: same_but_pdrs_def Let_def)
  have "df_n4_handle_session_establishment_request env lib (Some n) x w1
      = Some (df_act (DfEstablishmentResponse x seid seid (map pdr_teid ?pdrs)) w3)"
    using assms(6) w2(1) s3(1,2) set_ue_ips_none [of "el_pdn_type lib" ?pdrs env n w3]
    by (auto simp: df_n4_handle_session_establishment_request_def est_accepted_def take w3_def [symmetric] Let_def
        df_pfcp_send_session_establishment_response_def split: if_splits)
  then have "df_pfcp_handle_message env (Some node) (Some \<lparr>m_seid = hs, m_body = SessionEstablishment (Some (seid, v4, v6)) lib, m_rx = (OGS_OK, x)\<rparr>) w
      = Some (df_act (DfEstablishmentResponse x seid seid (map pdr_teid ?pdrs)) w3)"
    using w1(1) assms(5) by (auto simp: df_pfcp_handle_message_def df_sess_add_by_message_def)
  then show ?thesis
    using w3 f3(1) s3 w2(4) unfolding w1(5) by (simp add: df_act_def other_fields_def)
qed

subsection \<open>Relay\<close>

definition no_overflow :: "df_env \<Rightarrow> df_world \<Rightarrow> bool" where
  "no_overflow env w \<longleftrightarrow> - (2 ^ 31) \<le> signed_take_bit 31 (df_time_now env) - last_discovery w
     \<and> signed_take_bit 31 (df_time_now env) - last_discovery w < 2 ^ 31"

lemma rediscover_ok:
  assumes "no_overflow env w"
  shows "\<exists>t. df_rediscover_dnf_if_needed env w = Some (w\<lparr>last_discovery := t\<rparr>)"
  using assms by (cases w) (auto simp: df_rediscover_dnf_if_needed_def no_overflow_def Let_def)

lemma forward_ok:
  assumes "pkbuf_ok p" "12 \<le> ogs_pkbuf_headroom p" "no_overflow env w" "d_forward (df_mem_sess w ! n)" "dn3_open w"
  defines "out \<equiv> [0, 255] @ be16 (of_nat (pk_len p)) @ be32 (d_dn4_teid (df_mem_sess w ! n)) @ [0, 0, 0, 0] @ contents p"
  shows "\<exists>t. df_dn4_forward_to_dnf env n p w
    = Some (if df_sendto env out (dn4_addr w) < 0 then OGS_ERROR else OGS_OK, [(dn4_addr w, out)], w\<lparr>last_discovery := t\<rparr>)"
proof -
  let ?h = "\<lparr>flags = 0, gtype = OGS_GTPU_MSGTYPE_GPDU, glength = of_nat (pk_len p), gteid = d_dn4_teid (df_mem_sess w ! n), sqn = 0\<rparr>"
  have h: "put_gtp2_header ?h = [0, 255] @ be16 (of_nat (pk_len p)) @ be32 (d_dn4_teid (df_mem_sess w ! n)) @ [0, 0, 0, 0]"
    by (simp add: put_gtp2_header_def OGS_GTPU_MSGTYPE_GPDU_def be32_def [of 0])
  obtain b1 b2 q where q: "ogs_pkbuf_copy p = Some b1" "ogs_pkbuf_push 12 b1 = Some b2"
    "write_at (pk_data b2) (put_gtp2_header ?h) b2 = Some q" "contents q = out"
    using encapsulate [OF assms(1,2), of "put_gtp2_header ?h"] h by (auto simp: out_def bind_eq_Some_conv)
  obtain t where "df_rediscover_dnf_if_needed env w = Some (w\<lparr>last_discovery := t\<rparr>)" using rediscover_ok [OF assms(3)] by blast
  moreover have "out \<noteq> []" by (simp add: out_def)
  ultimately show ?thesis
    using q assms(4,5) by (auto simp: df_dn4_forward_to_dnf_def OGS_GTPV2C_HEADER_LEN_def df_dn3_send_def Let_def)
qed

lemma df_recv_gpdu:
  assumes "df_inv fs w" "dn3_open w" "12 \<le> length d" "length d \<le> OGS_MAX_SDU_LEN" "get_gtp2_header d = Some h"
    and "drop_bit 5 (flags h) = 1" "gtype h = OGS_GTPU_MSGTYPE_GPDU" "teid_map w (le32 (gteid h)) = Some n"
    and "d_forward (df_mem_sess w ! n)" "no_overflow env w"
  shows "\<exists>t. df_dn3_recv_cb env (Some (d, from)) w
    = Some ([(dn4_addr w, [0, 255] @ be16 (of_nat (length d - 12)) @ be32 (d_dn4_teid (df_mem_sess w ! n)) @ [0, 0, 0, 0] @ drop 12 d)],
        w\<lparr>last_discovery := t\<rparr>)"
proof -
  obtain q p where q: "received OGS_MAX_SDU_LEN d = Some q" "pk_len q = length d" "contents q = d" "ogs_pkbuf_pull 12 q = (True, p)"
    "pkbuf_ok p" "ogs_pkbuf_headroom p = 12" "contents p = drop 12 d" "pk_len p = length d - 12"
    using header_pulled [OF assms(3,4)] by blast
  obtain t rv where "df_dn4_forward_to_dnf env n p w = Some (rv, [(dn4_addr w, [0, 255] @ be16 (of_nat (length d - 12))
      @ be32 (d_dn4_teid (df_mem_sess w ! n)) @ [0, 0, 0, 0] @ drop 12 d)], w\<lparr>last_discovery := t\<rparr>)"
    using forward_ok [OF q(5) _ assms(10,9,2)] q(6-8) by auto
  moreover have "d \<noteq> []" using assms(3) by auto
  ultimately show ?thesis
    using q(1-4) assms df_inv_find(2) [OF assms(1), of "gteid h"]
    by (auto simp: df_dn3_recv_cb_def OGS_GTPV2C_HEADER_LEN_def Let_def)
qed

subsection \<open>Removal\<close>

lemma drop_teid_ok:
  assumes "tables_ok L (df_mem_sess w) w"
  shows "\<exists>h. drop_teid n w = Some (w\<lparr>teid_hash := h\<rparr>) \<and> tables_ok L (df_mem_sess w) (w\<lparr>teid_hash := h\<rparr>)
    \<and> teid_map (w\<lparr>teid_hash := h\<rparr>) = (if d_ran_teid (df_mem_sess w ! n) = 0 then teid_map w
         else (teid_map w)(le32 (d_ran_teid (df_mem_sess w ! n)) := None))"
proof (cases "d_ran_teid (df_mem_sess w ! n) = 0")
  case True then show ?thesis using assms by (intro exI [of _ "teid_hash w"]) (simp add: drop_teid_def)
next
  case False
  have "le32 (d_ran_teid (df_mem_sess w ! n)) \<noteq> []" by (simp flip: length_greater_0_conv)
  then obtain h where "df_set (teid_hash w) (DRan n) 4 None w = Some h" "table_ok (\<lambda>n p. \<exists>i. p = DPdr n i) L (df_mem_sess w) h"
    "hash_map (df_mem (df_mem_sess w)) h = (teid_map w)(le32 (d_ran_teid (df_mem_sess w ! n)) := None)"
    using table_drop [of "\<lambda>n p. \<exists>i. p = DPdr n i" L w "teid_hash w" "DRan n" "le32 (d_ran_teid (df_mem_sess w ! n))"] assms
    by (auto simp: tables_ok_def teid_map_def)
  then show ?thesis using assms False by (intro exI [of _ h]) (simp add: drop_teid_def tables_ok_def teid_map_def)
qed

lemma key_gone:
  assumes "table_ok K L ss t" "\<And>p. K n p \<Longrightarrow> key_ok ss p n \<Longrightarrow> df_mem ss p \<noteq> [] \<Longrightarrow> hash_map (df_mem ss) t (df_mem ss p) \<noteq> Some n"
  shows "hash_map (df_mem ss) t bs \<noteq> Some n"
  using table_key [OF assms(1)] assms(2) by blast

text \<open>A session whose keys are all out of the tables leaves the invariant in place when its memory is given back.\<close>

lemma release_ok:
  assumes inv: "tables_ok (live (df_pool w)) (df_mem_sess w) w" and p: "pool_repr (df_pool w) fs" "n \<in> live (df_pool w)"
    and len: "length (df_mem_sess w) = size (df_pool w)"
    and l: "distinct (df_list w)" "set (df_list w) = live (df_pool w) - {n}"
    and gone: "\<forall>bs. seid_map w bs \<noteq> Some n \<and> teid_map w bs \<noteq> Some n
      \<and> hash_map (df_mem (df_mem_sess w)) (dsmf_f_seid_hash w) bs \<noteq> Some n
      \<and> hash_map (df_mem (df_mem_sess w)) (ipv4_hash w) bs \<noteq> Some n \<and> hash_map (df_mem (df_mem_sess w)) (ipv6_hash w) bs \<noteq> Some n"
    and reg: "\<forall>k \<in> live (df_pool w) - {n}. d_f_seid (df_mem_sess w ! k) = d_seid (df_mem_sess w ! k)
      \<and> seid_map w (le64 (d_seid (df_mem_sess w ! k))) = Some k"
  defines "w' \<equiv> (ogs_pfcp_sess_clear n w)\<lparr>df_pool := ogs_pool_free n (df_pool w)\<rparr>"
  shows "df_inv (fs @ [n]) w'" "seid_map w' = seid_map w" "teid_map w' = teid_map w"
proof -
  let ?L = "live (df_pool w) - {n}" and ?ss = "df_mem_sess w"
  let ?ss' = "?ss[n := (?ss ! n)\<lparr>d_pdrs := []\<rparr>]"
  have t: "tables_ok ?L ?ss w"
    using inv gone table_release unfolding tables_ok_def seid_map_def teid_map_def by blast
  have "\<forall>k \<in> ?L. keeps_keys (?ss ! k) (?ss' ! k)" by simp
  note fr = tables_frame [OF t this subset_refl]
  have w': "df_mem_sess w' = ?ss'" "df_pool w' = ogs_pool_free n (df_pool w)" "df_list w' = df_list w" "df_seid_hash w' = df_seid_hash w"
    "teid_hash w' = teid_hash w" "tables_ok L ss w' = tables_ok L ss w" for L ss
    by (simp_all add: w'_def ogs_pfcp_sess_clear_def upd_df_def tables_ok_def)
  show sm: "seid_map w' = seid_map w" "teid_map w' = teid_map w" using fr by (simp_all add: seid_map_def teid_map_def w')
  show "df_inv (fs @ [n]) w'"
    using pool_free_repr [OF p] l len fr(1) reg unfolding df_inv_def sm(1) w' by simp
qed

lemma drop_seids_ok:
  fixes n :: nat
  assumes "tables_ok L (df_mem_sess w) w"
  defines "s \<equiv> df_mem_sess w ! n" and "m \<equiv> df_mem (df_mem_sess w)"
  shows "\<exists>h h'. drop_seids n w = Some (w\<lparr>df_seid_hash := h, dsmf_f_seid_hash := h'\<rparr>)
    \<and> tables_ok L (df_mem_sess w) (w\<lparr>df_seid_hash := h, dsmf_f_seid_hash := h'\<rparr>)
    \<and> hash_map m h = (seid_map w)(le64 (d_seid s) := None) \<and> hash_map m h' (df_f_seid_bytes s) = None"
proof -
  have ne: "le64 (d_seid s) \<noteq> []" "df_f_seid_bytes s \<noteq> []" by (simp_all flip: length_greater_0_conv)
  obtain h where h: "df_set (df_seid_hash w) (DSeid n) 8 None w = Some h" "table_ok (\<lambda>n p. p = DSeid n) L (df_mem_sess w) h"
    "hash_map m h = (seid_map w)(le64 (d_seid s) := None)"
    using table_drop [of "\<lambda>n p. p = DSeid n" L w "df_seid_hash w" "DSeid n" "le64 (d_seid s)"] assms(1) ne
    by (auto simp: tables_ok_def seid_map_def s_def m_def)
  let ?w = "w\<lparr>df_seid_hash := h\<rparr>"
  obtain h' where "df_set (dsmf_f_seid_hash w) (DFSeid n) 40 None ?w = Some h'" "table_ok (\<lambda>n p. p = DFSeid n) L (df_mem_sess w) h'"
    "hash_map m h' = (hash_map m (dsmf_f_seid_hash w))(df_f_seid_bytes s := None)"
    using table_drop [of "\<lambda>n p. p = DFSeid n" L ?w "dsmf_f_seid_hash w" "DFSeid n" "df_f_seid_bytes s"] assms(1) ne
    by (auto simp: tables_ok_def s_def m_def)
  then show ?thesis using h assms(1) by (intro exI [of _ h] exI [of _ h']) (auto simp: drop_seids_def tables_ok_def)
qed

lemma sess_remove_ok:
  assumes inv: "df_inv fs w" and n: "n \<in> live (df_pool w)"
    and ips: "d_ipv4 (df_mem_sess w ! n) = NoIp" "d_ipv6 (df_mem_sess w ! n) = NoIp"
    and ts: "\<forall>t. teid_map w (le32 t) = Some n \<longrightarrow> t = d_ran_teid (df_mem_sess w ! n) \<and> t \<noteq> 0"
  shows "\<exists>w'. df_sess_remove n w = Some w' \<and> df_inv (fs @ [n]) w' \<and> other_fields w' = other_fields w
    \<and> seid_map w' = (seid_map w)(le64 (d_seid (df_mem_sess w ! n)) := None)
    \<and> teid_map w' = (if d_ran_teid (df_mem_sess w ! n) = 0 then teid_map w else (teid_map w)(le32 (d_ran_teid (df_mem_sess w ! n)) := None))"
proof -
  let ?s = "df_mem_sess w ! n" and ?m = "df_mem (df_mem_sess w)" and ?L = "live (df_pool w)"
  let ?w0 = "w\<lparr>df_list := remove1 n (df_list w)\<rparr>"
  have t0: "tables_ok ?L (df_mem_sess ?w0) ?w0" using inv by (simp add: df_inv_def tables_ok_def)
  obtain h1 h2 where h: "drop_seids n ?w0 = Some (?w0\<lparr>df_seid_hash := h1, dsmf_f_seid_hash := h2\<rparr>)"
    "tables_ok ?L (df_mem_sess w) (?w0\<lparr>df_seid_hash := h1, dsmf_f_seid_hash := h2\<rparr>)"
    "hash_map ?m h1 = (seid_map w)(le64 (d_seid ?s) := None)" "hash_map ?m h2 (df_f_seid_bytes ?s) = None"
    using drop_seids_ok [OF t0, of n] by (auto simp: seid_map_def)
  let ?w2 = "?w0\<lparr>df_seid_hash := h1, dsmf_f_seid_hash := h2\<rparr>"
  obtain h3 where h3: "drop_teid n ?w2 = Some (?w2\<lparr>teid_hash := h3\<rparr>)" "tables_ok ?L (df_mem_sess w) (?w2\<lparr>teid_hash := h3\<rparr>)"
    "teid_map (?w2\<lparr>teid_hash := h3\<rparr>) = (if d_ran_teid ?s = 0 then teid_map w else (teid_map w)(le32 (d_ran_teid ?s) := None))"
    using drop_teid_ok [of ?L ?w2 n] h(2) by (auto simp: teid_map_def)
  define w3 where "w3 = ?w2\<lparr>teid_hash := h3\<rparr>"
  have m3: "df_mem_sess w3 = df_mem_sess w" "df_seid_hash w3 = h1" "dsmf_f_seid_hash w3 = h2" "ipv4_hash w3 = ipv4_hash w" "ipv6_hash w3 = ipv6_hash w"
    "df_pool w3 = df_pool w" "df_list w3 = remove1 n (df_list w)" "other_fields w3 = other_fields w"
    by (simp_all add: w3_def other_fields_def)
  have sm: "seid_map w3 = (seid_map w)(le64 (d_seid ?s) := None)" using h(3) by (simp add: seid_map_def m3)
  have tm: "teid_map w3 = (if d_ran_teid ?s = 0 then teid_map w else (teid_map w)(le32 (d_ran_teid ?s) := None))" using h3(3) by (simp add: w3_def)
  have t3: "tables_ok ?L (df_mem_sess w) w3" using h3(2) by (simp add: w3_def)
  note tt = t3 [unfolded tables_ok_def m3(2-5)]
  have g: "seid_map w3 bs \<noteq> Some n" "hash_map ?m h2 bs \<noteq> Some n" for bs
    unfolding seid_map_def m3(1,2)
    by (rule key_gone [OF tt [THEN conjunct1]], use h(3) in simp, rule key_gone [OF tt [THEN conjunct2, THEN conjunct1]], use h(4) in simp)
  have g4: "hash_map ?m (ipv4_hash w) bs \<noteq> Some n" "hash_map ?m (ipv6_hash w) bs \<noteq> Some n" for bs
    using table_key [of "\<lambda>n p. p = DIp4 n" ?L "df_mem_sess w" "ipv4_hash w" bs n] table_key [of "\<lambda>n p. p = DIp6 n" ?L "df_mem_sess w" "ipv6_hash w" bs n] tt ips
    by auto
  have g5: "teid_map w3 bs \<noteq> Some n" for bs
    unfolding teid_map_def m3(1)
  proof (rule key_gone)
    show "table_ok (\<lambda>n p. \<exists>i. p = DPdr n i) ?L (df_mem_sess w) (teid_hash w3)" using t3 by (simp add: tables_ok_def)
    fix p assume p: "\<exists>i. p = DPdr n i" "key_ok (df_mem_sess w) p n" "?m p \<noteq> []"
    then obtain t where "?m p = le32 t" by (auto split: option.splits if_splits)
    then show "hash_map ?m (teid_hash w3) (?m p) \<noteq> Some n" using ts tm by (auto simp: teid_map_def m3 split: if_splits)
  qed
  have reg: "\<forall>k \<in> ?L - {n}. d_f_seid (df_mem_sess w3 ! k) = d_seid (df_mem_sess w3 ! k)
      \<and> seid_map w3 (le64 (d_seid (df_mem_sess w3 ! k))) = Some k"
  proof
    fix k assume k: "k \<in> ?L - {n}"
    then have "seid_map w (le64 (d_seid (df_mem_sess w ! k))) = Some k" "d_f_seid (df_mem_sess w ! k) = d_seid (df_mem_sess w ! k)"
      "seid_map w (le64 (d_seid ?s)) = Some n" using inv n by (simp_all add: df_inv_def)
    then show "d_f_seid (df_mem_sess w3 ! k) = d_seid (df_mem_sess w3 ! k) \<and> seid_map w3 (le64 (d_seid (df_mem_sess w3 ! k))) = Some k"
      using k unfolding sm m3(1) by auto
  qed
  let ?w' = "(ogs_pfcp_sess_clear n w3)\<lparr>df_pool := ogs_pool_free n (df_pool w3)\<rparr>"
  have r: "df_inv (fs @ [n]) ?w'" "seid_map ?w' = seid_map w3" "teid_map ?w' = teid_map w3"
    using release_ok [of w3 fs n] t3 inv n g g4 g5 reg by (simp_all add: m3 df_inv_def)
  have "df_sess_remove n w = Some ?w'"
    using h(1) h3(1) ips by (simp add: df_sess_remove_def drop_ue4_def drop_ue6_def w3_def Let_def)
      (simp add: ogs_pfcp_sess_clear_def upd_df_def)
  moreover have "other_fields ?w' = other_fields w"
    using m3(8) by (simp add: other_fields_def ogs_pfcp_sess_clear_def upd_df_def)
  ultimately show ?thesis using r sm tm by auto
qed

subsection \<open>The started DF\<close>

lemma tables_ok_init: "tables_ok {} ss (df_context_init n garbage sd)"
  by (simp add: tables_ok_def table_ok_def df_context_init_def entries_make)

lemma df_inv_init:
  assumes "0 < n" "length garbage = n"
  shows "df_inv [0..<n] (df_context_init n garbage sd)"
    "seid_map (df_context_init n garbage sd) = (\<lambda>_. None)" "teid_map (df_context_init n garbage sd) = (\<lambda>_. None)"
    "seid_room (df_context_init n garbage sd)" "k \<le> 2 ^ 30 \<Longrightarrow> teid_room k (df_context_init n garbage sd)"
proof -
  let ?p = "ogs_pool_init n (replicate n 0) 0 sd"
  have p: "pool_repr ?p [0..<n]" by (rule pool_repr_init [OF assms(1)])
  have sz: "size ?p = n" by (simp add: ogs_pool_init_def)
  moreover have "live ?p = {}" using live_repr [OF p] unfolding sz by (simp add: lessThan_atLeast0)
  moreover have "df_pool (df_context_init n garbage sd) = ?p" "df_mem_sess (df_context_init n garbage sd) = garbage"
    "df_list (df_context_init n garbage sd) = []" by (simp_all add: df_context_init_def)
  ultimately show "df_inv [0..<n] (df_context_init n garbage sd)"
    using p assms(2) tables_ok_init [of garbage n garbage sd] unfolding df_inv_def by simp
qed (simp_all add: df_context_init_def seid_map_def teid_map_def seid_room_def teid_room_def)

definition sample_pdr :: "u32 \<Rightarrow> df_pdr" where
  "sample_pdr t = \<lparr>pdr_teid = t, pdr_ipv4 = True, pdr_ipv6 = False, pdr_addr = 0x0a000001, pdr_addr6 = [], pdr_f_teid_len = 9, pdr_ch = False,
     pdr_ue_ip_len = 0, pdr_ue_ipv4 = False, pdr_ue_ipv6 = False, pdr_dnn = False\<rparr>"

definition sample_lib :: "u32 list \<Rightarrow> u8 \<Rightarrow> est_lib" where
  "sample_lib ts far = \<lparr>el_pdrs = map sample_pdr ts, el_pdr_cause = (1, 0), el_far_cause = (far, 0), el_apn_dnn = None, el_qer_cause = (1, 0),
     el_bar_cause = (1, 0), el_gtpu_ok = True, el_restoration = False, el_swap = \<lambda>_. 1, el_pdn_type = None, el_response_ok = True\<rparr>"

definition sample_df :: df_world where
  "sample_df = (df_context_init 2 [zero_df_sess, zero_df_sess] 3)\<lparr>dn3_open := True\<rparr>"

definition sample_df_env :: df_env where
  "sample_df_env = \<lparr>df_time_now = 40, df_sendto = \<lambda>bs a. int (length bs), ue_ip_alloc = \<lambda>_ _. (None, 64)\<rparr>"

definition df_machine :: "df_state ogs_fsm" where
  "df_machine = \<lparr>init = Some DfInitial, fini = Some DfFinal, state = Some DfOperational\<rparr>"

lemma sample_df_ok:
  "df_inv [0, 1] sample_df" "seid_room sample_df" "teid_room 16 sample_df" "seid_map sample_df = (\<lambda>_. None)" "teid_map sample_df = (\<lambda>_. None)"
  "dn3_open sample_df" "last_discovery sample_df = 0" "df_actions sample_df = []"
proof -
  have "[0..<2] = [0, 1 :: nat]" by (simp add: numeral_2_eq_2)
  then show "df_inv [0, 1] sample_df" using df_inv_init(1) [of 2 "[zero_df_sess, zero_df_sess]" 3] by (simp add: sample_df_def)
qed (simp_all add: sample_df_def df_context_init_def seid_room_def teid_room_def seid_map_def teid_map_def)

lemma sample_lib_accepted: "length ts \<le> 16 \<Longrightarrow> est_accepted (sample_lib ts 1)" "map pdr_teid (el_pdrs (sample_lib ts c)) = ts"
  "teids_of (el_pdrs (sample_lib ts c)) = set ts - {0}" "length (el_pdrs (sample_lib ts c)) = length ts"
  by (simp_all add: est_accepted_def sample_lib_def OGS_PFCP_CAUSE_REQUEST_ACCEPTED_def OGS_MAX_NUM_OF_PDR_def teids_of_def sample_pdr_def image_image comp_def)

text \<open>A DF with one established session, for SEID 5 and TEID 7.\<close>

lemma sample_session:
  "\<exists>w. df_inv [1] w \<and> dn3_open w \<and> last_discovery w = 0 \<and> seid_map w = [le64 5 \<mapsto> 0] \<and> teid_map w = [le32 7 \<mapsto> 0]
    \<and> (let s = df_mem_sess w ! 0 in d_seid s = 5 \<and> d_forward s \<and> d_dn4_teid s = 5 \<and> d_ran_teid s = 7 \<and> d_ipv4 s = NoIp \<and> d_ipv6 s = NoIp)"
proof -
  have r: "foldl next_ran_teid 0 (el_pdrs (sample_lib [7] 1)) = 7" by (simp add: next_ran_teid_def sample_pdr_def sample_lib_def)
  have t: "teids_of (el_pdrs (sample_lib [7] 1)) = {7}" "distinct (filter (\<lambda>t. t \<noteq> 0) (map pdr_teid (el_pdrs (sample_lib [7] 1))))"
    by (simp_all add: sample_lib_accepted)
  have "seid_map sample_df (le64 5) = None" "teid_room OGS_MAX_NUM_OF_PDR sample_df" "est_accepted (sample_lib [7] 1)"
    using sample_df_ok sample_lib_accepted(1) [of "[7]"] by (simp_all add: OGS_MAX_NUM_OF_PDR_def)
  from establishment_ok [OF sample_df_ok(1,2) this(2,1) _ this(3) t(2), of True False sample_df_env 0 None 0]
  obtain w where "df_inv [1] w" "dn3_open w" "last_discovery w = 0" "seid_map w = [le64 5 \<mapsto> 0]"
    "teid_map w = (\<lambda>bs. if bs \<in> le32 ` {7} then Some 0 else None)"
    "let s = df_mem_sess w ! 0 in d_seid s = 5 \<and> d_forward s \<and> d_dn4_teid s = 5 \<and> d_ran_teid s = 7 \<and> d_ipv4 s = NoIp \<and> d_ipv6 s = NoIp"
    unfolding r t(1) sample_df_ok(4,5) using sample_df_ok(6,7) by auto
  moreover from this(5) have "teid_map w = [le32 7 \<mapsto> 0]" by (auto simp: fun_eq_iff)
  ultimately show ?thesis by blast
qed

subsection \<open>A refused establishment\<close>

lemma cleared_lookup:
  assumes "df_inv fs w" "teid_map w (le32 t) = Some n"
  shows "df_sess_find_by_teid t (ogs_pfcp_sess_clear n w) = None"
proof -
  let ?w = "ogs_pfcp_sess_clear n w" and ?m = "df_mem (df_mem_sess w)"
  have tab: "table_ok (\<lambda>n p. \<exists>i. p = DPdr n i) (live (df_pool w)) (df_mem_sess w) (teid_hash w)"
    using assms(1) by (simp add: df_inv_def tables_ok_def)
  then have inv: "hash_inv ?m (teid_hash w)" by (simp add: table_ok_def)
  have "n \<in> live (df_pool w)" using table_key [OF tab] assms(2) by (simp add: teid_map_def)
  then have nl: "n < length (df_mem_sess w)" by (rule live_bound [OF assms(1)])
  have w: "teid_hash ?w = teid_hash w" "df_mem_sess ?w = (df_mem_sess w)[n := (df_mem_sess w ! n)\<lparr>d_pdrs := []\<rparr>]"
    by (simp_all add: ogs_pfcp_sess_clear_def upd_df_def)
  have e: "df_mem (df_mem_sess ?w) (he_key e) = (if he_val e = n then [] else ?m (he_key e))" if "e \<in> set (entries (teid_hash w))" for e
    using tab that nl unfolding w by (auto simp: table_ok_def nth_list_update)
  have "he_val e = n" if "e \<in> set (entries (teid_hash w))" "entry_key ?m e = Some (le32 t)" for e
    using hash_map_Some_iff [OF inv, of "le32 t" "he_val e"] assms(2) that by (auto simp: teid_map_def)
  then have "find_entry (df_mem (df_mem_sess ?w)) (teid_hash w) (DLocal (le32 t)) 4 None = None"
    using e assms(2) by (intro find_stale [OF inv, of "le32 t"]) (auto simp: teid_map_def read_key_def OGS_HASH_KEY_STRING_def simp flip: length_greater_0_conv)
  then show ?thesis by (simp add: df_sess_find_by_teid_def df_lookup_def ogs_hash_get_def w)
qed

subsection \<open>Properties\<close>



text \<open>C23. A G-PDU with version 1 that the DF receives on DN3 for the TEID of a session goes to the DNF as one datagram: a new 12-byte header of version 0
  with the session's DN4 TEID and the length of the rest, followed by the received bytes after the first twelve. Nothing else changes but the
  time of the last discovery. The clock, cut to 32 bits, must not have moved so far that the difference overflows.\<close>

theorem df_relays_gpdu:
  assumes "df_inv fs w" "dn3_open w" "12 \<le> length d" "length d \<le> OGS_MAX_SDU_LEN" "get_gtp2_header d = Some h"
    and "drop_bit 5 (flags h) = 1" "gtype h = OGS_GTPU_MSGTYPE_GPDU" "df_sess_find_by_teid (gteid h) w = Some (Some n)"
    and "d_forward (df_mem_sess w ! n)" "no_overflow env w"
  shows "\<exists>t. df_dn3_recv_cb env (Some (d, from)) w
    = Some ([(dn4_addr w, [0, 255] @ be16 (of_nat (length d - 12)) @ be32 (d_dn4_teid (df_mem_sess w ! n)) @ [0, 0, 0, 0] @ drop 12 d)],
        w\<lparr>last_discovery := t\<rparr>)"
  using df_recv_gpdu [OF assms(1-7) _ assms(9,10)] assms(8) df_inv_find(2) [OF assms(1)] by simp

theorem df_relays_gpdu_witness:
  "\<exists>w t. df_inv [1] w \<and> df_dn3_recv_cb sample_df_env (Some ([0x20, 255, 0, 5, 0, 0, 0, 7, 0, 0, 0, 0, 9], \<lparr>sin_port = 2152, sin_addr = 1\<rparr>)) w
    = Some ([(dn4_addr w, [0, 255, 0, 1, 0, 0, 0, 5, 0, 0, 0, 0, 9])], w\<lparr>last_discovery := t\<rparr>)"
proof -
  let ?d = "[0x20, 255, 0, 5, 0, 0, 0, 7, 0, 0, 0, 0, 9] :: u8 list"
  obtain w where w: "df_inv [1] w" "dn3_open w" "last_discovery w = 0" "teid_map w = [le32 7 \<mapsto> 0]"
    "d_forward (df_mem_sess w ! 0)" "d_dn4_teid (df_mem_sess w ! 0) = 5"
    using sample_session by (auto simp: Let_def)
  have h: "get_gtp2_header ?d = Some \<lparr>flags = 0x20, gtype = 255, glength = 5, gteid = 7, sqn = 0\<rparr>" by (simp add: rd16_def rd32_def)
  have "no_overflow sample_df_env w" by (simp add: no_overflow_def sample_df_env_def w(3) signed_take_bit_eq_take_bit_minus)
  moreover have "df_sess_find_by_teid 7 w = Some (Some 0)" using df_inv_find(2) [OF w(1)] w(4) by simp
  ultimately show ?thesis
    using df_relays_gpdu [OF w(1,2) _ _ h, of 0 sample_df_env "\<lparr>sin_port = 2152, sin_addr = 1\<rparr>"] w
    by (auto simp: OGS_MAX_SDU_LEN_def OGS_GTPU_MSGTYPE_GPDU_def be16_def be32_def)
qed





text \<open>A parsed PFCP message of a known node is queued, and dispatching its event is handling the message.\<close>

lemma pfcp_recv_dispatch:
  assumes "rcv_message r = Some msg" "rcv_status r \<noteq> NodeIdError" "rcv_find r = Some node"
    and "pool_repr p (i # fs)" "queue_repr q es" "length es < bounds q" "state sm = Some DfOperational"
  shows "\<exists>p' q' ev. pfcp_recv_cb (Some r) (p, q) = Some (p', q') \<and> pool_repr p' fs \<and> queue_repr q' (es @ [ev])
    \<and> ogs_fsm_dispatch (df_sem env) sm w (Some ev) = map_option (\<lambda>w. (sm, w, Some ev)) (df_pfcp_handle_message env (Some node) (Some msg) w)"
proof -
  obtain p' where p': "ogs_pool_alloc p = Some (Some i, p')" "pool_repr p' fs" using pool_alloc_repr [OF assms(4)] by blast
  have full: "\<not> ogs_queue_full q" using queue_repr_full_empty [OF assms(5)] assms(6) by simp
  have "pfcp_recv_cb (Some r) (p, q) = Some (p', store q (pfcp_event i node msg))"
    using assms(1-3) p'(1) full by (simp add: pfcp_recv_cb_def df_event_new_def push_event_def queue_push_locked_def pfcp_event_def)
  moreover have "queue_repr (store q (pfcp_event i node msg)) (es @ [pfcp_event i node msg])" using queue_repr_store [OF assms(5)] assms(6) by simp
  ultimately show ?thesis using p'(2) dispatch_pfcp [OF assms(7), of env w i node msg] by blast
qed

text \<open>The callback of every timer of the DF puts an event into the queue that the DF takes for a PFCP message, but that has none: as soon as the
  main loop handles it, the assertion on the message fails and the DF aborts, whatever its state is.\<close>

theorem df_timer_aborts:
  assumes "timer_id \<in> {DF_TIMER_PFCP_ASSOCIATION, DF_TIMER_PFCP_NO_HEARTBEAT, DF_TIMER_DATA_FORWARD, DF_TIMER_DNF_DISCOVERY}"
    and "pool_repr p (i # fs)" "queue_repr q es" "length es < bounds q" "state sm = Some DfOperational"
  shows "\<exists>p' q' ev. timer_send_event timer_id (Some node) (p, q) = Some (p', q') \<and> queue_repr q' (es @ [ev])
    \<and> ogs_fsm_dispatch (df_sem env) sm w (Some ev) = None"
proof -
  obtain p' where p': "ogs_pool_alloc p = Some (Some i, p')" using pool_alloc_repr [OF assms(2)] by blast
  have full: "\<not> ogs_queue_full q" using queue_repr_full_empty [OF assms(3)] assms(4) by simp
  define e where "e = \<lparr>de_slot = i, de_timer_id = timer_id, de_node = (if timer_id \<in> {DF_TIMER_PFCP_ASSOCIATION, DF_TIMER_PFCP_NO_HEARTBEAT}
    then Some node else None), de_message = None\<rparr>"
  let ?ev = "\<lparr>ev_id = DF_EVT_PFCP_MESSAGE, ev_data = Some e\<rparr>"
  have "timer_send_event timer_id (Some node) (p, q) = Some (p', store q ?ev)"
    using assms(1) p' full by (auto simp: timer_send_event_def df_event_new_def push_event_def queue_push_locked_def e_def)
  moreover have "queue_repr (store q ?ev) (es @ [?ev])" using queue_repr_store [OF assms(3)] assms(4) by simp
  moreover have "ogs_fsm_dispatch (df_sem env) sm w (Some ?ev) = None"
    using assms(5) by (cases "de_node e") (simp_all add: ogs_fsm_dispatch_def df_state_operational_def df_pfcp_handle_message_def df_event_defs e_def)
  ultimately show ?thesis by blast
qed

theorem df_timer_aborts_witness:
  "\<exists>p' q' ev. timer_send_event DF_TIMER_DNF_DISCOVERY (Some 0) (ogs_pool_init 2 [0, 0] 0 5, ogs_queue_create 4) = Some (p', q')
    \<and> queue_repr q' [ev] \<and> ogs_fsm_dispatch (df_sem sample_df_env) df_machine sample_df (Some ev) = None"
  using df_timer_aborts [of DF_TIMER_DNF_DISCOVERY "ogs_pool_init 2 [0, 0] 0 5" 0 "[1]" "ogs_queue_create 4" "[]" df_machine 0]
    pool_repr_init [of 2 "[0, 0]" 0 5] queue_repr_create [of 4]
  by (simp add: df_machine_def ogs_queue_create_def numeral_2_eq_2)

end
