(* ===== verification/Spec2Isabelle.thy ===== *)
theory Spec2Isabelle
  imports Ogs_Prelude Ogs_List Ogs_Hash Ogs_Pool Ogs_Queue Ogs_Fsm Ogs_Tlv Ogs_Pkbuf Ogs_Gtpu Ogs_Main
    Ogs_Rbtree Ogs_Timer Ogs_Sockaddr Pfcp_Xact Pfcp_Path Dnf Ogs_Cstr Ogs_Conv Pfcp_Types Pfcp_Node Dsmf_Pfcp Df_Pfcp Gnb_Sync Dmf Dsmf Df
begin

section \<open>A verification of the OgsDp data plane chain and of the library under it\<close>

text \<open>
  OgsDp is Open5GS with four additional network functions. The AMF announces gNBs and the RAN side of their
  PDU sessions to the \<^bold>\<open>DMF\<close> over HTTP/2; the DMF keeps a registry of gNBs and forwards RAN data to the \<^bold>\<open>DSMF\<close>;
  the DSMF creates a session from them and asks a \<^bold>\<open>DF\<close> for a tunnel with a PFCP Session Establishment
  Request; the DF relays GTP-U user data to the \<^bold>\<open>DNF\<close>, which finds the session of the tunnel and relays to
  the application. All of them are event loops over \<open>src/lib/core\<close>: a message arrives on a socket, a handler pushes an event
  into the queue of the function, the main loop drains the queue and dispatches each event to a
  state machine, whose handlers use the lists, hash tables and pools of the library.

  \<^bold>\<open>Theories.\<close> Each theory follows one component; the names of its definitions are those of the C functions.

  \<^item> \<open>Ogs_Prelude\<close>: machine integer types, \<open>ogs_assert\<close> (an abort is \<open>None\<close>), option-monad loops,
    little- and big-endian encodings, and the general lemmas of the rest.
  \<^item> \<open>Ogs_List\<close> (\<open>lib/core/ogs-list.h\<close>): the intrusive doubly linked list in an explicit heap of nodes.
    Every operation refines the operation on the sequence of the nodes; \<open>insert_sorted\<close> is correct for every comparison.
  \<^item> \<open>Ogs_Hash\<close> (\<open>lib/core/ogs-hash.c\<close>): buckets, \<open>find_entry\<close>, expansion, iteration and the hash function with
    its 32-bit wrap-around. Tables keep pointers to their keys, so every operation takes the memory that gives the bytes
    of a key; the operations refine a map as long as the bytes of the stored keys stay, and \<open>find_gone\<close> says what happens when they do not.
  \<^item> \<open>Ogs_Pool\<close> (\<open>lib/core/ogs-pool.h\<close>): the ring of free nodes, the index array, identifiers
    that wrap around, and the random identifiers of \<open>ogs_pool_random_id_generate\<close>.
  \<^item> \<open>Ogs_Queue\<close> (\<open>lib/core/ogs-queue.c\<close>): the bounded queue, with one step per critical section of the mutex, and every
    interleaving of pushing and popping threads as a run of the step relation.
  \<^item> \<open>Ogs_Fsm\<close> (\<open>lib/core/ogs-fsm.c\<close>): state machines with handlers as a parameter; \<open>Ogs_Main\<close>: the
    main loop that all four functions share (\<open>dmf_main\<close>, \<open>dsmf_main\<close>, \<open>df_main\<close>, \<open>dnf_main\<close>).
  \<^item> \<open>Ogs_Rbtree\<close> (\<open>lib/core/ogs-rbtree.c\<close>): the red-black tree over a heap of nodes with parent pointers. Insertion and deletion keep the colours
    and change the in-order sequence as they should; the proofs go through an abstract tree and the path of frames from a node to the root.
  \<^item> \<open>Ogs_Timer\<close> (\<open>lib/core/ogs-timer.c\<close>): the timer manager on that tree, the pool and the list: what is due is called back, in order.
  \<^item> \<open>Ogs_Tlv\<close> (\<open>lib/core/ogs-tlv.c\<close>): rendering and parsing of TLV blocks in all modes, over a buffer that may end early.
  \<^item> \<open>Ogs_Pkbuf\<close> (\<open>lib/core/ogs-pkbuf.c\<close>) and \<open>Ogs_Gtpu\<close> (\<open>lib/gtp\<close>): packet buffers as offsets into a cluster, and the GTP-U headers.
  \<^item> \<open>Pfcp_Xact\<close> (\<open>lib/pfcp/xact.c\<close>): the transactions of PFCP on the pool, the lists of the nodes and three timers each. Every run of their
    operations and of expiries keeps an invariant of lists and timers, and none is stuck. \<open>Pfcp_Path\<close> (\<open>lib/pfcp/path.c\<close>): the heartbeat and
    association messages, the retries of a request, requests received twice, and a heartbeat between two functions.
  \<^item> \<open>Ogs_Conv\<close> (\<open>lib/core/ogs-conv.c\<close>): hexadecimal and BCD texts and numbers in buffers. \<open>Ogs_Sockaddr\<close> (\<open>lib/core/ogs-sockaddr.c\<close>): lists of
    addresses. \<open>Pfcp_Types\<close> (\<open>lib/pfcp/types.c\<close>): the information elements with optional fields and the domain names, built and parsed.
  \<^item> \<open>Pfcp_Node\<close> (\<open>lib/pfcp/context.c\<close>, \<open>util.c\<close>, \<open>handler.c\<close>): node identifiers, the list of peers and the heartbeat and association handlers, over the
    transactions. One invariant holds nodes and transactions together; every operation keeps it. \<open>Dsmf_Pfcp\<close> (\<open>src/dsmf\<close>): opening, reception and the
    machine of a node in the DSMF, in all histories of messages, requests and timeouts. \<open>Df_Pfcp\<close> (\<open>src/df\<close>): the same for the DF, and the association of the two.
  \<^item> \<open>Dnf\<close> (\<open>src/dnf\<close>): sessions, the reception of G-PDUs and echo requests, the state machine.
  \<^item> \<open>Ogs_Cstr\<close>: the C string functions the JSON-like bodies are made and read with (\<open>snprintf\<close>,
    \<open>strstr\<close>, \<open>strncpy\<close>, \<open>atoi\<close>, decimal printing). \<open>Gnb_Sync\<close> (\<open>src/amf\<close>, \<open>src/dmf\<close>, \<open>src/dsmf\<close>): the
    bodies the AMF prints and the parser of the receivers, with the round trip between them.
  \<^item> \<open>Dmf\<close> (\<open>src/dmf\<close>): the gNB registry, the request handlers and the state machine.
  \<^item> \<open>Dsmf\<close> (\<open>src/dsmf\<close>): sessions and their tables, the SBI handlers, and the PFCP requests and responses.
  \<^item> \<open>Df\<close> (\<open>src/df\<close>): sessions and their tables, whose keys lie in the sessions and their PDRs, the PFCP handlers, the relay to
    the DNF, the state machine and the events of its timers. What \<open>lib/pfcp\<close> makes of the rules of a request is a parameter.

  \<^bold>\<open>Interfaces.\<close> Where a component relies on another, the laws are a locale that is interpreted on the model: the
    hash table as a finite map of keys to values, the list and the red-black tree as sequences, the queue, the pool, the callbacks of timers (of clients that stop their timers, and
    of clients that stop others' too, as the transactions of PFCP do), and the gNB registry of the DMF. The properties below and in the component theories rest on the facts of these interpretations.

  \<^bold>\<open>What is shown.\<close> For the library: the data structures implement their abstract counterparts (sequence, map, first-in-first-out
  queue, set of free nodes, sorted sequence of timers) from their initial states on, TLV blocks round-trip, packet buffers keep their bounds, PFCP requests are
  retried, answered once or given up, their information elements round-trip. For the functions:
  each handler on each branch, the correspondence of the tables with the sessions, and the chain from the AMF to the request the DF receives and from the RAN to the DOMF as one
  statement. Where the code does not do what it is written for, the theorem states what it does: an announcement always
  carries identifier 0, standard G-PDUs lose the first four bytes of their payload on the way, keys dangle after a session is reused or refused, a TLV length is trusted, a timer that was stopped may still fire, a peer's
  heartbeat response ends the DSMF, and an association it asks for is not answered.

  \<^bold>\<open>Conventions.\<close> A failed \<open>ogs_assert\<close>, a signed overflow, and reading memory the program does not
  own are \<open>None\<close>, so \<open>Some\<close> in a conclusion says that none of them happens. Unsigned arithmetic is on words and
  wraps. Loops of the code are structural recursion, or recursion with a measure; the loops over tables and
  buffers have no fuel. The main loop handles the events that are in the queue when a batch starts and those pushed
  meanwhile, as an explicit sequence of iterations. Calls that only log have no counterpart.

  \<^bold>\<open>Parameters.\<close> Uninitialised memory, the seed of the hash function, the values of \<open>ogs_random32\<close>, the clock, the outcome
  of \<open>sendto\<close>, name resolution, HTTP parsing, discovery through the NRF, the transactions of
  \<open>lib/sbi\<close>, and for the sessions of the DSMF and the DF what \<open>lib/pfcp\<close> does with their messages, are arguments of the definitions, gathered in an environment record for each function.

  \<^bold>\<open>Not modelled.\<close> Sockets, polling, threads, logging and configuration files; the HTTP/2, ASN.1, Diameter and database layers;
  generated message codecs; the Open5GS functions outside the chain. What is left of the code next to the model: the rules of \<open>lib/pfcp\<close> (PDRs and FARs), the transactions of \<open>lib/gtp\<close>, \<open>lib/crypt\<close>.
\<close>

section \<open>From the AMF to the DF\<close>

text \<open>C2. End to end: the RAN data of a PDU session (identifiers without quotes, an IPv4 address that
  name resolution and \<open>inet_pton\<close> agree on, a port and a TEID other than zero, the TEID below $2^{31}$) go from the AMF
  through the DMF, which forwards exactly one body, to a freshly started DSMF, which creates a session from that body and asks the
  DF for an uplink tunnel with the same address and TEID.\<close>

theorem ran_data_reaches_df:
  assumes "amf_sbi_send_gnb_sync_with_ran_info_to_dmf aenv g ss addr port tid = (OGS_OK, Some body)"
    and "sbi_good env stream" "state sm = Some DmfOperational" "xact_added env" "discover_ok env"
    and "started n seids garbage" "env_good denv dstream" "getaddrinfo denv addr = Some a"
    and "CHR 0x22 \<notin> set g" "CHR 0x22 \<notin> set ss" "CHR 0x22 \<notin> set addr"
    and "port \<noteq> 0" "tid \<noteq> 0" "unat tid < 2 ^ 31"
  shows "\<exists>w' ev fwd w2 node. ogs_fsm_dispatch (dmf_sem env) sm w (Some (sync_event stream body)) = Some (sm, w', ev)
    \<and> actions w' = actions w @ [SendResponse stream 200 ''{}'', ToDsmf fwd]
    \<and> dsmf_sbi_server_handler denv dstream (Some fwd) (dsmf_context_init n seids garbage sd peers) = Some (OGS_OK, w2)
    \<and> w_peers w2 ! node = Some df_address
    \<and> w_actions w2 = [PfcpSend node (scast (seids ! 1)) 0 (EstablishmentRequest (uplink_request (scast (seids ! 1)) a tid)),
         SbiRespond dstream 200 ''{}'']"
proof -
  have b: "body = ran_body g ss addr port tid"
    using assms(1) by (auto simp: amf_sbi_send_gnb_sync_with_ran_info_to_dmf_def send_to_dmf_def split: if_splits)
  obtain w2 node where "dsmf_sbi_server_handler denv dstream (Some body) (dsmf_context_init n seids garbage sd peers) = Some (OGS_OK, w2)"
    "w_peers w2 ! node = Some df_address"
    "w_actions w2 = [PfcpSend node (scast (seids ! 1)) 0 (EstablishmentRequest (uplink_request (scast (seids ! 1)) a tid)),
       SbiRespond dstream 200 ''{}'']"
    using first_request [OF assms(6-14), of sd peers] unfolding b by blast
  moreover have "\<exists>w' ev. ogs_fsm_dispatch (dmf_sem env) sm w (Some (sync_event stream body)) = Some (sm, w', ev)
      \<and> actions w' = actions w @ [SendResponse stream 200 ''{}'', ToDsmf body]"
    unfolding b using dispatch_sync [OF assms(2,3)] gnb_sync_ran [OF assms(9-11,14)] assms(4,5)
    by (simp add: dmf_forward_to_dsmf_def Dmf.act_def)
  ultimately show ?thesis by blast
qed

theorem ran_data_reaches_df_witness:
  "\<exists>w' ev fwd w2. ogs_fsm_dispatch (dmf_sem sample_dmf_env) sample_sm \<lparr>gnbs = [], actions = []\<rparr>
        (Some (sync_event 1 (ran_body ''12'' ''imsi-1_5'' ''10.0.0.1'' 2152 77))) = Some (sample_sm, w', ev)
    \<and> actions w' = [SendResponse 1 200 ''{}'', ToDsmf fwd]
    \<and> dsmf_sbi_server_handler sample_dsmf_env 1 (Some fwd) (dsmf_context_init 2 [5, 6] [zero_sess, zero_sess] 3 []) = Some (OGS_OK, w2)"
proof -
  have a: "amf_sbi_send_gnb_sync_with_ran_info_to_dmf online ''12'' ''imsi-1_5'' ''10.0.0.1'' 2152 77
      = (OGS_OK, Some (ran_body ''12'' ''imsi-1_5'' ''10.0.0.1'' 2152 77))"
    by (simp add: amf_sbi_send_gnb_sync_with_ran_info_to_dmf_def send_to_dmf_def online_def)
  have e: "state sample_sm = Some DmfOperational" "xact_added sample_dmf_env" "discover_ok sample_dmf_env"
    by (simp_all add: sample_sm_def sample_dmf_env_def)
  have "started 2 [5, 6] [zero_sess, zero_sess]" "getaddrinfo sample_dsmf_env ''10.0.0.1'' = Some 0x0a000001"
    by (simp_all add: started_def sample_dsmf_env_def)
  then show ?thesis
    using ran_data_reaches_df [OF a sample_sbi_good e _ sample_env_good, of 2 "[5, 6]" "[zero_sess, zero_sess]" "0x0a000001"
        "\<lparr>gnbs = [], actions = []\<rparr>" 3 "[]"] by auto
qed



section \<open>From the RAN to the DOMF\<close>



end
